(* ===== verification/Prelude.thy ===== *)
theory Prelude
  imports Complex_Main "HOL-Library.AList"
begin

text \<open>
  Shared vocabulary of the development: Python strings, dictionaries and dynamically typed values.

  \<^item> A Python \<open>str\<close> is a \<^typ>\<open>string\<close>, read as a sequence of code points in the range
    U+0000 to U+00FF (one \<^typ>\<open>char\<close> each). Every character the modelled code tests for is an
    ASCII character, and \<open>str.isspace\<close> / \<open>str.lower\<close> are modelled on that whole range.
  \<^item> A Python \<open>dict\<close> is an association list in insertion order. \<^const>\<open>AList.update\<close> overwrites
    in place and appends a new key at the end, \<^const>\<open>AList.delete\<close> removes a key, \<^const>\<open>map_of\<close>
    is \<open>dict.get\<close>: exactly the order CPython keeps.
  \<^item> A value the code inspects with \<open>isinstance\<close>, \<open>dict.get\<close> and \<open>getattr\<close> is a \<open>pyval\<close>.
\<close>

named_theorems dict_simps \<open>lookup and key-set equations of insertion-ordered dictionaries\<close>
named_theorems str_simps \<open>equations of the modelled str methods\<close>

section \<open>Strings\<close>

text \<open>\<open>str.isspace\<close> on U+0000 to U+00FF, which is also what \<open>\s\<close> matches in a \<open>str\<close> pattern.\<close>

definition is_space :: "char \<Rightarrow> bool" where
  "is_space c = (let n = (of_char c :: nat)
     in 9 \<le> n \<and> n \<le> 13 \<or> 28 \<le> n \<and> n \<le> 32 \<or> n = 133 \<or> n = 160)"

text \<open>\<open>str.lower\<close> on one character of U+0000 to U+00FF.\<close>

definition lower_char :: "char \<Rightarrow> char" where
  "lower_char c = (let n = (of_char c :: nat)
     in if 65 \<le> n \<and> n \<le> 90 \<or> 192 \<le> n \<and> n \<le> 222 \<and> n \<noteq> 215 then char_of (n + 32) else c)"

definition lower_str :: "string \<Rightarrow> string" where
  "lower_str s = map lower_char s"

definition lstrip :: "string \<Rightarrow> string" where
  "lstrip s = dropWhile is_space s"

definition rstrip :: "string \<Rightarrow> string" where
  "rstrip s = rev (dropWhile is_space (rev s))"

definition strip :: "string \<Rightarrow> string" where
  "strip s = rstrip (lstrip s)"

fun starts_with :: "string \<Rightarrow> string \<Rightarrow> bool" where
  "starts_with [] s = True"
| "starts_with (p # ps) [] = False"
| "starts_with (p # ps) (c # s) = (p = c \<and> starts_with ps s)"

definition ends_with :: "string \<Rightarrow> string \<Rightarrow> bool" where
  "ends_with p s = starts_with (rev p) (rev s)"

text \<open>\<open>str.find\<close> and \<open>str.rfind\<close> (\<open>None\<close> for \<open>-1\<close>), and \<open>in\<close> on strings.\<close>

fun find_sub :: "string \<Rightarrow> string \<Rightarrow> nat option" where
  "find_sub p [] = (if p = [] then Some 0 else None)"
| "find_sub p (c # s) =
     (if starts_with p (c # s) then Some 0 else map_option Suc (find_sub p s))"

fun rfind_sub :: "string \<Rightarrow> string \<Rightarrow> nat option" where
  "rfind_sub p [] = (if p = [] then Some 0 else None)"
| "rfind_sub p (c # s) =
     (case rfind_sub p s of
        Some k \<Rightarrow> Some (Suc k)
      | None \<Rightarrow> if starts_with p (c # s) then Some 0 else None)"

definition contains_sub :: "string \<Rightarrow> string \<Rightarrow> bool" where
  "contains_sub p s = (find_sub p s \<noteq> None)"

text \<open>\<open>str.partition\<close>: the text before the first separator, the separator, the text after it.\<close>

definition partition_sub :: "string \<Rightarrow> string \<Rightarrow> string \<times> string \<times> string" where
  "partition_sub sep s =
     (case find_sub sep s of
        None \<Rightarrow> (s, [], [])
      | Some k \<Rightarrow> (take k s, sep, drop (k + length sep) s))"

text \<open>\<open>str.split(sep, maxsplit)\<close> for a non-empty separator.\<close>

fun split_max :: "nat \<Rightarrow> string \<Rightarrow> string \<Rightarrow> string list" where
  "split_max 0 sep s = [s]"
| "split_max (Suc n) sep s =
     (case find_sub sep s of
        None \<Rightarrow> [s]
      | Some k \<Rightarrow> take k s # split_max n sep (drop (k + length sep) s))"

fun join_str :: "string \<Rightarrow> string list \<Rightarrow> string" where
  "join_str sep [] = []"
| "join_str sep [x] = x"
| "join_str sep (x # y # xs) = x @ sep @ join_str sep (y # xs)"

fun nat_digits :: "nat \<Rightarrow> string" where
  "nat_digits n =
     (if n < 10 then [char_of (48 + n)] else nat_digits (n div 10) @ [char_of (48 + n mod 10)])"

declare nat_digits.simps [simp del]

definition is_digit :: "char \<Rightarrow> bool" where
  "is_digit c = (48 \<le> (of_char c :: nat) \<and> (of_char c :: nat) \<le> 57)"

text \<open>\<open>int(s)\<close> of a string of digits.\<close>

definition digits_nat :: "string \<Rightarrow> nat" where
  "digits_nat ds = foldl (\<lambda>n c. 10 * n + (of_char c - 48)) 0 ds"

text \<open>\<open>s.split(c)\<close>.\<close>

fun split_on :: "char \<Rightarrow> string \<Rightarrow> string list" where
  "split_on c [] = [[]]"
| "split_on c (x # s) =
     (if x = c then [] # split_on c s else (case split_on c s of [] \<Rightarrow> [[x]] | w # ws \<Rightarrow> (x # w) # ws))"

lemma split_on_append: "c \<notin> set w \<Longrightarrow> split_on c (w @ c # s) = w # split_on c s"
  by (induction w) auto

lemma split_on_plain: "c \<notin> set w \<Longrightarrow> split_on c w = [w]"
  by (induction w) auto

lemma parts_of_split: "w \<in> set (split_on c s) \<Longrightarrow> c \<notin> set w"
  by (induction s arbitrary: w) (auto split: if_splits list.splits)

lemma split_join: "ws \<noteq> [] \<Longrightarrow> list_all (\<lambda>w. c \<notin> set w) ws \<Longrightarrow> split_on c (join_str [c] ws) = ws"
  by (induction "[c]" ws rule: join_str.induct) (simp_all add: split_on_append split_on_plain)

text \<open>\<open>s[:n]\<close> and \<open>s.replace(a, b)\<close>.\<close>

definition py_take :: "int \<Rightarrow> 'a list \<Rightarrow> 'a list" where
  "py_take n xs = (if 0 \<le> n then take (nat n) xs else take (length xs - nat (- n)) xs)"

function replace_from :: "string \<Rightarrow> string \<Rightarrow> string \<Rightarrow> string" where
  "replace_from a b s =
     (if s = [] then []
      else if starts_with a s \<and> a \<noteq> [] then b @ replace_from a b (drop (length a) s)
      else hd s # replace_from a b (tl s))"
  by pat_completeness auto
termination
  by (relation "measure (\<lambda>(a, b, s). length s)") auto

declare replace_from.simps [simp del]

definition replace_sub :: "string \<Rightarrow> string \<Rightarrow> string \<Rightarrow> string" where
  "replace_sub a b s = (if a = [] then b @ concat (map (\<lambda>c. c # b) s) else replace_from a b s)"

lemma nat_digits_digit: "c \<in> set (nat_digits n) \<Longrightarrow> is_digit c"
proof (induction n rule: nat_digits.induct)
  case (1 n)
  then show ?case by (subst (asm) (2) nat_digits.simps) (auto simp: is_digit_def split: if_splits)
qed

lemma nat_digits_nonempty [simp]: "nat_digits n \<noteq> []"
  by (subst nat_digits.simps) simp

lemma digits_nat_nat_digits [simp]: "digits_nat (nat_digits n) = n"
proof (induction n rule: nat_digits.induct)
  case (1 n)
  then show ?case by (subst nat_digits.simps) (auto simp: digits_nat_def)
qed

lemma hd_nat_digits: "0 < n \<Longrightarrow> hd (nat_digits n) \<noteq> CHR ''0''"
proof -
  have "0 < n \<Longrightarrow> (of_char (hd (nat_digits n)) :: nat) \<noteq> 48"
  proof (induction n rule: nat_digits.induct)
    case (1 n)
    then show ?case by (subst nat_digits.simps) (auto simp: hd_append)
  qed
  then show "0 < n \<Longrightarrow> hd (nat_digits n) \<noteq> CHR ''0''" by auto
qed

lemma span_rev_digits:
  "\<not> is_digit c \<Longrightarrow> takeWhile is_digit (rev (nat_digits n) @ c # r) = rev (nat_digits n)"
  "\<not> is_digit c \<Longrightarrow> dropWhile is_digit (rev (nat_digits n) @ c # r) = c # r"
  by (subst takeWhile_append2 dropWhile_append2, auto dest: nat_digits_digit)+

lemma nat_digits_inject: "nat_digits m = nat_digits n \<Longrightarrow> m = n"
  by (metis digits_nat_nat_digits)

definition int_str :: "int \<Rightarrow> string" where
  "int_str i = (if i < 0 then CHR ''-'' # nat_digits (nat (- i)) else nat_digits (nat i))"

lemma starts_with_iff [str_simps]: "starts_with p s \<longleftrightarrow> (\<exists>r. s = p @ r)"
  by (induction p s rule: starts_with.induct) auto

lemma starts_with_refl [simp]: "starts_with p (p @ r)"
  by (simp add: starts_with_iff)

lemma rfind_sub_Some:
  "rfind_sub p s = Some k \<Longrightarrow> starts_with p (drop k s) \<and> k \<le> length s"
  by (induction p s arbitrary: k rule: rfind_sub.induct) (auto split: option.splits if_splits)

lemma rfind_char_None: "rfind_sub [c] s = None \<longleftrightarrow> c \<notin> set s"
  by (induction "[c]" s rule: rfind_sub.induct) (auto split: option.splits)

lemma find_sub_Some:
  "find_sub p s = Some k \<Longrightarrow> starts_with p (drop k s) \<and> k \<le> length s"
  by (induction p s arbitrary: k rule: find_sub.induct) (auto split: if_splits)

lemma find_sub_Some_length:
  assumes "find_sub p s = Some k"
  shows "k + length p \<le> length s"
proof -
  obtain r where "drop k s = p @ r"
    using find_sub_Some [OF assms] by (auto simp: starts_with_iff)
  then have "length s - k = length p + length r"
    by (metis length_append length_drop)
  then show ?thesis
    using find_sub_Some [OF assms] by linarith
qed

lemma partition_sub_join:
  "partition_sub sep s = (a, b, c) \<Longrightarrow> a @ b @ c = s"
proof (cases "find_sub sep s")
  case (Some k)
  assume *: "partition_sub sep s = (a, b, c)"
  obtain r where r: "drop k s = sep @ r"
    using find_sub_Some [OF Some] by (auto simp: starts_with_iff)
  have "sep @ drop (k + length sep) s = drop k s"
    using r by (metis add.commute append_eq_conv_conj drop_drop)
  then show ?thesis
    using * Some by (auto simp: partition_sub_def)
qed (auto simp: partition_sub_def)

lemma strip_subset: "set (strip s) \<subseteq> set s"
proof -
  have drop: "set (dropWhile is_space t) \<subseteq> set t" for t
    by (auto dest: set_dropWhileD)
  show ?thesis
    using drop [of s] drop [of "rev (dropWhile is_space s)"]
    by (simp add: strip_def rstrip_def lstrip_def)
qed

lemma dropWhile_fixed: "xs \<noteq> [] \<Longrightarrow> \<not> P (hd xs) \<Longrightarrow> dropWhile P xs = xs"
  by (cases xs) auto

lemma strip_ends:
  assumes "strip s \<noteq> []"
  shows "\<not> is_space (hd (strip s)) \<and> \<not> is_space (last (strip s))"
proof -
  define t where "t = lstrip s"
  define u where "u = dropWhile is_space (rev t)"
  have u: "u \<noteq> []" and strip: "strip s = rev u"
    using assms by (auto simp: strip_def rstrip_def t_def u_def)
  have last: "\<not> is_space (last (strip s))"
    using u hd_dropWhile [of is_space "rev t"] by (simp add: strip last_rev u_def)
  obtain w where w: "rev t = w @ u"
    unfolding u_def by (metis takeWhile_dropWhile_id)
  then have t: "t = rev u @ rev w"
    by (metis rev_append rev_rev_ident)
  then have "hd (strip s) = hd t" and "t \<noteq> []"
    using u by (auto simp: strip)
  moreover have "\<not> is_space (hd t)"
    using \<open>t \<noteq> []\<close> unfolding t_def lstrip_def by (rule hd_dropWhile)
  ultimately show ?thesis
    using last by simp
qed

lemma strip_strip [simp]: "strip (strip s) = strip s"
proof (cases "strip s = []")
  case True
  then show ?thesis by (metis dropWhile.simps(1) lstrip_def rev.simps(1) rstrip_def strip_def)
next
  case False
  then have "dropWhile is_space (strip s) = strip s"
    and "dropWhile is_space (rev (strip s)) = rev (strip s)"
    using strip_ends [OF False] by (auto intro: dropWhile_fixed simp: hd_rev)
  then show ?thesis by (simp add: strip_def [of "strip s"] lstrip_def rstrip_def)
qed

section \<open>Dictionaries\<close>

type_synonym ('k, 'v) dict = "('k \<times> 'v) list"

abbreviation dict_get :: "('k, 'v) dict \<Rightarrow> 'k \<Rightarrow> 'v option" where
  "dict_get d k \<equiv> map_of d k"

abbreviation dict_set :: "'k \<Rightarrow> 'v \<Rightarrow> ('k, 'v) dict \<Rightarrow> ('k, 'v) dict" where
  "dict_set \<equiv> AList.update"

abbreviation dict_pop :: "'k \<Rightarrow> ('k, 'v) dict \<Rightarrow> ('k, 'v) dict" where
  "dict_pop \<equiv> AList.delete"

abbreviation dict_modify :: "'k \<Rightarrow> ('v \<Rightarrow> 'v) \<Rightarrow> ('k, 'v) dict \<Rightarrow> ('k, 'v) dict" where
  "dict_modify \<equiv> AList.map_entry"

abbreviation keys :: "('k, 'v) dict \<Rightarrow> 'k list" where
  "keys d \<equiv> map fst d"

text \<open>Every dictionary the code builds has each key once.\<close>

definition is_dict :: "('k, 'v) dict \<Rightarrow> bool" where
  "is_dict d = distinct (keys d)"

lemma is_dict_empty [simp]: "is_dict []"
  by (simp add: is_dict_def)

lemma is_dict_set [simp]: "is_dict d \<Longrightarrow> is_dict (dict_set k v d)"
  by (simp add: is_dict_def distinct_update)

lemma is_dict_pop [simp]: "is_dict d \<Longrightarrow> is_dict (dict_pop k d)"
  by (simp add: is_dict_def distinct_delete)

lemma dict_get_set [dict_simps]: "dict_get (dict_set k v d) k' = (if k' = k then Some v else dict_get d k')"
  by (simp add: update_conv')

lemma dict_get_pop [dict_simps]: "dict_get (dict_pop k d) k' = (if k' = k then None else dict_get d k')"
  by (simp add: delete_conv')

lemma dict_get_modify [dict_simps]:
  "dict_get (dict_modify k f d) k' = (if k' = k then map_option f (dict_get d k) else dict_get d k')"
  by (auto simp: map_of_map_entry split: option.split)

lemma keys_modify [simp]: "keys (dict_modify k f d) = keys d"
  by (induction d) auto

lemma is_dict_modify [simp]: "is_dict (dict_modify k f d) = is_dict d"
  by (simp add: is_dict_def)

lemma set_dict_modify:
  "is_dict d \<Longrightarrow> set (dict_modify k f d) = (\<lambda>(i, v). (i, if i = k then f v else v)) ` set d"
  by (induction d) (force simp: is_dict_def image_iff)+

lemma keys_set [dict_simps]: "fst ` set (dict_set k v d) = insert k (fst ` set d)"
  by (induction d) auto

lemma keys_pop [dict_simps]: "fst ` set (dict_pop k d) = fst ` set d - {k}"
  by (induction d) auto

lemma dict_get_None_iff: "dict_get d k = None \<longleftrightarrow> k \<notin> fst ` set d"
  by (simp add: map_of_eq_None_iff)

lemma dict_get_Some_key: "dict_get d k = Some v \<Longrightarrow> k \<in> fst ` set d"
  by (metis dict_get_None_iff option.distinct(1))

lemma dict_get_in: "dict_get d k = Some v \<Longrightarrow> (k, v) \<in> set d"
  by (rule map_of_SomeD)

lemma dict_in_get: "is_dict d \<Longrightarrow> (k, v) \<in> set d \<longleftrightarrow> dict_get d k = Some v"
  by (simp add: is_dict_def)

lemma dict_set_new: "k \<notin> fst ` set d \<Longrightarrow> dict_set k v d = d @ [(k, v)]"
  by (induction d) auto

lemma set_dict_set:
  "is_dict d \<Longrightarrow> set (dict_set k v d) = insert (k, v) {p \<in> set d. fst p \<noteq> k}"
  by (induction d) (auto simp: is_dict_def image_iff)

lemma dict_set_subset: "set (dict_set k v d) \<subseteq> insert (k, v) (set d)"
  by (induction d) auto

lemma set_dict_pop: "set (dict_pop k d) = {p \<in> set d. fst p \<noteq> k}"
  by (induction d) auto

lemma dict_get_filter [dict_simps]:
  "dict_get (filter (\<lambda>(k, v). P k) d) x = (if P x then dict_get d x else None)"
  by (induction d) auto

text \<open>The measure of a loop that marks keys as visited.\<close>

definition unvisited :: "('k, 'v) dict \<Rightarrow> 'k list \<Rightarrow> nat" where
  "unvisited d seen = card (fst ` set d - set seen)"

lemma unvisited_Cons: "dict_get d x = Some v \<Longrightarrow> x \<notin> set seen \<Longrightarrow> unvisited d (x # seen) < unvisited d seen"
  unfolding unvisited_def by (rule psubset_card_mono) (auto dest: dict_get_Some_key)

lemma filter_key_single:
  "distinct (map f xs) \<Longrightarrow> x \<in> set xs \<Longrightarrow> filter (\<lambda>y. f y = f x) xs = [x]"
proof (induction xs)
  case (Cons a xs)
  show ?case
  proof (cases "x = a")
    case True
    then have "filter (\<lambda>y. f y = f x) xs = []"
      using Cons.prems by (auto simp: filter_empty_conv image_iff)
    then show ?thesis using True by simp
  next
    case False
    then have "f a \<noteq> f x" using Cons.prems by (auto simp: image_iff)
    then show ?thesis using False Cons by simp
  qed
qed simp

section \<open>Dynamically typed values\<close>

text \<open>
  The values the code takes apart with \<open>isinstance\<close>: \<open>None\<close>, \<open>bool\<close>, \<open>int\<close>, \<open>str\<close>, \<open>list\<close>, a
  \<open>dict\<close> with string keys, and an object of any other class, given by its attributes (\<open>getattr\<close>). What
  \<open>str(obj)\<close> and \<open>repr(obj)\<close> give for such an object are its attributes \<open>__str__\<close> and \<open>__repr__\<close>.
\<close>

datatype pyval =
    PNone
  | PBool bool
  | PInt int
  | PStr string
  | PList "pyval list"
  | PDict "(string \<times> pyval) list"
  | PObj "(string \<times> pyval) list"

fun truthy :: "pyval \<Rightarrow> bool" where
  "truthy PNone = False"
| "truthy (PBool b) = b"
| "truthy (PInt i) = (i \<noteq> 0)"
| "truthy (PStr s) = (s \<noteq> [])"
| "truthy (PList xs) = (xs \<noteq> [])"
| "truthy (PDict d) = (d \<noteq> [])"
| "truthy (PObj a) = True"

text \<open>\<open>a or b\<close>.\<close>

definition py_or :: "pyval \<Rightarrow> pyval \<Rightarrow> pyval" where
  "py_or a b = (if truthy a then a else b)"

text \<open>\<open>d.get(k, default)\<close> on the items of a dict, \<open>getattr(o, k, None)\<close> on a value.\<close>

definition get_default :: "(string \<times> pyval) list \<Rightarrow> string \<Rightarrow> pyval \<Rightarrow> pyval" where
  "get_default d k v = (case dict_get d k of Some w \<Rightarrow> w | None \<Rightarrow> v)"

abbreviation get_item :: "(string \<times> pyval) list \<Rightarrow> string \<Rightarrow> pyval" where
  "get_item d k \<equiv> get_default d k PNone"

fun get_attr :: "pyval \<Rightarrow> string \<Rightarrow> pyval" where
  "get_attr (PObj a) k = get_item a k"
| "get_attr _ k = PNone"

definition hex_digit :: "nat \<Rightarrow> char" where
  "hex_digit n = (if n < 10 then char_of (48 + n) else char_of (87 + n))"

text \<open>\<open>repr\<close> of a string: the quote CPython picks, and its escapes.\<close>

definition repr_char :: "char \<Rightarrow> char \<Rightarrow> string" where
  "repr_char q c = (let n = (of_char c :: nat) in
     if c = q \<or> n = 92 then [char_of (92 :: nat), c]
     else if n = 9 then [char_of (92 :: nat), CHR ''t'']
     else if n = 10 then [char_of (92 :: nat), CHR ''n'']
     else if n = 13 then [char_of (92 :: nat), CHR ''r'']
     else if n < 32 \<or> 127 \<le> n \<and> n \<le> 160 \<or> n = 173
       then [char_of (92 :: nat), CHR ''x'', hex_digit (n div 16), hex_digit (n mod 16)]
     else [c])"

definition repr_str :: "string \<Rightarrow> string" where
  "repr_str s = (let sq = char_of (39 :: nat); dq = char_of (34 :: nat);
       q = (if sq \<in> set s \<and> dq \<notin> set s then dq else sq)
     in q # concat (map (repr_char q) s) @ [q])"

definition attr_str :: "string \<Rightarrow> (string \<times> pyval) list \<Rightarrow> string" where
  "attr_str k a = (case dict_get a k of Some (PStr s) \<Rightarrow> s | _ \<Rightarrow> [])"

fun py_repr :: "pyval \<Rightarrow> string"
  and repr_items :: "pyval list \<Rightarrow> string list"
  and repr_fields :: "(string \<times> pyval) list \<Rightarrow> string list" where
  "py_repr PNone = ''None''"
| "py_repr (PBool b) = (if b then ''True'' else ''False'')"
| "py_repr (PInt i) = int_str i"
| "py_repr (PStr s) = repr_str s"
| "py_repr (PList xs) = ''['' @ join_str '', '' (repr_items xs) @ '']''"
| "py_repr (PDict d) = ''{'' @ join_str '', '' (repr_fields d) @ ''}''"
| "py_repr (PObj a) = attr_str ''__repr__'' a"
| "repr_items [] = []"
| "repr_items (x # xs) = py_repr x # repr_items xs"
| "repr_fields [] = []"
| "repr_fields ((k, x) # xs) = (repr_str k @ '': '' @ py_repr x) # repr_fields xs"

fun py_str :: "pyval \<Rightarrow> string" where
  "py_str (PStr s) = s"
| "py_str (PObj a) = attr_str ''__str__'' a"
| "py_str v = py_repr v"

lemma py_str_repr_cases:
  "(\<And>s. v \<noteq> PStr s) \<Longrightarrow> (\<And>a. v \<noteq> PObj a) \<Longrightarrow> py_str v = py_repr v"
  by (cases v) auto

end
