(* ===== verification/Thinking_Parser.thy ===== *)
theory Thinking_Parser
  imports Prelude
begin

text \<open>
  Model of \<open>agent/shared/infrastructure/thinking_parser.py\<close>: the split of a model reply into
  visible text and reasoning, for whole strings (\<open>_split_text_by_thinking_tags\<close>), for streams
  (\<open>ThinkingTagStreamParser\<close>) and for structured message content.

  A position \<open>pos\<close> in the scanned string is represented by the suffix that starts there;
  \<open>pattern.search(text, pos)\<close> then returns the text before the match and the text after it.
  The streaming loop also carries the prefix \<open>combined[:pos]\<close>, which the code reads.
\<close>

section \<open>The tag patterns\<close>

definition THINKING_TAG_ALIASES :: "string list" where
  "THINKING_TAG_ALIASES =
     [''thinking'', ''think'', ''thought'', ''thoughts'', ''reflection'', ''reflect'', ''reason'',
      ''reasoning'', ''inner_monologue'', ''plan'']"

definition THINKING_PART_TYPES :: "string list" where
  "THINKING_PART_TYPES = [''thinking'', ''reasoning'', ''reasoning_content'']"

text \<open>
  One alternative of \<open>(?:thinking|think|...)\s*>\<close>, matched case-insensitively at the head of
  the text; the result is the text after the match. An alias holds no white space and no \<open>>\<close>,
  so the greedy \<open>\s*\<close> never has to backtrack.
\<close>

definition alias_here :: "string \<Rightarrow> string \<Rightarrow> string option" where
  "alias_here s a =
     (if lower_str (take (length a) s) = a
      then (case dropWhile is_space (drop (length a) s) of
              [] \<Rightarrow> None
            | c # r \<Rightarrow> if c = CHR ''>'' then Some r else None)
      else None)"

fun first_alias :: "string list \<Rightarrow> string \<Rightarrow> string option" where
  "first_alias [] s = None"
| "first_alias (a # as) s =
     (case alias_here s a of Some r \<Rightarrow> Some r | None \<Rightarrow> first_alias as s)"

definition match_open :: "string \<Rightarrow> string option" where
  "match_open s =
     (case s of
        [] \<Rightarrow> None
      | c # r \<Rightarrow> if c = CHR ''<'' then first_alias THINKING_TAG_ALIASES (dropWhile is_space r)
                 else None)"

definition match_close :: "string \<Rightarrow> string option" where
  "match_close s =
     (case s of
        c # d # r \<Rightarrow> if c = CHR ''<'' \<and> d = CHR ''/''
                      then first_alias THINKING_TAG_ALIASES (dropWhile is_space r) else None
      | _ \<Rightarrow> None)"

text \<open>\<open>pattern.search\<close>: the leftmost match, as (text before it, text after it).\<close>

fun search_tag :: "(string \<Rightarrow> string option) \<Rightarrow> string \<Rightarrow> (string \<times> string) option" where
  "search_tag m [] = map_option (Pair []) (m [])"
| "search_tag m (c # s) =
     (case m (c # s) of
        Some r \<Rightarrow> Some ([], r)
      | None \<Rightarrow> map_option (apfst (Cons c)) (search_tag m s))"

section \<open>The matcher interface\<close>

text \<open>
  What the scanning loops rely on: a match starts with the bracket and consumes it, the text after a
  match neither changes nor enables it, and a match that only becomes possible with more text leaves no second
  bracket in what has been seen.
\<close>

locale tag_matcher =
  fixes m :: "string \<Rightarrow> string option"
  assumes lead: "m s = Some r \<Longrightarrow> \<exists>g. s = CHR ''<'' # g @ r"
    and extend: "m s = Some r \<Longrightarrow> m (s @ u) = Some (r @ u)"
    and shrink: "m (s @ u) = Some (r @ u) \<Longrightarrow> m s = Some r"
    and pending: "m s = None \<Longrightarrow> m (s @ u) = Some r \<Longrightarrow> CHR ''<'' \<notin> set (tl s)"
begin

lemma no_match_Nil [simp]: "m [] = None"
  using lead [of "[]"] by (cases "m []") auto

lemma search_split: "search_tag m s = Some (b, a) \<Longrightarrow> \<exists>g. s = b @ CHR ''<'' # g @ a"
proof (induction s arbitrary: b)
  case (Cons c s)
  then show ?case
    by (fastforce split: option.splits dest: lead)
qed simp

lemma search_shorter: "search_tag m s = Some (b, a) \<Longrightarrow> length a < length s"
  using search_split by fastforce

lemma search_no_match:
  "search_tag m (p @ c) = None \<Longrightarrow> m c = None"
  by (induction p) (cases c; auto split: option.splits)+

lemma search_suffix_None: "search_tag m (p @ c) = None \<Longrightarrow> search_tag m c = None"
  by (induction p) (auto split: option.splits)

lemma search_extend:
  "search_tag m s = Some (b, a) \<Longrightarrow> search_tag m (s @ u) = Some (b, a @ u)"
proof (induction s arbitrary: b)
  case (Cons c s)
  show ?case
  proof (cases "m (c # s)")
    case (Some r)
    with Cons.prems extend [OF Some, of u] show ?thesis by simp
  next
    case None
    with Cons.prems obtain b' where b': "search_tag m s = Some (b', a)" "b = c # b'" by auto
    have bracket: "CHR ''<'' \<in> set s"
      using b'(1)
    proof (induction s arbitrary: b')
      case (Cons d s)
      then show ?case using lead [of "d # s"] by (auto split: option.splits)
    qed simp
    have "m ((c # s) @ u) = None"
      using pending [OF None, of u] bracket by (cases "m ((c # s) @ u)") auto
    with Cons.IH [OF b'(1)] b'(2) show ?thesis by simp
  qed
qed simp

lemma search_shrink:
  "search_tag m (s @ u) = Some (b, a @ u) \<Longrightarrow> search_tag m s = Some (b, a)"
proof (induction s arbitrary: b)
  case Nil
  then show ?case using search_shorter by fastforce
next
  case (Cons c s)
  show ?case
  proof (cases "m ((c # s) @ u)")
    case (Some r)
    with Cons.prems have "m ((c # s) @ u) = Some (a @ u)" "b = []" by auto
    then show ?thesis using shrink [of "c # s" u a] by simp
  next
    case None
    then have "m (c # s) = None"
      using extend [of "c # s" _ u] by (cases "m (c # s)") auto
    then show ?thesis using Cons None by (auto split: option.splits)
  qed
qed

lemma search_plain:
  "CHR ''<'' \<notin> set s \<Longrightarrow> search_tag m (s @ u) = map_option (apfst ((@) s)) (search_tag m u)"
proof (induction s)
  case Nil
  then show ?case by (simp add: option.map_ident apfst_def map_prod_def case_prod_unfold)
next
  case (Cons c s)
  have "m (c # s @ u) = None"
    using Cons.prems lead [of "c # s @ u"] by (cases "m (c # s @ u)") auto
  with Cons show ?case by (simp add: option.map_comp comp_def apfst_def map_prod_def case_prod_unfold)
qed

text \<open>What the loops carry over: the text from a bracket on, once nothing before it matched.\<close>

lemma search_carry:
  assumes "search_tag m (p @ CHR ''<'' # c) = None"
  shows "search_tag m (p @ CHR ''<'' # c @ u) =
           map_option (apfst ((@) p)) (search_tag m (CHR ''<'' # c @ u))"
  using assms
proof (induction p)
  case Nil
  then show ?case by (simp add: option.map_ident apfst_def map_prod_def case_prod_unfold)
next
  case (Cons x p)
  have none: "m (x # p @ CHR ''<'' # c) = None" and rest: "search_tag m (p @ CHR ''<'' # c) = None"
    using Cons.prems by (auto split: option.splits)
  have "m (x # p @ CHR ''<'' # c @ u) = None"
    using pending [OF none, of u] by (cases "m (x # p @ CHR ''<'' # c @ u)") auto
  with Cons.IH [OF rest] show ?case
    by (simp add: option.map_comp comp_def apfst_def map_prod_def case_prod_unfold)
qed

end

section \<open>Both patterns are matchers\<close>

definition tag_body :: "string \<Rightarrow> bool" where
  "tag_body p \<longleftrightarrow> (\<exists>w x v. p = w @ x @ v \<and> (\<forall>c\<in>set w \<union> set v. is_space c) \<and>
     lower_str x \<in> set THINKING_TAG_ALIASES)"

lemma tag_bodyI:
  "\<forall>c\<in>set v. is_space c \<Longrightarrow> lower_str x \<in> set THINKING_TAG_ALIASES \<Longrightarrow> tag_body (x @ v)"
  unfolding tag_body_def by (intro exI [of _ "[]"] exI [of _ x] exI [of _ v]) simp

lemma lower_char_space: "is_space c \<Longrightarrow> lower_char c = c"
  by (auto simp: is_space_def lower_char_def Let_def)

lemma alias_chars:
  "a \<in> set THINKING_TAG_ALIASES \<Longrightarrow> c \<in> set a \<Longrightarrow> \<not> is_space c \<and> c \<noteq> CHR ''<'' \<and> c \<noteq> CHR ''>''"
proof -
  have "\<forall>a\<in>set THINKING_TAG_ALIASES. \<forall>c\<in>set a. \<not> is_space c \<and> c \<noteq> CHR ''<'' \<and> c \<noteq> CHR ''>''"
    by code_simp
  then show "a \<in> set THINKING_TAG_ALIASES \<Longrightarrow> c \<in> set a \<Longrightarrow>
      \<not> is_space c \<and> c \<noteq> CHR ''<'' \<and> c \<noteq> CHR ''>''"
    by blast
qed

lemma alias_nonempty: "a \<in> set THINKING_TAG_ALIASES \<Longrightarrow> a \<noteq> []"
  by (auto simp: THINKING_TAG_ALIASES_def)

lemma lower_alias_chars:
  assumes "lower_str x \<in> set THINKING_TAG_ALIASES" and "c \<in> set x"
  shows "\<not> is_space c \<and> c \<noteq> CHR ''<'' \<and> c \<noteq> CHR ''>''"
proof -
  have "lower_char c \<in> set (lower_str x)"
    using assms(2) by (simp add: lower_str_def)
  note this' = alias_chars [OF assms(1) this]
  moreover have "lower_char CHR ''<'' = CHR ''<''" "lower_char CHR ''>'' = CHR ''>''"
    by code_simp+
  ultimately show ?thesis
    using lower_char_space [of c] by auto
qed

lemma tag_body_chars:
  assumes "tag_body p"
  shows "CHR ''<'' \<notin> set p \<and> CHR ''>'' \<notin> set p"
proof -
  have "\<not> is_space CHR ''<''" "\<not> is_space CHR ''>''"
    by code_simp+
  then show ?thesis
    using assms by (auto simp: tag_body_def dest: lower_alias_chars)
qed

lemma alias_here_iff:
  assumes "a \<in> set THINKING_TAG_ALIASES"
  shows "alias_here s a = Some r \<longleftrightarrow>
    (\<exists>x v. s = x @ v @ CHR ''>'' # r \<and> lower_str x = a \<and> (\<forall>c\<in>set v. is_space c))"
    (is "?L \<longleftrightarrow> ?R")
proof
  assume ?L
  then have low: "lower_str (take (length a) s) = a"
    and tl: "dropWhile is_space (drop (length a) s) = CHR ''>'' # r"
    by (auto simp: alias_here_def split: if_splits list.splits)
  have "s = take (length a) s @ takeWhile is_space (drop (length a) s) @ CHR ''>'' # r"
    using tl by (metis append_take_drop_id takeWhile_dropWhile_id)
  then show ?R
    using low by (meson set_takeWhileD)
next
  assume ?R
  then obtain x v where s: "s = x @ v @ CHR ''>'' # r" "lower_str x = a" "\<forall>c\<in>set v. is_space c"
    by blast
  have "length x = length a"
    using s(2) by (auto simp: lower_str_def)
  moreover have "dropWhile is_space (v @ CHR ''>'' # r) = CHR ''>'' # r"
    using s(3) by (subst dropWhile_append2) (auto simp: is_space_def)
  ultimately show ?L
    using s by (simp add: alias_here_def)
qed

lemma first_alias_Some:
  "first_alias as s = Some r \<Longrightarrow> \<exists>a\<in>set as. alias_here s a = Some r"
  by (induction as) (auto split: option.splits)

lemma first_alias_None: "first_alias as s = None \<longleftrightarrow> (\<forall>a\<in>set as. alias_here s a = None)"
  by (induction as) (auto split: option.splits)

lemma split_at_unique:
  "c \<notin> set p \<Longrightarrow> c \<notin> set q \<Longrightarrow> p @ c # r = q @ c # t \<longleftrightarrow> p = q \<and> r = t"
proof (induction p arbitrary: q)
  case Nil
  then show ?case by (cases q) auto
next
  case (Cons d p)
  then show ?case by (cases q) auto
qed

lemma tag_rest_iff:
  "first_alias THINKING_TAG_ALIASES (dropWhile is_space t) = Some r \<longleftrightarrow>
     (\<exists>p. tag_body p \<and> t = p @ CHR ''>'' # r)" (is "?L \<longleftrightarrow> ?R")
proof
  assume ?L
  then obtain a x v where a: "a \<in> set THINKING_TAG_ALIASES"
    and x: "dropWhile is_space t = x @ v @ CHR ''>'' # r" "lower_str x = a" "\<forall>c\<in>set v. is_space c"
    using first_alias_Some alias_here_iff by metis
  let ?w = "takeWhile is_space t"
  have "tag_body (?w @ x @ v)"
    unfolding tag_body_def using a x(2,3) by (blast dest: set_takeWhileD)
  moreover have "t = (?w @ x @ v) @ CHR ''>'' # r"
    using x(1) by (metis append.assoc takeWhile_dropWhile_id)
  ultimately show ?R by blast
next
  assume ?R
  then obtain w x v where t: "t = w @ x @ v @ CHR ''>'' # r"
    and sp: "\<forall>c\<in>set w \<union> set v. is_space c" and a: "lower_str x \<in> set THINKING_TAG_ALIASES"
    unfolding tag_body_def by (metis append.assoc)
  have "x \<noteq> []"
    using alias_nonempty [OF a] by (auto simp: lower_str_def)
  then have "\<not> is_space (hd x)"
    using lower_alias_chars [OF a] by simp
  then have dw: "dropWhile is_space t = x @ v @ CHR ''>'' # r"
    using \<open>x \<noteq> []\<close> sp t by (cases x) (simp_all add: dropWhile_append2)
  have here: "alias_here (x @ v @ CHR ''>'' # r) (lower_str x) = Some r"
    using sp a by (subst alias_here_iff) auto
  then have "first_alias THINKING_TAG_ALIASES (dropWhile is_space t) \<noteq> None"
    using a by (auto simp: dw first_alias_None)
  then obtain r' where r': "first_alias THINKING_TAG_ALIASES (dropWhile is_space t) = Some r'"
    by blast
  then obtain b y u where b: "b \<in> set THINKING_TAG_ALIASES" "lower_str y = b"
    and y: "x @ v @ CHR ''>'' # r = y @ u @ CHR ''>'' # r'" "\<forall>c\<in>set u. is_space c"
    using first_alias_Some alias_here_iff dw by metis
  have "tag_body (x @ v)" "tag_body (y @ u)"
    using sp y(2) a b by (auto intro: tag_bodyI)
  then have "CHR ''>'' \<notin> set (x @ v)" "CHR ''>'' \<notin> set (y @ u)"
    by (auto dest: tag_body_chars)
  then have "r = r'"
    using y(1) split_at_unique [of "CHR ''>''" "x @ v" "y @ u" r r'] by simp
  with r' show ?L by simp
qed

lemma match_open_iff:
  "match_open s = Some r \<longleftrightarrow> (\<exists>p. tag_body p \<and> s = CHR ''<'' # p @ CHR ''>'' # r)"
  by (cases s) (auto simp: match_open_def tag_rest_iff)

lemma match_close_iff:
  "match_close s = Some r \<longleftrightarrow> (\<exists>p. tag_body p \<and> s = CHR ''<'' # CHR ''/'' # p @ CHR ''>'' # r)"
  by (auto simp: match_close_def tag_rest_iff split: list.splits)

text \<open>A tag that ends beyond the text seen so far leaves no bracket in that text.\<close>

lemma prefix_of_tag:
  assumes split: "s @ u = q @ CHR ''>'' # r" and no: "\<And>r'. s \<noteq> q @ CHR ''>'' # r'"
  shows "set s \<subseteq> set q"
proof -
  have "length s \<le> length q"
  proof (rule ccontr)
    assume "\<not> length s \<le> length q"
    then have "s = q @ CHR ''>'' # drop (Suc (length q)) s"
      using split by (auto simp: append_eq_append_conv2 append_eq_Cons_conv)
    then show False using no by blast
  qed
  then have "s = take (length s) q"
    using split by (metis append_eq_append_conv_if)
  then show ?thesis
    by (metis set_take_subset)
qed

interpretation open_tag: tag_matcher match_open
proof
  fix s r u
  show "match_open s = Some r \<Longrightarrow> \<exists>g. s = CHR ''<'' # g @ r"
    unfolding match_open_iff by (metis append.assoc append_Cons append_Nil)
  show "match_open s = Some r \<Longrightarrow> match_open (s @ u) = Some (r @ u)"
    by (auto simp: match_open_iff)
  show "match_open (s @ u) = Some (r @ u) \<Longrightarrow> match_open s = Some r"
    unfolding match_open_iff by (metis append.assoc append_Cons append_same_eq)
  assume none: "match_open s = None" and "match_open (s @ u) = Some r"
  then obtain p where p: "tag_body p" "s @ u = (CHR ''<'' # p) @ CHR ''>'' # r"
    by (auto simp: match_open_iff)
  have "s \<noteq> (CHR ''<'' # p) @ CHR ''>'' # r'" for r'
    using none p(1) match_open_iff [of s r'] by auto
  then show "CHR ''<'' \<notin> set (tl s)"
    using tag_body_chars [OF p(1)] p(2) prefix_of_tag [of "tl s" u p r]
    by (cases s) auto
qed

interpretation close_tag: tag_matcher match_close
proof
  fix s r u
  show "match_close s = Some r \<Longrightarrow> \<exists>g. s = CHR ''<'' # g @ r"
    unfolding match_close_iff by (metis append.assoc append_Cons append_Nil)
  show "match_close s = Some r \<Longrightarrow> match_close (s @ u) = Some (r @ u)"
    by (auto simp: match_close_iff)
  show "match_close (s @ u) = Some (r @ u) \<Longrightarrow> match_close s = Some r"
    unfolding match_close_iff by (metis append.assoc append_Cons append_same_eq)
  assume none: "match_close s = None" and "match_close (s @ u) = Some r"
  then obtain p where p: "tag_body p" "s @ u = (CHR ''<'' # CHR ''/'' # p) @ CHR ''>'' # r"
    by (auto simp: match_close_iff)
  have "s \<noteq> (CHR ''<'' # CHR ''/'' # p) @ CHR ''>'' # r'" for r'
    using none p(1) match_close_iff [of s r'] by auto
  then show "CHR ''<'' \<notin> set (tl s)"
    using tag_body_chars [OF p(1)] p(2) prefix_of_tag [of "tl s" u "CHR ''/'' # p" r]
    by (cases s) auto
qed

section \<open>Splitting a whole string\<close>

text \<open>
  \<open>ContentWithThinking\<close>. The field names carry a prefix because record fields are global names.
\<close>

record content_with_thinking =
  cwt_text :: string
  cwt_thinking :: string

abbreviation no_content :: content_with_thinking where
  "no_content \<equiv> \<lparr>cwt_text = [], cwt_thinking = []\<rparr>"

definition has_thinking :: "content_with_thinking \<Rightarrow> bool" where
  "has_thinking c \<longleftrightarrow> cwt_thinking c \<noteq> []"

definition has_visible_text :: "content_with_thinking \<Rightarrow> bool" where
  "has_visible_text c \<longleftrightarrow> cwt_text c \<noteq> []"

text \<open>Both helpers return a cutoff index; here it is relative to \<open>start\<close>.\<close>

definition safe_tail_for_open_tag :: "string \<Rightarrow> nat" where
  "safe_tail_for_open_tag s = (case rfind_sub ''<'' s of None \<Rightarrow> 0 | Some k \<Rightarrow> k)"

definition safe_tail_for_close_tag :: "string \<Rightarrow> nat" where
  "safe_tail_for_close_tag s = (case rfind_sub ''</'' s of None \<Rightarrow> 0 | Some k \<Rightarrow> k)"

text \<open>
  The \<open>while pos < length\<close> loop: \<open>split_loop partial inside text[pos:] visible thinking\<close> gives
  (visible, thinking, retained).
\<close>

function split_loop ::
    "bool \<Rightarrow> bool \<Rightarrow> string \<Rightarrow> string \<Rightarrow> string \<Rightarrow> string \<times> string \<times> string" where
  "split_loop partial inside s v t =
     (if s = [] then (v, t, [])
      else if inside then
        (case search_tag match_close s of
           None \<Rightarrow>
             (if partial then
                (let k = safe_tail_for_close_tag s in
                 if k > 0 then (v, t @ take k s, drop k s) else (v, t, s))
              else (v, t @ s, []))
         | Some (b, a) \<Rightarrow> split_loop partial False a v (t @ b))
      else
        (case search_tag match_open s of
           None \<Rightarrow>
             (if partial then
                (let k = safe_tail_for_open_tag s in
                 if k > 0 then (v @ take k s, t, drop k s) else (v, t, s))
              else (v @ s, t, []))
         | Some (b, a) \<Rightarrow> split_loop partial True a (v @ b) t))"
  by pat_completeness auto
termination
  by (relation "measure (\<lambda>(p, i, s, v, t). length s)")
    (auto dest: open_tag.search_shorter close_tag.search_shorter)

declare split_loop.simps [simp del]

definition split_text_by_thinking_tags ::
    "string \<Rightarrow> bool \<Rightarrow> bool \<Rightarrow> string \<times> string \<times> string" where
  "split_text_by_thinking_tags s partial initial_inside = split_loop partial initial_inside s [] []"

definition strip_thinking_tags :: "string \<Rightarrow> string" where
  "strip_thinking_tags s =
     (if s = [] \<or> search_tag match_open s = None then s
      else if search_tag match_close s = None then s
      else (let (visible, _, retained) = split_text_by_thinking_tags s False False
            in visible @ retained))"

definition extract_thinking_from_text :: "string \<Rightarrow> string" where
  "extract_thinking_from_text s =
     (if s = [] \<or> search_tag match_open s = None then []
      else (let (_, thinking, _) = split_text_by_thinking_tags s False False in thinking))"

definition looks_like_open_tag_start :: "string \<Rightarrow> bool" where
  "looks_like_open_tag_start buffer =
     (case rfind_sub ''<'' buffer of
        None \<Rightarrow> False
      | Some k \<Rightarrow> (let tail = lstrip (lower_str (drop (Suc k) buffer))
                    in list_ex (starts_with tail) THINKING_TAG_ALIASES))"

section \<open>The streaming parser\<close>

record tag_stream =
  ts_carry :: string
  ts_inside :: bool

definition new_stream :: tag_stream where
  "new_stream = \<lparr>ts_carry = [], ts_inside = False\<rparr>"

text \<open>
  The loop of \<open>feed\<close>: \<open>feed_loop inside combined[:pos] combined[pos:] visible thinking\<close> gives
  (visible, thinking, carry, inside). The branch for a bracket exactly at \<open>pos\<close> appends
  \<open>combined[:pos]\<close>, as the code does.
\<close>

function feed_loop ::
    "bool \<Rightarrow> string \<Rightarrow> string \<Rightarrow> string \<Rightarrow> string \<Rightarrow> string \<times> string \<times> string \<times> bool" where
  "feed_loop inside done s v t =
     (if s = [] then (v, t, [], inside)
      else if inside then
        (case search_tag match_close s of
           Some (b, a) \<Rightarrow>
             feed_loop False (done @ take (length s - length a) s) a v (t @ b)
         | None \<Rightarrow>
             (case rfind_sub ''</'' s of
                Some k \<Rightarrow> if k > 0 then (v, t @ take k s, drop k s, True) else (v, t, s, True)
              | None \<Rightarrow> (v, t, s, True)))
      else
        (case search_tag match_open s of
           Some (b, a) \<Rightarrow>
             feed_loop True (done @ take (length s - length a) s) a
               (if b \<noteq> [] then v @ b else v) t
         | None \<Rightarrow>
             (case rfind_sub ''<'' s of
                None \<Rightarrow> (v @ s, t, [], False)
              | Some k \<Rightarrow> if k = 0 then (v @ done, t, s, False)
                          else (v @ take k s, t, drop k s, False))))"
  by pat_completeness auto
termination
  by (relation "measure (\<lambda>(i, d, s, v, t). length s)")
    (auto dest: open_tag.search_shorter close_tag.search_shorter)

declare feed_loop.simps [simp del]

definition feed :: "tag_stream \<Rightarrow> string \<Rightarrow> content_with_thinking \<times> tag_stream" where
  "feed st chunk =
     (let combined = ts_carry st @ chunk in
      if combined = [] then (no_content, st\<lparr>ts_carry := []\<rparr>)
      else (let (v, t, c, i) = feed_loop (ts_inside st) [] combined [] []
            in (\<lparr>cwt_text = v, cwt_thinking = t\<rparr>, \<lparr>ts_carry = c, ts_inside = i\<rparr>)))"

definition flush :: "tag_stream \<Rightarrow> content_with_thinking \<times> tag_stream" where
  "flush st =
     (let remaining = ts_carry st; st' = \<lparr>ts_carry = [], ts_inside = False\<rparr> in
      if remaining = [] then (no_content, st')
      else if ts_inside st then (\<lparr>cwt_text = [], cwt_thinking = remaining\<rparr>, st')
      else (\<lparr>cwt_text = remaining, cwt_thinking = []\<rparr>, st'))"

text \<open>A whole stream: one \<open>feed\<close> per chunk, then \<open>flush\<close>; the deltas concatenated.\<close>

fun feed_all :: "tag_stream \<Rightarrow> string list \<Rightarrow> string \<times> string \<times> tag_stream" where
  "feed_all st [] = ([], [], st)"
| "feed_all st (c # cs) =
     (let (d, st1) = feed st c; (v, t, st2) = feed_all st1 cs
      in (cwt_text d @ v, cwt_thinking d @ t, st2))"

definition stream :: "string list \<Rightarrow> string \<times> string" where
  "stream cs = (let (v, t, st) = feed_all new_stream cs; (d, _) = flush st
                in (v @ cwt_text d, t @ cwt_thinking d))"

end
