(* ===== verification/Thinking_Stream.thy ===== *)
theory Thinking_Stream
  imports Thinking_Parser
begin

text \<open>
  Correctness of the streaming parser against the split of the whole string: however a reply is
  cut into chunks, the reasoning it yields is the one of the whole string, and so is the visible
  text as long as no chunk ends in the one branch that emits consumed text again.
\<close>

section \<open>Reference: one pass over the whole string\<close>

function walk :: "bool \<Rightarrow> string \<Rightarrow> string \<times> string" where
  "walk inside s =
     (if inside then
        (case search_tag match_close s of
           None \<Rightarrow> ([], s)
         | Some (b, a) \<Rightarrow> apsnd ((@) b) (walk False a))
      else
        (case search_tag match_open s of
           None \<Rightarrow> (s, [])
         | Some (b, a) \<Rightarrow> apfst ((@) b) (walk True a)))"
  by pat_completeness auto
termination
  by (relation "measure (\<lambda>(i, s). length s)")
    (auto dest: open_tag.search_shorter close_tag.search_shorter)

declare walk.simps [simp del]

lemma walk_Nil [simp]: "walk i [] = ([], [])"
  by (subst walk.simps) simp

lemma split_loop_walk:
  "split_loop False i s v t = (v @ fst (walk i s), t @ snd (walk i s), [])"
proof (induction False i s v t rule: split_loop.induct)
  case (1 i s v t)
  then show ?case
    by (subst split_loop.simps, subst (1 2) walk.simps) (auto split: option.splits)
qed

lemma split_text_walk: "split_text_by_thinking_tags s False i = (fst (walk i s), snd (walk i s), [])"
  by (simp add: split_text_by_thinking_tags_def split_loop_walk)

section \<open>What one call of feed computes\<close>

text \<open>\<open>settle\<close>: visible text, reasoning, carry and mode after a chunk, without the re-emission.\<close>

function settle :: "bool \<Rightarrow> string \<Rightarrow> string \<times> string \<times> string \<times> bool" where
  "settle inside s =
     (if inside then
        (case search_tag match_close s of
           Some (b, a) \<Rightarrow> (let (v, t, c, i) = settle False a in (v, b @ t, c, i))
         | None \<Rightarrow> (let k = safe_tail_for_close_tag s in ([], take k s, drop k s, True)))
      else
        (case search_tag match_open s of
           Some (b, a) \<Rightarrow> (let (v, t, c, i) = settle True a in (b @ v, t, c, i))
         | None \<Rightarrow> (case rfind_sub ''<'' s of
                      None \<Rightarrow> (s, [], [], False)
                    | Some k \<Rightarrow> (take k s, [], drop k s, False))))"
  by pat_completeness auto
termination
  by (relation "measure (\<lambda>(i, s). length s)")
    (auto dest: open_tag.search_shorter close_tag.search_shorter)

declare settle.simps [simp del]

text \<open>\<open>last_rest\<close>: the mode and the text left once every complete tag has been consumed.\<close>

function last_rest :: "bool \<Rightarrow> string \<Rightarrow> bool \<times> string" where
  "last_rest inside s =
     (if inside then
        (case search_tag match_close s of
           Some (b, a) \<Rightarrow> last_rest False a
         | None \<Rightarrow> (True, s))
      else
        (case search_tag match_open s of
           Some (b, a) \<Rightarrow> last_rest True a
         | None \<Rightarrow> (False, s)))"
  by pat_completeness auto
termination
  by (relation "measure (\<lambda>(i, s). length s)")
    (auto dest: open_tag.search_shorter close_tag.search_shorter)

declare last_rest.simps [simp del]

text \<open>The consumed text the branch for a bracket at \<open>pos\<close> emits again.\<close>

definition reemitted :: "bool \<Rightarrow> string \<Rightarrow> string \<Rightarrow> string" where
  "reemitted i done s =
     (let (j, r) = last_rest i s in
      if \<not> j \<and> rfind_sub ''<'' r = Some 0 then done @ take (length s - length r) s else [])"

lemma last_rest_suffix: "last_rest i s = (j, r) \<Longrightarrow> length r \<le> length s"
proof (induction i s rule: last_rest.induct)
  case (1 i s)
  then show ?case
    by (subst (asm) last_rest.simps)
      (fastforce split: if_splits option.splits
        dest: open_tag.search_shorter close_tag.search_shorter)
qed

lemma reemitted_open:
  assumes "search_tag match_open s = Some (b, a)"
  shows "reemitted False d s = reemitted True (d @ take (length s - length a) s) a"
proof -
  obtain j r where r: "last_rest True a = (j, r)" by fastforce
  then have "last_rest False s = (j, r)"
    using assms by (subst last_rest.simps) simp
  then show ?thesis
    using r open_tag.search_split [OF assms] last_rest_suffix [OF r]
    by (auto simp: reemitted_def Suc_diff_le)
qed

lemma reemitted_close:
  assumes "search_tag match_close s = Some (b, a)"
  shows "reemitted True d s = reemitted False (d @ take (length s - length a) s) a"
proof -
  obtain j r where r: "last_rest False a = (j, r)" by fastforce
  then have "last_rest True s = (j, r)"
    using assms by (subst last_rest.simps) simp
  then show ?thesis
    using r close_tag.search_split [OF assms] last_rest_suffix [OF r]
    by (auto simp: reemitted_def Suc_diff_le)
qed

lemma feed_loop_settle:
  "feed_loop i d s v t =
     (let (sv, st, c, j) = settle i s in (v @ sv @ reemitted i d s, t @ st, c, j))"
proof (induction i d s v t rule: feed_loop.induct)
  case (1 i d s v t)
  show ?case
  proof (cases i)
    case True
    show ?thesis
    proof (cases "search_tag match_close s")
      case None
      then show ?thesis
        using True
        by (subst feed_loop.simps, subst settle.simps)
          (auto simp: reemitted_def last_rest.simps [of True s] safe_tail_for_close_tag_def
            split: option.splits)
    next
      case (Some p)
      then obtain b a where p: "search_tag match_close s = Some (b, a)" by (cases p) auto
      then have "s \<noteq> []" by auto
      then show ?thesis
        using 1(1) [OF _ True p refl] True p
        by (subst feed_loop.simps, subst settle.simps)
          (auto simp: reemitted_close [OF p] Let_def split: prod.splits)
    qed
  next
    case False
    show ?thesis
    proof (cases "search_tag match_open s")
      case None
      then show ?thesis
        using False
        by (subst feed_loop.simps, subst settle.simps)
          (auto simp: reemitted_def last_rest.simps [of False s] split: option.splits)
    next
      case (Some p)
      then obtain b a where p: "search_tag match_open s = Some (b, a)" by (cases p) auto
      then have "s \<noteq> []" by auto
      then show ?thesis
        using 1(2) [OF _ False p refl] False p
        by (subst feed_loop.simps, subst settle.simps)
          (auto simp: reemitted_open [OF p] Let_def split: prod.splits)
    qed
  qed
qed

section \<open>Chunks compose\<close>

lemma take_drop_bracket:
  "starts_with (x # xs) (drop k s) \<Longrightarrow> \<exists>c. s = take k s @ x # c \<and> drop k s = x # c"
  by (metis append_take_drop_id append_Cons starts_with_iff)

lemma walk_carry_close:
  assumes "search_tag match_close (p @ CHR ''<'' # c) = None"
  shows "walk True (p @ CHR ''<'' # c @ u) = apsnd ((@) p) (walk True (CHR ''<'' # c @ u))"
  unfolding walk.simps [of True "p @ CHR ''<'' # c @ u"] walk.simps [of True "CHR ''<'' # c @ u"]
    close_tag.search_carry [OF assms]
  by (auto split: option.split simp: apsnd_def map_prod_def case_prod_unfold simp del: search_tag.simps)

lemma walk_carry_open:
  assumes "search_tag match_open (p @ CHR ''<'' # c) = None"
  shows "walk False (p @ CHR ''<'' # c @ u) = apfst ((@) p) (walk False (CHR ''<'' # c @ u))"
  unfolding walk.simps [of False "p @ CHR ''<'' # c @ u"] walk.simps [of False "CHR ''<'' # c @ u"]
    open_tag.search_carry [OF assms]
  by (auto split: option.split simp: apfst_def map_prod_def case_prod_unfold simp del: search_tag.simps)

lemma walk_settled_close:
  assumes "search_tag match_close s = None"
  shows "walk True (s @ u) = apsnd ((@) (take (safe_tail_for_close_tag s) s))
           (walk True (drop (safe_tail_for_close_tag s) s @ u))"
proof (cases "rfind_sub ''</'' s")
  case None
  then show ?thesis by (simp add: safe_tail_for_close_tag_def apsnd_def map_prod_def case_prod_unfold)
next
  case (Some k)
  then have "starts_with ''</'' (drop k s)"
    using rfind_sub_Some by blast
  then obtain c where "s = take k s @ CHR ''<'' # c" "drop k s = CHR ''<'' # c"
    by (metis take_drop_bracket)
  then show ?thesis
    using Some assms walk_carry_close [of "take k s" c u]
    by (metis append.assoc append_Cons option.simps(5) safe_tail_for_close_tag_def)
qed

lemma walk_settled_open:
  assumes none: "search_tag match_open s = None" and k: "rfind_sub ''<'' s = Some k"
  shows "walk False (s @ u) = apfst ((@) (take k s)) (walk False (drop k s @ u))"
proof -
  have "starts_with ''<'' (drop k s)"
    using rfind_sub_Some [OF k] by simp
  then obtain c where "s = take k s @ CHR ''<'' # c" "drop k s = CHR ''<'' # c"
    by (metis take_drop_bracket)
  then show ?thesis
    using none walk_carry_open [of "take k s" c u] by (metis append.assoc append_Cons)
qed

lemma walk_plain:
  assumes "CHR ''<'' \<notin> set s"
  shows "walk False (s @ u) = apfst ((@) s) (walk False u)"
  using open_tag.search_plain [OF assms, of u]
  by (subst (1 2) walk.simps)
    (auto split: option.splits simp: apfst_def map_prod_def case_prod_unfold)

lemma settle_walk:
  "settle i s = (v, t, c, j) \<Longrightarrow>
     walk i (s @ u) = (v @ fst (walk j (c @ u)), t @ snd (walk j (c @ u)))"
proof (induction i s arbitrary: v t c j rule: settle.induct)
  case (1 i s)
  show ?case
  proof (cases i)
    case True
    show ?thesis
    proof (cases "search_tag match_close s")
      case None
      have "settle i s = ([], take (safe_tail_for_close_tag s) s, drop (safe_tail_for_close_tag s) s, True)"
        using True None by (subst settle.simps) (simp add: Let_def)
      then show ?thesis
        using 1(3) True walk_settled_close [OF None, of u] by (auto simp: apsnd_def map_prod_def case_prod_unfold)
    next
      case (Some p)
      then obtain b a where p: "search_tag match_close s = Some (b, a)" by (cases p) auto
      obtain v' t' c' j' where rec: "settle False a = (v', t', c', j')" by (cases "settle False a") auto
      have "walk False (a @ u) = (v' @ fst (walk j' (c' @ u)), t' @ snd (walk j' (c' @ u)))"
        using 1(1) [OF True p refl rec] .
      moreover have "walk True (s @ u) = apsnd ((@) b) (walk False (a @ u))"
        by (subst walk.simps) (simp add: close_tag.search_extend [OF p])
      ultimately show ?thesis
        using 1(3) True p rec by (subst (asm) settle.simps) auto
    qed
  next
    case False
    show ?thesis
    proof (cases "search_tag match_open s")
      case None
      show ?thesis
      proof (cases "rfind_sub ''<'' s")
        case None': None
        then have "CHR ''<'' \<notin> set s" by (simp add: rfind_char_None)
        moreover have "settle i s = (s, [], [], False)"
          using False None None' by (subst settle.simps) simp
        ultimately show ?thesis
          using 1(3) False walk_plain [of s u] by (auto simp: apfst_def map_prod_def case_prod_unfold)
      next
        case (Some k)
        have "settle i s = (take k s, [], drop k s, False)"
          using False None Some by (subst settle.simps) simp
        then show ?thesis
          using 1(3) False walk_settled_open [OF None Some, of u]
          by (auto simp: apfst_def map_prod_def case_prod_unfold)
      qed
    next
      case (Some p)
      then obtain b a where p: "search_tag match_open s = Some (b, a)" by (cases p) auto
      obtain v' t' c' j' where rec: "settle True a = (v', t', c', j')" by (cases "settle True a") auto
      have "walk True (a @ u) = (v' @ fst (walk j' (c' @ u)), t' @ snd (walk j' (c' @ u)))"
        using 1(2) [OF False p refl rec] .
      moreover have "walk False (s @ u) = apfst ((@) b) (walk True (a @ u))"
        by (subst walk.simps) (simp add: open_tag.search_extend [OF p])
      ultimately show ?thesis
        using 1(3) False p rec by (subst (asm) settle.simps) auto
    qed
  qed
qed

section \<open>Whole streams\<close>

text \<open>A carry holds no complete tag of the current mode.\<close>

definition settled :: "bool \<Rightarrow> string \<Rightarrow> bool" where
  "settled i c \<longleftrightarrow> search_tag (if i then match_close else match_open) c = None"

lemma settle_settled: "settle i s = (v, t, c, j) \<Longrightarrow> settled j c"
proof (induction i s arbitrary: v t c j rule: settle.induct)
  case (1 i s)
  have suffix: "search_tag match_open s = None \<Longrightarrow> search_tag match_open (drop k s) = None"
    "search_tag match_close s = None \<Longrightarrow> search_tag match_close (drop k s) = None" for k
    using open_tag.search_suffix_None [of "take k s" "drop k s"]
      close_tag.search_suffix_None [of "take k s" "drop k s"] by simp_all
  show ?case
  proof (cases "search_tag (if i then match_close else match_open) s")
    case None
    then show ?thesis
      using 1(3) suffix by (subst (asm) settle.simps) (auto simp: settled_def Let_def split: if_splits option.splits)
  next
    case (Some p)
    then show ?thesis
      using 1 by (subst (asm) (3) settle.simps) (cases p; auto split: if_splits prod.splits)
  qed
qed

lemma settled_walk: "settled j c \<Longrightarrow> walk j c = (if j then ([], c) else (c, []))"
  by (subst walk.simps) (auto simp: settled_def)

lemma feed_settle:
  assumes "settle (ts_inside st) (ts_carry st @ chunk) = (v, t, c, j)"
  shows "feed st chunk =
    (\<lparr>cwt_text = v @ reemitted (ts_inside st) [] (ts_carry st @ chunk), cwt_thinking = t\<rparr>,
     \<lparr>ts_carry = c, ts_inside = j\<rparr>)"
proof (cases "ts_carry st @ chunk = []")
  case True
  have "settle i [] = ([], [], [], i)" for i
    by (subst settle.simps) (simp add: safe_tail_for_close_tag_def)
  moreover have "reemitted i [] [] = []" for i
    by (auto simp: reemitted_def split: prod.splits)
  ultimately show ?thesis
    using True assms by (cases st) (auto simp: feed_def)
next
  case False
  then show ?thesis
    unfolding feed_def Let_def using assms by (simp add: feed_loop_settle del: append_is_Nil_conv)
qed

text \<open>A chunk is clean when no consumed text is emitted again.\<close>

definition clean_feed :: "tag_stream \<Rightarrow> string \<Rightarrow> bool" where
  "clean_feed st chunk = (reemitted (ts_inside st) [] (ts_carry st @ chunk) = [])"

fun clean_stream :: "tag_stream \<Rightarrow> string list \<Rightarrow> bool" where
  "clean_stream st [] = True"
| "clean_stream st (c # cs) = (clean_feed st c \<and> clean_stream (snd (feed st c)) cs)"

lemma feed_all_walk:
  "feed_all st cs = (v, t, st') \<Longrightarrow> settled (ts_inside st) (ts_carry st) \<Longrightarrow>
     settled (ts_inside st') (ts_carry st') \<and>
     snd (walk (ts_inside st) (ts_carry st @ concat cs)) =
       t @ snd (walk (ts_inside st') (ts_carry st')) \<and>
     (clean_stream st cs \<longrightarrow>
       fst (walk (ts_inside st) (ts_carry st @ concat cs)) =
         v @ fst (walk (ts_inside st') (ts_carry st')))"
proof (induction st cs arbitrary: v t st' rule: feed_all.induct)
  case (1 st)
  then show ?case by auto
next
  case (2 st chunk cs)
  obtain fv ft fc fj where s: "settle (ts_inside st) (ts_carry st @ chunk) = (fv, ft, fc, fj)"
    by (metis prod_cases4)
  note f = feed_settle [OF s]
  let ?st1 = "\<lparr>ts_carry = fc, ts_inside = fj\<rparr>"
  obtain v1 t1 where all: "feed_all ?st1 cs = (v1, t1, st')"
    and v: "v = (fv @ reemitted (ts_inside st) [] (ts_carry st @ chunk)) @ v1" and t: "t = ft @ t1"
    using 2(2) f by (auto split: prod.splits)
  have "settled (ts_inside ?st1) (ts_carry ?st1)"
    using settle_settled [OF s] by simp
  note IH = 2(1) [OF refl f [symmetric] all this]
  show ?case
    using IH settle_walk [OF s, of "concat cs"] f v t by (auto simp: clean_feed_def)
qed

lemma stream_walk:
  "snd (stream cs) = snd (walk False (concat cs)) \<and>
   (clean_stream new_stream cs \<longrightarrow> fst (stream cs) = fst (walk False (concat cs)))"
proof -
  obtain v t st' where all: "feed_all new_stream cs = (v, t, st')"
    by (metis prod_cases3)
  have "settled (ts_inside new_stream) (ts_carry new_stream)"
    by (simp add: settled_def new_stream_def)
  note run = feed_all_walk [OF all this]
  then have "walk (ts_inside st') (ts_carry st') =
      (cwt_text (fst (flush st')), cwt_thinking (fst (flush st')))"
    by (auto simp: settled_walk flush_def Let_def)
  then show ?thesis
    using run all by (auto simp: stream_def new_stream_def split: prod.splits)
qed

lemma clean_single:
  assumes "settled (ts_inside st) (ts_carry st)" and "length chunk \<le> 1"
  shows "clean_feed st chunk"
proof -
  let ?s = "ts_carry st @ chunk" and ?i = "ts_inside st"
  let ?m = "if ?i then match_close else match_open"
  show ?thesis
  proof (cases "search_tag ?m ?s")
    case None
    then have "last_rest ?i ?s = (?i, ?s)"
      by (subst last_rest.simps) (auto split: if_splits)
    then show ?thesis by (simp add: clean_feed_def reemitted_def)
  next
    case (Some p)
    then obtain b a where p: "search_tag ?m ?s = Some (b, a)" by (cases p) auto
    have m: "tag_matcher ?m"
      using open_tag.tag_matcher_axioms close_tag.tag_matcher_axioms by simp
    obtain g where g: "?s = (b @ CHR ''<'' # g) @ a"
      using tag_matcher.search_split [OF m p] by auto
    have "a = []"
    proof (rule ccontr)
      assume "a \<noteq> []"
      obtain a' where a': "a = a' @ chunk"
      proof (cases chunk rule: rev_cases)
        case (snoc xs x)
        then have "chunk = [x]" using assms(2) by (cases xs) auto
        then have "last ?s = x" by simp
        moreover have "last a = last ?s" unfolding g using \<open>a \<noteq> []\<close> by simp
        ultimately have "a = butlast a @ [x]"
          using append_butlast_last_id [OF \<open>a \<noteq> []\<close>] by simp
        then show ?thesis using that \<open>chunk = [x]\<close> by simp
      qed (use that in simp)
      have "search_tag ?m (ts_carry st) = Some (b, a')"
        by (rule tag_matcher.search_shrink [OF m p [unfolded a']])
      then show False using assms(1) by (simp add: settled_def)
    qed
    then have "last_rest ?i ?s = (\<not> ?i, [])"
      using p by (subst last_rest.simps) (auto simp: last_rest.simps [of _ "[]"] split: if_splits)
    then show ?thesis by (simp add: clean_feed_def reemitted_def)
  qed
qed

lemma clean_stream_single:
  "settled (ts_inside st) (ts_carry st) \<Longrightarrow> \<forall>c\<in>set cs. length c \<le> 1 \<Longrightarrow> clean_stream st cs"
proof (induction cs arbitrary: st)
  case (Cons c cs)
  obtain v t d j where s: "settle (ts_inside st) (ts_carry st @ c) = (v, t, d, j)"
    by (metis prod_cases4)
  then show ?case
    using Cons feed_settle [OF s] settle_settled [OF s] by (auto intro: clean_single)
qed simp

section \<open>Properties\<close>

text \<open>
  C6: However a reply is cut into chunks, the reasoning text the streaming parser yields is exactly the
  one \<open>_split_text_by_thinking_tags\<close> finds in the whole reply: no fragment of a split tag is lost,
  duplicated or mistaken for reasoning.
\<close>

theorem stream_thinking_exact:
  "snd (stream cs) = fst (snd (split_text_by_thinking_tags (concat cs) False False))"
  by (simp add: split_text_walk stream_walk)

text \<open>
  A stream without re-emission (\<open>clean_stream\<close>: in no call of \<open>feed\<close> is the text after the last
  complete tag a lone bracketed fragment) yields exactly the visible text and the reasoning of the
  whole reply.
\<close>

theorem stream_exact:
  assumes "clean_stream new_stream cs"
  shows "stream cs =
    (fst (split_text_by_thinking_tags (concat cs) False False),
     fst (snd (split_text_by_thinking_tags (concat cs) False False)))"
  using assms stream_walk [of cs] by (simp add: split_text_walk prod_eq_iff)

theorem stream_exact_witness:
  "stream [''Hello <thi'', ''nk>secret</th'', ''ink> world''] = (''Hello  world'', ''secret'')"
proof -
  have "clean_stream new_stream [''Hello <thi'', ''nk>secret</th'', ''ink> world'']"
    by code_simp
  from stream_exact [OF this] show ?thesis
    by code_simp
qed

text \<open>
  C21: Character by character (a tokenizer that emits single characters) the streaming parser always
  yields exactly the visible text and the reasoning of the whole reply.
\<close>

theorem stream_single_characters:
  assumes "\<forall>c\<in>set cs. length c \<le> 1"
  shows "stream cs =
    (fst (split_text_by_thinking_tags (concat cs) False False),
     fst (snd (split_text_by_thinking_tags (concat cs) False False)))"
proof -
  have "clean_stream new_stream cs"
    using assms by (intro clean_stream_single) (auto simp: settled_def new_stream_def)
  then show ?thesis
    using stream_walk [of cs] by (simp add: split_text_walk prod_eq_iff)
qed

theorem stream_single_characters_witness:
  "stream [''<'', ''p'', ''l'', ''a'', ''n'', ''>'', ''x'', ''<'', ''/'', ''p'', ''l'', ''a'', ''n'', ''>'', ''y''] =
     (''y'', ''x'')"
proof -
  let ?cs = "[''<'', ''p'', ''l'', ''a'', ''n'', ''>'', ''x'', ''<'', ''/'', ''p'', ''l'', ''a'', ''n'', ''>'', ''y'']"
  have "\<forall>c\<in>set ?cs. length c \<le> 1"
    by simp
  from stream_single_characters [OF this] show ?thesis
    by code_simp
qed

text \<open>
  The re-emission is real: a chunk that closes a block and goes on with a bracket shows the tags and
  the reasoning to the reader, although the whole reply has no visible text before that bracket.
\<close>

theorem stream_reemits_reasoning:
  "stream [''<think>secret</think><b'', ''>ok''] = (''<think>secret</think><b>ok'', ''secret'') \<and>
   split_text_by_thinking_tags ''<think>secret</think><b>ok'' False False = (''<b>ok'', ''secret'', [])"
  by code_simp

end
