(* ===== verification/Message_Content.thy ===== *)
theory Message_Content
  imports Thinking_Parser
begin

text \<open>
  Structured message content: \<open>parse_content_for_thinking\<close> and its helpers of
  \<open>thinking_parser.py\<close>, and the text extraction of \<open>agent/shared/infrastructure/parsing.py\<close>.
  A content value is a \<^typ>\<open>pyval\<close>; the functions recurse into dictionaries, lists and attributes.
\<close>

lemma dict_get_size: "dict_get d k = Some v \<Longrightarrow> size v < size (PDict d)"
  by (induction d) (auto split: if_splits)

lemma get_default_size:
  "get_default d k PNone \<noteq> PNone \<Longrightarrow> size (get_default d k PNone) < size (PDict d)"
  using dict_get_size by (force simp: get_default_def split: option.splits)

lemma get_item_list_size:
  "get_default d k PNone = PList xs \<Longrightarrow> size_list size xs < size_list (size_prod (\<lambda>x. 0) size) d"
  using get_default_size [of d k] by auto

section \<open>Reasoning values\<close>

function coerce_thinking_value :: "pyval \<Rightarrow> string"
  and coerce_items :: "pyval list \<Rightarrow> string list" where
  "coerce_thinking_value PNone = []"
| "coerce_thinking_value (PStr s) = s"
| "coerce_thinking_value (PDict d) =
     (case py_or (get_item d ''text'') (get_item d ''thinking'') of
        PStr s \<Rightarrow> s
      | _ \<Rightarrow> (if get_item d ''content'' \<noteq> PNone
              then coerce_thinking_value (get_item d ''content'') else []))"
| "coerce_thinking_value (PList xs) =
     join_str [CHR 0x0A] (filter (\<lambda>p. p \<noteq> []) (coerce_items xs))"
| "coerce_thinking_value (PBool b) = []"
| "coerce_thinking_value (PInt i) = []"
| "coerce_thinking_value (PObj a) =
     (case get_item a ''text'' of PStr s \<Rightarrow> s | _ \<Rightarrow> [])"
| "coerce_items [] = []"
| "coerce_items (x # xs) = coerce_thinking_value x # coerce_items xs"
  by pat_completeness auto
termination
  by (relation "measure (case_sum size (size_list size))") (auto intro: get_default_size [simplified])

section \<open>parse\_content\_for\_thinking\<close>

definition parse_text :: "string \<Rightarrow> content_with_thinking" where
  "parse_text s = (let (visible, thinking, _) = split_text_by_thinking_tags s False False
                   in \<lparr>cwt_text = visible, cwt_thinking = thinking\<rparr>)"

text \<open>\<open>str(part.get("type", "") or "").strip().lower()\<close>.\<close>

definition part_type :: "(string \<times> pyval) list \<Rightarrow> string" where
  "part_type d = lower_str (strip (py_str (py_or (get_default d ''type'' (PStr [])) (PStr []))))"

fun first_thinking :: "(string \<times> pyval) list \<Rightarrow> string list \<Rightarrow> string option" where
  "first_thinking d [] = None"
| "first_thinking d (k # ks) =
     (if get_item d k \<noteq> PNone \<and> coerce_thinking_value (get_item d k) \<noteq> []
      then Some (coerce_thinking_value (get_item d k)) else first_thinking d ks)"

definition structured_thinking :: "(string \<times> pyval) list \<Rightarrow> content_with_thinking" where
  "structured_thinking d =
     (case first_thinking d [''thinking'', ''reasoning'', ''reasoning_content''] of
        Some t \<Rightarrow> \<lparr>cwt_text = [], cwt_thinking = t\<rparr>
      | None \<Rightarrow> \<lparr>cwt_text = [],
                cwt_thinking = coerce_thinking_value (py_or (get_item d ''text'') (get_item d ''content''))\<rparr>)"

text \<open>
  \<open>parse_content\<close> is \<open>parse_content_for_thinking\<close>, \<open>parse_part\<close> is \<open>_parse_part_for_thinking\<close>,
  \<open>parse_parts\<close> its loop over a list. A list has none of the attributes the last branch of
  \<open>_parse_part_for_thinking\<close> asks for.
\<close>

function parse_content :: "pyval \<Rightarrow> content_with_thinking"
  and parse_part :: "pyval \<Rightarrow> content_with_thinking"
  and parse_parts :: "pyval list \<Rightarrow> content_with_thinking list" where
  "parse_content PNone = no_content"
| "parse_content (PStr s) = parse_text s"
| "parse_content (PDict d) = parse_part (PDict d)"
| "parse_content (PList xs) =
     (let ps = parse_parts xs in
      \<lparr>cwt_text = concat (filter (\<lambda>t. t \<noteq> []) (map cwt_text ps)),
       cwt_thinking = join_str [CHR 0x0A] (filter (\<lambda>t. t \<noteq> []) (map cwt_thinking ps))\<rparr>)"
| "parse_content (PBool b) = no_content"
| "parse_content (PInt i) = no_content"
| "parse_content (PObj a) =
     (case get_item a ''text'' of PStr s \<Rightarrow> parse_text s | _ \<Rightarrow> no_content)"
| "parse_part (PStr s) = parse_text s"
| "parse_part (PDict d) =
     (if part_type d \<in> set THINKING_PART_TYPES then structured_thinking d
      else (case get_item d ''text'' of
              PStr s \<Rightarrow> parse_text s
            | _ \<Rightarrow> (if get_item d ''content'' \<noteq> PNone then parse_content (get_item d ''content'')
                    else no_content)))"
| "parse_part (PObj a) =
     (let thinking = py_or (py_or (get_item a ''thinking'') (get_item a ''reasoning''))
                       (get_item a ''reasoning_content'') in
      if (case thinking of PStr s \<Rightarrow> strip s \<noteq> [] | _ \<Rightarrow> False)
      then \<lparr>cwt_text = [], cwt_thinking = py_str thinking\<rparr>
      else (case get_item a ''text'' of
              PStr s \<Rightarrow> parse_text s
            | _ \<Rightarrow> (if get_item a ''content'' \<noteq> PNone then parse_content (get_item a ''content'')
                    else no_content)))"
| "parse_part PNone = no_content"
| "parse_part (PBool b) = no_content"
| "parse_part (PInt i) = no_content"
| "parse_part (PList xs) = no_content"
| "parse_parts [] = []"
| "parse_parts (x # xs) = parse_part x # parse_parts xs"
  by pat_completeness auto
termination
  by (relation "measures [case_sum size (case_sum size (size_list size)),
        case_sum (\<lambda>_. 1) (\<lambda>_. 0 :: nat)]")
    (auto dest: get_default_size [simplified])

section \<open>Final text\<close>

definition normalize_text :: "pyval \<Rightarrow> string" where
  "normalize_text v = (if v = PNone then [] else
     (let t = py_str v in if strip t \<noteq> [] then t else []))"

definition normalize_str :: "string \<Rightarrow> string" where
  "normalize_str t = (if strip t \<noteq> [] then t else [])"

text \<open>
  \<open>final_text\<close> is \<open>extract_final_text_content\<close>, \<open>part_text\<close> is \<open>_extract_text_from_part\<close>, and
  \<open>last_text\<close> its loop over \<open>reversed(value)\<close>: the last part with a text.
\<close>

function final_text :: "pyval \<Rightarrow> string"
  and part_text :: "bool \<Rightarrow> pyval \<Rightarrow> string"
  and last_text :: "bool \<Rightarrow> pyval list \<Rightarrow> string" where
  "final_text (PStr s) = normalize_str (strip_thinking_tags s)"
| "final_text (PDict d) = part_text False (PDict d)"
| "final_text (PList xs) =
     (let t = last_text True xs in if t \<noteq> [] then t else last_text False xs)"
| "final_text PNone = normalize_text PNone"
| "final_text (PBool b) = normalize_text (PBool b)"
| "final_text (PInt i) = normalize_text (PInt i)"
| "final_text (PObj a) = normalize_text (PObj a)"
| "part_text skip (PStr s) = normalize_str (strip_thinking_tags s)"
| "part_text skip (PDict d) =
     (if skip \<and> part_type d \<in> set THINKING_PART_TYPES then []
      else (let t = normalize_text (get_item d ''text'') in
        if t \<noteq> [] then normalize_str (strip_thinking_tags t)
        else (case get_item d ''content'' of
                PList xs \<Rightarrow> final_text (PList xs)
              | PStr s \<Rightarrow> normalize_str (strip_thinking_tags s)
              | _ \<Rightarrow> [])))"
| "part_text skip (PObj a) =
     (case get_item a ''text'' of PStr s \<Rightarrow> normalize_str (strip_thinking_tags s) | _ \<Rightarrow> [])"
| "part_text skip PNone = []"
| "part_text skip (PBool b) = []"
| "part_text skip (PInt i) = []"
| "part_text skip (PList xs) = []"
| "last_text skip [] = []"
| "last_text skip (x # xs) =
     (let t = last_text skip xs in if t \<noteq> [] then t else part_text skip x)"
  by pat_completeness auto
termination
  by (relation "measures [case_sum size (case_sum (size \<circ> snd) (size_list size \<circ> snd)),
        case_sum (\<lambda>_. 1) (\<lambda>_. 0 :: nat)]")
    (auto dest: get_item_list_size)

definition extract_tool_display_content :: "pyval \<Rightarrow> string" where
  "extract_tool_display_content message =
     (case get_attr message ''artifact'' of
        PDict a \<Rightarrow> (case get_item a ''display_content'' of
                     PStr s \<Rightarrow> final_text (PStr s)
                   | _ \<Rightarrow> final_text (get_attr message ''content''))
      | _ \<Rightarrow> final_text (get_attr message ''content''))"

text \<open>\<open>value.split(separator)\<close> for a one-character separator, \<open>parse_string_or_list\<close>.\<close>

fun split_char :: "char \<Rightarrow> string \<Rightarrow> string list" where
  "split_char sep [] = [[]]"
| "split_char sep (c # s) =
     (if c = sep then [] # split_char sep s
      else (case split_char sep s of [] \<Rightarrow> [[c]] | x # xs \<Rightarrow> (c # x) # xs))"

definition parse_string_or_list :: "pyval \<Rightarrow> char \<Rightarrow> string list" where
  "parse_string_or_list v sep =
     (case v of
        PStr s \<Rightarrow> map strip (filter (\<lambda>x. strip x \<noteq> []) (split_char sep s))
      | PList xs \<Rightarrow> filter (\<lambda>x. x \<noteq> []) (map (\<lambda>x. strip (py_str x)) xs)
      | _ \<Rightarrow> [])"

definition safe_str_strip :: "pyval \<Rightarrow> string \<Rightarrow> string" where
  "safe_str_strip v dflt =
     (let r = strip (py_str (py_or v (PStr []))) in if r \<noteq> [] then r else dflt)"

section \<open>Properties\<close>

lemma normalize_str_blank: "normalize_str t = [] \<or> strip (normalize_str t) \<noteq> []"
  by (simp add: normalize_str_def strip_def rstrip_def lstrip_def)

lemma normalize_text_blank: "normalize_text v = [] \<or> strip (normalize_text v) \<noteq> []"
  by (simp add: normalize_text_def Let_def strip_def rstrip_def lstrip_def)

lemma final_text_not_blank_parts:
  "final_text v = [] \<or> strip (final_text v) \<noteq> []"
  "part_text skip v = [] \<or> strip (part_text skip v) \<noteq> []"
  "last_text skip xs = [] \<or> strip (last_text skip xs) \<noteq> []"
  by (induction v and skip v and skip xs rule: final_text_part_text_last_text.induct)
    (use normalize_str_blank normalize_text_blank in \<open>auto simp: Let_def split: pyval.splits\<close>)

definition extract_thinking_content :: "pyval \<Rightarrow> string" where
  "extract_thinking_content v = cwt_thinking (parse_content v)"

lemma last_text_skip_empty:
  "\<forall>q\<in>set bs. part_text skip q = [] \<Longrightarrow> last_text skip bs = []"
  by (induction bs) auto

lemma last_text_append:
  "last_text skip (as @ p # bs) =
     (let t = last_text skip bs in if t \<noteq> [] then t
      else if part_text skip p \<noteq> [] then part_text skip p else last_text skip as)"
  by (induction as) (auto simp: Let_def)

lemma part_text_reasoning:
  "part_type d \<in> set THINKING_PART_TYPES \<Longrightarrow> part_text True (PDict d) = []"
  by simp

text \<open>
  In a list of content blocks the text shown to the user is the one of the last block that is not a
  reasoning block and has text: later reasoning blocks and empty blocks never replace it.
\<close>

theorem final_text_last_answer:
  assumes "part_text True p \<noteq> []"
    and "\<forall>q\<in>set bs. part_text True q = [] \<or>
      (\<exists>d. q = PDict d \<and> part_type d \<in> set THINKING_PART_TYPES)"
  shows "final_text (PList (as @ p # bs)) = part_text True p"
proof -
  have "last_text True bs = []"
    using assms(2) by (intro last_text_skip_empty) (auto dest: part_text_reasoning)
  with assms(1) show ?thesis by (simp add: last_text_append)
qed

theorem final_text_last_answer_witness:
  "final_text (PList
     [PStr ''draft'', PDict [(''type'', PStr ''text''), (''text'', PStr ''<plan>x</plan>answer'')],
      PDict [(''type'', PStr ''Thinking ''), (''text'', PStr ''hidden'')]]) = ''answer''"
proof -
  let ?p = "PDict [(''type'', PStr ''text''), (''text'', PStr ''<plan>x</plan>answer'')]"
  let ?q = "PDict [(''type'', PStr ''Thinking ''), (''text'', PStr ''hidden'')]"
  have "part_text True ?p = ''answer''" and "part_text True ?q = []"
    by code_simp+
  then show ?thesis
    using final_text_last_answer [of ?p "[?q]" "[PStr ''draft'']"] by simp
qed

text \<open>
  The visible text is not free of thinking markers, contrary to the guarantee in the docstring of
  \<open>ContentWithThinking\<close>: removing a block can join the halves of a new opening tag.
\<close>

theorem visible_text_may_hold_tag:
  "parse_content (PStr ''<thi<plan>x</plan>nk>y'') = \<lparr>cwt_text = ''<think>y'', cwt_thinking = ''x''\<rparr>
   \<and> search_tag match_open ''<think>y'' = Some ([], ''y'')"
  by code_simp

end
