(* ===== verification/Active_Sessions.thy ===== *)
theory Active_Sessions
  imports Prelude
begin

text \<open>
  Model of \<open>agent/modules/agent_runtime/active_sessions.py\<close>: the registry of running agent
  sessions, its reference counts per conversation thread, and the reservations that keep runs and
  checkpoint mutations of a thread apart. Every method body runs under \<open>self._lock\<close>, so a
  method is one atomic step on the registry. Times are exact numbers of seconds (\<^typ>\<open>rat\<close>); a
  broadcast is recorded as the pair of the listeners of that moment and the event they are sent.
\<close>

section \<open>State\<close>

definition MAX_RECORDED_TOOLS :: nat where "MAX_RECORDED_TOOLS = 20"
definition SESSION_STEP_INITIALIZING :: string where "SESSION_STEP_INITIALIZING = ''initializing''"
definition SESSION_STEP_FINALIZING :: string where "SESSION_STEP_FINALIZING = ''finalizing''"
definition TOOL_STEP_PREFIX :: string where "TOOL_STEP_PREFIX = ''tool:''"

record active_session =
  as_thread_id :: string
  as_platform :: string
  as_user_id :: string
  as_channel_id :: string
  as_agent_name :: string
  as_session_id :: string
  as_started_at :: rat
  as_current_step :: string
  as_tools_called :: "string list"
  as_running_pids :: "int set"

text \<open>Truncation of a float towards zero: \<open>int(seconds)\<close>.\<close>

definition py_int :: "rat \<Rightarrow> int" where
  "py_int x = (if x < 0 then - \<lfloor>- x\<rfloor> else \<lfloor>x\<rfloor>)"

definition format_elapsed :: "rat \<Rightarrow> string" where
  "format_elapsed seconds =
     (if seconds < 60 then int_str (py_int seconds) @ ''s''
      else (let minutes = py_int seconds div 60; secs = py_int seconds mod 60 in
        if minutes < 60 then int_str minutes @ ''m '' @ int_str secs @ ''s''
        else (let hours = minutes div 60; mins = minutes mod 60 in
          int_str hours @ ''h '' @ int_str mins @ ''m'')))"

datatype session_event =
    SessionStarted active_session
  | SessionStopped string string \<comment> \<open>session id, thread id\<close>
  | SessionUpdated active_session

datatype session_error = MutationInProgress | AgentRunning

record registry =
  rg_sessions :: "(string, active_session) dict"
  rg_tasks :: "(string, nat) dict"
  rg_refcounts :: "(string, int) dict"
  rg_listeners :: "nat list"
  rg_mutations :: "string set"
  rg_sent :: "(nat list \<times> session_event) list"

definition new_registry :: registry where
  "new_registry = \<lparr>rg_sessions = [], rg_tasks = [], rg_refcounts = [], rg_listeners = [],
     rg_mutations = {}, rg_sent = []\<rparr>"

section \<open>Operations\<close>

definition broadcast :: "session_event \<Rightarrow> registry \<Rightarrow> registry" where
  "broadcast ev r =
     (if rg_listeners r = [] then r else r\<lparr>rg_sent := rg_sent r @ [(rg_listeners r, ev)]\<rparr>)"

definition check_thread_mutation :: "registry \<Rightarrow> string \<Rightarrow> session_error option" where
  "check_thread_mutation r tid = (if tid \<in> rg_mutations r then Some MutationInProgress else None)"

text \<open>Entering and leaving \<open>reserve_thread_mutation(thread_id, require_idle=...)\<close>.\<close>

definition reserve_thread_mutation :: "registry \<Rightarrow> string \<Rightarrow> bool \<Rightarrow> session_error + registry" where
  "reserve_thread_mutation r tid require_idle =
     (if tid \<in> rg_mutations r then Inl MutationInProgress
      else if require_idle \<and> list_ex (\<lambda>(_, s). as_thread_id s = tid) (rg_sessions r)
        then Inl AgentRunning
      else Inr (r\<lparr>rg_mutations := insert tid (rg_mutations r)\<rparr>))"

definition end_thread_mutation :: "registry \<Rightarrow> string \<Rightarrow> registry" where
  "end_thread_mutation r tid = r\<lparr>rg_mutations := rg_mutations r - {tid}\<rparr>"

text \<open>
  \<open>wait_for_thread_mutation\<close> retries the reservation every 0.05 seconds; the registries it finds
  at its attempts are given as a list, so \<open>None\<close> is "still waiting after all of them".
\<close>

fun wait_for_thread_mutation :: "registry list \<Rightarrow> string \<Rightarrow> (nat \<times> registry) option" where
  "wait_for_thread_mutation [] tid = None"
| "wait_for_thread_mutation (r # rs) tid =
     (case reserve_thread_mutation r tid False of
        Inr r' \<Rightarrow> Some (0, r')
      | Inl _ \<Rightarrow> map_option (apfst Suc) (wait_for_thread_mutation rs tid))"

definition subscribe_listener :: "registry \<Rightarrow> nat \<Rightarrow> registry" where
  "subscribe_listener r q = r\<lparr>rg_listeners := List.insert q (rg_listeners r)\<rparr>"

definition unsubscribe_listener :: "registry \<Rightarrow> nat \<Rightarrow> registry" where
  "unsubscribe_listener r q = r\<lparr>rg_listeners := filter (\<lambda>x. x \<noteq> q) (rg_listeners r)\<rparr>"

definition update_session :: "registry \<Rightarrow> string \<Rightarrow> active_session \<Rightarrow> registry" where
  "update_session r sid s = r\<lparr>rg_sessions := dict_set sid s (rg_sessions r)\<rparr>"

definition register_pid :: "registry \<Rightarrow> string \<Rightarrow> int \<Rightarrow> registry" where
  "register_pid r sid pid = (case dict_get (rg_sessions r) sid of
      Some s \<Rightarrow> update_session r sid (s\<lparr>as_running_pids := insert pid (as_running_pids s)\<rparr>)
    | None \<Rightarrow> r)"

definition unregister_pid :: "registry \<Rightarrow> string \<Rightarrow> int \<Rightarrow> registry" where
  "unregister_pid r sid pid = (case dict_get (rg_sessions r) sid of
      Some s \<Rightarrow> update_session r sid (s\<lparr>as_running_pids := as_running_pids s - {pid}\<rparr>)
    | None \<Rightarrow> r)"

definition set_task :: "string \<Rightarrow> nat option \<Rightarrow> registry \<Rightarrow> registry" where
  "set_task sid task r = (case task of
      None \<Rightarrow> r | Some t \<Rightarrow> r\<lparr>rg_tasks := dict_set sid t (rg_tasks r)\<rparr>)"

definition register_locked :: "registry \<Rightarrow> active_session \<Rightarrow> nat option \<Rightarrow> registry" where
  "register_locked r s task =
     set_task (as_session_id s) task
       (r\<lparr>rg_sessions := dict_set (as_session_id s) s (rg_sessions r),
          rg_refcounts := dict_set (as_session_id s) 1 (rg_refcounts r)\<rparr>)"

definition register_session ::
    "registry \<Rightarrow> active_session \<Rightarrow> nat option \<Rightarrow> session_error + (string \<times> registry)" where
  "register_session r s task =
     (case check_thread_mutation r (as_thread_id s) of
        Some e \<Rightarrow> Inl e
      | None \<Rightarrow> Inr (as_session_id s, broadcast (SessionStarted s) (register_locked r s task)))"

definition unregister_session :: "registry \<Rightarrow> string \<Rightarrow> registry" where
  "unregister_session r sid =
     (let tid = (case dict_get (rg_sessions r) sid of Some s \<Rightarrow> as_thread_id s | None \<Rightarrow> []);
          r' = r\<lparr>rg_sessions := dict_pop sid (rg_sessions r),
                 rg_tasks := dict_pop sid (rg_tasks r),
                 rg_refcounts := dict_pop sid (rg_refcounts r)\<rparr>
      in if tid \<noteq> [] then broadcast (SessionStopped sid tid) r' else r')"

text \<open>The first session of a thread in the order of the dictionary.\<close>

fun session_of_thread :: "(string, active_session) dict \<Rightarrow> string \<Rightarrow> string option" where
  "session_of_thread [] tid = None"
| "session_of_thread ((sid, s) # d) tid =
     (if as_thread_id s = tid then Some sid else session_of_thread d tid)"

definition acquire ::
    "registry \<Rightarrow> active_session \<Rightarrow> nat option \<Rightarrow> session_error + (string \<times> registry)" where
  "acquire r s task =
     (case check_thread_mutation r (as_thread_id s) of
        Some e \<Rightarrow> Inl e
      | None \<Rightarrow>
          (case session_of_thread (rg_sessions r) (as_thread_id s) of
             Some sid \<Rightarrow>
               (let n = (case dict_get (rg_refcounts r) sid of Some k \<Rightarrow> k | None \<Rightarrow> 1) in
                Inr (sid, set_task sid task
                  (r\<lparr>rg_refcounts := dict_set sid (n + 1) (rg_refcounts r)\<rparr>)))
           | None \<Rightarrow>
               Inr (as_session_id s, broadcast (SessionStarted s) (register_locked r s task))))"

definition release :: "registry \<Rightarrow> string \<Rightarrow> registry" where
  "release r sid =
     (let n = (case dict_get (rg_refcounts r) sid of Some k \<Rightarrow> k | None \<Rightarrow> 0) in
      if n > 1 then r\<lparr>rg_refcounts := dict_set sid (n - 1) (rg_refcounts r)\<rparr>
      else unregister_session r sid)"

definition update_step :: "registry \<Rightarrow> string \<Rightarrow> string \<Rightarrow> registry" where
  "update_step r sid step = (case dict_get (rg_sessions r) sid of
      None \<Rightarrow> r
    | Some s \<Rightarrow> if as_current_step s = step then r
        else (let s' = s\<lparr>as_current_step := step\<rparr> in
          broadcast (SessionUpdated s') (update_session r sid s')))"

definition last_tools :: "string list \<Rightarrow> string list" where
  "last_tools xs = drop (length xs - MAX_RECORDED_TOOLS) xs"

definition add_tool_call :: "registry \<Rightarrow> string \<Rightarrow> string \<Rightarrow> registry" where
  "add_tool_call r sid tool = (case dict_get (rg_sessions r) sid of
      None \<Rightarrow> r
    | Some s \<Rightarrow>
        (let s' = s\<lparr>as_tools_called := last_tools (as_tools_called s @ [tool]),
                    as_current_step := TOOL_STEP_PREFIX @ tool\<rparr> in
         broadcast (SessionUpdated s') (update_session r sid s')))"

definition list_active :: "registry \<Rightarrow> active_session list" where
  "list_active r = map snd (rg_sessions r)"

definition get_session :: "registry \<Rightarrow> string \<Rightarrow> active_session option" where
  "get_session r sid = dict_get (rg_sessions r) sid"

definition count_sessions :: "registry \<Rightarrow> nat" where
  "count_sessions r = length (rg_sessions r)"

text \<open>
  \<open>cancel_session\<close>: the thread whose processes are stopped first, whether a task was cancelled, and
  the pids that get a SIGTERM. \<open>cancels\<close> says whether \<open>task.cancel()\<close> returns normally.
\<close>

definition cancel_session ::
    "(nat \<Rightarrow> bool) \<Rightarrow> registry \<Rightarrow> string \<Rightarrow> string option \<times> bool \<times> int set" where
  "cancel_session cancels r sid =
     (let s = dict_get (rg_sessions r) sid in
      (map_option as_thread_id s,
       (case dict_get (rg_tasks r) sid of None \<Rightarrow> False | Some t \<Rightarrow> cancels t),
       (case s of None \<Rightarrow> {} | Some x \<Rightarrow> as_running_pids x)))"

text \<open>\<open>cancel_by_thread\<close>, with the result of \<open>stop_thread_now\<close> as an argument.\<close>

definition sessions_on :: "registry \<Rightarrow> string \<Rightarrow> string list" where
  "sessions_on r tid = map fst (filter (\<lambda>(_, s). as_thread_id s = tid) (rg_sessions r))"

definition cancel_by_thread ::
    "(nat \<Rightarrow> bool) \<Rightarrow> bool \<Rightarrow> registry \<Rightarrow> string \<Rightarrow> bool \<times> int set" where
  "cancel_by_thread cancels stopped r tid =
     (let outs = map (cancel_session cancels r) (sessions_on r tid)
      in (stopped \<or> list_ex (\<lambda>(_, c, _). c) outs, \<Union> (set (map (\<lambda>(_, _, p). p) outs))))"

end
