(* ===== verification/Session_Guard.thy ===== *)
theory Session_Guard
  imports Active_Sessions
begin

text \<open>
  What the session registry promises: a well-formedness invariant, the reference-counting contract of
  \<open>acquire\<close> / \<open>release\<close> (a locale, interpreted on the registry), and the exclusion of runs and
  checkpoint mutations, as an invariant of a step relation over registries and open reservations.
\<close>

section \<open>Well-formed registries\<close>

definition registry_ok :: "registry \<Rightarrow> bool" where
  "registry_ok r \<longleftrightarrow>
     is_dict (rg_sessions r) \<and> is_dict (rg_refcounts r) \<and>
     fst ` set (rg_refcounts r) = fst ` set (rg_sessions r) \<and>
     fst ` set (rg_tasks r) \<subseteq> fst ` set (rg_sessions r) \<and>
     (\<forall>sid n. dict_get (rg_refcounts r) sid = Some n \<longrightarrow> 1 \<le> n)"

lemma broadcast_fields [simp]:
  "rg_sessions (broadcast e r) = rg_sessions r" "rg_tasks (broadcast e r) = rg_tasks r"
  "rg_refcounts (broadcast e r) = rg_refcounts r" "rg_mutations (broadcast e r) = rg_mutations r"
  "rg_listeners (broadcast e r) = rg_listeners r"
  by (simp_all add: broadcast_def)

lemma set_task_fields [simp]:
  "rg_sessions (set_task i t r) = rg_sessions r" "rg_refcounts (set_task i t r) = rg_refcounts r"
  "rg_mutations (set_task i t r) = rg_mutations r"
  by (simp_all add: set_task_def split: option.splits)

lemma set_task_keys:
  "fst ` set (rg_tasks (set_task i t r)) =
     (case t of None \<Rightarrow> fst ` set (rg_tasks r) | Some _ \<Rightarrow> insert i (fst ` set (rg_tasks r)))"
  by (simp add: set_task_def dict_simps split: option.splits)

lemma registry_ok_cong:
  "rg_sessions r' = rg_sessions r \<Longrightarrow> rg_tasks r' = rg_tasks r \<Longrightarrow> rg_refcounts r' = rg_refcounts r \<Longrightarrow>
   registry_ok r' = registry_ok r"
  by (simp add: registry_ok_def)

lemma session_of_thread_None:
  "session_of_thread d tid = None \<longleftrightarrow> (\<forall>(sid, s) \<in> set d. as_thread_id s \<noteq> tid)"
  by (induction d tid rule: session_of_thread.induct) auto

lemma session_of_thread_Some:
  "session_of_thread d tid = Some sid \<Longrightarrow> \<exists>s. (sid, s) \<in> set d \<and> as_thread_id s = tid"
  by (induction d tid rule: session_of_thread.induct) (auto split: if_splits)

lemma registry_ok_new: "registry_ok new_registry"
  by (simp add: registry_ok_def new_registry_def)

lemma registry_ok_set_task:
  assumes "registry_ok r" and "sid \<in> fst ` set (rg_sessions r)"
  shows "registry_ok (set_task sid task r)"
  using assms by (cases task) (simp_all add: registry_ok_def set_task_keys)

lemma registry_ok_refcount:
  assumes "registry_ok r" and "sid \<in> fst ` set (rg_sessions r)" and "1 \<le> n"
  shows "registry_ok (r\<lparr>rg_refcounts := dict_set sid n (rg_refcounts r)\<rparr>)"
  using assms by (simp add: registry_ok_def dict_simps insert_absorb)

lemma registry_ok_register_locked:
  assumes "registry_ok r"
  shows "registry_ok (register_locked r s task)"
  unfolding register_locked_def
  by (rule registry_ok_set_task) (use assms in \<open>auto simp: registry_ok_def dict_simps\<close>)

lemma registry_ok_unregister:
  assumes "registry_ok r"
  shows "registry_ok (unregister_session r sid)"
  unfolding unregister_session_def Let_def
  using assms by (auto simp: registry_ok_def dict_simps)

lemma registry_ok_broadcast [simp]: "registry_ok (broadcast e r) = registry_ok r"
  by (simp add: registry_ok_def)

lemma refcount_pos:
  "registry_ok r \<Longrightarrow> dict_get (rg_refcounts r) sid = Some n \<Longrightarrow> 1 \<le> n"
  by (simp add: registry_ok_def)

lemma registry_ok_acquire:
  assumes ok: "registry_ok r" and acq: "acquire r s task = Inr (sid, r')"
  shows "registry_ok r'"
proof (cases "session_of_thread (rg_sessions r) (as_thread_id s)")
  case None
  then show ?thesis
    using acq ok by (auto simp: acquire_def registry_ok_register_locked split: option.splits)
next
  case (Some i)
  then obtain x where "(i, x) \<in> set (rg_sessions r)"
    using session_of_thread_Some by blast
  then have i: "i \<in> fst ` set (rg_sessions r)" by force
  let ?n = "case dict_get (rg_refcounts r) i of Some k \<Rightarrow> k | None \<Rightarrow> 1"
  let ?r = "r\<lparr>rg_refcounts := dict_set i (?n + 1) (rg_refcounts r)\<rparr>"
  have "1 \<le> ?n + 1"
    using refcount_pos [OF ok, of i] by (cases "dict_get (rg_refcounts r) i") force+
  then have "registry_ok ?r"
    by (rule registry_ok_refcount [OF ok i])
  moreover have "r' = set_task i task ?r"
    using acq Some by (auto simp: acquire_def Let_def split: option.splits)
  ultimately show ?thesis
    using i by (simp add: registry_ok_set_task)
qed

lemma registry_ok_register:
  assumes "registry_ok r" and "register_session r s task = Inr (sid, r')"
  shows "registry_ok r'"
  using assms by (auto simp: register_session_def registry_ok_register_locked split: option.splits)

lemma registry_ok_release:
  assumes "registry_ok r"
  shows "registry_ok (release r sid)"
proof (cases "dict_get (rg_refcounts r) sid")
  case None
  then show ?thesis using assms by (simp add: release_def registry_ok_unregister)
next
  case (Some n)
  then have "sid \<in> fst ` set (rg_sessions r)"
    using assms dict_get_Some_key [OF Some] by (simp add: registry_ok_def)
  then show ?thesis
    using assms Some registry_ok_refcount [OF assms, of sid "n - 1"]
    by (simp add: release_def registry_ok_unregister)
qed

lemma unregister_sessions: "rg_sessions (unregister_session r sid) = dict_pop sid (rg_sessions r)"
  by (simp add: unregister_session_def Let_def)

lemma release_sessions_filter: "\<exists>P. rg_sessions (release r sid) = filter P (rg_sessions r)"
proof -
  have "filter (\<lambda>_. True) (rg_sessions r) = rg_sessions r" by simp
  then show ?thesis
    unfolding release_def Let_def
    by (cases "(case dict_get (rg_refcounts r) sid of None \<Rightarrow> 0 | Some k \<Rightarrow> k) > 1")
      (auto simp: unregister_sessions AList.delete_eq intro: exI [of _ "\<lambda>_. True"])
qed

lemma unregister_mutations [simp]: "rg_mutations (unregister_session r sid) = rg_mutations r"
  by (simp add: unregister_session_def Let_def)

lemma release_mutations [simp]: "rg_mutations (release r sid) = rg_mutations r"
  by (simp add: release_def Let_def)

lemma length_filter_twice: "length (filter Q (filter P xs)) \<le> length (filter Q xs)"
  by (induction xs) auto

section \<open>The reference-counting contract\<close>

fun run_uses :: "('s \<Rightarrow> 's) \<Rightarrow> ('s \<Rightarrow> 's) \<Rightarrow> bool list \<Rightarrow> 's \<Rightarrow> 's" where
  "run_uses acq rel [] s = s"
| "run_uses acq rel (True # bs) s = run_uses acq rel bs (acq s)"
| "run_uses acq rel (False # bs) s = run_uses acq rel bs (rel s)"

fun net_uses :: "nat \<Rightarrow> bool list \<Rightarrow> nat" where
  "net_uses n [] = n"
| "net_uses n (True # bs) = net_uses (Suc n) bs"
| "net_uses n (False # bs) = net_uses (n - 1) bs"

locale refcounted =
  fixes acq rel :: "'s \<Rightarrow> 's"
    and refs :: "'s \<Rightarrow> nat"
    and inv :: "'s \<Rightarrow> bool"
  assumes inv_acq: "inv s \<Longrightarrow> inv (acq s)"
    and inv_rel: "inv s \<Longrightarrow> inv (rel s)"
    and refs_acq: "inv s \<Longrightarrow> refs (acq s) = Suc (refs s)"
    and refs_rel: "inv s \<Longrightarrow> refs (rel s) = refs s - 1"
begin

lemma refs_run: "inv s \<Longrightarrow> inv (run_uses acq rel bs s) \<and> refs (run_uses acq rel bs s) = net_uses (refs s) bs"
proof (induction bs arbitrary: s)
  case (Cons b bs)
  then show ?case by (cases b) (simp_all add: inv_acq inv_rel refs_acq refs_rel)
qed simp

end

text \<open>The registry as such a counter, for the sessions of one thread.\<close>

definition acquire_for :: "active_session \<Rightarrow> nat option \<Rightarrow> registry \<Rightarrow> registry" where
  "acquire_for s task r = (case acquire r s task of Inr (_, r') \<Rightarrow> r' | Inl _ \<Rightarrow> r)"

definition release_for :: "string \<Rightarrow> registry \<Rightarrow> registry" where
  "release_for tid r =
     (case session_of_thread (rg_sessions r) tid of Some sid \<Rightarrow> release r sid | None \<Rightarrow> r)"

definition thread_uses :: "string \<Rightarrow> registry \<Rightarrow> nat" where
  "thread_uses tid r =
     (case session_of_thread (rg_sessions r) tid of
        None \<Rightarrow> 0
      | Some sid \<Rightarrow> (case dict_get (rg_refcounts r) sid of Some n \<Rightarrow> nat n | None \<Rightarrow> 0))"

definition one_session :: "string \<Rightarrow> registry \<Rightarrow> bool" where
  "one_session tid r \<longleftrightarrow> length (sessions_on r tid) \<le> 1"

text \<open>The new session's id belongs to no other thread (ids are fresh UUIDs).\<close>

definition fresh_for :: "active_session \<Rightarrow> registry \<Rightarrow> bool" where
  "fresh_for s r \<longleftrightarrow> (\<forall>x. (as_session_id s, x) \<in> set (rg_sessions r) \<longrightarrow> as_thread_id x = as_thread_id s)"

definition usable :: "active_session \<Rightarrow> registry \<Rightarrow> bool" where
  "usable s r \<longleftrightarrow> registry_ok r \<and> as_thread_id s \<notin> rg_mutations r \<and>
     one_session (as_thread_id s) r \<and> fresh_for s r"

lemma session_of_thread_unique:
  assumes "one_session tid r" and "(i, x) \<in> set (rg_sessions r)" and "as_thread_id x = tid"
  shows "sessions_on r tid = [i]" and "session_of_thread (rg_sessions r) tid = Some i"
proof -
  have mem: "\<And>j y. (j, y) \<in> set (rg_sessions r) \<Longrightarrow> as_thread_id y = tid \<Longrightarrow> j \<in> set (sessions_on r tid)"
    by (force simp: sessions_on_def)
  from mem [OF assms(2,3)] assms(1) show single: "sessions_on r tid = [i]"
    by (cases "sessions_on r tid") (auto simp: one_session_def)
  have "session_of_thread (rg_sessions r) tid \<noteq> None"
    using assms(2,3) by (auto simp: session_of_thread_None)
  then obtain j where j: "session_of_thread (rg_sessions r) tid = Some j" by blast
  then obtain y where "(j, y) \<in> set (rg_sessions r)" "as_thread_id y = tid"
    using session_of_thread_Some by blast
  from mem [OF this] single j show "session_of_thread (rg_sessions r) tid = Some i"
    by simp
qed

lemma sessions_on_mem:
  "(j, y) \<in> set (rg_sessions r) \<Longrightarrow> j \<in> set (sessions_on r (as_thread_id y))"
  by (force simp: sessions_on_def)

lemma no_session_on: "session_of_thread (rg_sessions r) tid = None \<longleftrightarrow> sessions_on r tid = []"
  by (auto simp: session_of_thread_None sessions_on_def filter_empty_conv)

lemma acquire_existing:
  assumes "as_thread_id s \<notin> rg_mutations r"
    and "session_of_thread (rg_sessions r) (as_thread_id s) = Some i"
  shows "acquire_for s task r = set_task i task (r\<lparr>rg_refcounts :=
    dict_set i ((case dict_get (rg_refcounts r) i of Some k \<Rightarrow> k | None \<Rightarrow> 1) + 1) (rg_refcounts r)\<rparr>)"
  using assms by (simp add: acquire_for_def acquire_def check_thread_mutation_def Let_def)

lemma acquire_new:
  assumes "as_thread_id s \<notin> rg_mutations r"
    and "session_of_thread (rg_sessions r) (as_thread_id s) = None"
  shows "acquire_for s task r = broadcast (SessionStarted s) (register_locked r s task)"
  using assms by (simp add: acquire_for_def acquire_def check_thread_mutation_def)

lemma usable_new_session:
  assumes use: "usable s r" and none: "session_of_thread (rg_sessions r) (as_thread_id s) = None"
  shows "dict_set (as_session_id s) s (rg_sessions r) = rg_sessions r @ [(as_session_id s, s)]"
proof -
  have "as_session_id s \<notin> fst ` set (rg_sessions r)"
  proof
    assume "as_session_id s \<in> fst ` set (rg_sessions r)"
    then obtain x where "(as_session_id s, x) \<in> set (rg_sessions r)" by auto
    with use none show False
      unfolding usable_def fresh_for_def session_of_thread_None by blast
  qed
  then show ?thesis by (rule dict_set_new)
qed

lemma usable_refcount:
  assumes use: "usable s r" and i: "session_of_thread (rg_sessions r) (as_thread_id s) = Some i"
  shows "\<exists>n x. dict_get (rg_refcounts r) i = Some n \<and> 1 \<le> n \<and> (i, x) \<in> set (rg_sessions r) \<and>
    as_thread_id x = as_thread_id s"
proof -
  have ok: "registry_ok r" using use by (simp only: usable_def)
  obtain x where x: "(i, x) \<in> set (rg_sessions r)" "as_thread_id x = as_thread_id s"
    using session_of_thread_Some [OF i] by blast
  have "fst ` set (rg_refcounts r) = fst ` set (rg_sessions r)"
    using ok by (simp only: registry_ok_def)
  moreover have "i \<in> fst ` set (rg_sessions r)"
    using x(1) by (rule image_eqI [rotated]) simp
  ultimately obtain n where n: "dict_get (rg_refcounts r) i = Some n"
    by (metis dict_get_None_iff not_None_eq)
  show ?thesis
    using x n refcount_pos [OF ok n] by blast
qed

lemma usable_frame:
  "rg_sessions r' = rg_sessions r \<Longrightarrow> rg_mutations r' = rg_mutations r \<Longrightarrow> registry_ok r' \<Longrightarrow>
   usable s r \<Longrightarrow> usable s r'"
  by (simp add: usable_def one_session_def fresh_for_def sessions_on_def)

interpretation thread_refs: refcounted "acquire_for s task" "release_for (as_thread_id s)"
    "thread_uses (as_thread_id s)" "usable s" for s task
proof
  fix r
  assume use: "usable s r"
  let ?t = "as_thread_id s"
  have ok: "registry_ok r" and free: "?t \<notin> rg_mutations r"
    using use by (auto simp: usable_def)
  have ok_acq: "registry_ok (acquire_for s task r)"
    using ok registry_ok_acquire by (auto simp: acquire_for_def split: sum.splits)
  show use_acq: "usable s (acquire_for s task r)"
  proof (cases "session_of_thread (rg_sessions r) ?t")
    case None
    let ?r = "acquire_for s task r"
    have new: "rg_sessions ?r = rg_sessions r @ [(as_session_id s, s)]"
      using usable_new_session [OF use None]
      by (simp add: acquire_new [OF free None] register_locked_def)
    have "one_session ?t ?r"
      using None new by (simp add: one_session_def no_session_on sessions_on_def)
    moreover have "fresh_for s ?r"
      using use new by (auto simp: usable_def fresh_for_def)
    moreover have "rg_mutations ?r = rg_mutations r"
      by (simp add: acquire_new [OF free None] register_locked_def)
    ultimately show ?thesis
      using ok_acq free by (simp add: usable_def)
  next
    case (Some i)
    show ?thesis
      by (rule usable_frame [OF _ _ ok_acq use]) (simp_all add: acquire_existing [OF free Some])
  qed
  show "thread_uses ?t (acquire_for s task r) = Suc (thread_uses ?t r)"
  proof (cases "session_of_thread (rg_sessions r) ?t")
    case None
    let ?r = "acquire_for s task r"
    have new: "rg_sessions ?r = rg_sessions r @ [(as_session_id s, s)]"
      using usable_new_session [OF use None]
      by (simp add: acquire_new [OF free None] register_locked_def)
    have "session_of_thread (rg_sessions ?r) ?t = Some (as_session_id s)"
      using use_acq new by (intro session_of_thread_unique [of _ _ _ s]) (auto simp: usable_def)
    moreover have "dict_get (rg_refcounts ?r) (as_session_id s) = Some 1"
      by (simp add: acquire_new [OF free None] register_locked_def dict_simps)
    ultimately show ?thesis
      using None by (simp add: thread_uses_def)
  next
    case (Some i)
    then show ?thesis
      using usable_refcount [OF use Some]
      by (auto simp: acquire_existing [OF free Some] thread_uses_def dict_simps)
  qed
  have ok_rel: "registry_ok (release_for ?t r)"
    using ok registry_ok_release by (auto simp: release_for_def split: option.splits)
  have sub: "\<exists>P. rg_sessions (release_for ?t r) = filter P (rg_sessions r)"
    using release_sessions_filter by (auto simp: release_for_def intro: exI [of _ "\<lambda>_. True"] split: option.splits)
  have mut: "rg_mutations (release_for ?t r) = rg_mutations r"
    by (auto simp: release_for_def release_def unregister_session_def Let_def split: option.splits)
  show "usable s (release_for ?t r)"
  proof -
    obtain P where P: "rg_sessions (release_for ?t r) = filter P (rg_sessions r)"
      using sub by blast
    have "length (sessions_on (release_for ?t r) ?t) \<le> length (sessions_on r ?t)"
      unfolding sessions_on_def P length_map by (rule length_filter_twice)
    moreover have "fresh_for s (release_for ?t r)"
      using use P by (auto simp: usable_def fresh_for_def)
    ultimately show ?thesis
      using use ok_rel mut by (simp add: usable_def one_session_def)
  qed
  show "thread_uses ?t (release_for ?t r) = thread_uses ?t r - 1"
  proof (cases "session_of_thread (rg_sessions r) ?t")
    case None
    then show ?thesis by (simp add: release_for_def thread_uses_def)
  next
    case (Some i)
    then obtain n x where n: "dict_get (rg_refcounts r) i = Some n" "1 \<le> n"
        and x: "(i, x) \<in> set (rg_sessions r)" "as_thread_id x = ?t"
      using usable_refcount [OF use Some] by blast
    show ?thesis
    proof (cases "n > 1")
      case True
      then show ?thesis using Some n by (auto simp: release_for_def release_def thread_uses_def dict_simps)
    next
      case False
      have "sessions_on r ?t = [i]"
        using use x by (intro session_of_thread_unique(1) [of _ _ _ x]) (auto simp: usable_def)
      then have "session_of_thread (dict_pop i (rg_sessions r)) ?t = None"
        by (auto simp: session_of_thread_None set_dict_pop dest!: sessions_on_mem)
      then show ?thesis
        using Some n False by (simp add: release_for_def release_def thread_uses_def unregister_session_def Let_def)
    qed
  qed
qed

section \<open>Runs and checkpoint mutations exclude each other\<close>

text \<open>
  The registry together with the reservations that are open (the \<open>with\<close> blocks that have been entered
  and not left): a token for the block, its thread, and whether it asked for an idle thread.
\<close>

record guard_state =
  gs_reg :: registry
  gs_held :: "(nat \<times> string \<times> bool) list"

inductive guard_step :: "guard_state \<Rightarrow> guard_state \<Rightarrow> bool" where
  enter: "reserve_thread_mutation (gs_reg g) tid idle = Inr r \<Longrightarrow> n \<notin> fst ` set (gs_held g) \<Longrightarrow>
    guard_step g (g\<lparr>gs_reg := r, gs_held := (n, tid, idle) # gs_held g\<rparr>)"
| leave: "(n, tid, idle) \<in> set (gs_held g) \<Longrightarrow>
    guard_step g (g\<lparr>gs_reg := end_thread_mutation (gs_reg g) tid,
                    gs_held := filter (\<lambda>h. fst h \<noteq> n) (gs_held g)\<rparr>)"
| register: "register_session (gs_reg g) s task = Inr (sid, r) \<Longrightarrow> guard_step g (g\<lparr>gs_reg := r\<rparr>)"
| acquire: "acquire (gs_reg g) s task = Inr (sid, r) \<Longrightarrow> guard_step g (g\<lparr>gs_reg := r\<rparr>)"
| release: "guard_step g (g\<lparr>gs_reg := release (gs_reg g) sid\<rparr>)"
| unregister: "guard_step g (g\<lparr>gs_reg := unregister_session (gs_reg g) sid\<rparr>)"
| step: "guard_step g (g\<lparr>gs_reg := update_step (gs_reg g) sid st\<rparr>)"
| tool_call: "guard_step g (g\<lparr>gs_reg := add_tool_call (gs_reg g) sid tool\<rparr>)"
| pid: "guard_step g (g\<lparr>gs_reg := register_pid (gs_reg g) sid p\<rparr>)"
| no_pid: "guard_step g (g\<lparr>gs_reg := unregister_pid (gs_reg g) sid p\<rparr>)"
| listen: "guard_step g (g\<lparr>gs_reg := subscribe_listener (gs_reg g) q\<rparr>)"
| unlisten: "guard_step g (g\<lparr>gs_reg := unsubscribe_listener (gs_reg g) q\<rparr>)"

inductive guard_reachable :: "guard_state \<Rightarrow> bool" where
  start: "guard_reachable \<lparr>gs_reg = new_registry, gs_held = []\<rparr>"
| more: "guard_reachable g \<Longrightarrow> guard_step g h \<Longrightarrow> guard_reachable h"

definition threads_of :: "registry \<Rightarrow> string set" where
  "threads_of r = (\<lambda>(_, s). as_thread_id s) ` set (rg_sessions r)"

definition guard_inv :: "guard_state \<Rightarrow> bool" where
  "guard_inv g \<longleftrightarrow> registry_ok (gs_reg g) \<and>
     distinct (map fst (gs_held g)) \<and> distinct (map (fst \<circ> snd) (gs_held g)) \<and>
     rg_mutations (gs_reg g) = (fst \<circ> snd) ` set (gs_held g) \<and>
     (\<forall>(n, tid, idle) \<in> set (gs_held g). idle \<longrightarrow> tid \<notin> threads_of (gs_reg g))"

lemma threads_of_set:
  "threads_of (r\<lparr>rg_sessions := dict_set sid s (rg_sessions r)\<rparr>) \<subseteq> insert (as_thread_id s) (threads_of r)"
  using dict_set_subset [of sid s "rg_sessions r"] by (auto simp: threads_of_def)

lemma threads_of_cong: "rg_sessions r' = rg_sessions r \<Longrightarrow> threads_of r' = threads_of r"
  by (simp add: threads_of_def)

lemma threads_of_update:
  assumes "dict_get (rg_sessions r) sid = Some x" and "as_thread_id s = as_thread_id x"
  shows "threads_of (update_session r sid s) \<subseteq> threads_of r"
proof -
  have "as_thread_id x \<in> threads_of r"
    using dict_get_in [OF assms(1)] by (force simp: threads_of_def)
  then show ?thesis
    using threads_of_set [where r = r and sid = sid and s = s] assms(2) by (auto simp: update_session_def)
qed

lemma registry_ok_update:
  "dict_get (rg_sessions r) sid = Some x \<Longrightarrow> registry_ok r \<Longrightarrow> registry_ok (update_session r sid s)"
  using dict_get_Some_key [of "rg_sessions r" sid x]
  by (simp add: registry_ok_def update_session_def dict_simps insert_absorb)

lemma update_session_mutations [simp]: "rg_mutations (update_session r sid s) = rg_mutations r"
  by (simp add: update_session_def)

text \<open>The operations that neither start a session nor touch a reservation keep the three facts at once.\<close>

definition quiet :: "registry \<Rightarrow> registry \<Rightarrow> bool" where
  "quiet r r' \<longleftrightarrow> (registry_ok r \<longrightarrow> registry_ok r') \<and> rg_mutations r' = rg_mutations r \<and>
     threads_of r' \<subseteq> threads_of r"

lemma quiet_refl [simp]: "quiet r r"
  by (simp add: quiet_def)

lemma quiet_update:
  assumes "dict_get (rg_sessions r) sid = Some x" and "as_thread_id s = as_thread_id x"
  shows "quiet r (update_session r sid s)" "quiet r (broadcast e (update_session r sid s))"
  using registry_ok_update [OF assms(1)] threads_of_update [OF assms]
  by (auto simp: quiet_def threads_of_cong [of "broadcast e (update_session r sid s)" "update_session r sid s"])

lemma quiet_operations:
  "quiet r (release r sid)" "quiet r (unregister_session r sid)" "quiet r (update_step r sid st)"
  "quiet r (add_tool_call r sid tn)" "quiet r (register_pid r sid p)" "quiet r (unregister_pid r sid p)"
  "quiet r (subscribe_listener r q)" "quiet r (unsubscribe_listener r q)"
proof -
  obtain P where "rg_sessions (release r sid) = filter P (rg_sessions r)"
    using release_sessions_filter by blast
  then show "quiet r (release r sid)"
    by (auto simp: quiet_def registry_ok_release threads_of_def)
  show "quiet r (unregister_session r sid)"
    by (auto simp: quiet_def registry_ok_unregister threads_of_def unregister_sessions set_dict_pop)
  show "quiet r (update_step r sid st)"
    by (auto simp: update_step_def Let_def intro: quiet_update split: option.splits)
  show "quiet r (add_tool_call r sid tn)"
    by (auto simp: add_tool_call_def Let_def intro: quiet_update split: option.splits)
  show "quiet r (register_pid r sid p)" "quiet r (unregister_pid r sid p)"
    by (auto simp: register_pid_def unregister_pid_def intro: quiet_update split: option.splits)
  show "quiet r (subscribe_listener r q)" "quiet r (unsubscribe_listener r q)"
    by (auto simp: quiet_def subscribe_listener_def unsubscribe_listener_def registry_ok_def threads_of_def)
qed

lemma guard_inv_quiet:
  "quiet (gs_reg g) r \<Longrightarrow> guard_inv g \<Longrightarrow> guard_inv (g\<lparr>gs_reg := r\<rparr>)"
  unfolding guard_inv_def quiet_def by (simp split: prod.splits) blast

text \<open>Starting a session needs a thread without a reservation.\<close>

lemma threads_of_start:
  assumes "register_session r s task = Inr (sid, r') \<or> acquire r s task = Inr (sid, r')"
  shows "as_thread_id s \<notin> rg_mutations r" and "rg_mutations r' = rg_mutations r"
    and "threads_of r' \<subseteq> insert (as_thread_id s) (threads_of r)"
proof -
  have sub: "threads_of (register_locked r s task) \<subseteq> insert (as_thread_id s) (threads_of r)"
    using dict_set_subset [of "as_session_id s" s "rg_sessions r"]
    by (auto simp: threads_of_def register_locked_def)
  show "as_thread_id s \<notin> rg_mutations r"
    using assms by (auto simp: register_session_def acquire_def check_thread_mutation_def split: if_splits)
  show "rg_mutations r' = rg_mutations r"
    using assms by (auto simp: register_session_def acquire_def register_locked_def Let_def split: option.splits)
  have "threads_of (broadcast e q) = threads_of q" "threads_of (set_task i t q) = threads_of q"
    "threads_of (q\<lparr>rg_refcounts := d\<rparr>) = threads_of q" for e q i t d
    by (simp_all add: threads_of_def)
  then show "threads_of r' \<subseteq> insert (as_thread_id s) (threads_of r)"
    using assms sub by (auto simp: register_session_def acquire_def Let_def split: option.splits)
qed

lemma held_mutation:
  assumes "guard_inv g" and "(n, tid, idle) \<in> set (gs_held g)"
  shows "tid \<in> rg_mutations (gs_reg g)"
proof -
  have "(fst \<circ> snd) (n, tid, idle) \<in> (fst \<circ> snd) ` set (gs_held g)"
    using assms(2) by (rule imageI)
  then show ?thesis using assms(1) by (simp add: guard_inv_def)
qed

lemma guard_inv_start:
  assumes inv: "guard_inv g" and ok: "registry_ok r'"
    and start: "register_session (gs_reg g) s task = Inr (sid, r') \<or> acquire (gs_reg g) s task = Inr (sid, r')"
  shows "guard_inv (g\<lparr>gs_reg := r'\<rparr>)"
proof -
  have "tid \<notin> threads_of r'" if h: "(n, tid, True) \<in> set (gs_held g)" for n tid
  proof -
    have "tid \<in> rg_mutations (gs_reg g)"
      using inv h by (rule held_mutation)
    then have "tid \<noteq> as_thread_id s"
      using threads_of_start(1) [OF start] by auto
    moreover have "tid \<notin> threads_of (gs_reg g)"
      using inv h by (auto simp: guard_inv_def)
    ultimately show ?thesis
      using threads_of_start(3) [OF start] by blast
  qed
  then show ?thesis
    using inv ok threads_of_start(2) [OF start] by (auto simp: guard_inv_def)
qed

lemma filter_held:
  assumes "distinct (map fst h)" and "distinct (map (fst \<circ> snd) h)" and "(n, tid, i) \<in> set h"
  shows "(fst \<circ> snd) ` set (filter (\<lambda>x. fst x \<noteq> n) h) = (fst \<circ> snd) ` set h - {tid}"
proof -
  have "filter (\<lambda>y. fst y = n) h = [(n, tid, i)]" "filter (\<lambda>y. fst (snd y) = tid) h = [(n, tid, i)]"
    using filter_key_single [of fst h, OF assms(1,3)] filter_key_single [of "fst \<circ> snd" h, OF assms(2,3)]
    by simp_all
  then have key: "y \<in> set h \<and> fst y = n \<longleftrightarrow> y = (n, tid, i)" "y \<in> set h \<and> fst (snd y) = tid \<longleftrightarrow> y = (n, tid, i)" for y
    using assms(3) by (auto dest!: arg_cong [where f = set])
  show ?thesis
  proof (intro set_eqI iffI)
    fix t assume "t \<in> (fst \<circ> snd) ` set (filter (\<lambda>x. fst x \<noteq> n) h)"
    then obtain y where "y \<in> set h" "fst y \<noteq> n" "t = fst (snd y)" by auto
    then show "t \<in> (fst \<circ> snd) ` set h - {tid}" using key(2) [of y] by auto
  next
    fix t assume "t \<in> (fst \<circ> snd) ` set h - {tid}"
    then obtain y where "y \<in> set h" "t = fst (snd y)" "t \<noteq> tid" by auto
    have "fst y \<noteq> n"
    proof
      assume "fst y = n"
      then have "y = (n, tid, i)" using \<open>y \<in> set h\<close> key(1) [of y] by blast
      then show False using \<open>t = fst (snd y)\<close> \<open>t \<noteq> tid\<close> by simp
    qed
    then have "y \<in> set (filter (\<lambda>x. fst x \<noteq> n) h)" using \<open>y \<in> set h\<close> by simp
    then show "t \<in> (fst \<circ> snd) ` set (filter (\<lambda>x. fst x \<noteq> n) h)"
      using \<open>t = fst (snd y)\<close> by (metis comp_apply imageI)
  qed
qed

lemma guard_step_inv: "guard_step g h \<Longrightarrow> guard_inv g \<Longrightarrow> guard_inv h"
proof (induction rule: guard_step.induct)
  case (enter g tid idle r n)
  have r: "r = gs_reg g\<lparr>rg_mutations := insert tid (rg_mutations (gs_reg g))\<rparr>"
    and free: "tid \<notin> rg_mutations (gs_reg g)"
    and idle: "idle \<Longrightarrow> tid \<notin> threads_of (gs_reg g)"
    using enter.hyps(1) by (auto simp: reserve_thread_mutation_def threads_of_def list_ex_iff split: if_splits)
  have "registry_ok r" "threads_of r = threads_of (gs_reg g)"
    using enter.prems r by (auto simp: guard_inv_def registry_ok_def threads_of_def)
  then show ?case
    using enter.prems enter.hyps(2) r free idle by (auto simp: guard_inv_def)
next
  case (leave n tid idle g)
  let ?r = "end_thread_mutation (gs_reg g) tid"
  have "registry_ok ?r" "threads_of ?r = threads_of (gs_reg g)"
    using leave.prems by (auto simp: guard_inv_def registry_ok_def threads_of_def end_thread_mutation_def)
  moreover have "rg_mutations ?r = (fst \<circ> snd) ` set (filter (\<lambda>h. fst h \<noteq> n) (gs_held g))"
    using leave.prems filter_held [OF _ _ leave.hyps]
    by (simp add: guard_inv_def end_thread_mutation_def)
  ultimately show ?case
    using leave.prems by (auto simp: guard_inv_def distinct_map inj_on_def)
next
  case (register g s task sid r)
  then show ?case
    by (intro guard_inv_start) (auto simp: guard_inv_def dest: registry_ok_register)
next
  case (acquire g s task sid r)
  then show ?case
    by (intro guard_inv_start) (auto simp: guard_inv_def dest: registry_ok_acquire)
qed (rule guard_inv_quiet, rule quiet_operations, assumption)+

lemma guard_reachable_inv: "guard_reachable g \<Longrightarrow> guard_inv g"
proof (induction rule: guard_reachable.induct)
  case start
  show ?case by (simp add: guard_inv_def registry_ok_new) (simp add: new_registry_def)
next
  case (more g h)
  then show ?case by (blast intro: guard_step_inv)
qed

section \<open>Properties\<close>

text \<open>
  C5: While a reservation that required an idle thread is open (a compaction), no session of that
  thread exists in any reachable state, whatever the other workers do in between.
\<close>

theorem idle_reservation_excludes_runs:
  assumes "guard_reachable g" and "(n, tid, True) \<in> set (gs_held g)"
  shows "tid \<notin> threads_of (gs_reg g)"
  using guard_reachable_inv [OF assms(1)] assms(2) by (auto simp: guard_inv_def)

text \<open>The run used by the witnesses: one idle reservation of thread "t".\<close>

definition reserved_state :: guard_state where
  "reserved_state = \<lparr>gs_reg = new_registry\<lparr>rg_mutations := {''t''}\<rparr>, gs_held = [(0, ''t'', True)]\<rparr>"

lemma reserved_reachable: "guard_reachable reserved_state"
proof -
  have "guard_step \<lparr>gs_reg = new_registry, gs_held = []\<rparr> reserved_state"
    using guard_step.enter [of "\<lparr>gs_reg = new_registry, gs_held = []\<rparr>" "''t''" True
        "new_registry\<lparr>rg_mutations := {''t''}\<rparr>" 0]
    by (simp add: reserved_state_def reserve_thread_mutation_def new_registry_def)
  then show ?thesis
    by (rule guard_reachable.more [OF guard_reachable.start])
qed

theorem idle_reservation_excludes_runs_witness: "''t'' \<notin> threads_of (gs_reg reserved_state)"
  by (rule idle_reservation_excludes_runs [OF reserved_reachable]) (simp add: reserved_state_def)

text \<open>
  A thread has at most one open reservation, and while it is open every attempt to reserve the
  thread again or to start or join a session of it fails.
\<close>

theorem reservation_exclusive:
  assumes "guard_reachable g" and "(n, tid, idle) \<in> set (gs_held g)" and "as_thread_id s = tid"
  shows "reserve_thread_mutation (gs_reg g) tid idle' = Inl MutationInProgress \<and>
    acquire (gs_reg g) s task = Inl MutationInProgress \<and>
    register_session (gs_reg g) s task = Inl MutationInProgress \<and>
    filter (\<lambda>h. fst (snd h) = tid) (gs_held g) = [(n, tid, idle)]"
proof -
  have inv: "guard_inv g" by (rule guard_reachable_inv [OF assms(1)])
  then have "tid \<in> rg_mutations (gs_reg g)"
    using assms(2) by (rule held_mutation)
  moreover have "distinct (map (fst \<circ> snd) (gs_held g))"
    using inv by (simp add: guard_inv_def)
  then have "filter (\<lambda>h. fst (snd h) = tid) (gs_held g) = [(n, tid, idle)]"
    using filter_key_single [of "fst \<circ> snd" "gs_held g", OF _ assms(2)] by simp
  ultimately show ?thesis
    using assms(3)
    by (simp add: reserve_thread_mutation_def acquire_def register_session_def check_thread_mutation_def)
qed

theorem reservation_exclusive_witness:
  "reserve_thread_mutation (gs_reg reserved_state) ''t'' False = Inl MutationInProgress"
proof -
  let ?s = "\<lparr>as_thread_id = ''t'', as_platform = [], as_user_id = [], as_channel_id = [],
    as_agent_name = [], as_session_id = ''s'', as_started_at = 0, as_current_step = [],
    as_tools_called = [], as_running_pids = {}\<rparr>"
  have "(0, ''t'', True) \<in> set (gs_held reserved_state)" "as_thread_id ?s = ''t''"
    by (simp_all add: reserved_state_def)
  from reservation_exclusive [OF reserved_reachable this] show ?thesis by blast
qed

text \<open>
  Reference counting: after any sequence of \<open>acquire\<close> (True) and \<open>release\<close> (False) for one thread,
  the number of users the registry holds for the thread is the number of unmatched acquires, and the
  registry is still well formed with one session of the thread at most.
\<close>

theorem acquire_release_balance:
  assumes "usable s r"
  shows "thread_uses (as_thread_id s)
      (run_uses (acquire_for s task) (release_for (as_thread_id s)) bs r) =
    net_uses (thread_uses (as_thread_id s) r) bs \<and>
    usable s (run_uses (acquire_for s task) (release_for (as_thread_id s)) bs r)"
  using thread_refs.refs_run [OF assms] by blast

definition example_session :: active_session where
  "example_session = \<lparr>as_thread_id = ''t'', as_platform = ''cli'', as_user_id = ''u'',
     as_channel_id = [], as_agent_name = ''default'', as_session_id = ''s'', as_started_at = 0,
     as_current_step = SESSION_STEP_INITIALIZING, as_tools_called = [], as_running_pids = {}\<rparr>"

theorem acquire_release_balance_witness:
  "thread_uses ''t'' (run_uses (acquire_for example_session None) (release_for ''t'')
     [True, True, False] new_registry) = 1"
proof -
  have "usable example_session new_registry"
    by (simp add: usable_def registry_ok_new one_session_def fresh_for_def sessions_on_def)
      (simp add: new_registry_def)
  from acquire_release_balance [OF this, of None "[True, True, False]"] show ?thesis
    by (simp add: example_session_def thread_uses_def new_registry_def)
qed

end
