(* ===== verification/Pool_Errors.thy ===== *)
theory Pool_Errors
  imports Prelude
begin

text \<open>
  Model of \<open>agent/modules/providers/pool_errors.py\<close>: which provider errors count as the outage of a
  model pool member, and how long the provider asks to wait.

  An exception chain is a dictionary of exception objects by identity, since the code guards against
  cycles of \<open>__cause__\<close> and \<open>__context__\<close> with \<open>id(current)\<close>. Attributes read with \<open>getattr\<close> are the
  \<open>en_attrs\<close> of an object; a method call without arguments is read as an attribute of that name with
  \<open>()\<close> appended, absent when the call raises. \<open>float\<close>, the two date parsers and \<open>json.loads\<close> are the
  record \<open>parsers\<close>: \<open>None\<close> when the parser raises, \<open>Some None\<close> for an infinity or a NaN.
\<close>

section \<open>Retry delays\<close>

record pool_failure =
  pf_code :: string
  pf_retryable :: bool
  pf_retry_after :: "rat option"

record parsers =
  to_float :: "pyval \<Rightarrow> rat option option"
  parse_http_date :: "string \<Rightarrow> rat option option"
  parse_iso_date :: "string \<Rightarrow> rat option option"
  json_loads :: "string \<Rightarrow> pyval option"

definition duration :: "parsers \<Rightarrow> pyval \<Rightarrow> rat \<Rightarrow> rat option" where
  "duration P value now =
     (case to_float P value of
        Some r \<Rightarrow> map_option (max 0) r
      | None \<Rightarrow>
          (case parse_http_date P (py_str value) of
             Some r \<Rightarrow> map_option (\<lambda>t. max 0 (t - now)) r
           | None \<Rightarrow> None))"

text \<open>\<open>s.replace("Z", "+00:00")\<close>.\<close>

definition zulu_offset :: "string \<Rightarrow> string" where
  "zulu_offset s = concat (map (\<lambda>c. if c = CHR ''Z'' then ''+00:00'' else [c]) s)"

definition reset_delay :: "parsers \<Rightarrow> pyval \<Rightarrow> rat \<Rightarrow> rat option" where
  "reset_delay P value now =
     (case to_float P value of
        Some r \<Rightarrow> map_option (\<lambda>t. max 0 (t - now)) r
      | None \<Rightarrow>
          (case parse_iso_date P (zulu_offset (py_str value)) of
             Some r \<Rightarrow> map_option (\<lambda>t. max 0 (t - now)) r
           | None \<Rightarrow> None))"

definition digits_value :: "string \<Rightarrow> rat" where
  "digits_value ds = of_nat (foldl (\<lambda>n c. 10 * n + (of_char c - 48)) (0::nat) ds)"

text \<open>
  One match of \<open>(\d+(?:\.\d+)?)(ms|h|m|s)\<close> at the head of a string: its value in seconds and the
  rest. The digit runs are followed by a character that is no digit, so the greedy match is the only one.
\<close>

definition unit_here :: "string \<Rightarrow> (rat \<times> string) option" where
  "unit_here s =
     (if starts_with ''ms'' s then Some (1 / 1000, drop 2 s)
      else if starts_with ''h'' s then Some (3600, drop 1 s)
      else if starts_with ''m'' s then Some (60, drop 1 s)
      else if starts_with ''s'' s then Some (1, drop 1 s)
      else None)"

definition amount_here :: "string \<Rightarrow> (rat \<times> string) option" where
  "amount_here s =
     (let whole = takeWhile is_digit s; rest = dropWhile is_digit s in
      if whole = [] then None
      else if starts_with ''.'' rest \<and> takeWhile is_digit (drop 1 rest) \<noteq> []
        then (let frac = takeWhile is_digit (drop 1 rest)
              in Some (digits_value whole + digits_value frac / 10 ^ length frac,
                       dropWhile is_digit (drop 1 rest)))
      else Some (digits_value whole, rest))"

definition interval_here :: "string \<Rightarrow> (rat \<times> string) option" where
  "interval_here s =
     (case amount_here s of
        None \<Rightarrow> None
      | Some (amount, rest) \<Rightarrow> map_option (\<lambda>(scale, rest'). (amount * scale, rest')) (unit_here rest))"

lemma amount_here_shorter: "amount_here s = Some (a, r) \<Longrightarrow> length r < length s"
proof -
  assume a: "amount_here s = Some (a, r)"
  have split: "length s = length (takeWhile is_digit s) + length (dropWhile is_digit s)" for s
    by (metis length_append takeWhile_dropWhile_id)
  show ?thesis
    using a split [of s] length_dropWhile_le [of is_digit "drop 1 (dropWhile is_digit s)"]
      length_greater_0_conv [of "takeWhile is_digit s"]
    by (auto simp: amount_here_def Let_def simp del: length_greater_0_conv split: if_splits)
qed

lemma unit_here_shorter: "unit_here s = Some (a, r) \<Longrightarrow> length r \<le> length s"
  by (auto simp: unit_here_def split: if_splits)

lemma interval_here_shorter: "interval_here s = Some (a, r) \<Longrightarrow> length r < length s"
  by (fastforce simp: interval_here_def split: option.splits dest: amount_here_shorter unit_here_shorter)

function find_intervals :: "string \<Rightarrow> rat list" where
  "find_intervals s =
     (case s of
        [] \<Rightarrow> []
      | _ # s' \<Rightarrow>
          (case interval_here s of
             Some (amount, rest) \<Rightarrow> amount # find_intervals rest
           | None \<Rightarrow> find_intervals s'))"
  by pat_completeness auto
termination
  by (relation "measure length") (auto dest: interval_here_shorter)

declare find_intervals.simps [simp del]

definition interval :: "pyval \<Rightarrow> rat option" where
  "interval value =
     (let matches = find_intervals (py_str value)
      in if matches = [] then None else Some (sum_list matches))"

section \<open>Exceptions\<close>

record exc_node =
  en_type :: string
  en_timeout :: bool
  en_connection :: bool
  en_value_error :: bool
  en_attrs :: "(string, pyval) dict"
  en_args :: "pyval list"
  en_cause :: "nat option"
  en_context :: "nat option"

fun as_int :: "pyval \<Rightarrow> int option" where
  "as_int (PInt i) = Some i"
| "as_int (PBool b) = Some (if b then 1 else 0)"
| "as_int _ = None"

fun as_items :: "pyval \<Rightarrow> (string, pyval) dict" where
  "as_items (PDict d) = d"
| "as_items _ = []"

fun first_int :: "pyval list \<Rightarrow> int option" where
  "first_int [] = None"
| "first_int (v # vs) = (case as_int v of Some i \<Rightarrow> Some i | None \<Rightarrow> first_int vs)"

definition error_status :: "exc_node \<Rightarrow> int option" where
  "error_status e =
     (let a = en_attrs e; response = get_item a ''response''
      in first_int [get_item a ''status_code'', get_item a ''code'', get_item a ''http_status'',
                    get_attr response ''status_code''])"

definition is_code_char :: "char \<Rightarrow> bool" where
  "is_code_char c = (let n = (of_char c :: nat) in 97 \<le> n \<and> n \<le> 122 \<or> is_digit c \<or> n = 95)"

definition is_quote :: "char \<Rightarrow> bool" where
  "is_quote c = ((of_char c :: nat) = 39 \<or> (of_char c :: nat) = 34)"

text \<open>\<open>re.match(r"^ResponseError\(code=['\"]([a-z0-9_]+)['\"], message=", value)\<close>.\<close>

definition response_error_code :: "string \<Rightarrow> string option" where
  "response_error_code s =
     (let head = ''ResponseError(code='' in
      if \<not> starts_with head s then None
      else (case drop (length head) s of
              [] \<Rightarrow> None
            | q # rest \<Rightarrow>
                (let code = takeWhile is_code_char rest; tail = dropWhile is_code_char rest in
                 if is_quote q \<and> code \<noteq> [] \<and> tail \<noteq> [] \<and> is_quote (hd tail)
                    \<and> starts_with '', message='' (drop 1 tail)
                 then Some code else None)))"

definition value_error_body :: "pyval \<Rightarrow> pyval" where
  "value_error_body value =
     (case value of
        PDict d \<Rightarrow> PDict d
      | PStr s \<Rightarrow>
          (case response_error_code s of
             Some code \<Rightarrow> PDict [(''code'', PStr code)]
           | None \<Rightarrow> PNone)
      | PObj a \<Rightarrow>
          (if get_item a ''__class__.__name__'' = PStr ''ResponseError'' then get_item a ''model_dump()''
           else PNone)
      | _ \<Rightarrow> PNone)"

definition error_body :: "parsers \<Rightarrow> exc_node \<Rightarrow> (string, pyval) dict" where
  "error_body P e =
     (let a = en_attrs e;
          body = get_item a ''body'';
          body = (if body = PNone then get_item a ''details'' else body);
          body = (if body = PNone \<and> en_value_error e \<and> en_args e \<noteq> []
                  then value_error_body (hd (en_args e)) else body);
          body = (if body = PNone then get_attr (get_item a ''response'') ''json()'' else body)
      in case body of
           PStr s \<Rightarrow> (case json_loads P s of Some v \<Rightarrow> as_items v | None \<Rightarrow> [])
         | v \<Rightarrow> as_items v)"

definition error_payload :: "(string, pyval) dict \<Rightarrow> (string, pyval) dict" where
  "error_payload body =
     (case get_default body ''error'' (PDict body) of PDict d \<Rightarrow> d | _ \<Rightarrow> body)"

definition error_codes :: "exc_node \<Rightarrow> (string, pyval) dict \<Rightarrow> string list" where
  "error_codes e payload =
     map (\<lambda>k. lower_str (py_str (get_default payload k (PStr [])))) [''code'', ''type'', ''status'']
     @ [lower_str (py_str (get_default (en_attrs e) ''code'' (PStr [])))]"

definition error_headers :: "exc_node \<Rightarrow> (string, pyval) dict" where
  "error_headers e =
     foldl (\<lambda>d (k, v). dict_set (lower_str k) v d) []
       (as_items (py_or (get_attr (get_item (en_attrs e) ''response'') ''headers'')
                        (get_item (en_attrs e) ''headers'')))"

definition max_opt :: "rat option list \<Rightarrow> rat option" where
  "max_opt xs = (case List.map_filter id xs of [] \<Rightarrow> None | y # ys \<Rightarrow> Some (foldl max y ys))"

definition retry_info :: "rat option \<Rightarrow> pyval \<Rightarrow> rat option" where
  "retry_info acc detail =
     (case detail of
        PDict d \<Rightarrow> (if ends_with ''RetryInfo'' (py_str (get_default d ''@type'' (PStr [])))
                    then interval (get_item d ''retryDelay'') else acc)
      | _ \<Rightarrow> acc)"

definition or_else :: "'a option \<Rightarrow> 'a option \<Rightarrow> 'a option" where
  "or_else a b = (case a of Some x \<Rightarrow> Some x | None \<Rightarrow> b)"

definition error_retry_after ::
  "parsers \<Rightarrow> rat \<Rightarrow> exc_node \<Rightarrow> (string, pyval) dict \<Rightarrow> (string, pyval) dict \<Rightarrow> rat option" where
  "error_retry_after P now e body payload =
     (let headers = error_headers e;
          reset = py_or (py_or (get_item payload ''resets_at'') (get_item payload ''reset_at''))
                        (get_item body ''resets_at'');
          details = (case get_default payload ''details'' (PList []) of PList xs \<Rightarrow> xs | _ \<Rightarrow> [])
      in or_else (duration P (get_item headers ''retry-after'') now)
           (or_else (if reset = PNone then None else reset_delay P reset now)
              (or_else
                 (max_opt (map (\<lambda>k. interval (get_item headers k))
                    [''x-ratelimit-reset-requests'', ''x-ratelimit-reset-tokens'']))
                 (foldl retry_info None details))))"

section \<open>Classification\<close>

definition refused_codes :: "string list" where
  "refused_codes = [''content_filter'', ''content_policy_violation'', ''safety'',
     ''context_length_exceeded'', ''invalid_argument'']"

definition quota_codes :: "string list" where
  "quota_codes = [''insufficient_quota'', ''quota_exceeded'', ''billing_hard_limit_reached'',
     ''credit_balance_too_low'', ''insufficient_credits'', ''insufficient_balance'',
     ''usage_limit_reached'', ''subscription_sharing_usage_limit_exceeded'',
     ''subscription_sharing_usage_unavailable'']"

definition auth_codes :: "string list" where
  "auth_codes = [''invalid_api_key'', ''authentication_error'', ''permission_error'']"

definition rate_codes :: "string list" where
  "rate_codes = [''resource_exhausted'', ''rate_limit_exceeded'', ''rate_limit_error'']"

definition server_codes :: "string list" where
  "server_codes = [''server_error'', ''internal_server_error'', ''overloaded_error'']"

definition depleted_phrases :: "string list" where
  "depleted_phrases = [''credit balance is too low'', ''insufficient credit balance'', ''insufficient balance'']"

definition meets :: "string list \<Rightarrow> string list \<Rightarrow> bool" where
  "meets xs ys = list_ex (\<lambda>x. x \<in> set ys) xs"

text \<open>
  What one exception of the chain says: it ends the search without an outage (\<open>Refused\<close>), it is an
  outage, or the search goes on with its cause.
\<close>

datatype verdict = Refused | Outage pool_failure | Undecided

definition node_verdict :: "parsers \<Rightarrow> rat \<Rightarrow> exc_node \<Rightarrow> verdict" where
  "node_verdict P now e =
     (let status = error_status e;
          body = error_body P e;
          payload = error_payload body;
          codes = error_codes e payload;
          retry_after = error_retry_after P now e body payload;
          message = lower_str (py_str (get_default payload ''message'' (PStr [])));
          depleted_credit = (status = Some 400 \<or> status = Some 429)
            \<and> list_ex (\<lambda>phrase. contains_sub phrase message) depleted_phrases;
          name = lower_str (en_type e);
          fails = (\<lambda>code retryable. Outage \<lparr>pf_code = code, pf_retryable = retryable, pf_retry_after = retry_after\<rparr>);
          status_in = (\<lambda>xs. case status of None \<Rightarrow> False | Some i \<Rightarrow> i \<in> set xs)
      in if meets codes refused_codes then Refused
         else if status = Some 402 \<or> meets codes quota_codes \<or> depleted_credit
           then fails ''quota'' False
         else if status_in [401, 403] \<or> meets codes auth_codes \<or> contains_sub ''authentication'' name
                 \<or> contains_sub ''permissiondenied'' name \<or> name = ''chatgptautherror''
           then fails ''auth'' False
         else if ''model_not_found'' \<in> set codes
                 \<or> status = Some 404 \<and> (contains_sub ''notfound'' name \<or> contains_sub ''model'' message)
           then fails ''model_not_found'' False
         else if ''invalid_request_error'' \<in> set codes
                 \<and> \<not> (status_in [408, 429, 504] \<or> (case status of None \<Rightarrow> False | Some i \<Rightarrow> 500 \<le> i)
                      \<or> meets codes (rate_codes @ server_codes))
           then Refused
         else if status = Some 429 \<or> contains_sub ''ratelimit'' name \<or> meets codes rate_codes
           then fails ''rate_limit'' True
         else if en_timeout e \<or> status_in [408, 504] \<or> contains_sub ''timeout'' name
           then fails ''timeout'' True
         else if en_connection e \<or> contains_sub ''connection'' name
           then fails ''connection'' True
         else if (case status of None \<Rightarrow> False | Some i \<Rightarrow> 500 \<le> i \<and> i < 600) \<or> meets codes server_codes
           then fails ''upstream'' True
         else Undecided)"

text \<open>\<open>current.__cause__ or current.__context__\<close>: an exception object is truthy.\<close>

definition next_exc :: "exc_node \<Rightarrow> nat option" where
  "next_exc e = or_else (en_cause e) (en_context e)"

text \<open>
  The loop of \<open>classify_pool_failure\<close>. It ends on a cyclic chain because \<open>seen\<close> grows; an identity
  with no object does not occur in a chain of live exceptions.
\<close>

function classify_chain :: "parsers \<Rightarrow> rat \<Rightarrow> (nat, exc_node) dict \<Rightarrow> nat option \<Rightarrow> nat list \<Rightarrow> pool_failure option" where
  "classify_chain P now chain current seen =
     (case current of
        None \<Rightarrow> None
      | Some i \<Rightarrow>
          if i \<in> set seen then None
          else (case dict_get chain i of
                  None \<Rightarrow> None
                | Some e \<Rightarrow>
                    (case node_verdict P now e of
                       Refused \<Rightarrow> None
                     | Outage f \<Rightarrow> Some f
                     | Undecided \<Rightarrow> classify_chain P now chain (next_exc e) (i # seen))))"
  by pat_completeness auto
termination
  by (relation "measure (\<lambda>(P, now, chain, current, seen). unvisited chain seen)") (auto intro: unvisited_Cons)

declare classify_chain.simps [simp del]

definition classify_pool_failure :: "parsers \<Rightarrow> rat \<Rightarrow> (nat, exc_node) dict \<Rightarrow> nat \<Rightarrow> pool_failure option" where
  "classify_pool_failure P now chain error = classify_chain P now chain (Some error) []"

section \<open>What a classification may be\<close>

definition failure_ok :: "pool_failure \<Rightarrow> bool" where
  "failure_ok f \<longleftrightarrow>
     pf_code f \<in> set [''quota'', ''auth'', ''model_not_found'', ''rate_limit'', ''timeout'', ''connection'', ''upstream'']
     \<and> pf_retryable f = (pf_code f \<in> set [''rate_limit'', ''timeout'', ''connection'', ''upstream''])
     \<and> (case pf_retry_after f of None \<Rightarrow> True | Some r \<Rightarrow> 0 \<le> r)"

definition waits :: "rat option \<Rightarrow> bool" where
  "waits r \<longleftrightarrow> (\<forall>t. r = Some t \<longrightarrow> 0 \<le> t)"

lemma waits_simps [simp]: "waits None" "waits (Some t) \<longleftrightarrow> 0 \<le> t"
  by (simp_all add: waits_def)

lemma waits_or_else: "waits a \<Longrightarrow> waits b \<Longrightarrow> waits (or_else a b)"
  by (cases a) (simp_all add: or_else_def)

lemma waits_duration: "waits (duration P v now)"
  by (auto simp: duration_def waits_def split: option.splits)

lemma waits_reset_delay: "waits (reset_delay P v now)"
  by (auto simp: reset_delay_def waits_def split: option.splits)

lemma amount_here_nonneg: "amount_here s = Some (a, r) \<Longrightarrow> 0 \<le> a"
  by (auto simp: amount_here_def digits_value_def Let_def split: if_splits)

lemma interval_here_nonneg: "interval_here s = Some (a, r) \<Longrightarrow> 0 \<le> a"
  by (auto simp: interval_here_def unit_here_def split: option.splits if_splits dest: amount_here_nonneg)

lemma find_intervals_nonneg: "\<forall>a \<in> set (find_intervals s). 0 \<le> a"
proof (induction s rule: find_intervals.induct)
  case (1 s)
  show ?case
  proof (cases s)
    case (Cons c s')
    then show ?thesis
      using 1 by (subst find_intervals.simps) (auto split: option.splits dest: interval_here_nonneg)
  qed (simp add: find_intervals.simps)
qed

lemma waits_interval: "waits (interval v)"
  using find_intervals_nonneg [of "py_str v"] by (auto simp: interval_def waits_def Let_def sum_list_nonneg)

lemma waits_max_opt: "\<forall>x \<in> set xs. waits x \<Longrightarrow> waits (max_opt xs)"
proof -
  assume xs: "\<forall>x \<in> set xs. waits x"
  have fold: "0 \<le> y \<Longrightarrow> 0 \<le> foldl max y ys" for y :: rat and ys
    by (induction ys arbitrary: y) auto
  have "0 \<le> y" if "y \<in> set (List.map_filter id xs)" for y
    using that xs by (auto simp: List.map_filter_def waits_def)
  then show ?thesis by (auto simp: max_opt_def waits_def fold split: list.splits)
qed

lemma waits_details: "waits acc \<Longrightarrow> waits (foldl retry_info acc ds)"
  by (induction ds arbitrary: acc) (auto simp: retry_info_def waits_interval split: pyval.split)

lemma waits_retry_after: "waits (error_retry_after P now e body payload)"
  unfolding error_retry_after_def Let_def
  by (intro waits_or_else waits_duration waits_max_opt waits_details)
     (auto simp: waits_reset_delay waits_interval)

lemma if_outage_cases:
  "(if b then x else y) = Outage f \<Longrightarrow> (x = Outage f \<Longrightarrow> Q) \<Longrightarrow> (y = Outage f \<Longrightarrow> Q) \<Longrightarrow> Q"
  by (simp split: if_split_asm)

lemma node_verdict_ok: "node_verdict P now e = Outage f \<Longrightarrow> failure_ok f"
proof -
  define r where "r = error_retry_after P now e (error_body P e) (error_payload (error_body P e))"
  assume "node_verdict P now e = Outage f"
  then have "f \<in> set [\<lparr>pf_code = ''quota'', pf_retryable = False, pf_retry_after = r\<rparr>,
      \<lparr>pf_code = ''auth'', pf_retryable = False, pf_retry_after = r\<rparr>,
      \<lparr>pf_code = ''model_not_found'', pf_retryable = False, pf_retry_after = r\<rparr>,
      \<lparr>pf_code = ''rate_limit'', pf_retryable = True, pf_retry_after = r\<rparr>,
      \<lparr>pf_code = ''timeout'', pf_retryable = True, pf_retry_after = r\<rparr>,
      \<lparr>pf_code = ''connection'', pf_retryable = True, pf_retry_after = r\<rparr>,
      \<lparr>pf_code = ''upstream'', pf_retryable = True, pf_retry_after = r\<rparr>]"
    unfolding node_verdict_def Let_def r_def by (elim if_outage_cases) simp_all
  moreover have "case r of None \<Rightarrow> True | Some t \<Rightarrow> 0 \<le> t"
    using waits_retry_after by (cases r) (auto simp: r_def waits_def)
  ultimately show ?thesis by (auto simp: failure_ok_def)
qed

lemma classify_chain_ok: "classify_chain P now chain current seen = Some f \<Longrightarrow> failure_ok f"
proof (induction P now chain current seen rule: classify_chain.induct)
  case (1 P now chain current seen)
  from 1(2) show ?case
    by (subst (asm) classify_chain.simps)
       (auto split: option.splits if_splits verdict.splits intro: node_verdict_ok 1(1))
qed

text \<open>
  Whatever exception chain a call ended with, cyclic or not, its classification is \<open>None\<close> or one
  of the seven failure codes, marked retryable exactly when the outage is transient (rate limit,
  timeout, connection, upstream), and a delay asked for by the provider is never negative, however it
  was given: header, reset time, rate-limit interval or retry detail.
\<close>

theorem classified_failure_ok:
  "case classify_pool_failure P now chain error of None \<Rightarrow> True | Some f \<Rightarrow> failure_ok f"
  unfolding classify_pool_failure_def by (auto split: option.split intro: classify_chain_ok)

end
