(* ===== verification/Model_Pools.thy ===== *)
theory Model_Pools
  imports Pool_Errors
begin

text \<open>
  Model of \<open>agent/modules/providers/model_pools.py\<close>: priority pools of model
  providers, the availability state of their members, and the execution of a model call against a pool.

  A \<open>MemberState\<close> is a mutable object whose identity the code tests (\<open>self._states.get(key) is state\<close>);
  the field \<open>ms_ident\<close> is that identity, taken from a counter when the object is made. An object that
  \<open>reset\<close> dropped is never read again except behind that test, so only the objects in
  \<open>_states\<close> are kept. Seconds are exact rationals. The provider service (\<open>enabled\<close>, \<open>resolve\<close>) is a
  parameter, as are the awaited model call and the sleep, which may interleave any other task.
\<close>

section \<open>Pool configuration\<close>

definition POOL_PROVIDER :: string where "POOL_PROVIDER = ''@pool''"
definition POOL_PREFIX :: string where "POOL_PREFIX = ''llm.model_pools.''"

definition normalize_member_provider :: "string \<Rightarrow> string" where
  "normalize_member_provider value =
     map (\<lambda>c. if c = CHR ''-'' then CHR ''_'' else c) (lower_str (strip value))"

datatype pool_error =
    ValueError string
  | KeyError string
  | ModelPoolExhausted string "rat option"

text \<open>\<open>get_default_llm_settings()\<close> is the pair \<open>defaults\<close>.\<close>

definition selected_pool_name ::
  "string option \<times> string option \<Rightarrow> string option \<Rightarrow> string option \<Rightarrow> pool_error + string option" where
  "selected_pool_name defaults provider model =
     (let (default_provider, default_model) = defaults;
          uses_default = (case provider of None \<Rightarrow> True
            | Some p \<Rightarrow> p = [] \<or> lower_str (strip p) = ''default'');
          target_provider = (if uses_default then default_provider else map_option strip provider)
      in if target_provider \<noteq> Some POOL_PROVIDER then Inr None
         else (let target_model = strip (case model of None \<Rightarrow> [] | Some m \<Rightarrow> m);
                   target_model =
                     (if lower_str target_model \<in> {[], ''default'', ''provider default''}
                      then (if uses_default then (case default_model of None \<Rightarrow> [] | Some m \<Rightarrow> m) else [])
                      else target_model)
               in if target_model = [] then Inl (ValueError ''A model pool name is required.'')
                  else Inr (Some target_model)))"

definition validate_pool_effort :: "string option \<Rightarrow> string option \<Rightarrow> pool_error + unit" where
  "validate_pool_effort provider effort =
     (if strip (case provider of None \<Rightarrow> [] | Some p \<Rightarrow> p) = POOL_PROVIDER
         \<and> effort \<noteq> None \<and> effort \<noteq> Some ''auto''
      then Inl (ValueError ''Model pools only support automatic reasoning effort.'') else Inr ())"

record pool_member =
  pm_provider :: string
  pm_model :: string

fun clean_identifier :: "pyval \<Rightarrow> pool_error + string" where
  "clean_identifier (PStr s) =
     (if strip s = [] then Inl (ValueError ''Provider and model must be non-empty strings.'')
      else Inr (strip s))"
| "clean_identifier _ = Inl (ValueError ''Provider and model must be non-empty strings.'')"

definition reject_nested_pool :: "string \<Rightarrow> pool_error + string" where
  "reject_nested_pool value =
     (if lower_str value \<in> {POOL_PROVIDER, ''default''}
      then Inl (ValueError ''Pool members must reference concrete providers.'') else Inr value)"

definition validate_member :: "pyval \<Rightarrow> pyval \<Rightarrow> pool_error + pool_member" where
  "validate_member provider model =
     (case clean_identifier provider of
        Inl e \<Rightarrow> Inl e
      | Inr p \<Rightarrow>
          (case reject_nested_pool p of
             Inl e \<Rightarrow> Inl e
           | Inr p \<Rightarrow>
               (case clean_identifier model of
                  Inl e \<Rightarrow> Inl e
                | Inr m \<Rightarrow> Inr \<lparr>pm_provider = p, pm_model = m\<rparr>)))"

record pool_config =
  pc_members :: "pool_member list"
  pc_retry_count :: nat
  pc_cooldown_seconds :: nat
  pc_quota_cooldown_seconds :: nat

type_synonym member_id = "string \<times> string"

definition member_identity :: "pool_member \<Rightarrow> member_id" where
  "member_identity m = (normalize_member_provider (pm_provider m), pm_model m)"

definition unique_members :: "pool_member list \<Rightarrow> bool" where
  "unique_members ms = (card (set (map member_identity ms)) = length (map member_identity ms))"

fun validate_members :: "(pyval \<times> pyval) list \<Rightarrow> pool_error + pool_member list" where
  "validate_members [] = Inr []"
| "validate_members ((p, m) # rest) =
     (case validate_member p m of
        Inl e \<Rightarrow> Inl e
      | Inr x \<Rightarrow> (case validate_members rest of Inl e \<Rightarrow> Inl e | Inr xs \<Rightarrow> Inr (x # xs)))"

text \<open>The declared field constraints of \<open>ModelPoolConfig\<close>, then its model validator.\<close>

definition validate_config ::
  "(pyval \<times> pyval) list \<Rightarrow> int \<Rightarrow> int \<Rightarrow> int \<Rightarrow> pool_error + pool_config" where
  "validate_config members retry_count cooldown quota_cooldown =
     (case validate_members members of
        Inl e \<Rightarrow> Inl e
      | Inr ms \<Rightarrow>
          if length ms < 1 then Inl (ValueError ''members: min_length 1'')
          else if retry_count < 0 \<or> 5 < retry_count then Inl (ValueError ''retry_count: 0 to 5'')
          else if cooldown \<le> 0 then Inl (ValueError ''cooldown_seconds: greater than 0'')
          else if quota_cooldown \<le> 0 then Inl (ValueError ''quota_cooldown_seconds: greater than 0'')
          else if \<not> unique_members ms
            then Inl (ValueError ''Pool members must be unique provider/model pairs.'')
          else Inr \<lparr>pc_members = ms, pc_retry_count = nat retry_count,
                    pc_cooldown_seconds = nat cooldown, pc_quota_cooldown_seconds = nat quota_cooldown\<rparr>)"

definition config_ok :: "pool_config \<Rightarrow> bool" where
  "config_ok pool \<longleftrightarrow> pc_members pool \<noteq> [] \<and> distinct (map member_identity (pc_members pool))
     \<and> pc_retry_count pool \<le> 5 \<and> 0 < pc_cooldown_seconds pool \<and> 0 < pc_quota_cooldown_seconds pool
     \<and> (\<forall>m \<in> set (pc_members pool). pm_model m \<noteq> [] \<and> pm_provider m \<noteq> []
          \<and> lower_str (pm_provider m) \<noteq> POOL_PROVIDER)"

lemma validate_members_ok:
  "validate_members ps = Inr ms \<Longrightarrow> m \<in> set ms
   \<Longrightarrow> pm_model m \<noteq> [] \<and> pm_provider m \<noteq> [] \<and> lower_str (pm_provider m) \<noteq> POOL_PROVIDER"
proof (induction ps arbitrary: ms rule: validate_members.induct)
  case (2 p x rest)
  have clean: "clean_identifier v = Inr s \<Longrightarrow> s \<noteq> []" for v s
    by (cases v) (auto split: if_splits)
  have "validate_member p x = Inr m \<Longrightarrow> ?case"
    by (auto simp: validate_member_def reject_nested_pool_def split: sum.splits if_splits dest: clean)
  moreover obtain b ms' where "validate_member p x = Inr b" "validate_members rest = Inr ms'" "ms = b # ms'"
    using 2(2) by (auto split: sum.splits)
  ultimately show ?case using 2(1) [of b ms'] 2(3) by (cases "m = b") auto
qed simp

lemma validate_config_ok: "validate_config ps r c q = Inr pool \<Longrightarrow> config_ok pool"
proof -
  assume v: "validate_config ps r c q = Inr pool"
  then obtain ms where ms: "validate_members ps = Inr ms"
    by (auto simp: validate_config_def split: sum.splits)
  show ?thesis
    using v ms validate_members_ok [OF ms]
    by (auto simp: validate_config_def config_ok_def unique_members_def split: if_splits
             intro: card_distinct)
qed

section \<open>Member states and their locked updates\<close>

type_synonym pool_id = "string \<times> string \<times> string"

record member_state =
  ms_ident :: nat
  ms_retry_at :: rat
  ms_probing :: bool
  ms_error_code :: "string option"
  ms_generation :: nat

text \<open>The fingerprint \<open>repr((pool, provider_values))\<close> is the pair itself.\<close>

type_synonym fingerprint = "pool_config \<times> (string, pyval) dict"

record pool_service =
  ps_states :: "(pool_id, member_state) dict"
  ps_fingerprints :: "(string, fingerprint) dict"
  ps_fresh :: nat

definition pool_key :: "string \<Rightarrow> pool_member \<Rightarrow> pool_id" where
  "pool_key name m = (name, normalize_member_provider (pm_provider m), pm_model m)"

definition reset_pool :: "pool_service \<Rightarrow> string \<Rightarrow> pool_service" where
  "reset_pool s name = s\<lparr>ps_states := filter (\<lambda>(key, st). fst key \<noteq> name) (ps_states s)\<rparr>"

text \<open>
  The configuration the service reads: the validated value of \<open>llm.model_pools.<name>\<close> and all values.
\<close>

record pool_settings =
  cf_pools :: "(string, pool_config) dict"
  cf_values :: "(string, pyval) dict"

definition provider_values :: "pool_settings \<Rightarrow> pool_config \<Rightarrow> (string, pyval) dict" where
  "provider_values cfg pool =
     filter (\<lambda>(key, v). list_ex
        (\<lambda>m. starts_with (''llm.providers.'' @ pm_provider m @ ''.'') key) (pc_members pool)) (cf_values cfg)"

definition get_pool :: "pool_settings \<Rightarrow> pool_service \<Rightarrow> string \<Rightarrow> pool_error + pool_config \<times> pool_service" where
  "get_pool cfg s name =
     (case dict_get (cf_pools cfg) name of
        None \<Rightarrow> Inl (ValueError (''Unknown model pool: '' @ name @ ''.''))
      | Some pool \<Rightarrow>
          (let fp = (pool, provider_values cfg pool)
           in if dict_get (ps_fingerprints s) name \<noteq> Some fp
              then (let s' = reset_pool s name
                    in Inr (pool, s'\<lparr>ps_fingerprints := dict_set name fp (ps_fingerprints s')\<rparr>))
              else Inr (pool, s)))"

definition list_configs :: "(string, pool_config) dict \<Rightarrow> (string, pool_config) dict" where
  "list_configs values =
     map (\<lambda>(key, v). (drop (length POOL_PREFIX) key, v))
       (filter (\<lambda>(key, v). starts_with POOL_PREFIX key
                  \<and> CHR ''.'' \<notin> set (drop (length POOL_PREFIX) key)) values)"

definition new_member_state :: "nat \<Rightarrow> member_state" where
  "new_member_state i = \<lparr>ms_ident = i, ms_retry_at = 0, ms_probing = False, ms_error_code = None, ms_generation = 0\<rparr>"

definition unavailable :: "rat \<Rightarrow> member_state \<Rightarrow> bool" where
  "unavailable now st = (ms_probing st \<or> now < ms_retry_at st)"

text \<open>The object a call keeps while it runs: \<open>state\<close>, \<open>generation\<close>, and whether it is the recovery probe.\<close>

record lease =
  ls_ident :: nat
  ls_generation :: nat
  ls_recovering :: bool

definition lease_member :: "pool_service \<Rightarrow> rat \<Rightarrow> pool_id \<Rightarrow> lease option \<times> pool_service" where
  "lease_member s now key =
     (let (st, s) = (case dict_get (ps_states s) key of
            Some st \<Rightarrow> (st, s)
          | None \<Rightarrow> (let st = new_member_state (ps_fresh s)
                     in (st, s\<lparr>ps_states := dict_set key st (ps_states s), ps_fresh := Suc (ps_fresh s)\<rparr>)))
      in if unavailable now st then (None, s)
         else (let recovering = (ms_error_code st \<noteq> None \<and> ms_error_code st \<noteq> Some []);
                   s = (if recovering
                        then s\<lparr>ps_states := dict_set key (st\<lparr>ms_probing := True\<rparr>) (ps_states s)\<rparr> else s)
               in (Some \<lparr>ls_ident = ms_ident st, ls_generation = ms_generation st,
                         ls_recovering = recovering\<rparr>, s)))"

text \<open>\<open>with self._lock: if self._states.get(key) is state: ...\<close>.\<close>

definition if_current :: "pool_id \<Rightarrow> lease \<Rightarrow> (member_state \<Rightarrow> member_state) \<Rightarrow> pool_service \<Rightarrow> pool_service" where
  "if_current key l f s =
     (case dict_get (ps_states s) key of
        Some st \<Rightarrow> if ms_ident st = ls_ident l
                   then s\<lparr>ps_states := dict_set key (f st) (ps_states s)\<rparr> else s
      | None \<Rightarrow> s)"

definition settle_success :: "pool_id \<Rightarrow> lease \<Rightarrow> pool_service \<Rightarrow> pool_service" where
  "settle_success key l =
     if_current key l (\<lambda>st. if ms_generation st = ls_generation l
                            then st\<lparr>ms_retry_at := 0, ms_error_code := None\<rparr> else st)"

definition release_probe :: "pool_id \<Rightarrow> lease \<Rightarrow> pool_service \<Rightarrow> pool_service" where
  "release_probe key l = if_current key l (\<lambda>st. st\<lparr>ms_probing := False\<rparr>)"

definition fail_cooldown :: "pool_config \<Rightarrow> pool_failure \<Rightarrow> rat" where
  "fail_cooldown pool failure =
     (case pf_retry_after failure of
        Some r \<Rightarrow> max 0 r
      | None \<Rightarrow> of_nat (if pf_code failure = ''quota'' then pc_quota_cooldown_seconds pool
                         else pc_cooldown_seconds pool))"

definition fail_member :: "pool_config \<Rightarrow> pool_id \<Rightarrow> lease \<Rightarrow> pool_failure \<Rightarrow> rat \<Rightarrow> pool_service \<Rightarrow> pool_service" where
  "fail_member pool key l failure now =
     if_current key l (\<lambda>st. st\<lparr>
        ms_retry_at := max (ms_retry_at st) (now + min (fail_cooldown pool failure) (253402300799 - now)),
        ms_error_code := Some (pf_code failure),
        ms_generation := Suc (ms_generation st)\<rparr>)"

definition pool_deadline :: "pool_service \<Rightarrow> rat \<Rightarrow> string \<Rightarrow> rat option" where
  "pool_deadline s now name =
     (case map (ms_retry_at \<circ> snd) (filter (\<lambda>(key, st). fst key = name \<and> now < ms_retry_at st) (ps_states s)) of
        [] \<Rightarrow> None
      | t # ts \<Rightarrow> Some (foldl min t ts))"

section \<open>Executing a call against a pool\<close>

text \<open>
  How one awaited call ends: it returns, raises (the exception's chain, and whether the output guard
  had seen output), or is cancelled.
\<close>

datatype ('a, 'e) call_result = Returned 'a | Raised 'e bool | Cancelled

text \<open>
  The run of \<open>execute\<close>: the service object, the clock, and the calls made so far: the member, the
  number of the retry, the resolved model, and how the call ended. A call and a sleep give the service and the clock as other tasks left them.
\<close>

record ('r, 'a, 'e) pool_run =
  pr_service :: pool_service
  pr_now :: rat
  pr_calls :: "(pool_member \<times> nat \<times> 'r \<times> ('a, 'e) call_result) list"

record ('r, 'a, 'e) pool_env =
  pe_enabled :: "pool_member \<Rightarrow> bool"
  pe_resolve :: "string \<Rightarrow> pool_member \<Rightarrow> 'e + 'r"
  pe_classify :: "'e \<Rightarrow> pool_failure option"
  pe_attempt :: "'r \<Rightarrow> ('r, 'a, 'e) pool_run \<Rightarrow> ('a, 'e) call_result \<times> pool_service \<times> rat"
  pe_sleep :: "rat \<Rightarrow> ('r, 'a, 'e) pool_run \<Rightarrow> pool_service \<times> rat"

text \<open>How the body of \<open>execute\<close> leaves a member: with the result, an exception, or for the next member.\<close>

datatype ('a, 'e) member_exit = Finished 'a | Reraised 'e | Cancelled_at | Next_member

definition call_member ::
  "('r, 'a, 'e) pool_env \<Rightarrow> string \<Rightarrow> pool_member \<Rightarrow> nat \<Rightarrow> ('r, 'a, 'e) pool_run
   \<Rightarrow> ('a, 'e) call_result \<times> ('r, 'a, 'e) pool_run" where
  "call_member E name m retry run =
     (case pe_resolve E name m of
        Inl e \<Rightarrow> (Raised e False, run)
      | Inr r \<Rightarrow>
          (let (res, s, now) = pe_attempt E r run
           in (res, run\<lparr>pr_service := s, pr_now := now, pr_calls := pr_calls run @ [(m, retry, r, res)]\<rparr>)))"

definition retry_delay :: "pool_failure \<Rightarrow> nat \<Rightarrow> rat" where
  "retry_delay failure retry =
     (case pf_retry_after failure of Some r \<Rightarrow> r | None \<Rightarrow> of_nat (min (2 ^ retry) 10))"

text \<open>\<open>for retry in range(pool.retry_count + 1)\<close>, on the remaining retries.\<close>

fun retry_loop ::
  "('r, 'a, 'e) pool_env \<Rightarrow> string \<Rightarrow> pool_config \<Rightarrow> pool_member \<Rightarrow> lease \<Rightarrow> nat list \<Rightarrow> ('r, 'a, 'e) pool_run
   \<Rightarrow> ('a, 'e) member_exit \<times> ('r, 'a, 'e) pool_run" where
  "retry_loop E name pool m l [] run = (Next_member, run)"
| "retry_loop E name pool m l (retry # retries) run =
     (let key = pool_key name m; (res, run) = call_member E name m retry run in
      case res of
        Returned a \<Rightarrow> (Finished a, run\<lparr>pr_service := settle_success key l (pr_service run)\<rparr>)
      | Cancelled \<Rightarrow> (Cancelled_at, run)
      | Raised e started \<Rightarrow>
          (case pe_classify E e of
             None \<Rightarrow> (Reraised e, run)
           | Some failure \<Rightarrow>
               (let delay = retry_delay failure retry in
                if \<not> started \<and> pf_retryable failure \<and> retry < pc_retry_count pool \<and> delay \<le> 10
                then (let (s, now) = pe_sleep E (max 0 delay) run
                      in retry_loop E name pool m l retries (run\<lparr>pr_service := s, pr_now := now\<rparr>))
                else (let run = run\<lparr>pr_service := fail_member pool key l failure (pr_now run) (pr_service run)\<rparr>
                      in (if started then Reraised e else Next_member, run)))))"

text \<open>The part of the body for one member, between the lease and \<open>finally\<close>.\<close>

definition try_member ::
  "('r, 'a, 'e) pool_env \<Rightarrow> string \<Rightarrow> pool_config \<Rightarrow> pool_member \<Rightarrow> ('r, 'a, 'e) pool_run
   \<Rightarrow> ('a, 'e) member_exit \<times> ('r, 'a, 'e) pool_run" where
  "try_member E name pool m run =
     (if \<not> pe_enabled E m then (Next_member, run)
      else (let key = pool_key name m;
                (leased, s) = lease_member (pr_service run) (pr_now run) key;
                run = run\<lparr>pr_service := s\<rparr>
            in case leased of
                 None \<Rightarrow> (Next_member, run)
               | Some l \<Rightarrow>
                   (let (r, run) = retry_loop E name pool m l [0..<pc_retry_count pool + 1] run
                    in (r, run\<lparr>pr_service := release_probe key l (pr_service run)\<rparr>))))"

fun try_members ::
  "('r, 'a, 'e) pool_env \<Rightarrow> string \<Rightarrow> pool_config \<Rightarrow> pool_member list \<Rightarrow> ('r, 'a, 'e) pool_run
   \<Rightarrow> ('a, 'e) member_exit \<times> ('r, 'a, 'e) pool_run" where
  "try_members E name pool [] run = (Next_member, run)"
| "try_members E name pool (m # ms) run =
     (let (r, run) = try_member E name pool m run in
      case r of Next_member \<Rightarrow> try_members E name pool ms run | _ \<Rightarrow> (r, run))"

datatype ('a, 'e) pool_result = Result 'a | Provider_error 'e | Was_cancelled | Pool_error pool_error

definition execute ::
  "('r, 'a, 'e) pool_env \<Rightarrow> pool_settings \<Rightarrow> string \<Rightarrow> ('r, 'a, 'e) pool_run \<Rightarrow> ('a, 'e) pool_result \<times> ('r, 'a, 'e) pool_run" where
  "execute E cfg name run =
     (case get_pool cfg (pr_service run) name of
        Inl e \<Rightarrow> (Pool_error e, run)
      | Inr (pool, s) \<Rightarrow>
          (let (r, run) = try_members E name pool (pc_members pool) (run\<lparr>pr_service := s\<rparr>)
           in (case r of
                 Finished a \<Rightarrow> Result a
               | Reraised e \<Rightarrow> Provider_error e
               | Cancelled_at \<Rightarrow> Was_cancelled
               | Next_member \<Rightarrow>
                   Pool_error (ModelPoolExhausted name (pool_deadline (pr_service run) (pr_now run) name)), run)))"

section \<open>Previewing a pool\<close>

definition member_unavailable :: "pool_service \<Rightarrow> rat \<Rightarrow> string \<Rightarrow> pool_member \<Rightarrow> bool" where
  "member_unavailable s now name m =
     (case dict_get (ps_states s) (pool_key name m) of None \<Rightarrow> False | Some st \<Rightarrow> unavailable now st)"

text \<open>The loop of \<open>preview\<close>; \<open>caught\<close> are the exceptions its \<open>except\<close> clause names.\<close>

fun preview_members ::
  "('e \<Rightarrow> bool) \<Rightarrow> ('r, 'a, 'e) pool_env \<Rightarrow> pool_service \<Rightarrow> rat \<Rightarrow> string \<Rightarrow> rat list \<Rightarrow> pool_member list
   \<Rightarrow> ('r, 'e) pool_result" where
  "preview_members caught E s now name retry_at [] =
     Pool_error (ModelPoolExhausted name
       (case retry_at of [] \<Rightarrow> None | t # ts \<Rightarrow> Some (foldl min t ts)))"
| "preview_members caught E s now name retry_at (m # ms) =
     (case dict_get (ps_states s) (pool_key name m) of
        Some st \<Rightarrow>
          if unavailable now st
          then preview_members caught E s now name
                 (if now < ms_retry_at st then retry_at @ [ms_retry_at st] else retry_at) ms
          else if \<not> pe_enabled E m then preview_members caught E s now name retry_at ms
          else (case pe_resolve E name m of
                  Inr r \<Rightarrow> Result r
                | Inl e \<Rightarrow> if caught e then preview_members caught E s now name retry_at ms else Provider_error e)
      | None \<Rightarrow>
          if \<not> pe_enabled E m then preview_members caught E s now name retry_at ms
          else (case pe_resolve E name m of
                  Inr r \<Rightarrow> Result r
                | Inl e \<Rightarrow> if caught e then preview_members caught E s now name retry_at ms else Provider_error e))"

definition preview ::
  "('e \<Rightarrow> bool) \<Rightarrow> ('r, 'a, 'e) pool_env \<Rightarrow> pool_settings \<Rightarrow> pool_service \<Rightarrow> rat \<Rightarrow> string
   \<Rightarrow> ('r, 'e) pool_result \<times> pool_service" where
  "preview caught E cfg s now name =
     (case get_pool cfg s name of
        Inl e \<Rightarrow> (Pool_error e, s)
      | Inr (pool, s) \<Rightarrow> (preview_members caught E s now name [] (pc_members pool), s))"

record member_status =
  mst_member :: pool_member
  mst_available :: bool
  mst_error_code :: "string option"
  mst_retry_at :: "rat option"

definition status_of :: "('r, 'a, 'e) pool_env \<Rightarrow> pool_service \<Rightarrow> rat \<Rightarrow> string \<Rightarrow> pool_member \<Rightarrow> member_status" where
  "status_of E s now name m =
     (let state = dict_get (ps_states s) (pool_key name m)
      in \<lparr>mst_member = m,
          mst_available = (pe_enabled E m \<and> \<not> (case state of None \<Rightarrow> False | Some st \<Rightarrow> unavailable now st)),
          mst_error_code = Option.bind state ms_error_code,
          mst_retry_at = (case state of None \<Rightarrow> None
             | Some st \<Rightarrow> if now < ms_retry_at st then Some (ms_retry_at st) else None)\<rparr>)"

definition status ::
  "('r, 'a, 'e) pool_env \<Rightarrow> pool_settings \<Rightarrow> pool_service \<Rightarrow> rat \<Rightarrow> string
   \<Rightarrow> pool_error + member_status list \<times> pool_service" where
  "status E cfg s now name =
     (case get_pool cfg s name of
        Inl e \<Rightarrow> Inl e
      | Inr (pool, s) \<Rightarrow> Inr (map (status_of E s now name) (pc_members pool), s))"

end
