(* ===== verification/Pool_Execution.thy ===== *)
theory Pool_Execution
  imports Model_Pools "HOL-Library.Sublist"
begin

text \<open>
  What holds of a model call executed against a pool: the order and number of the calls made, whatever
  other tasks do to the service during each await; agreement of \<open>preview\<close> with \<open>execute\<close>; and, for
  interleaved calls, how long a failed member stays closed and how many recovery probes it can get.
\<close>

section \<open>The calls of one execution\<close>

definition call_slot :: "pool_member \<times> nat \<times> 'r \<times> ('a, 'e) call_result \<Rightarrow> pool_member \<times> nat" where
  "call_slot c = (fst c, fst (snd c))"

definition call_outcome :: "pool_member \<times> nat \<times> 'r \<times> ('a, 'e) call_result \<Rightarrow> ('a, 'e) call_result" where
  "call_outcome c = snd (snd (snd c))"

text \<open>All slots a pool allows, in the order it allows them.\<close>

definition priority_schedule :: "pool_config \<Rightarrow> pool_member list \<Rightarrow> (pool_member \<times> nat) list" where
  "priority_schedule pool ms = concat (map (\<lambda>m. map (Pair m) [0..<pc_retry_count pool + 1]) ms)"

text \<open>A call after which another one may be made: it failed with an outage before any output.\<close>

definition silent_outage :: "('r, 'a, 'e) pool_env \<Rightarrow> ('a, 'e) call_result \<Rightarrow> bool" where
  "silent_outage E res = (case res of Raised e started \<Rightarrow> \<not> started \<and> pe_classify E e \<noteq> None | _ \<Rightarrow> False)"

definition silent :: "('r, 'a, 'e) pool_env \<Rightarrow> (pool_member \<times> nat \<times> 'r \<times> ('a, 'e) call_result) list \<Rightarrow> bool" where
  "silent E cs = list_all (silent_outage E \<circ> call_outcome) cs"

text \<open>How the calls of a part of the execution fit the way it was left.\<close>

definition calls_fit ::
  "('r, 'a, 'e) pool_env \<Rightarrow> (pool_member \<times> nat \<times> 'r \<times> ('a, 'e) call_result) list \<Rightarrow> ('a, 'e) member_exit \<Rightarrow> bool" where
  "calls_fit E cs r =
     (case r of
        Next_member \<Rightarrow> silent E cs
      | Finished a \<Rightarrow> silent E (butlast cs) \<and> cs \<noteq> [] \<and> call_outcome (last cs) = Returned a
      | Cancelled_at \<Rightarrow> silent E (butlast cs) \<and> cs \<noteq> [] \<and> call_outcome (last cs) = Cancelled
      | Reraised e \<Rightarrow> silent E cs \<or> silent E (butlast cs) \<and> cs \<noteq> [] \<and> (\<exists>b. call_outcome (last cs) = Raised e b))"

lemma calls_fit_Cons:
  "silent E cs \<Longrightarrow> calls_fit E ds r \<Longrightarrow> calls_fit E (cs @ ds) r"
  by (auto simp: calls_fit_def silent_def butlast_append split: member_exit.splits)

lemma retry_loop_calls:
  assumes "retry_loop E name pool m l ks run = (r, run')"
  shows "\<exists>cs. pr_calls run' = pr_calls run @ cs \<and> subseq (map call_slot cs) (map (Pair m) ks) \<and> calls_fit E cs r"
  using assms
proof (induction E name pool m l ks run arbitrary: r run' rule: retry_loop.induct)
  case (1 E name pool m l run)
  then show ?case by (auto simp: calls_fit_def silent_def)
next
  case (2 E name pool m l k ks run)
  obtain res run1 where call: "call_member E name m k run = (res, run1)" by fastforce
  then obtain c where c: "pr_calls run1 = pr_calls run @ c"
      and slots: "subseq (map call_slot c) [(m, k)]"
      and out: "c = [] \<and> (\<exists>e. res = Raised e False) \<or> (\<exists>x. c = [x] \<and> call_outcome x = res)"
    by (fastforce simp: call_member_def call_slot_def call_outcome_def split: sum.splits prod.splits)
  have sub: "subseq (map call_slot (c @ ds)) (map (Pair m) (k # ks))"
    if "subseq (map call_slot ds) (map (Pair m) ks)" for ds
    using list_emb_append_mono [OF slots that] by simp
  show ?case
  proof (cases res)
    case (Returned a)
    then show ?thesis
      using 2(2) call c sub [of "[]"] out by (auto simp: calls_fit_def silent_def)
  next
    case Cancelled
    then show ?thesis
      using 2(2) call c sub [of "[]"] out by (auto simp: calls_fit_def silent_def)
  next
    case (Raised e started)
    show ?thesis
    proof (cases "pe_classify E e")
      case None
      then show ?thesis
        using 2(2) call c sub [of "[]"] out Raised by (auto simp: calls_fit_def silent_def)
    next
      case (Some f)
      let ?again = "\<not> started \<and> pf_retryable f \<and> k < pc_retry_count pool \<and> retry_delay f k \<le> 10"
      show ?thesis
      proof (cases ?again)
        case True
        obtain s now where sl: "pe_sleep E (max 0 (retry_delay f k)) run1 = (s, now)" by fastforce
        have rec: "retry_loop E name pool m l ks (run1\<lparr>pr_service := s, pr_now := now\<rparr>) = (r, run')"
          using 2(2) call Raised Some True sl by simp
        obtain ds where ds: "pr_calls run' = pr_calls run1 @ ds"
            "subseq (map call_slot ds) (map (Pair m) ks)" "calls_fit E ds r"
          using 2(1) [OF refl refl call [symmetric] Raised Some refl True refl sl [symmetric] rec]
          by auto
        have "silent E c"
          using out Raised Some True by (auto simp: silent_def silent_outage_def)
        then show ?thesis
          using ds c sub [OF ds(2)] calls_fit_Cons [of E c ds r] by (intro exI [of _ "c @ ds"]) simp
      next
        case False
        then have "r = (if started then Reraised e else Next_member)" "pr_calls run' = pr_calls run1"
          using 2(2) call Raised Some by (auto simp: Let_def)
        then show ?thesis
          using c sub [of "[]"] out Raised Some
          by (auto simp: calls_fit_def silent_def silent_outage_def)
      qed
    qed
  qed
qed

lemma try_member_calls:
  assumes "try_member E name pool m run = (r, run')"
  shows "\<exists>cs. pr_calls run' = pr_calls run @ cs
    \<and> subseq (map call_slot cs) (map (Pair m) [0..<pc_retry_count pool + 1]) \<and> calls_fit E cs r"
proof -
  have none: "?thesis" if "r = Next_member" "pr_calls run' = pr_calls run"
    using that by (intro exI [of _ "[]"]) (simp add: calls_fit_def silent_def)
  show ?thesis
  proof (cases "pe_enabled E m")
    case False
    then show ?thesis using assms none by (simp add: try_member_def)
  next
    case enabled: True
    obtain leased s where ls: "lease_member (pr_service run) (pr_now run) (pool_key name m) = (leased, s)"
      by fastforce
    show ?thesis
    proof (cases leased)
      case None
      then have "r = Next_member" "run' = run\<lparr>pr_service := s\<rparr>"
        using assms enabled ls by (simp_all add: try_member_def)
      then show ?thesis by (intro none) simp_all
    next
      case (Some l)
      obtain r1 run1 where loop: "retry_loop E name pool m l [0..<pc_retry_count pool + 1]
          (run\<lparr>pr_service := s\<rparr>) = (r1, run1)" by fastforce
      have "r = r1" "pr_calls run' = pr_calls run1"
        using assms enabled ls Some loop by (auto simp: try_member_def Let_def)
      then show ?thesis using retry_loop_calls [OF loop] by simp
    qed
  qed
qed

lemma try_members_calls:
  assumes "try_members E name pool ms run = (r, run')"
  shows "\<exists>cs. pr_calls run' = pr_calls run @ cs \<and> subseq (map call_slot cs) (priority_schedule pool ms)
    \<and> calls_fit E cs r"
  using assms
proof (induction ms arbitrary: run)
  case Nil
  then show ?case by (auto simp: calls_fit_def silent_def priority_schedule_def)
next
  case (Cons m ms)
  obtain r1 run1 where first: "try_member E name pool m run = (r1, run1)" by fastforce
  then obtain cs where cs: "pr_calls run1 = pr_calls run @ cs"
      "subseq (map call_slot cs) (map (Pair m) [0..<pc_retry_count pool + 1])" "calls_fit E cs r1"
    using try_member_calls by blast
  have sub: "subseq (map call_slot (cs @ ds)) (priority_schedule pool (m # ms))"
    if "subseq (map call_slot ds) (priority_schedule pool ms)" for ds
    using list_emb_append_mono [OF cs(2) that] by (simp add: priority_schedule_def)
  show ?case
  proof (cases "r1 = Next_member")
    case True
    then obtain ds where "pr_calls run' = pr_calls run1 @ ds"
        "subseq (map call_slot ds) (priority_schedule pool ms)" "calls_fit E ds r"
      using Cons first by auto
    then show ?thesis
      using cs sub True calls_fit_Cons [of E cs ds r]
      by (intro exI [of _ "cs @ ds"]) (simp add: calls_fit_def)
  next
    case False
    then have "r = r1" "run' = run1"
      using Cons.prems first by (auto split: member_exit.splits)
    then show ?thesis using cs sub [of "[]"] by auto
  qed
qed

text \<open>How the calls made fit what the execution gave its caller.\<close>

definition result_fits ::
  "('r, 'a, 'e) pool_env \<Rightarrow> (pool_member \<times> nat \<times> 'r \<times> ('a, 'e) call_result) list \<Rightarrow> ('a, 'e) pool_result \<Rightarrow> bool" where
  "result_fits E cs r =
     (case r of
        Result a \<Rightarrow> silent E (butlast cs) \<and> cs \<noteq> [] \<and> call_outcome (last cs) = Returned a
      | Was_cancelled \<Rightarrow> silent E (butlast cs) \<and> cs \<noteq> [] \<and> call_outcome (last cs) = Cancelled
      | Provider_error e \<Rightarrow>
          silent E cs \<or> silent E (butlast cs) \<and> cs \<noteq> [] \<and> (\<exists>b. call_outcome (last cs) = Raised e b)
      | Pool_error e \<Rightarrow> silent E cs)"

text \<open>
  C7: one execution makes its calls in the order of the pool's members, each member at most
  \<open>retry_count + 1\<close> times with increasing retry numbers, whatever other tasks do to the service while
  it waits; every call but the last failed with an outage before any output was seen, so a stream
  that has begun is never repeated on another member, and a result is that of the last call.
\<close>

theorem pool_calls_follow_priority:
  assumes "get_pool cfg (pr_service run) name = Inr (pool, s)"
    and "execute E cfg name run = (r, run')"
  shows "\<exists>cs. pr_calls run' = pr_calls run @ cs
    \<and> subseq (map call_slot cs) (priority_schedule pool (pc_members pool)) \<and> result_fits E cs r"
proof -
  obtain r1 run1 where loop: "try_members E name pool (pc_members pool) (run\<lparr>pr_service := s\<rparr>) = (r1, run1)"
    by fastforce
  have "run' = run1" and "r = (case r1 of Finished a \<Rightarrow> Result a | Reraised e \<Rightarrow> Provider_error e
      | Cancelled_at \<Rightarrow> Was_cancelled
      | Next_member \<Rightarrow> Pool_error (ModelPoolExhausted name (pool_deadline (pr_service run1) (pr_now run1) name)))"
    using assms loop by (auto simp: execute_def split: member_exit.splits)
  then show ?thesis
    using try_members_calls [OF loop]
    by (cases r1) (auto simp: calls_fit_def result_fits_def)
qed

section \<open>An example pool\<close>

definition demo_first :: pool_member where
  "demo_first = \<lparr>pm_provider = ''a'', pm_model = ''first''\<rparr>"

definition demo_second :: pool_member where
  "demo_second = \<lparr>pm_provider = ''b'', pm_model = ''second''\<rparr>"

definition demo_pool :: pool_config where
  "demo_pool = \<lparr>pc_members = [demo_first, demo_second], pc_retry_count = 1,
     pc_cooldown_seconds = 60, pc_quota_cooldown_seconds = 3600\<rparr>"

definition demo_settings :: pool_settings where
  "demo_settings = \<lparr>cf_pools = [(''small'', demo_pool)], cf_values = []\<rparr>"

definition rate_limited :: pool_failure where
  "rate_limited = \<lparr>pf_code = ''rate_limit'', pf_retryable = True, pf_retry_after = None\<rparr>"

definition fresh_service :: pool_service where
  "fresh_service = \<lparr>ps_states = [], ps_fingerprints = [], ps_fresh = 0\<rparr>"

text \<open>The first member answers with a rate limit, the second with 7.\<close>

definition demo_env :: "(string, nat, unit) pool_env" where
  "demo_env = \<lparr>pe_enabled = (\<lambda>m. True), pe_resolve = (\<lambda>name m. Inr (pm_model m)),
     pe_classify = (\<lambda>e. Some rate_limited),
     pe_attempt = (\<lambda>r run. (if r = ''first'' then Raised () False else Returned 7, pr_service run, pr_now run)),
     pe_sleep = (\<lambda>d run. (pr_service run, pr_now run + d))\<rparr>"

definition demo_run :: "(string, nat, unit) pool_run" where
  "demo_run = \<lparr>pr_service = fresh_service, pr_now = 0, pr_calls = []\<rparr>"

lemmas demo_defs = demo_first_def demo_second_def demo_pool_def demo_settings_def rate_limited_def
  fresh_service_def demo_env_def demo_run_def

lemmas pool_defs = get_pool_def execute_def try_member_def lease_member_def call_member_def
  if_current_def settle_success_def release_probe_def fail_member_def reset_pool_def new_member_state_def
  unavailable_def pool_key_def normalize_member_provider_def provider_values_def

lemma demo_get_pool: "\<exists>s. get_pool demo_settings (pr_service demo_run) ''small'' = Inr (demo_pool, s)"
  by (simp add: get_pool_def demo_settings_def demo_run_def fresh_service_def Let_def)

lemma demo_execute: "fst (execute demo_env demo_settings ''small'' demo_run) = Result 7
   \<and> map call_slot (pr_calls (snd (execute demo_env demo_settings ''small'' demo_run)))
     = [(demo_first, 0), (demo_first, 1), (demo_second, 0)]"
  by code_simp

theorem pool_calls_follow_priority_witness:
  "\<exists>cs. pr_calls (snd (execute demo_env demo_settings ''small'' demo_run)) = pr_calls demo_run @ cs
    \<and> subseq (map call_slot cs) (priority_schedule demo_pool (pc_members demo_pool))
    \<and> result_fits demo_env cs (fst (execute demo_env demo_settings ''small'' demo_run))"
proof -
  obtain s where "get_pool demo_settings (pr_service demo_run) ''small'' = Inr (demo_pool, s)"
    using demo_get_pool by blast
  then show ?thesis
    by (rule pool_calls_follow_priority) simp
qed

section \<open>Preview and execution\<close>

lemma try_unavailable:
  assumes "dict_get (ps_states (pr_service run)) (pool_key name m) = Some st" and "unavailable (pr_now run) st"
  shows "try_member E name pool m run = (Next_member, run)"
  using assms by (simp add: try_member_def lease_member_def)

lemma lease_available:
  assumes "case dict_get (ps_states s) key of None \<Rightarrow> True | Some st \<Rightarrow> \<not> unavailable now st" and "0 \<le> now"
  shows "\<exists>l s'. lease_member s now key = (Some l, s')"
  using assms by (auto simp: lease_member_def unavailable_def new_member_state_def Let_def split: option.splits)

lemma try_available_calls:
  assumes "pe_enabled E m" and "pe_resolve E name m = Inr r" and "0 \<le> pr_now run"
    and "case dict_get (ps_states (pr_service run)) (pool_key name m) of
           None \<Rightarrow> True | Some st \<Rightarrow> \<not> unavailable (pr_now run) st"
    and "try_member E name pool m run = (x, run')"
  shows "\<exists>c cs. pr_calls run' = pr_calls run @ (m, 0, r, c) # cs"
proof -
  obtain l s where lease: "lease_member (pr_service run) (pr_now run) (pool_key name m) = (Some l, s)"
    using lease_available assms(3,4) by blast
  let ?run = "run\<lparr>pr_service := s\<rparr>"
  obtain res s1 n1 where at: "pe_attempt E r ?run = (res, s1, n1)" by (metis prod.exhaust)
  let ?run1 = "?run\<lparr>pr_service := s1, pr_now := n1, pr_calls := pr_calls run @ [(m, 0, r, res)]\<rparr>"
  have call: "call_member E name m 0 ?run = (res, ?run1)"
    using assms(2) at by (simp add: call_member_def)
  obtain y run2 where loop: "retry_loop E name pool m l (0 # [1..<pc_retry_count pool + 1]) ?run = (y, run2)"
    by fastforce
  have "\<exists>cs. pr_calls run2 = pr_calls ?run1 @ cs"
  proof (cases res)
    case (Raised e started)
    show ?thesis
    proof (cases "pe_classify E e")
      case (Some f)
      obtain s2 n2 where "pe_sleep E (max 0 (retry_delay f 0)) ?run1 = (s2, n2)" by fastforce
      then have "run2 = ?run1\<lparr>pr_service := fail_member pool (pool_key name m) l f (pr_now ?run1) (pr_service ?run1)\<rparr>
          \<or> retry_loop E name pool m l [1..<pc_retry_count pool + 1]
              (?run1\<lparr>pr_service := s2, pr_now := n2\<rparr>) = (y, run2)"
        using loop call Raised Some by (auto simp: Let_def simp del: upt_Suc split: if_splits)
      then show ?thesis by (auto dest: retry_loop_calls)
    qed (use loop call Raised in auto)
  qed (use loop call in auto)
  moreover have "pr_calls run' = pr_calls run2"
    using assms(1,5) lease loop by (auto simp: try_member_def Let_def upt_conv_Cons simp del: upt_Suc)
  ultimately show ?thesis by auto
qed

lemma preview_members_predict:
  assumes "preview_members caught E (pr_service run) (pr_now run) name ts ms = Result r"
    and "\<forall>m \<in> set ms. \<exists>r. pe_resolve E name m = Inr r" and "0 \<le> pr_now run"
    and "try_members E name pool ms run = (x, run')"
  shows "\<exists>m c cs. pr_calls run' = pr_calls run @ (m, 0, r, c) # cs"
  using assms
proof (induction ms arbitrary: ts)
  case (Cons m ms)
  let ?st = "dict_get (ps_states (pr_service run)) (pool_key name m)"
  show ?case
  proof (cases "\<exists>st. ?st = Some st \<and> unavailable (pr_now run) st")
    case True
    then show ?thesis
      using Cons.IH Cons.prems try_unavailable [of run name m _ E pool] by (auto split: if_splits)
  next
    case False
    then have open_state: "case ?st of None \<Rightarrow> True | Some st \<Rightarrow> \<not> unavailable (pr_now run) st"
      by (auto split: option.split)
    show ?thesis
    proof (cases "pe_enabled E m")
      case disabled: False
      then have "try_member E name pool m run = (Next_member, run)"
        by (simp add: try_member_def)
      then show ?thesis
        using Cons.IH Cons.prems open_state disabled by (auto split: option.splits)
    next
      case enabled: True
      obtain q where q: "pe_resolve E name m = Inr q" using Cons.prems(2) by auto
      then have "q = r" using Cons.prems(1) open_state enabled by (auto split: option.splits)
      obtain y run1 where first: "try_member E name pool m run = (y, run1)" by fastforce
      obtain c cs where cs: "pr_calls run1 = pr_calls run @ (m, 0, r, c) # cs"
        using try_available_calls [OF enabled q Cons.prems(3) open_state first] \<open>q = r\<close> by auto
      have "\<exists>ds. pr_calls run' = pr_calls run1 @ ds"
        using Cons.prems(4) first
        by (cases y) (auto dest: try_members_calls)
      then show ?thesis using cs by auto
    qed
  qed
qed simp

text \<open>
  The model that \<open>preview\<close> names is the one an execution started at that moment calls first,
  when the members' clients can be built. (A member whose client cannot be built is skipped by
  \<open>preview\<close>, but ends an \<open>execute\<close> unless the exception classifies as an outage.)
\<close>

theorem preview_predicts_first_call:
  assumes "preview caught E cfg (pr_service run) (pr_now run) name = (Result r, s)"
    and "\<forall>m. \<exists>r. pe_resolve E name m = Inr r" and "0 \<le> pr_now run"
    and "execute E cfg name run = (res, run')"
  shows "\<exists>m c cs. pr_calls run' = pr_calls run @ (m, 0, r, c) # cs"
proof -
  obtain pool where pool: "get_pool cfg (pr_service run) name = Inr (pool, s)"
      and pv: "preview_members caught E s (pr_now run) name [] (pc_members pool) = Result r"
    using assms(1) by (auto simp: preview_def split: sum.splits)
  obtain x run1 where loop: "try_members E name pool (pc_members pool) (run\<lparr>pr_service := s\<rparr>) = (x, run1)"
    by fastforce
  have "run' = run1" using assms(4) pool loop by (simp add: execute_def)
  moreover have "\<exists>m c cs. pr_calls run1 = pr_calls (run\<lparr>pr_service := s\<rparr>) @ (m, 0, r, c) # cs"
    by (rule preview_members_predict [OF _ _ _ loop]) (use pv assms(2,3) in auto)
  ultimately show ?thesis by simp
qed

theorem preview_predicts_first_call_witness:
  "\<exists>m c cs. pr_calls (snd (execute demo_env demo_settings ''small'' demo_run))
     = pr_calls demo_run @ (m, 0, ''first'', c) # cs"
proof -
  have "fst (preview (\<lambda>e. True) demo_env demo_settings (pr_service demo_run) (pr_now demo_run) ''small'')
      = Result ''first''"
    by code_simp
  then have "preview (\<lambda>e. True) demo_env demo_settings (pr_service demo_run) (pr_now demo_run) ''small''
      = (Result ''first'', snd (preview (\<lambda>e. True) demo_env demo_settings (pr_service demo_run) (pr_now demo_run) ''small''))"
    by (metis prod.collapse)
  moreover have "pe_resolve demo_env ''small'' m = Inr (pm_model m)" for m
    by (simp add: demo_env_def)
  then have "\<forall>m. \<exists>r. pe_resolve demo_env ''small'' m = Inr r"
    by blast
  moreover have "0 \<le> pr_now demo_run"
    by (simp add: demo_run_def)
  ultimately show ?thesis
    by (rule preview_predicts_first_call) (rule prod.collapse [symmetric])
qed

section \<open>Interleaved calls\<close>

text \<open>
  Several executions at once, seen at their locked updates: a call is in flight with its lease from
  \<open>lease_member\<close> until it succeeds, fails or is abandoned (cancelled, or an exception that is no
  outage), each of which ends in the \<open>finally\<close> block. In between it may call the member again
  (\<open>retry_call\<close>), which looks at no shared state and changes none. An edit of a pool or its providers resets it.
\<close>

record pool_system =
  sy_service :: pool_service
  sy_now :: rat
  sy_flights :: "(pool_id \<times> lease) list"

inductive pool_step :: "pool_system \<Rightarrow> pool_system \<Rightarrow> bool" where
  begin_call: "lease_member (sy_service g) (sy_now g) key = (Some l, s)
    \<Longrightarrow> pool_step g (g\<lparr>sy_service := s, sy_flights := (key, l) # sy_flights g\<rparr>)"
| skip_member: "lease_member (sy_service g) (sy_now g) key = (None, s) \<Longrightarrow> pool_step g (g\<lparr>sy_service := s\<rparr>)"
| succeed: "(key, l) \<in> set (sy_flights g)
    \<Longrightarrow> pool_step g (g\<lparr>sy_service := release_probe key l (settle_success key l (sy_service g)),
                       sy_flights := remove1 (key, l) (sy_flights g)\<rparr>)"
| fail_call: "(key, l) \<in> set (sy_flights g)
    \<Longrightarrow> pool_step g (g\<lparr>sy_service := release_probe key l (fail_member pool key l f (sy_now g) (sy_service g)),
                       sy_flights := remove1 (key, l) (sy_flights g)\<rparr>)"
| abandon: "(key, l) \<in> set (sy_flights g)
    \<Longrightarrow> pool_step g (g\<lparr>sy_service := release_probe key l (sy_service g),
                       sy_flights := remove1 (key, l) (sy_flights g)\<rparr>)"
| retry_call: "(key, l) \<in> set (sy_flights g) \<Longrightarrow> pool_step g g"
| pass_time: "0 \<le> d \<Longrightarrow> pool_step g (g\<lparr>sy_now := sy_now g + d\<rparr>)"

definition start_system :: pool_system where
  "start_system = \<lparr>sy_service = fresh_service, sy_now = 0, sy_flights = []\<rparr>"

inductive pool_reachable :: "pool_system \<Rightarrow> bool" where
  started: "pool_reachable start_system"
| stepped: "pool_reachable g \<Longrightarrow> pool_step g h \<Longrightarrow> pool_reachable h"
| edited: "pool_reachable g \<Longrightarrow> pool_reachable (g\<lparr>sy_service := reset_pool (sy_service g) name\<rparr>)"

text \<open>The states a system goes through before the time \<open>T\<close> while the pool \<open>name\<close> is not edited.\<close>

inductive runs_before :: "string \<Rightarrow> rat \<Rightarrow> pool_system \<Rightarrow> pool_system \<Rightarrow> bool" for name T g where
  here: "runs_before name T g g"
| onward: "runs_before name T g h \<Longrightarrow> sy_now h < T \<Longrightarrow> pool_step h k \<Longrightarrow> runs_before name T g k"
| other_edit: "runs_before name T g h \<Longrightarrow> other \<noteq> name
    \<Longrightarrow> runs_before name T g (h\<lparr>sy_service := reset_pool (sy_service h) other\<rparr>)"

text \<open>The object a lease refers to, and the invariant that ties leases to objects.\<close>

definition system_ok :: "pool_system \<Rightarrow> bool" where
  "system_ok g \<longleftrightarrow>
     (\<forall>key st. dict_get (ps_states (sy_service g)) key = Some st \<longrightarrow> ms_ident st < ps_fresh (sy_service g))
     \<and> (\<forall>(key, l) \<in> set (sy_flights g). ls_ident l < ps_fresh (sy_service g)
          \<and> (\<forall>st. dict_get (ps_states (sy_service g)) key = Some st \<and> ms_ident st = ls_ident l
                 \<longrightarrow> ls_generation l \<le> ms_generation st))"

lemma system_okI:
  assumes "\<And>key st. dict_get (ps_states (sy_service g)) key = Some st \<Longrightarrow> ms_ident st < ps_fresh (sy_service g)"
    and "\<And>key l. (key, l) \<in> set (sy_flights g) \<Longrightarrow> ls_ident l < ps_fresh (sy_service g)"
    and "\<And>key l st. (key, l) \<in> set (sy_flights g) \<Longrightarrow> dict_get (ps_states (sy_service g)) key = Some st
           \<Longrightarrow> ms_ident st = ls_ident l \<Longrightarrow> ls_generation l \<le> ms_generation st"
  shows "system_ok g"
  using assms unfolding system_ok_def by blast

lemma system_okD:
  assumes "system_ok g"
  shows "dict_get (ps_states (sy_service g)) key = Some st \<Longrightarrow> ms_ident st < ps_fresh (sy_service g)"
    and "(key, l) \<in> set (sy_flights g) \<Longrightarrow> ls_ident l < ps_fresh (sy_service g)"
    and "(key, l) \<in> set (sy_flights g) \<Longrightarrow> dict_get (ps_states (sy_service g)) key = Some st
           \<Longrightarrow> ms_ident st = ls_ident l \<Longrightarrow> ls_generation l \<le> ms_generation st"
  using assms unfolding system_ok_def by blast+

text \<open>Every update behind the identity test keeps identities and does not lower generations.\<close>

definition grows :: "(member_state \<Rightarrow> member_state) \<Rightarrow> bool" where
  "grows f \<longleftrightarrow> (\<forall>st. ms_ident (f st) = ms_ident st \<and> ms_generation st \<le> ms_generation (f st))"

lemma if_current_get:
  "dict_get (ps_states (if_current key l f s)) k =
     (case dict_get (ps_states s) k of
        Some st \<Rightarrow> Some (if k = key \<and> ms_ident st = ls_ident l then f st else st) | None \<Rightarrow> None)"
  by (auto simp: if_current_def dict_simps split: option.split)

lemma if_current_fresh [simp]: "ps_fresh (if_current key l f s) = ps_fresh s"
  by (auto simp: if_current_def split: option.split)

lemma if_current_ok:
  assumes "system_ok g" and "grows f" and "set fl \<subseteq> set (sy_flights g)"
  shows "system_ok (g\<lparr>sy_service := if_current key l f (sy_service g), sy_flights := fl\<rparr>)"
proof -
  have f: "ms_ident (f st) = ms_ident st" "ms_generation st \<le> ms_generation (f st)" for st
    using assms(2) by (auto simp: grows_def)
  show ?thesis
  proof (rule system_okI)
    fix k st
    assume "dict_get (ps_states (sy_service (g\<lparr>sy_service := if_current key l f (sy_service g), sy_flights := fl\<rparr>))) k = Some st"
    then show "ms_ident st < ps_fresh (sy_service (g\<lparr>sy_service := if_current key l f (sy_service g), sy_flights := fl\<rparr>))"
      by (auto simp: if_current_get f(1) split: option.splits if_splits
               dest: system_okD(1) [OF assms(1)])
  next
    fix k m
    assume "(k, m) \<in> set (sy_flights (g\<lparr>sy_service := if_current key l f (sy_service g), sy_flights := fl\<rparr>))"
    then show "ls_ident m < ps_fresh (sy_service (g\<lparr>sy_service := if_current key l f (sy_service g), sy_flights := fl\<rparr>))"
      using system_okD(2) [OF assms(1), of k m] assms(3) by auto
  next
    fix k m st
    assume "(k, m) \<in> set (sy_flights (g\<lparr>sy_service := if_current key l f (sy_service g), sy_flights := fl\<rparr>))"
      and "dict_get (ps_states (sy_service (g\<lparr>sy_service := if_current key l f (sy_service g), sy_flights := fl\<rparr>))) k = Some st"
      and "ms_ident st = ls_ident m"
    then obtain st0 where "(k, m) \<in> set (sy_flights g)" "dict_get (ps_states (sy_service g)) k = Some st0"
        "ms_ident st0 = ls_ident m" "ms_generation st0 \<le> ms_generation st"
      using assms(3) f by (auto simp: if_current_get split: option.splits if_splits)
    then show "ls_generation m \<le> ms_generation st"
      using system_okD(3) [OF assms(1)] le_trans by blast
  qed
qed

lemma grows_updates:
  "grows (\<lambda>st. if ms_generation st = n then st\<lparr>ms_retry_at := 0, ms_error_code := None\<rparr> else st)"
  "grows (\<lambda>st. st\<lparr>ms_probing := False\<rparr>)"
  "grows (\<lambda>st. st\<lparr>ms_retry_at := max (ms_retry_at st) t, ms_error_code := c, ms_generation := Suc (ms_generation st)\<rparr>)"
  by (auto simp: grows_def)

lemma lease_member_Some:
  assumes "lease_member s now key = (Some l, s')"
  obtains st where "dict_get (ps_states s') key = Some st" "ms_ident st = ls_ident l"
    "ms_generation st = ls_generation l" "\<forall>k. k \<noteq> key \<longrightarrow> dict_get (ps_states s') k = dict_get (ps_states s) k"
    "\<forall>st0. dict_get (ps_states s) key = Some st0 \<longrightarrow> ms_ident st = ms_ident st0 \<and> ms_generation st = ms_generation st0
       \<and> \<not> unavailable now st0 \<and> ps_fresh s' = ps_fresh s"
    "dict_get (ps_states s) key = None \<longrightarrow> ms_ident st = ps_fresh s \<and> ps_fresh s' = Suc (ps_fresh s)"
  using assms
  by (cases "dict_get (ps_states s) key")
     (auto simp: lease_member_def new_member_state_def Let_def dict_simps split: if_splits)

lemma lease_member_other:
  "lease_member s now key = (x, s') \<Longrightarrow> k \<noteq> key \<Longrightarrow> dict_get (ps_states s') k = dict_get (ps_states s) k"
  by (auto simp: lease_member_def Let_def dict_simps split: option.splits if_splits)

lemma lease_member_None:
  assumes "lease_member s now key = (None, s')"
  shows "(s' = s \<and> dict_get (ps_states s) key \<noteq> None)
     \<or> (dict_get (ps_states s) key = None \<and> ps_fresh s' = Suc (ps_fresh s)
         \<and> ps_states s' = dict_set key (new_member_state (ps_fresh s)) (ps_states s))"
  using assms by (auto simp: lease_member_def Let_def split: option.splits if_splits)

lemma begin_ok:
  assumes ok: "system_ok g" and lease: "lease_member (sy_service g) (sy_now g) key = (Some l, s)"
  shows "system_ok (g\<lparr>sy_service := s, sy_flights := (key, l) # sy_flights g\<rparr>)"
proof -
  obtain st where st: "dict_get (ps_states s) key = Some st" "ms_ident st = ls_ident l"
      "ms_generation st = ls_generation l"
      and o: "\<forall>k. k \<noteq> key \<longrightarrow> dict_get (ps_states s) k = dict_get (ps_states (sy_service g)) k"
      "\<forall>st0. dict_get (ps_states (sy_service g)) key = Some st0 \<longrightarrow> ms_ident st = ms_ident st0
        \<and> ms_generation st = ms_generation st0 \<and> \<not> unavailable (sy_now g) st0 \<and> ps_fresh s = ps_fresh (sy_service g)"
      "dict_get (ps_states (sy_service g)) key = None
        \<longrightarrow> ms_ident st = ps_fresh (sy_service g) \<and> ps_fresh s = Suc (ps_fresh (sy_service g))"
    by (rule lease_member_Some [OF lease])
  note other = o(1) [rule_format] and old = o(2) [rule_format] and fresh = o(3) [rule_format]
  have le: "ps_fresh (sy_service g) \<le> ps_fresh s"
    using old fresh by (cases "dict_get (ps_states (sy_service g)) key") auto
  have id: "ms_ident st < ps_fresh s"
    using old fresh system_okD(1) [OF ok, of key] by (cases "dict_get (ps_states (sy_service g)) key") auto
  show ?thesis
  proof (rule system_okI)
    fix k st' assume "dict_get (ps_states (sy_service (g\<lparr>sy_service := s, sy_flights := (key, l) # sy_flights g\<rparr>))) k = Some st'"
    then show "ms_ident st' < ps_fresh (sy_service (g\<lparr>sy_service := s, sy_flights := (key, l) # sy_flights g\<rparr>))"
      using id st(1) other [of k] system_okD(1) [OF ok, of k st'] le by (cases "k = key") auto
  next
    fix k m assume "(k, m) \<in> set (sy_flights (g\<lparr>sy_service := s, sy_flights := (key, l) # sy_flights g\<rparr>))"
    then show "ls_ident m < ps_fresh (sy_service (g\<lparr>sy_service := s, sy_flights := (key, l) # sy_flights g\<rparr>))"
      using id st(2) le system_okD(2) [OF ok, of k m] by auto
  next
    fix k m st'
    assume m: "(k, m) \<in> set (sy_flights (g\<lparr>sy_service := s, sy_flights := (key, l) # sy_flights g\<rparr>))"
      and get: "dict_get (ps_states (sy_service (g\<lparr>sy_service := s, sy_flights := (key, l) # sy_flights g\<rparr>))) k = Some st'"
      and id': "ms_ident st' = ls_ident m"
    show "ls_generation m \<le> ms_generation st'"
    proof (cases "k = key")
      case False
      then show ?thesis using m get id' other [of k] system_okD(3) [OF ok, of k m st'] by auto
    next
      case True
      then have "st' = st" using get st(1) by simp
      show ?thesis
      proof (cases "m = l")
        case True
        then show ?thesis using \<open>st' = st\<close> st(3) by simp
      next
        case False
        then have fl: "(k, m) \<in> set (sy_flights g)" using m True by simp
        show ?thesis
        proof (cases "dict_get (ps_states (sy_service g)) key")
          case None
          then show ?thesis using fresh system_okD(2) [OF ok fl] id' \<open>st' = st\<close> by simp
        next
          case (Some st0)
          then show ?thesis
            using old [OF Some] system_okD(3) [OF ok fl, of st0] id' \<open>st' = st\<close> \<open>k = key\<close> by simp
        qed
      qed
    qed
  qed
qed

lemma skip_ok:
  assumes ok: "system_ok g" and skip: "lease_member (sy_service g) (sy_now g) key = (None, s)"
  shows "system_ok (g\<lparr>sy_service := s\<rparr>)"
  using lease_member_None [OF skip]
proof
  assume "s = sy_service g \<and> dict_get (ps_states (sy_service g)) key \<noteq> None"
  then show ?thesis using ok by simp
next
  assume new: "dict_get (ps_states (sy_service g)) key = None \<and> ps_fresh s = Suc (ps_fresh (sy_service g))
    \<and> ps_states s = dict_set key (new_member_state (ps_fresh (sy_service g))) (ps_states (sy_service g))"
  show ?thesis
  proof (rule system_okI)
    fix k st assume "dict_get (ps_states (sy_service (g\<lparr>sy_service := s\<rparr>))) k = Some st"
    then show "ms_ident st < ps_fresh (sy_service (g\<lparr>sy_service := s\<rparr>))"
      using new system_okD(1) [OF ok, of k st]
      by (auto simp: dict_simps new_member_state_def split: if_splits)
  next
    fix k m assume "(k, m) \<in> set (sy_flights (g\<lparr>sy_service := s\<rparr>))"
    then show "ls_ident m < ps_fresh (sy_service (g\<lparr>sy_service := s\<rparr>))"
      using new system_okD(2) [OF ok, of k m] by simp
  next
    fix k m st
    assume "(k, m) \<in> set (sy_flights (g\<lparr>sy_service := s\<rparr>))"
      and "dict_get (ps_states (sy_service (g\<lparr>sy_service := s\<rparr>))) k = Some st" and "ms_ident st = ls_ident m"
    then show "ls_generation m \<le> ms_generation st"
      using new system_okD(2) [OF ok, of k m] system_okD(3) [OF ok, of k m st]
      by (auto simp: dict_simps new_member_state_def split: if_splits)
  qed
qed

lemma edit_get:
  "dict_get (ps_states (reset_pool s name)) k = (if fst k = name then None else dict_get (ps_states s) k)"
  by (simp add: reset_pool_def dict_get_filter)

lemma edit_ok: "system_ok g \<Longrightarrow> system_ok (g\<lparr>sy_service := reset_pool (sy_service g) name\<rparr>)"
  by (rule system_okI)
     (auto simp: edit_get reset_pool_def [of "sy_service g", THEN arg_cong [where f = ps_fresh]]
        split: if_splits dest: system_okD)

lemma two_updates_ok:
  assumes "system_ok g" and "grows f" and "grows f'" and "set fl \<subseteq> set (sy_flights g)"
  shows "system_ok (g\<lparr>sy_service := if_current key l f' (if_current key l f (sy_service g)), sy_flights := fl\<rparr>)"
  using if_current_ok [OF if_current_ok [OF assms(1,2) subset_refl] assms(3), of fl] assms(4) by simp

lemma pool_step_ok: "pool_step g h \<Longrightarrow> system_ok g \<Longrightarrow> system_ok h"
proof (induction rule: pool_step.induct)
  case (begin_call g key l s)
  show ?case by (rule begin_ok [OF begin_call.prems begin_call.hyps])
next
  case (skip_member g key s)
  show ?case by (rule skip_ok [OF skip_member.prems skip_member.hyps])
next
  case (succeed key l g)
  show ?case unfolding release_probe_def settle_success_def
    by (rule two_updates_ok [OF succeed.prems grows_updates(1,2) set_remove1_subset])
next
  case (fail_call key l g pool f)
  show ?case unfolding release_probe_def fail_member_def
    by (rule two_updates_ok [OF fail_call.prems grows_updates(3,2) set_remove1_subset])
next
  case (abandon key l g)
  show ?case unfolding release_probe_def
    by (rule if_current_ok [OF abandon.prems grows_updates(2) set_remove1_subset])
next
  case (retry_call key l g)
  then show ?case by simp
next
  case (pass_time d g)
  then show ?case by (simp add: system_ok_def)
qed

lemma reachable_ok: "pool_reachable g \<Longrightarrow> system_ok g"
proof (induction rule: pool_reachable.induct)
  case started
  show ?case by (simp add: system_ok_def start_system_def fresh_service_def)
qed (blast intro: pool_step_ok edit_ok)+

section \<open>A failed member stays closed\<close>

text \<open>The member is closed until \<open>T\<close>, and no call in flight is entitled to clear its failure.\<close>

definition closed_until :: "rat \<Rightarrow> pool_id \<Rightarrow> pool_system \<Rightarrow> bool" where
  "closed_until T key g \<longleftrightarrow>
     (\<exists>st. dict_get (ps_states (sy_service g)) key = Some st \<and> T \<le> ms_retry_at st
        \<and> (\<forall>l. (key, l) \<in> set (sy_flights g) \<and> ls_ident l = ms_ident st \<longrightarrow> ls_generation l < ms_generation st))"

lemma closed_untilI:
  assumes "dict_get (ps_states (sy_service g)) key = Some st" and "T \<le> ms_retry_at st"
    and "\<And>l. (key, l) \<in> set (sy_flights g) \<Longrightarrow> ls_ident l = ms_ident st \<Longrightarrow> ls_generation l < ms_generation st"
  shows "closed_until T key g"
  using assms unfolding closed_until_def by blast

text \<open>An update that keeps a closed member closed.\<close>

lemma closed_update:
  assumes "closed_until T key g" and "set fl \<subseteq> set (sy_flights g)"
    and "\<And>st. dict_get (ps_states (sy_service g)) key = Some st \<Longrightarrow>
      \<exists>st'. dict_get (ps_states s) key = Some st' \<and> ms_ident st' = ms_ident st
        \<and> ms_generation st \<le> ms_generation st'
        \<and> (ms_retry_at st \<le> ms_retry_at st'
            \<or> (\<exists>l. (key, l) \<in> set (sy_flights g) \<and> ls_ident l = ms_ident st \<and> ls_generation l = ms_generation st))"
  shows "closed_until T key (g\<lparr>sy_service := s, sy_flights := fl\<rparr>)"
proof -
  obtain st where st: "dict_get (ps_states (sy_service g)) key = Some st" "T \<le> ms_retry_at st"
      and old: "\<forall>l. (key, l) \<in> set (sy_flights g) \<and> ls_ident l = ms_ident st \<longrightarrow> ls_generation l < ms_generation st"
    using assms(1) unfolding closed_until_def by blast
  obtain st' where st': "dict_get (ps_states s) key = Some st'" "ms_ident st' = ms_ident st"
      "ms_generation st \<le> ms_generation st'" "ms_retry_at st \<le> ms_retry_at st'"
    using assms(3) [OF st(1)] old by auto
  show ?thesis
  proof (rule closed_untilI)
    fix l assume "(key, l) \<in> set (sy_flights (g\<lparr>sy_service := s, sy_flights := fl\<rparr>))" "ls_ident l = ms_ident st'"
    then have "ls_generation l < ms_generation st" using assms(2) old st'(2) by auto
    then show "ls_generation l < ms_generation st'" using st'(3) by simp
  qed (use st st' in auto)
qed

lemma closed_step:
  assumes "pool_step g h" and "closed_until T key g" and "sy_now g < T"
  shows "closed_until T key h"
proof -
  obtain st where st: "dict_get (ps_states (sy_service g)) key = Some st" "T \<le> ms_retry_at st"
      "\<And>l. (key, l) \<in> set (sy_flights g) \<Longrightarrow> ls_ident l = ms_ident st \<Longrightarrow> ls_generation l < ms_generation st"
    using assms(2) unfolding closed_until_def by blast
  have busy: "unavailable (sy_now g) st" using st(2) assms(3) by (simp add: unavailable_def)
  show ?thesis
    using assms(1)
  proof cases
    case (begin_call k l s)
    have "\<not> unavailable (sy_now g) st0" if "dict_get (ps_states (sy_service g)) k = Some st0" for st0
      using begin_call(2) that by (rule_tac lease_member_Some) auto
    moreover have "dict_get (ps_states s) k' = dict_get (ps_states (sy_service g)) k'" if "k' \<noteq> k" for k'
      by (rule lease_member_other [OF begin_call(2) that])
    ultimately have o: "\<And>st0. dict_get (ps_states (sy_service g)) k = Some st0 \<Longrightarrow> \<not> unavailable (sy_now g) st0"
      "\<And>k'. k' \<noteq> k \<Longrightarrow> dict_get (ps_states s) k' = dict_get (ps_states (sy_service g)) k'" by blast+
    have "k \<noteq> key" using o(1) st(1) busy by auto
    then show ?thesis unfolding begin_call(1)
      using o(2) [of key] st by (intro closed_untilI [of _ _ st]) auto
  next
    case (skip_member k s)
    then have "dict_get (ps_states s) key = Some st"
      using lease_member_None [OF skip_member(2)] st(1) by (auto simp: dict_simps)
    then show ?thesis unfolding skip_member(1) using st by (intro closed_untilI [of _ _ st]) auto
  next
    case (succeed k l)
    show ?thesis unfolding succeed(1)
      by (rule closed_update [OF assms(2) set_remove1_subset])
         (use succeed(2) in \<open>auto simp: release_probe_def settle_success_def if_current_get\<close>)
  next
    case (fail_call k l pool f)
    show ?thesis unfolding fail_call(1)
      by (rule closed_update [OF assms(2) set_remove1_subset])
         (auto simp: release_probe_def fail_member_def if_current_get)
  next
    case (abandon k l)
    show ?thesis unfolding abandon(1)
      by (rule closed_update [OF assms(2) set_remove1_subset])
         (auto simp: release_probe_def if_current_get)
  next
    case (retry_call k l)
    then show ?thesis using assms(2) by simp
  next
    case (pass_time d)
    then show ?thesis using assms(2) by (simp add: closed_until_def)
  qed
qed

lemma closed_runs:
  assumes "runs_before (fst key) T g h" and "closed_until T key g"
  shows "closed_until T key h"
  using assms
proof (induction rule: runs_before.induct)
  case (onward h k)
  then show ?case using closed_step by blast
next
  case (other_edit h other)
  then show ?case by (auto simp: closed_until_def edit_get)
qed

lemma closed_no_lease:
  assumes "closed_until T key h" and "sy_now h < T"
  shows "lease_member (sy_service h) (sy_now h) key = (None, sy_service h)"
  using assms by (auto simp: closed_until_def lease_member_def unavailable_def)

text \<open>What a failed call in flight leaves behind.\<close>

abbreviation failed_call :: "pool_config \<Rightarrow> pool_id \<Rightarrow> lease \<Rightarrow> pool_failure \<Rightarrow> pool_system \<Rightarrow> pool_system" where
  "failed_call pool key l f g \<equiv>
     g\<lparr>sy_service := release_probe key l (fail_member pool key l f (sy_now g) (sy_service g)),
       sy_flights := remove1 (key, l) (sy_flights g)\<rparr>"

definition cooldown_end :: "pool_config \<Rightarrow> pool_failure \<Rightarrow> rat \<Rightarrow> rat" where
  "cooldown_end pool f now = now + min (fail_cooldown pool f) (253402300799 - now)"

lemma failed_call_closes:
  assumes "system_ok g" and "(key, l) \<in> set (sy_flights g)"
    and "dict_get (ps_states (sy_service g)) key = Some st" and "ms_ident st = ls_ident l"
  shows "closed_until (cooldown_end pool f (sy_now g)) key (failed_call pool key l f g)"
proof (rule closed_untilI)
  show "dict_get (ps_states (sy_service (failed_call pool key l f g))) key = Some (st\<lparr>
      ms_retry_at := max (ms_retry_at st) (cooldown_end pool f (sy_now g)), ms_error_code := Some (pf_code f),
      ms_generation := Suc (ms_generation st), ms_probing := False\<rparr>)"
    using assms(3,4) by (simp add: release_probe_def fail_member_def if_current_get cooldown_end_def)
  fix m assume "(key, m) \<in> set (sy_flights (failed_call pool key l f g))"
    and "ls_ident m = ms_ident (st\<lparr>ms_retry_at := max (ms_retry_at st) (cooldown_end pool f (sy_now g)),
      ms_error_code := Some (pf_code f), ms_generation := Suc (ms_generation st), ms_probing := False\<rparr>)"
  then have "(key, m) \<in> set (sy_flights g)" "ms_ident st = ls_ident m"
    using notin_set_remove1 [of "(key, m)" "sy_flights g" "(key, l)"] by auto
  then show "ls_generation m < ms_generation (st\<lparr>ms_retry_at := max (ms_retry_at st) (cooldown_end pool f (sy_now g)),
      ms_error_code := Some (pf_code f), ms_generation := Suc (ms_generation st), ms_probing := False\<rparr>)"
    using system_okD(3) [OF assms(1) _ assms(3)] by (simp add: le_imp_less_Suc)
qed simp

lemma count_remove1: "count_list (remove1 x xs) y \<le> count_list xs y"
  by (induction xs) auto

lemma flights_step:
  assumes "pool_step g h" and "closed_until T key g" and "sy_now g < T"
  shows "count_list (sy_flights h) (key, m) \<le> count_list (sy_flights g) (key, m)"
  using assms(1)
proof cases
  case (begin_call k l s)
  have "k \<noteq> key" using begin_call(2) closed_no_lease [OF assms(2,3)] by auto
  then show ?thesis by (simp add: begin_call(1))
qed (simp_all add: count_remove1)

lemma flights_runs:
  assumes "runs_before (fst key) T g h" and "closed_until T key g"
  shows "count_list (sy_flights h) (key, m) \<le> count_list (sy_flights g) (key, m)"
  using assms
proof (induction rule: runs_before.induct)
  case (onward h k)
  then show ?case using flights_step [OF onward(3) closed_runs [OF onward(1)] onward(2), of m] by simp
qed simp_all

text \<open>
  C3: once a call to a member has failed with an outage, no execution takes the member up until the
  cooldown is over (the provider's own delay, else the pool's cooldown, up to the end of the
  calendar), as long as the pool is not edited: a success, failure or cancellation of executions that had
  it before, or any other traffic, does not open it early. The executions that hold it meanwhile, and
  so may still retry their calls, are among those that held it when the call failed.
\<close>

theorem failed_member_stays_closed:
  assumes "pool_reachable g" and "(key, l) \<in> set (sy_flights g)"
    and "dict_get (ps_states (sy_service g)) key = Some st" and "ms_ident st = ls_ident l"
    and "runs_before (fst key) (cooldown_end pool f (sy_now g)) (failed_call pool key l f g) h"
    and "sy_now h < cooldown_end pool f (sy_now g)"
  shows "fst (lease_member (sy_service h) (sy_now h) key) = None
    \<and> (\<forall>m. count_list (sy_flights h) (key, m) \<le> count_list (remove1 (key, l) (sy_flights g)) (key, m))"
proof -
  have closed: "closed_until (cooldown_end pool f (sy_now g)) key (failed_call pool key l f g)"
    by (rule failed_call_closes [OF reachable_ok [OF assms(1)] assms(2-4)])
  have "closed_until (cooldown_end pool f (sy_now g)) key h"
    by (rule closed_runs [OF assms(5) closed])
  then show ?thesis
    using closed_no_lease [OF _ assms(6)] flights_runs [OF assms(5) closed] by simp
qed

section \<open>Recovery probes\<close>

abbreviation demo_key :: pool_id where
  "demo_key \<equiv> (''small'', ''a'', ''first'')"

definition demo_state :: "nat \<Rightarrow> rat \<Rightarrow> bool \<Rightarrow> string option \<Rightarrow> pool_service" where
  "demo_state gen t probing code = \<lparr>ps_states = [(demo_key, \<lparr>ms_ident = 0, ms_retry_at = t, ms_probing = probing,
     ms_error_code = code, ms_generation = gen\<rparr>)], ps_fingerprints = [], ps_fresh = 1\<rparr>"

definition healthy :: lease where
  "healthy = \<lparr>ls_ident = 0, ls_generation = 0, ls_recovering = False\<rparr>"

definition probe :: lease where
  "probe = \<lparr>ls_ident = 0, ls_generation = 1, ls_recovering = True\<rparr>"

definition demo_system :: "pool_service \<Rightarrow> rat \<Rightarrow> lease list \<Rightarrow> pool_system" where
  "demo_system s t ls = \<lparr>sy_service = s, sy_now = t, sy_flights = map (Pair demo_key) ls\<rparr>"

lemmas demo_system_defs = demo_state_def healthy_def probe_def demo_system_def

lemma demo_lease_new: "lease_member fresh_service 0 demo_key = (Some healthy, demo_state 0 0 False None)"
  by (simp add: lease_member_def fresh_service_def new_member_state_def unavailable_def demo_state_def healthy_def Let_def)

lemma demo_lease_more: "lease_member (demo_state 0 0 False None) 0 demo_key = (Some healthy, demo_state 0 0 False None)"
  by (simp add: lease_member_def unavailable_def demo_state_def healthy_def)

lemma demo_lease_probe:
  "lease_member (demo_state 1 60 False (Some ''rate_limit'')) 61 demo_key
     = (Some probe, demo_state 1 60 True (Some ''rate_limit''))"
  by (simp add: lease_member_def unavailable_def demo_state_def probe_def)

lemma demo_two_healthy: "pool_reachable (demo_system (demo_state 0 0 False None) 0 [healthy, healthy])"
proof -
  have start: "pool_reachable (demo_system fresh_service 0 [])"
    using pool_reachable.started by (simp add: start_system_def demo_system_def)
  have one: "pool_step (demo_system fresh_service 0 []) (demo_system (demo_state 0 0 False None) 0 [healthy])"
    using pool_step.begin_call [of "demo_system fresh_service 0 []" demo_key] demo_lease_new
    by (simp add: demo_system_def)
  have two: "pool_step (demo_system (demo_state 0 0 False None) 0 [healthy])
      (demo_system (demo_state 0 0 False None) 0 [healthy, healthy])"
    using pool_step.begin_call [of "demo_system (demo_state 0 0 False None) 0 [healthy]" demo_key] demo_lease_more
    by (simp add: demo_system_def)
  show ?thesis
    by (rule pool_reachable.stepped [OF pool_reachable.stepped [OF start one] two])
qed

lemma demo_failed:
  "failed_call demo_pool demo_key healthy rate_limited (demo_system (demo_state 0 0 False None) 0 [healthy, healthy])
     = demo_system (demo_state 1 60 False (Some ''rate_limit'')) 0 [healthy]"
  by (simp add: demo_system_defs fail_member_def release_probe_def if_current_def fail_cooldown_def
      rate_limited_def demo_pool_def)

theorem failed_member_stays_closed_witness:
  "fst (lease_member (demo_state 1 60 False (Some ''rate_limit'')) 0 demo_key) = None"
proof -
  let ?g = "demo_system (demo_state 0 0 False None) 0 [healthy, healthy]"
  let ?st = "\<lparr>ms_ident = 0, ms_retry_at = 0, ms_probing = False, ms_error_code = None, ms_generation = 0\<rparr>"
  have "fst (lease_member (sy_service (failed_call demo_pool demo_key healthy rate_limited ?g))
      (sy_now (failed_call demo_pool demo_key healthy rate_limited ?g)) demo_key) = None
    \<and> (\<forall>m. count_list (sy_flights (failed_call demo_pool demo_key healthy rate_limited ?g)) (demo_key, m)
        \<le> count_list (remove1 (demo_key, healthy) (sy_flights ?g)) (demo_key, m))"
  proof (rule failed_member_stays_closed [OF demo_two_healthy])
    show "(demo_key, healthy) \<in> set (sy_flights ?g)" by (simp add: demo_system_def)
    show "dict_get (ps_states (sy_service ?g)) demo_key = Some ?st"
      by (simp add: demo_system_def demo_state_def)
    show "ms_ident ?st = ls_ident healthy" by (simp add: healthy_def)
    show "runs_before (fst demo_key) (cooldown_end demo_pool rate_limited (sy_now ?g))
        (failed_call demo_pool demo_key healthy rate_limited ?g)
        (failed_call demo_pool demo_key healthy rate_limited ?g)"
      by (rule runs_before.here)
    show "sy_now (failed_call demo_pool demo_key healthy rate_limited ?g)
        < cooldown_end demo_pool rate_limited (sy_now ?g)"
      by (simp add: cooldown_end_def demo_system_def fail_cooldown_def rate_limited_def demo_pool_def)
  qed
  then show ?thesis unfolding demo_failed by (simp add: demo_system_def)
qed

text \<open>
  The comment "an expired cooldown grants one probe" does not hold. A healthy call that was in
  flight when the member failed clears \<open>probing\<close> in its \<open>finally\<close> block, although the probe of
  another call is still running, and the next call is granted a second probe of the same state.
\<close>

theorem second_probe_granted:
  "\<exists>g. pool_reachable g \<and> sy_flights g = [(demo_key, probe), (demo_key, probe)] \<and> ls_recovering probe"
proof -
  let ?err = "Some ''rate_limit''"
  have failed: "pool_reachable (demo_system (demo_state 1 60 False ?err) 0 [healthy])"
    using pool_reachable.stepped [OF demo_two_healthy
        pool_step.fail_call [of demo_key healthy _ demo_pool rate_limited]] demo_failed
    by (simp add: demo_system_def)
  have late: "pool_step (demo_system (demo_state 1 60 False ?err) 0 [healthy])
      (demo_system (demo_state 1 60 False ?err) 61 [healthy])"
    using pool_step.pass_time [of 61 "demo_system (demo_state 1 60 False ?err) 0 [healthy]"]
    by (simp add: demo_system_def)
  have first: "pool_step (demo_system (demo_state 1 60 False ?err) 61 [healthy])
      (demo_system (demo_state 1 60 True ?err) 61 [probe, healthy])"
    using pool_step.begin_call [of "demo_system (demo_state 1 60 False ?err) 61 [healthy]" demo_key] demo_lease_probe
    by (simp add: demo_system_def)
  have cleared: "pool_step (demo_system (demo_state 1 60 True ?err) 61 [probe, healthy])
      (demo_system (demo_state 1 60 False ?err) 61 [probe])"
    using pool_step.succeed [of demo_key healthy "demo_system (demo_state 1 60 True ?err) 61 [probe, healthy]"]
    by (simp add: demo_system_defs release_probe_def settle_success_def if_current_def)
  have second: "pool_step (demo_system (demo_state 1 60 False ?err) 61 [probe])
      (demo_system (demo_state 1 60 True ?err) 61 [probe, probe])"
    using pool_step.begin_call [of "demo_system (demo_state 1 60 False ?err) 61 [probe]" demo_key] demo_lease_probe
    by (simp add: demo_system_def)
  have "pool_reachable (demo_system (demo_state 1 60 True ?err) 61 [probe, probe])"
    by (intro pool_reachable.stepped [OF _ second] pool_reachable.stepped [OF _ cleared]
        pool_reachable.stepped [OF _ first] pool_reachable.stepped [OF failed late])
  then show ?thesis
    by (intro exI [of _ "demo_system (demo_state 1 60 True ?err) 61 [probe, probe]"])
       (simp add: demo_system_def probe_def)
qed

end
