(* ===== verification/Background_Tasks.thy ===== *)
theory Background_Tasks
  imports Active_Sessions
begin

text \<open>
  Model of \<open>agent/modules/agent_runtime/background_tasks.py\<close>: background tasks, their attempts and
  retries, the manager's registry and its event queues.

  A task object is an entry of the manager's dictionary; its \<open>asyncio\<close> task is \<open>bt_async\<close>, with the
  await it is suspended at. One attempt (\<open>_execute_attempt\<close>) is cut at its awaits into
  \<open>begin_attempt\<close>, \<open>enter_run\<close>, \<open>end_run\<close> and \<open>settle_attempt\<close>. What the agent run and the completion hook do
  is a parameter (\<open>run_script\<close>); the repository, the conversation table and the notification
  channel are outside, and writing to them is not recorded. Seconds are exact rationals.
\<close>

definition MAX_COMPLETED_TASKS :: nat where "MAX_COMPLETED_TASKS = 100"
definition MAX_STORED_TEXT_LENGTH :: nat where "MAX_STORED_TEXT_LENGTH = 20000"
definition TASK_EVENT_QUEUE_SIZE :: nat where "TASK_EVENT_QUEUE_SIZE = 100"

section \<open>Tasks\<close>

datatype task_status = PENDING | RUNNING | COMPLETED | FAILED | CANCELLED

fun status_value :: "task_status \<Rightarrow> string" where
  "status_value PENDING = ''pending''"
| "status_value RUNNING = ''running''"
| "status_value COMPLETED = ''completed''"
| "status_value FAILED = ''failed''"
| "status_value CANCELLED = ''cancelled''"

text \<open>\<open>TaskStatus(value)\<close>.\<close>

definition status_of_value :: "string \<Rightarrow> task_status option" where
  "status_of_value s = List.find (\<lambda>st. status_value st = s) [PENDING, RUNNING, COMPLETED, FAILED, CANCELLED]"

record notify_channel =
  nc_platform :: string
  nc_external_id :: string
  nc_channel_id :: string

text \<open>
  Where the coroutine of an attempt is: not yet run, at the first \<open>_persist_task\<close>, in the agent run or
  the completion hook, at the awaits of the \<open>finally\<close> block (with \<open>retrying\<close>), or finished.
\<close>

datatype async_phase = Scheduled | Starting | In_run | Settling bool | Done

record async_task =
  at_phase :: async_phase
  at_cancel :: bool

record background_task =
  bt_task_id :: string
  bt_request :: string
  bt_agent_name :: string
  bt_workspace :: "string option"
  bt_context_compact_threshold :: "int option"
  bt_allowed_tool_names :: "string list option"
  bt_allowed_skill_names :: "string list option"
  bt_provider :: "string option"
  bt_model :: "string option"
  bt_notify_channel :: "notify_channel option"
  bt_completion_hook :: bool
  bt_status :: task_status
  bt_result :: string
  bt_error :: string
  bt_created_at :: rat
  bt_started_at :: "rat option"
  bt_completed_at :: "rat option"
  bt_thread_id :: string
  bt_task_timeout :: "rat option"
  bt_max_retries :: int
  bt_retry_count :: int
  bt_async :: "async_task option"

definition elapsed_seconds :: "rat \<Rightarrow> background_task \<Rightarrow> rat" where
  "elapsed_seconds now t =
     (let end_at = (case bt_completed_at t of Some e \<Rightarrow> e | None \<Rightarrow> now);
          start = (case bt_started_at t of Some s \<Rightarrow> s | None \<Rightarrow> bt_created_at t)
      in if start = 0 then 0 else end_at - start)"

text \<open>\<open>round(x, 1)\<close> on an exact number: to the nearest tenth, a tie to the even one.\<close>

definition round_tenth :: "rat \<Rightarrow> rat" where
  "round_tenth x =
     (let y = 10 * x; f = \<lfloor>y\<rfloor>; d = y - of_int f;
          n = (if d < 1 / 2 then f else if 1 / 2 < d then f + 1 else if even f then f else f + 1)
      in of_int n / 10)"

text \<open>\<open>to_dict\<close>: the task with the derived entries.\<close>

record task_view =
  tv_task :: background_task
  tv_status :: string
  tv_elapsed_seconds :: rat
  tv_elapsed_display :: string

definition task_dict :: "rat \<Rightarrow> background_task \<Rightarrow> task_view" where
  "task_dict now t =
     (let elapsed = elapsed_seconds now t
      in \<lparr>tv_task = t, tv_status = status_value (bt_status t), tv_elapsed_seconds = round_tenth elapsed,
          tv_elapsed_display = format_elapsed elapsed\<rparr>)"

definition truncated_mark :: string where
  "truncated_mark = CHR 0x0A # ''...[truncated]''"

definition truncate_stored_text :: "string \<Rightarrow> string" where
  "truncate_stored_text text =
     (if length text \<le> MAX_STORED_TEXT_LENGTH then text
      else take MAX_STORED_TEXT_LENGTH text @ truncated_mark)"

text \<open>\<open>datetime.fromisoformat(s).timestamp()\<close>, in UTC without an offset, is the parameter \<open>from_iso\<close>.\<close>

fun parse_timestamp :: "(string \<Rightarrow> rat option) \<Rightarrow> pyval \<Rightarrow> rat" where
  "parse_timestamp from_iso PNone = 0"
| "parse_timestamp from_iso (PBool b) = (if b then 1 else 0)"
| "parse_timestamp from_iso (PInt i) = of_int i"
| "parse_timestamp from_iso v = (case from_iso (py_str v) of Some t \<Rightarrow> t | None \<Rightarrow> 0)"

section \<open>The manager\<close>

text \<open>
  An event queue is its content, oldest first, with the identity of the queue; a payload is the event's
  name with the agent's event or the task.
\<close>

datatype task_event =
    Agent_event pyval
  | Error_event "string option" string
  | Task_event background_task
  | Done_event background_task

record task_manager =
  tm_tasks :: "(string, background_task) dict"
  tm_subscribers :: "(string, (nat \<times> task_event list) list) dict"
  tm_next_queue :: nat

definition new_task_manager :: task_manager where
  "new_task_manager = \<lparr>tm_tasks = [], tm_subscribers = [], tm_next_queue = 0\<rparr>"

definition live_status :: "task_status \<Rightarrow> bool" where
  "live_status st = (st = PENDING \<or> st = RUNNING)"

definition trim_completed :: "task_manager \<Rightarrow> task_manager" where
  "trim_completed m =
     (let completed = filter (\<lambda>(i, t). bt_status t = COMPLETED \<or> bt_status t = FAILED \<or> bt_status t = CANCELLED)
            (tm_tasks m)
      in if length completed \<le> MAX_COMPLETED_TASKS then m
         else (let ordered = sort_key (\<lambda>(i, t). case bt_completed_at t of Some c \<Rightarrow> c | None \<Rightarrow> 0) completed;
                   excess = length ordered - MAX_COMPLETED_TASKS
               in m\<lparr>tm_tasks := foldl (\<lambda>d (i, t). dict_pop (bt_task_id t) d) (tm_tasks m) (take excess ordered)\<rparr>))"

text \<open>\<open>queue.put_nowait\<close>, and on \<open>QueueFull\<close> the oldest event makes room.\<close>

definition offer :: "task_event \<Rightarrow> task_event list \<Rightarrow> task_event list" where
  "offer e q = (if length q < TASK_EVENT_QUEUE_SIZE then q @ [e]
     else (let q' = drop 1 q in if length q' < TASK_EVENT_QUEUE_SIZE then q' @ [e] else q'))"

definition publish_event :: "string \<Rightarrow> task_event \<Rightarrow> task_manager \<Rightarrow> task_manager" where
  "publish_event thread_id e m =
     (if thread_id = [] then m
      else (case dict_get (tm_subscribers m) thread_id of
              None \<Rightarrow> m
            | Some qs \<Rightarrow> m\<lparr>tm_subscribers := dict_set thread_id (map (\<lambda>(i, q). (i, offer e q)) qs) (tm_subscribers m)\<rparr>))"

definition publish_task_event :: "background_task \<Rightarrow> task_manager \<Rightarrow> task_manager" where
  "publish_task_event t = publish_event (bt_thread_id t) (Task_event t)"

definition publish_done_event :: "background_task \<Rightarrow> task_manager \<Rightarrow> task_manager" where
  "publish_done_event t = publish_event (bt_thread_id t) (Done_event t)"

definition subscribe :: "string \<Rightarrow> task_manager \<Rightarrow> nat \<times> task_manager" where
  "subscribe thread_id m =
     (let qs = (case dict_get (tm_subscribers m) thread_id of Some qs \<Rightarrow> qs | None \<Rightarrow> [])
      in (tm_next_queue m,
          m\<lparr>tm_subscribers := dict_set thread_id (qs @ [(tm_next_queue m, [])]) (tm_subscribers m),
            tm_next_queue := Suc (tm_next_queue m)\<rparr>))"

definition unsubscribe :: "string \<Rightarrow> nat \<Rightarrow> task_manager \<Rightarrow> task_manager" where
  "unsubscribe thread_id queue m =
     (case dict_get (tm_subscribers m) thread_id of
        None \<Rightarrow> m
      | Some qs \<Rightarrow>
          (let qs' = filter (\<lambda>(i, q). i \<noteq> queue) qs
           in m\<lparr>tm_subscribers := (if qs' = [] then dict_pop thread_id (tm_subscribers m)
                                   else dict_set thread_id qs' (tm_subscribers m))\<rparr>))"

definition get_task :: "rat \<Rightarrow> task_manager \<Rightarrow> string \<Rightarrow> task_view option" where
  "get_task now m i = map_option (task_dict now) (dict_get (tm_tasks m) i)"

definition get_by_thread_id :: "rat \<Rightarrow> task_manager \<Rightarrow> string \<Rightarrow> task_view option" where
  "get_by_thread_id now m thread_id =
     map_option (task_dict now) (List.find (\<lambda>t. bt_thread_id t = thread_id) (map snd (tm_tasks m)))"

text \<open>\<open>list.sort(reverse=True)\<close> keeps the order of equal keys.\<close>

definition list_all_tasks :: "rat \<Rightarrow> task_manager \<Rightarrow> task_view list" where
  "list_all_tasks now m =
     map (task_dict now) (rev (sort_key bt_created_at (rev (map snd (tm_tasks m)))))"

definition count_by_status :: "task_manager \<Rightarrow> (string, nat) dict" where
  "count_by_status m =
     foldl (\<lambda>counts (i, t). let key = status_value (bt_status t)
              in dict_set key ((case dict_get counts key of Some n \<Rightarrow> n | None \<Rightarrow> 0) + 1) counts) [] (tm_tasks m)"

section \<open>Submitting and restoring\<close>

record task_request =
  tr_request :: string
  tr_agent_name :: string
  tr_workspace :: "string option"
  tr_notify_channel :: "notify_channel option"
  tr_completion_hook :: bool
  tr_context_compact_threshold :: "int option"
  tr_allowed_tool_names :: "string list option"
  tr_allowed_skill_names :: "string list option"
  tr_provider :: "string option"
  tr_model :: "string option"
  tr_task_timeout :: "rat option"
  tr_max_retries :: int

definition strip_or_none :: "string option \<Rightarrow> string option" where
  "strip_or_none s = (case s of None \<Rightarrow> None | Some x \<Rightarrow> if x = [] then None else Some (strip x))"

text \<open>
  The task \<open>submit\<close> builds, under the identity \<open>uuid4\<close> gives; \<open>thread_of\<close> is
  \<open>make_thread_id("task", "dashboard", task_id)\<close>.
\<close>

definition new_task :: "(string \<Rightarrow> string) \<Rightarrow> task_request \<Rightarrow> string \<Rightarrow> rat \<Rightarrow> background_task" where
  "new_task thread_of r task_id now = \<lparr>
     bt_task_id = task_id, bt_request = tr_request r, bt_agent_name = tr_agent_name r,
     bt_workspace = tr_workspace r, bt_context_compact_threshold = tr_context_compact_threshold r,
     bt_allowed_tool_names = tr_allowed_tool_names r, bt_allowed_skill_names = tr_allowed_skill_names r,
     bt_provider = strip_or_none (tr_provider r), bt_model = strip_or_none (tr_model r),
     bt_notify_channel = tr_notify_channel r, bt_completion_hook = tr_completion_hook r,
     bt_status = PENDING, bt_result = [], bt_error = [], bt_created_at = now, bt_started_at = None,
     bt_completed_at = None, bt_thread_id = thread_of task_id, bt_task_timeout = tr_task_timeout r,
     bt_max_retries = max 0 (tr_max_retries r), bt_retry_count = 0, bt_async = None\<rparr>"

definition submit :: "background_task \<Rightarrow> task_manager \<Rightarrow> task_manager" where
  "submit t m =
     (let m = trim_completed (m\<lparr>tm_tasks := dict_set (bt_task_id t) t (tm_tasks m)\<rparr>);
          m = publish_task_event t m
      in m\<lparr>tm_tasks := dict_modify (bt_task_id t)
             (\<lambda>t. t\<lparr>bt_async := Some \<lparr>at_phase = Scheduled, at_cancel = False\<rparr>\<rparr>) (tm_tasks m)\<rparr>)"

text \<open>
  A row of the task table: its columns, with the numeric \<open>task_timeout\<close> apart. A column the code
  converts with \<open>int\<close> holds an integer or nothing; \<open>None\<close> stands for the exception otherwise.
\<close>

record task_row =
  row_columns :: "(string, pyval) dict"
  row_task_timeout :: "rat option"

definition str_column :: "(string, pyval) dict \<Rightarrow> string \<Rightarrow> string \<Rightarrow> string" where
  "str_column d k other = py_str (py_or (get_item d k) (PStr other))"

definition int_column :: "(string, pyval) dict \<Rightarrow> string \<Rightarrow> int option" where
  "int_column d k = (case py_or (get_item d k) (PInt 0) of PInt i \<Rightarrow> Some i | PBool b \<Rightarrow> Some 1 | _ \<Rightarrow> None)"

text \<open>\<open>list(value) if value is not None else None\<close> for a column that holds names.\<close>

definition names_column :: "(string, pyval) dict \<Rightarrow> string \<Rightarrow> string list option option" where
  "names_column d k =
     (case get_item d k of
        PNone \<Rightarrow> Some None
      | PList xs \<Rightarrow> Some (Some (map py_str xs))
      | _ \<Rightarrow> None)"

definition nonzero :: "rat \<Rightarrow> rat option" where
  "nonzero t = (if t = 0 then None else Some t)"

definition row_notify_channel :: "(string, pyval) dict \<Rightarrow> notify_channel option" where
  "row_notify_channel d =
     (let platform = str_column d ''notify_platform'' []; external_id = str_column d ''notify_external_id'' []
      in if platform \<noteq> [] \<and> external_id \<noteq> []
         then Some \<lparr>nc_platform = platform, nc_external_id = external_id,
                     nc_channel_id = str_column d ''notify_channel_id'' external_id\<rparr>
         else None)"

definition task_from_record ::
  "(string \<Rightarrow> rat option) \<Rightarrow> (pyval \<Rightarrow> string option) \<Rightarrow> task_row \<Rightarrow> background_task option" where
  "task_from_record from_iso resolve_workspace row =
     (let d = row_columns row;
          status = (case status_of_value (str_column d ''status'' ''failed'') of Some st \<Rightarrow> st | None \<Rightarrow> FAILED)
      in case (names_column d ''allowed_tool_names'', names_column d ''allowed_skill_names'',
               int_column d ''max_retries'', int_column d ''retry_count'') of
           (Some tools, Some skills, Some max_retries, Some retry_count) \<Rightarrow>
             Some \<lparr>bt_task_id = str_column d ''task_id'' [], bt_request = str_column d ''request'' [],
               bt_agent_name = str_column d ''agent_name'' ''default'',
               bt_workspace = (if truthy (get_item d ''workspace'') then resolve_workspace (get_item d ''workspace'') else None),
               bt_context_compact_threshold = None,
               bt_allowed_tool_names = tools, bt_allowed_skill_names = skills,
               bt_provider = None, bt_model = None,
               bt_notify_channel = row_notify_channel d, bt_completion_hook = False, bt_status = status,
               bt_result = str_column d ''result'' [], bt_error = str_column d ''error'' [],
               bt_created_at = parse_timestamp from_iso (get_item d ''created_at''),
               bt_started_at = nonzero (parse_timestamp from_iso (get_item d ''started_at'')),
               bt_completed_at = nonzero (parse_timestamp from_iso (get_item d ''completed_at'')),
               bt_thread_id = str_column d ''thread_id'' [], bt_task_timeout = row_task_timeout row,
               bt_max_retries = max_retries, bt_retry_count = retry_count, bt_async = None\<rparr>
         | _ \<Rightarrow> None)"

text \<open>A restored task that was still live was interrupted by the restart.\<close>

definition interrupted :: "rat \<Rightarrow> background_task \<Rightarrow> background_task" where
  "interrupted now t =
     (if live_status (bt_status t)
      then t\<lparr>bt_status := FAILED, bt_error := ''Interrupted by server restart'', bt_completed_at := Some now\<rparr>
      else t)"

fun restored_tasks ::
  "(task_row \<Rightarrow> background_task option) \<Rightarrow> rat \<Rightarrow> string list \<Rightarrow> task_row list
   \<Rightarrow> (string, background_task) dict \<Rightarrow> (string, background_task) dict option" where
  "restored_tasks read now known [] acc = Some acc"
| "restored_tasks read now known (row # rows) acc =
     (case read row of
        None \<Rightarrow> None
      | Some t \<Rightarrow>
          if bt_task_id t \<in> set known then restored_tasks read now known rows acc
          else restored_tasks read now known rows (dict_set (bt_task_id t) (interrupted now t) acc))"

text \<open>Any exception leaves the manager as it was.\<close>

definition restore_from_persistence ::
  "(task_row \<Rightarrow> background_task option) \<Rightarrow> rat \<Rightarrow> task_row list \<Rightarrow> task_manager \<Rightarrow> task_manager" where
  "restore_from_persistence read now rows m =
     (case restored_tasks read now (keys (tm_tasks m)) (take MAX_COMPLETED_TASKS rows) [] of
        None \<Rightarrow> m
      | Some new \<Rightarrow> trim_completed (m\<lparr>tm_tasks := foldl (\<lambda>d (i, t). dict_set i t d) (tm_tasks m) new\<rparr>))"

section \<open>One attempt\<close>

text \<open>How the run or the hook raises; \<open>Task_error\<close> has the code, the message, and whether it must propagate.\<close>

datatype task_exc = Timeout_error | Cancelled_error | Task_error "string option" string bool

text \<open>\<open>rs_run\<close>: what admission and \<open>_run_streamed_task\<close> give; \<open>rs_hook\<close>: what the completion hook raises.\<close>

record run_script =
  rs_run :: "task_exc + string"
  rs_hook :: "task_exc option"

fun streamed_events :: "(string \<times> pyval) list \<Rightarrow> string list \<times> string \<Rightarrow> string list \<times> string" where
  "streamed_events event (chunks, final) =
     (let event_type = py_str (py_or (get_item event ''type'') (PStr []))
      in case get_item event ''content'' of
           PStr content \<Rightarrow>
             (if event_type = ''message'' then (chunks @ [content], final)
              else if event_type = ''final'' then (chunks, content) else (chunks, final))
         | _ \<Rightarrow> (chunks, final))"

text \<open>What \<open>_run_streamed_task\<close> returns for the events of the agent: the final text, or the chunks.\<close>

definition run_streamed_task :: "pyval list \<Rightarrow> string" where
  "run_streamed_task events =
     (let (chunks, final) = foldl (\<lambda>acc e. case e of PDict d \<Rightarrow> streamed_events d acc | _ \<Rightarrow> acc) ([], []) events
      in if final \<noteq> [] then final else concat chunks)"

definition start_attempt :: "rat \<Rightarrow> background_task \<Rightarrow> background_task" where
  "start_attempt now t = t\<lparr>bt_status := RUNNING, bt_started_at := Some now\<rparr>"

definition retry_or_fail ::
  "string \<Rightarrow> task_event list \<Rightarrow> background_task \<Rightarrow> background_task \<times> bool \<times> task_event list" where
  "retry_or_fail message events t =
     (let t = t\<lparr>bt_retry_count := bt_retry_count t + 1\<rparr>
      in if bt_retry_count t \<le> bt_max_retries t
         then (t\<lparr>bt_status := PENDING, bt_started_at := None, bt_error := []\<rparr>, True, [])
         else (t\<lparr>bt_status := FAILED, bt_error := message\<rparr>, False, events))"

text \<open>\<open>f"Task timed out after {task.task_timeout}s"\<close>, with \<open>repr\<close> of a float as parameter.\<close>

definition timed_out_text :: "(rat \<Rightarrow> string) \<Rightarrow> rat option \<Rightarrow> string" where
  "timed_out_text float_repr timeout =
     ''Task timed out after '' @ (case timeout of None \<Rightarrow> ''None'' | Some s \<Rightarrow> float_repr s) @ ''s''"

definition cancelled_text :: string where "cancelled_text = ''Task was cancelled.''"

text \<open>The \<open>try\<close> statement: the task, \<open>retrying\<close>, and the events published on the way.\<close>

definition finish_run ::
  "(rat \<Rightarrow> string) \<Rightarrow> run_script \<Rightarrow> background_task \<Rightarrow> background_task \<times> bool \<times> task_event list" where
  "finish_run float_repr script t =
     (let t = (case rs_run script of Inr result \<Rightarrow> t\<lparr>bt_result := truncate_stored_text result\<rparr> | Inl _ \<Rightarrow> t);
          raised = (case rs_run script of Inl e \<Rightarrow> Some e
                    | Inr _ \<Rightarrow> if bt_completion_hook t then rs_hook script else None)
      in case raised of
           None \<Rightarrow> (t\<lparr>bt_status := COMPLETED\<rparr>, False, [])
         | Some Timeout_error \<Rightarrow>
             (let text = timed_out_text float_repr (bt_task_timeout t)
              in retry_or_fail text [Error_event None text] t)
         | Some Cancelled_error \<Rightarrow>
             (t\<lparr>bt_status := CANCELLED, bt_error := cancelled_text\<rparr>, False, [Error_event None cancelled_text])
         | Some (Task_error code message fatal) \<Rightarrow>
             retry_or_fail (truncate_stored_text message) [Error_event code message] t)"

text \<open>The state the \<open>finally\<close> block leaves on the task itself.\<close>

definition settle_task :: "bool \<Rightarrow> rat \<Rightarrow> background_task \<Rightarrow> background_task" where
  "settle_task retrying now t = (if retrying then t else t\<lparr>bt_completed_at := Some now\<rparr>)"

text \<open>
  The attempts of a task that is not interrupted: attempt number \<open>k\<close> starts at time \<open>fst (clock k)\<close>,
  settles at \<open>snd (clock k)\<close> and goes as \<open>scripts k\<close>. Gives the task and the number of attempts made.
\<close>

function run_attempts ::
  "(rat \<Rightarrow> string) \<Rightarrow> (nat \<Rightarrow> run_script) \<Rightarrow> (nat \<Rightarrow> rat \<times> rat) \<Rightarrow> nat \<Rightarrow> background_task \<Rightarrow> background_task \<times> nat" where
  "run_attempts float_repr scripts clock k t =
     (let (t', retrying, events) = finish_run float_repr (scripts k) (start_attempt (fst (clock k)) t);
          t' = settle_task retrying (snd (clock k)) t'
      in if retrying \<and> bt_status t' = PENDING then run_attempts float_repr scripts clock (Suc k) t' else (t', Suc k))"
  by pat_completeness auto

lemma retry_or_fail_retrying:
  "retry_or_fail msg ev t = (t', True, e) \<Longrightarrow> bt_retry_count t' = bt_retry_count t + 1
   \<and> bt_max_retries t' = bt_max_retries t \<and> bt_retry_count t' \<le> bt_max_retries t'"
  by (auto simp: retry_or_fail_def Let_def split: if_splits)

lemma finish_run_retrying:
  "finish_run fr s t = (t', True, e) \<Longrightarrow> bt_retry_count t' = bt_retry_count t + 1
   \<and> bt_max_retries t' = bt_max_retries t \<and> bt_retry_count t' \<le> bt_max_retries t'"
  by (auto simp: finish_run_def Let_def split: sum.splits option.splits task_exc.splits if_splits
      dest: retry_or_fail_retrying)

termination run_attempts
proof (relation "measure (\<lambda>(fr, ss, ts, k, t). nat (bt_max_retries t - bt_retry_count t))")
  fix fr and scripts :: "nat \<Rightarrow> run_script" and clock :: "nat \<Rightarrow> rat \<times> rat" and k t x t1 y retrying events t2
  assume "x = finish_run fr (scripts k) (start_attempt (fst (clock k)) t)" "(t1, y) = x"
    "(retrying, events) = y" "t2 = settle_task retrying (snd (clock k)) t1" "retrying \<and> bt_status t2 = PENDING"
  then show "((fr, scripts, clock, Suc k, t2), fr, scripts, clock, k, t)
      \<in> measure (\<lambda>(fr, ss, ts, k, t). nat (bt_max_retries t - bt_retry_count t))"
    using finish_run_retrying [of fr "scripts k" "start_attempt (fst (clock k)) t" t1 events]
    by (auto simp: start_attempt_def settle_task_def)
qed simp

declare run_attempts.simps [simp del]

section \<open>The attempts of the manager's tasks\<close>

definition set_async :: "async_phase \<Rightarrow> bool \<Rightarrow> background_task \<Rightarrow> background_task" where
  "set_async phase cancel t = t\<lparr>bt_async := Some \<lparr>at_phase = phase, at_cancel = cancel\<rparr>\<rparr>"

definition put_task :: "background_task \<Rightarrow> task_manager \<Rightarrow> task_manager" where
  "put_task t m = m\<lparr>tm_tasks := dict_modify (bt_task_id t) (\<lambda>_. t) (tm_tasks m)\<rparr>"

text \<open>
  The first step of the coroutine. A cancellation requested before it raises at the very start of
  \<open>_execute\<close>, outside every \<open>try\<close>.
\<close>

definition begin_attempt :: "rat \<Rightarrow> background_task \<Rightarrow> bool \<Rightarrow> task_manager \<Rightarrow> task_manager" where
  "begin_attempt now t cancel m =
     (if cancel then put_task (set_async Done False t) m
      else (let t = set_async Starting False (start_attempt now t) in put_task t m))"

text \<open>
  After the first \<open>_persist_task\<close>. Its handler catches \<open>Exception\<close>, which a cancellation is not, and
  the \<open>try\<close> with the \<open>finally\<close> block has not been entered; nor has it when \<open>track_active_session\<close>
  raises \<open>ThreadMutationConflictError\<close> (\<open>admitted\<close> is false).
\<close>

definition enter_run :: "background_task \<Rightarrow> bool \<Rightarrow> bool \<Rightarrow> task_manager \<Rightarrow> task_manager" where
  "enter_run t cancel admitted m =
     (if cancel then put_task (set_async Done False t) m
      else publish_task_event t (put_task (set_async (if admitted then In_run else Done) False t) m))"

definition end_run :: "(rat \<Rightarrow> string) \<Rightarrow> run_script \<Rightarrow> rat \<Rightarrow> background_task \<Rightarrow> task_manager \<Rightarrow> task_manager" where
  "end_run float_repr script now t m =
     (let (t', retrying, events) = finish_run float_repr script t;
          t' = set_async (Settling retrying) False (settle_task retrying now t')
      in foldl (\<lambda>m e. publish_event (bt_thread_id t') e m) (put_task t' m) events)"

text \<open>The awaits of the \<open>finally\<close> block and its end; a cancellation there skips what follows.\<close>

definition settle_attempt :: "bool \<Rightarrow> background_task \<Rightarrow> bool \<Rightarrow> task_manager \<Rightarrow> task_manager" where
  "settle_attempt retrying t cancel m =
     (if cancel then put_task (set_async Done False t) m
      else (let m = (if retrying then m else publish_done_event t m);
                m = trim_completed m;
                t' = (if retrying \<and> bt_status t = PENDING then set_async Scheduled False t else t\<lparr>bt_async := None\<rparr>)
            in publish_task_event t' (put_task t' m)))"

definition cancel :: "string \<Rightarrow> task_manager \<Rightarrow> string \<times> task_manager" where
  "cancel i m =
     (case dict_get (tm_tasks m) i of
        None \<Rightarrow> (''not_found'', m)
      | Some t \<Rightarrow>
          (case bt_async t of
             Some a \<Rightarrow> if at_phase a \<noteq> Done
                       then (''cancelled'', put_task (set_async (at_phase a) True t) m)
                       else (''not_running'', m)
           | None \<Rightarrow> (''not_running'', m)))"

text \<open>The check and the deletion of \<open>remove\<close>, with the clean-up awaits between them.\<close>

definition remove_check :: "string \<Rightarrow> task_manager \<Rightarrow> bool" where
  "remove_check i m = (case dict_get (tm_tasks m) i of None \<Rightarrow> False | Some t \<Rightarrow> \<not> live_status (bt_status t))"

definition remove_commit :: "string \<Rightarrow> task_manager \<Rightarrow> task_manager" where
  "remove_commit i m = (if remove_check i m then m\<lparr>tm_tasks := dict_pop i (tm_tasks m)\<rparr> else m)"

section \<open>Notifications\<close>

definition escape_html :: "string \<Rightarrow> string" where
  "escape_html s = concat (map (\<lambda>c.
     if c = CHR ''&'' then ''&amp;'' else if c = CHR ''<'' then ''&lt;'' else if c = CHR ''>'' then ''&gt;''
     else if (of_char c :: nat) = 34 then ''&quot;'' else if (of_char c :: nat) = 39 then ''&#x27;'' else [c]) s)"

datatype notification = Completed_note string string | Failed_note string string | Cancelled_note string

text \<open>
  The message of \<open>_notify_completion\<close>, by its kind and the texts put into it, and whether the result is
  injected into the user's thread.
\<close>

definition notify_completion :: "background_task \<Rightarrow> (bool \<times> notification) option" where
  "notify_completion t =
     (if bt_notify_channel t = None then None
      else (let preview = take 200 (bt_request t); inject = (bt_status t = COMPLETED \<and> bt_result t \<noteq> [])
            in case bt_status t of
                 COMPLETED \<Rightarrow> Some (inject, Completed_note preview (take 1000 (bt_result t)))
               | FAILED \<Rightarrow> Some (inject, Failed_note (escape_html preview) (escape_html (take 500 (bt_error t))))
               | CANCELLED \<Rightarrow> Some (inject, Cancelled_note (escape_html preview))
               | _ \<Rightarrow> None))"

end
