(* ===== verification/Task_Lifecycle.thy ===== *)
theory Task_Lifecycle
  imports Background_Tasks
begin

text \<open>
  What holds of background tasks: the retries of a task end with a settled task; the bounded history
  never loses a live task; a slow subscriber keeps the latest events; in every reachable state of the
  manager the status of a task agrees with its coroutine, up to the cancellation windows that leave a
  task live for ever.
\<close>

section \<open>Retries end\<close>

definition terminal :: "task_status \<Rightarrow> bool" where
  "terminal st = (st = COMPLETED \<or> st = FAILED \<or> st = CANCELLED)"

lemma terminal_not_live: "terminal st = (\<not> live_status st)"
  by (cases st) (simp_all add: terminal_def live_status_def)

lemma retry_or_fail_status:
  "retry_or_fail msg ev t = (t', r, e) \<Longrightarrow> (if r then bt_status t' = PENDING else bt_status t' = FAILED)
   \<and> bt_retry_count t' = bt_retry_count t + 1 \<and> bt_max_retries t' = bt_max_retries t \<and> bt_task_id t' = bt_task_id t"
  by (auto simp: retry_or_fail_def Let_def split: if_splits)

lemma finish_run_status:
  "finish_run fr s t = (t', r, e) \<Longrightarrow> (if r then bt_status t' = PENDING else terminal (bt_status t'))
   \<and> bt_task_id t' = bt_task_id t"
  by (auto simp: finish_run_def Let_def terminal_def split: sum.splits option.splits task_exc.splits if_splits
      dest: retry_or_fail_status)

text \<open>
  A task that nobody cancels makes at most \<open>max_retries - retry_count + 1\<close> attempts, whatever its
  runs and its hook do, and then it is settled: its status is final and its completion time is set.
\<close>

theorem retries_end_settled:
  "case run_attempts float_repr scripts clock k t of (t', n) \<Rightarrow>
     terminal (bt_status t') \<and> bt_completed_at t' \<noteq> None
     \<and> k < n \<and> n - k \<le> Suc (nat (bt_max_retries t - bt_retry_count t))"
proof (induction float_repr scripts clock k t rule: run_attempts.induct)
  case (1 fr scripts clock k t)
  obtain t1 r ev where fin: "finish_run fr (scripts k) (start_attempt (fst (clock k)) t) = (t1, r, ev)"
    by (metis prod.exhaust)
  let ?t2 = "settle_task r (snd (clock k)) t1"
  show ?case
  proof (cases "r \<and> bt_status ?t2 = PENDING")
    case True
    obtain t' n where rest: "run_attempts fr scripts clock (Suc k) ?t2 = (t', n)" by fastforce
    have run: "run_attempts fr scripts clock k t = (t', n)"
      using fin True rest by (subst run_attempts.simps) (auto simp: Let_def)
    have "bt_retry_count t1 = bt_retry_count t + 1" "bt_max_retries t1 = bt_max_retries t"
      "bt_retry_count t1 \<le> bt_max_retries t1"
      using finish_run_retrying [of fr "scripts k" "start_attempt (fst (clock k)) t" t1 ev] fin True
      by (simp_all add: start_attempt_def)
    moreover have "?t2 = t1" using True by (simp add: settle_task_def)
    ultimately show ?thesis
      using 1 [OF fin [symmetric] refl refl refl True] rest run by auto
  next
    case False
    have "run_attempts fr scripts clock k t = (?t2, Suc k)"
      using fin False by (subst run_attempts.simps) (auto simp: Let_def)
    moreover have "\<not> r" using finish_run_status [OF fin] False by (auto simp: settle_task_def)
    ultimately show ?thesis
      using finish_run_status [OF fin] by (simp add: settle_task_def)
  qed
qed

section \<open>Event queues\<close>

text \<open>
  a subscriber that does not read keeps the latest 100 events of the thread, in order: publishing
  drops only the oldest ones.
\<close>

theorem queue_keeps_latest:
  "foldl (\<lambda>q e. offer e q) [] es = drop (length es - TASK_EVENT_QUEUE_SIZE) es"
proof (induction es rule: rev_induct)
  case (snoc e es)
  have offer: "offer e (drop (length es - 100) es) = drop (length es + 1 - 100) (es @ [e])"
  proof (cases "length es < 100")
    case False
    then obtain n where "length es = 100 + n" by (metis le_add_diff_inverse not_less)
    then show ?thesis by (simp add: offer_def TASK_EVENT_QUEUE_SIZE_def)
  qed (simp add: offer_def TASK_EVENT_QUEUE_SIZE_def)
  show ?case using snoc offer by (simp add: TASK_EVENT_QUEUE_SIZE_def)
qed simp

section \<open>The bounded history\<close>

text \<open>Every entry of the registry is filed under its own identity.\<close>

definition tasks_keyed :: "task_manager \<Rightarrow> bool" where
  "tasks_keyed m \<longleftrightarrow> is_dict (tm_tasks m) \<and> (\<forall>(i, t) \<in> set (tm_tasks m). bt_task_id t = i)"

definition finished :: "task_manager \<Rightarrow> (string \<times> background_task) list" where
  "finished m = filter (\<lambda>(i, t). terminal (bt_status t)) (tm_tasks m)"

definition completion_time :: "background_task \<Rightarrow> rat" where
  "completion_time t = (case bt_completed_at t of Some c \<Rightarrow> c | None \<Rightarrow> 0)"

definition trimmed_away :: "task_manager \<Rightarrow> (string \<times> background_task) list" where
  "trimmed_away m = take (length (finished m) - MAX_COMPLETED_TASKS) (sort_key (completion_time \<circ> snd) (finished m))"

lemma pop_all:
  "foldl (\<lambda>d (i, t). dict_pop (bt_task_id t) d) d xs = filter (\<lambda>(i, t). i \<notin> (\<lambda>(j, u). bt_task_id u) ` set xs) d"
proof (induction xs arbitrary: d)
  case (Cons x xs)
  have "dict_pop k d = filter (\<lambda>(i, t). i \<noteq> k) d" for k
    by (induction d) auto
  then show ?case using Cons by (auto simp: case_prod_beta intro!: filter_cong)
qed (simp add: case_prod_beta)

lemma trim_completed_tasks:
  assumes "tasks_keyed m"
  shows "tm_tasks (trim_completed m) = filter (\<lambda>p. p \<notin> set (trimmed_away m)) (tm_tasks m)"
proof (cases "length (finished m) \<le> MAX_COMPLETED_TASKS")
  case True
  moreover have "finished m = filter (\<lambda>(i, t). bt_status t = COMPLETED \<or> bt_status t = FAILED \<or> bt_status t = CANCELLED) (tm_tasks m)"
    by (simp add: finished_def terminal_def)
  ultimately show ?thesis by (simp add: trim_completed_def trimmed_away_def filter_True)
next
  case False
  have fin: "filter (\<lambda>(i, t). bt_status t = COMPLETED \<or> bt_status t = FAILED \<or> bt_status t = CANCELLED) (tm_tasks m) = finished m"
    by (simp add: finished_def terminal_def)
  have key: "(\<lambda>(i, t). case bt_completed_at t of Some c \<Rightarrow> c | None \<Rightarrow> 0) = completion_time \<circ> snd"
    by (auto simp: completion_time_def)
  have sub: "set (trimmed_away m) \<subseteq> set (tm_tasks m)"
    using set_take_subset [of "length (finished m) - MAX_COMPLETED_TASKS" "sort_key (completion_time \<circ> snd) (finished m)"]
    by (auto simp: trimmed_away_def finished_def)
  have "tm_tasks (trim_completed m)
      = filter (\<lambda>(i, t). i \<notin> (\<lambda>(j, u). bt_task_id u) ` set (trimmed_away m)) (tm_tasks m)"
    using False by (simp add: trim_completed_def fin key trimmed_away_def pop_all Let_def)
  also have "\<dots> = filter (\<lambda>p. p \<notin> set (trimmed_away m)) (tm_tasks m)"
  proof (rule filter_cong [OF refl])
    fix p assume p: "p \<in> set (tm_tasks m)"
    obtain i t where it: "p = (i, t)" by (cases p)
    have "i \<in> (\<lambda>(j, u). bt_task_id u) ` set (trimmed_away m) \<longleftrightarrow> p \<in> set (trimmed_away m)"
    proof
      assume "i \<in> (\<lambda>(j, u). bt_task_id u) ` set (trimmed_away m)"
      then obtain j u where "(j, u) \<in> set (trimmed_away m)" "i = bt_task_id u" by auto
      moreover from this have "(j, u) \<in> set (tm_tasks m)" using sub by auto
      ultimately show "p \<in> set (trimmed_away m)"
        using assms p it by (auto simp: tasks_keyed_def is_dict_def dest: eq_key_imp_eq_value)
    next
      assume "p \<in> set (trimmed_away m)"
      then show "i \<in> (\<lambda>(j, u). bt_task_id u) ` set (trimmed_away m)"
        using assms p it by (force simp: tasks_keyed_def)
    qed
    then show "(case p of (i, t) \<Rightarrow> i \<notin> (\<lambda>(j, u). bt_task_id u) ` set (trimmed_away m)) = (p \<notin> set (trimmed_away m))"
      by (simp add: it)
  qed
  finally show ?thesis .
qed

lemma trim_keyed: "tasks_keyed m \<Longrightarrow> tasks_keyed (trim_completed m)"
  by (simp add: tasks_keyed_def trim_completed_tasks is_dict_def distinct_map_filter)

lemma trim_live:
  assumes "tasks_keyed m" and "\<not> terminal (bt_status t)"
  shows "(i, t) \<in> set (tm_tasks (trim_completed m)) \<longleftrightarrow> (i, t) \<in> set (tm_tasks m)"
proof -
  have "(i, t) \<notin> set (trimmed_away m)"
    using assms(2) set_take_subset [of _ "sort_key (completion_time \<circ> snd) (finished m)"]
    by (auto simp: trimmed_away_def finished_def)
  then show ?thesis by (simp add: trim_completed_tasks [OF assms(1)])
qed

lemma sorted_take_drop:
  assumes "x \<in> set (take n (sort_key f xs))" and "y \<in> set (drop n (sort_key f xs))"
  shows "f x \<le> f y"
proof -
  have "sorted (map f (take n (sort_key f xs) @ drop n (sort_key f xs)))" by simp
  then show ?thesis using assms unfolding map_append sorted_append by (auto simp del: append_take_drop_id)
qed

text \<open>
  Trimming the history keeps every live task, leaves at most 100 finished ones, and drops none that
  finished after one it keeps.
\<close>

theorem trim_keeps_live_and_newest:
  assumes "tasks_keyed m"
  shows "(\<forall>(i, t) \<in> set (tm_tasks m). live_status (bt_status t) \<longrightarrow> (i, t) \<in> set (tm_tasks (trim_completed m)))
    \<and> length (finished (trim_completed m)) \<le> MAX_COMPLETED_TASKS
    \<and> (\<forall>(i, t) \<in> set (tm_tasks m) - set (tm_tasks (trim_completed m)).
         \<forall>(j, u) \<in> set (finished (trim_completed m)). completion_time t \<le> completion_time u)"
proof -
  have live: "(i, t) \<in> set (tm_tasks (trim_completed m))"
    if "(i, t) \<in> set (tm_tasks m)" "live_status (bt_status t)" for i t
    using trim_live [OF assms, of t i] that by (simp add: terminal_not_live)
  let ?ord = "sort_key (completion_time \<circ> snd) (finished m)"
  let ?n = "length (finished m) - MAX_COMPLETED_TASKS"
  have fin: "finished (trim_completed m) = filter (\<lambda>p. p \<notin> set (trimmed_away m)) (finished m)"
    by (auto simp: finished_def trim_completed_tasks [OF assms] intro: filter_cong)
  have dist: "distinct (finished m)"
    using assms by (simp add: tasks_keyed_def is_dict_def finished_def distinct_map)
  have few: "length (finished (trim_completed m)) \<le> MAX_COMPLETED_TASKS"
  proof -
    have "card (set (trimmed_away m)) = min ?n (length (finished m))"
      using dist by (simp add: trimmed_away_def distinct_card)
    moreover have sub: "set (trimmed_away m) \<subseteq> set (finished m)"
      using set_take_subset [of ?n ?ord] by (simp add: trimmed_away_def)
    moreover have "set (finished (trim_completed m)) = set (finished m) - set (trimmed_away m)"
      by (auto simp: fin)
    ultimately have "card (set (finished (trim_completed m))) = length (finished m) - min ?n (length (finished m))"
      using dist by (simp add: card_Diff_subset distinct_card)
    moreover have "distinct (finished (trim_completed m))" using dist by (simp add: fin)
    ultimately show ?thesis by (simp add: distinct_card)
  qed
  have newest: "completion_time t \<le> completion_time u"
    if p: "(i, t) \<in> set (tm_tasks m)" "(i, t) \<notin> set (tm_tasks (trim_completed m))"
      and q: "(j, u) \<in> set (finished (trim_completed m))" for i t j u
  proof -
  have "(i, t) \<in> set (take ?n ?ord)"
    using p by (simp add: trim_completed_tasks [OF assms] trimmed_away_def)
  moreover have "(j, u) \<in> set (finished m)" "(j, u) \<notin> set (take ?n ?ord)"
    using q by (auto simp: fin trimmed_away_def)
  then have "(j, u) \<in> set (drop ?n ?ord)"
    by (metis Un_iff append_take_drop_id set_append set_sort)
  ultimately show ?thesis
    using sorted_take_drop [of "(i, t)" ?n "completion_time \<circ> snd" "finished m" "(j, u)"] by simp
  qed
  show ?thesis using live few newest by blast
qed

definition demo_request :: task_request where
  "demo_request = \<lparr>tr_request = ''summarise'', tr_agent_name = ''default'', tr_workspace = None,
     tr_notify_channel = None, tr_completion_hook = False, tr_context_compact_threshold = None,
     tr_allowed_tool_names = None, tr_allowed_skill_names = None, tr_provider = None, tr_model = None,
     tr_task_timeout = None, tr_max_retries = 1\<rparr>"

definition demo_task :: "string \<Rightarrow> background_task" where
  "demo_task i = new_task (\<lambda>x. ''thread_'' @ x) demo_request i 10"

text \<open>101 finished tasks and a live one.\<close>

definition full_manager :: task_manager where
  "full_manager = new_task_manager\<lparr>tm_tasks := (''live'', demo_task ''live'')
     # map (\<lambda>n. (replicate n CHR ''x'', (demo_task (replicate n CHR ''x''))\<lparr>bt_status := COMPLETED, bt_completed_at := Some (of_nat n)\<rparr>))
         [0..<101]\<rparr>"

lemma full_manager_keyed: "tasks_keyed full_manager"
proof -
  have "inj (\<lambda>n. replicate n c)" for c :: char
    by (rule injI) (metis length_replicate)
  moreover have "''live'' \<notin> (\<lambda>n. replicate n CHR ''x'') ` N" for N
  proof
    assume "''live'' \<in> (\<lambda>n. replicate n CHR ''x'') ` N"
    then obtain n where "''live'' = replicate n CHR ''x''" by blast
    then have "CHR ''l'' \<in> set (replicate n CHR ''x'')" by (metis list.set_intros(1))
    then show False by simp
  qed
  ultimately have "distinct (''live'' # map (\<lambda>n. replicate n CHR ''x'') [0..<101])"
    by (simp only: distinct.simps(2) distinct_map set_map distinct_upt inj_on_subset [OF _ subset_UNIV] simp_thms not_False_eq_True)
  then have "distinct (keys (tm_tasks full_manager))"
    by (simp add: full_manager_def new_task_manager_def comp_def del: upt_Suc)
  then show ?thesis
    by (auto simp: tasks_keyed_def is_dict_def full_manager_def new_task_manager_def demo_task_def new_task_def)
qed

theorem trim_keeps_live_and_newest_witness:
  "tasks_keyed full_manager \<and> length (finished full_manager) = 101
   \<and> length (finished (trim_completed full_manager)) \<le> 100
   \<and> (''live'', demo_task ''live'') \<in> set (tm_tasks (trim_completed full_manager))"
proof -
  have "filter (\<lambda>(i, t). terminal (bt_status t)) (map (\<lambda>n. (replicate n CHR ''x'',
      (demo_task (replicate n CHR ''x''))\<lparr>bt_status := COMPLETED, bt_completed_at := Some (of_nat n)\<rparr>)) ns)
     = map (\<lambda>n. (replicate n CHR ''x'',
      (demo_task (replicate n CHR ''x''))\<lparr>bt_status := COMPLETED, bt_completed_at := Some (of_nat n)\<rparr>)) ns" for ns
    by (induction ns) (simp_all add: terminal_def)
  then have "length (finished full_manager) = 101"
    by (simp add: finished_def full_manager_def demo_task_def new_task_def terminal_def del: upt_Suc)
  moreover have "(''live'', demo_task ''live'') \<in> set (tm_tasks full_manager)" "live_status (bt_status (demo_task ''live''))"
    by (simp_all add: full_manager_def demo_task_def new_task_def live_status_def)
  ultimately show ?thesis
    using trim_keeps_live_and_newest [OF full_manager_keyed] full_manager_keyed
    by (auto simp: MAX_COMPLETED_TASKS_def)
qed

section \<open>Status and coroutine agree\<close>

text \<open>Rows as the manager writes them: that of a finished task has a completion time.\<close>

definition complete_rows :: "(task_row \<Rightarrow> background_task option) \<Rightarrow> task_row list \<Rightarrow> bool" where
  "complete_rows read rows =
     list_all (\<lambda>row. case read row of None \<Rightarrow> True | Some t \<Rightarrow> terminal (bt_status t) \<longrightarrow> bt_completed_at t \<noteq> None) rows"

text \<open>The steps of the manager and its tasks; a submitted task has a new identity.\<close>

inductive task_step :: "task_manager \<Rightarrow> task_manager \<Rightarrow> bool" where
  submitted: "i \<notin> set (keys (tm_tasks m)) \<Longrightarrow> task_step m (submit (new_task thread_of r i now) m)"
| began: "dict_get (tm_tasks m) i = Some t \<Longrightarrow> bt_async t = Some a \<Longrightarrow> at_phase a = Scheduled
    \<Longrightarrow> task_step m (begin_attempt now t (at_cancel a) m)"
| entered: "dict_get (tm_tasks m) i = Some t \<Longrightarrow> bt_async t = Some a \<Longrightarrow> at_phase a = Starting
    \<Longrightarrow> task_step m (enter_run t (at_cancel a) admitted m)"
| ended: "dict_get (tm_tasks m) i = Some t \<Longrightarrow> bt_async t = Some a \<Longrightarrow> at_phase a = In_run
    \<Longrightarrow> task_step m (end_run float_repr script now t m)"
| settled: "dict_get (tm_tasks m) i = Some t \<Longrightarrow> bt_async t = Some a \<Longrightarrow> at_phase a = Settling retrying
    \<Longrightarrow> task_step m (settle_attempt retrying t (at_cancel a) m)"
| cancelled: "task_step m (snd (cancel i m))"
| removed: "task_step m (remove_commit i m)"
| subscribed: "task_step m (snd (subscribe thread_id m))"
| unsubscribed: "task_step m (unsubscribe thread_id queue m)"
| restored: "complete_rows (task_from_record from_iso resolve) rows
    \<Longrightarrow> task_step m (restore_from_persistence (task_from_record from_iso resolve) now rows m)"

inductive task_steps :: "task_manager \<Rightarrow> task_manager \<Rightarrow> bool" for m where
  here: "task_steps m m"
| onward: "task_steps m n \<Longrightarrow> task_step n k \<Longrightarrow> task_steps m k"

definition status_fits :: "background_task \<Rightarrow> bool" where
  "status_fits t =
     (case bt_async t of
        None \<Rightarrow> terminal (bt_status t) \<and> bt_completed_at t \<noteq> None
      | Some a \<Rightarrow>
          (case at_phase a of
             Scheduled \<Rightarrow> bt_status t = PENDING \<and> bt_completed_at t = None
           | Starting \<Rightarrow> bt_status t = RUNNING \<and> bt_started_at t \<noteq> None \<and> bt_completed_at t = None
           | In_run \<Rightarrow> bt_status t = RUNNING \<and> bt_started_at t \<noteq> None \<and> bt_completed_at t = None
           | Settling retrying \<Rightarrow>
               (if retrying then bt_status t = PENDING \<and> bt_completed_at t = None
                else terminal (bt_status t) \<and> bt_completed_at t \<noteq> None)
           | Done \<Rightarrow>
               (if bt_completed_at t = None then bt_status t = PENDING \<or> bt_status t = RUNNING \<and> bt_started_at t \<noteq> None
                else terminal (bt_status t))))"

definition manager_ok :: "task_manager \<Rightarrow> bool" where
  "manager_ok m \<longleftrightarrow> tasks_keyed m \<and> (\<forall>(i, t) \<in> set (tm_tasks m). status_fits t)"

lemma publish_tasks [simp]:
  "tm_tasks (publish_event th e m) = tm_tasks m"
  "tm_tasks (publish_task_event t m) = tm_tasks m"
  "tm_tasks (publish_done_event t m) = tm_tasks m"
  "tm_tasks (foldl (\<lambda>m e. publish_event th e m) m es) = tm_tasks m"
proof -
  show one: "tm_tasks (publish_event th e m) = tm_tasks m" for th e m
    by (simp add: publish_event_def split: option.split)
  show "tm_tasks (publish_task_event t m) = tm_tasks m" "tm_tasks (publish_done_event t m) = tm_tasks m"
    by (simp_all add: publish_task_event_def publish_done_event_def one)
  show "tm_tasks (foldl (\<lambda>m e. publish_event th e m) m es) = tm_tasks m"
    by (induction es arbitrary: m) (simp_all add: one)
qed

lemma manager_ok_tasks: "tm_tasks m = tm_tasks m' \<Longrightarrow> manager_ok m = manager_ok m'"
  by (simp add: manager_ok_def tasks_keyed_def)

lemma put_task_ok:
  assumes "manager_ok m" and "status_fits t"
  shows "manager_ok (put_task t m)"
proof -
  have d: "is_dict (tm_tasks m)" using assms(1) by (simp add: manager_ok_def tasks_keyed_def)
  show ?thesis
    using assms by (auto simp: manager_ok_def tasks_keyed_def put_task_def set_dict_modify [OF d])
qed

lemma trim_ok: "manager_ok m \<Longrightarrow> manager_ok (trim_completed m)"
  using trim_keyed [of m] by (auto simp: manager_ok_def trim_completed_tasks)

lemma task_fits: "manager_ok m \<Longrightarrow> dict_get (tm_tasks m) i = Some t \<Longrightarrow> status_fits t \<and> bt_task_id t = i"
  by (auto simp: manager_ok_def tasks_keyed_def dest!: dict_get_in)

lemma finish_run_fits:
  assumes "finish_run fr s t = (t', r, ev)" and "bt_completed_at t = None"
  shows "status_fits (set_async (Settling r) c (settle_task r now t'))"
proof -
  have "bt_completed_at t' = None"
    using assms by (auto simp: finish_run_def retry_or_fail_def Let_def split: sum.splits option.splits task_exc.splits if_splits)
  then show ?thesis
    using finish_run_status [OF assms(1)] by (auto simp: status_fits_def set_async_def settle_task_def)
qed

lemma submit_ok:
  assumes "manager_ok m" and "i \<notin> set (keys (tm_tasks m))"
  shows "manager_ok (submit (new_task thread_of r i now) m)"
proof -
  let ?t = "new_task thread_of r i now"
  let ?m1 = "m\<lparr>tm_tasks := dict_set i ?t (tm_tasks m)\<rparr>"
  have id: "bt_task_id ?t = i" by (simp add: new_task_def)
  have d: "is_dict (tm_tasks m)" using assms(1) by (simp add: manager_ok_def tasks_keyed_def)
  have set1: "set (tm_tasks ?m1) = insert (i, ?t) (set (tm_tasks m))"
    using assms(2) by (auto simp: set_dict_set [OF d])
  have k1: "tasks_keyed ?m1"
    using assms(1) d set1 id by (auto simp: manager_ok_def tasks_keyed_def)
  have k2: "tasks_keyed (trim_completed ?m1)" by (rule trim_keyed [OF k1])
  have sub: "set (tm_tasks (trim_completed ?m1)) \<subseteq> insert (i, ?t) (set (tm_tasks m))"
    using set1 by (auto simp: trim_completed_tasks [OF k1])
  have final: "tm_tasks (submit ?t m) = dict_modify i (set_async Scheduled False) (tm_tasks (trim_completed ?m1))"
    by (simp add: submit_def id Let_def set_async_def [abs_def])
  have d2: "is_dict (tm_tasks (trim_completed ?m1))" using k2 by (simp add: tasks_keyed_def)
  have "status_fits u \<and> bt_task_id u = j" if mem: "(j, u) \<in> set (tm_tasks (submit ?t m))" for j u
  proof -
    obtain v where v: "(j, v) \<in> insert (i, ?t) (set (tm_tasks m))" "u = (if j = i then set_async Scheduled False v else v)"
      using mem sub by (auto simp: final set_dict_modify [OF d2])
    show ?thesis
    proof (cases "j = i")
      case True
      then have "v = ?t" using v(1) assms(2) by (auto simp: image_iff)
      then show ?thesis using True v(2) by (simp add: status_fits_def set_async_def new_task_def)
    next
      case False
      then show ?thesis using v assms(1) by (auto simp: manager_ok_def tasks_keyed_def)
    qed
  qed
  then show ?thesis using d2 by (auto simp: manager_ok_def tasks_keyed_def final)
qed

lemma restored_tasks_all:
  assumes "restored_tasks read now known rows acc = Some d"
    and "\<And>i t. (i, t) \<in> set acc \<Longrightarrow> Q i t"
    and "\<And>row u. row \<in> set rows \<Longrightarrow> read row = Some u \<Longrightarrow> bt_task_id u \<notin> set known \<Longrightarrow> Q (bt_task_id u) (interrupted now u)"
    and "(i, t) \<in> set d"
  shows "Q i t"
  using assms
proof (induction read now known rows acc rule: restored_tasks.induct)
  case (2 read now known row rows acc)
  obtain u where u: "read row = Some u" using 2(3) by (auto split: option.splits)
  have "\<And>i t. (i, t) \<in> set (dict_set (bt_task_id u) (interrupted now u) acc) \<Longrightarrow> Q i t" if "bt_task_id u \<notin> set known"
    using that 2(4) 2(5) [OF _ u] dict_set_subset [of "bt_task_id u" "interrupted now u" acc] by fastforce
  then show ?case using 2 u by (auto split: if_splits)
qed auto

lemma update_all_set:
  "set (foldl (\<lambda>d (i, t). dict_set i t d) d new) \<subseteq> set d \<union> set new"
proof (induction new arbitrary: d)
  case (Cons x new)
  show ?case using Cons [of "dict_set (fst x) (snd x) d"] dict_set_subset [of "fst x" "snd x" d]
    by (auto simp: case_prod_beta)
qed simp

lemma is_dict_foldl_set: "is_dict d \<Longrightarrow> is_dict (foldl (\<lambda>d (i, t). dict_set i t d) d new)"
  by (induction new arbitrary: d) (auto simp: case_prod_beta)

lemma foldl_set_other: "k \<notin> fst ` set new \<Longrightarrow> dict_get (foldl (\<lambda>d (i, t). dict_set i t d) d new) k = dict_get d k"
  by (induction new arbitrary: d) (auto simp: case_prod_beta dict_simps)

lemma restore_cases:
  assumes "manager_ok m" and "complete_rows (task_from_record from_iso resolve) rows"
  obtains "restore_from_persistence (task_from_record from_iso resolve) now rows m = m"
  | new where "restore_from_persistence (task_from_record from_iso resolve) now rows m
        = trim_completed (m\<lparr>tm_tasks := foldl (\<lambda>d (i, t). dict_set i t d) (tm_tasks m) new\<rparr>)"
      and "manager_ok (m\<lparr>tm_tasks := foldl (\<lambda>d (i, t). dict_set i t d) (tm_tasks m) new\<rparr>)"
      and "\<And>i. i \<in> set (keys (tm_tasks m)) \<Longrightarrow> i \<notin> fst ` set new"
proof (cases "restored_tasks (task_from_record from_iso resolve) now (keys (tm_tasks m)) (take MAX_COMPLETED_TASKS rows) []")
  case None
  then show ?thesis using that(1) by (simp add: restore_from_persistence_def)
next
  case (Some new)
  have fits: "status_fits (interrupted now u)" if "row \<in> set rows" "task_from_record from_iso resolve row = Some u" for row u
  proof -
    have "bt_async u = None" using that(2) by (auto simp: task_from_record_def Let_def split: option.splits)
    moreover have "terminal (bt_status u) \<longrightarrow> bt_completed_at u \<noteq> None"
      using assms(2) that by (auto simp: complete_rows_def list_all_iff)
    ultimately show ?thesis
      by (auto simp: status_fits_def interrupted_def terminal_not_live terminal_def live_status_def)
  qed
  have id: "bt_task_id (interrupted now u) = bt_task_id u" for u by (simp add: interrupted_def)
  have new: "i \<notin> set (keys (tm_tasks m)) \<and> bt_task_id t = i \<and> status_fits t" if mem: "(i, t) \<in> set new" for i t
  proof (rule restored_tasks_all [OF Some _ _ mem, where Q = "\<lambda>i t. i \<notin> set (keys (tm_tasks m)) \<and> bt_task_id t = i \<and> status_fits t"])
    fix row u
    assume "row \<in> set (take MAX_COMPLETED_TASKS rows)" "task_from_record from_iso resolve row = Some u"
      "bt_task_id u \<notin> set (keys (tm_tasks m))"
    then show "bt_task_id u \<notin> set (keys (tm_tasks m)) \<and> bt_task_id (interrupted now u) = bt_task_id u \<and> status_fits (interrupted now u)"
      using fits [OF in_set_takeD, of row MAX_COMPLETED_TASKS u] id by blast
  qed simp
  have "is_dict (foldl (\<lambda>d (i, t). dict_set i t d) (tm_tasks m) new)"
    using assms(1) by (intro is_dict_foldl_set) (simp add: manager_ok_def tasks_keyed_def)
  moreover have "bt_task_id t = i \<and> status_fits t" if "(i, t) \<in> set (foldl (\<lambda>d (i, t). dict_set i t d) (tm_tasks m) new)" for i t
    using that update_all_set [of "tm_tasks m" new] new [of i t] assms(1) by (auto simp: manager_ok_def tasks_keyed_def)
  ultimately have "manager_ok (m\<lparr>tm_tasks := foldl (\<lambda>d (i, t). dict_set i t d) (tm_tasks m) new\<rparr>)"
    by (auto simp: manager_ok_def tasks_keyed_def)
  moreover have "i \<notin> fst ` set new" if "i \<in> set (keys (tm_tasks m))" for i
  proof
    assume "i \<in> fst ` set new"
    then obtain t where "(i, t) \<in> set new" by force
    then show False using new that by blast
  qed
  ultimately show ?thesis using that(2) Some by (simp add: restore_from_persistence_def)
qed

lemma task_step_ok: "task_step m n \<Longrightarrow> manager_ok m \<Longrightarrow> manager_ok n"
proof (induction rule: task_step.induct)
  case (submitted i m thread_of r now)
  then show ?case by (simp add: submit_ok)
next
  case (began m i t a now)
  then have "status_fits t" using task_fits by blast
  then show ?case
    using began by (auto simp: begin_attempt_def Let_def intro!: put_task_ok)
      (auto simp: status_fits_def set_async_def start_attempt_def live_status_def)
next
  case (entered m i t a admitted)
  then have "status_fits t" using task_fits by blast
  then have "manager_ok (put_task (set_async (if at_cancel a \<or> \<not> admitted then Done else In_run) False t) m)"
    using entered by (intro put_task_ok) (auto simp: status_fits_def set_async_def live_status_def)
  then show ?case by (cases admitted) (auto simp: enter_run_def elim: manager_ok_tasks [THEN iffD1, rotated])
next
  case (ended m i t a fr script now)
  then have "status_fits t" using task_fits by blast
  then have none: "bt_completed_at t = None" using ended by (simp add: status_fits_def)
  obtain t' r ev where fin: "finish_run fr script t = (t', r, ev)" by (metis prod.exhaust)
  have "manager_ok (put_task (set_async (Settling r) False (settle_task r now t')) m)"
    by (rule put_task_ok [OF ended.prems finish_run_fits [OF fin none]])
  then show ?case
    by (rule manager_ok_tasks [THEN iffD1, rotated]) (simp add: end_run_def fin Let_def)
next
  case (settled m i t a retrying)
  then have fits: "status_fits t" using task_fits by blast
  show ?case
  proof (cases "at_cancel a")
    case True
    have "status_fits (set_async Done False t)"
      using fits settled by (auto simp: status_fits_def set_async_def live_status_def terminal_def split: if_splits)
    then show ?thesis using True settled by (simp add: settle_attempt_def put_task_ok)
  next
    case False
    let ?t = "if retrying \<and> bt_status t = PENDING then set_async Scheduled False t else t\<lparr>bt_async := None\<rparr>"
    have "status_fits ?t"
      using fits settled by (auto simp: status_fits_def set_async_def split: if_splits)
    then have "manager_ok (put_task ?t (trim_completed (if retrying then m else publish_done_event t m)))"
      using settled.prems manager_ok_tasks [of "publish_done_event t m" m]
      by (intro put_task_ok trim_ok) auto
    then show ?thesis
      by (rule manager_ok_tasks [THEN iffD1, rotated]) (simp add: settle_attempt_def False Let_def)
  qed
next
  case (cancelled m i)
  show ?case
  proof (cases "dict_get (tm_tasks m) i")
    case None
    then show ?thesis using cancelled by (simp add: cancel_def)
  next
    case (Some t)
    have fits: "status_fits t" using task_fits [OF cancelled Some] by simp
    show ?thesis
    proof (cases "\<exists>a. bt_async t = Some a \<and> at_phase a \<noteq> Done")
      case True
      then obtain a where a: "bt_async t = Some a" "at_phase a \<noteq> Done" by blast
      have "status_fits (set_async (at_phase a) True t)"
        using fits a by (cases "at_phase a") (simp_all add: status_fits_def set_async_def)
      then show ?thesis using Some a cancelled by (simp add: cancel_def put_task_ok)
    next
      case False
      then have "snd (cancel i m) = m" using Some by (auto simp: cancel_def split: option.split)
      then show ?thesis using cancelled by simp
    qed
  qed
next
  case (removed m i)
  then show ?case
    by (auto simp: remove_commit_def manager_ok_def tasks_keyed_def set_dict_pop)
next
  case (subscribed m thread_id)
  then show ?case by (simp add: manager_ok_def tasks_keyed_def subscribe_def Let_def)
next
  case (unsubscribed m thread_id queue)
  then show ?case by (simp add: manager_ok_def tasks_keyed_def unsubscribe_def Let_def split: option.split)
next
  case (restored from_iso resolve rows m now)
  show ?case
    by (rule restore_cases [OF restored.prems restored.hyps, of now]) (use restored.prems trim_ok in simp_all)
qed

lemma task_steps_ok: "task_steps m n \<Longrightarrow> manager_ok m \<Longrightarrow> manager_ok n"
  by (induction rule: task_steps.induct) (blast intro: task_step_ok)+

lemma start_ok: "manager_ok new_task_manager"
  by (simp add: manager_ok_def tasks_keyed_def new_task_manager_def)

section \<open>A coroutine that did not settle\<close>

definition abandoned :: "string \<Rightarrow> background_task \<Rightarrow> task_manager \<Rightarrow> bool" where
  "abandoned i t m \<longleftrightarrow> manager_ok m \<and> dict_get (tm_tasks m) i = Some t
     \<and> (\<exists>a. bt_async t = Some a \<and> at_phase a = Done) \<and> live_status (bt_status t)"

lemma put_other: "bt_task_id u \<noteq> i \<Longrightarrow> dict_get (tm_tasks (put_task u m)) i = dict_get (tm_tasks m) i"
  by (simp add: put_task_def dict_simps)

lemma trim_get_live:
  assumes "manager_ok m" and "dict_get (tm_tasks m) i = Some t" and "live_status (bt_status t)"
  shows "dict_get (tm_tasks (trim_completed m)) i = Some t"
proof -
  have k: "tasks_keyed m" using assms(1) by (simp add: manager_ok_def)
  then have "(i, t) \<in> set (tm_tasks (trim_completed m))"
    using trim_live [OF k, of t i] assms(2,3) by (simp add: terminal_not_live dict_get_in)
  then show ?thesis
    using trim_keyed [OF k] by (simp add: tasks_keyed_def dict_in_get)
qed

lemma submit_other:
  assumes "manager_ok m" and "j \<notin> set (keys (tm_tasks m))"
    and "dict_get (tm_tasks m) i = Some t" and "live_status (bt_status t)"
  shows "dict_get (tm_tasks (submit (new_task th r j now) m)) i = Some t"
proof -
  let ?u = "new_task th r j now"
  let ?m1 = "m\<lparr>tm_tasks := dict_set j ?u (tm_tasks m)\<rparr>"
  have "i \<noteq> j" using assms(2,3) by (auto dest: dict_get_Some_key)
  have d: "is_dict (tm_tasks m)" using assms(1) by (simp add: manager_ok_def tasks_keyed_def)
  have k: "tasks_keyed ?m1"
    using assms(1,2) d by (auto simp: manager_ok_def tasks_keyed_def set_dict_set [OF d] new_task_def)
  have "(i, t) \<in> set (tm_tasks ?m1)"
    using assms(3) \<open>i \<noteq> j\<close> by (simp add: set_dict_set [OF d] dict_get_in)
  then have "(i, t) \<in> set (tm_tasks (trim_completed ?m1))"
    using trim_live [OF k, of t i] assms(4) by (simp add: terminal_not_live)
  then have "dict_get (tm_tasks (trim_completed ?m1)) i = Some t"
    using trim_keyed [OF k] by (simp add: tasks_keyed_def dict_in_get)
  then show ?thesis
    using \<open>i \<noteq> j\<close> by (simp add: submit_def Let_def new_task_def [of th r j now, THEN arg_cong [where f = bt_task_id]] dict_simps)
qed

lemma abandoned_step: "task_step m n \<Longrightarrow> abandoned i t m \<Longrightarrow> abandoned i t n"
proof -
  assume step: "task_step m n" and st: "abandoned i t m"
  then obtain a where ok: "manager_ok m" and t: "dict_get (tm_tasks m) i = Some t" "bt_async t = Some a"
      "at_phase a = Done" "live_status (bt_status t)"
    by (auto simp: abandoned_def)
  have "dict_get (tm_tasks n) i = Some t"
    using step
  proof cases
    case (submitted j th r now)
    then show ?thesis using submit_other [OF ok _ t(1,4)] by simp
  next
    case (began j u b now)
    then have "bt_task_id u \<noteq> i" using t task_fits [OF ok, of j u] by auto
    then show ?thesis using began(1) t(1)
      by (auto simp: begin_attempt_def Let_def put_other set_async_def start_attempt_def)
  next
    case (entered j u b admitted)
    then have "bt_task_id u \<noteq> i" using t task_fits [OF ok, of j u] by auto
    then show ?thesis using entered(1) t(1) by (simp add: enter_run_def put_other set_async_def split: if_splits)
  next
    case (ended j u b fr script now)
    then have "bt_task_id u \<noteq> i" using t task_fits [OF ok, of j u] by auto
    moreover obtain u' r ev where fin: "finish_run fr script u = (u', r, ev)" by (metis prod.exhaust)
    ultimately have "bt_task_id (set_async (Settling r) False (settle_task r now u')) \<noteq> i"
      using finish_run_status [OF fin] by (simp add: set_async_def settle_task_def)
    then show ?thesis using ended(1) t(1) fin by (simp add: end_run_def Let_def put_other)
  next
    case (settled j u b retrying)
    then have id: "bt_task_id u \<noteq> i" using t task_fits [OF ok, of j u] by auto
    have "manager_ok (if retrying then m else publish_done_event u m)"
      using ok manager_ok_tasks [of "publish_done_event u m" m] by simp
    then have "dict_get (tm_tasks (trim_completed (if retrying then m else publish_done_event u m))) i = Some t"
      using trim_get_live t(1,4) by simp
    then show ?thesis using settled(1) t(1) id
      by (simp add: settle_attempt_def Let_def put_other set_async_def)
  next
    case (cancelled j)
    show ?thesis
    proof (cases "j = i")
      case True
      then show ?thesis using cancelled t by (simp add: cancel_def)
    next
      case False
      then have "dict_get (tm_tasks (snd (cancel j m))) i = dict_get (tm_tasks m) i"
        using task_fits [OF ok, of j]
        by (auto simp: cancel_def put_other set_async_def split: option.split)
      then show ?thesis using cancelled t(1) by simp
    qed
  next
    case (removed j)
    then show ?thesis using t by (auto simp: remove_commit_def remove_check_def dict_simps live_status_def)
  next
    case (subscribed thread_id)
    then show ?thesis using t(1) by (simp add: subscribe_def Let_def)
  next
    case (unsubscribed thread_id queue)
    then show ?thesis using t(1) by (simp add: unsubscribe_def Let_def split: option.split)
  next
    case (restored from_iso resolve rows now)
    show ?thesis
    proof (rule restore_cases [OF ok restored(2), of now])
      fix new assume new: "restore_from_persistence (task_from_record from_iso resolve) now rows m
          = trim_completed (m\<lparr>tm_tasks := foldl (\<lambda>d (i, t). dict_set i t d) (tm_tasks m) new\<rparr>)"
        "manager_ok (m\<lparr>tm_tasks := foldl (\<lambda>d (i, t). dict_set i t d) (tm_tasks m) new\<rparr>)"
        "\<And>i. i \<in> set (keys (tm_tasks m)) \<Longrightarrow> i \<notin> fst ` set new"
      have "i \<notin> fst ` set new" using new(3) dict_get_Some_key [OF t(1)] by simp
      then show ?thesis using restored(1) new(1) trim_get_live [OF new(2) _ t(4)] t(1) by (simp add: foldl_set_other)
    qed (use restored(1) t(1) in simp)
  qed
  then show "abandoned i t n"
    using t task_step_ok [OF step ok] by (auto simp: abandoned_def)
qed

lemma abandoned_for_ever: "task_steps m n \<Longrightarrow> abandoned i t m \<Longrightarrow> abandoned i t n"
  by (induction rule: task_steps.induct) (blast intro: abandoned_step)+

lemma abandoned_facts:
  "abandoned i t n \<Longrightarrow> dict_get (tm_tasks n) i = Some t \<and> \<not> remove_check i n \<and> fst (cancel i n) = ''not_running''"
  by (auto simp: abandoned_def remove_check_def cancel_def)

text \<open>
  C4: in every state the manager can reach, restarts with the rows of earlier managers included, each task's
  status agrees with its coroutine: pending before the first step of an attempt and between attempts,
  running with a start time during the run, final with a completion time once the attempt settles; a task
  is live exactly when it has no completion time, and a task without a coroutine is final. A coroutine that
  is over without having settled its attempt (cancelled before its first step, at the write of its start, or between two
  attempts, or turned away by a change of its thread) leaves the status as it was, pending or running, for good. The rows
  are those of the manager: a finished task has its completion time there.
\<close>

theorem task_status_agrees:
  assumes "task_steps new_task_manager m" and "dict_get (tm_tasks m) i = Some t"
  shows "status_fits t \<and> (live_status (bt_status t) \<longleftrightarrow> bt_completed_at t = None)
    \<and> (bt_async t = None \<longrightarrow> terminal (bt_status t))
    \<and> (live_status (bt_status t) \<and> (\<exists>a. bt_async t = Some a \<and> at_phase a = Done) \<longrightarrow>
        (\<forall>n. task_steps m n \<longrightarrow> dict_get (tm_tasks n) i = Some t))"
proof -
  have ok: "manager_ok m" by (rule task_steps_ok [OF assms(1) start_ok])
  then have fits: "status_fits t" using task_fits assms(2) by blast
  moreover have "dict_get (tm_tasks n) i = Some t"
    if "live_status (bt_status t)" "bt_async t = Some a" "at_phase a = Done" "task_steps m n" for a n
    using abandoned_for_ever [OF that(4), of i t] ok assms(2) that by (auto simp: abandoned_def)
  ultimately show ?thesis
    by (auto simp: status_fits_def terminal_def live_status_def split: option.splits async_phase.splits if_splits)
qed

definition demo_manager :: task_manager where
  "demo_manager = submit (demo_task ''t1'') new_task_manager"

text \<open>
  A task cancelled before its coroutine has taken its first step (\<open>cancel\<close> answers
  "cancelled") never becomes cancelled: the exception is raised before any handler is entered, the
  task stays pending through every later step of the manager, cannot be removed, and cannot be
  cancelled again.
\<close>

theorem early_cancel_leaves_pending:
  "\<exists>m i. task_steps new_task_manager m \<and> fst (cancel i m) = ''cancelled''
     \<and> (\<exists>m'. task_step (snd (cancel i m)) m'
          \<and> {n. task_steps m' n} \<subseteq> {n. (\<exists>t. dict_get (tm_tasks n) i = Some t \<and> bt_status t = PENDING)
                \<and> \<not> remove_check i n \<and> fst (cancel i n) = ''not_running''})"
proof -
  let ?i = "''t1''"
  have steps: "task_steps new_task_manager demo_manager"
    using task_steps.onward [OF task_steps.here task_step.submitted [of ?i new_task_manager "\<lambda>x. ''thread_'' @ x" demo_request 10]]
    by (simp add: demo_manager_def demo_task_def new_task_manager_def)
  have tasks: "tm_tasks demo_manager = [(?i, set_async Scheduled False (demo_task ?i))]"
    by (simp add: demo_manager_def submit_def demo_task_def new_task_def new_task_manager_def trim_completed_def
        MAX_COMPLETED_TASKS_def Let_def set_async_def)
  let ?m = "snd (cancel ?i demo_manager)"
  have cancelled: "fst (cancel ?i demo_manager) = ''cancelled''"
    and tasks': "tm_tasks ?m = [(?i, set_async Scheduled True (demo_task ?i))]"
    by (simp_all add: cancel_def tasks set_async_def put_task_def demo_task_def new_task_def)
  let ?m' = "begin_attempt 11 (set_async Scheduled True (demo_task ?i)) True ?m"
  have began: "task_step ?m ?m'"
    using task_step.began [of ?m ?i "set_async Scheduled True (demo_task ?i)" "\<lparr>at_phase = Scheduled, at_cancel = True\<rparr>" 11]
    by (simp add: tasks' set_async_def)
  have "manager_ok ?m'"
    using task_steps_ok [OF task_steps.onward [OF task_steps.onward [OF steps task_step.cancelled] began] start_ok] .
  then have "abandoned ?i (set_async Done False (demo_task ?i)) ?m'"
    by (simp add: abandoned_def begin_attempt_def put_task_def tasks' set_async_def demo_task_def new_task_def live_status_def)
  then have "(\<exists>t. dict_get (tm_tasks n) ?i = Some t \<and> bt_status t = PENDING) \<and> \<not> remove_check ?i n
      \<and> fst (cancel ?i n) = ''not_running''" if "task_steps ?m' n" for n
    using abandoned_facts [OF abandoned_for_ever [OF that]] by (auto simp: set_async_def demo_task_def new_task_def)
  then show ?thesis using steps cancelled began by blast
qed

theorem task_status_agrees_witness:
  "status_fits (set_async Scheduled False (demo_task ''t1''))
   \<and> live_status (bt_status (set_async Scheduled False (demo_task ''t1'')))"
proof -
  have steps: "task_steps new_task_manager demo_manager"
    using task_steps.onward [OF task_steps.here task_step.submitted [of "''t1''" new_task_manager "\<lambda>x. ''thread_'' @ x" demo_request 10]]
    by (simp add: demo_manager_def demo_task_def new_task_manager_def)
  have "dict_get (tm_tasks demo_manager) ''t1'' = Some (set_async Scheduled False (demo_task ''t1''))"
    by (simp add: demo_manager_def submit_def demo_task_def new_task_def new_task_manager_def trim_completed_def
        MAX_COMPLETED_TASKS_def Let_def set_async_def)
  then have "status_fits (set_async Scheduled False (demo_task ''t1''))"
    by (rule task_status_agrees [OF steps, THEN conjunct1])
  then show ?thesis by (simp add: set_async_def demo_task_def new_task_def live_status_def)
qed

section \<open>Restarts\<close>

lemma trim_subset: "set (tm_tasks (trim_completed m)) \<subseteq> set (tm_tasks m)"
proof -
  have "set (foldl (\<lambda>d (i, t). dict_pop (bt_task_id t) d) d xs) \<subseteq> set d" for xs and d :: "(string, background_task) dict"
    by (auto simp: pop_all)
  then show ?thesis by (auto simp: trim_completed_def Let_def)
qed

text \<open>
  after a restart no task is live without a coroutine: whatever the rows of the task table say,
  every task that \<open>restore_from_persistence\<close> adds is final, a task that was pending or running when
  the process stopped being marked as failed.
\<close>

theorem restored_tasks_are_final:
  "set (tm_tasks (restore_from_persistence read now rows m)) - set (tm_tasks m)
     \<subseteq> {(i, t). terminal (bt_status t)}"
proof (cases "restored_tasks read now (keys (tm_tasks m)) (take MAX_COMPLETED_TASKS rows) []")
  case None
  then show ?thesis by (simp add: restore_from_persistence_def)
next
  case (Some new)
  have "set (tm_tasks (restore_from_persistence read now rows m)) \<subseteq> set (tm_tasks m) \<union> set new"
    using Some trim_subset [of "m\<lparr>tm_tasks := foldl (\<lambda>d (i, t). dict_set i t d) (tm_tasks m) new\<rparr>"]
      update_all_set [of "tm_tasks m" new]
    by (auto simp: restore_from_persistence_def)
  moreover have "\<not> live_status (bt_status t)" if "(i, t) \<in> set new" for i t
    by (rule restored_tasks_all [OF Some, where Q = "\<lambda>i t. \<not> live_status (bt_status t)"])
      (use that in \<open>auto simp: interrupted_def live_status_def\<close>)
  ultimately show ?thesis by (auto simp: terminal_not_live)
qed

end
