(* ===== verification/Chat_Messages.thy ===== *)
theory Chat_Messages
  imports Message_Content
begin

text \<open>
  Chat messages and \<open>agent/modules/workflows/message_history.py\<close>: how a persisted history is
  normalised before it is sent to a model; and the validity test for message sequences of
  \<open>agent/modules/conversations/compaction.py\<close>.

  A LangChain message is the record of the attributes the code reads; its class is \<open>mg_kind\<close>. Tool
  calls are the dictionaries (or objects) of \<open>tool_calls\<close>. \<open>ToolResult\<close>, on which
  \<open>coding_message_for_model\<close> rests, is the parameter \<open>render\<close>: the content for the model, or \<open>None\<close>
  when the message is not a coding tool's.
\<close>

section \<open>Messages\<close>

datatype message_kind = Human | AI | Tool | System | Other

record message =
  mg_kind :: message_kind
  mg_id :: "string option"
  mg_content :: pyval
  mg_tool_calls :: "pyval list"
  mg_tool_call_id :: pyval
  mg_name :: "string option"
  mg_status :: string
  mg_kwargs :: "(string, pyval) dict"
  mg_artifact :: pyval

definition coding_message_for_model :: "(message \<Rightarrow> pyval option) \<Rightarrow> message \<Rightarrow> message" where
  "coding_message_for_model render m =
     (case render m of None \<Rightarrow> m | Some c \<Rightarrow> m\<lparr>mg_content := c, mg_artifact := PNone\<rparr>)"

section \<open>Assistant content\<close>

definition SKIPPED_ASSISTANT_BLOCK_TYPES :: "string list" where
  "SKIPPED_ASSISTANT_BLOCK_TYPES = [''reasoning_content'', ''thinking'', ''tool_use'']"

function assistant_text_from_part :: "pyval \<Rightarrow> string \<times> bool"
  and assistant_text_from_content_list :: "pyval list \<Rightarrow> string \<times> bool" where
  "assistant_text_from_part (PStr s) = (s, True)"
| "assistant_text_from_part (PDict d) =
     (if part_type d \<in> set SKIPPED_ASSISTANT_BLOCK_TYPES then ([], True)
      else (case get_item d ''text'' of
              PStr s \<Rightarrow> (s, True)
            | _ \<Rightarrow>
                (case get_item d ''content'' of
                   PStr s \<Rightarrow> (s, True)
                 | PList xs \<Rightarrow> assistant_text_from_content_list xs
                 | _ \<Rightarrow> ([], False))))"
| "assistant_text_from_part (PObj a) =
     (case get_item a ''text'' of PStr s \<Rightarrow> (s, True) | _ \<Rightarrow> ([], False))"
| "assistant_text_from_part PNone = ([], False)"
| "assistant_text_from_part (PBool b) = ([], False)"
| "assistant_text_from_part (PInt i) = ([], False)"
| "assistant_text_from_part (PList xs) = ([], False)"
| "assistant_text_from_content_list [] = ([], False)"
| "assistant_text_from_content_list (x # xs) =
     (let (text, handled) = assistant_text_from_part x; (rest, saw) = assistant_text_from_content_list xs
      in (if handled then text @ rest else rest, handled \<or> saw))"
  by pat_completeness auto
termination
  by (relation "measure (case_sum size (size_list size))") (auto dest: get_item_list_size)

definition has_assistant_signature :: "pyval list \<Rightarrow> bool" where
  "has_assistant_signature content = list_ex (\<lambda>part.
     case part of
       PDict d \<Rightarrow> truthy (get_item d ''signature'') \<or> truthy (get_item d ''thought_signature'')
         \<or> (case get_item d ''extras'' of PDict e \<Rightarrow> truthy (get_item e ''signature'') | _ \<Rightarrow> False)
     | _ \<Rightarrow> False) content"

section \<open>Human and tool content\<close>

fun human_text_from_part :: "pyval \<Rightarrow> string option" where
  "human_text_from_part (PStr s) = Some s"
| "human_text_from_part (PDict d) =
     (if part_type d \<noteq> ''text'' then None
      else (case get_item d ''text'' of PStr s \<Rightarrow> Some s | _ \<Rightarrow> None))"
| "human_text_from_part (PObj a) = (case get_item a ''text'' of PStr s \<Rightarrow> Some s | _ \<Rightarrow> None)"
| "human_text_from_part _ = None"

fun all_some :: "'a option list \<Rightarrow> 'a list option" where
  "all_some [] = Some []"
| "all_some (None # xs) = None"
| "all_some (Some x # xs) = map_option (\<lambda>ys. x # ys) (all_some xs)"

definition blank_line :: string where "blank_line = [CHR 0x0A, CHR 0x0A]"

definition human_text_from_content_list :: "pyval list \<Rightarrow> string option" where
  "human_text_from_content_list content =
     (if content = [] then None
      else map_option (\<lambda>texts. strip (join_str blank_line texts)) (all_some (map human_text_from_part content)))"

definition is_image_part :: "pyval \<Rightarrow> bool" where
  "is_image_part part =
     (case part of
        PDict d \<Rightarrow>
          lower_str (strip (py_str (py_or (get_item d ''type'') (PStr [])))) \<in> {''image'', ''image_url''}
          \<or> (case get_item d ''image_url'' of PStr s \<Rightarrow> True | PDict e \<Rightarrow> True | _ \<Rightarrow> False)
      | _ \<Rightarrow> False)"

function tool_part_has_image :: "pyval \<Rightarrow> bool"
  and tool_content_has_image :: "pyval list \<Rightarrow> bool" where
  "tool_part_has_image (PDict d) =
     (is_image_part (PDict d)
      \<or> (case get_item d ''content'' of PList xs \<Rightarrow> tool_content_has_image xs | _ \<Rightarrow> False))"
| "tool_part_has_image PNone = False"
| "tool_part_has_image (PBool b) = False"
| "tool_part_has_image (PInt i) = False"
| "tool_part_has_image (PStr s) = False"
| "tool_part_has_image (PList xs) = False"
| "tool_part_has_image (PObj a) = False"
| "tool_content_has_image [] = False"
| "tool_content_has_image (x # xs) = (tool_part_has_image x \<or> tool_content_has_image xs)"
  by pat_completeness auto
termination
  by (relation "measure (case_sum size (size_list size))") (auto dest: get_item_list_size)

definition tool_metadata_value :: "(string, pyval) dict \<Rightarrow> string list \<Rightarrow> string" where
  "tool_metadata_value d ks =
     (case List.find (\<lambda>k. case get_item d k of PStr s \<Rightarrow> strip s \<noteq> [] | _ \<Rightarrow> False) ks of
        Some k \<Rightarrow> (case get_item d k of PStr s \<Rightarrow> strip s | _ \<Rightarrow> [])
      | None \<Rightarrow> [])"

definition tool_omitted_content_text :: "(string, pyval) dict \<Rightarrow> string" where
  "tool_omitted_content_text d =
     (let part_type = lower_str (strip (py_str (py_or (get_item d ''type'') (PStr ''content''))));
          mime = tool_metadata_value d [''mime_type'', ''mimeType''];
          data = tool_metadata_value d [''base64'', ''data''];
          url = tool_metadata_value d [''url''];
          file_id = tool_metadata_value d [''file_id'', ''id''];
          metadata = (if mime \<noteq> [] then [''mime_type='' @ mime] else [])
            @ (if data \<noteq> [] then [''source=base64''] else [])
            @ (if url = [] then [] else if starts_with ''data:'' url then [''source=data_url''] else [''url='' @ url])
            @ (if file_id \<noteq> [] then [''id='' @ file_id] else []);
          suffix = (if metadata \<noteq> [] then '': '' @ join_str '', '' metadata else [])
      in ''['' @ part_type @ '' content omitted'' @ suffix @ '']'')"

function normalize_tool_part :: "pyval \<Rightarrow> pyval"
  and normalize_tool_content_for_model :: "pyval list \<Rightarrow> pyval list" where
  "normalize_tool_part (PDict d) =
     (if is_image_part (PDict d) \<or> human_text_from_part (PDict d) \<noteq> None then PDict d
      else (case get_item d ''content'' of
              PStr s \<Rightarrow> PDict d
            | PList xs \<Rightarrow> PDict (dict_set ''content'' (PList (normalize_tool_content_for_model xs)) d)
            | _ \<Rightarrow> PDict [(''type'', PStr ''text''), (''text'', PStr (tool_omitted_content_text d))]))"
| "normalize_tool_part PNone = PNone"
| "normalize_tool_part (PBool b) = PBool b"
| "normalize_tool_part (PInt i) = PInt i"
| "normalize_tool_part (PStr s) = PStr s"
| "normalize_tool_part (PList xs) = PList xs"
| "normalize_tool_part (PObj a) = PObj a"
| "normalize_tool_content_for_model [] = []"
| "normalize_tool_content_for_model (x # xs) = normalize_tool_part x # normalize_tool_content_for_model xs"
  by pat_completeness auto
termination
  by (relation "measure (case_sum size (size_list size))") (auto dest: get_item_list_size)

function tool_text_from_part :: "pyval \<Rightarrow> string"
  and tool_texts :: "pyval list \<Rightarrow> string list" where
  "tool_text_from_part (PDict d) =
     (case human_text_from_part (PDict d) of
        Some s \<Rightarrow> s
      | None \<Rightarrow>
          (case get_item d ''content'' of
             PStr s \<Rightarrow> s
           | PList xs \<Rightarrow>
               (let text = strip (join_str blank_line (filter (\<lambda>t. t \<noteq> []) (tool_texts xs)))
                in if text = [] then ''[tool returned non-text content]'' else text)
           | _ \<Rightarrow> tool_omitted_content_text d))"
| "tool_text_from_part (PObj a) =
     (case human_text_from_part (PObj a) of Some s \<Rightarrow> s | None \<Rightarrow> py_str (PObj a))"
| "tool_text_from_part (PStr s) = s"
| "tool_text_from_part PNone = py_str PNone"
| "tool_text_from_part (PBool b) = py_str (PBool b)"
| "tool_text_from_part (PInt i) = py_str (PInt i)"
| "tool_text_from_part (PList xs) = py_str (PList xs)"
| "tool_texts [] = []"
| "tool_texts (x # xs) = tool_text_from_part x # tool_texts xs"
  by pat_completeness auto
termination
  by (relation "measure (case_sum size (size_list size))") (auto dest: get_item_list_size)

definition tool_text_from_content_list :: "pyval list \<Rightarrow> string" where
  "tool_text_from_content_list content =
     (let text = strip (join_str blank_line (filter (\<lambda>t. t \<noteq> []) (tool_texts content)))
      in if text = [] then ''[tool returned non-text content]'' else text)"

section \<open>Normalising a history\<close>

definition normalize_message :: "(message \<Rightarrow> pyval option) \<Rightarrow> message \<Rightarrow> message" where
  "normalize_message render m =
     (let m = (if mg_kind m = Tool then coding_message_for_model render m else m)
      in case mg_content m of
           PList content \<Rightarrow>
             (case mg_kind m of
                Human \<Rightarrow>
                  (case human_text_from_content_list content of
                     Some text \<Rightarrow> m\<lparr>mg_content := PStr text\<rparr>
                   | None \<Rightarrow> m)
              | Tool \<Rightarrow>
                  (if tool_content_has_image content
                   then m\<lparr>mg_content := PList (normalize_tool_content_for_model content)\<rparr>
                   else m\<lparr>mg_content := PStr (tool_text_from_content_list content)\<rparr>)
              | AI \<Rightarrow>
                  (if has_assistant_signature content then m
                   else (case assistant_text_from_content_list content of
                           (text, True) \<Rightarrow> m\<lparr>mg_content := PStr text\<rparr>
                         | (_, False) \<Rightarrow> m))
              | _ \<Rightarrow> m)
         | _ \<Rightarrow> m)"

definition normalize_messages_for_chat_model :: "(message \<Rightarrow> pyval option) \<Rightarrow> message list \<Rightarrow> message list" where
  "normalize_messages_for_chat_model render messages = map (normalize_message render) messages"

section \<open>Valid message sequences\<close>

text \<open>The identity of a tool call given as a dictionary, or as an object with an \<open>id\<close>.\<close>

fun call_id :: "pyval \<Rightarrow> pyval option" where
  "call_id (PDict d) = dict_get d ''id''"
| "call_id (PObj a) = dict_get a ''id''"
| "call_id _ = None"

definition call_ids :: "message \<Rightarrow> pyval set" where
  "call_ids m = set (List.map_filter call_id (mg_tool_calls m))"

text \<open>The loop of \<open>is_valid_message_sequence\<close>, with the set \<open>active_tool_call_ids\<close>.\<close>

fun valid_from :: "pyval set \<Rightarrow> message list \<Rightarrow> bool" where
  "valid_from active [] = (active = {})"
| "valid_from active (m # ms) =
     (case mg_kind m of
        AI \<Rightarrow> active = {} \<and> valid_from (call_ids m) ms
      | Tool \<Rightarrow> truthy (mg_tool_call_id m) \<and> mg_tool_call_id m \<in> active
                \<and> valid_from (active - {mg_tool_call_id m}) ms
      | _ \<Rightarrow> active = {} \<and> valid_from active ms)"

definition is_valid_message_sequence :: "message list \<Rightarrow> bool" where
  "is_valid_message_sequence msgs = (msgs \<noteq> [] \<and> mg_kind (hd msgs) \<noteq> Tool \<and> valid_from {} msgs)"

text \<open>The results that follow an assistant message, one for each of its calls.\<close>

definition answers :: "pyval set \<Rightarrow> message list \<Rightarrow> bool" where
  "answers C rs \<longleftrightarrow> (\<forall>r \<in> set rs. mg_kind r = Tool \<and> truthy (mg_tool_call_id r))
     \<and> distinct (map mg_tool_call_id rs) \<and> set (map mg_tool_call_id rs) = C"

text \<open>A conversation as turns: an assistant message comes with the results of its calls.\<close>

inductive turns :: "message list \<Rightarrow> bool" where
  turns_Nil: "turns []"
| turns_plain: "mg_kind m \<noteq> AI \<Longrightarrow> mg_kind m \<noteq> Tool \<Longrightarrow> turns ms \<Longrightarrow> turns (m # ms)"
| turns_AI: "mg_kind m = AI \<Longrightarrow> answers (call_ids m) rs \<Longrightarrow> turns ms \<Longrightarrow> turns (m # rs @ ms)"

lemma answers_Cons:
  "answers C (r # rs) \<longleftrightarrow> mg_kind r = Tool \<and> truthy (mg_tool_call_id r) \<and> mg_tool_call_id r \<in> C
     \<and> answers (C - {mg_tool_call_id r}) rs"
  unfolding answers_def by (auto simp: image_iff)

lemma answers_Nil [simp]: "answers C [] \<longleftrightarrow> C = {}"
  by (auto simp: answers_def)

lemma valid_from_answers: "answers A rs \<Longrightarrow> valid_from {} ms \<Longrightarrow> valid_from A (rs @ ms)"
  by (induction rs arbitrary: A) (auto simp: answers_Cons)

lemma turns_valid: "turns ms \<Longrightarrow> valid_from {} ms"
proof (induction rule: turns.induct)
  case (turns_plain m ms)
  then show ?case by (cases "mg_kind m") auto
next
  case (turns_AI m rs ms)
  then show ?case using valid_from_answers by simp
qed simp

lemma valid_turns: "valid_from A ms \<Longrightarrow> \<exists>rs rest. ms = rs @ rest \<and> answers A rs \<and> turns rest"
proof (induction ms arbitrary: A)
  case Nil
  then show ?case by (auto intro: turns_Nil)
next
  case (Cons m ms)
  have plain: "\<exists>rs rest. m # ms = rs @ rest \<and> answers A rs \<and> turns rest" if "turns (m # ms)" "A = {}"
    by (rule exI [of _ "[]"], rule exI [of _ "m # ms"]) (use that in simp)
  consider (ai) "mg_kind m = AI" | (tool) "mg_kind m = Tool" | (other) "mg_kind m \<noteq> AI" "mg_kind m \<noteq> Tool"
    by blast
  then show ?case
  proof cases
    case ai
    then have "A = {}" "valid_from (call_ids m) ms" using Cons.prems by auto
    then obtain rs rest where "ms = rs @ rest" "answers (call_ids m) rs" "turns rest"
      using Cons.IH by blast
    then show ?thesis using plain \<open>A = {}\<close> turns_AI ai by simp
  next
    case tool
    then have id: "truthy (mg_tool_call_id m)" "mg_tool_call_id m \<in> A" and "valid_from (A - {mg_tool_call_id m}) ms"
      using Cons.prems by auto
    then obtain rs rest where "ms = rs @ rest" "answers (A - {mg_tool_call_id m}) rs" "turns rest"
      using Cons.IH by blast
    then have "m # ms = (m # rs) @ rest \<and> answers A (m # rs) \<and> turns rest"
      using id tool by (simp add: answers_Cons)
    then show ?thesis by blast
  next
    case other
    then have A: "A = {}" "valid_from {} ms" using Cons.prems by (cases "mg_kind m"; simp)+
    then obtain rs rest where "ms = rs @ rest" "answers {} rs" "turns rest" using Cons.IH by blast
    then have "turns ms" by (cases rs) (auto simp: answers_Cons)
    then show ?thesis using plain A(1) turns_plain other by simp
  qed
qed

lemma valid_iff_turns: "is_valid_message_sequence ms \<longleftrightarrow> ms \<noteq> [] \<and> turns ms"
proof
  assume v: "is_valid_message_sequence ms"
  then obtain rs rest where "ms = rs @ rest" "answers {} rs" "turns rest"
    using valid_turns [of "{}" ms] by (auto simp: is_valid_message_sequence_def)
  then show "ms \<noteq> [] \<and> turns ms"
    using v by (cases rs) (auto simp: answers_Cons is_valid_message_sequence_def)
next
  assume t: "ms \<noteq> [] \<and> turns ms"
  then have "mg_kind (hd ms) \<noteq> Tool" by (auto elim: turns.cases)
  then show "is_valid_message_sequence ms"
    using t turns_valid by (simp add: is_valid_message_sequence_def)
qed

lemma turns_append: "turns xs \<Longrightarrow> turns ys \<Longrightarrow> turns (xs @ ys)"
  by (induction rule: turns.induct) (auto intro: turns.intros simp: turns_AI)

text \<open>
  A sequence passes \<open>is_valid_message_sequence\<close> exactly when it is a non-empty conversation of
  turns, where each assistant message is followed at once by exactly one result for each tool call
  identity it has, and there are no other results.
\<close>

theorem valid_sequence_is_turns: "is_valid_message_sequence ms \<longleftrightarrow> ms \<noteq> [] \<and> turns ms"
  by (rule valid_iff_turns)

section \<open>Normalisation keeps the conversation\<close>

lemma normalize_message_frame:
  "mg_kind (normalize_message render m) = mg_kind m"
  "mg_id (normalize_message render m) = mg_id m"
  "mg_tool_call_id (normalize_message render m) = mg_tool_call_id m"
  "mg_tool_calls (normalize_message render m) = mg_tool_calls m"
  by (auto simp: normalize_message_def coding_message_for_model_def Let_def
      split: pyval.splits message_kind.splits option.splits prod.splits bool.splits)

lemma normalize_valid_from: "valid_from A (map (normalize_message render) ms) = valid_from A ms"
  by (induction A ms rule: valid_from.induct)
     (auto simp: normalize_message_frame call_ids_def split: message_kind.splits)

text \<open>
  Normalising a history for a model changes contents only: the messages keep their classes,
  identities and tool calls in their order, and the history is a valid sequence exactly when it was one.
\<close>

theorem normalize_keeps_conversation:
  "map (\<lambda>m. (mg_kind m, mg_id m, mg_tool_calls m, mg_tool_call_id m)) (normalize_messages_for_chat_model render ms)
     = map (\<lambda>m. (mg_kind m, mg_id m, mg_tool_calls m, mg_tool_call_id m)) ms
   \<and> is_valid_message_sequence (normalize_messages_for_chat_model render ms) = is_valid_message_sequence ms"
proof -
  have "ms \<noteq> [] \<Longrightarrow> mg_kind (hd (map (normalize_message render) ms)) = mg_kind (hd ms)"
    by (cases ms) (simp_all add: normalize_message_frame)
  then show ?thesis
    by (auto simp: normalize_messages_for_chat_model_def normalize_message_frame is_valid_message_sequence_def
        normalize_valid_from)
qed

text \<open>Two calls under one identity count as one, whatever the docstring's "exactly one result" promises.\<close>

definition duplicate_calls :: "message list" where
  "duplicate_calls =
     [\<lparr>mg_kind = AI, mg_id = Some ''a'', mg_content = PStr [],
       mg_tool_calls = [PDict [(''id'', PStr ''c''), (''name'', PStr ''read'')],
                        PDict [(''id'', PStr ''c''), (''name'', PStr ''write'')]],
       mg_tool_call_id = PNone, mg_name = None, mg_status = [], mg_kwargs = [], mg_artifact = PNone\<rparr>,
      \<lparr>mg_kind = Tool, mg_id = Some ''t'', mg_content = PStr ''ok'', mg_tool_calls = [],
       mg_tool_call_id = PStr ''c'', mg_name = Some ''read'', mg_status = ''success'', mg_kwargs = [],
       mg_artifact = PNone\<rparr>]"

lemma duplicate_calls_accepted: "is_valid_message_sequence duplicate_calls"
  by (simp add: is_valid_message_sequence_def duplicate_calls_def call_ids_def List.map_filter_def)

end
