(* ===== verification/Compaction.thy ===== *)
theory Compaction
  imports Chat_Messages Session_Guard "HOL-Library.Sublist"
begin

text \<open>
  Model of \<open>agent/modules/conversations/compaction.py\<close> and \<open>agent/modules/workflows/history_trim.py\<close>:
  replacing the older part of a conversation by a summary within a token budget, and trimming a
  channel's history.

  LangChain's \<open>trim_messages\<close>, the token counter and the summarising model are parameters. An LLM
  call may answer differently each time, so it is given the number of the attempt. \<open>uuid4\<close> is the
  pair \<open>ids\<close> of the two summary messages' identities.
\<close>

section \<open>The transcript for the summariser\<close>

text \<open>\<open>str.splitlines\<close> on U+0000 to U+00FF.\<close>

definition is_line_break :: "char \<Rightarrow> bool" where
  "is_line_break c = ((of_char c :: nat) \<in> {10, 11, 12, 13, 28, 29, 30, 133})"

function split_lines :: "string \<Rightarrow> string list" where
  "split_lines s =
     (if s = [] then []
      else (let line = takeWhile (\<lambda>c. \<not> is_line_break c) s; rest = dropWhile (\<lambda>c. \<not> is_line_break c) s
            in if rest = [] then [line]
               else if starts_with [CHR 0x0D, CHR 0x0A] rest then line # split_lines (drop 2 rest)
               else line # split_lines (drop 1 rest)))"
  by pat_completeness auto
termination
proof -
  have "length (dropWhile P s) - n < length s" if "dropWhile P s \<noteq> []" "0 < n" for P and s :: string and n
    using length_dropWhile_le [of P s] that by (cases "dropWhile P s") auto
  then show ?thesis by (relation "measure length") auto
qed

declare split_lines.simps [simp del]

text \<open>\<open>re.search("error|fail|exception|traceback|warning|fatal|exit.code|assert|retained.output", line, re.I)\<close>.\<close>

fun matches_words :: "string \<Rightarrow> string \<Rightarrow> string \<Rightarrow> bool" where
  "matches_words a b [] = False"
| "matches_words a b (c # s) =
     (starts_with a (c # s) \<and>
        (case drop (length a) (c # s) of [] \<Rightarrow> False | x # rest \<Rightarrow> x \<noteq> CHR 0x0A \<and> starts_with b rest)
      \<or> matches_words a b s)"

definition is_diagnostic :: "string \<Rightarrow> bool" where
  "is_diagnostic line =
     (let low = lower_str line
      in list_ex (\<lambda>w. contains_sub w low)
           [''error'', ''fail'', ''exception'', ''traceback'', ''warning'', ''fatal'', ''assert'']
         \<or> matches_words ''exit'' ''code'' low \<or> matches_words ''retained'' ''output'' low)"

text \<open>The loop over the lines of the omitted middle, with the budget \<open>remaining\<close>.\<close>

fun diagnostic_lines :: "int \<Rightarrow> string list \<Rightarrow> string list" where
  "diagnostic_lines remaining [] = []"
| "diagnostic_lines remaining (line # lines) =
     (if is_diagnostic line
      then (let excerpt = take (nat (min remaining 1000)) line; left = remaining - int (length excerpt + 1)
            in excerpt # (if left \<le> 0 then [] else diagnostic_lines left lines))
      else diagnostic_lines remaining lines)"

definition newline :: string where "newline = [CHR 0x0A]"

definition summary_excerpt :: "string \<Rightarrow> string" where
  "summary_excerpt text =
     (if length text \<le> 12000 then text
      else (let middle = drop 4000 (take (length text - 4000) text)
            in join_str newline
                 ([take 4000 text, ''[Middle output omitted; selected diagnostics follow]'']
                  @ diagnostic_lines 3000 (split_lines middle)
                  @ [''[End of output]'', drop (length text - 4000) text])))"

text \<open>\<open>json.dumps(v, ensure_ascii=False, default=str)\<close>.\<close>

definition json_char :: "char \<Rightarrow> string" where
  "json_char c = (let n = (of_char c :: nat); bs = char_of (92 :: nat) in
     if n = 34 \<or> n = 92 then [bs, c]
     else if n = 8 then [bs, CHR ''b''] else if n = 9 then [bs, CHR ''t'']
     else if n = 10 then [bs, CHR ''n''] else if n = 12 then [bs, CHR ''f'']
     else if n = 13 then [bs, CHR ''r'']
     else if n < 32 then [bs, CHR ''u'', CHR ''0'', CHR ''0'', hex_digit (n div 16), hex_digit (n mod 16)]
     else [c])"

definition json_str :: "string \<Rightarrow> string" where
  "json_str s = (let q = char_of (34 :: nat) in q # concat (map json_char s) @ [q])"

fun json_dumps :: "pyval \<Rightarrow> string"
  and json_items :: "pyval list \<Rightarrow> string list"
  and json_fields :: "(string \<times> pyval) list \<Rightarrow> string list" where
  "json_dumps PNone = ''null''"
| "json_dumps (PBool b) = (if b then ''true'' else ''false'')"
| "json_dumps (PInt i) = int_str i"
| "json_dumps (PStr s) = json_str s"
| "json_dumps (PList xs) = ''['' @ join_str '', '' (json_items xs) @ '']''"
| "json_dumps (PDict d) = ''{'' @ join_str '', '' (json_fields d) @ ''}''"
| "json_dumps (PObj a) = json_str (attr_str ''__str__'' a)"
| "json_items [] = []"
| "json_items (x # xs) = json_dumps x # json_items xs"
| "json_fields [] = []"
| "json_fields ((k, x) # xs) = (json_str k @ '': '' @ json_dumps x) # json_fields xs"

fun summary_media_reference :: "pyval \<Rightarrow> pyval"
  and media_fields :: "(string \<times> pyval) list \<Rightarrow> (string \<times> pyval) list" where
  "summary_media_reference (PStr s) = (if starts_with ''data:'' s then PStr ''[embedded media]'' else PStr s)"
| "summary_media_reference (PDict d) = PDict (media_fields d)"
| "summary_media_reference PNone = PNone"
| "summary_media_reference (PBool b) = PBool b"
| "summary_media_reference (PInt i) = PInt i"
| "summary_media_reference (PList xs) = PList xs"
| "summary_media_reference (PObj a) = PObj a"
| "media_fields [] = []"
| "media_fields ((k, v) # d) =
     (if k \<in> {''url'', ''file_id'', ''path'', ''media_type''}
      then (k, summary_media_reference v) # media_fields d else media_fields d)"

definition media_keys :: "string list" where
  "media_keys = [''url'', ''image_url'', ''file_id'', ''file_path'', ''filename'', ''name'', ''mime_type'',
     ''mimeType'', ''source'']"

definition content_part :: "pyval \<Rightarrow> string option" where
  "content_part part =
     (case part of
        PStr s \<Rightarrow> Some s
      | PDict d \<Rightarrow>
          (if get_item d ''type'' \<in> {PStr ''text'', PStr ''input_text''}
           then Some (py_str (get_default d ''text'' (PStr [])))
           else if get_item d ''type'' \<in> {PStr ''thinking'', PStr ''reasoning'', PStr ''reasoning_content'', PStr ''tool_use''}
           then None
           else (let refs = filter (\<lambda>(k, v). truthy v) (map (\<lambda>k. (k, summary_media_reference (get_item d k))) media_keys)
                 in Some (''['' @ py_str (get_default d ''type'' (PStr ''media'')) @ '': '' @ json_dumps (PDict refs) @ '']'')))
      | _ \<Rightarrow> None)"

definition summary_content :: "pyval \<Rightarrow> string" where
  "summary_content content =
     (case content of
        PStr s \<Rightarrow> s
      | PList parts \<Rightarrow> join_str newline (List.map_filter content_part parts)
      | v \<Rightarrow> py_str (py_or v (PStr [])))"

fun summary_arguments :: "pyval \<Rightarrow> pyval"
  and argument_items :: "pyval list \<Rightarrow> pyval list"
  and argument_fields :: "(string \<times> pyval) list \<Rightarrow> (string \<times> pyval) list" where
  "summary_arguments (PStr s) = PStr (summary_excerpt s)"
| "summary_arguments (PDict d) = PDict (argument_fields d)"
| "summary_arguments (PList xs) = PList (argument_items xs)"
| "summary_arguments PNone = PNone"
| "summary_arguments (PBool b) = PBool b"
| "summary_arguments (PInt i) = PInt i"
| "summary_arguments (PObj a) = PObj a"
| "argument_items [] = []"
| "argument_items (x # xs) = summary_arguments x # argument_items xs"
| "argument_fields [] = []"
| "argument_fields ((k, x) # d) = (k, summary_arguments x) # argument_fields d"

definition pick_fields :: "string list \<Rightarrow> (string, pyval) dict \<Rightarrow> (string, pyval) dict" where
  "pick_fields ks d = List.map_filter (\<lambda>k. map_option (Pair k) (dict_get d k)) ks"

definition attachment_references :: "pyval list \<Rightarrow> pyval" where
  "attachment_references items = PList (List.map_filter (\<lambda>item. case item of
     PDict d \<Rightarrow> Some (PDict (map (\<lambda>(k, v). (k, summary_media_reference v))
         (pick_fields [''name'', ''filename'', ''file_path'', ''path'', ''url'', ''mime_type'', ''file_id''] d)))
   | _ \<Rightarrow> None) items)"

definition human_lines :: "message \<Rightarrow> string list" where
  "human_lines m = (''User: '' @ strip (summary_content (mg_content m)))
     # (case get_item (mg_kwargs m) ''attachments'' of
          PList items \<Rightarrow> [''User attachments: '' @ json_dumps (attachment_references items)]
        | _ \<Rightarrow> [])"

definition call_name :: "string \<Rightarrow> pyval \<Rightarrow> string option" where
  "call_name other call = (case call of PDict d \<Rightarrow> Some (py_str (get_default d ''name'' (PStr other))) | _ \<Rightarrow> None)"

definition assistant_lines :: "message \<Rightarrow> string list" where
  "assistant_lines m =
     (let names = List.map_filter (call_name []) (mg_tool_calls m);
          tc_str = (if names = [] then [] else '' [Invoked tools: '' @ join_str '', '' names @ '']'')
      in (''Assistant: '' @ strip (final_text (mg_content m)) @ tc_str)
         # List.map_filter (\<lambda>call. case call of
             PDict d \<Rightarrow> Some (''Tool call: '' @ json_dumps (summary_arguments (PDict d))) | _ \<Rightarrow> None) (mg_tool_calls m))"

definition note_tool_names :: "message \<Rightarrow> (string, string) dict \<Rightarrow> (string, string) dict" where
  "note_tool_names m names = foldl (\<lambda>names call. case call of
     PDict d \<Rightarrow> dict_set (py_str (get_default d ''id'' (PStr []))) (py_str (get_default d ''name'' (PStr ''tool''))) names
   | _ \<Rightarrow> names) names (mg_tool_calls m)"

definition tool_metadata :: "message \<Rightarrow> (string, pyval) dict" where
  "tool_metadata m =
     (let artifact = (case mg_artifact m of PDict d \<Rightarrow> d | _ \<Rightarrow> []);
          metadata = pick_fields [''status'', ''error'', ''warnings'', ''output_paths'', ''output_refs'',
            ''capture_truncated'', ''output_truncated''] artifact
      in case get_item (mg_kwargs m) ''output_retention'' of
           PDict d \<Rightarrow> metadata @ [(''output_retention'', PDict d)]
         | _ \<Rightarrow> metadata)"

definition tool_lines :: "(message \<Rightarrow> pyval option) \<Rightarrow> (string, string) dict \<Rightarrow> message \<Rightarrow> string list" where
  "tool_lines render names m =
     (let call = py_str (mg_tool_call_id m);
          name = (case mg_name m of
              Some n \<Rightarrow> if n \<noteq> [] then n else (case dict_get names call of Some t \<Rightarrow> t | None \<Rightarrow> ''tool'')
            | None \<Rightarrow> (case dict_get names call of Some t \<Rightarrow> t | None \<Rightarrow> ''tool''));
          content = summary_excerpt (summary_content (mg_content (coding_message_for_model render m)));
          metadata = tool_metadata m
      in [''Tool ('' @ name @ ''): '' @ strip content,
          ''Tool result status: '' @ mg_status m @ ''; call_id='' @ call]
         @ (if metadata = [] then []
            else [''Tool result metadata: '' @ json_dumps (summary_arguments (PDict metadata))]))"

fun message_lines :: "(message \<Rightarrow> pyval option) \<Rightarrow> (string, string) dict \<Rightarrow> message list \<Rightarrow> string list" where
  "message_lines render names [] = []"
| "message_lines render names (m # ms) =
     (case mg_kind m of
        Human \<Rightarrow> human_lines m @ message_lines render names ms
      | AI \<Rightarrow> assistant_lines m @ message_lines render (note_tool_names m names) ms
      | Tool \<Rightarrow> tool_lines render names m @ message_lines render names ms
      | System \<Rightarrow> (''System: '' @ strip (py_str (mg_content m))) # message_lines render names ms
      | Other \<Rightarrow> message_lines render names ms)"

definition format_messages_for_summary :: "(message \<Rightarrow> pyval option) \<Rightarrow> message list \<Rightarrow> string" where
  "format_messages_for_summary render ms = join_str blank_line (message_lines render [] ms)"

section \<open>Where to cut\<close>

datatype compaction_error =
    Value_error string
  | Lookup_error string
  | Budget_error string
  | Conflict_error string
  | Summary_error string

definition DEFAULT_KEEP_RECENT_MESSAGES :: int where "DEFAULT_KEEP_RECENT_MESSAGES = 6"

definition get_default_keep_recent_messages :: "int \<Rightarrow> int" where
  "get_default_keep_recent_messages configured = max 2 configured"

text \<open>\<open>min(items, key=f)\<close> and \<open>max(items, key=f)\<close>: the first of the extreme items.\<close>

fun first_min :: "('a \<Rightarrow> int) \<Rightarrow> 'a \<Rightarrow> 'a list \<Rightarrow> 'a" where
  "first_min f best [] = best"
| "first_min f best (x # xs) = first_min f (if f x < f best then x else best) xs"

lemma first_min_in: "first_min f b xs \<in> set (b # xs)"
proof (induction xs arbitrary: b)
  case (Cons x xs)
  then show ?case using Cons [of "if f x < f b then x else b"] by (auto split: if_splits)
qed simp

lemma first_min_le: "x \<in> set (b # xs) \<Longrightarrow> f (first_min f b xs) \<le> f x"
proof (induction xs arbitrary: b x)
  case (Cons y ys)
  let ?c = "if f y < f b then y else b"
  have "f (first_min f ?c ys) \<le> f ?c" using Cons.IH [of ?c ?c] by simp
  moreover have "x \<in> set ys \<Longrightarrow> f (first_min f ?c ys) \<le> f x" using Cons.IH [of x ?c] by simp
  ultimately show ?case using Cons.prems by (auto split: if_splits)
qed simp

definition safe_cutoffs :: "message list \<Rightarrow> nat list" where
  "safe_cutoffs messages =
     filter (\<lambda>i. is_valid_message_sequence (drop i messages)) [1..<length messages]"

definition resolve_compaction_cutoff :: "message list \<Rightarrow> int \<Rightarrow> compaction_error + nat" where
  "resolve_compaction_cutoff messages target_keep =
     (let total = length messages in
      if total < 3
      then Inl (Value_error (''Conversation has '' @ int_str (int total) @ '' message(s), which is already concise.''))
      else (let safe = safe_cutoffs messages;
                human = filter (\<lambda>i. mg_kind (messages ! i) = Human) safe;
                near = filter (\<lambda>i. int (total - i) \<le> target_keep) human
            in case safe of
                 [] \<Rightarrow> Inl (Value_error ''Unable to compact conversation further while preserving valid message structure.'')
               | s # ss \<Rightarrow>
                   (case human of
                      h # hs \<Rightarrow>
                        (case near of
                           w # ws \<Rightarrow> Inr (first_min int w ws)
                         | [] \<Rightarrow> Inr (first_min (\<lambda>i. - int i) h hs))
                    | [] \<Rightarrow> (let target = max 1 (int total - target_keep)
                             in Inr (first_min (\<lambda>i. \<bar>int i - target\<bar>) s ss)))))"

text \<open>
  The attempt with \<open>trim_messages(strategy="last", token_counter=len, start_on="human")\<close>, which is the
  parameter \<open>trim\<close> (\<open>None\<close> when it raises).
\<close>

definition find_index :: "('a \<Rightarrow> bool) \<Rightarrow> 'a list \<Rightarrow> nat option" where
  "find_index P xs = (let k = length (takeWhile (\<lambda>x. \<not> P x) xs) in if k < length xs then Some k else None)"

definition trimmed_cutoff :: "(int \<Rightarrow> message list \<Rightarrow> message list option) \<Rightarrow> message list \<Rightarrow> int \<Rightarrow> nat option" where
  "trimmed_cutoff trim messages keep =
     (case trim keep messages of
        None \<Rightarrow> None
      | Some trimmed \<Rightarrow>
          if trimmed \<noteq> [] \<and> length trimmed < length messages \<and> is_valid_message_sequence trimmed
          then (case mg_id (hd trimmed) of
                  None \<Rightarrow> None
                | Some first_id \<Rightarrow>
                    if first_id = [] then None
                    else (case find_index (\<lambda>m. mg_id m = Some first_id) messages of
                            None \<Rightarrow> None
                          | Some i \<Rightarrow> if 0 < i \<and> i < length messages then Some i else None))
          else None)"

section \<open>Compacting a history\<close>

definition COMPACTED_CONTEXT_TEMPLATE :: "string \<Rightarrow> string" where
  "COMPACTED_CONTEXT_TEMPLATE summary =
     ''[Conversation Context Summary]'' @ newline
     @ ''The earlier conversation before this point was compacted to conserve context:'' @ blank_line
     @ summary @ blank_line @ ''Continue the active request using this context.''"

definition COMPACTED_CONTEXT_ACKNOWLEDGEMENT :: string where
  "COMPACTED_CONTEXT_ACKNOWLEDGEMENT =
     ''I have reviewed the conversation summary and will continue the active request.''"

definition build_summary_message_pair :: "string \<times> string \<Rightarrow> string \<Rightarrow> message \<times> message" where
  "build_summary_message_pair ids summary =
     (let marks = [(''is_compact_summary'', PBool True)] in
      (\<lparr>mg_kind = Human, mg_id = Some (''compact-'' @ fst ids), mg_content = PStr (COMPACTED_CONTEXT_TEMPLATE summary),
        mg_tool_calls = [], mg_tool_call_id = PNone, mg_name = None, mg_status = [], mg_kwargs = marks,
        mg_artifact = PNone\<rparr>,
       \<lparr>mg_kind = AI, mg_id = Some (''compact-ack-'' @ snd ids), mg_content = PStr COMPACTED_CONTEXT_ACKNOWLEDGEMENT,
        mg_tool_calls = [], mg_tool_call_id = PNone, mg_name = None, mg_status = [], mg_kwargs = marks,
        mg_artifact = PNone\<rparr>))"

text \<open>\<open>inject\<close>: the summary in front of the retained messages.\<close>

definition inject_summary :: "string \<times> string \<Rightarrow> message list \<Rightarrow> string \<Rightarrow> nat \<Rightarrow> message list" where
  "inject_summary ids messages summary i =
     (let (human, ai) = build_summary_message_pair ids summary; recent = drop i messages
      in if recent \<noteq> [] \<and> mg_kind (hd recent) = AI then human # recent else human # ai # recent)"

text \<open>
  The summarising call: the compactor agent's system prompt (\<open>None\<close> if there is no such agent), and the
  model, which gets the attempt, the two prompts and the output limit and gives the content of the
  response, or the text of the exception.
\<close>

record compaction_env =
  ce_trim :: "int \<Rightarrow> message list \<Rightarrow> message list option"
  ce_tokens :: "message list \<Rightarrow> int"
  ce_render :: "message \<Rightarrow> pyval option"
  ce_ids :: "string \<times> string"
  ce_prompt :: "string option"
  ce_model :: "nat \<Rightarrow> string \<Rightarrow> string \<Rightarrow> int option \<Rightarrow> string + pyval"

definition quoted :: "string \<Rightarrow> string" where
  "quoted s = char_of (39 :: nat) # s @ [char_of (39 :: nat)]"

definition generate_context_summary ::
  "compaction_env \<Rightarrow> nat \<Rightarrow> string \<Rightarrow> message list \<Rightarrow> int option \<Rightarrow> compaction_error + string" where
  "generate_context_summary E k thread_id messages limit =
     (case ce_prompt E of
        None \<Rightarrow> Inl (Summary_error (''Conversation compactor agent '' @ quoted ''conversation-compactor'' @ '' is unavailable.''))
      | Some prompt \<Rightarrow>
          (let system = prompt @ (case limit of None \<Rightarrow> []
                 | Some n \<Rightarrow> '' Keep the summary within '' @ int_str n @ '' tokens.'');
               user = ''Earlier Conversation History to Summarize:'' @ blank_line
                 @ format_messages_for_summary (ce_render E) messages
           in case ce_model E k system user limit of
                Inl e \<Rightarrow> Inl (Summary_error (''Failed to generate conversation summary for thread ''
                           @ quoted thread_id @ '': '' @ e))
              | Inr response \<Rightarrow>
                  (let summary = final_text response
                   in if strip summary = []
                      then Inl (Summary_error (''Conversation summarizer returned an empty summary for thread ''
                             @ quoted thread_id @ ''.''))
                      else Inr (strip summary))))"

text \<open>\<open>count\<close>: the token count of the normalised messages.\<close>

definition history_tokens :: "compaction_env \<Rightarrow> message list \<Rightarrow> int" where
  "history_tokens E items = ce_tokens E (normalize_messages_for_chat_model (ce_render E) items)"

abbreviation inject :: "compaction_env \<Rightarrow> message list \<Rightarrow> string \<Rightarrow> nat \<Rightarrow> message list" where
  "inject E messages \<equiv> inject_summary (ce_ids E) messages"

record compacted_history =
  ch_messages :: "message list"
  ch_summary :: string
  ch_compacted_count :: nat
  ch_kept_count :: nat

definition compacted :: "compaction_env \<Rightarrow> message list \<Rightarrow> string \<Rightarrow> nat \<Rightarrow> compacted_history" where
  "compacted E messages summary cutoff =
     \<lparr>ch_messages = inject E messages summary cutoff, ch_summary = summary, ch_compacted_count = cutoff,
      ch_kept_count = length messages - cutoff\<rparr>"

definition summary_limit :: "compaction_env \<Rightarrow> message list \<Rightarrow> int \<Rightarrow> nat \<Rightarrow> nat \<Rightarrow> int" where
  "summary_limit E messages budget k cutoff =
     min 2048 (budget - history_tokens E (inject E messages [] cutoff)) div 2 ^ k"

text \<open>\<open>for attempt in range(3)\<close>, on the attempts left.\<close>

fun summary_attempts ::
  "compaction_env \<Rightarrow> string \<Rightarrow> message list \<Rightarrow> int option \<Rightarrow> nat list \<Rightarrow> nat list \<Rightarrow> nat
   \<Rightarrow> compaction_error + compacted_history" where
  "summary_attempts E thread_id messages budget safe [] cutoff =
     Inl (Budget_error ''Conversation summary could not fit within the input budget after three attempts.'')"
| "summary_attempts E thread_id messages budget safe (k # ks) cutoff =
     (case budget of
        None \<Rightarrow>
          (case generate_context_summary E k thread_id (take cutoff messages) None of
             Inl e \<Rightarrow> Inl e
           | Inr summary \<Rightarrow> Inr (compacted E messages summary cutoff))
      | Some b \<Rightarrow>
          (let limit = summary_limit E messages b k cutoff in
           if limit \<le> 0
           then Inl (Budget_error ''The latest message or complete tool group cannot fit alongside a conversation summary.'')
           else (case generate_context_summary E k thread_id (take cutoff messages) (Some limit) of
                   Inl e \<Rightarrow> Inl e
                 | Inr summary \<Rightarrow>
                     if history_tokens E (inject E messages summary cutoff) \<le> b
                     then Inr (compacted E messages summary cutoff)
                     else (let cutoff' = (case List.find (\<lambda>i. cutoff < i
                                   \<and> history_tokens E (inject E messages summary i) \<le> b) safe of
                                 Some i \<Rightarrow> i | None \<Rightarrow> cutoff)
                           in summary_attempts E thread_id messages budget safe ks cutoff'))))"

definition starting_cutoff :: "compaction_env \<Rightarrow> message list \<Rightarrow> int \<Rightarrow> compaction_error + nat" where
  "starting_cutoff E messages keep =
     (case trimmed_cutoff (ce_trim E) messages keep of
        Some i \<Rightarrow> Inr i
      | None \<Rightarrow> resolve_compaction_cutoff messages keep)"

text \<open>The later valid cuts a budget may force, and the one to start from.\<close>

definition budget_cutoffs :: "message list \<Rightarrow> nat \<Rightarrow> nat list" where
  "budget_cutoffs messages cutoff =
     cutoff # filter (\<lambda>i. is_valid_message_sequence (drop i messages)) [cutoff + 1..<length messages]"

definition budget_start :: "compaction_env \<Rightarrow> message list \<Rightarrow> int \<Rightarrow> nat list \<Rightarrow> nat" where
  "budget_start E messages budget safe =
     (let reserve = min 1024 (max 1 (budget div 3));
          size = (\<lambda>i. history_tokens E (inject E messages [] i))
      in case List.find (\<lambda>i. size i + reserve \<le> budget) safe of
           Some i \<Rightarrow> i | None \<Rightarrow> first_min size (hd safe) (tl safe))"

definition compact_message_history ::
  "compaction_env \<Rightarrow> string \<Rightarrow> message list \<Rightarrow> int \<Rightarrow> int option \<Rightarrow> compaction_error + compacted_history" where
  "compact_message_history E thread_id messages target_keep max_retained_tokens =
     (if length messages \<le> 2 then Inl (Value_error ''Conversation has too few messages to compact.'')
      else (let keep = min target_keep (max 1 (int (length messages) - 2)) in
            case starting_cutoff E messages keep of
              Inl e \<Rightarrow> Inl e
            | Inr cutoff \<Rightarrow>
                (case max_retained_tokens of
                   None \<Rightarrow> summary_attempts E thread_id messages None [cutoff] [0, 1, 2] cutoff
                 | Some limit \<Rightarrow>
                     (let budget = min limit (history_tokens E messages - 1) in
                      if budget \<le> 0 then Inl (Budget_error ''No input budget remains for conversation history.'')
                      else (let safe = budget_cutoffs messages cutoff
                            in summary_attempts E thread_id messages (Some budget) safe [0, 1, 2]
                                 (budget_start E messages budget safe))))))"

section \<open>Trimming a channel's history\<close>

text \<open>The search for the last message of a class from which the rest is valid.\<close>

fun last_valid_tail :: "message_kind \<Rightarrow> message list \<Rightarrow> nat list \<Rightarrow> message list option" where
  "last_valid_tail kind messages [] = None"
| "last_valid_tail kind messages (i # is) =
     (if mg_kind (messages ! i) = kind \<and> is_valid_message_sequence (drop i messages) then Some (drop i messages)
      else last_valid_tail kind messages is)"

definition trim_channel_history ::
  "(message list \<Rightarrow> message list) \<Rightarrow> (message list \<Rightarrow> int) \<Rightarrow> message list \<Rightarrow> int \<Rightarrow> message list" where
  "trim_channel_history trim counter messages max_tokens =
     (if messages = [] \<or> counter messages \<le> max_tokens \<and> mg_kind (hd messages) = Human then messages
      else (let trimmed = trim messages; downwards = rev [0..<length messages] in
            if trimmed \<noteq> [] \<and> is_valid_message_sequence trimmed then trimmed
            else (case last_valid_tail Human messages downwards of
                    Some t \<Rightarrow> t
                  | None \<Rightarrow>
                      (case last_valid_tail AI messages downwards of Some t \<Rightarrow> t | None \<Rightarrow> messages))))"

end
