(* ===== verification/Compaction_Proofs.thy ===== *)
theory Compaction_Proofs
  imports Compaction
begin

text \<open>
  What compaction promises: the cut keeps a valid conversation, prefers the start of a user turn, and
  the history it returns is valid, within its budget, smaller than before, and loses no message that
  its summary was not made from. A trimmed channel history is a valid end of the history.
\<close>

section \<open>The cut\<close>

lemma safe_cutoffs_iff:
  "i \<in> set (safe_cutoffs messages) \<longleftrightarrow> 0 < i \<and> i < length messages \<and> is_valid_message_sequence (drop i messages)"
  by (auto simp: safe_cutoffs_def)

definition human_cutoff :: "message list \<Rightarrow> nat \<Rightarrow> bool" where
  "human_cutoff messages i = (i \<in> set (safe_cutoffs messages) \<and> mg_kind (messages ! i) = Human)"

definition keeps_at_most :: "message list \<Rightarrow> int \<Rightarrow> nat \<Rightarrow> bool" where
  "keeps_at_most messages target_keep i = (int (length messages - i) \<le> target_keep)"

lemma cutoff_core:
  assumes "resolve_compaction_cutoff messages target_keep = Inr cutoff"
  shows "cutoff \<in> set (safe_cutoffs messages)
    \<and> (\<forall>i. human_cutoff messages i \<longrightarrow> human_cutoff messages cutoff)
    \<and> (\<forall>i. human_cutoff messages i \<and> keeps_at_most messages target_keep i
          \<longrightarrow> cutoff \<le> i \<and> keeps_at_most messages target_keep cutoff)
    \<and> (\<forall>i. human_cutoff messages i \<and> \<not> keeps_at_most messages target_keep cutoff \<longrightarrow> i \<le> cutoff)"
proof -
  let ?safe = "safe_cutoffs messages"
  let ?human = "filter (\<lambda>i. mg_kind (messages ! i) = Human) ?safe"
  let ?near = "filter (\<lambda>i. int (length messages - i) \<le> target_keep) ?human"
  have human: "human_cutoff messages i \<longleftrightarrow> i \<in> set ?human" for i by (auto simp: human_cutoff_def)
  have near: "human_cutoff messages i \<and> keeps_at_most messages target_keep i \<longleftrightarrow> i \<in> set ?near" for i
    by (auto simp: human_cutoff_def keeps_at_most_def)
  obtain s ss where safe: "?safe = s # ss"
    using assms(1) by (auto simp: resolve_compaction_cutoff_def Let_def split: list.splits if_splits)
  show ?thesis
  proof (cases ?human)
    case Nil
    then have "cutoff = first_min (\<lambda>i. \<bar>int i - max 1 (int (length messages) - target_keep)\<bar>) s ss"
      using assms(1) safe by (auto simp: resolve_compaction_cutoff_def Let_def split: if_splits)
    then have "cutoff \<in> set ?safe" using first_min_in safe by metis
    moreover have "\<not> human_cutoff messages i" for i using Nil human [of i] by simp
    ultimately show ?thesis by blast
  next
    case h: (Cons h hs)
    show ?thesis
    proof (cases ?near)
      case Nil
      then have c: "cutoff = first_min (\<lambda>i. - int i) h hs"
        using assms(1) safe h by (auto simp: resolve_compaction_cutoff_def Let_def split: if_splits)
      have "cutoff \<in> set ?human" using first_min_in h c by metis
      then have "human_cutoff messages cutoff" using human by blast
      moreover have "i \<le> cutoff" if "human_cutoff messages i" for i
      proof -
        have "i \<in> set (h # hs)" using that human [of i] h by simp
        then show ?thesis using first_min_le [of i h hs "\<lambda>i. - int i"] c by simp
      qed
      moreover have "\<not> (human_cutoff messages i \<and> keeps_at_most messages target_keep i)" for i
        using near [of i] unfolding Nil by simp
      ultimately show ?thesis unfolding human_cutoff_def by blast
    next
      case (Cons w ws)
      then have c: "cutoff = first_min int w ws"
        using assms(1) safe h by (auto simp: resolve_compaction_cutoff_def Let_def split: if_splits)
      have "cutoff \<in> set ?near" using first_min_in Cons c by metis
      then have mem: "human_cutoff messages cutoff" "keeps_at_most messages target_keep cutoff"
        using near by blast+
      have "cutoff \<le> i" if "human_cutoff messages i \<and> keeps_at_most messages target_keep i" for i
      proof -
        have "i \<in> set (w # ws)" using that near [of i] unfolding Cons by simp
        then show ?thesis using first_min_le [of i w ws int] c by simp
      qed
      then show ?thesis using mem unfolding human_cutoff_def by blast
    qed
  qed
qed

text \<open>
  When \<open>resolve_compaction_cutoff\<close> finds a cut, messages stay on both sides of it and the
  retained ones are a valid sequence; the cut is at a human message if any valid one is; it is then the
  earliest such cut that keeps at most \<open>target_keep\<close> messages, or the latest one if none does.
\<close>

theorem cutoff_keeps_valid_turns:
  assumes "resolve_compaction_cutoff messages target_keep = Inr cutoff"
  shows "0 < cutoff \<and> cutoff < length messages \<and> is_valid_message_sequence (drop cutoff messages)
    \<and> (\<forall>i. human_cutoff messages i \<longrightarrow> human_cutoff messages cutoff)
    \<and> (\<forall>i. human_cutoff messages i \<and> keeps_at_most messages target_keep i
          \<longrightarrow> cutoff \<le> i \<and> keeps_at_most messages target_keep cutoff)
    \<and> (\<forall>i. human_cutoff messages i \<and> \<not> keeps_at_most messages target_keep cutoff \<longrightarrow> i \<le> cutoff)"
  using cutoff_core [OF assms] by (simp add: safe_cutoffs_iff)

section \<open>The compacted history\<close>

text \<open>What \<open>trim_messages\<close> documents for these arguments: an end of the history; identities are unique.\<close>

definition trims_to_suffix :: "(int \<Rightarrow> message list \<Rightarrow> message list option) \<Rightarrow> bool" where
  "trims_to_suffix trim \<longleftrightarrow> (\<forall>k ms t. trim k ms = Some t \<longrightarrow> suffix t ms)"

definition unique_ids :: "message list \<Rightarrow> bool" where
  "unique_ids ms \<longleftrightarrow> (\<forall>i < length ms. \<forall>j < length ms. mg_id (ms ! i) = mg_id (ms ! j) \<longrightarrow> mg_id (ms ! i) \<noteq> None \<longrightarrow> i = j)"

lemma find_index_Some:
  "find_index P xs = Some k \<Longrightarrow> k < length xs \<and> P (xs ! k)"
  using nth_length_takeWhile [of "\<lambda>x. \<not> P x" xs] by (auto simp: find_index_def Let_def split: if_splits)

lemma trimmed_cutoff_safe:
  assumes "trims_to_suffix trim" and "unique_ids messages" and "trimmed_cutoff trim messages keep = Some i"
  shows "i \<in> set (safe_cutoffs messages)"
proof -
  obtain t x where t: "trim keep messages = Some t" "t \<noteq> []" "is_valid_message_sequence t"
      and x: "mg_id (hd t) = Some x" and i: "find_index (\<lambda>m. mg_id m = Some x) messages = Some i"
      and pos: "0 < i" "i < length messages"
    using assms(3) by (auto simp: trimmed_cutoff_def split: option.splits if_splits)
  obtain us where us: "messages = us @ t"
    using assms(1) t(1) unfolding trims_to_suffix_def suffix_def by blast
  have "messages ! length us = hd t" using us t(2) by (simp add: nth_append hd_conv_nth)
  moreover have "mg_id (messages ! i) = Some x" using find_index_Some [OF i] by simp
  ultimately have "i = length us"
    using assms(2) pos us t(2) x unfolding unique_ids_def by (metis append_Nil2 length_append length_greater_0_conv less_add_same_cancel1 option.distinct(1))
  then show ?thesis using t(3) us pos by (simp add: safe_cutoffs_iff)
qed

lemma starting_cutoff_safe:
  assumes "trims_to_suffix (ce_trim E)" and "unique_ids messages" and "starting_cutoff E messages keep = Inr i"
  shows "i \<in> set (safe_cutoffs messages)"
proof (cases "trimmed_cutoff (ce_trim E) messages keep")
  case None
  then have "resolve_compaction_cutoff messages keep = Inr i"
    using assms(3) by (simp add: starting_cutoff_def)
  then show ?thesis using cutoff_core safe_cutoffs_iff by blast
next
  case (Some j)
  then show ?thesis using trimmed_cutoff_safe [OF assms(1,2) Some] assms(3) by (simp add: starting_cutoff_def)
qed

lemma inject_valid:
  assumes "i \<in> set (safe_cutoffs messages)"
  shows "is_valid_message_sequence (inject_summary ids messages summary i)"
proof -
  have "turns (drop i messages)" and ne: "drop i messages \<noteq> []"
    using assms by (auto simp: safe_cutoffs_iff valid_iff_turns)
  moreover have "turns [snd (build_summary_message_pair ids summary)]"
    using turns_AI [of "snd (build_summary_message_pair ids summary)" "[]" "[]"] turns_Nil
    by (simp add: build_summary_message_pair_def Let_def call_ids_def List.map_filter_def)
  ultimately have "turns (inject_summary ids messages summary i)"
    using turns_append [of "[snd (build_summary_message_pair ids summary)]" "drop i messages"]
    by (auto simp: inject_summary_def build_summary_message_pair_def Let_def intro!: turns_plain)
  then show ?thesis
    by (simp add: valid_iff_turns) (auto simp: inject_summary_def build_summary_message_pair_def Let_def)
qed

text \<open>How the returned history was made, by induction on the attempts left.\<close>

lemma summary_attempts_result:
  assumes "summary_attempts E th messages budget safe ks cutoff = Inr r" and "cutoff \<in> set safe"
  shows "\<exists>k i limit. i \<in> set safe \<and> cutoff \<le> i
    \<and> generate_context_summary E k th (take i messages) limit = Inr (ch_summary r)
    \<and> r = compacted E messages (ch_summary r) i
    \<and> (\<forall>b. budget = Some b \<longrightarrow> history_tokens E (ch_messages r) \<le> b)"
  using assms
proof (induction ks arbitrary: cutoff)
  case (Cons k ks)
  show ?case
  proof (cases budget)
    case None
    then obtain summary where "generate_context_summary E k th (take cutoff messages) None = Inr summary"
        "r = compacted E messages summary cutoff"
      using Cons.prems(1) by (auto split: sum.splits)
    then have "generate_context_summary E k th (take cutoff messages) None = Inr (ch_summary r)"
        "r = compacted E messages (ch_summary r) cutoff"
      by (simp_all add: compacted_def)
    then show ?thesis using Cons.prems(2) None by blast
  next
    case (Some b)
    obtain summary where gen: "generate_context_summary E k th (take cutoff messages)
        (Some (summary_limit E messages b k cutoff)) = Inr summary"
      using Cons.prems(1) Some by (auto simp: Let_def split: sum.splits if_splits)
    show ?thesis
    proof (cases "history_tokens E (inject E messages summary cutoff) \<le> b")
      case True
      then have "r = compacted E messages summary cutoff"
        using Cons.prems(1) Some gen by (auto simp: Let_def split: if_splits)
      then have "ch_summary r = summary" "r = compacted E messages (ch_summary r) cutoff"
        "history_tokens E (ch_messages r) \<le> b"
        using True by (simp_all add: compacted_def)
      then show ?thesis using Some gen Cons.prems(2) by blast
    next
      case False
      let ?found = "List.find (\<lambda>i. cutoff < i \<and> history_tokens E (inject E messages summary i) \<le> b) safe"
      let ?next = "case ?found of Some i \<Rightarrow> i | None \<Rightarrow> cutoff"
      have rest: "summary_attempts E th messages budget safe ks ?next = Inr r"
        using Cons.prems(1) Some gen False by (auto simp: Let_def split: if_splits)
      have "?next \<in> set safe" "cutoff \<le> ?next"
        using Cons.prems(2) by (auto simp: find_Some_iff split: option.split)
      then show ?thesis using Cons.IH [OF rest] by (meson le_trans)
    qed
  qed
qed simp

lemma budget_start_in: "safe \<noteq> [] \<Longrightarrow> budget_start E messages b safe \<in> set safe"
proof -
  assume "safe \<noteq> []"
  then obtain s ss where safe: "safe = s # ss" by (cases safe) auto
  let ?size = "\<lambda>i. history_tokens E (inject E messages [] i)"
  show ?thesis
  proof (cases "List.find (\<lambda>i. ?size i + min 1024 (max 1 (b div 3)) \<le> b) safe")
    case None
    then have "budget_start E messages b safe = first_min ?size s ss"
      by (simp only: budget_start_def Let_def option.case) (simp add: safe)
    then show ?thesis using first_min_in [of ?size s ss] by (simp only: safe)
  next
    case (Some i)
    then have "budget_start E messages b safe = i" by (simp only: budget_start_def Let_def option.case)
    then show ?thesis using Some by (auto simp: find_Some_iff)
  qed
qed

lemma compacted_core:
  assumes "trims_to_suffix (ce_trim E)" and "unique_ids messages"
    and "compact_message_history E th messages keep limit = Inr r"
  shows "\<exists>i k n. 0 < i \<and> i < length messages
    \<and> ch_messages r = inject_summary (ce_ids E) messages (ch_summary r) i
    \<and> ch_compacted_count r = i \<and> ch_kept_count r = length messages - i
    \<and> is_valid_message_sequence (ch_messages r)
    \<and> generate_context_summary E k th (take i messages) n = Inr (ch_summary r)
    \<and> (\<forall>b. limit = Some b \<longrightarrow> history_tokens E (ch_messages r) \<le> b
          \<and> history_tokens E (ch_messages r) < history_tokens E messages)"
proof -
  define K where "K = min keep (max 1 (int (length messages) - 2))"
  obtain c where c: "starting_cutoff E messages K = Inr c"
    using assms(3) by (auto simp: compact_message_history_def Let_def K_def
        simp del: summary_attempts.simps split: sum.splits if_splits)
  have safe_c: "c \<in> set (safe_cutoffs messages)"
    by (rule starting_cutoff_safe [OF assms(1,2) c])
  have "\<exists>safe cutoff budget. summary_attempts E th messages budget safe [0, 1, 2] cutoff = Inr r
      \<and> cutoff \<in> set safe \<and> set safe \<subseteq> set (safe_cutoffs messages)
      \<and> (\<forall>b. limit = Some b \<longrightarrow> budget = Some (min b (history_tokens E messages - 1)))"
  proof (cases limit)
    case None
    then have "summary_attempts E th messages None [c] [0, 1, 2] c = Inr r"
      using assms(3) c by (auto simp: compact_message_history_def Let_def K_def
          simp del: summary_attempts.simps split: if_splits)
    then show ?thesis using safe_c None
      by (intro exI [of _ "[c]"] exI [of _ c] exI [of _ None]) (auto simp del: summary_attempts.simps)
  next
    case (Some b)
    let ?budget = "min b (history_tokens E messages - 1)"
    let ?safe = "budget_cutoffs messages c"
    have "summary_attempts E th messages (Some ?budget) ?safe [0, 1, 2] (budget_start E messages ?budget ?safe) = Inr r"
      using assms(3) c Some
      by (simp add: compact_message_history_def Let_def K_def del: summary_attempts.simps split: if_splits)
    moreover have "budget_start E messages ?budget ?safe \<in> set ?safe"
      by (rule budget_start_in) (simp add: budget_cutoffs_def)
    moreover have "set ?safe \<subseteq> set (safe_cutoffs messages)"
      using safe_c by (auto simp: budget_cutoffs_def safe_cutoffs_iff)
    ultimately show ?thesis using Some by (intro exI [of _ ?safe] exI [of _ "budget_start E messages ?budget ?safe"] exI [of _ "Some ?budget"])
        (auto simp del: summary_attempts.simps)
  qed
  then obtain safe cutoff budget where run: "summary_attempts E th messages budget safe [0, 1, 2] cutoff = Inr r"
      "cutoff \<in> set safe" and sub: "set safe \<subseteq> set (safe_cutoffs messages)"
      and budget: "\<forall>b. limit = Some b \<longrightarrow> budget = Some (min b (history_tokens E messages - 1))"
    by blast
  obtain k i n where i: "i \<in> set safe" "generate_context_summary E k th (take i messages) n = Inr (ch_summary r)"
      "r = compacted E messages (ch_summary r) i"
      and fits: "\<forall>b. budget = Some b \<longrightarrow> history_tokens E (ch_messages r) \<le> b"
    using summary_attempts_result [OF run] by blast
  have safe_i: "i \<in> set (safe_cutoffs messages)" using sub i(1) by blast
  have msgs: "ch_messages r = inject_summary (ce_ids E) messages (ch_summary r) i"
    and counts: "ch_compacted_count r = i" "ch_kept_count r = length messages - i"
    using arg_cong [OF i(3), of ch_messages] arg_cong [OF i(3), of ch_compacted_count]
      arg_cong [OF i(3), of ch_kept_count] by (simp_all only: compacted_def compacted_history.select_convs)
  have tokens: "\<forall>b. limit = Some b \<longrightarrow> history_tokens E (ch_messages r) \<le> b
      \<and> history_tokens E (ch_messages r) < history_tokens E messages"
  proof (intro allI impI)
    fix b assume "limit = Some b"
    then have "history_tokens E (ch_messages r) \<le> min b (history_tokens E messages - 1)"
      using budget fits by blast
    then show "history_tokens E (ch_messages r) \<le> b \<and> history_tokens E (ch_messages r) < history_tokens E messages"
      by simp
  qed
  have "is_valid_message_sequence (ch_messages r)"
    unfolding msgs by (rule inject_valid [OF safe_i])
  then show ?thesis
    using safe_i msgs counts i(2) tokens unfolding safe_cutoffs_iff by blast
qed

lemma compacted_history_valid:
  assumes "trims_to_suffix (ce_trim E)" and "unique_ids messages"
    and "compact_message_history E th messages keep limit = Inr r"
  shows "is_valid_message_sequence (ch_messages r)"
  using compacted_core [OF assms] by blast

lemma inject_shape:
  assumes "i < length messages"
  shows "\<exists>human ack. inject_summary ids messages summary i =
      human # (if mg_kind (messages ! i) = AI then [] else [ack]) @ drop i messages
    \<and> mg_kind human = Human \<and> mg_content human = PStr (COMPACTED_CONTEXT_TEMPLATE summary)
    \<and> mg_kind ack = AI \<and> mg_content ack = PStr COMPACTED_CONTEXT_ACKNOWLEDGEMENT \<and> mg_tool_calls ack = []"
  using assms
  by (intro exI [of _ "fst (build_summary_message_pair ids summary)"] exI [of _ "snd (build_summary_message_pair ids summary)"])
    (simp add: inject_summary_def build_summary_message_pair_def Let_def hd_drop_conv_nth)

text \<open>
  C2: a history that \<open>compact_message_history\<close> returns is a human message with the summary, an
  acknowledgement of the assistant unless the kept messages begin with one of the assistant, and an
  unchanged end of the conversation; something is dropped, something is kept, and the counts say how much;
  it is a valid sequence for a model; with a budget it fits the budget and has fewer tokens than before;
  and the summary is the summariser's answer for exactly the messages that were dropped. This uses that
  \<open>trim_messages\<close> gives an end of the history and that message identities are unique.
\<close>

theorem compacted_history_ok:
  assumes "trims_to_suffix (ce_trim E)" and "unique_ids messages"
    and "compact_message_history E th messages keep limit = Inr r"
  shows "\<exists>i k n human ack. 0 < i \<and> i < length messages
    \<and> ch_messages r = human # (if mg_kind (messages ! i) = AI then [] else [ack]) @ drop i messages
    \<and> mg_kind human = Human \<and> mg_content human = PStr (COMPACTED_CONTEXT_TEMPLATE (ch_summary r))
    \<and> mg_kind ack = AI \<and> mg_content ack = PStr COMPACTED_CONTEXT_ACKNOWLEDGEMENT \<and> mg_tool_calls ack = []
    \<and> ch_compacted_count r = i \<and> ch_kept_count r = length messages - i
    \<and> is_valid_message_sequence (ch_messages r)
    \<and> generate_context_summary E k th (take i messages) n = Inr (ch_summary r)
    \<and> (\<forall>b. limit = Some b \<longrightarrow> history_tokens E (ch_messages r) \<le> b
          \<and> history_tokens E (ch_messages r) < history_tokens E messages)"
proof -
  obtain i k n where core: "0 < i" "i < length messages" "ch_messages r = inject_summary (ce_ids E) messages (ch_summary r) i"
      "ch_compacted_count r = i" "ch_kept_count r = length messages - i" "is_valid_message_sequence (ch_messages r)"
      "generate_context_summary E k th (take i messages) n = Inr (ch_summary r)"
      "\<forall>b. limit = Some b \<longrightarrow> history_tokens E (ch_messages r) \<le> b \<and> history_tokens E (ch_messages r) < history_tokens E messages"
    using compacted_core [OF assms] by blast
  show ?thesis
    using inject_shape [OF core(2), of "ce_ids E" "ch_summary r"] core unfolding core(3) [symmetric] by blast
qed

section \<open>Examples\<close>

definition demo_message :: "message_kind \<Rightarrow> string \<Rightarrow> string \<Rightarrow> message" where
  "demo_message kind i text = \<lparr>mg_kind = kind, mg_id = Some i, mg_content = PStr text, mg_tool_calls = [],
     mg_tool_call_id = PNone, mg_name = None, mg_status = [], mg_kwargs = [], mg_artifact = PNone\<rparr>"

definition demo_history :: "message list" where
  "demo_history = [demo_message Human ''1'' ''q'', demo_message AI ''2'' ''a'', demo_message Human ''3'' ''r'',
     demo_message AI ''4'' ''b'']"

lemma demo_history_cutoff: "resolve_compaction_cutoff demo_history 3 = Inr 2"
  by (simp add: resolve_compaction_cutoff_def safe_cutoffs_def demo_history_def demo_message_def
      is_valid_message_sequence_def call_ids_def upt_rec List.map_filter_def)

theorem cutoff_keeps_valid_turns_witness:
  "0 < (2::nat) \<and> 2 < length demo_history \<and> is_valid_message_sequence (drop 2 demo_history)"
  using cutoff_keeps_valid_turns [OF demo_history_cutoff] by blast

text \<open>A counter that counts messages, a trimmer that gives up, a model that answers "done".\<close>

definition demo_compaction :: compaction_env where
  "demo_compaction = \<lparr>ce_trim = (\<lambda>k ms. None), ce_tokens = (\<lambda>ms. 10 * int (length ms)), ce_render = (\<lambda>m. None),
     ce_ids = (''h'', ''a''), ce_prompt = Some ''Summarise.'', ce_model = (\<lambda>k sys user n. Inr (PStr ''done''))\<rparr>"

definition long_history :: "message list" where
  "long_history = demo_history @ [demo_message Human ''5'' ''s'', demo_message AI ''6'' ''c'']"

lemma long_history_ids: "unique_ids long_history"
  by (auto simp: unique_ids_def long_history_def demo_history_def demo_message_def less_Suc_eq_le nth_Cons'
      split: if_splits)

lemma demo_compacts:
  "map_sum id ch_summary (compact_message_history demo_compaction [] long_history 2 (Some 45)) = Inr ''done''"
  by code_simp

theorem compacted_history_ok_witness:
  "\<exists>r i. compact_message_history demo_compaction [] long_history 2 (Some 45) = Inr r \<and> 0 < i
     \<and> i < length long_history \<and> ch_compacted_count r = i \<and> is_valid_message_sequence (ch_messages r)
     \<and> history_tokens demo_compaction (ch_messages r) \<le> 45"
proof -
  obtain r where r: "compact_message_history demo_compaction [] long_history 2 (Some 45) = Inr r"
    using demo_compacts by (cases "compact_message_history demo_compaction [] long_history 2 (Some 45)") auto
  have trim: "trims_to_suffix (ce_trim demo_compaction)"
    by (simp add: trims_to_suffix_def demo_compaction_def)
  show ?thesis using compacted_history_ok [OF trim long_history_ids r] r by blast
qed

section \<open>Channel histories\<close>

lemma last_valid_tail_Some:
  "last_valid_tail kind ms is = Some t \<Longrightarrow> is_valid_message_sequence t \<and> suffix t ms"
  by (induction kind ms "is" rule: last_valid_tail.induct) (auto simp: suffix_drop split: if_splits)

lemma last_valid_tail_None:
  "last_valid_tail kind ms is = None \<Longrightarrow> i \<in> set is \<Longrightarrow> mg_kind (ms ! i) = kind
   \<Longrightarrow> \<not> is_valid_message_sequence (drop i ms)"
  by (induction kind ms "is" rule: last_valid_tail.induct) (auto split: if_splits)

text \<open>
  Trimming a channel's history gives an end of the history that is a valid sequence; only when no
  end that starts with a human or an assistant message is valid, or the history already fits, is it the
  history itself. (\<open>trim_messages\<close> gives an end of its input.)
\<close>

theorem channel_history_valid_tail:
  assumes "suffix (trim messages) messages"
  shows "suffix (trim_channel_history trim counter messages max_tokens) messages
    \<and> (is_valid_message_sequence (trim_channel_history trim counter messages max_tokens)
        \<or> trim_channel_history trim counter messages max_tokens = messages
            \<and> (messages = [] \<or> counter messages \<le> max_tokens
                \<or> (\<forall>i < length messages. mg_kind (messages ! i) \<in> {Human, AI}
                      \<longrightarrow> \<not> is_valid_message_sequence (drop i messages))))"
proof (cases "messages = [] \<or> counter messages \<le> max_tokens \<and> mg_kind (hd messages) = Human")
  case True
  then show ?thesis by (auto simp: trim_channel_history_def)
next
  case big: False
  show ?thesis
  proof (cases "trim messages \<noteq> [] \<and> is_valid_message_sequence (trim messages)")
    case True
    then have "trim_channel_history trim counter messages max_tokens = trim messages"
      using big by (auto simp: trim_channel_history_def Let_def)
    then show ?thesis using assms True by simp
  next
    case small: False
    let ?down = "rev [0..<length messages]"
    let ?human = "last_valid_tail Human messages ?down" and ?ai = "last_valid_tail AI messages ?down"
    have eq: "trim_channel_history trim counter messages max_tokens
        = (case ?human of Some t \<Rightarrow> t | None \<Rightarrow> (case ?ai of Some t \<Rightarrow> t | None \<Rightarrow> messages))"
      unfolding trim_channel_history_def Let_def by (simp only: if_not_P [OF big] if_not_P [OF small])
    show ?thesis
    proof (cases "?human = None \<and> ?ai = None")
      case True
      then have "\<not> is_valid_message_sequence (drop i messages)"
        if "i < length messages" "mg_kind (messages ! i) \<in> {Human, AI}" for i
        using that last_valid_tail_None [of Human messages ?down i] last_valid_tail_None [of AI messages ?down i] by auto
      then show ?thesis using True eq by auto
    next
      case False
      then show ?thesis
        using eq last_valid_tail_Some [of Human messages ?down] last_valid_tail_Some [of AI messages ?down]
        by (auto split: option.splits)
    qed
  qed
qed

theorem channel_history_valid_tail_witness:
  "suffix (trim_channel_history (\<lambda>ms. []) (\<lambda>ms. 9) (drop 1 demo_history) 5) (drop 1 demo_history)
   \<and> trim_channel_history (\<lambda>ms. []) (\<lambda>ms. 9) (drop 1 demo_history) 5 = drop 2 demo_history"
proof -
  have "trim_channel_history (\<lambda>ms. []) (\<lambda>ms. 9) (drop 1 demo_history) 5 = drop 2 demo_history"
    by code_simp
  moreover have "suffix ((\<lambda>ms. []) (drop 1 demo_history)) (drop 1 demo_history)" by simp
  ultimately show ?thesis
    using channel_history_valid_tail [of "\<lambda>ms. []" "drop 1 demo_history" "\<lambda>ms. 9" 5] by blast
qed

end
