(* ===== verification/Compact_Thread.thy ===== *)
theory Compact_Thread
  imports Compaction_Proofs
begin

text \<open>
  \<open>compact_conversation_thread\<close> of \<open>agent/modules/conversations/compaction.py\<close>, with the input budget
  of \<open>agent/modules/providers/context_budget.py\<close>: compaction of a stored thread under the reservation
  of the session registry, with its checks before and after the slow summary.

  A read of the checkpoint store is a \<open>checkpoint_read\<close>; the two reads, and what the workflow graph
  says about interrupts at them, are arguments, since anything may happen to the store during the
  summary. The write to the graph is the value returned. Usage recording and the serialised payload
  are not modelled.
\<close>

section \<open>Input budget\<close>

definition DEFAULT_CONTEXT_WINDOW :: int where "DEFAULT_CONTEXT_WINDOW = 128000"

text \<open>\<open>type(value) is int and value > 0\<close>.\<close>

fun positive_int :: "pyval \<Rightarrow> int option" where
  "positive_int (PInt i) = (if 0 < i then Some i else None)"
| "positive_int _ = None"

fun first_positive :: "pyval list \<Rightarrow> int option" where
  "first_positive [] = None"
| "first_positive (v # vs) = (case positive_int v of Some i \<Rightarrow> Some i | None \<Rightarrow> first_positive vs)"

definition limit_names :: "string list" where
  "limit_names = [''max_tokens'', ''max_completion_tokens'', ''max_output_tokens'']"

text \<open>The resolved model: its context window, if it has one, and the client's attributes.\<close>

record resolved_model =
  rm_context_window :: "int option"
  rm_model :: pyval

definition context_window :: "resolved_model \<Rightarrow> int" where
  "context_window r = (case rm_context_window r of Some w \<Rightarrow> w | None \<Rightarrow> DEFAULT_CONTEXT_WINDOW)"

definition model_response_reserve :: "resolved_model \<Rightarrow> int" where
  "model_response_reserve r =
     (let window = context_window r;
          limits = map (get_attr (rm_model r)) limit_names
            @ (case get_attr (rm_model r) ''model_kwargs'' of PDict d \<Rightarrow> map (get_item d) limit_names | _ \<Rightarrow> [])
      in case first_positive limits of Some n \<Rightarrow> n | None \<Rightarrow> min 4096 (max 1 (window div 8)))"

definition model_input_budget :: "resolved_model \<Rightarrow> int \<Rightarrow> int" where
  "model_input_budget r threshold =
     (let window = context_window r; reserve = model_response_reserve r;
          headroom = max 1 (min 2048 (window div 50))
      in max 0 (min (window * threshold div 100) (window - reserve - headroom)))"

lemma first_positive_pos: "first_positive vs = Some n \<Longrightarrow> 0 < n"
proof (induction vs)
  case (Cons v vs)
  then show ?case by (cases v) (auto split: if_splits)
qed simp

lemma response_reserve_pos: "0 < model_response_reserve r"
  by (auto simp: model_response_reserve_def Let_def split: option.split dest: first_positive_pos)

text \<open>
  An input budget is never negative, stays within the compaction target of the context window,
  and leaves room for the response and the estimation headroom, both positive, whenever it is positive.
\<close>

theorem input_budget_leaves_room:
  "0 \<le> model_input_budget r threshold
   \<and> (model_input_budget r threshold = 0
      \<or> model_input_budget r threshold \<le> context_window r * threshold div 100
        \<and> 0 < model_response_reserve r
        \<and> model_input_budget r threshold + model_response_reserve r < context_window r)"
proof -
  define share where "share = context_window r * threshold div 100"
  define headroom where "headroom = max 1 (min 2048 (context_window r div 50))"
  have "model_input_budget r threshold = max 0 (min share (context_window r - model_response_reserve r - headroom))"
    by (simp only: model_input_budget_def Let_def share_def headroom_def)
  moreover have "1 \<le> headroom" unfolding headroom_def by (rule max.cobounded1)
  ultimately show ?thesis
    unfolding share_def [symmetric] using response_reserve_pos [of r] by linarith
qed

section \<open>The thread\<close>

record graph_task =
  gt_interrupts :: "string list"

text \<open>\<open>graph.aget_state\<close>: \<open>None\<close> when the lookup raises.\<close>

definition has_pending_interrupt :: "(graph_task list \<times> string list) option \<Rightarrow> bool" where
  "has_pending_interrupt state =
     (case state of
        None \<Rightarrow> False
      | Some (tasks, next_nodes) \<Rightarrow> list_ex (\<lambda>t. gt_interrupts t \<noteq> []) tasks \<or> next_nodes \<noteq> [])"

text \<open>
  A checkpoint: its identity, its messages and the rest of it; with the pending writes and the
  \<open>configurable\<close> part of its saved configuration.
\<close>

record checkpoint_read =
  cr_checkpoint :: "string \<times> message list \<times> pyval"
  cr_pending_writes :: pyval
  cr_configurable :: "(string, pyval) dict"

definition prompt_tokens :: "(string, int) dict \<Rightarrow> int" where
  "prompt_tokens breakdown =
     sum_list (map (\<lambda>k. max 0 (case dict_get breakdown k of Some n \<Rightarrow> n | None \<Rightarrow> 0))
       [''system_prompt'', ''system_tools'', ''skills'', ''subagents''])"

definition waiting_text :: string where
  "waiting_text = ''Cannot compact while conversation is awaiting user input. ''
     @ ''Please answer or dismiss the pending request first.''"

definition write_config :: "(string, pyval) dict \<Rightarrow> checkpoint_read \<Rightarrow> string \<Rightarrow> (string, pyval) dict" where
  "write_config base fresh checkpoint_id =
     (let d = foldl (\<lambda>d k. case dict_get (cr_configurable fresh) k of Some v \<Rightarrow> dict_set k v d | None \<Rightarrow> d)
            base [''thread_id'', ''checkpoint_ns'', ''checkpoint_id''];
          d = (if dict_get d ''checkpoint_ns'' = None then dict_set ''checkpoint_ns'' (PStr []) d else d)
      in if checkpoint_id \<noteq> [] then dict_set ''checkpoint_id'' (PStr checkpoint_id) d else d)"

record thread_reads =
  tr_first :: "checkpoint_read option"
  tr_first_state :: "(graph_task list \<times> string list) option"
  tr_second_state :: "(graph_task list \<times> string list) option"
  tr_second :: "checkpoint_read option"
  tr_breakdown :: "(string, int) dict"
  tr_threshold :: int

definition compact_thread_locked ::
  "compaction_env \<Rightarrow> resolved_model \<Rightarrow> (string, pyval) dict \<Rightarrow> int \<Rightarrow> string \<Rightarrow> int option \<Rightarrow> thread_reads
   \<Rightarrow> compaction_error + (string, pyval) dict \<times> compacted_history" where
  "compact_thread_locked E resolved base configured thread_id keep reads =
     (let target_keep = (case keep of Some k \<Rightarrow> if 2 \<le> k then k else get_default_keep_recent_messages configured
                         | None \<Rightarrow> get_default_keep_recent_messages configured) in
      case tr_first reads of
        None \<Rightarrow> Inl (Lookup_error (''No checkpoint found for thread '' @ quoted thread_id @ ''.''))
      | Some original \<Rightarrow>
          (let messages = fst (snd (cr_checkpoint original)) in
           if length messages \<le> 2
           then Inl (Value_error (''Conversation has '' @ int_str (int (length messages))
                  @ '' message(s), which is already concise (retention threshold is '' @ int_str target_keep @ '').''))
           else if has_pending_interrupt (tr_first_state reads) then Inl (Conflict_error waiting_text)
           else (let prompt = prompt_tokens (tr_breakdown reads);
                     budget = model_input_budget resolved (tr_threshold reads) in
                 if budget \<le> prompt
                 then Inl (Budget_error ''System prompt and tool schemas leave no input budget for compaction.'')
                 else (case compact_message_history E thread_id messages target_keep (Some (budget - prompt)) of
                         Inl e \<Rightarrow> Inl e
                       | Inr r \<Rightarrow>
                           (let retained = history_tokens E (ch_messages r); previous = history_tokens E messages in
                            if previous \<le> retained \<or> budget < retained + prompt
                            then Inl (Budget_error ''Compaction must reduce context and fit within the model input budget.'')
                            else if has_pending_interrupt (tr_second_state reads) then Inl (Conflict_error waiting_text)
                            else (case tr_second reads of
                                    None \<Rightarrow> Inl (Conflict_error ''Conversation changed during compaction. Please try again.'')
                                  | Some fresh \<Rightarrow>
                                      if cr_checkpoint fresh \<noteq> cr_checkpoint original
                                         \<or> cr_pending_writes fresh \<noteq> cr_pending_writes original
                                      then Inl (Conflict_error ''Conversation changed during compaction. Please try again.'')
                                      else Inr (write_config base fresh (fst (cr_checkpoint original)), r)))))))"

text \<open>What a successful compaction has checked.\<close>

lemma locked_success:
  assumes "compact_thread_locked E resolved base configured thread_id keep reads = Inr (config, r)"
  obtains a b k l where "tr_first reads = Some a" "tr_second reads = Some b" "cr_checkpoint b = cr_checkpoint a"
    "cr_pending_writes b = cr_pending_writes a" "\<not> has_pending_interrupt (tr_first_state reads)" "\<not> has_pending_interrupt (tr_second_state reads)"
    "compact_message_history E thread_id (fst (snd (cr_checkpoint a))) k l = Inr r"
    "history_tokens E (ch_messages r) < history_tokens E (fst (snd (cr_checkpoint a)))"
    "history_tokens E (ch_messages r) + prompt_tokens (tr_breakdown reads)
       \<le> model_input_budget resolved (tr_threshold reads)"
    "config = write_config base b (fst (cr_checkpoint a))"
proof -
  define target where "target = (case keep of Some k \<Rightarrow> if 2 \<le> k then k else get_default_keep_recent_messages configured
    | None \<Rightarrow> get_default_keep_recent_messages configured)"
  define budget where "budget = model_input_budget resolved (tr_threshold reads)"
  define prompt where "prompt = prompt_tokens (tr_breakdown reads)"
  note res = assms [unfolded compact_thread_locked_def Let_def, folded target_def budget_def prompt_def]
  obtain a where a: "tr_first reads = Some a"
    using res by (cases "tr_first reads") simp_all
  let ?ms = "fst (snd (cr_checkpoint a))"
  have "\<not> length ?ms \<le> 2" "\<not> has_pending_interrupt (tr_first_state reads)" "\<not> budget \<le> prompt"
    using res unfolding a option.case by (simp_all split: if_split_asm)
  note pre = this
  obtain r' where r': "compact_message_history E thread_id ?ms target (Some (budget - prompt)) = Inr r'"
    using res pre unfolding a option.case
    by (cases "compact_message_history E thread_id ?ms target (Some (budget - prompt))") simp_all
  have fits: "\<not> (history_tokens E ?ms \<le> history_tokens E (ch_messages r') \<or> budget < history_tokens E (ch_messages r') + prompt)"
    "\<not> has_pending_interrupt (tr_second_state reads)"
    using res pre unfolding a option.case r' sum.case by (simp_all split: if_split_asm)
  obtain b where b: "tr_second reads = Some b"
    using res pre fits unfolding a option.case r' sum.case by (cases "tr_second reads") simp_all
  have "cr_checkpoint b = cr_checkpoint a" "cr_pending_writes b = cr_pending_writes a" "r' = r"
    "config = write_config base b (fst (cr_checkpoint a))"
    using res pre fits unfolding a option.case r' sum.case b by (simp_all split: if_split_asm)
  then show thesis
    using that [OF a b _ _ pre(2) fits(2), of target "Some (budget - prompt)"] r' fits(1)
    unfolding budget_def prompt_def by simp
qed

text \<open>A look at the graph that succeeded showed no interrupt of a task and no node to go on with.\<close>

definition nobody_waits :: "(graph_task list \<times> string list) option \<Rightarrow> bool" where
  "nobody_waits state \<longleftrightarrow> (\<forall>tasks nodes. state = Some (tasks, nodes) \<longrightarrow> (\<forall>t \<in> set tasks. gt_interrupts t = []) \<and> nodes = [])"

lemma not_pending: "\<not> has_pending_interrupt state \<Longrightarrow> nobody_waits state"
  by (auto simp: has_pending_interrupt_def nobody_waits_def list_ex_iff)

lemma locked_result:
  assumes "compact_thread_locked E resolved base configured thread_id keep reads = Inr (config, r)"
  shows "\<exists>a b. tr_first reads = Some a \<and> tr_second reads = Some b \<and> cr_checkpoint a = cr_checkpoint b
    \<and> cr_pending_writes a = cr_pending_writes b \<and> nobody_waits (tr_first_state reads) \<and> nobody_waits (tr_second_state reads)
    \<and> (trims_to_suffix (ce_trim E) \<and> unique_ids (fst (snd (cr_checkpoint a))) \<longrightarrow> is_valid_message_sequence (ch_messages r))
    \<and> history_tokens E (ch_messages r) < history_tokens E (fst (snd (cr_checkpoint a)))
    \<and> history_tokens E (ch_messages r) + prompt_tokens (tr_breakdown reads)
        \<le> model_input_budget resolved (tr_threshold reads)
    \<and> (fst (cr_checkpoint a) \<noteq> [] \<longrightarrow> dict_get config ''checkpoint_id'' = Some (PStr (fst (cr_checkpoint a))))"
proof (rule locked_success [OF assms])
  fix a b k l
  assume *: "tr_first reads = Some a" "tr_second reads = Some b" "cr_checkpoint b = cr_checkpoint a"
    "cr_pending_writes b = cr_pending_writes a" "\<not> has_pending_interrupt (tr_first_state reads)" "\<not> has_pending_interrupt (tr_second_state reads)"
    and c: "compact_message_history E thread_id (fst (snd (cr_checkpoint a))) k l = Inr r"
    and t: "history_tokens E (ch_messages r) < history_tokens E (fst (snd (cr_checkpoint a)))"
    "history_tokens E (ch_messages r) + prompt_tokens (tr_breakdown reads)
       \<le> model_input_budget resolved (tr_threshold reads)"
    and w: "config = write_config base b (fst (cr_checkpoint a))"
  have "fst (cr_checkpoint a) \<noteq> [] \<longrightarrow> dict_get config ''checkpoint_id'' = Some (PStr (fst (cr_checkpoint a)))"
    by (simp add: w write_config_def Let_def dict_simps)
  moreover have "trims_to_suffix (ce_trim E) \<and> unique_ids (fst (snd (cr_checkpoint a))) \<longrightarrow> is_valid_message_sequence (ch_messages r)"
    using compacted_history_valid [OF _ _ c] by blast
  ultimately show ?thesis
    by (intro exI [of _ a] exI [of _ b] conjI) (use * t not_pending in simp_all)
qed

definition conflict_text :: "session_error \<Rightarrow> string" where
  "conflict_text e = (case e of AgentRunning \<Rightarrow> ''Cannot compact while agent is running.''
     | _ \<Rightarrow> ''Conversation checkpoint is being updated. Please try again.'')"

text \<open>The reservation is released however the body ends; \<open>thread_id\<close> is resolved already.\<close>

definition compact_conversation_thread ::
  "compaction_env \<Rightarrow> resolved_model \<Rightarrow> (string, pyval) dict \<Rightarrow> int \<Rightarrow> registry \<Rightarrow> string \<Rightarrow> int option \<Rightarrow> thread_reads
   \<Rightarrow> (compaction_error + (string, pyval) dict \<times> compacted_history) \<times> registry" where
  "compact_conversation_thread E resolved base configured registry thread_id keep reads =
     (if thread_id = [] then (Inl (Value_error ''thread_id is required.''), registry)
      else (case reserve_thread_mutation registry thread_id True of
              Inl e \<Rightarrow> (Inl (Conflict_error (conflict_text e)), registry)
            | Inr held \<Rightarrow>
                (compact_thread_locked E resolved base configured thread_id keep reads,
                 end_thread_mutation held thread_id)))"

text \<open>
  C1: a thread is rewritten only if, at the reservation, no session ran on it and no one else was
  changing it; the checkpoint and its pending writes are the same before and after the summary; neither
  look at the graph that succeeded showed an interrupt or a next node (one that fails stops nothing, as the code says); and
  the new history is smaller than the old one and, with the system prompt, within the model's input budget, and
  a valid sequence if the identities of the old messages are unique and \<open>trim_messages\<close> gives an end of its
  input. The write names the checkpoint that was read, and the registry is left as it was, whatever the outcome.
\<close>

theorem thread_rewritten_only_unchanged:
  assumes "compact_conversation_thread E resolved base configured registry thread_id keep reads = (outcome, registry')"
  shows "registry' = registry
    \<and> (\<forall>config r. outcome = Inr (config, r) \<longrightarrow>
        thread_id \<notin> rg_mutations registry \<and> (\<forall>(i, s) \<in> set (rg_sessions registry). as_thread_id s \<noteq> thread_id)
        \<and> (\<exists>a b. tr_first reads = Some a \<and> tr_second reads = Some b \<and> cr_checkpoint a = cr_checkpoint b
             \<and> cr_pending_writes a = cr_pending_writes b \<and> nobody_waits (tr_first_state reads) \<and> nobody_waits (tr_second_state reads)
             \<and> (trims_to_suffix (ce_trim E) \<and> unique_ids (fst (snd (cr_checkpoint a))) \<longrightarrow> is_valid_message_sequence (ch_messages r))
             \<and> history_tokens E (ch_messages r) < history_tokens E (fst (snd (cr_checkpoint a)))
             \<and> history_tokens E (ch_messages r) + prompt_tokens (tr_breakdown reads)
                 \<le> model_input_budget resolved (tr_threshold reads)
             \<and> (fst (cr_checkpoint a) \<noteq> [] \<longrightarrow> dict_get config ''checkpoint_id'' = Some (PStr (fst (cr_checkpoint a))))))"
proof (cases "thread_id = []")
  case True
  then show ?thesis using assms(1) by (auto simp: compact_conversation_thread_def)
next
  case False
  show ?thesis
  proof (cases "reserve_thread_mutation registry thread_id True")
    case (Inl e)
    then show ?thesis using assms(1) False by (auto simp: compact_conversation_thread_def)
  next
    case (Inr held)
    then have run: "outcome = compact_thread_locked E resolved base configured thread_id keep reads"
      and reg: "registry' = end_thread_mutation held thread_id"
      using assms(1) False by (simp_all add: compact_conversation_thread_def)
    have free: "thread_id \<notin> rg_mutations registry" "\<forall>(i, s) \<in> set (rg_sessions registry). as_thread_id s \<noteq> thread_id"
      and "held = registry\<lparr>rg_mutations := insert thread_id (rg_mutations registry)\<rparr>"
      using Inr by (auto simp: reserve_thread_mutation_def list_ex_iff split: if_splits)
    then have same: "registry' = registry" by (simp add: reg end_thread_mutation_def)
    show ?thesis
      using same free locked_result unfolding run by blast
  qed
qed

definition demo_read :: checkpoint_read where
  "demo_read = \<lparr>cr_checkpoint = (''c1'', long_history, PNone), cr_pending_writes = PNone,
     cr_configurable = [(''thread_id'', PStr ''t'')]\<rparr>"

definition demo_reads :: thread_reads where
  "demo_reads = \<lparr>tr_first = Some demo_read, tr_first_state = Some ([\<lparr>gt_interrupts = []\<rparr>], []), tr_second_state = None,
     tr_second = Some demo_read, tr_breakdown = [(''skills'', 5)], tr_threshold = 100\<rparr>"

definition demo_model :: resolved_model where
  "demo_model = \<lparr>rm_context_window = Some 200, rm_model = PObj []\<rparr>"

abbreviation demo_compact_run ::
  "(compaction_error + (string, pyval) dict \<times> compacted_history) \<times> registry" where
  "demo_compact_run \<equiv> compact_conversation_thread demo_compaction demo_model [] 6 new_registry ''t'' None demo_reads"

lemma demo_compact_succeeds:
  "map_sum id (\<lambda>(c, r). (dict_get c ''checkpoint_id'', ch_compacted_count r)) (fst demo_compact_run)
     = Inr (Some (PStr ''c1''), 3)"
  by code_simp

theorem thread_rewritten_only_unchanged_witness:
  "snd demo_compact_run = new_registry
   \<and> (\<exists>config r. fst demo_compact_run = Inr (config, r)
        \<and> is_valid_message_sequence (ch_messages r)
        \<and> history_tokens demo_compaction (ch_messages r) < history_tokens demo_compaction long_history)"
proof -
  obtain config r where r: "fst demo_compact_run = Inr (config, r)"
    using demo_compact_succeeds by (cases "fst demo_compact_run") auto
  have trim: "trims_to_suffix (ce_trim demo_compaction)"
    by (simp add: trims_to_suffix_def demo_compaction_def)
  show ?thesis
    using thread_rewritten_only_unchanged [OF prod.collapse [symmetric], of demo_compaction demo_model "[]" 6 new_registry "''t''" None demo_reads]
      r trim long_history_ids
    by (auto simp: demo_reads_def demo_read_def)
qed

end
