(* ===== verification/Checkpoint_History.thy ===== *)
theory Checkpoint_History
  imports Chat_Messages "HOL-Library.List_Lexorder" "HOL-Library.Char_ord" "HOL-Library.Product_Lexorder"
    "HOL-Library.Sublist"
begin

text \<open>
  Model of \<open>agent/modules/conversations/history.py\<close> (reading a thread from its checkpoints): the leaf
  checkpoints, the path to the active one, where each message was first stored, the branches at each
  user message, the answers a thread can be forked at, and the serialised messages. The
  checkpointer is outside: a listing of it is a list of \<open>checkpoint_tuple\<close>. Sizes of attachments are integers.
\<close>

section \<open>Attachments and displayed text\<close>

definition lower_type :: "(string, pyval) dict \<Rightarrow> string" where
  "lower_type d = lower_str (strip (py_str (py_or (get_item d ''type'') (PStr []))))"

definition extract_image_base64_from_content :: "pyval \<Rightarrow> string list" where
  "extract_image_base64_from_content content =
     (case content of
        PList parts \<Rightarrow> List.map_filter (\<lambda>part. case part of
            PDict d \<Rightarrow>
              (if lower_type d \<noteq> ''image'' then None
               else (case get_item d ''base64'' of PStr s \<Rightarrow> if s \<noteq> [] then Some s else None | _ \<Rightarrow> None))
          | _ \<Rightarrow> None) parts
      | _ \<Rightarrow> [])"

definition or_empty :: "(string, pyval) dict \<Rightarrow> string \<Rightarrow> string" where
  "or_empty d k = py_str (py_or (get_item d k) (PStr []))"

fun int_or_zero :: "pyval \<Rightarrow> int" where
  "int_or_zero (PInt i) = i"
| "int_or_zero (PBool b) = (if b then 1 else 0)"
| "int_or_zero _ = 0"

definition attachment_entry :: "(string, pyval) dict \<Rightarrow> string \<Rightarrow> (string, pyval) dict" where
  "attachment_entry d base64_value =
     [(''name'', PStr (or_empty d ''name'')), (''mime_type'', PStr (or_empty d ''mime_type'')),
      (''size'', PInt (int_or_zero (get_item d ''size''))), (''kind'', PStr (or_empty d ''kind''))]
     @ (if truthy (get_item d ''content'') then [(''content'', PStr (py_str (get_item d ''content'')))] else [])
     @ (if base64_value \<noteq> [] then [(''base64'', PStr base64_value)] else [])"

text \<open>The loop over the stored attachments, with the image payloads still to be handed out.\<close>

fun serialize_attachments :: "string list \<Rightarrow> pyval list \<Rightarrow> (string, pyval) dict list" where
  "serialize_attachments images [] = []"
| "serialize_attachments images (PDict d # rest) =
     (if lower_str (strip (or_empty d ''kind'')) = ''image''
      then (let own = or_empty d ''base64''; value = (if own = [] \<and> images \<noteq> [] then hd images else own)
            in attachment_entry d value # serialize_attachments (drop 1 images) rest)
      else attachment_entry d (or_empty d ''base64'') # serialize_attachments images rest)"
| "serialize_attachments images (_ # rest) = serialize_attachments images rest"

definition serialize_message_attachments :: "message \<Rightarrow> (string, pyval) dict list" where
  "serialize_message_attachments m =
     (case get_item (mg_kwargs m) ''attachments'' of
        PList raw \<Rightarrow> serialize_attachments (extract_image_base64_from_content (mg_content m)) raw
      | _ \<Rightarrow> [])"

fun human_parts :: "bool \<Rightarrow> nat \<Rightarrow> pyval list \<Rightarrow> string list" where
  "human_parts has_attachments i [] = []"
| "human_parts has_attachments i (PDict d # rest) =
     (let part_type = lower_type d; more = human_parts has_attachments (Suc i) rest in
      if part_type = ''text''
      then (if has_attachments \<and> 0 < i then more
            else (case get_item d ''text'' of PStr s \<Rightarrow> if s \<noteq> [] then s # more else more | _ \<Rightarrow> more))
      else if part_type \<in> {''image'', ''file'', ''audio'', ''video''} \<and> \<not> has_attachments
        then (''[Attached '' @ part_type @ '']'') # more
      else more)"
| "human_parts has_attachments i (v # rest) = py_str v # human_parts has_attachments (Suc i) rest"

definition human_content_text :: "pyval \<Rightarrow> bool \<Rightarrow> string" where
  "human_content_text content has_attachments =
     (case content of
        PStr s \<Rightarrow> s
      | PList parts \<Rightarrow> strip (join_str blank_line (human_parts has_attachments 0 parts))
      | v \<Rightarrow> py_str v)"

section \<open>Checkpoints\<close>

record checkpoint_tuple =
  ct_config :: pyval
  ct_parent_config :: pyval
  ct_id :: pyval
  ct_ts :: pyval
  ct_messages :: "message list"

definition checkpoint_configurable :: "pyval \<Rightarrow> (string, pyval) dict" where
  "checkpoint_configurable config =
     (case config of
        PDict d \<Rightarrow> (case get_item d ''configurable'' of PDict e \<Rightarrow> e | _ \<Rightarrow> [])
      | _ \<Rightarrow> [])"

definition checkpoint_id_from_config :: "pyval \<Rightarrow> string" where
  "checkpoint_id_from_config config = or_empty (checkpoint_configurable config) ''checkpoint_id''"

definition checkpoint_id_from_tuple :: "checkpoint_tuple \<Rightarrow> string" where
  "checkpoint_id_from_tuple t =
     (let i = checkpoint_id_from_config (ct_config t)
      in if i \<noteq> [] then i else py_str (py_or (ct_id t) (PStr [])))"

definition parent_checkpoint_id :: "checkpoint_tuple \<Rightarrow> string" where
  "parent_checkpoint_id t = checkpoint_id_from_config (ct_parent_config t)"

definition checkpoint_sort_key :: "checkpoint_tuple \<Rightarrow> string \<times> string" where
  "checkpoint_sort_key t = (py_str (py_or (ct_ts t) (PStr [])), checkpoint_id_from_tuple t)"

text \<open>\<open>_list_checkpoint_tuples\<close>: sub-graph checkpoints are left out.\<close>

definition list_checkpoint_tuples :: "checkpoint_tuple list \<Rightarrow> checkpoint_tuple list" where
  "list_checkpoint_tuples listing =
     filter (\<lambda>t. or_empty (checkpoint_configurable (ct_config t)) ''checkpoint_ns'' = []) listing"

definition leaf_checkpoint_tuples :: "checkpoint_tuple list \<Rightarrow> checkpoint_tuple list" where
  "leaf_checkpoint_tuples ts =
     (let parent_ids = filter (\<lambda>p. p \<noteq> []) (map parent_checkpoint_id ts)
      in sort_key checkpoint_sort_key
           (filter (\<lambda>t. checkpoint_id_from_tuple t \<noteq> [] \<and> checkpoint_id_from_tuple t \<notin> set parent_ids
                        \<and> ct_messages t \<noteq> []) ts))"

text \<open>\<open>by_id\<close>: a later tuple with the same identity replaces an earlier one.\<close>

definition checkpoints_by_id :: "checkpoint_tuple list \<Rightarrow> (string, checkpoint_tuple) dict" where
  "checkpoints_by_id ts =
     foldl (\<lambda>d t. if checkpoint_id_from_tuple t \<noteq> [] then dict_set (checkpoint_id_from_tuple t) t d else d) [] ts"

text \<open>The loop of \<open>_checkpoint_path_to_active\<close>; it ends on a cyclic chain because \<open>visited\<close> grows.\<close>

function parent_path :: "(string, checkpoint_tuple) dict \<Rightarrow> string \<Rightarrow> string list \<Rightarrow> checkpoint_tuple list" where
  "parent_path by_id current visited =
     (if current = [] \<or> current \<in> set visited then []
      else (case dict_get by_id current of
              None \<Rightarrow> []
            | Some t \<Rightarrow> t # parent_path by_id (parent_checkpoint_id t) (current # visited)))"
  by pat_completeness auto
termination
  by (relation "measure (\<lambda>(by_id, current, visited). unvisited by_id visited)") (auto intro: unvisited_Cons)

declare parent_path.simps [simp del]

definition checkpoint_path_to_active :: "checkpoint_tuple list \<Rightarrow> string \<Rightarrow> checkpoint_tuple list" where
  "checkpoint_path_to_active ts active = rev (parent_path (checkpoints_by_id ts) active [])"

section \<open>Message identity\<close>

fun kind_name :: "message_kind \<Rightarrow> string" where
  "kind_name Human = ''human''"
| "kind_name AI = ''ai''"
| "kind_name Tool = ''tool''"
| "kind_name System = ''system''"
| "kind_name Other = ''other''"

definition human_text :: "message \<Rightarrow> string" where
  "human_text m = human_content_text (mg_content m) (serialize_message_attachments m \<noteq> [])"

definition message_content_key :: "message \<Rightarrow> string" where
  "message_content_key m =
     (case mg_kind m of
        Human \<Rightarrow> human_text m
      | AI \<Rightarrow> final_text (mg_content m)
      | Tool \<Rightarrow> final_text (mg_content m)
      | _ \<Rightarrow> py_str (mg_content m))"

type_synonym signature_key = "string \<times> string \<times> string \<times> string"

definition message_signature :: "message \<Rightarrow> signature_key" where
  "message_signature m =
     (kind_name (mg_kind m), (case mg_id m of Some i \<Rightarrow> i | None \<Rightarrow> []),
      py_str (py_or (mg_tool_call_id m) (PStr [])), message_content_key m)"

definition message_prefix_key :: "message list \<Rightarrow> nat \<Rightarrow> signature_key list" where
  "message_prefix_key messages end_index = map message_signature (take end_index messages)"

text \<open>Where each message was first stored: the first checkpoint of the path with the same messages up to it.\<close>

definition note_sources ::
  "message list \<Rightarrow> (nat, string \<times> string) dict \<Rightarrow> checkpoint_tuple \<Rightarrow> (nat, string \<times> string) dict" where
  "note_sources active sources t =
     foldl (\<lambda>sources i.
        if dict_get sources i \<noteq> None then sources
        else if message_prefix_key (ct_messages t) (i + 1) \<noteq> message_prefix_key active (i + 1) then sources
        else dict_set i (checkpoint_id_from_tuple t, parent_checkpoint_id t) sources)
       sources [0..<min (length active) (length (ct_messages t))]"

definition message_source_by_index :: "message list \<Rightarrow> checkpoint_tuple list \<Rightarrow> (nat, string \<times> string) dict" where
  "message_source_by_index active path = foldl (note_sources active) [] path"

section \<open>Branches\<close>

record branch_option =
  bo_checkpoint_id :: string
  bo_message :: string

record branch_info =
  br_current :: nat
  br_total :: nat
  br_options :: "branch_option list"

definition branch_options :: "message list \<Rightarrow> nat \<Rightarrow> checkpoint_tuple list \<Rightarrow> (signature_key, branch_option) dict" where
  "branch_options active i leaves =
     foldl (\<lambda>options leaf.
        if length (ct_messages leaf) \<le> i then options
        else (let m = ct_messages leaf ! i in
              if mg_kind m \<noteq> Human then options
              else if message_prefix_key (ct_messages leaf) i \<noteq> message_prefix_key active i then options
              else if checkpoint_id_from_tuple leaf = [] then options
              else dict_set (message_signature m)
                     \<lparr>bo_checkpoint_id = checkpoint_id_from_tuple leaf, bo_message = human_text m\<rparr> options))
       [] leaves"

definition branch_at :: "message list \<Rightarrow> checkpoint_tuple list \<Rightarrow> nat \<Rightarrow> branch_info option" where
  "branch_at active leaves i =
     (if mg_kind (active ! i) \<noteq> Human then None
      else (let by_signature = branch_options active i leaves; options = map snd by_signature in
            if length options \<le> 1 then None
            else (let current_index = (case dict_get by_signature (message_signature (active ! i)) of
                      None \<Rightarrow> 0
                    | Some current \<Rightarrow>
                        (let k = length (takeWhile (\<lambda>o'. bo_checkpoint_id o' \<noteq> bo_checkpoint_id current) options)
                         in if k < length options then k else 0))
                  in Some \<lparr>br_current = current_index + 1, br_total = length options, br_options = options\<rparr>)))"

definition branch_metadata_by_index :: "message list \<Rightarrow> checkpoint_tuple list \<Rightarrow> (nat, branch_info) dict" where
  "branch_metadata_by_index active leaves =
     List.map_filter (\<lambda>i. map_option (Pair i) (branch_at active leaves i)) [0..<length active]"

section \<open>Answers a thread can be forked at\<close>

definition completed_answer :: "message \<Rightarrow> bool" where
  "completed_answer m = (mg_kind m = AI \<and> mg_tool_calls m = [] \<and> strip (final_text (mg_content m)) \<noteq> []
     \<and> \<not> truthy (get_item (mg_kwargs m) ''is_compact_summary''))"

definition finish_turn :: "message list \<Rightarrow> nat option \<Rightarrow> nat list \<Rightarrow> nat list" where
  "finish_turn messages last_index found =
     (case last_index of
        None \<Rightarrow> found
      | Some i \<Rightarrow> if completed_answer (messages ! i) then List.insert i found else found)"

definition conversational :: "message \<Rightarrow> bool" where
  "conversational m = (mg_kind m = Human \<or> mg_kind m = AI \<or> mg_kind m = Tool)"

text \<open>The loop of \<open>forkable_message_indices\<close> over \<open>enumerate(messages)\<close>.\<close>

fun forkable_loop :: "message list \<Rightarrow> nat option \<Rightarrow> nat list \<Rightarrow> nat list \<Rightarrow> nat list" where
  "forkable_loop messages last_index found [] = finish_turn messages last_index found"
| "forkable_loop messages last_index found (i # rest) =
     (let found = (if mg_kind (messages ! i) = Human then finish_turn messages last_index found else found);
          last_index = (if conversational (messages ! i) then Some i else last_index)
      in forkable_loop messages last_index found rest)"

definition forkable_message_indices :: "message list \<Rightarrow> nat set" where
  "forkable_message_indices messages = set (forkable_loop messages None [] [0..<length messages])"

section \<open>The serialised thread\<close>

record thread_entry =
  te_id :: "string option"
  te_role :: string
  te_content :: string
  te_attachments :: "(string, pyval) dict list"
  te_message_index :: "nat option"
  te_source_checkpoint_id :: "string option"
  te_parent_checkpoint_id :: "string option"
  te_branch :: "branch_info option"
  te_tool_calls :: "pyval list"
  te_name :: "string option"
  te_tool_call_id :: pyval
  te_browser_artifact :: pyval

definition plain_entry :: "message \<Rightarrow> string \<Rightarrow> string \<Rightarrow> thread_entry" where
  "plain_entry m role content = \<lparr>te_id = mg_id m, te_role = role, te_content = content, te_attachments = [],
     te_message_index = None, te_source_checkpoint_id = None, te_parent_checkpoint_id = None, te_branch = None,
     te_tool_calls = [], te_name = None, te_tool_call_id = PNone, te_browser_artifact = PNone\<rparr>"

definition call_entry :: "pyval \<Rightarrow> pyval" where
  "call_entry tc = (case tc of
     PDict d \<Rightarrow> PDict [(''id'', get_item d ''id''), (''name'', get_item d ''name''), (''args'', get_item d ''args'')]
   | v \<Rightarrow> v)"

definition serialize_message ::
  "nat set \<Rightarrow> (nat, string \<times> string) dict \<Rightarrow> (nat, branch_info) dict \<Rightarrow> nat \<Rightarrow> message \<Rightarrow> thread_entry" where
  "serialize_message forkable sources branches i m =
     (case mg_kind m of
        Human \<Rightarrow>
          (let e = (plain_entry m ''user'' (human_text m))\<lparr>te_attachments := serialize_message_attachments m,
                 te_branch := dict_get branches i\<rparr>
           in case dict_get sources i of
                Some (source, parent) \<Rightarrow>
                  (if source = [] then e
                   else e\<lparr>te_message_index := Some i, te_source_checkpoint_id := Some source,
                          te_parent_checkpoint_id := Some parent\<rparr>)
              | None \<Rightarrow> e)
      | AI \<Rightarrow>
          (let e = (plain_entry m ''assistant'' (final_text (mg_content m)))
                 \<lparr>te_tool_calls := map call_entry (mg_tool_calls m)\<rparr>
           in if i \<in> forkable
              then (case dict_get sources i of
                      Some (source, parent) \<Rightarrow> e\<lparr>te_message_index := Some i, te_source_checkpoint_id := Some source\<rparr>
                    | None \<Rightarrow> e)
              else e)
      | Tool \<Rightarrow>
          (plain_entry m ''tool''
             (extract_tool_display_content (PObj [(''artifact'', mg_artifact m), (''content'', mg_content m)])))
            \<lparr>te_name := mg_name m, te_tool_call_id := mg_tool_call_id m,
             te_browser_artifact := (case mg_artifact m of PDict d \<Rightarrow>
                 (if truthy (get_item d ''browser'') then get_item d ''browser'' else PNone) | _ \<Rightarrow> PNone)\<rparr>
      | _ \<Rightarrow> plain_entry m ''system'' (py_str (mg_content m)))"

definition serialize_thread_messages ::
  "message list \<Rightarrow> (nat, string \<times> string) dict \<Rightarrow> (nat, branch_info) dict \<Rightarrow> thread_entry list" where
  "serialize_thread_messages messages sources branches =
     (let forkable = forkable_message_indices messages
      in map (\<lambda>i. serialize_message forkable sources branches i (messages ! i)) [0..<length messages])"

text \<open>
  \<open>get_thread_messages_payload\<close>, given the tuple the checkpointer finds for the request (\<open>None\<close> if none
  or the read failed) and the listing of the thread's checkpoints.
\<close>

datatype history_error = Checkpoint_not_found

definition get_thread_messages_payload ::
  "bool \<Rightarrow> checkpoint_tuple option \<Rightarrow> bool \<Rightarrow> checkpoint_tuple list \<Rightarrow> history_error + thread_entry list \<times> string" where
  "get_thread_messages_payload explicit found include_branches listing =
     (case found of
        None \<Rightarrow> if explicit then Inl Checkpoint_not_found else Inr ([], [])
      | Some t \<Rightarrow>
          (let active = checkpoint_id_from_tuple t; messages = ct_messages t in
           if \<not> include_branches then Inr (serialize_thread_messages messages [] [], active)
           else (let tuples = list_checkpoint_tuples listing;
                     tuples = (if active \<notin> set (map checkpoint_id_from_tuple tuples) then tuples @ [t] else tuples);
                     sources = message_source_by_index messages (checkpoint_path_to_active tuples active);
                     branches = branch_metadata_by_index messages (leaf_checkpoint_tuples tuples)
                 in Inr (serialize_thread_messages messages sources branches, active))))"

end
