(* ===== verification/History_Proofs.thy ===== *)
theory History_Proofs
  imports Checkpoint_History
begin

text \<open>
  What the reading of a thread promises: the path to the active checkpoint is the chain of its
  parents; each message is attributed to the first checkpoint of the path that holds the same history
  up to it; branch choices are well-formed; and exactly the completed answers are offered for forking.
\<close>

section \<open>The path to the active checkpoint\<close>

lemma by_id_keyed:
  "dict_get (checkpoints_by_id ts) i = Some t \<Longrightarrow> checkpoint_id_from_tuple t = i \<and> t \<in> set ts \<and> i \<noteq> []"
proof -
  let ?step = "\<lambda>d t. if checkpoint_id_from_tuple t \<noteq> [] then dict_set (checkpoint_id_from_tuple t) t d else d"
  have "dict_get (foldl ?step d ts) i = Some t
      \<Longrightarrow> dict_get d i = Some t \<or> (checkpoint_id_from_tuple t = i \<and> t \<in> set ts \<and> i \<noteq> [])" for d
  proof (induction ts arbitrary: d)
    case (Cons u us)
    then have "dict_get (?step d u) i = Some t \<or> (checkpoint_id_from_tuple t = i \<and> t \<in> set us \<and> i \<noteq> [])"
      by (simp only: foldl_Cons)
    then show ?case by (auto simp: dict_simps split: if_splits)
  qed simp
  then show "dict_get (checkpoints_by_id ts) i = Some t \<Longrightarrow> ?thesis"
    unfolding checkpoints_by_id_def by fastforce
qed

lemma by_id_complete:
  "t \<in> set ts \<Longrightarrow> checkpoint_id_from_tuple t \<noteq> []
   \<Longrightarrow> dict_get (checkpoints_by_id ts) (checkpoint_id_from_tuple t) \<noteq> None"
proof -
  let ?step = "\<lambda>d t. if checkpoint_id_from_tuple t \<noteq> [] then dict_set (checkpoint_id_from_tuple t) t d else d"
  have keep: "dict_get d i \<noteq> None \<Longrightarrow> dict_get (foldl ?step d ts) i \<noteq> None" for d i ts
  proof (induction ts arbitrary: d)
    case (Cons u us)
    have "dict_get (?step d u) i \<noteq> None" using Cons.prems by (simp add: dict_simps)
    then show ?case unfolding foldl_Cons by (rule Cons.IH)
  qed simp
  have "t \<in> set ts \<Longrightarrow> checkpoint_id_from_tuple t \<noteq> []
      \<Longrightarrow> dict_get (foldl ?step d ts) (checkpoint_id_from_tuple t) \<noteq> None" for d
  proof (induction ts arbitrary: d)
    case (Cons u us)
    show ?case
    proof (cases "u = t")
      case True
      then have "dict_get (?step d u) (checkpoint_id_from_tuple t) \<noteq> None"
        using Cons.prems(2) by (simp add: dict_simps)
      then show ?thesis unfolding foldl_Cons by (rule keep)
    next
      case False
      then have "t \<in> set us" using Cons.prems(1) by simp
      then show ?thesis unfolding foldl_Cons using Cons.prems(2) by (rule Cons.IH)
    qed
  qed simp
  then show "t \<in> set ts \<Longrightarrow> checkpoint_id_from_tuple t \<noteq> [] \<Longrightarrow> ?thesis"
    unfolding checkpoints_by_id_def by blast
qed

text \<open>A chain of parents, from a checkpoint up: each next one is the parent of the one before.\<close>

fun parent_chain :: "checkpoint_tuple list \<Rightarrow> bool" where
  "parent_chain [] = True"
| "parent_chain [t] = True"
| "parent_chain (t # u # ts) = (parent_checkpoint_id t = checkpoint_id_from_tuple u \<and> parent_chain (u # ts))"

lemma parent_path_facts:
  assumes "\<And>i t. dict_get d i = Some t \<Longrightarrow> checkpoint_id_from_tuple t = i"
  shows "parent_chain (parent_path d cur vis)
    \<and> distinct (map checkpoint_id_from_tuple (parent_path d cur vis))
    \<and> set (map checkpoint_id_from_tuple (parent_path d cur vis)) \<inter> set vis = {}
    \<and> (parent_path d cur vis \<noteq> [] \<longrightarrow> checkpoint_id_from_tuple (hd (parent_path d cur vis)) = cur
        \<and> (let p = parent_checkpoint_id (last (parent_path d cur vis))
           in p = [] \<or> dict_get d p = None \<or> p \<in> set (map checkpoint_id_from_tuple (parent_path d cur vis)) \<or> p \<in> set vis))"
  using assms
proof (induction d cur vis rule: parent_path.induct)
  case (1 d cur vis)
  show ?case
  proof (cases "cur = [] \<or> cur \<in> set vis \<or> dict_get d cur = None")
    case True
    then have "parent_path d cur vis = []" by (subst parent_path.simps) auto
    then show ?thesis by simp
  next
    case False
    then obtain t where t: "dict_get d cur = Some t" by auto
    let ?rest = "parent_path d (parent_checkpoint_id t) (cur # vis)"
    have path: "parent_path d cur vis = t # ?rest" using False t by (subst parent_path.simps) auto
    have id: "checkpoint_id_from_tuple t = cur" using 1(2) t by blast
    have IH: "parent_chain ?rest" "distinct (map checkpoint_id_from_tuple ?rest)"
      "set (map checkpoint_id_from_tuple ?rest) \<inter> set (cur # vis) = {}"
      "?rest \<noteq> [] \<Longrightarrow> checkpoint_id_from_tuple (hd ?rest) = parent_checkpoint_id t"
      "?rest \<noteq> [] \<Longrightarrow> (let p = parent_checkpoint_id (last ?rest)
         in p = [] \<or> dict_get d p = None \<or> p \<in> set (map checkpoint_id_from_tuple ?rest) \<or> p \<in> set (cur # vis))"
      using 1(1) [OF _ t] False 1(2) by blast+
    have chain: "parent_chain (t # ?rest)"
      using IH(1,4) by (cases ?rest) auto
    have ends: "?rest = [] \<Longrightarrow> parent_checkpoint_id t = [] \<or> dict_get d (parent_checkpoint_id t) = None
        \<or> parent_checkpoint_id t = cur \<or> parent_checkpoint_id t \<in> set vis"
      by (subst (asm) parent_path.simps) (auto split: if_splits option.splits)
    show ?thesis
      unfolding path using chain IH id ends False by (cases "?rest = []") (auto simp: Let_def)
  qed
qed

lemma path_empty:
  "checkpoint_path_to_active ts active = [] \<longleftrightarrow> active = [] \<or> active \<notin> set (map checkpoint_id_from_tuple ts)"
proof -
  have "parent_path (checkpoints_by_id ts) active [] = [] \<longleftrightarrow> active = [] \<or> dict_get (checkpoints_by_id ts) active = None"
    by (subst parent_path.simps) (auto split: option.splits)
  moreover have "dict_get (checkpoints_by_id ts) active = None \<longleftrightarrow> active \<notin> set (map checkpoint_id_from_tuple ts)"
    if "active \<noteq> []"
    using that by_id_keyed [of ts active] by_id_complete [of _ ts] by (cases "dict_get (checkpoints_by_id ts) active") fastforce+
  ultimately show ?thesis by (auto simp: checkpoint_path_to_active_def)
qed

text \<open>
  The path to the active checkpoint ends, on cyclic data too; no checkpoint occurs on it twice; it
  is a chain of parents from its first checkpoint to the active one; it is empty only for an unknown
  checkpoint, and it stops only where a parent is missing, unknown, or already on the path.
\<close>

theorem path_is_parent_chain:
  "let path = checkpoint_path_to_active ts active in
     distinct (map checkpoint_id_from_tuple path) \<and> set path \<subseteq> set ts \<and> parent_chain (rev path)
     \<and> (path = [] \<longleftrightarrow> active = [] \<or> active \<notin> set (map checkpoint_id_from_tuple ts))
     \<and> (path = [] \<or> checkpoint_id_from_tuple (last path) = active
         \<and> (let p = parent_checkpoint_id (hd path)
            in p = [] \<or> p \<notin> set (map checkpoint_id_from_tuple ts) \<or> p \<in> set (map checkpoint_id_from_tuple path)))"
proof -
  let ?d = "checkpoints_by_id ts"
  let ?up = "parent_path ?d active []"
  have "checkpoint_id_from_tuple t = i" if "dict_get ?d i = Some t" for i t
    using by_id_keyed [OF that] by blast
  note facts = parent_path_facts [of ?d active "[]", OF this]
  have sub: "set (parent_path ?d cur vis) \<subseteq> set ts" for cur vis
  proof (induction ?d cur vis rule: parent_path.induct)
    case (1 cur vis)
    show ?case
    proof (cases "cur = [] \<or> cur \<in> set vis \<or> dict_get ?d cur = None")
      case True
      then have "parent_path ?d cur vis = []" by (subst parent_path.simps) auto
      then show ?thesis by simp
    next
      case False
      then obtain t where t: "dict_get ?d cur = Some t" by auto
      then have "parent_path ?d cur vis = t # parent_path ?d (parent_checkpoint_id t) (cur # vis)"
        using False by (subst parent_path.simps) auto
      then show ?thesis using 1 [OF _ t] False by_id_keyed [OF t] by simp
    qed
  qed
  have known: "p \<notin> checkpoint_id_from_tuple ` set ts" if "dict_get ?d p = None" "p \<noteq> []" for p
    using that by_id_complete by fastforce
  define up where "up = ?up"
  have path: "checkpoint_path_to_active ts active = rev up" by (simp add: checkpoint_path_to_active_def up_def)
  show ?thesis
  proof (cases "up = []")
    case False
    then show ?thesis
      using facts path_empty [of ts active] sub [of active "[]"] known [of "parent_checkpoint_id (last up)"]
      unfolding path up_def [symmetric] Let_def by (auto simp: last_rev hd_rev rev_map [symmetric])
  next
    case True
    then show ?thesis using path_empty [of ts active] by (simp add: path)
  qed
qed

definition demo_checkpoint :: "string \<Rightarrow> string \<Rightarrow> message list \<Rightarrow> checkpoint_tuple" where
  "demo_checkpoint i parent messages = \<lparr>
     ct_config = PDict [(''configurable'', PDict [(''checkpoint_id'', PStr i)])],
     ct_parent_config = PDict [(''configurable'', PDict [(''checkpoint_id'', PStr parent)])],
     ct_id = PStr i, ct_ts = PStr i, ct_messages = messages\<rparr>"

text \<open>Two branches of a first checkpoint, and a damaged one that is its own parent.\<close>

definition demo_tuples :: "checkpoint_tuple list" where
  "demo_tuples = [demo_checkpoint ''a'' [] [], demo_checkpoint ''b'' ''a'' [], demo_checkpoint ''c'' ''a'' [],
     demo_checkpoint ''d'' ''d'' []]"

theorem path_is_parent_chain_witness:
  "map checkpoint_id_from_tuple (checkpoint_path_to_active demo_tuples ''c'') = [''a'', ''c'']
   \<and> parent_chain (rev (checkpoint_path_to_active demo_tuples ''c''))
   \<and> map checkpoint_id_from_tuple (checkpoint_path_to_active demo_tuples ''d'') = [''d'']"
proof -
  have "map checkpoint_id_from_tuple (checkpoint_path_to_active demo_tuples ''c'') = [''a'', ''c'']"
    "map checkpoint_id_from_tuple (checkpoint_path_to_active demo_tuples ''d'') = [''d'']"
    by (simp_all add: checkpoint_path_to_active_def checkpoints_by_id_def demo_tuples_def demo_checkpoint_def
        parent_path.simps checkpoint_id_from_tuple_def parent_checkpoint_id_def checkpoint_id_from_config_def
        checkpoint_configurable_def or_empty_def py_or_def get_default_def dict_simps)
  then show ?thesis
    using path_is_parent_chain [of demo_tuples "''c''"] by (simp add: Let_def)
qed

section \<open>Answers a thread can be forked at\<close>

text \<open>The next message of the conversation after a position: nothing, or one that satisfies \<open>P\<close>.\<close>

definition followed_by :: "(message \<Rightarrow> bool) \<Rightarrow> message list \<Rightarrow> nat \<Rightarrow> bool" where
  "followed_by P ms i = (case filter conversational (drop (Suc i) ms) of [] \<Rightarrow> True | m # _ \<Rightarrow> P m)"

lemma set_finish_turn:
  "set (finish_turn ms l found) = set found \<union> {i. l = Some i \<and> completed_answer (ms ! i)}"
  by (auto simp: finish_turn_def split: option.split)

lemma forkable_loop_set:
  assumes "k \<le> length ms"
    and "\<And>i. l = Some i \<Longrightarrow> i < k \<and> filter conversational (drop (Suc i) ms) = filter conversational (drop k ms)"
  shows "set (forkable_loop ms l found [k..<length ms])
    = set found \<union> {i. (l = Some i \<or> k \<le> i \<and> i < length ms) \<and> completed_answer (ms ! i)
        \<and> followed_by (\<lambda>m. mg_kind m = Human) ms i}"
  using assms
proof (induction "length ms - k" arbitrary: k l found)
  case 0
  then have "k = length ms" by simp
  then show ?case using 0(3) by (auto simp: set_finish_turn followed_by_def)
next
  case (Suc d)
  then have k: "k < length ms" by simp
  let ?m = "ms ! k"
  have upt: "[k..<length ms] = k # [Suc k..<length ms]" using k by (simp add: upt_conv_Cons)
  have drop: "drop k ms = ?m # drop (Suc k) ms" using k by (simp add: Cons_nth_drop_Suc)
  have d: "d = length ms - Suc k" and le: "Suc k \<le> length ms" using Suc(2) k by simp_all
  show ?case
  proof (cases "conversational ?m")
    case True
    have l: "followed_by (\<lambda>m. mg_kind m = Human) ms i = (mg_kind ?m = Human)" if "l = Some i" for i
      using Suc(4) [OF that] True by (simp add: followed_by_def drop)
    define found' where "found' = (if mg_kind ?m = Human then finish_turn ms l found else found)"
    have "set (forkable_loop ms (Some k) found' [Suc k..<length ms]) = set found' \<union>
        {i. (Some k = Some i \<or> Suc k \<le> i \<and> i < length ms) \<and> completed_answer (ms ! i)
          \<and> followed_by (\<lambda>m. mg_kind m = Human) ms i}"
      by (rule Suc(1) [OF d le]) simp
    moreover have "set found' = set found \<union> {i. l = Some i \<and> completed_answer (ms ! i)
        \<and> followed_by (\<lambda>m. mg_kind m = Human) ms i}"
      using l by (auto simp: found'_def set_finish_turn)
    moreover have "forkable_loop ms l found [k..<length ms] = forkable_loop ms (Some k) found' [Suc k..<length ms]"
      using True by (simp add: upt found'_def)
    ultimately show ?thesis using k by (auto simp: le_eq_less_or_eq [of k] less_eq_Suc_le)
  next
    case False
    then have "mg_kind ?m \<noteq> Human" "\<not> completed_answer ?m"
      by (auto simp: conversational_def completed_answer_def)
    then have "forkable_loop ms l found [k..<length ms] = forkable_loop ms l found [Suc k..<length ms]"
      using False by (simp add: upt)
    moreover have "set (forkable_loop ms l found [Suc k..<length ms]) = set found \<union>
        {i. (l = Some i \<or> Suc k \<le> i \<and> i < length ms) \<and> completed_answer (ms ! i)
          \<and> followed_by (\<lambda>m. mg_kind m = Human) ms i}"
      by (rule Suc(1) [OF d le]) (use Suc(4) False in \<open>auto simp: drop\<close>)
    ultimately show ?thesis
      using \<open>\<not> completed_answer ?m\<close> by (auto simp: le_eq_less_or_eq [of k] less_eq_Suc_le)
  qed
qed

text \<open>
  The answers a thread can be forked at are exactly the completed ones that end their turn: an
  assistant message with text, without tool calls and not a compaction summary, such that the next
  message of the conversation, if any, is the user's.
\<close>

theorem forkable_indices_spec:
  "forkable_message_indices ms = {i. i < length ms \<and> completed_answer (ms ! i)
     \<and> followed_by (\<lambda>m. mg_kind m = Human) ms i}"
  unfolding forkable_message_indices_def by (subst forkable_loop_set) auto

section \<open>Sources\<close>

definition stores :: "message list \<Rightarrow> nat \<Rightarrow> checkpoint_tuple \<Rightarrow> bool" where
  "stores active i t = (message_prefix_key (ct_messages t) (i + 1) = message_prefix_key active (i + 1))"

lemma stores_long: "stores active i t \<Longrightarrow> i < length active \<Longrightarrow> i < length (ct_messages t)"
  by (auto simp: stores_def message_prefix_key_def dest: arg_cong [where f = length])

lemma note_sources_at:
  "dict_get (note_sources active sources t) i =
     (case dict_get sources i of
        Some s \<Rightarrow> Some s
      | None \<Rightarrow> if i < length active \<and> stores active i t
                then Some (checkpoint_id_from_tuple t, parent_checkpoint_id t) else None)"
proof -
  let ?step = "\<lambda>sources i. if dict_get sources i \<noteq> None then sources
        else if message_prefix_key (ct_messages t) (i + 1) \<noteq> message_prefix_key active (i + 1) then sources
        else dict_set i (checkpoint_id_from_tuple t, parent_checkpoint_id t) sources"
  have "dict_get (foldl ?step s is) i =
     (case dict_get s i of Some v \<Rightarrow> Some v
      | None \<Rightarrow> if i \<in> set is \<and> stores active i t then Some (checkpoint_id_from_tuple t, parent_checkpoint_id t) else None)"
    for s "is"
  proof (induction "is" arbitrary: s)
    case (Cons j js)
    show ?case
      unfolding foldl_Cons Cons
      by (auto simp: dict_simps stores_def split: option.split)
  qed (simp split: option.split)
  then show ?thesis
    unfolding note_sources_def using stores_long [of active i t] by (auto split: option.split)
qed

text \<open>
  each message is attributed to the first checkpoint of the path that holds the same history up to
  it, with that checkpoint's parent; a message that no checkpoint of the path holds has no source.
\<close>

theorem sources_first_stored:
  "dict_get (message_source_by_index active path) i =
     (if i < length active
      then map_option (\<lambda>t. (checkpoint_id_from_tuple t, parent_checkpoint_id t)) (List.find (stores active i) path)
      else None)"
proof -
  have "dict_get (foldl (note_sources active) s path) i =
     (case dict_get s i of Some v \<Rightarrow> Some v
      | None \<Rightarrow> if i < length active
          then map_option (\<lambda>t. (checkpoint_id_from_tuple t, parent_checkpoint_id t)) (List.find (stores active i) path)
          else None)" for s
  proof (induction path arbitrary: s)
    case (Cons t path)
    show ?case unfolding foldl_Cons Cons note_sources_at by (auto split: option.split)
  qed (simp split: option.split)
  then show ?thesis by (simp add: message_source_by_index_def)
qed

section \<open>Branches\<close>

text \<open>A leaf that offers another message in the place of message \<open>i\<close>, after the same history.\<close>

definition offers :: "message list \<Rightarrow> nat \<Rightarrow> checkpoint_tuple \<Rightarrow> bool" where
  "offers active i leaf = (i < length (ct_messages leaf) \<and> mg_kind (ct_messages leaf ! i) = Human
     \<and> message_prefix_key (ct_messages leaf) i = message_prefix_key active i \<and> checkpoint_id_from_tuple leaf \<noteq> [])"

definition offered :: "nat \<Rightarrow> checkpoint_tuple \<Rightarrow> signature_key \<times> branch_option" where
  "offered i leaf = (message_signature (ct_messages leaf ! i),
     \<lparr>bo_checkpoint_id = checkpoint_id_from_tuple leaf, bo_message = human_text (ct_messages leaf ! i)\<rparr>)"

lemma branch_options_fold:
  "branch_options active i leaves = foldl (\<lambda>d leaf. dict_set (fst (offered i leaf)) (snd (offered i leaf)) d) []
     (filter (offers active i) leaves)"
proof -
  have "foldl (\<lambda>options leaf.
        if length (ct_messages leaf) \<le> i then options
        else (let m = ct_messages leaf ! i in
              if mg_kind m \<noteq> Human then options
              else if message_prefix_key (ct_messages leaf) i \<noteq> message_prefix_key active i then options
              else if checkpoint_id_from_tuple leaf = [] then options
              else dict_set (message_signature m)
                     \<lparr>bo_checkpoint_id = checkpoint_id_from_tuple leaf, bo_message = human_text m\<rparr> options)) d leaves
    = foldl (\<lambda>d leaf. dict_set (fst (offered i leaf)) (snd (offered i leaf)) d) d (filter (offers active i) leaves)" for d
    by (induction leaves arbitrary: d) (auto simp: offers_def offered_def Let_def not_le)
  then show ?thesis by (simp add: branch_options_def)
qed

lemma branch_options_dict:
  "is_dict (branch_options active i leaves)"
  "set (keys (branch_options active i leaves)) = (fst \<circ> offered i) ` {leaf \<in> set leaves. offers active i leaf}"
  "set (branch_options active i leaves) \<subseteq> offered i ` {leaf \<in> set leaves. offers active i leaf}"
proof -
  let ?f = "\<lambda>d leaf. dict_set (fst (offered i leaf)) (snd (offered i leaf)) d"
  have dict: "is_dict d \<Longrightarrow> is_dict (foldl ?f d ls)" for d ls
    by (induction ls arbitrary: d) (simp_all add: dict_simps)
  have keys: "set (keys (foldl ?f d ls)) = set (keys d) \<union> (fst \<circ> offered i) ` set ls" for d ls
    by (induction ls arbitrary: d) (auto simp: dict_simps)
  have subset: "set (foldl ?f d ls) \<subseteq> set d \<union> offered i ` set ls" for d ls
  proof (induction ls arbitrary: d)
    case (Cons l ls)
    show ?case using Cons [of "?f d l"] dict_set_subset [of "fst (offered i l)" "snd (offered i l)" d] by auto
  qed simp
  show "is_dict (branch_options active i leaves)"
    unfolding branch_options_fold by (rule dict) simp
  show "set (keys (branch_options active i leaves)) = (fst \<circ> offered i) ` {leaf \<in> set leaves. offers active i leaf}"
    unfolding branch_options_fold keys by simp
  show "set (branch_options active i leaves) \<subseteq> offered i ` {leaf \<in> set leaves. offers active i leaf}"
    using subset [of "[]" "filter (offers active i) leaves"] unfolding branch_options_fold by simp
qed

definition branch_choice :: "message list \<Rightarrow> checkpoint_tuple list \<Rightarrow> nat \<Rightarrow> branch_info \<Rightarrow> bool" where
  "branch_choice active leaves i b \<longleftrightarrow> i < length active \<and> mg_kind (active ! i) = Human
     \<and> 2 \<le> br_total b \<and> br_total b = length (br_options b) \<and> 1 \<le> br_current b \<and> br_current b \<le> br_total b
     \<and> br_total b = card ((fst \<circ> offered i) ` {leaf \<in> set leaves. offers active i leaf})
     \<and> set (br_options b) \<subseteq> (snd \<circ> offered i) ` {leaf \<in> set leaves. offers active i leaf}"

lemma branch_at_choice:
  assumes "branch_at active leaves i = Some b" "i < length active"
  shows "branch_choice active leaves i b"
proof -
  let ?d = "branch_options active i leaves"
  have card: "card ((fst \<circ> offered i) ` {leaf \<in> set leaves. offers active i leaf}) = length ?d"
    using branch_options_dict(1,2) [of active i leaves] distinct_card [of "keys ?d"] by (simp add: is_dict_def)
  have human: "mg_kind (active ! i) = Human" and long: "2 \<le> length ?d"
    and opts: "br_options b = map snd ?d" "br_total b = length ?d"
    using assms(1) by (auto simp: branch_at_def Let_def split: if_split_asm)
  have "1 \<le> br_current b \<and> br_current b \<le> length ?d"
    using assms(1) long by (auto simp: branch_at_def Let_def split: if_split_asm option.split_asm)
  moreover have "set (br_options b) \<subseteq> (snd \<circ> offered i) ` {leaf \<in> set leaves. offers active i leaf}"
    using branch_options_dict(3) [of active i leaves] by (auto simp: opts)
  ultimately show ?thesis
    using assms(2) human long unfolding branch_choice_def opts card by simp
qed

text \<open>
  Every branch point is a user message with at least two alternatives; the alternatives are those of
  the leaf checkpoints that have a user message at that place after the same history, one for each
  distinct message there; and the current one is among them.
\<close>

theorem branches_are_choices:
  "set (branch_metadata_by_index active leaves) \<subseteq> {(i, b). branch_choice active leaves i b}"
  by (auto simp: branch_metadata_by_index_def List.map_filter_def intro: branch_at_choice split: if_split_asm)

end
