(* ===== verification/Thread_Fork.thy ===== *)
theory Thread_Fork
  imports History_Proofs Session_Guard
begin

text \<open>
  Model of \<open>agent/modules/conversations/forking.py\<close>: the title of a fork, the rebinding of storage
  references, the updates that seed the new thread, and the checks a fork passes under the reservation
  of its source. Copying workspace directories and skill snapshots is I/O and is left out; the storage
  references it yields are the parameter \<open>replacements\<close>.
\<close>

section \<open>Titles\<close>

text \<open>\<open>_TITLE_SUFFIX.fullmatch\<close>: the text before \<open>" (n)"\<close> on one line, and the number.\<close>

definition title_suffix :: "string \<Rightarrow> (string \<times> nat) option" where
  "title_suffix t =
     (if t = [] \<or> last t \<noteq> CHR '')'' then None
      else (let r = rev (butlast t); digits = rev (takeWhile is_digit r); front = rev (dropWhile is_digit r) in
            if digits = [] \<or> hd digits = CHR ''0'' \<or> digits = ''1'' \<or> \<not> ends_with '' ('' front
               \<or> CHR 0x0A \<in> set front then None
            else Some (take (length front - 2) front, digits_nat digits)))"

definition numbered :: "nat \<Rightarrow> string" where
  "numbered n = '' ('' @ nat_digits n @ '')''"

definition fork_base :: "string \<Rightarrow> string" where
  "fork_base title = (case title_suffix title of Some (base, n) \<Rightarrow> base | None \<Rightarrow> title)"

text \<open>The loop over the existing titles.\<close>

definition last_number :: "string \<Rightarrow> nat \<Rightarrow> string list \<Rightarrow> nat" where
  "last_number base number titles =
     foldl (\<lambda>number existing. case title_suffix existing of
         Some (b, n) \<Rightarrow> if b = py_take (255 - int (length (numbered n))) base then max number n else number
       | None \<Rightarrow> number) number titles"

definition candidate_title :: "string \<Rightarrow> nat \<Rightarrow> string" where
  "candidate_title base n = rstrip (py_take (255 - int (length (numbered n))) base) @ numbered n"

text \<open>The number a title ends with; it grows with each candidate, so the search ends.\<close>

definition closing_number :: "string \<Rightarrow> nat" where
  "closing_number t = digits_nat (rev (takeWhile is_digit (rev (butlast t))))"

lemma closing_number_candidate [simp]: "closing_number (candidate_title base n) = n"
proof -
  have "rev (butlast (candidate_title base n)) =
      rev (nat_digits n) @ CHR ''('' # CHR '' '' # rev (rstrip (py_take (255 - int (length (numbered n))) base))"
    by (simp add: candidate_title_def numbered_def butlast_append)
  then have "takeWhile is_digit (rev (butlast (candidate_title base n))) = rev (nat_digits n)"
    by (simp add: span_rev_digits is_digit_def)
  then show ?thesis by (simp add: closing_number_def)
qed

function free_title :: "string \<Rightarrow> string list \<Rightarrow> nat \<Rightarrow> string" where
  "free_title base titles number =
     (let n = number + 1
      in if candidate_title base n \<in> set titles then free_title base titles n else candidate_title base n)"
  by pat_completeness auto
termination
proof (relation "measure (\<lambda>(base, titles, number). length (filter (\<lambda>t. number < closing_number t) titles))")
  fix base titles number x
  assume x: "x = number + (1::nat)" and mem: "candidate_title base x \<in> set titles"
  have "length (filter (\<lambda>t. x < closing_number t) titles) < length (filter (\<lambda>t. number < closing_number t) titles)"
    using mem
  proof (induction titles)
    case (Cons t ts)
    have le: "length (filter (\<lambda>t. x < closing_number t) ts) \<le> length (filter (\<lambda>t. number < closing_number t) ts)" for ts
      by (induction ts) (auto simp: x)
    show ?case
      using Cons le [of ts] by (cases "t = candidate_title base x") (auto simp: x)
  qed simp
  then show "((base, titles, x), base, titles, number)
      \<in> measure (\<lambda>(base, titles, number). length (filter (\<lambda>t. number < closing_number t) titles))"
    by simp
qed simp

declare free_title.simps [simp del]

definition next_fork_title :: "string \<Rightarrow> string list \<Rightarrow> string" where
  "next_fork_title title titles =
     (let title = (if strip title = [] then ''New conversation'' else strip title);
          base = fork_base title;
          number = (case title_suffix title of Some (b, n) \<Rightarrow> n | None \<Rightarrow> 1)
      in free_title base titles (last_number base number titles))"

lemma free_title_candidate:
  "\<exists>n. number < n \<and> free_title base titles number = candidate_title base n
     \<and> candidate_title base n \<notin> set titles"
proof (induction base titles number rule: free_title.induct)
  case (1 base titles number)
  show ?case
  proof (cases "candidate_title base (number + 1) \<in> set titles")
    case True
    then obtain n where "number + 1 < n" "free_title base titles (number + 1) = candidate_title base n"
      "candidate_title base n \<notin> set titles"
      using 1 by blast
    then show ?thesis using True by (subst free_title.simps) (auto simp: Let_def intro!: exI [of _ n])
  next
    case False
    then show ?thesis by (subst free_title.simps) (auto simp: Let_def intro!: exI [of _ "number + 1"])
  qed
qed

lemma last_number_bounds:
  "number \<le> last_number base number titles"
  "t \<in> set titles \<Longrightarrow> title_suffix t = Some (py_take (255 - int (length (numbered n))) base, n)
   \<Longrightarrow> n \<le> last_number base number titles"
proof -
  let ?step = "\<lambda>number existing. case title_suffix existing of
         Some (b, n) \<Rightarrow> if b = py_take (255 - int (length (numbered n))) base then max number n else number
       | None \<Rightarrow> number"
  have step: "k \<le> ?step k u" for k u by (auto split: option.split)
  have mono: "k \<le> foldl ?step k ts" for k ts
  proof (induction ts arbitrary: k)
    case (Cons u us)
    show ?case unfolding foldl_Cons using step [of k u] Cons [of "?step k u"] by (rule order_trans)
  qed simp
  then show "number \<le> last_number base number titles" by (simp add: last_number_def)
  show "t \<in> set titles \<Longrightarrow> title_suffix t = Some (py_take (255 - int (length (numbered n))) base, n)
   \<Longrightarrow> n \<le> last_number base number titles"
    unfolding last_number_def
  proof (induction titles arbitrary: number)
    case (Cons u us)
    show ?case
    proof (cases "t = u")
      case True
      then have "n \<le> ?step number u" using Cons.prems(2) by simp
      then show ?thesis unfolding foldl_Cons using mono by (rule order_trans)
    next
      case False
      then show ?thesis unfolding foldl_Cons using Cons by simp
    qed
  qed simp
qed

lemma title_suffix_numbered:
  assumes "2 \<le> n" "CHR 0x0A \<notin> set base"
  shows "title_suffix (base @ numbered n) = Some (base, n)"
proof -
  have r: "rev (butlast (base @ numbered n)) = rev (nat_digits n) @ CHR ''('' # CHR '' '' # rev base"
    by (simp add: numbered_def butlast_append)
  have "takeWhile is_digit (rev (butlast (base @ numbered n))) = rev (nat_digits n)"
    "dropWhile is_digit (rev (butlast (base @ numbered n))) = CHR ''('' # CHR '' '' # rev base"
    unfolding r by (simp_all add: span_rev_digits is_digit_def)
  note parts = this
  have "nat_digits n \<noteq> ''1''"
    using assms(1) digits_nat_nat_digits [of n] by (auto simp: digits_nat_def)
  moreover have "hd (nat_digits n) \<noteq> CHR ''0''" using assms(1) by (intro hd_nat_digits) simp
  ultimately show ?thesis
    using assms(2) by (simp add: title_suffix_def parts Let_def) (simp add: numbered_def ends_with_def)
qed

text \<open>
  The title of a fork is never one that exists; it is the source's title without its number,
  shortened, with a number above the source's own and above that of every existing fork of this base
  (compared as the code does, after the cut); and it has at most 255 characters as long as the number
  has at most 252 digits.
\<close>

theorem fork_title_fresh:
  assumes "title = (if strip source = [] then ''New conversation'' else strip source)"
  shows "\<exists>n. next_fork_title source titles = candidate_title (fork_base title) n
     \<and> next_fork_title source titles \<notin> set titles
     \<and> (case title_suffix title of Some (b, k) \<Rightarrow> k < n | None \<Rightarrow> 1 < n)
     \<and> (\<forall>t \<in> set titles. \<forall>k. title_suffix t = Some (py_take (255 - int (length (numbered k))) (fork_base title), k) \<longrightarrow> k < n)
     \<and> (length (numbered n) \<le> 255 \<longrightarrow> length (next_fork_title source titles) \<le> 255)"
proof -
  let ?base = "fork_base title"
  define number where "number = (case title_suffix title of Some (b, n) \<Rightarrow> n | None \<Rightarrow> 1)"
  have next_title: "next_fork_title source titles = free_title ?base titles (last_number ?base number titles)"
    by (simp add: next_fork_title_def assms number_def Let_def)
  obtain n where n: "last_number ?base number titles < n"
    "free_title ?base titles (last_number ?base number titles) = candidate_title ?base n"
    "candidate_title ?base n \<notin> set titles"
    using free_title_candidate by blast
  have "number < n" using last_number_bounds(1) n(1) by (rule le_less_trans)
  then have own: "case title_suffix title of Some (b, k) \<Rightarrow> k < n | None \<Rightarrow> 1 < n"
    by (auto simp: number_def split: option.splits prod.splits)
  have others: "\<forall>t \<in> set titles. \<forall>k. title_suffix t = Some (py_take (255 - int (length (numbered k))) ?base, k) \<longrightarrow> k < n"
    using last_number_bounds(2) [of _ titles] n(1) by (meson le_less_trans)
  have "length (candidate_title ?base n) \<le> 255" if "length (numbered n) \<le> 255"
  proof -
    let ?cut = "py_take (255 - int (length (numbered n))) ?base"
    have "length (rstrip ?cut) \<le> length ?cut"
      using length_dropWhile_le [of is_space "rev ?cut"] by (simp add: rstrip_def)
    moreover have "length ?cut \<le> 255 - length (numbered n)" using that by (simp add: py_take_def nat_diff_distrib)
    ultimately show ?thesis using that by (simp add: candidate_title_def)
  qed
  then show ?thesis using n own others by (intro exI [of _ n]) (simp add: next_title)
qed

theorem fork_title_fresh_witness:
  "next_fork_title ''Plan (2)'' [''Plan (2)'', ''Plan (4)'', ''Plan (5)''] \<notin> set [''Plan (2)'', ''Plan (4)'', ''Plan (5)'']
   \<and> next_fork_title ''Plan (2)'' [''Plan (2)'', ''Plan (4)'', ''Plan (5)''] = ''Plan (6)''"
proof -
  have "next_fork_title ''Plan (2)'' [''Plan (2)'', ''Plan (4)'', ''Plan (5)''] = ''Plan (6)''"
    by code_simp
  moreover have "''Plan (2)'' = (if strip ''Plan (2)'' = [] then ''New conversation'' else strip ''Plan (2)'')"
    by code_simp
  from fork_title_fresh [OF this, of "[''Plan (2)'', ''Plan (4)'', ''Plan (5)'']"]
  have "next_fork_title ''Plan (2)'' [''Plan (2)'', ''Plan (4)'', ''Plan (5)''] \<notin> set [''Plan (2)'', ''Plan (4)'', ''Plan (5)'']"
    by blast
  ultimately show ?thesis by blast
qed

section \<open>Storage references\<close>

text \<open>
  \<open>_rebind_storage_references\<close>. An object with \<open>model_copy\<close> is copied with its \<open>model_fields\<close> rebound. A
  tuple is a list here.
\<close>

definition rebind_str :: "(string \<times> string) list \<Rightarrow> string \<Rightarrow> string" where
  "rebind_str replacements s = foldl (\<lambda>v (source, destination). replace_sub source destination v) s replacements"

fun rebind :: "(string \<times> string) list \<Rightarrow> pyval \<Rightarrow> pyval"
  and rebind_list :: "(string \<times> string) list \<Rightarrow> pyval list \<Rightarrow> pyval list"
  and rebind_items :: "(string \<times> string) list \<Rightarrow> (string \<times> pyval) list \<Rightarrow> (string \<times> pyval) list"
  and rebind_fields :: "(string \<times> string) list \<Rightarrow> pyval list \<Rightarrow> (string \<times> pyval) list \<Rightarrow> (string \<times> pyval) list" where
  "rebind rs (PStr s) = PStr (rebind_str rs s)"
| "rebind rs (PList xs) = PList (rebind_list rs xs)"
| "rebind rs (PDict d) = PDict (foldl (\<lambda>d (k, v). dict_set k v d) [] (rebind_items rs d))"
| "rebind rs (PObj a) =
     (if dict_get a ''model_copy'' = None then PObj a
      else PObj (rebind_fields rs (case get_item a ''model_fields'' of PList fs \<Rightarrow> fs | _ \<Rightarrow> []) a))"
| "rebind rs PNone = PNone"
| "rebind rs (PBool b) = PBool b"
| "rebind rs (PInt i) = PInt i"
| "rebind_list rs [] = []"
| "rebind_list rs (x # xs) = rebind rs x # rebind_list rs xs"
| "rebind_items rs [] = []"
| "rebind_items rs ((k, v) # d) = (rebind_str rs k, rebind rs v) # rebind_items rs d"
| "rebind_fields rs fs [] = []"
| "rebind_fields rs fs ((k, v) # a) = (k, if PStr k \<in> set fs then rebind rs v else v) # rebind_fields rs fs a"

definition rebind_dict :: "(string \<times> string) list \<Rightarrow> (string, pyval) dict \<Rightarrow> (string, pyval) dict" where
  "rebind_dict rs d = foldl (\<lambda>d (k, v). dict_set k v d) [] (rebind_items rs d)"

text \<open>A message is such an object; its class stays.\<close>

definition rebind_message :: "(string \<times> string) list \<Rightarrow> message \<Rightarrow> message" where
  "rebind_message rs m = m\<lparr>mg_id := map_option (rebind_str rs) (mg_id m), mg_content := rebind rs (mg_content m),
     mg_tool_calls := map (rebind rs) (mg_tool_calls m), mg_tool_call_id := rebind rs (mg_tool_call_id m),
     mg_name := map_option (rebind_str rs) (mg_name m), mg_status := rebind_str rs (mg_status m),
     mg_kwargs := rebind_dict rs (mg_kwargs m), mg_artifact := rebind rs (mg_artifact m)\<rparr>"

section \<open>Seeding the new thread\<close>

text \<open>
  The updates \<open>_seed_fork_history\<close> writes: the state without messages, messages as input (\<open>as_node=START\<close>),
  and the end of a turn (\<open>as_node=END\<close>).
\<close>

datatype seed_update = Seed_state | Seed_messages "message list" | Turn_end

fun seed_loop :: "message list \<Rightarrow> nat \<Rightarrow> nat list \<Rightarrow> seed_update list" where
  "seed_loop ms start [] = (if start < length ms then [Seed_messages (drop start ms)] else []) @ [Turn_end]"
| "seed_loop ms start (i # is) =
     (if mg_kind (ms ! i) \<noteq> Human then seed_loop ms start is
      else (if start < i then [Seed_messages (drop start (take i ms)), Turn_end] else [])
           @ Seed_messages [ms ! i] # seed_loop ms (i + 1) is)"

definition seed_fork_history :: "message list \<Rightarrow> seed_update list" where
  "seed_fork_history ms = Seed_state # seed_loop ms 0 [0..<length ms]"

fun seeded :: "seed_update \<Rightarrow> message list" where
  "seeded (Seed_messages ms) = ms"
| "seeded _ = []"

definition seeded_history :: "seed_update list \<Rightarrow> message list" where
  "seeded_history us = concat (map seeded us)"

text \<open>A prompt is written alone, and what is written before it is exactly the history before it.\<close>

definition seeds_prompt :: "message list \<Rightarrow> nat \<Rightarrow> seed_update list \<Rightarrow> nat \<Rightarrow> bool" where
  "seeds_prompt ms start updates i \<longleftrightarrow>
     (\<exists>us vs. updates = us @ Seed_messages [ms ! i] # vs \<and> seeded_history us = drop start (take i ms))"

lemma drop_take_split:
  assumes "start \<le> k" "k < i" "i \<le> length ms"
  shows "drop start (take i ms) = drop start (take k ms) @ ms ! k # drop (Suc k) (take i ms)"
proof -
  have "take i ms = take k ms @ ms ! k # drop (Suc k) (take i ms)"
    using id_take_nth_drop [of k "take i ms"] assms by (simp add: min_def)
  then have "drop start (take i ms) = drop start (take k ms @ ms ! k # drop (Suc k) (take i ms))"
    by (rule arg_cong)
  then show ?thesis using assms by simp
qed

lemma seed_loop_history:
  "start \<le> k \<Longrightarrow> k \<le> length ms
   \<Longrightarrow> seeded_history (seed_loop ms start [k..<length ms]) = drop start ms
     \<and> (\<forall>i. k \<le> i \<and> i < length ms \<and> mg_kind (ms ! i) = Human \<longrightarrow> seeds_prompt ms start (seed_loop ms start [k..<length ms]) i)"
proof (induction "length ms - k" arbitrary: k start)
  case 0
  then have "k = length ms" by simp
  then show ?case by (auto simp: seeded_history_def)
next
  case (Suc d)
  have k: "k < length ms" and d: "d = length ms - Suc k" using Suc(2) by simp_all
  have upt: "[k..<length ms] = k # [Suc k..<length ms]" using k by (simp add: upt_conv_Cons)
  show ?case
  proof (cases "mg_kind (ms ! k) = Human")
    case False
    have "seed_loop ms start [k..<length ms] = seed_loop ms start [Suc k..<length ms]"
      using False by (simp add: upt)
    moreover have "Suc k \<le> i" if "k \<le> i" "mg_kind (ms ! i) = Human" for i
      using that False by (cases "i = k") auto
    ultimately show ?thesis using Suc(1) [OF d, of start] Suc(3) k by auto
  next
    case True
    define front where "front = (if start < k then [Seed_messages (drop start (take k ms)), Turn_end] else [])"
    let ?rest = "seed_loop ms (Suc k) [Suc k..<length ms]"
    have loop: "seed_loop ms start [k..<length ms] = front @ Seed_messages [ms ! k] # ?rest"
      using True by (simp add: upt front_def)
    have front: "seeded_history front = drop start (take k ms)"
      using Suc(3) by (auto simp: front_def seeded_history_def)
    have IH: "seeded_history ?rest = drop (Suc k) ms"
      "\<And>i. Suc k \<le> i \<Longrightarrow> i < length ms \<Longrightarrow> mg_kind (ms ! i) = Human \<Longrightarrow> seeds_prompt ms (Suc k) ?rest i"
      using Suc(1) [OF d, of "Suc k"] k by auto
    have "seeded_history (seed_loop ms start [k..<length ms]) = drop start ms"
      using IH(1) front drop_take_split [OF Suc(3) k order_refl] by (simp add: loop seeded_history_def)
    moreover have "seeds_prompt ms start (seed_loop ms start [k..<length ms]) i"
      if i: "k \<le> i" "i < length ms" "mg_kind (ms ! i) = Human" for i
    proof (cases "i = k")
      case True
      then show ?thesis unfolding seeds_prompt_def using loop front by blast
    next
      case False
      then obtain us vs where "?rest = us @ Seed_messages [ms ! i] # vs"
        "seeded_history us = drop (Suc k) (take i ms)"
        using IH(2) [of i] i by (auto simp: seeds_prompt_def)
      then have "seed_loop ms start [k..<length ms] = (front @ Seed_messages [ms ! k] # us) @ Seed_messages [ms ! i] # vs
          \<and> seeded_history (front @ Seed_messages [ms ! k] # us) = drop start (take i ms)"
        using drop_take_split [OF Suc(3), of i ms] False i front by (simp add: loop seeded_history_def)
      then show ?thesis unfolding seeds_prompt_def by blast
    qed
    ultimately show ?thesis by blast
  qed
qed

text \<open>
  Seeding writes the whole history and nothing else, in order, and ends the last turn; each prompt of
  the user is written by itself, after exactly the messages that precede it, so that its parent
  checkpoint holds the history before it.
\<close>

theorem seed_keeps_prompt_parents:
  "seeded_history (seed_fork_history ms) = ms \<and> last (seed_fork_history ms) = Turn_end
   \<and> {i. i < length ms \<and> mg_kind (ms ! i) = Human} \<subseteq> {i. seeds_prompt ms 0 (seed_fork_history ms) i}"
proof -
  have history: "seeded_history (Seed_state # us) = seeded_history us" for us by (simp add: seeded_history_def)
  have last: "seed_loop ms start is \<noteq> [] \<and> last (seed_loop ms start is) = Turn_end" for start "is"
    by (induction ms start "is" rule: seed_loop.induct) auto
  have "seeds_prompt ms 0 (seed_fork_history ms) i" if i: "i < length ms" "mg_kind (ms ! i) = Human" for i
  proof -
    obtain us vs where "seed_loop ms 0 [0..<length ms] = us @ Seed_messages [ms ! i] # vs" "seeded_history us = take i ms"
      using seed_loop_history [of 0 0 ms] i unfolding seeds_prompt_def drop_0 by blast
    then have "seed_fork_history ms = (Seed_state # us) @ Seed_messages [ms ! i] # vs \<and> seeded_history (Seed_state # us) = drop 0 (take i ms)"
      by (simp add: seed_fork_history_def history)
    then show ?thesis unfolding seeds_prompt_def by blast
  qed
  then show ?thesis
    using seed_loop_history [of 0 0 ms] last [of 0 "[0..<length ms]"] by (auto simp: seed_fork_history_def history)
qed

section \<open>The checks of a fork\<close>

datatype fork_error = Not_found string | Not_forkable string | Fork_conflict string

text \<open>
  What the fork reads: the kind and agent of the source thread, the status of its background task, whether
  the agent exists, whether the checkpoint exists, the messages and the scheduled nodes of its
  snapshot, and the later states (the parent's identity, their scheduled nodes, their messages).
\<close>

record fork_reads =
  fr_source_kind :: "string option"
  fr_task_status :: "string option"
  fr_has_agent :: bool
  fr_has_checkpoint :: bool
  fr_messages :: "message list"
  fr_scheduled :: "string list"
  fr_children :: "(string \<times> string list \<times> message list) list"

definition fork_selection :: "fork_reads \<Rightarrow> string \<Rightarrow> int \<Rightarrow> fork_error + message list" where
  "fork_selection r checkpoint_id index =
     (case fr_source_kind r of
        None \<Rightarrow> Inl (Not_found ''Conversation not found.'')
      | Some kind \<Rightarrow>
          if kind \<notin> {''user'', ''background''} then Inl (Not_forkable ''This conversation type cannot be forked.'')
          else if fr_task_status r \<in> {Some ''pending'', Some ''running''}
          then Inl (Fork_conflict ''The conversation is still running.'')
          else if \<not> fr_has_agent r then Inl (Not_forkable ''The conversation agent is no longer available.'')
          else if \<not> fr_has_checkpoint r then Inl (Not_found ''Checkpoint not found.'')
          else if index < 0 \<or> nat index \<notin> forkable_message_indices (fr_messages r)
          then Inl (Not_forkable ''Choose a completed assistant answer to fork.'')
          else if fr_scheduled r \<noteq> [] \<and> index = int (length (fr_messages r)) - 1
             \<and> \<not> list_ex (\<lambda>(parent, scheduled, messages). parent = checkpoint_id \<and> scheduled = [] \<and> messages = fr_messages r)
                   (fr_children r)
          then Inl (Not_forkable ''The selected assistant response has not completed its turn.'')
          else (let messages = take (nat index + 1) (fr_messages r) in
                if \<not> is_valid_message_sequence messages
                then Inl (Not_forkable ''The selected history contains an incomplete tool call.'')
                else Inr messages))"

text \<open>\<open>fork_conversation_thread\<close>: the updates of the new thread, and the registry afterwards.\<close>

definition fork_conversation_thread ::
  "(string \<times> string) list \<Rightarrow> fork_reads \<Rightarrow> registry \<Rightarrow> string \<Rightarrow> string \<Rightarrow> int
   \<Rightarrow> (fork_error + seed_update list) \<times> registry" where
  "fork_conversation_thread replacements reads registry thread_id checkpoint_id index =
     (case reserve_thread_mutation registry thread_id True of
        Inl e \<Rightarrow> (Inl (Fork_conflict ''The conversation is busy. Please try again after it finishes.''), registry)
      | Inr held \<Rightarrow>
          (map_sum id (\<lambda>messages. seed_fork_history (map (rebind_message replacements) messages))
             (fork_selection reads checkpoint_id index),
           end_thread_mutation held thread_id))"

lemma fork_selection_ok:
  assumes "fork_selection r checkpoint_id index = Inr messages"
  shows "0 \<le> index \<and> messages = take (nat index + 1) (fr_messages r) \<and> is_valid_message_sequence messages
     \<and> completed_answer (last messages) \<and> fr_task_status r \<notin> {Some ''pending'', Some ''running''}"
proof -
  from assms have sel: "0 \<le> index" "nat index \<in> forkable_message_indices (fr_messages r)"
    "messages = take (nat index + 1) (fr_messages r)" "is_valid_message_sequence messages"
    "fr_task_status r \<notin> {Some ''pending'', Some ''running''}"
    by (auto simp: fork_selection_def Let_def split: option.splits if_splits)
  have "nat index < length (fr_messages r) \<and> completed_answer (fr_messages r ! nat index)"
    using sel(2) forkable_loop_set [of 0 "fr_messages r" None "[]"] by (simp add: forkable_message_indices_def)
  then show ?thesis using sel by (simp add: take_Suc_conv_app_nth)
qed

text \<open>
  C25: a thread is forked only while no session runs on it and nobody else changes it, and not while its
  background task is pending or running; what is seeded is the history up to the chosen message, which
  is a valid sequence that ends with a completed answer (storage references rebound); and the
  reservation is given back, whatever the outcome.
\<close>

theorem fork_seeds_completed_turns:
  assumes "fork_conversation_thread replacements reads registry thread_id checkpoint_id index = (outcome, registry')"
  shows "registry' = registry
    \<and> (\<forall>updates. outcome = Inr updates \<longrightarrow>
        thread_id \<notin> rg_mutations registry \<and> (\<forall>(i, s) \<in> set (rg_sessions registry). as_thread_id s \<noteq> thread_id)
        \<and> fr_task_status reads \<notin> {Some ''pending'', Some ''running''}
        \<and> (let messages = take (nat index + 1) (fr_messages reads)
           in updates = seed_fork_history (map (rebind_message replacements) messages)
              \<and> is_valid_message_sequence messages \<and> completed_answer (last messages)))"
proof (cases "reserve_thread_mutation registry thread_id True")
  case (Inl e)
  then show ?thesis using assms by (auto simp: fork_conversation_thread_def)
next
  case (Inr held)
  then have free: "thread_id \<notin> rg_mutations registry" "\<forall>(i, s) \<in> set (rg_sessions registry). as_thread_id s \<noteq> thread_id"
    and "held = registry\<lparr>rg_mutations := insert thread_id (rg_mutations registry)\<rparr>"
    by (auto simp: reserve_thread_mutation_def list_ex_iff split: if_splits)
  then have "registry' = registry"
    using assms Inr by (simp add: fork_conversation_thread_def end_thread_mutation_def)
  moreover have "outcome = map_sum id (\<lambda>messages. seed_fork_history (map (rebind_message replacements) messages))
      (fork_selection reads checkpoint_id index)"
    using assms Inr by (simp add: fork_conversation_thread_def)
  ultimately show ?thesis
    using free fork_selection_ok [of reads checkpoint_id index]
    by (cases "fork_selection reads checkpoint_id index") (auto simp: Let_def)
qed

definition demo_turn :: "message list" where
  "demo_turn = map (\<lambda>(kind, i, text). \<lparr>mg_kind = kind, mg_id = Some i, mg_content = PStr text, mg_tool_calls = [],
     mg_tool_call_id = PNone, mg_name = None, mg_status = [], mg_kwargs = [], mg_artifact = PNone\<rparr>)
     [(Human, ''1'', ''see thread_id=old''), (AI, ''2'', ''done''), (Human, ''3'', ''more'')]"

definition demo_fork_reads :: fork_reads where
  "demo_fork_reads = \<lparr>fr_source_kind = Some ''user'', fr_task_status = None, fr_has_agent = True, fr_has_checkpoint = True,
     fr_messages = demo_turn, fr_scheduled = [], fr_children = []\<rparr>"

theorem fork_seeds_completed_turns_witness:
  "is_valid_message_sequence (take 2 demo_turn)
   \<and> fst (fork_conversation_thread [(''thread_id=old'', ''thread_id=new'')] demo_fork_reads new_registry ''old'' ''c'' 1)
     = Inr [Seed_state, Seed_messages [(demo_turn ! 0)\<lparr>mg_content := PStr ''see thread_id=new''\<rparr>],
            Seed_messages [demo_turn ! 1], Turn_end]"
proof -
  let ?run = "fork_conversation_thread [(''thread_id=old'', ''thread_id=new'')] demo_fork_reads new_registry ''old'' ''c'' 1"
  have "fst ?run = Inr [Seed_state, Seed_messages [(demo_turn ! 0)\<lparr>mg_content := PStr ''see thread_id=new''\<rparr>],
      Seed_messages [demo_turn ! 1], Turn_end]"
    by code_simp
  note run = this
  have split: "?run = (fst ?run, snd ?run)" by simp
  have "is_valid_message_sequence (take (nat 1 + 1) (fr_messages demo_fork_reads))"
    using fork_seeds_completed_turns [OF split] run by (simp only: Let_def)
  moreover have "take (nat 1 + 1) (fr_messages demo_fork_reads) = take 2 demo_turn"
    by (simp add: demo_fork_reads_def eval_nat_numeral)
  ultimately show ?thesis using run by simp
qed

end
