(* ===== verification/Runtime_Switch.thy ===== *)
theory Runtime_Switch
  imports Active_Sessions "HOL-Library.List_Lexorder" "HOL-Library.Char_ord"
begin

text \<open>
  Model of \<open>agent/modules/projects/runtime_switch.py\<close> and \<open>agent/modules/workspaces/transitions.py\<close>: moving
  a project workspace from one execution provider to another. The admission gate shared by runs and
  switches, the journal of a switch, its run as a list of actions that may each fail, what the handler does
  with a failure, the clean-up of sandboxes, and recovery after a restart.

  Outside the model: the providers, the transfer of files and the database; what they answer is in the
  records \<open>run_env\<close> and \<open>cleanup_env\<close>. Moves of a single conversation (a state with \<open>thread_id\<close>) are left out.
  The key of a source is the triple the code hashes. The reads, writes and clean-ups of the handler may fail as well.
\<close>

section \<open>The journal\<close>

datatype switch_phase =
    Saving | Provisioning | Restoring | Verifying | Activating | Allocation_unknown | Completed | Failed

definition ACTIVE_PHASES :: "switch_phase list" where
  "ACTIVE_PHASES = [Saving, Provisioning, Restoring, Verifying, Activating, Allocation_unknown]"

record workspace_ref =
  wr_backend :: string
  wr_locator :: string
  wr_label :: string
  wr_metadata :: "(string, pyval) dict"

definition source_key :: "workspace_ref \<Rightarrow> string \<times> string \<times> pyval" where
  "source_key r = (wr_backend r, wr_locator r, get_default (wr_metadata r) ''root'' (PStr []))"

datatype cleanup_action = Retire | Delete

record cleanup_item =
  ci_ref :: workspace_ref
  ci_action :: cleanup_action
  ci_operation_id :: string

record switch_state =
  tn_operation_id :: string
  tn_phase :: switch_phase
  tn_target_backend :: string
  tn_recovery :: bool
  tn_preview_token :: "string option"
  tn_source :: workspace_ref
  tn_source_generation :: nat
  tn_target :: "workspace_ref option"
  tn_revision :: "string option"
  tn_error :: string
  tn_cleanup_error :: string
  tn_cleanup :: "cleanup_item list"
  tn_previous_pin :: "string option"
  tn_local_revision :: "string option"

record runtime_row =
  rr_execution :: workspace_ref
  rr_generation :: nat
  rr_status :: string
  rr_transition :: "switch_state option"

definition local_backend :: string where "local_backend = ''local''"

section \<open>The gate\<close>

record workspace_error =
  we_message :: string
  we_code :: string

definition switching_error :: workspace_error where
  "switching_error = \<lparr>we_message = ''The workspace is changing its execution environment or synchronizing files. ''
     @ ''Please retry after it finishes.'', we_code = ''workspace_switching''\<rparr>"

definition unknown_allocation_error :: workspace_error where
  "unknown_allocation_error = \<lparr>we_message = ''The previous switch has an unknown provider allocation. Reconcile the ''
     @ ''provider inventory, then abandon the switch before retrying.'', we_code = ''workspace_switching''\<rparr>"

text \<open>\<open>reservations\<close>: the threads whose mutation a switch holds.\<close>

record switcher =
  sw_switching :: "int set"
  sw_recovering :: "int set"
  sw_runs :: "(int, nat) dict"
  sw_tasks :: "int set"
  sw_reservations :: "(int, string list) dict"

definition new_switcher :: switcher where
  "new_switcher = \<lparr>sw_switching = {}, sw_recovering = {}, sw_runs = [], sw_tasks = {}, sw_reservations = []\<rparr>"

definition assert_available :: "switcher \<Rightarrow> int \<Rightarrow> runtime_row option \<Rightarrow> workspace_error option" where
  "assert_available sw w runtime =
     (if w \<in> sw_switching sw then Some switching_error
      else (case runtime of
              None \<Rightarrow> None
            | Some row \<Rightarrow>
                (case rr_transition row of
                   None \<Rightarrow> None
                 | Some st \<Rightarrow>
                     if tn_phase st \<in> set ACTIVE_PHASES
                     then Some (if tn_phase st = Allocation_unknown then unknown_allocation_error else switching_error)
                     else None)))"

text \<open>\<open>run_lease\<close>: its entry and its exit.\<close>

definition enter_lease :: "switcher \<Rightarrow> int \<Rightarrow> workspace_error + switcher" where
  "enter_lease sw w =
     (case assert_available sw w None of
        Some e \<Rightarrow> Inl e
      | None \<Rightarrow> Inr (sw\<lparr>sw_runs := dict_set w ((case dict_get (sw_runs sw) w of Some n \<Rightarrow> n | None \<Rightarrow> 0) + 1) (sw_runs sw)\<rparr>))"

definition exit_lease :: "switcher \<Rightarrow> int \<Rightarrow> switcher" where
  "exit_lease sw w =
     (case dict_get (sw_runs sw) w of
        None \<Rightarrow> sw
      | Some n \<Rightarrow> if n - 1 \<noteq> 0 then sw\<lparr>sw_runs := dict_set w (n - 1) (sw_runs sw)\<rparr>
                  else sw\<lparr>sw_runs := dict_pop w (sw_runs sw)\<rparr>)"

text \<open>\<open>_release\<close> closes the reservations in reverse order.\<close>

definition close_reservations :: "string list \<Rightarrow> registry \<Rightarrow> registry" where
  "close_reservations threads r = foldr (\<lambda>t r. end_thread_mutation r t) threads r"

definition release_gate :: "int \<Rightarrow> switcher \<Rightarrow> switcher" where
  "release_gate w sw = sw\<lparr>sw_switching := sw_switching sw - {w}, sw_reservations := dict_pop w (sw_reservations sw)\<rparr>"

definition release_workspace :: "switcher \<Rightarrow> registry \<Rightarrow> int \<Rightarrow> switcher \<times> registry" where
  "release_workspace sw r w =
     (let threads = (case dict_get (sw_reservations sw) w of Some ts \<Rightarrow> ts | None \<Rightarrow> [])
      in (release_gate w sw, close_reservations threads r))"

text \<open>\<open>replace\<close> takes the workspace for a recovery, and gives it back; its caller owns the writer lock.\<close>

definition begin_recovery :: "int \<Rightarrow> switcher \<Rightarrow> switcher" where
  "begin_recovery w sw = sw\<lparr>sw_recovering := insert w (sw_recovering sw), sw_switching := insert w (sw_switching sw)\<rparr>"

definition end_recovery :: "int \<Rightarrow> switcher \<Rightarrow> switcher" where
  "end_recovery w sw = release_gate w (sw\<lparr>sw_recovering := sw_recovering sw - {w}\<rparr>)"

definition stale_error :: workspace_error where
  "stale_error = \<lparr>we_message = ''Execution runtime changed; reload the workspace.'', we_code = ''stale_runtime''\<rparr>"

definition busy_error :: "string \<Rightarrow> workspace_error" where
  "busy_error message = \<lparr>we_message = message, we_code = ''workspace_busy''\<rparr>"

definition reserve :: "switcher \<Rightarrow> int \<Rightarrow> runtime_row \<Rightarrow> nat \<Rightarrow> bool \<Rightarrow> workspace_error + switcher" where
  "reserve sw w runtime expected locked =
     (case assert_available sw w (Some runtime) of
        Some e \<Rightarrow> Inl e
      | None \<Rightarrow>
          if rr_generation runtime \<noteq> expected then Inl stale_error
          else if (case dict_get (sw_runs sw) w of Some n \<Rightarrow> n \<noteq> 0 | None \<Rightarrow> False) \<or> locked \<or> w \<in> sw_tasks sw
          then Inl (busy_error ''Finish or stop workspace operations before changing its environment or files.'')
          else Inr (sw\<lparr>sw_switching := insert w (sw_switching sw)\<rparr>))"

section \<open>Reserving an idle workspace\<close>

text \<open>
  \<open>_threads\<close>: the threads bound to the workspace, those of its background tasks (given with their status),
  and the delegated conversations of either.
\<close>

definition sub_thread :: "string \<Rightarrow> string \<Rightarrow> bool" where
  "sub_thread thread child = starts_with (thread @ '':sub:'') child"

definition workspace_threads ::
  "string list \<Rightarrow> (string \<times> string) list \<Rightarrow> string list \<Rightarrow> workspace_error + string list" where
  "workspace_threads bound tasks conversations =
     (let threads = bound @ map fst tasks;
          children = filter (\<lambda>c. list_ex (\<lambda>t. sub_thread t c) threads) conversations
      in if list_ex (\<lambda>(t, status). status \<in> {''pending'', ''running'', ''retrying''}) tasks
         then Inl (busy_error ''Finish or stop background tasks before switching backends.'')
         else Inr (remdups (threads @ children)))"

text \<open>The scheduled nodes and interrupts of a thread's snapshot; \<open>None\<close> if it cannot be read.\<close>

fun assert_no_interrupts :: "(string \<Rightarrow> (bool \<times> bool) option) \<Rightarrow> string list \<Rightarrow> workspace_error option" where
  "assert_no_interrupts snapshot [] = None"
| "assert_no_interrupts snapshot (t # ts) =
     (case snapshot t of
        None \<Rightarrow> Some (busy_error ''Cannot verify pending workspace approvals. Retry after conversation history is available.'')
      | Some (scheduled, interrupts) \<Rightarrow>
          if scheduled \<or> interrupts
          then Some (busy_error ''Resolve pending conversation requests before switching backends.'')
          else assert_no_interrupts snapshot ts)"

text \<open>Running processes, coding jobs, and the sandbox's processes (\<open>None\<close> if the query fails).\<close>

definition assert_no_processes :: "workspace_ref \<Rightarrow> bool \<Rightarrow> bool \<Rightarrow> bool option \<Rightarrow> workspace_error option" where
  "assert_no_processes ref running jobs remote =
     (if running \<or> jobs then Some (busy_error ''Stop running workspace processes before switching backends.'')
      else if wr_backend ref \<noteq> local_backend
      then (case remote of
              None \<Rightarrow> Some (busy_error ''Cannot verify sandbox process state. The current runtime has been retained.'')
            | Some busy \<Rightarrow> if busy then Some (busy_error ''Stop running sandbox processes before switching backends.'') else None)
      else None)"

fun reserve_threads :: "string list \<Rightarrow> string list \<Rightarrow> registry \<Rightarrow> session_error option \<times> string list \<times> registry" where
  "reserve_threads held [] r = (None, held, r)"
| "reserve_threads held (t # ts) r =
     (case reserve_thread_mutation r t True of
        Inl e \<Rightarrow> (Some e, held, r)
      | Inr r' \<Rightarrow> reserve_threads (held @ [t]) ts r')"

record idle_env =
  ie_threads :: "workspace_error + string list"
  ie_snapshot :: "string \<Rightarrow> (bool \<times> bool) option"
  ie_running :: bool
  ie_jobs :: bool
  ie_remote :: "bool option"

definition thread_conflict_text :: "session_error \<Rightarrow> string" where
  "thread_conflict_text e = (case e of MutationInProgress \<Rightarrow> ''Conversation checkpoint is being updated. Please try again.''
     | AgentRunning \<Rightarrow> ''Cannot compact while agent is running.'')"

definition reserve_idle ::
  "idle_env \<Rightarrow> switcher \<Rightarrow> registry \<Rightarrow> int \<Rightarrow> runtime_row \<Rightarrow> nat \<Rightarrow> bool \<Rightarrow> bool
   \<Rightarrow> workspace_error option \<times> switcher \<times> registry" where
  "reserve_idle E sw r w runtime expected locked allow_unavailable =
     (case reserve sw w runtime expected locked of
        Inl e \<Rightarrow> (Some e, sw, r)
      | Inr sw \<Rightarrow>
          (case ie_threads E of
             Inl e \<Rightarrow> (Some e, release_workspace sw r w)
           | Inr threads \<Rightarrow>
               if list_ex (\<lambda>s. as_thread_id s \<in> set threads \<or> list_ex (\<lambda>t. sub_thread t (as_thread_id s)) threads) (list_active r)
               then (Some (busy_error ''Finish or stop conversations using this workspace first.''), release_workspace sw r w)
               else (let (conflict, held, r') = reserve_threads [] (sort threads) r;
                         sw = sw\<lparr>sw_reservations := dict_set w held (sw_reservations sw)\<rparr>;
                         failure = (case conflict of
                             Some e \<Rightarrow> Some (busy_error (thread_conflict_text e))
                           | None \<Rightarrow>
                               (case assert_no_interrupts (ie_snapshot E) threads of
                                  Some e \<Rightarrow> Some e
                                | None \<Rightarrow> if allow_unavailable then None
                                          else assert_no_processes (rr_execution runtime) (ie_running E) (ie_jobs E) (ie_remote E)))
                     in case failure of
                          Some e \<Rightarrow> (Some e, release_workspace sw r' w)
                        | None \<Rightarrow> (None, sw, r'))))"

section \<open>The run of a switch\<close>

text \<open>
  Exceptions as the handler tells them apart: a cancellation, a \<open>TimeoutError\<close> or \<open>ConnectionError\<close>, any
  other. \<open>provider_error\<close> has what \<open>allocation_uncertain\<close> asks of an exception of the provider's client.
\<close>

datatype run_exc = Interrupted | Unreachable string | Run_error string

record provider_error =
  pv_timeout :: bool
  pv_connection :: bool
  pv_code :: pyval
  pv_status_code :: pyval
  pv_transport :: bool
  pv_response_status :: "int option"
  pv_daytona_connection :: bool
  pv_modal_service :: bool
  pv_message :: string

definition allocation_uncertain :: "provider_error \<Rightarrow> bool" where
  "allocation_uncertain e =
     (pv_timeout e \<or> pv_connection e \<or> pv_code e = PStr ''unknown_outcome''
      \<or> (case pv_status_code e of PInt i \<Rightarrow> 500 \<le> i | _ \<Rightarrow> False)
      \<or> pv_transport e \<or> (case pv_response_status e of Some i \<Rightarrow> 500 \<le> i | None \<Rightarrow> False)
      \<or> pv_daytona_connection e \<or> pv_modal_service e)"

text \<open>\<open>operation_id(label)\<close>: the operation a sandbox is labelled with.\<close>

definition switch_label :: "string \<Rightarrow> string" where
  "switch_label operation = ''k41-switch-'' @ operation"

definition operation_id :: "string \<Rightarrow> string option" where
  "operation_id label =
     (let value = (if starts_with ''k41-switch-'' label then drop 11 label else label)
      in if starts_with ''k41-switch-'' label \<and> length value = 32
            \<and> list_all (\<lambda>c. is_digit c \<or> c \<in> set ''abcdef'') value
         then Some value else None)"

text \<open>\<open>find_allocation\<close>: the only record of the inventory with the operation's mark.\<close>

definition find_allocation :: "string \<Rightarrow> bool \<Rightarrow> (string \<times> string \<times> string) list \<Rightarrow> string \<Rightarrow> workspace_ref option" where
  "find_allocation backend has_inventory records operation =
     (if operation = [] \<or> \<not> has_inventory then None
      else (case filter (\<lambda>(marked, sandbox, folder). marked = operation) records of
              [(marked, sandbox, folder)] \<Rightarrow>
                Some \<lparr>wr_backend = backend, wr_locator = sandbox, wr_label = [],
                      wr_metadata = [(''root'', PStr (if folder = [] then ''/workspace'' else folder))]\<rparr>
            | _ \<Rightarrow> None))"

text \<open>
  How \<open>create_workspace_backend\<close> ends: it fails before its callback, it calls the callback and then returns
  or fails, or it returns without calling it. A failure of the provider is a cancellation or an error.
\<close>

datatype allocation =
    Not_allocated "provider_error option"
  | Allocated workspace_ref "provider_error option option"
  | Allocated_silently workspace_ref

definition allocation_exc :: "provider_error option \<Rightarrow> run_exc" where
  "allocation_exc raised =
     (case raised of
        None \<Rightarrow> Interrupted
      | Some e \<Rightarrow> if allocation_uncertain e
                  then Unreachable ''Allocation outcome is unknown; the source runtime has been retained.''
                  else Run_error (pv_message e))"

datatype run_action =
    Check_generation
  | Save_files
  | Read_manifest
  | Require_mirror
  | Pin_revision
  | Enter switch_phase
  | Allocate
  | Restore_files
  | Choose_local
  | Apply_local
  | Verify_files
  | Merge_target
  | Publish
  | Unpin

text \<open>
  What the awaits answer: \<open>re_fail n\<close> is the exception of the awaited call of the \<open>n\<close>-th action (for
  \<open>Enter\<close>, of the journal write), \<open>re_ack_lost\<close> the one raised after the publication was committed.
\<close>

record run_env =
  re_fail :: "nat \<Rightarrow> run_exc option"
  re_manual :: bool
  re_saved :: "string option \<times> bool"
  re_allocation :: allocation
  re_remember :: "run_exc option"
  re_destination :: workspace_ref
  re_applied :: string
  re_mirrored :: bool
  re_ack_lost :: "run_exc option"

text \<open>
  The state of the journal in memory and in the database, the pinned revision, and the local variables
  \<open>saved\<close>, \<open>runtime.generation\<close> and \<open>activated\<close>; whether the provider was
  asked for a sandbox, the journal entries written and the actions done so far.
\<close>

record run_world =
  rw_state :: switch_state
  rw_row :: runtime_row
  rw_pin :: "string option"
  rw_saved :: "string option \<times> bool"
  rw_generation :: nat
  rw_activated :: bool
  rw_asked :: bool
  rw_journal :: "switch_phase list"
  rw_done :: "run_action list"

definition write_journal :: "run_world \<Rightarrow> run_world" where
  "write_journal w = w\<lparr>rw_row := (rw_row w)\<lparr>rr_transition := Some (rw_state w)\<rparr>,
     rw_journal := rw_journal w @ [tn_phase (rw_state w)]\<rparr>"

definition set_target :: "workspace_ref \<Rightarrow> run_world \<Rightarrow> run_world" where
  "set_target ref w = w\<lparr>rw_state := (rw_state w)\<lparr>tn_target := Some ref\<rparr>\<rparr>"

definition set_phase :: "switch_phase \<Rightarrow> run_world \<Rightarrow> run_world" where
  "set_phase p w = w\<lparr>rw_state := (rw_state w)\<lparr>tn_phase := p\<rparr>\<rparr>"

text \<open>\<open>remember_target\<close>.\<close>

definition remember :: "run_env \<Rightarrow> workspace_ref \<Rightarrow> run_world \<Rightarrow> run_exc option \<times> run_world" where
  "remember E ref w =
     (let w = set_target ref w in case re_remember E of Some e \<Rightarrow> (Some e, w) | None \<Rightarrow> (None, write_journal w))"

definition allocate :: "run_env \<Rightarrow> run_world \<Rightarrow> run_exc option \<times> run_world" where
  "allocate E w0 =
     (let w = w0\<lparr>rw_asked := True\<rparr> in
      case re_allocation E of
        Not_allocated raised \<Rightarrow> (Some (allocation_exc raised), w)
      | Allocated ref raised \<Rightarrow>
          (case remember E ref w of
             (Some e, w) \<Rightarrow> (Some e, w)
           | (None, w) \<Rightarrow> (map_option allocation_exc raised, w))
      | Allocated_silently ref \<Rightarrow> remember E ref w)"

text \<open>\<open>merge_ready_workspace_metadata\<close> of \<open>workspaces/service.py\<close>, with the settings that follow it.\<close>

definition carried_key :: "string \<Rightarrow> bool" where
  "carried_key k = (k \<notin> {''last_archived_at'', ''last_started_at'', ''last_stopped_at'', ''last_used_at'', ''root'', ''status''})"

definition merge_metadata :: "workspace_ref \<Rightarrow> workspace_ref \<Rightarrow> workspace_ref" where
  "merge_metadata source replacement =
     replacement\<lparr>wr_metadata :=
       foldl (\<lambda>d (k, v). if v \<in> {PNone, PStr [], PList []} \<or> \<not> carried_key k then d else dict_set k v d)
         (dict_set ''skill_workspace_id'' (get_default (wr_metadata source) ''skill_workspace_id'' (PStr (wr_locator source)))
            (wr_metadata replacement))
         (wr_metadata source)\<rparr>"

definition final_target :: "string \<Rightarrow> workspace_ref \<Rightarrow> workspace_ref \<Rightarrow> workspace_ref" where
  "final_target label source target =
     (let t = merge_metadata source target;
          d = wr_metadata t;
          d = (if get_item d ''source'' = PStr ''github''
               then dict_set ''repository_path'' (PStr (if wr_backend t = local_backend then wr_locator t else ''.'')) d else d);
          d = dict_set ''environment_state'' (PStr ''unknown'') (dict_set ''files_restored'' (PBool True) d)
      in t\<lparr>wr_label := label, wr_metadata := d\<rparr>)"

text \<open>
  \<open>_publish_runtime\<close>: refused for an obsolete generation; commits the execution, its generation, its status
  and the journal in one transaction.
\<close>

definition publish_runtime :: "workspace_ref \<Rightarrow> nat \<Rightarrow> switch_state \<Rightarrow> runtime_row \<Rightarrow> run_exc + runtime_row" where
  "publish_runtime ref generation st row =
     (if generation < rr_generation row
         \<or> source_key (rr_execution row) \<noteq> source_key ref \<and> generation \<noteq> rr_generation row + 1
      then Inl (Run_error ''Runtime publication belongs to an obsolete generation.'')
      else Inr (row\<lparr>rr_execution := ref, rr_generation := generation, rr_status := ''ready'', rr_transition := Some st\<rparr>))"

definition unpin :: "run_world \<Rightarrow> run_world" where
  "unpin w = (if rw_pin w = tn_revision (rw_state w) then w\<lparr>rw_pin := tn_previous_pin (rw_state w)\<rparr> else w)"

definition run_error :: "string \<Rightarrow> run_exc option" where
  "run_error message = Some (Run_error message)"

definition is_local :: "run_world \<Rightarrow> bool" where
  "is_local w = (tn_target_backend (rw_state w) = local_backend)"

text \<open>The effect of an action whose awaited call succeeds, or the exception the code itself raises.\<close>

fun act :: "run_env \<Rightarrow> run_action \<Rightarrow> run_world \<Rightarrow> run_exc option \<times> run_world" where
  "act E Check_generation w =
     (if rr_generation (rw_row w) \<noteq> tn_source_generation (rw_state w)
      then (run_error ''Execution runtime changed before switching.'', w)
      else (None, w\<lparr>rw_generation := rr_generation (rw_row w)\<rparr>))"
| "act E Save_files w =
     (let saved = (if tn_recovery (rw_state w) then (tn_revision (rw_state w), False) else re_saved E)
      in if fst saved = None \<or> fst saved = Some [] then (run_error ''No saved files are available for recovery.'', w)
         else (None, w\<lparr>rw_saved := saved\<rparr>))"
| "act E Read_manifest w = (None, w)"
| "act E Require_mirror w =
     (if is_local w \<and> \<not> re_manual E \<and> \<not> tn_recovery (rw_state w) \<and> \<not> snd (rw_saved w)
      then (run_error ''Resolve host synchronization before switching backends.'', w)
      else (None, w\<lparr>rw_state := (rw_state w)\<lparr>tn_revision := fst (rw_saved w)\<rparr>\<rparr>))"
| "act E Pin_revision w = (None, w\<lparr>rw_pin := fst (rw_saved w)\<rparr>)"
| "act E (Enter p) w = (None, write_journal w)"
| "act E Allocate w = allocate E w"
| "act E Restore_files w = (None, w)"
| "act E Choose_local w = (None, set_target (re_destination E) w)"
| "act E Apply_local w =
     (if re_manual E
      then (None, w\<lparr>rw_saved := (Some (re_applied E), snd (rw_saved w)),
                    rw_state := (rw_state w)\<lparr>tn_local_revision := Some (re_applied E)\<rparr>\<rparr>)
      else if tn_recovery (rw_state w) \<and> \<not> re_mirrored E
      then (run_error ''Resolve host synchronization before continuing locally.'', w)
      else (None, w))"
| "act E Verify_files w = (None, w)"
| "act E Merge_target w =
     (case tn_target (rw_state w) of
        None \<Rightarrow> (None, w)
      | Some t \<Rightarrow> (None, set_target (final_target (wr_label (re_destination E)) (tn_source (rw_state w)) t) w))"
| "act E Publish w =
     (case tn_target (rw_state w) of
        None \<Rightarrow> (run_error [], w)
      | Some t \<Rightarrow>
          (case publish_runtime t (rw_generation w + 1) (rw_state w) (rw_row w) of
             Inl e \<Rightarrow> (Some e, w)
           | Inr row \<Rightarrow>
               (let w = w\<lparr>rw_row := row, rw_journal := rw_journal w @ [tn_phase (rw_state w)]\<rparr>
                in case re_ack_lost E of
                     Some e \<Rightarrow> (Some e, w)
                   | None \<Rightarrow> (None, w\<lparr>rw_activated := True\<rparr>))))"
| "act E Unpin w = (None, unpin w)"

text \<open>What an action changes in memory before its awaited call: \<open>Publish\<close> completes the journal entry.\<close>

definition retire_item :: "switch_state \<Rightarrow> cleanup_item" where
  "retire_item st = \<lparr>ci_ref = tn_source st, ci_action = Retire, ci_operation_id = tn_operation_id st\<rparr>"

definition complete_state :: "switch_state \<Rightarrow> switch_state" where
  "complete_state st =
     (let st = st\<lparr>tn_phase := Completed\<rparr>
      in if wr_backend (tn_source st) \<noteq> local_backend \<and> \<not> tn_recovery st
         then st\<lparr>tn_cleanup := tn_cleanup st @ [retire_item st]\<rparr> else st)"

fun prepare :: "run_action \<Rightarrow> run_world \<Rightarrow> run_world" where
  "prepare (Enter p) w = set_phase p w"
| "prepare Publish w = w\<lparr>rw_state := complete_state (rw_state w)\<rparr>"
| "prepare _ w = w"

definition perform :: "run_env \<Rightarrow> nat \<Rightarrow> run_action \<Rightarrow> run_world \<Rightarrow> run_exc option \<times> run_world" where
  "perform E n a w =
     (let w = prepare a w in
      case re_fail E n of
        Some e \<Rightarrow> (Some e, w)
      | None \<Rightarrow>
          (case act E a w of
             (Some e, w) \<Rightarrow> (Some e, w)
           | (None, w) \<Rightarrow> (None, w\<lparr>rw_done := rw_done w @ [a]\<rparr>)))"

fun run_actions :: "run_env \<Rightarrow> nat \<Rightarrow> run_action list \<Rightarrow> run_world \<Rightarrow> run_exc option \<times> run_world" where
  "run_actions E n [] w = (None, w)"
| "run_actions E n (a # as) w =
     (case perform E n a w of
        (Some e, w) \<Rightarrow> (Some e, w)
      | (None, w) \<Rightarrow> run_actions E (n + 1) as w)"

text \<open>The body of \<open>_run\<close>, with \<open>prepare_cloud\<close> for a cloud target.\<close>

definition save_actions :: "run_action list" where
  "save_actions = [Check_generation, Save_files, Read_manifest, Require_mirror, Pin_revision, Enter Provisioning]"

definition local_actions :: "run_action list" where
  "local_actions = [Choose_local, Enter Restoring, Apply_local, Enter Verifying, Verify_files]"

definition prepare_cloud :: "run_action list" where
  "prepare_cloud = [Enter Provisioning, Allocate, Enter Restoring, Restore_files, Enter Verifying, Verify_files]"

definition activate_actions :: "run_action list" where
  "activate_actions = [Merge_target, Enter Activating, Publish, Unpin]"

definition switch_actions :: "string \<Rightarrow> run_action list" where
  "switch_actions backend =
     save_actions @ (if backend = local_backend then local_actions else prepare_cloud) @ activate_actions"

section \<open>Failures\<close>

definition interrupted_text :: string where
  "interrupted_text = ''Runtime switching was interrupted. The saved source revision is retained.''"

fun exc_text :: "run_exc \<Rightarrow> string" where
  "exc_text Interrupted = interrupted_text"
| "exc_text (Unreachable s) = s"
| "exc_text (Run_error s) = s"

text \<open>The test for a commit whose acknowledgement was lost.\<close>

definition published :: "switch_state \<Rightarrow> runtime_row \<Rightarrow> bool" where
  "published st row =
     (rr_generation row = tn_source_generation st + 1
      \<and> (case rr_transition row of None \<Rightarrow> False
         | Some p \<Rightarrow> tn_operation_id p = tn_operation_id st \<and> tn_phase p = Completed))"

definition unknown_outcome :: "switch_state \<Rightarrow> run_exc \<Rightarrow> bool" where
  "unknown_outcome st e =
     (tn_target_backend st \<noteq> local_backend \<and> tn_phase st = Provisioning \<and> tn_target st = None
      \<and> (case e of Run_error s \<Rightarrow> False | _ \<Rightarrow> True))"

definition delete_item :: "switch_state \<Rightarrow> workspace_ref \<Rightarrow> cleanup_item" where
  "delete_item st ref = \<lparr>ci_ref = ref, ci_action = Delete, ci_operation_id = tn_operation_id st\<rparr>"

definition schedule_delete :: "switch_state \<Rightarrow> switch_state" where
  "schedule_delete st =
     (case tn_target st of
        None \<Rightarrow> st
      | Some t \<Rightarrow> if wr_backend t \<noteq> local_backend then st\<lparr>tn_cleanup := tn_cleanup st @ [delete_item st t]\<rparr> else st)"

definition fail_state :: "run_exc \<Rightarrow> switch_state \<Rightarrow> switch_state" where
  "fail_state e st =
     schedule_delete (st\<lparr>tn_phase := (if unknown_outcome st e then Allocation_unknown else Failed), tn_error := exc_text e\<rparr>)"

section \<open>Clean-up\<close>

text \<open>\<open>runtime_is_owned\<close>: the live runtimes and the thread workspaces.\<close>

definition runtime_is_owned :: "(string \<times> workspace_ref) list \<Rightarrow> (string \<times> string) list \<Rightarrow> workspace_ref \<Rightarrow> bool" where
  "runtime_is_owned runtimes threads ref =
     (list_ex (\<lambda>(status, r). status \<notin> {''destroyed'', ''retired''} \<and> wr_backend r = wr_backend ref
         \<and> wr_locator r = wr_locator ref) runtimes
      \<or> (wr_backend ref, wr_locator ref) \<in> set threads)"

datatype cleanup_effect = Removed_directory string | Called_loader string workspace_ref

text \<open>Paths are resolved strings; \<open>ue_expected op\<close> is the directory \<open>switch-<op>\<close> of the workspace.\<close>

record cleanup_env =
  ue_owned :: "workspace_ref \<Rightarrow> bool"
  ue_adopted :: "string \<Rightarrow> bool"
  ue_resolve :: "string \<Rightarrow> string"
  ue_expected :: "string \<Rightarrow> string"
  ue_inside :: "string \<Rightarrow> bool"
  ue_symlink :: "string \<Rightarrow> bool"
  ue_exists :: "string \<Rightarrow> bool"
  ue_stop_loader :: "string \<Rightarrow> string"
  ue_delete_loader :: "string \<Rightarrow> string"
  ue_call :: "cleanup_effect \<Rightarrow> string option"

definition cleanup_item_effect :: "cleanup_env \<Rightarrow> cleanup_item \<Rightarrow> string + cleanup_effect option" where
  "cleanup_item_effect E item =
     (let ref = ci_ref item in
      if wr_backend ref = local_backend
      then (let path = ue_resolve E (wr_locator ref) in
            if ue_adopted E path then Inr None
            else if path \<noteq> ue_expected E (ci_operation_id item) \<or> \<not> ue_inside E path \<or> ue_symlink E (wr_locator ref)
            then Inl ''Refusing to remove an unmanaged runtime directory.''
            else if ue_exists E path then Inr (Some (Removed_directory path)) else Inr None)
      else (let loader = (if ci_action item = Retire then ue_stop_loader E (wr_backend ref) else ue_delete_loader E (wr_backend ref));
                loader = (if loader \<noteq> [] then loader
                          else if wr_backend ref = ''modal'' then ue_delete_loader E (wr_backend ref) else [])
            in if loader = [] then Inl ''The backend does not support runtime retirement.''
               else Inr (Some (Called_loader loader ref))))"

text \<open>The loop of \<open>_cleanup\<close>: the items kept, the errors, and the effects.\<close>

fun cleanup_loop :: "cleanup_env \<Rightarrow> cleanup_item list \<Rightarrow> cleanup_item list \<times> string list \<times> cleanup_effect list" where
  "cleanup_loop E [] = ([], [], [])"
| "cleanup_loop E (item # items) =
     (let (kept, errors, effects) = cleanup_loop E items in
      if ue_owned E (ci_ref item) then (item # kept, errors, effects)
      else (case cleanup_item_effect E item of
              Inl e \<Rightarrow> (item # kept, e # errors, effects)
            | Inr None \<Rightarrow> (kept, errors, effects)
            | Inr (Some x) \<Rightarrow>
                (case ue_call E x of
                   Some e \<Rightarrow> (item # kept, e # errors, x # effects)
                 | None \<Rightarrow> (kept, errors, x # effects))))"

text \<open>
  How an awaited write ends: it returns, or it raises, with or without its effect (a lost acknowledgement, or a
  cancellation while the shielded write goes on). A clean-up is given the number of items after which a question or a call
  raises out of its loop, if one does, and the end of its write; the Boolean says whether it returned.
\<close>

datatype awaited = Fine | Broken bool

definition await :: "awaited \<Rightarrow> (run_world \<Rightarrow> run_world) \<Rightarrow> run_world \<Rightarrow> bool \<times> run_world" where
  "await a f w = (case a of Fine \<Rightarrow> (True, f w) | Broken happened \<Rightarrow> (False, if happened then f w else w))"

definition cleanup :: "cleanup_env \<Rightarrow> nat option \<times> awaited \<Rightarrow> run_world \<Rightarrow> cleanup_effect list \<times> bool \<times> run_world" where
  "cleanup E how w =
     (case fst how of
        Some k \<Rightarrow>
          (let (kept, errors, effects) = cleanup_loop E (take k (tn_cleanup (rw_state w))) in (effects, False, w))
      | None \<Rightarrow>
          (let (kept, errors, effects) = cleanup_loop E (tn_cleanup (rw_state w))
           in (effects, await (snd how) write_journal (w\<lparr>rw_state := (rw_state w)\<lparr>tn_cleanup := kept,
                 tn_cleanup_error := join_str ''; '' errors\<rparr>\<rparr>))))"

text \<open>The clean-up asks the database, where the workspace's own row is one of the live runtimes.\<close>

definition cleanup_env_for ::
  "cleanup_env \<Rightarrow> (string \<times> workspace_ref) list \<Rightarrow> (string \<times> string) list \<Rightarrow> run_world \<Rightarrow> cleanup_env" where
  "cleanup_env_for E others threads w =
     E\<lparr>ue_owned := runtime_is_owned ((rr_status (rw_row w), rr_execution (rw_row w)) # others) threads\<rparr>"

text \<open>
  How the awaits outside the actions end: the clean-up at the end of the body and what it raises, and in the handler the
  reading of the row, the write, the unpinning and its own clean-up.
\<close>

record tail_env =
  te_cleanup :: "nat option \<times> awaited"
  te_raised :: run_exc
  te_reread :: bool
  te_write :: awaited
  te_unpin :: awaited
  te_last :: "nat option \<times> awaited"

text \<open>The handler up to its clean-up; an exception of its own leaves it at once.\<close>

definition handle_failure :: "tail_env \<Rightarrow> run_exc \<Rightarrow> run_world \<Rightarrow> bool \<times> run_world" where
  "handle_failure T e w =
     (if \<not> rw_activated w \<and> \<not> te_reread T then (False, w)
      else
        (let w = (if rw_activated w \<or> published (rw_state w) (rw_row w)
                  then w\<lparr>rw_activated := True, rw_state := (rw_state w)\<lparr>tn_phase := Completed, tn_cleanup_error := exc_text e\<rparr>\<rparr>
                  else w\<lparr>rw_state := fail_state e (rw_state w)\<rparr>)
         in case await (te_write T) write_journal w of
              (False, w) \<Rightarrow> (False, w)
            | (True, w) \<Rightarrow> if tn_phase (rw_state w) \<noteq> Allocation_unknown then await (te_unpin T) unpin w else (True, w)))"

definition after_failure ::
  "tail_env \<Rightarrow> cleanup_env \<Rightarrow> (string \<times> workspace_ref) list \<Rightarrow> (string \<times> string) list \<Rightarrow> run_exc \<Rightarrow> run_world
   \<Rightarrow> cleanup_effect list \<times> bool \<times> run_world" where
  "after_failure T C others threads e w =
     (case handle_failure T e w of
        (False, w) \<Rightarrow> ([], False, w)
      | (True, w) \<Rightarrow> cleanup (cleanup_env_for C others threads w) (te_last T) w)"

text \<open>
  \<open>_run\<close>: the actions, then the clean-up, with the handler for both. The Boolean says whether it returned; otherwise
  its exception is logged, and the workspace waits for a restart.
\<close>

definition run_switch ::
  "run_env \<Rightarrow> tail_env \<Rightarrow> cleanup_env \<Rightarrow> (string \<times> workspace_ref) list \<Rightarrow> (string \<times> string) list \<Rightarrow> run_world
   \<Rightarrow> cleanup_effect list \<times> bool \<times> run_world" where
  "run_switch E T C others threads w =
     (case run_actions E 0 (switch_actions (tn_target_backend (rw_state w))) w of
        (Some e, w) \<Rightarrow> after_failure T C others threads e w
      | (None, w) \<Rightarrow>
          (case cleanup (cleanup_env_for C others threads w) (te_cleanup T) w of
             (effects, True, w) \<Rightarrow> (effects, True, w)
           | (effects, False, w) \<Rightarrow>
               (case after_failure T C others threads (te_raised T) w of (later, returned, w) \<Rightarrow> (effects @ later, returned, w))))"

section \<open>Starting, abandoning and recovering\<close>

text \<open>The journal entry \<open>request\<close> and \<open>replace\<close> start with.\<close>

definition start_state :: "string \<Rightarrow> string \<Rightarrow> bool \<Rightarrow> string option \<Rightarrow> runtime_row \<Rightarrow> string option \<Rightarrow> string option \<Rightarrow> switch_state" where
  "start_state operation backend recovery preview row pin revision =
     \<lparr>tn_operation_id = operation, tn_phase = Saving, tn_target_backend = backend, tn_recovery = recovery,
      tn_preview_token = preview, tn_source = rr_execution row, tn_source_generation = rr_generation row,
      tn_target = None, tn_revision = revision, tn_error = [], tn_cleanup_error = [],
      tn_cleanup = (case rr_transition row of Some previous \<Rightarrow> tn_cleanup previous | None \<Rightarrow> []),
      tn_previous_pin = pin, tn_local_revision = None\<rparr>"

definition start_world :: "switch_state \<Rightarrow> runtime_row \<Rightarrow> run_world" where
  "start_world st row = write_journal \<lparr>rw_state = st, rw_row = row, rw_pin = tn_previous_pin st, rw_saved = (None, False),
     rw_generation = rr_generation row, rw_activated = False, rw_asked = False, rw_journal = [], rw_done = []\<rparr>"

text \<open>\<open>abandon\<close>, with what \<open>find_allocation\<close> found.\<close>

definition abandon_state :: "workspace_ref option \<Rightarrow> switch_state \<Rightarrow> switch_state" where
  "abandon_state found st =
     (let st = (case found of
            None \<Rightarrow> st
          | Some t \<Rightarrow> if t \<in> ci_ref ` set (tn_cleanup st) then st
                      else st\<lparr>tn_target := Some t, tn_cleanup := tn_cleanup st @ [delete_item st t]\<rparr>)
      in st\<lparr>tn_phase := Failed, tn_error := ''The unresolved allocation was abandoned. ''
              @ ''Reconcile the provider inventory before retrying.''\<rparr>)"

definition abandon :: "switcher \<Rightarrow> int \<Rightarrow> string option \<Rightarrow> workspace_ref option \<Rightarrow> runtime_row \<Rightarrow> workspace_error + switch_state" where
  "abandon sw w expected found row =
     (if w \<in> sw_switching sw \<or> w \<in> sw_tasks sw then Inl (busy_error ''The runtime switch is still running.'')
      else (case rr_transition row of
              None \<Rightarrow> Inl \<lparr>we_message = ''There is no unresolved allocation to abandon.'', we_code = ''transition_unavailable''\<rparr>
            | Some st \<Rightarrow>
                if tn_phase st \<noteq> Allocation_unknown
                then Inl \<lparr>we_message = ''There is no unresolved allocation to abandon.'', we_code = ''transition_unavailable''\<rparr>
                else if (case expected of None \<Rightarrow> False | Some op' \<Rightarrow> op' \<noteq> [] \<and> tn_operation_id st \<noteq> op')
                then Inl \<lparr>we_message = ''The runtime transition changed; reload the workspace.'', we_code = ''stale_runtime''\<rparr>
                else Inr (abandon_state found st)))"

text \<open>The body of the loop of \<open>recover\<close> up to the clean-up; \<open>found\<close> is what \<open>find_allocation\<close> gives.\<close>

definition recover_state :: "workspace_ref option \<Rightarrow> switch_state \<Rightarrow> switch_state" where
  "recover_state found st =
     (let unresolved = tn_target_backend st \<noteq> local_backend
            \<and> (tn_phase st = Allocation_unknown \<or> tn_phase st = Provisioning \<and> tn_target st = None);
          st' = (case found of Some t \<Rightarrow> st\<lparr>tn_target := Some t, tn_phase := Restoring\<rparr> | None \<Rightarrow> st)
      in if unresolved \<and> found = None
         then st\<lparr>tn_phase := Allocation_unknown, tn_error := ''Allocation outcome is unknown. ''
                @ ''Reconcile provider inventory before retrying.''\<rparr>
         else (let st = (if unresolved then st' else st)
               in if tn_phase st \<in> set ACTIVE_PHASES
                  then schedule_delete (st\<lparr>tn_phase := Failed, tn_error := ''The application restarted before the ''
                         @ ''switch completed. The source runtime is unchanged.''\<rparr>)
                  else st))"

definition recover_row :: "(string \<Rightarrow> string \<Rightarrow> workspace_ref option) \<Rightarrow> runtime_row \<Rightarrow> runtime_row" where
  "recover_row found row = row\<lparr>rr_transition :=
     map_option (\<lambda>st. recover_state (found (tn_target_backend st) (tn_operation_id st)) st) (rr_transition row)\<rparr>"

end
