(* ===== verification/Admission.thy ===== *)
theory Admission
  imports Main
begin

text \<open>
  Admission of users to resources that an exclusive owner can block: the contract of the run leases and
  switch reservations of a workspace. Many users may enter a resource, none while it is blocked; it is
  blocked only while it has no user. Requests that are refused leave the state as it is.
\<close>

datatype ('k, 'b, 'o) admission_op = Enter_op 'k | Leave_op 'k | Block_op 'b 'k | Unblock_op 'o 'k

locale admission =
  fixes ok :: "'s \<Rightarrow> bool"
    and users :: "'k \<Rightarrow> 's \<Rightarrow> nat"
    and blocked :: "'k \<Rightarrow> 's \<Rightarrow> bool"
    and enter :: "'k \<Rightarrow> 's \<Rightarrow> 's option"
    and leave :: "'k \<Rightarrow> 's \<Rightarrow> 's"
    and block :: "'b \<Rightarrow> 'k \<Rightarrow> 's \<Rightarrow> 's option"
    and unblock :: "'o \<Rightarrow> 'k \<Rightarrow> 's \<Rightarrow> 's"
  assumes enter_ok: "ok s \<Longrightarrow> enter k s = Some t \<Longrightarrow> ok t"
    and enter_free: "enter k s = Some t \<Longrightarrow> \<not> blocked k s"
    and enter_users: "ok s \<Longrightarrow> enter k s = Some t \<Longrightarrow> users j t = (if j = k then users k s + 1 else users j s)"
    and enter_blocked: "enter k s = Some t \<Longrightarrow> blocked j t = blocked j s"
    and leave_ok: "ok s \<Longrightarrow> 0 < users k s \<Longrightarrow> ok (leave k s)"
    and leave_users: "ok s \<Longrightarrow> 0 < users k s \<Longrightarrow> users j (leave k s) = (if j = k then users k s - 1 else users j s)"
    and leave_blocked: "blocked j (leave k s) = blocked j s"
    and block_ok: "ok s \<Longrightarrow> block b k s = Some t \<Longrightarrow> ok t"
    and block_free: "ok s \<Longrightarrow> block b k s = Some t \<Longrightarrow> users k s = 0"
    and block_users: "block b k s = Some t \<Longrightarrow> users j t = users j s"
    and block_blocked: "block b k s = Some t \<Longrightarrow> blocked j t \<Longrightarrow> j = k \<or> blocked j s"
    and unblock_ok: "ok s \<Longrightarrow> ok (unblock x k s)"
    and unblock_users: "users j (unblock x k s) = users j s"
    and unblock_blocked: "blocked j (unblock x k s) \<Longrightarrow> j \<noteq> k \<and> blocked j s"
begin

text \<open>A user leaves only what it entered.\<close>

fun admit :: "('k, 'b, 'o) admission_op \<Rightarrow> 's \<Rightarrow> 's" where
  "admit (Enter_op k) s = (case enter k s of Some t \<Rightarrow> t | None \<Rightarrow> s)"
| "admit (Leave_op k) s = (if 0 < users k s then leave k s else s)"
| "admit (Block_op b k) s = (case block b k s of Some t \<Rightarrow> t | None \<Rightarrow> s)"
| "admit (Unblock_op x k) s = unblock x k s"

definition exclusive :: "'s \<Rightarrow> bool" where
  "exclusive s \<longleftrightarrow> ok s \<and> (\<forall>k. blocked k s \<longrightarrow> users k s = 0)"

lemma admit_exclusive:
  assumes "exclusive s"
  shows "exclusive (admit x s)"
proof -
  have ok: "ok s" and ex: "\<And>k. blocked k s \<Longrightarrow> users k s = 0" using assms by (auto simp: exclusive_def)
  show ?thesis
  proof (cases x)
    case (Enter_op k)
    show ?thesis
    proof (cases "enter k s")
      case (Some t)
      have "users j t = 0" if "blocked j t" for j
        using that ex [of j] enter_users [OF ok Some, of j] enter_blocked [OF Some, of j] enter_free [OF Some]
        by (cases "j = k") auto
      then show ?thesis using enter_ok [OF ok Some] by (simp add: Enter_op Some exclusive_def)
    qed (simp add: Enter_op assms)
  next
    case (Leave_op k)
    then show ?thesis using ok ex leave_ok leave_users leave_blocked assms by (simp add: exclusive_def)
  next
    case (Block_op b k)
    show ?thesis
    proof (cases "block b k s")
      case (Some t)
      have "users j t = 0" if "blocked j t" for j
        using block_blocked [OF Some that] block_users [OF Some, of j] block_free [OF ok Some] ex [of j] by auto
      then show ?thesis using block_ok [OF ok Some] by (simp add: Block_op Some exclusive_def)
    qed (simp add: Block_op assms)
  next
    case (Unblock_op y k)
    then show ?thesis using unblock_ok [OF ok] unblock_users unblock_blocked ex by (auto simp: exclusive_def)
  qed
qed

lemma run_exclusive: "exclusive s \<Longrightarrow> exclusive (foldl (\<lambda>s x. admit x s) s xs)"
  by (induction xs arbitrary: s) (simp_all add: admit_exclusive)

end

end
