(* ===== verification/Switch_Gate.thy ===== *)
theory Switch_Gate
  imports Runtime_Switch Admission Session_Guard
begin

text \<open>
  The gate of \<open>Runtime_Switch\<close> against the contract of \<open>Admission\<close>: runs hold leases, a switch blocks the
  workspace. And the reservation of an idle workspace, with the reservations of its threads in the
  session registry: all or nothing.
\<close>

section \<open>Leases against switches\<close>

definition runs_ok :: "switcher \<Rightarrow> bool" where
  "runs_ok sw \<longleftrightarrow> (\<forall>w n. dict_get (sw_runs sw) w = Some n \<longrightarrow> 0 < n)"

definition lease_count :: "int \<Rightarrow> switcher \<Rightarrow> nat" where
  "lease_count w sw = (case dict_get (sw_runs sw) w of Some n \<Rightarrow> n | None \<Rightarrow> 0)"

text \<open>A recovery takes the workspace under the writer lock of a run; it is not exclusive of leases.\<close>

definition switch_holds :: "int \<Rightarrow> switcher \<Rightarrow> bool" where
  "switch_holds w sw \<longleftrightarrow> w \<in> sw_switching sw \<and> w \<notin> sw_recovering sw"

definition try_lease :: "int \<Rightarrow> switcher \<Rightarrow> switcher option" where
  "try_lease w sw = (case enter_lease sw w of Inl e \<Rightarrow> None | Inr sw' \<Rightarrow> Some sw')"

definition try_reserve :: "runtime_row \<times> nat \<times> bool \<Rightarrow> int \<Rightarrow> switcher \<Rightarrow> switcher option" where
  "try_reserve b w sw = (case b of (row, expected, locked) \<Rightarrow>
     (case reserve sw w row expected locked of Inl e \<Rightarrow> None | Inr sw' \<Rightarrow> Some sw'))"

datatype gate_exit = Release_exit | Recovery_start | Recovery_exit

fun leave_gate :: "gate_exit \<Rightarrow> int \<Rightarrow> switcher \<Rightarrow> switcher" where
  "leave_gate Release_exit w sw = release_gate w sw"
| "leave_gate Recovery_start w sw = begin_recovery w sw"
| "leave_gate Recovery_exit w sw = end_recovery w sw"

lemmas gate_defs = try_lease_def try_reserve_def enter_lease_def exit_lease_def reserve_def release_gate_def
  begin_recovery_def end_recovery_def assert_available_def

interpretation gate: admission runs_ok lease_count switch_holds try_lease "\<lambda>w sw. exit_lease sw w" try_reserve leave_gate
proof
  fix sw sw' :: switcher and w v b x
  show "try_lease w sw = Some sw' \<Longrightarrow> \<not> switch_holds w sw"
    by (auto simp: gate_defs switch_holds_def split: if_splits)
  show "try_lease w sw = Some sw' \<Longrightarrow> switch_holds v sw' = switch_holds v sw"
    by (auto simp: gate_defs switch_holds_def split: if_splits)
  show "runs_ok sw \<Longrightarrow> try_lease w sw = Some sw' \<Longrightarrow> runs_ok sw'"
    by (auto simp: gate_defs runs_ok_def dict_simps split: if_splits option.splits)
  show "runs_ok sw \<Longrightarrow> try_lease w sw = Some sw' \<Longrightarrow> lease_count v sw' = (if v = w then lease_count w sw + 1 else lease_count v sw)"
    by (auto simp: gate_defs lease_count_def dict_simps split: if_splits option.splits)
  show "runs_ok sw \<Longrightarrow> 0 < lease_count w sw \<Longrightarrow> runs_ok (exit_lease sw w)"
    by (auto simp: gate_defs runs_ok_def dict_simps split: if_splits option.splits)
  show "runs_ok sw \<Longrightarrow> 0 < lease_count w sw
      \<Longrightarrow> lease_count v (exit_lease sw w) = (if v = w then lease_count w sw - 1 else lease_count v sw)"
    by (auto simp: gate_defs lease_count_def dict_simps split: option.splits)
  show "switch_holds v (exit_lease sw w) = switch_holds v sw"
    by (auto simp: gate_defs switch_holds_def split: option.splits)
  show "runs_ok sw \<Longrightarrow> try_reserve b w sw = Some sw' \<Longrightarrow> runs_ok sw'"
    by (auto simp: try_reserve_def reserve_def runs_ok_def split: prod.splits sum.splits option.splits if_splits)
  show "runs_ok sw \<Longrightarrow> try_reserve b w sw = Some sw' \<Longrightarrow> lease_count w sw = 0"
    by (auto simp: try_reserve_def reserve_def lease_count_def split: prod.splits sum.splits option.splits if_splits)
  show "try_reserve b w sw = Some sw' \<Longrightarrow> lease_count v sw' = lease_count v sw"
    by (auto simp: try_reserve_def reserve_def lease_count_def split: prod.splits sum.splits option.splits if_splits)
  show "try_reserve b w sw = Some sw' \<Longrightarrow> switch_holds v sw' \<Longrightarrow> v = w \<or> switch_holds v sw"
    by (auto simp: try_reserve_def reserve_def switch_holds_def split: prod.splits sum.splits option.splits if_splits)
  show "runs_ok sw \<Longrightarrow> runs_ok (leave_gate x w sw)"
    by (cases x) (simp_all add: gate_defs runs_ok_def)
  show "lease_count v (leave_gate x w sw) = lease_count v sw"
    by (cases x) (simp_all add: gate_defs lease_count_def)
  show "switch_holds v (leave_gate x w sw) \<Longrightarrow> v \<noteq> w \<and> switch_holds v sw"
    by (cases x) (auto simp: gate_defs switch_holds_def)
qed

lemma no_lease: "runs_ok sw \<Longrightarrow> lease_count w sw = 0 \<Longrightarrow> dict_get (sw_runs sw) w = None"
  by (auto simp: runs_ok_def lease_count_def split: option.splits)

text \<open>
  C24: whatever runs, switches and recoveries do at the gate, in any order, a workspace that a switch
  holds has no running lease.
\<close>

theorem switch_excludes_runs:
  "{w. switch_holds w (foldl (\<lambda>sw x. gate.admit x sw) new_switcher xs)}
     \<subseteq> {w. dict_get (sw_runs (foldl (\<lambda>sw x. gate.admit x sw) new_switcher xs)) w = None}"
proof -
  let ?sw = "foldl (\<lambda>sw x. gate.admit x sw) new_switcher xs"
  have "gate.exclusive new_switcher"
    by (simp add: gate.exclusive_def runs_ok_def switch_holds_def new_switcher_def)
  then have "gate.exclusive ?sw" by (rule gate.run_exclusive)
  then have ok: "runs_ok ?sw" and free: "\<And>w. switch_holds w ?sw \<Longrightarrow> lease_count w ?sw = 0"
    by (simp_all add: gate.exclusive_def)
  show ?thesis by (rule subsetI, rule CollectI, rule no_lease [OF ok free]) simp
qed

section \<open>Reserving an idle workspace\<close>

definition idle_thread :: "registry \<Rightarrow> string \<Rightarrow> bool" where
  "idle_thread r t \<longleftrightarrow> t \<notin> rg_mutations r \<and> (\<forall>(i, s) \<in> set (rg_sessions r). as_thread_id s \<noteq> t)"

lemma reserve_threads_held:
  "reserve_threads held ts r = (c, held', r') \<Longrightarrow>
     \<exists>taken rest. ts = taken @ rest \<and> held' = held @ taken \<and> r' = r\<lparr>rg_mutations := rg_mutations r \<union> set taken\<rparr>
       \<and> (\<forall>t \<in> set taken. idle_thread r t) \<and> (c = None \<longleftrightarrow> rest = [])"
proof (induction held ts r rule: reserve_threads.induct)
  case (1 held r)
  then show ?case by auto
next
  case (2 held t ts r)
  show ?case
  proof (cases "reserve_thread_mutation r t True")
    case (Inl e)
    then show ?thesis using 2(2) by auto
  next
    case (Inr r1)
    then have r1: "r1 = r\<lparr>rg_mutations := insert t (rg_mutations r)\<rparr>" and t: "idle_thread r t"
      by (auto simp: reserve_thread_mutation_def idle_thread_def list_ex_iff split: if_splits)
    obtain taken rest where IH: "ts = taken @ rest" "held' = (held @ [t]) @ taken"
      "r' = r1\<lparr>rg_mutations := rg_mutations r1 \<union> set taken\<rparr>" "\<forall>u \<in> set taken. idle_thread r1 u" "c = None \<longleftrightarrow> rest = []"
      using 2(1) [OF Inr] 2(2) Inr by auto
    have "\<forall>u \<in> set (t # taken). idle_thread r u" using IH(4) t by (auto simp: r1 idle_thread_def)
    then show ?thesis
      using IH by (intro exI [of _ "t # taken"] exI [of _ rest]) (simp add: r1)
  qed
qed

lemma close_reservations_eq: "close_reservations ts r = r\<lparr>rg_mutations := rg_mutations r - set ts\<rparr>"
proof (induction ts)
  case (Cons t ts)
  have "close_reservations (t # ts) r = end_thread_mutation (close_reservations ts r) t"
    by (simp add: close_reservations_def)
  also have "\<dots> = r\<lparr>rg_mutations := rg_mutations r - set ts - {t}\<rparr>"
    by (simp add: Cons end_thread_mutation_def)
  also have "rg_mutations r - set ts - {t} = rg_mutations r - set (t # ts)" by auto
  finally show ?case .
qed (simp add: close_reservations_def)

lemma pop_set_new: "k \<notin> fst ` set d \<Longrightarrow> dict_pop k (dict_set k v d) = d"
  by (induction d) (auto simp: delete_idem)

lemma release_undoes:
  assumes "w \<notin> sw_switching sw" "dict_get (sw_reservations sw) w = None" "\<forall>t \<in> set held. t \<notin> rg_mutations r"
  shows "release_workspace (sw\<lparr>sw_switching := insert w (sw_switching sw), sw_reservations := dict_set w held (sw_reservations sw)\<rparr>)
      (r\<lparr>rg_mutations := rg_mutations r \<union> set held\<rparr>) w = (sw, r)"
    and "release_workspace (sw\<lparr>sw_switching := insert w (sw_switching sw)\<rparr>) r w = (sw, r)"
proof -
  have "w \<notin> fst ` set (sw_reservations sw)" using assms(2) by (simp add: dict_get_None_iff)
  moreover from this have "dict_pop w (sw_reservations sw) = sw_reservations sw"
    by (simp add: delete_idem)
  moreover have "rg_mutations r \<union> set held - set held = rg_mutations r" using assms(3) by blast
  ultimately show "release_workspace (sw\<lparr>sw_switching := insert w (sw_switching sw), sw_reservations := dict_set w held (sw_reservations sw)\<rparr>)
      (r\<lparr>rg_mutations := rg_mutations r \<union> set held\<rparr>) w = (sw, r)"
    "release_workspace (sw\<lparr>sw_switching := insert w (sw_switching sw)\<rparr>) r w = (sw, r)"
    using assms by (simp_all add: release_workspace_def release_gate_def close_reservations_eq pop_set_new dict_simps)
qed

text \<open>
  Reserving an idle workspace is all or nothing. If it is refused, for whatever reason and at
  whatever point, the gate and the session registry are as before. If it succeeds, the workspace is
  switching, no run holds a lease on it, every thread of it was idle and is now reserved, and releasing
  the workspace restores the gate and the registry exactly.
\<close>

theorem idle_reservation_all_or_nothing:
  assumes "reserve_idle E sw r w runtime expected locked allow_unavailable = (outcome, sw', r')"
    and "dict_get (sw_reservations sw) w = None"
  shows "(case outcome of
      Some e \<Rightarrow> sw' = sw \<and> r' = r
    | None \<Rightarrow> w \<in> sw_switching sw' \<and> rr_generation runtime = expected
        \<and> (case dict_get (sw_runs sw') w of None \<Rightarrow> True | Some n \<Rightarrow> n = 0)
        \<and> (\<exists>threads. ie_threads E = Inr threads \<and> (\<forall>t \<in> set threads. idle_thread r t)
             \<and> rg_mutations r' = rg_mutations r \<union> set threads)
        \<and> release_workspace sw' r' w = (sw, r))"
proof (cases "reserve sw w runtime expected locked")
  case (Inl e)
  then show ?thesis using assms(1) by (auto simp: reserve_idle_def)
next
  case (Inr sw1)
  then have sw1: "sw1 = sw\<lparr>sw_switching := insert w (sw_switching sw)\<rparr>" and w: "w \<notin> sw_switching sw"
    and generation: "rr_generation runtime = expected"
    and lease: "case dict_get (sw_runs sw) w of None \<Rightarrow> True | Some n \<Rightarrow> n = 0"
    by (auto simp: reserve_def assert_available_def split: option.splits if_splits)
  note undo = release_undoes [OF w assms(2)]
  show ?thesis
  proof (cases "ie_threads E")
    case (Inl e)
    then show ?thesis using assms(1) Inr undo(2) [of "[]"] by (auto simp: reserve_idle_def sw1)
  next
    case threads: (Inr threads)
    let ?busy = "list_ex (\<lambda>s. as_thread_id s \<in> set threads \<or> list_ex (\<lambda>t. sub_thread t (as_thread_id s)) threads) (list_active r)"
    obtain c held r1 where res: "reserve_threads [] (sort threads) r = (c, held, r1)" by (metis prod_cases3)
    then obtain rest where held: "sort threads = held @ rest" "r1 = r\<lparr>rg_mutations := rg_mutations r \<union> set held\<rparr>"
      "\<forall>t \<in> set held. idle_thread r t" "c = None \<longleftrightarrow> rest = []"
      using reserve_threads_held [OF res] by auto
    then have undo1: "release_workspace (sw1\<lparr>sw_reservations := dict_set w held (sw_reservations sw1)\<rparr>) r1 w = (sw, r)"
      using undo(1) [of held r] by (simp add: sw1 idle_thread_def)
    have outcome: "(outcome, sw', r') = (if ?busy then (Some (busy_error ''Finish or stop conversations using this workspace first.''), sw, r)
        else (case (case c of Some e \<Rightarrow> Some (busy_error (thread_conflict_text e))
              | None \<Rightarrow> (case assert_no_interrupts (ie_snapshot E) threads of Some e \<Rightarrow> Some e
                  | None \<Rightarrow> if allow_unavailable then None
                      else assert_no_processes (rr_execution runtime) (ie_running E) (ie_jobs E) (ie_remote E))) of
            Some e \<Rightarrow> (Some e, sw, r)
          | None \<Rightarrow> (None, sw1\<lparr>sw_reservations := dict_set w held (sw_reservations sw1)\<rparr>, r1)))"
      unfolding assms(1) [symmetric] reserve_idle_def Inr threads sum.case res Let_def prod.case undo1
      using undo(2) [of "[]" r] by (simp add: sw1)
    show ?thesis
    proof (cases outcome)
      case (Some e)
      then show ?thesis using outcome by (auto split: if_splits option.splits)
    next
      case None
      then have new: "sw' = sw1\<lparr>sw_reservations := dict_set w held (sw_reservations sw1)\<rparr>" "r' = r1" "c = None"
        using outcome by (auto split: if_splits option.splits)
      then have "set threads = set held" using held(1,4) by (metis append_Nil2 set_sort)
      then show ?thesis
        using None new undo1 threads held generation lease by (simp add: sw1)
    qed
  qed
qed

definition demo_runtime :: runtime_row where
  "demo_runtime = \<lparr>rr_execution = \<lparr>wr_backend = ''local'', wr_locator = ''w'', wr_label = [], wr_metadata = []\<rparr>,
     rr_generation = 1, rr_status = ''ready'', rr_transition = None\<rparr>"

definition demo_idle :: idle_env where
  "demo_idle = \<lparr>ie_threads = Inr [''t''], ie_snapshot = (\<lambda>t. Some (False, False)), ie_running = False, ie_jobs = False,
     ie_remote = Some False\<rparr>"

theorem idle_reservation_all_or_nothing_witness:
  "\<exists>sw r. reserve_idle demo_idle new_switcher new_registry 1 demo_runtime 1 False False = (None, sw, r)
     \<and> release_workspace sw r 1 = (new_switcher, new_registry)"
proof -
  obtain sw r where res: "reserve_idle demo_idle new_switcher new_registry 1 demo_runtime 1 False False = (None, sw, r)"
    by (simp add: reserve_idle_def demo_idle_def reserve_def assert_available_def demo_runtime_def new_switcher_def new_registry_def
        reserve_thread_mutation_def list_active_def assert_no_processes_def local_backend_def Let_def)
  have "dict_get (sw_reservations new_switcher) 1 = None" by (simp add: new_switcher_def)
  from idle_reservation_all_or_nothing [OF res this] res show ?thesis by auto
qed

end
