(* ===== verification/Switch_Proofs.thy ===== *)
theory Switch_Proofs
  imports Runtime_Switch
begin

text \<open>
  What a switch of execution providers promises, whatever call fails, those of its failure handler included: it is atomic (the old
  runtime untouched, or the verified new one published), no sandbox it created is lost, its clean-up spares
  what is in use, and recovery after a restart settles every journal.
\<close>

section \<open>What the actions leave alone\<close>

definition core :: "run_world \<Rightarrow> workspace_ref \<times> nat \<times> string" where
  "core w = (rr_execution (rw_row w), rr_generation (rw_row w), rr_status (rw_row w))"

definition frame :: "run_world \<Rightarrow> string \<times> workspace_ref \<times> nat \<times> string \<times> bool" where
  "frame w = (tn_operation_id (rw_state w), tn_source (rw_state w), tn_source_generation (rw_state w),
     tn_target_backend (rw_state w), tn_recovery (rw_state w))"

lemmas world_defs = core_def frame_def write_journal_def set_target_def set_phase_def remember_def allocate_def
  unpin_def complete_state_def Let_def

lemma act_frame: "act E a w = (r, w') \<Longrightarrow> frame w' = frame w"
  by (cases a) (auto simp: world_defs split: if_splits option.splits allocation.splits sum.splits)

lemma act_core:
  "a \<noteq> Publish \<Longrightarrow> act E a w = (r, w') \<Longrightarrow> rw_generation w = rr_generation (rw_row w)
   \<Longrightarrow> core w' = core w \<and> rw_activated w' = rw_activated w \<and> rw_generation w' = rr_generation (rw_row w')"
  by (cases a) (auto simp: world_defs split: if_splits option.splits allocation.splits sum.splits)

lemma act_done: "act E a w = (r, w') \<Longrightarrow> rw_done w' = rw_done w"
  by (cases a) (auto simp: world_defs split: if_splits option.splits allocation.splits sum.splits)

lemma prepare_facts:
  "frame (prepare a w) = frame w" "core (prepare a w) = core w" "rw_activated (prepare a w) = rw_activated w"
  "rw_generation (prepare a w) = rw_generation w" "rw_done (prepare a w) = rw_done w" "rw_row (prepare a w) = rw_row w"
  by (cases a; simp add: world_defs)+

lemma perform_cases:
  assumes "perform E n a w = (r, w')"
  obtains (refused) e where "r = Some e" "w' = prepare a w"
  | (failed) e where "r = Some e" "act E a (prepare a w) = (Some e, w')"
  | (performed) v where "r = None" "act E a (prepare a w) = (None, v)" "w' = v\<lparr>rw_done := rw_done v @ [a]\<rparr>"
proof (cases "re_fail E n")
  case (Some e)
  then have "r = Some e" "w' = prepare a w" using assms by (simp_all add: perform_def Let_def)
  then show ?thesis by (rule refused)
next
  case None
  obtain s v where act: "act E a (prepare a w) = (s, v)" by fastforce
  show ?thesis
  proof (cases s)
    case (Some e)
    then have "r = Some e" "w' = v" using assms None act by (simp_all add: perform_def Let_def)
    then show ?thesis using failed [of e] act Some by simp
  next
    case s: None
    then have "r = None" "w' = v\<lparr>rw_done := rw_done v @ [a]\<rparr>" using assms None act by (simp_all add: perform_def Let_def)
    then show ?thesis using performed [of v] act s by simp
  qed
qed

lemma perform_keeps:
  assumes "perform E n a w = (r, w')" "a \<noteq> Publish" "rw_generation w = rr_generation (rw_row w)"
  shows "core w' = core w \<and> frame w' = frame w \<and> rw_activated w' = rw_activated w
    \<and> rw_generation w' = rr_generation (rw_row w') \<and> rw_done w' = (if r = None then rw_done w @ [a] else rw_done w)"
  using assms(1)
proof (cases rule: perform_cases)
  case refused
  then show ?thesis using assms(3) by (simp add: prepare_facts)
next
  case (failed e)
  then show ?thesis
    using act_core [OF assms(2) failed(2)] act_frame [OF failed(2)] act_done [OF failed(2)] assms(3)
    by (simp add: prepare_facts)
next
  case (performed v)
  then show ?thesis
    using act_core [OF assms(2) performed(2)] act_frame [OF performed(2)] act_done [OF performed(2)] assms(3)
    by (simp add: prepare_facts) (simp add: core_def frame_def)
qed

lemma run_actions_append:
  "run_actions E n (as @ bs) w =
     (case run_actions E n as w of (Some e, w) \<Rightarrow> (Some e, w) | (None, w) \<Rightarrow> run_actions E (n + length as) bs w)"
  by (induction as arbitrary: n w) (auto split: prod.split option.split)

lemma run_actions_keep:
  "run_actions E n as w = (r, w') \<Longrightarrow> Publish \<notin> set as \<Longrightarrow> rw_generation w = rr_generation (rw_row w)
   \<Longrightarrow> core w' = core w \<and> frame w' = frame w \<and> rw_activated w' = rw_activated w
     \<and> rw_generation w' = rr_generation (rw_row w') \<and> set (rw_done w) \<subseteq> set (rw_done w')
     \<and> (r = None \<longrightarrow> set as \<subseteq> set (rw_done w'))"
proof (induction as arbitrary: n w)
  case (Cons a as)
  obtain s v where p: "perform E n a w = (s, v)" by fastforce
  have a: "a \<noteq> Publish" using Cons.prems(2) by auto
  note keep = perform_keeps [OF p a Cons.prems(3)]
  show ?case
  proof (cases s)
    case (Some e)
    then show ?thesis using Cons.prems(1) p keep by auto
  next
    case None
    then have "run_actions E (n + 1) as v = (r, w')" using Cons.prems(1) p by simp
    from Cons.IH [OF this] Cons.prems(2) keep None show ?thesis by auto
  qed
qed auto

section \<open>The publication\<close>

definition before_publish :: "string \<Rightarrow> run_action list" where
  "before_publish b = save_actions @ (if b = local_backend then local_actions else prepare_cloud) @ [Merge_target, Enter Activating]"

lemma switch_actions_split: "switch_actions b = before_publish b @ [Publish, Unpin]"
  by (simp add: switch_actions_def before_publish_def activate_actions_def)

lemma before_publish_actions:
  "Publish \<notin> set (before_publish b)" "Verify_files \<in> set (before_publish b)"
  "b \<noteq> local_backend \<Longrightarrow> {Allocate, Restore_files} \<subseteq> set (before_publish b)"
  by (auto simp: before_publish_def save_actions_def local_actions_def prepare_cloud_def)

text \<open>A world whose publication is committed and journalled.\<close>

definition switched :: "run_world \<Rightarrow> run_world \<Rightarrow> bool" where
  "switched w0 w \<longleftrightarrow> (\<exists>t. tn_target (rw_state w) = Some t
      \<and> core w = (t, rr_generation (rw_row w0) + 1, ''ready''))"

lemma act_publish:
  assumes "act E Publish w = (r, w')"
  shows "w' = w \<and> r \<noteq> None
    \<or> (\<exists>t. tn_target (rw_state w) = Some t \<and> core w' = (t, rw_generation w + 1, ''ready'') \<and> rw_state w' = rw_state w
         \<and> rr_transition (rw_row w') = Some (rw_state w) \<and> (r = None \<longrightarrow> rw_activated w') \<and> rw_done w' = rw_done w)"
proof (cases "tn_target (rw_state w)")
  case None
  then show ?thesis using assms by (auto simp: run_error_def)
next
  case (Some t)
  show ?thesis
  proof (cases "publish_runtime t (rw_generation w + 1) (rw_state w) (rw_row w)")
    case (Inl e)
    then show ?thesis using assms Some by auto
  next
    case (Inr row)
    then have "rr_execution row = t" "rr_generation row = rw_generation w + 1" "rr_status row = ''ready''"
      "rr_transition row = Some (rw_state w)"
      by (auto simp: publish_runtime_def split: if_splits)
    then show ?thesis using assms Some Inr by (cases "re_ack_lost E") (auto simp: core_def Let_def)
  qed
qed

lemma publish_step:
  assumes "perform E n Publish w = (r, w')" "rw_generation w = rr_generation (rw_row w)"
  shows "core w' = core w \<and> rw_activated w' = rw_activated w \<and> r \<noteq> None
     \<or> switched w w' \<and> (r = None \<longrightarrow> rw_activated w') \<and> rr_transition (rw_row w') = Some (rw_state w')"
    and "tn_phase (rw_state w') = Completed" and "frame w' = frame w" and "rw_done w' = rw_done w \<or> rw_done w' = rw_done w @ [Publish]"
proof -
  define v where "v = prepare Publish w"
  have phase: "tn_phase (rw_state v) = Completed"
    by (simp add: v_def complete_state_def Let_def)
  note facts = prepare_facts [of Publish w, folded v_def]
  have split: "(core w' = core w \<and> rw_activated w' = rw_activated w \<and> r \<noteq> None
     \<or> switched w w' \<and> (r = None \<longrightarrow> rw_activated w') \<and> rr_transition (rw_row w') = Some (rw_state w'))
     \<and> rw_state w' = rw_state v \<and> (rw_done w' = rw_done w \<or> rw_done w' = rw_done w @ [Publish])"
    using assms(1)
  proof (cases rule: perform_cases)
    case refused
    then show ?thesis using facts by (simp add: v_def)
  next
    case (failed e)
    then show ?thesis
      using act_publish [OF failed(2) [folded v_def]] facts assms(2) by (auto simp: switched_def)
  next
    case (performed u)
    then show ?thesis
      using act_publish [OF performed(2) [folded v_def]] facts assms(2) by (auto simp: switched_def core_def)
  qed
  show "core w' = core w \<and> rw_activated w' = rw_activated w \<and> r \<noteq> None
     \<or> switched w w' \<and> (r = None \<longrightarrow> rw_activated w') \<and> rr_transition (rw_row w') = Some (rw_state w')"
    using split by blast
  show "tn_phase (rw_state w') = Completed" using split phase by simp
  show "frame w' = frame w" using split facts(1) by (simp add: frame_def)
  show "rw_done w' = rw_done w \<or> rw_done w' = rw_done w @ [Publish]" using split by blast
qed

lemma unpin_step:
  assumes "perform E n Unpin w = (r, w')"
  shows "rw_row w' = rw_row w \<and> rw_state w' = rw_state w \<and> rw_activated w' = rw_activated w \<and> set (rw_done w) \<subseteq> set (rw_done w')"
  using assms by (auto simp: perform_def unpin_def Let_def split: option.splits if_splits)

text \<open>What the actions of a switch end with: nothing changed, or the publication.\<close>

lemma run_outcome:
  assumes run: "run_actions E 0 (switch_actions b) w0 = (r, w)" and g: "rw_generation w0 = rr_generation (rw_row w0)"
    and inactive: "\<not> rw_activated w0" and source: "tn_source_generation (rw_state w0) = rr_generation (rw_row w0)"
  shows "r \<noteq> None \<and> core w = core w0 \<and> \<not> rw_activated w \<and> \<not> published (rw_state w) (rw_row w)
    \<or> switched w0 w \<and> tn_phase (rw_state w) = Completed \<and> rr_transition (rw_row w) = Some (rw_state w)
       \<and> set (before_publish b) \<subseteq> set (rw_done w) \<and> frame w = frame w0"
proof -
  obtain s v where pre: "run_actions E 0 (before_publish b) w0 = (s, v)" by fastforce
  note keep = run_actions_keep [OF pre before_publish_actions(1) g]
  have unpublished: "\<not> published (rw_state u) (rw_row u)" if "core u = core w0" "frame u = frame w0" for u
    using that source by (auto simp: published_def core_def frame_def)
  show ?thesis
  proof (cases s)
    case (Some e)
    then have "r = Some e" "w = v" using run pre by (simp_all add: switch_actions_split run_actions_append)
    then show ?thesis using keep inactive unpublished [of v] by simp
  next
    case None
    obtain p u where pub: "perform E (length (before_publish b)) Publish v = (p, u)" by fastforce
    have frame: "frame u = frame w0" using publish_step(3) [OF pub] keep by simp
    have all: "set (before_publish b) \<subseteq> set (rw_done u)" using publish_step(4) [OF pub] keep keep None by auto
    show ?thesis
    proof (cases "core u = core v \<and> rw_activated u = rw_activated v \<and> p \<noteq> None")
      case True
      then obtain e where "p = Some e" by auto
      then have "r = Some e" "w = u" using run pre None pub by (simp_all add: switch_actions_split run_actions_append)
      then show ?thesis using True keep inactive unpublished [of u] frame by simp
    next
      case False
      then have sw: "switched v u" and act: "p = None \<Longrightarrow> rw_activated u"
        and row: "rr_transition (rw_row u) = Some (rw_state u)"
        using publish_step(1) [OF pub] keep by auto
      have completed: "tn_phase (rw_state u) = Completed" using publish_step(2) [OF pub] keep by simp
      have sw0: "switched w0 u" using sw keep by (auto simp: switched_def core_def)
      show ?thesis
      proof (cases p)
        case (Some e)
        then have w: "w = u" using run pre None pub by (simp add: switch_actions_split run_actions_append)
        then show ?thesis using sw0 completed all row frame by simp
      next
        case p: None
        then have "perform E (Suc (length (before_publish b))) Unpin u = (r, w)"
          using run pre None pub by (simp add: switch_actions_split run_actions_append split: prod.splits option.splits)
        from unpin_step [OF this] sw0 completed all row frame show ?thesis by (auto simp: switched_def core_def frame_def)
      qed
    qed
  qed
qed

subsection \<open>What follows the actions\<close>

lemma await_cases:
  assumes "await a f w = (ok, w')"
  obtains "w' = f w" | "w' = w" "\<not> ok"
  using assms by (cases a) (auto simp: await_def split: if_splits)

lemma cleanup_world:
  assumes "cleanup C how w = (effects, returned, w')"
  shows "core w' = core w" "frame w' = frame w" "tn_phase (rw_state w') = tn_phase (rw_state w)"
    "tn_target (rw_state w') = tn_target (rw_state w)" "rw_done w' = rw_done w" "rw_asked w' = rw_asked w"
    "rr_transition (rw_row w') = Some (rw_state w') \<and> rw_journal w' = rw_journal w @ [tn_phase (rw_state w)]
       \<or> rr_transition (rw_row w') = rr_transition (rw_row w) \<and> rw_journal w' = rw_journal w \<and> \<not> returned"
proof -
  obtain kept errors xs where loop: "cleanup_loop C (tn_cleanup (rw_state w)) = (kept, errors, xs)" by (metis prod_cases3)
  let ?v = "w\<lparr>rw_state := (rw_state w)\<lparr>tn_cleanup := kept, tn_cleanup_error := join_str ''; '' errors\<rparr>\<rparr>"
  consider "w' = w" "\<not> returned" | "await (snd how) write_journal ?v = (returned, w')"
    using assms loop by (cases "fst how") (auto simp: cleanup_def split: prod.splits)
  then have "w' = w \<and> \<not> returned \<or> w' = write_journal ?v \<or> w' = ?v \<and> \<not> returned"
    by cases (auto elim: await_cases)
  then show "core w' = core w" "frame w' = frame w" "tn_phase (rw_state w') = tn_phase (rw_state w)"
    "tn_target (rw_state w') = tn_target (rw_state w)" "rw_done w' = rw_done w" "rw_asked w' = rw_asked w"
    "rr_transition (rw_row w') = Some (rw_state w') \<and> rw_journal w' = rw_journal w @ [tn_phase (rw_state w)]
       \<or> rr_transition (rw_row w') = rr_transition (rw_row w) \<and> rw_journal w' = rw_journal w \<and> \<not> returned"
    by (auto simp: write_journal_def core_def frame_def)
qed

lemma cleanup_stored:
  assumes "cleanup C how w = (effects, returned, w')" "rr_transition (rw_row w) = Some (rw_state w)"
  shows "\<exists>st. rr_transition (rw_row w') = Some st \<and> tn_phase st = tn_phase (rw_state w)"
  using assms(2) cleanup_world(3,7) [OF assms(1)] by auto

lemma unpin_world:
  "rw_row (unpin w) = rw_row w" "rw_state (unpin w) = rw_state w" "rw_done (unpin w) = rw_done w"
  "rw_asked (unpin w) = rw_asked w" "rw_journal (unpin w) = rw_journal w"
  by (simp_all add: unpin_def)

text \<open>The handler gives up as it found things, or with its entry in memory only, or with it written.\<close>

definition handled_state :: "run_exc \<Rightarrow> run_world \<Rightarrow> switch_state" where
  "handled_state e w = (if rw_activated w \<or> published (rw_state w) (rw_row w)
     then (rw_state w)\<lparr>tn_phase := Completed, tn_cleanup_error := exc_text e\<rparr> else fail_state e (rw_state w))"

lemma handled_world:
  assumes "handle_failure T e w = (ok, w')"
  shows "w' = w \<and> \<not> ok
    \<or> rw_state w' = handled_state e w \<and> core w' = core w \<and> rw_done w' = rw_done w \<and> rw_asked w' = rw_asked w
      \<and> (rr_transition (rw_row w') = Some (rw_state w') \<and> rw_journal w' = rw_journal w @ [tn_phase (rw_state w')]
         \<or> rw_row w' = rw_row w \<and> rw_journal w' = rw_journal w \<and> \<not> ok)"
proof (cases "\<not> rw_activated w \<and> \<not> te_reread T")
  case True
  then show ?thesis using assms by (simp add: handle_failure_def)
next
  case False
  define v where "v = (if rw_activated w \<or> published (rw_state w) (rw_row w)
      then w\<lparr>rw_activated := True, rw_state := (rw_state w)\<lparr>tn_phase := Completed, tn_cleanup_error := exc_text e\<rparr>\<rparr>
      else w\<lparr>rw_state := fail_state e (rw_state w)\<rparr>)"
  have v: "rw_state v = handled_state e w" "rw_row v = rw_row w" "rw_done v = rw_done w" "rw_asked v = rw_asked w"
    "rw_journal v = rw_journal w"
    by (simp_all add: v_def handled_state_def)
  have run: "handle_failure T e w = (case await (te_write T) write_journal v of
      (False, u) \<Rightarrow> (False, u)
    | (True, u) \<Rightarrow> if tn_phase (rw_state u) \<noteq> Allocation_unknown then await (te_unpin T) unpin u else (True, u))"
    unfolding handle_failure_def Let_def v_def [symmetric] if_not_P [OF False] ..
  obtain x u where u: "await (te_write T) write_journal v = (x, u)" by force
  have written: "u = write_journal v \<or> u = v \<and> \<not> x" using u by (elim await_cases) auto
  have "rw_row w' = rw_row u \<and> rw_state w' = rw_state u \<and> rw_done w' = rw_done u \<and> rw_asked w' = rw_asked u
      \<and> rw_journal w' = rw_journal u \<and> (\<not> x \<longrightarrow> \<not> ok)"
    using assms u unfolding run
    by (cases x) (auto simp: unpin_world split: if_splits elim!: await_cases)
  then show ?thesis using written v by (auto simp: write_journal_def core_def)
qed

lemma fail_state_facts:
  "tn_phase (fail_state e st) = (if unknown_outcome st e then Allocation_unknown else Failed)"
  "tn_operation_id (fail_state e st) = tn_operation_id st" "tn_target_backend (fail_state e st) = tn_target_backend st"
  "tn_target (fail_state e st) = tn_target st"
  by (simp_all add: fail_state_def schedule_delete_def split: option.split)

text \<open>The published runtime, in the row and in its journal: no later failure takes it back.\<close>

definition arrived :: "workspace_ref \<Rightarrow> run_world \<Rightarrow> bool" where
  "arrived t w \<longleftrightarrow> core w = (t, tn_source_generation (rw_state w) + 1, ''ready'')
     \<and> tn_phase (rw_state w) = Completed \<and> tn_target (rw_state w) = Some t
     \<and> (\<exists>st. rr_transition (rw_row w) = Some st \<and> tn_phase st = Completed \<and> tn_target st = Some t
          \<and> tn_operation_id st = tn_operation_id (rw_state w))"

lemma arrived_published: "arrived t w \<Longrightarrow> published (rw_state w) (rw_row w)"
  by (auto simp: arrived_def published_def core_def)

lemma arrived_cleanup:
  assumes "arrived t w" "cleanup C how w = (effects, returned, w')"
  shows "arrived t w'"
  using assms(1) cleanup_world [OF assms(2)] by (auto simp: arrived_def frame_def)

lemma arrived_after:
  assumes "arrived t w" "after_failure T C others threads e w = (effects, returned, w')"
  shows "arrived t w' \<and> rw_done w' = rw_done w \<and> frame w' = frame w \<and> (returned \<longrightarrow> rr_transition (rw_row w') = Some (rw_state w'))"
proof -
  obtain ok u where u: "handle_failure T e w = (ok, u)" by force
  have state: "handled_state e w = (rw_state w)\<lparr>tn_phase := Completed, tn_cleanup_error := exc_text e\<rparr>"
    using arrived_published [OF assms(1)] by (simp add: handled_state_def)
  have arrived: "arrived t u \<and> rw_done u = rw_done w \<and> frame u = frame w"
    using handled_world [OF u] assms(1) unfolding state by (auto simp: arrived_def frame_def)
  show ?thesis
  proof (cases ok)
    case True
    then have clean: "cleanup (cleanup_env_for C others threads u) (te_last T) u = (effects, returned, w')"
      using assms(2) u by (simp add: after_failure_def)
    then show ?thesis using arrived arrived_cleanup [OF _ clean] cleanup_world [OF clean] by auto
  next
    case False
    then show ?thesis using assms(2) u arrived by (simp add: after_failure_def)
  qed
qed

lemma after_asked:
  assumes "after_failure T C others threads e w = (effects, returned, w')"
  shows "rw_asked w' = rw_asked w"
proof -
  obtain ok u where u: "handle_failure T e w = (ok, u)" by force
  show ?thesis
    using assms u handled_world [OF u] by (cases ok) (auto simp: after_failure_def dest: cleanup_world(6))
qed

text \<open>A switch that was not published: its row is the old one, and its journal the last entry or the handler's.\<close>

lemma unpublished_after:
  assumes "\<not> (rw_activated w \<or> published (rw_state w) (rw_row w))" "after_failure T C others threads e w = (effects, returned, w')"
  obtains (given_up) "\<not> returned" "rr_transition (rw_row w') = rr_transition (rw_row w)" "core w' = core w" "rw_journal w' = rw_journal w"
      "effects = []" "rw_asked w' = rw_asked w" "rw_state w' \<in> {rw_state w, fail_state e (rw_state w)}"
    | (handled) u where "rw_state u = fail_state e (rw_state w)" "core u = core w" "rr_transition (rw_row u) = Some (rw_state u)"
      "rw_journal u = rw_journal w @ [tn_phase (fail_state e (rw_state w))]" "rw_asked u = rw_asked w"
      "effects = [] \<and> \<not> returned \<and> w' = u \<or> cleanup (cleanup_env_for C others threads u) (te_last T) u = (effects, returned, w')"
proof -
  obtain ok u where u: "handle_failure T e w = (ok, u)" by force
  have state: "handled_state e w = fail_state e (rw_state w)" using assms(1) by (simp add: handled_state_def)
  have run: "ok \<and> cleanup (cleanup_env_for C others threads u) (te_last T) u = (effects, returned, w')
      \<or> \<not> ok \<and> effects = [] \<and> \<not> returned \<and> w' = u"
    using assms(2) u by (cases ok) (auto simp: after_failure_def)
  from handled_world [OF u, unfolded state] show thesis
  proof (elim disjE conjE)
    assume "u = w" "\<not> ok"
    then show thesis using run given_up by auto
  next
    assume "rw_state u = fail_state e (rw_state w)" "core u = core w" "rr_transition (rw_row u) = Some (rw_state u)"
      "rw_journal u = rw_journal w @ [tn_phase (rw_state u)]" "rw_asked u = rw_asked w"
    then show thesis using run handled [of u] by auto
  next
    assume "rw_state u = fail_state e (rw_state w)" "core u = core w" "rw_row u = rw_row w" "rw_journal u = rw_journal w" "\<not> ok"
      "rw_asked u = rw_asked w"
    then show thesis using run given_up by auto
  qed
qed

lemma started:
  "rw_generation (start_world (start_state op' b recovery preview row pin revision) row) = rr_generation row"
  "core (start_world (start_state op' b recovery preview row pin revision) row) = (rr_execution row, rr_generation row, rr_status row)"
  "\<not> rw_activated (start_world (start_state op' b recovery preview row pin revision) row)"
  "rw_state (start_world (start_state op' b recovery preview row pin revision) row) = start_state op' b recovery preview row pin revision"
  "rr_generation (rw_row (start_world (start_state op' b recovery preview row pin revision) row)) = rr_generation row"
  by (simp_all add: start_world_def write_journal_def core_def)

section \<open>The journal, and atomicity\<close>

definition forward_phases :: "switch_phase list" where
  "forward_phases = [Saving, Provisioning, Restoring, Verifying, Activating]"

definition phase_step :: "switch_phase \<Rightarrow> switch_phase \<Rightarrow> bool" where
  "phase_step p q \<longleftrightarrow> p = q \<or> (p, q) \<in> set (zip forward_phases (tl forward_phases))"

text \<open>The machine: forward one phase at a time, failure from any of them, unknown only around the allocation.\<close>

definition phase_next :: "switch_phase \<Rightarrow> switch_phase \<Rightarrow> bool" where
  "phase_next p q \<longleftrightarrow> phase_step p q \<or> p = Activating \<and> q = Completed
     \<or> p \<in> set forward_phases \<and> q = Failed \<or> p \<in> {Saving, Provisioning} \<and> q = Allocation_unknown"

definition phase_path :: "switch_phase list \<Rightarrow> bool" where
  "phase_path js \<longleftrightarrow> js \<noteq> [] \<and> hd js = Saving \<and> successively phase_next js"

definition on_track :: "switch_phase \<Rightarrow> run_world \<Rightarrow> bool" where
  "on_track p w \<longleftrightarrow> p \<in> set forward_phases \<and> tn_phase (rw_state w) = p
     \<and> last (rw_journal w) = p \<and> phase_path (rw_journal w)"

definition off_track :: "run_world \<Rightarrow> bool" where
  "off_track w \<longleftrightarrow> last (rw_journal w) \<in> set forward_phases \<and> phase_path (rw_journal w)
     \<and> (tn_phase (rw_state w) = Provisioning \<longrightarrow> last (rw_journal w) \<in> {Saving, Provisioning})"

fun final_phase :: "switch_phase \<Rightarrow> run_action list \<Rightarrow> switch_phase option" where
  "final_phase p [] = Some p"
| "final_phase p (Enter q # as) = (if phase_step p q then final_phase q as else None)"
| "final_phase p (a # as) = final_phase p as"

lemma final_phase_other: "(\<And>q. a \<noteq> Enter q) \<Longrightarrow> final_phase p (a # as) = final_phase p as"
  by (cases a) auto

lemma forward_step: "p \<in> set forward_phases \<Longrightarrow> phase_step p q \<Longrightarrow> q \<in> set forward_phases"
  by (auto simp: phase_step_def forward_phases_def)

lemma on_off: "on_track p w \<Longrightarrow> off_track w"
  by (auto simp: on_track_def off_track_def)

lemma act_journal:
  "a \<noteq> Publish \<Longrightarrow> (\<And>q. a \<noteq> Enter q) \<Longrightarrow> act E a w = (r, w')
   \<Longrightarrow> tn_phase (rw_state w') = tn_phase (rw_state w)
     \<and> (rw_journal w' = rw_journal w \<or> rw_journal w' = rw_journal w @ [tn_phase (rw_state w)])"
  by (cases a) (auto simp: world_defs split: if_splits option.splits allocation.splits sum.splits)

lemma prepare_other: "a \<noteq> Publish \<Longrightarrow> (\<And>q. a \<noteq> Enter q) \<Longrightarrow> prepare a w = w"
  by (cases a) auto

lemma append_step: "phase_path js \<Longrightarrow> phase_next (last js) q \<Longrightarrow> phase_path (js @ [q])"
  by (simp add: phase_path_def successively_append_iff)

lemma perform_track:
  assumes "perform E n a w = (r, w')" "on_track p w" "a \<noteq> Publish" "final_phase p [a] = Some q"
  shows "if r = None then on_track q w' else off_track w'"
proof (cases "\<exists>q. a = Enter q")
  case True
  then obtain q' where a: "a = Enter q'" by blast
  then have q: "q' = q" "phase_step p q" using assms(4) by (auto split: if_splits)
  have off: "off_track (set_phase q w)"
    using assms(2) q(2) by (auto simp: on_track_def off_track_def set_phase_def phase_step_def forward_phases_def)
  have "phase_path (rw_journal w @ [q])"
    using assms(2) q(2) by (intro append_step) (auto simp: on_track_def phase_next_def)
  then have on: "on_track q (write_journal (set_phase q w))"
    using assms(2) q(2) forward_step [of p q]
    by (simp add: on_track_def set_phase_def write_journal_def)
  show ?thesis
    using assms(1) off on by (auto simp: perform_def a q Let_def on_track_def split: option.splits)
next
  case False
  then have other: "\<And>q. a \<noteq> Enter q" by blast
  have q: "q = p" using assms(4) final_phase_other [OF other, of p "[]"] by simp
  have keep: "on_track p v" if "act E a w = (s, v)" for s v
    using act_journal [OF assms(3) other that] assms(2)
    by (auto simp: on_track_def phase_next_def phase_step_def append_step)
  show ?thesis
    using assms(1)
  proof (cases rule: perform_cases)
    case refused
    then show ?thesis using on_off [OF assms(2)] prepare_other [OF assms(3) other] by simp
  next
    case (failed e)
    then show ?thesis using on_off [OF keep] prepare_other [OF assms(3) other] by simp
  next
    case (performed v)
    then show ?thesis using keep prepare_other [OF assms(3) other] by (simp add: q on_track_def)
  qed
qed

lemma run_track:
  "run_actions E n as w = (r, w') \<Longrightarrow> on_track p w \<Longrightarrow> Publish \<notin> set as \<Longrightarrow> final_phase p as = Some q
   \<Longrightarrow> if r = None then on_track q w' else off_track w'"
proof (induction as arbitrary: n w p)
  case (Cons a as)
  obtain s v where step: "perform E n a w = (s, v)" by fastforce
  have a: "a \<noteq> Publish" using Cons.prems(3) by auto
  obtain p' where p': "final_phase p [a] = Some p'" "final_phase p' as = Some q"
    using Cons.prems(4) by (cases a) (auto split: if_splits)
  note track = perform_track [OF step Cons.prems(2) a p'(1)]
  show ?case
  proof (cases s)
    case (Some e)
    then show ?thesis using Cons.prems(1) step track by auto
  next
    case None
    then show ?thesis using Cons.IH [of "n + 1" v p'] Cons.prems step track p' by simp
  qed
qed auto

lemma final_before_publish: "final_phase Saving (before_publish b) = Some Activating"
  by (simp add: before_publish_def save_actions_def local_actions_def prepare_cloud_def phase_step_def forward_phases_def)

lemma publish_journal:
  assumes "perform E n Publish w = (r, w')" "rw_generation w = rr_generation (rw_row w)" "on_track Activating w"
  shows "core w' = core w \<and> off_track w' \<or> switched w w' \<and> last (rw_journal w') = Completed
      \<and> phase_path (rw_journal w')"
proof -
  define v where "v = prepare Publish w"
  have v: "rw_journal v = rw_journal w" "tn_phase (rw_state v) = Completed" "core v = core w" "rw_generation v = rw_generation w"
    by (simp_all add: v_def complete_state_def Let_def core_def)
  have off: "off_track v" using v assms(3) by (auto simp: on_track_def off_track_def)
  have act: "u = v \<or> switched w u \<and> last (rw_journal u) = Completed \<and> phase_path (rw_journal u)"
    if "act E Publish v = (s, u)" for s u
  proof (cases "tn_target (rw_state v)")
    case (Some t)
    have path: "phase_path (rw_journal v @ [Completed])"
      using assms(3) v(1) by (intro append_step) (auto simp: on_track_def phase_next_def)
    show ?thesis
    proof (cases "publish_runtime t (rw_generation v + 1) (rw_state v) (rw_row v)")
      case (Inr row)
      then have "core u = (t, rw_generation v + 1, ''ready'')" "rw_state u = rw_state v" "rw_journal u = rw_journal v @ [Completed]"
        using that Some v(2) by (auto simp: publish_runtime_def core_def Let_def split: if_splits option.splits)
      then show ?thesis using path Some v(4) assms(2) by (auto simp: switched_def)
    qed (use that Some in auto)
  qed (use that in \<open>auto simp: run_error_def\<close>)
  show ?thesis
    using assms(1)
  proof (cases rule: perform_cases)
    case refused
    then show ?thesis using off v(3) by (simp add: v_def)
  next
    case (failed e)
    then show ?thesis using act [OF failed(2) [folded v_def]] off v(3) by auto
  next
    case (performed u)
    then show ?thesis using act [OF performed(2) [folded v_def]] off v(3)
      by (auto simp: switched_def core_def off_track_def)
  qed
qed

lemma run_journal:
  assumes run: "run_actions E 0 (switch_actions b) w0 = (r, w)" and g: "rw_generation w0 = rr_generation (rw_row w0)"
    and track: "on_track Saving w0"
  shows "core w = core w0 \<and> off_track w \<or> switched w0 w \<and> last (rw_journal w) = Completed
     \<and> phase_path (rw_journal w)"
proof -
  obtain s v where pre: "run_actions E 0 (before_publish b) w0 = (s, v)" by fastforce
  note keep = run_actions_keep [OF pre before_publish_actions(1) g]
  note on = run_track [OF pre track before_publish_actions(1) final_before_publish]
  show ?thesis
  proof (cases s)
    case (Some e)
    then have "w = v" using run pre by (simp add: switch_actions_split run_actions_append)
    then show ?thesis using keep on Some by simp
  next
    case None
    obtain p u where pub: "perform E (length (before_publish b)) Publish v = (p, u)" by fastforce
    have facts: "core u = core w0 \<and> off_track u \<or> switched w0 u \<and> last (rw_journal u) = Completed
       \<and> phase_path (rw_journal u)"
      using publish_journal [OF pub] keep on None by (auto simp: switched_def core_def)
    show ?thesis
    proof (cases p)
      case (Some e)
      then show ?thesis using run pre None pub facts by (simp add: switch_actions_split run_actions_append)
    next
      case p: None
      have "perform E (Suc (length (before_publish b))) Unpin u = (r, w)"
        using run pre None pub p by (simp add: switch_actions_split run_actions_append split: prod.splits option.splits)
      then have "rw_row w = rw_row u" "rw_state w = rw_state u" "rw_journal w = rw_journal u"
        by (auto simp: perform_def unpin_def Let_def split: option.splits if_splits)
      then show ?thesis using facts by (simp add: switched_def core_def off_track_def)
    qed
  qed
qed

lemma frame_done: "frame (w\<lparr>rw_done := d\<rparr>) = frame w"
  by (simp add: frame_def)

lemma perform_frame: "perform E n a w = (r, w') \<Longrightarrow> frame w' = frame w"
  by (erule perform_cases) (auto simp: prepare_facts frame_done dest: act_frame)

lemma run_frame: "run_actions E n as w = (r, w') \<Longrightarrow> frame w' = frame w"
proof (induction as arbitrary: n w)
  case (Cons a as)
  obtain s v where step: "perform E n a w = (s, v)" by fastforce
  then show ?case using Cons.IH [of "n + 1" v] Cons.prems perform_frame [OF step] by (cases s) auto
qed auto

text \<open>The stored journal is the last entry written.\<close>

definition journalled :: "run_world \<Rightarrow> bool" where
  "journalled w \<longleftrightarrow> (\<exists>st. rr_transition (rw_row w) = Some st \<and> tn_phase st = last (rw_journal w)
     \<and> tn_operation_id st = tn_operation_id (rw_state w) \<and> tn_target_backend st = tn_target_backend (rw_state w))"

lemma act_journalled: "act E a w = (r, w') \<Longrightarrow> journalled w \<Longrightarrow> journalled w'"
  by (cases a) (auto simp: journalled_def world_defs publish_runtime_def split: if_splits option.splits allocation.splits sum.splits)

lemma perform_journalled:
  assumes "perform E n a w = (r, w')" "journalled w"
  shows "journalled w'"
proof -
  have p: "journalled (prepare a w)"
    using assms(2) prepare_facts(1,6) [of a w] by (cases a) (auto simp: journalled_def frame_def set_phase_def)
  show ?thesis
    using assms(1)
  proof (cases rule: perform_cases)
    case (performed v)
    then show ?thesis using act_journalled [OF performed(2) p] by (simp add: journalled_def)
  qed (use p act_journalled in auto)
qed

lemma run_journalled: "run_actions E n as w = (r, w') \<Longrightarrow> journalled w \<Longrightarrow> journalled w'"
proof (induction as arbitrary: n w)
  case (Cons a as)
  obtain s v where p: "perform E n a w = (s, v)" by fastforce
  then show ?case using Cons.IH [of "n + 1" v] Cons.prems perform_journalled [OF p] by (cases s) auto
qed simp

text \<open>A switch from its start to the end of its actions.\<close>

lemma switch_run:
  assumes "run_actions E 0 (switch_actions b) (start_world (start_state operation b recovery preview row pin revision) row) = (r, v)"
  obtains (stopped) "r \<noteq> None" "core v = (rr_execution row, rr_generation row, rr_status row)"
      "\<not> (rw_activated v \<or> published (rw_state v) (rw_row v))" "off_track v" "journalled v"
    | (reached) t where "arrived t v" "set (before_publish b) \<subseteq> set (rw_done v)" "rr_transition (rw_row v) = Some (rw_state v)"
      "last (rw_journal v) = Completed" "phase_path (rw_journal v)"
proof -
  let ?w0 = "start_world (start_state operation b recovery preview row pin revision) row"
  have source: "tn_source_generation (rw_state ?w0) = rr_generation (rw_row ?w0)"
    unfolding started by (simp add: start_state_def)
  have track: "on_track Saving ?w0"
    by (simp add: on_track_def start_world_def write_journal_def start_state_def phase_path_def forward_phases_def)
  have "journalled ?w0" by (simp add: journalled_def start_world_def write_journal_def)
  note sync = run_journalled [OF assms this]
  have g: "rw_generation ?w0 = rr_generation (rw_row ?w0)" by (simp add: started)
  note journal = run_journal [OF assms g track]
  have differ: "\<not> (core v = core ?w0 \<and> switched ?w0 v)" by (auto simp: switched_def core_def)
  from run_outcome [OF assms g _ source] consider
      "r \<noteq> None" "core v = core ?w0" "\<not> rw_activated v" "\<not> published (rw_state v) (rw_row v)"
    | "switched ?w0 v" "tn_phase (rw_state v) = Completed" "rr_transition (rw_row v) = Some (rw_state v)"
      "set (before_publish b) \<subseteq> set (rw_done v)" "frame v = frame ?w0"
    by (auto simp: started)
  then show thesis
  proof cases
    case 1
    then show thesis using journal differ sync stopped started(2) by auto
  next
    case 2
    then obtain t where t: "tn_target (rw_state v) = Some t" "core v = (t, rr_generation row + 1, ''ready'')"
      by (auto simp: switched_def started(5))
    have "tn_source_generation (rw_state v) = rr_generation row"
      using 2(5) source by (simp add: frame_def started)
    then have "arrived t v" using t 2(2,3) by (simp add: arrived_def)
    then show thesis using 2(3,4) journal differ 2(1) reached [of t] by auto
  qed
qed

text \<open>
  C8: A switch is atomic. Whatever fails and wherever, also the handler's and the clean-up's own reads and writes,
  the workspace either still has its old runtime, generation and status, and its stored journal says anything but
  completed; or it has the new runtime under the next generation, published only after its files were
  verified (and, for a cloud provider, its sandbox was allocated and restored), and its stored journal says completed,
  also when the acknowledgement of the commit was lost. A switch that returned left the journal it ended
  with, in a final phase; one whose handler failed itself may leave an earlier entry, for the recovery after a restart.
\<close>

theorem switch_is_atomic:
  "case run_switch E T C others threads (start_world (start_state operation b recovery preview row pin revision) row) of
     (effects, returned, w) \<Rightarrow> \<exists>st. rr_transition (rw_row w) = Some st
     \<and> (tn_phase st \<noteq> Completed
          \<and> (rr_execution (rw_row w), rr_generation (rw_row w), rr_status (rw_row w)) = (rr_execution row, rr_generation row, rr_status row)
        \<or> tn_phase st = Completed \<and> tn_target st = Some (rr_execution (rw_row w))
          \<and> (rr_generation (rw_row w), rr_status (rw_row w)) = (rr_generation row + 1, ''ready'')
          \<and> Verify_files \<in> set (rw_done w) \<and> (b = local_backend \<or> {Allocate, Restore_files} \<subseteq> set (rw_done w)))
     \<and> (if returned then st = rw_state w \<and> tn_phase st \<in> {Completed, Failed, Allocation_unknown}
        else tn_phase st \<in> set forward_phases \<union> {Completed, Failed, Allocation_unknown})"
proof -
  let ?w0 = "start_world (start_state operation b recovery preview row pin revision) row"
  have b: "tn_target_backend (rw_state ?w0) = b" unfolding started by (simp add: start_state_def)
  obtain r v where run: "run_actions E 0 (switch_actions b) ?w0 = (r, v)" by fastforce
  obtain effects returned w where result: "run_switch E T C others threads ?w0 = (effects, returned, w)" by (metis prod_cases3)
  from run show ?thesis
  proof (cases rule: switch_run)
    case stopped
    then obtain e where e: "r = Some e" by auto
    then have after: "after_failure T C others threads e v = (effects, returned, w)"
      using result run by (simp add: run_switch_def b)
    have old: "\<exists>st. rr_transition (rw_row w) = Some st \<and> tn_phase st \<noteq> Completed \<and>
        (if returned then st = rw_state w \<and> tn_phase st \<in> {Failed, Allocation_unknown}
         else tn_phase st \<in> set forward_phases \<union> {Failed, Allocation_unknown})" "core w = core v"
      using stopped(3) after
    proof (atomize (full), cases rule: unpublished_after)
      case given_up
      obtain st where st: "rr_transition (rw_row v) = Some st" "tn_phase st \<in> set forward_phases"
        using stopped(4,5) by (auto simp: journalled_def off_track_def)
      then have "tn_phase st \<noteq> Completed" by (auto simp: forward_phases_def)
      then show "(\<exists>st. rr_transition (rw_row w) = Some st \<and> tn_phase st \<noteq> Completed \<and>
        (if returned then st = rw_state w \<and> tn_phase st \<in> {Failed, Allocation_unknown}
         else tn_phase st \<in> set forward_phases \<union> {Failed, Allocation_unknown})) \<and> core w = core v"
        using given_up st by simp
    next
      case (handled u)
      have phase: "tn_phase (rw_state u) \<in> {Failed, Allocation_unknown}" by (simp add: handled(1) fail_state_facts)
      from handled(6) have "core w = core u \<and> tn_phase (rw_state w) = tn_phase (rw_state u)
          \<and> (rr_transition (rw_row w) = Some (rw_state w) \<or> rr_transition (rw_row w) = rr_transition (rw_row u) \<and> \<not> returned)"
        by (auto dest: cleanup_world(1,3,7))
      then show "(\<exists>st. rr_transition (rw_row w) = Some st \<and> tn_phase st \<noteq> Completed \<and>
        (if returned then st = rw_state w \<and> tn_phase st \<in> {Failed, Allocation_unknown}
         else tn_phase st \<in> set forward_phases \<union> {Failed, Allocation_unknown})) \<and> core w = core v"
        using handled(2,3) phase by auto
    qed
    then show ?thesis using stopped(2) unfolding result prod.case core_def by (auto split: if_splits)
  next
    case (reached t)
    have all: "Verify_files \<in> set (rw_done v)" "b = local_backend \<or> {Allocate, Restore_files} \<subseteq> set (rw_done v)"
      using reached(2) before_publish_actions(2,3) [of b] by auto
    have "frame v = frame ?w0" by (rule run_frame [OF run])
    then have source: "tn_source_generation (rw_state v) = rr_generation row"
      by (simp add: frame_def started(4)) (simp add: start_state_def)
    have "arrived t w \<and> rw_done w = rw_done v \<and> frame w = frame v \<and> (returned \<longrightarrow> rr_transition (rw_row w) = Some (rw_state w))"
    proof (cases r)
      case (Some e)
      then show ?thesis using result run arrived_after [OF reached(1)] by (simp add: run_switch_def b)
    next
      case None
      obtain xs ok u where clean: "cleanup (cleanup_env_for C others threads v) (te_cleanup T) v = (xs, ok, u)" by (metis prod_cases3)
      note u = arrived_cleanup [OF reached(1) clean] cleanup_world(2,5,7) [OF clean]
      show ?thesis
      proof (cases ok)
        case True
        then show ?thesis using result run None clean u by (auto simp: run_switch_def b)
      next
        case False
        obtain ys later x where after: "after_failure T C others threads (te_raised T) u = (ys, later, x)" by (metis prod_cases3)
        then show ?thesis using False result run None clean u arrived_after [OF u(1) after] by (auto simp: run_switch_def b)
      qed
    qed
    then show ?thesis
      using all source unfolding result prod.case arrived_def core_def frame_def by (auto split: if_splits)
  qed
qed

section \<open>Clean-up\<close>

lemma cleanup_loop_cases:
  "cleanup_loop E items = (kept, errors, effects) \<Longrightarrow>
     set kept \<subseteq> set items
     \<and> (\<forall>item \<in> set items. item \<in> set kept \<or> cleanup_item_effect E item = Inr None
          \<or> (\<exists>x \<in> set effects. cleanup_item_effect E item = Inr (Some x)))
     \<and> (\<forall>x \<in> set effects. \<exists>item \<in> set items. \<not> ue_owned E (ci_ref item) \<and> cleanup_item_effect E item = Inr (Some x))"
proof (induction E items arbitrary: kept errors effects rule: cleanup_loop.induct)
  case (2 E i items)
  obtain k es xs where rest: "cleanup_loop E items = (k, es, xs)" by (metis prod_cases3)
  note IH = "2.IH" [OF rest]
  show ?case
  proof (cases "ue_owned E (ci_ref i)")
    case True
    then show ?thesis using IH "2.prems" rest by auto
  next
    case False
    then show ?thesis using IH "2.prems" rest
      by (cases "cleanup_item_effect E i") (auto split: option.splits)
  qed
qed auto

lemma effect_local:
  "cleanup_item_effect E item = Inr (Some (Removed_directory path)) \<Longrightarrow>
     wr_backend (ci_ref item) = local_backend \<and> path = ue_expected E (ci_operation_id item) \<and> ue_inside E path
     \<and> \<not> ue_symlink E (wr_locator (ci_ref item)) \<and> \<not> ue_adopted E path"
  by (auto simp: cleanup_item_effect_def Let_def split: if_splits)

lemma effect_cloud:
  "cleanup_item_effect E item = Inr (Some (Called_loader l ref)) \<Longrightarrow> ref = ci_ref item \<and> wr_backend ref \<noteq> local_backend"
  by (auto simp: cleanup_item_effect_def Let_def split: if_splits)

text \<open>What a clean-up may do: nothing to a directory but remove a managed one, nothing to a sandbox in use.\<close>

definition spares :: "cleanup_env \<Rightarrow> run_world \<Rightarrow> cleanup_effect \<Rightarrow> bool" where
  "spares E w x \<longleftrightarrow> (case x of
      Removed_directory path \<Rightarrow> path \<in> range (ue_expected E) \<and> ue_inside E path \<and> \<not> ue_adopted E path
    | Called_loader l ref \<Rightarrow> rr_status (rw_row w) \<in> {''destroyed'', ''retired''}
        \<or> (wr_backend ref, wr_locator ref) \<noteq> (wr_backend (rr_execution (rw_row w)), wr_locator (rr_execution (rw_row w))))"

text \<open>
  The clean-up of a switch, whatever its journal holds, removes no directory but the one its own
  operation made under the runtime root, and never stops or deletes the sandbox that is the workspace's
  current runtime, unless that one is destroyed or retired.
\<close>

theorem cleanup_spares_runtime:
  "set (fst (cleanup (cleanup_env_for E others threads w) how w)) \<subseteq> {x. spares E w x}"
proof
  fix x
  let ?E = "cleanup_env_for E others threads w"
  assume x: "x \<in> set (fst (cleanup ?E how w))"
  define items where "items = (case fst how of None \<Rightarrow> tn_cleanup (rw_state w) | Some k \<Rightarrow> take k (tn_cleanup (rw_state w)))"
  obtain kept errors effects where loop: "cleanup_loop ?E items = (kept, errors, effects)" by (metis prod_cases3)
  then have "x \<in> set effects" using x by (auto simp: cleanup_def items_def split: option.splits)
  then obtain item where item: "\<not> ue_owned ?E (ci_ref item)" "cleanup_item_effect ?E item = Inr (Some x)"
    using cleanup_loop_cases [OF loop] by auto
  show "x \<in> {x. spares E w x}"
  proof (cases x)
    case (Removed_directory path)
    then show ?thesis
      using effect_local [of ?E item path] item(2) by (auto simp: spares_def cleanup_env_for_def)
  next
    case (Called_loader l ref)
    then show ?thesis
      using effect_cloud [of ?E item l ref] item by (auto simp: spares_def cleanup_env_for_def runtime_is_owned_def)
  qed
qed

section \<open>No sandbox is lost\<close>

definition same_sandbox :: "workspace_ref \<Rightarrow> workspace_ref \<Rightarrow> bool" where
  "same_sandbox a b \<longleftrightarrow> wr_backend a = wr_backend b \<and> wr_locator a = wr_locator b"

text \<open>What the journal in memory knows once the provider was asked.\<close>

definition recorded :: "run_env \<Rightarrow> run_world \<Rightarrow> bool" where
  "recorded E w \<longleftrightarrow> (case re_allocation E of
      Not_allocated raised \<Rightarrow> True
    | Allocated ref raised \<Rightarrow> (\<exists>t. tn_target (rw_state w) = Some t \<and> same_sandbox t ref)
    | Allocated_silently ref \<Rightarrow> (\<exists>t. tn_target (rw_state w) = Some t \<and> same_sandbox t ref))"

lemma final_target_sandbox [simp]:
  "wr_backend (final_target l s t) = wr_backend t" "wr_locator (final_target l s t) = wr_locator t"
  by (simp_all add: final_target_def merge_metadata_def Let_def)

lemma act_recorded:
  assumes "act E a w = (r, w')" "a \<noteq> Choose_local" "rw_asked w \<Longrightarrow> recorded E w"
  shows "rw_asked w' \<Longrightarrow> recorded E w'"
  using assms
  by (cases a) (auto simp: recorded_def world_defs same_sandbox_def
      split: if_splits option.splits allocation.splits sum.splits)

definition ask_actions :: "run_action list" where
  "ask_actions = save_actions @ [Enter Provisioning]"

definition after_ask :: "run_action list" where
  "after_ask = [Enter Restoring, Restore_files, Enter Verifying, Verify_files] @ activate_actions"

lemma cloud_actions: "b \<noteq> local_backend \<Longrightarrow> switch_actions b = ask_actions @ Allocate # after_ask"
  by (simp add: switch_actions_def ask_actions_def after_ask_def prepare_cloud_def)

lemma act_unasked:
  assumes "act E a w = (r, w')" "a \<notin> {Allocate, Choose_local, Merge_target}"
  shows "rw_asked w' = rw_asked w" "tn_target (rw_state w') = tn_target (rw_state w)"
  using assms by (cases a; auto simp: world_defs split: if_splits option.splits sum.splits)+

lemma prepare_target [simp]:
  "tn_target (rw_state (prepare a w)) = tn_target (rw_state w)" "rw_asked (prepare a w) = rw_asked w"
  by (cases a; simp add: complete_state_def set_phase_def Let_def)+

lemma perform_unasked:
  assumes "perform E n a w = (r, w')" "a \<notin> {Allocate, Choose_local, Merge_target}"
  shows "rw_asked w' = rw_asked w \<and> tn_target (rw_state w') = tn_target (rw_state w)"
  using assms(1) by (cases rule: perform_cases) (use assms(2) act_unasked in \<open>auto dest: act_unasked\<close>)

lemma run_unasked:
  "run_actions E n as w = (r, w') \<Longrightarrow> set as \<inter> {Allocate, Choose_local, Merge_target} = {}
   \<Longrightarrow> rw_asked w' = rw_asked w \<and> tn_target (rw_state w') = tn_target (rw_state w)"
proof (induction as arbitrary: n w)
  case (Cons a as)
  obtain s v where step: "perform E n a w = (s, v)" by fastforce
  have a: "a \<notin> {Allocate, Choose_local, Merge_target}" using Cons.prems(2) by auto
  then show ?case
    using Cons.IH [of "n + 1" v] Cons.prems step perform_unasked [OF step a] by (cases s) auto
qed auto

lemma recorded_done: "recorded E (w\<lparr>rw_done := d\<rparr>) = recorded E w"
  by (cases "re_allocation E") (simp_all add: recorded_def)

lemma perform_recorded:
  assumes "perform E n a w = (r, w')" "a \<noteq> Choose_local" "rw_asked w \<Longrightarrow> recorded E w" "rw_asked w'"
  shows "recorded E w'"
proof -
  have prep: "recorded E (prepare a w) = recorded E w" by (simp only: recorded_def prepare_target)
  show ?thesis
    using assms(1)
  proof (cases rule: perform_cases)
    case refused
    then show ?thesis using assms prep by auto
  next
    case (failed e)
    then show ?thesis using act_recorded [OF failed(2) assms(2)] assms prep by auto
  next
    case (performed v)
    then show ?thesis using act_recorded [OF performed(2) assms(2)] assms prep by (auto simp: recorded_done)
  qed
qed

lemma run_recorded:
  "run_actions E n as w = (r, w') \<Longrightarrow> Choose_local \<notin> set as \<Longrightarrow> (rw_asked w \<Longrightarrow> recorded E w)
   \<Longrightarrow> rw_asked w' \<Longrightarrow> recorded E w'"
proof (induction as arbitrary: n w)
  case (Cons a as)
  obtain s v where step: "perform E n a w = (s, v)" by fastforce
  have a: "a \<noteq> Choose_local" using Cons.prems(2) by auto
  note rec = perform_recorded [OF step a Cons.prems(3)]
  show ?case
    using Cons.IH [of "n + 1" v] Cons.prems step rec by (cases s) auto
qed auto

lemma perform_allocate:
  assumes "perform E n Allocate w = (r, w')" "re_allocation E = Not_allocated raised" "\<not> rw_asked w"
  shows "\<not> rw_asked w' \<and> r \<noteq> None
    \<or> r = Some (allocation_exc raised) \<and> rw_state w' = rw_state w \<and> rw_row w' = rw_row w \<and> rw_activated w' = rw_activated w"
  using assms(1) by (cases rule: perform_cases) (use assms(2,3) in \<open>auto simp: allocate_def Let_def\<close>)

text \<open>The provider gave no sandbox: the switch stops there, still provisioning.\<close>

lemma run_without_sandbox:
  assumes run: "run_actions E 0 (switch_actions b) w0 = (r, w)" "b \<noteq> local_backend" "on_track Saving w0"
    and start: "\<not> rw_asked w0" "tn_target (rw_state w0) = None"
    and none: "re_allocation E = Not_allocated raised" and asked: "rw_asked w"
  shows "r = Some (allocation_exc raised) \<and> tn_phase (rw_state w) = Provisioning \<and> tn_target (rw_state w) = None"
proof -
  obtain s v where pre: "run_actions E 0 ask_actions w0 = (s, v)" by fastforce
  have "set ask_actions \<inter> {Allocate, Choose_local, Merge_target} = {}" "Publish \<notin> set ask_actions"
    "final_phase Saving ask_actions = Some Provisioning"
    by (simp_all add: ask_actions_def save_actions_def phase_step_def forward_phases_def)
  note facts = run_unasked [OF pre this(1)] run_track [OF pre run(3) this(2,3)]
  have s: "s = None" using run(1) pre facts start asked by (cases s) (auto simp: cloud_actions [OF run(2)] run_actions_append)
  obtain p u where al: "perform E (length ask_actions) Allocate v = (p, u)" by fastforce
  have "\<not> rw_asked v" using facts start by simp
  note al' = perform_allocate [OF al none this]
  then have "r = p" "w = u"
    using run(1) pre s al by (auto simp: cloud_actions [OF run(2)] run_actions_append)
  then show ?thesis using al' asked facts s start by (auto simp: on_track_def)
qed

text \<open>The allocations whose outcome recovery has to ask for.\<close>

definition doubtful :: "switch_state \<Rightarrow> bool" where
  "doubtful st \<longleftrightarrow> tn_target_backend st \<noteq> local_backend
     \<and> (tn_phase st = Allocation_unknown \<or> tn_phase st = Provisioning \<and> tn_target st = None)"

definition restarted :: "switch_state \<Rightarrow> switch_state" where
  "restarted st = schedule_delete (st\<lparr>tn_phase := Failed,
     tn_error := ''The application restarted before the switch completed. The source runtime is unchanged.''\<rparr>)"

definition left_unknown :: "switch_state \<Rightarrow> switch_state" where
  "left_unknown st = st\<lparr>tn_phase := Allocation_unknown,
     tn_error := ''Allocation outcome is unknown. Reconcile provider inventory before retrying.''\<rparr>"

lemma recover_cases:
  "recover_state found st =
     (if doubtful st then (case found of None \<Rightarrow> left_unknown st | Some t \<Rightarrow> restarted (st\<lparr>tn_target := Some t, tn_phase := Restoring\<rparr>))
      else if tn_phase st \<in> {Completed, Failed} then st else restarted st)"
proof -
  have active: "p \<in> set ACTIVE_PHASES \<longleftrightarrow> p \<notin> {Completed, Failed}" for p
    by (cases p) (simp_all add: ACTIVE_PHASES_def)
  show ?thesis
    unfolding recover_state_def doubtful_def [symmetric] Let_def active
    by (cases found) (simp_all add: restarted_def left_unknown_def)
qed

lemma settled_facts [simp]:
  "tn_phase (restarted st) = Failed" "tn_phase (left_unknown st) = Allocation_unknown"
  "tn_target_backend (restarted st) = tn_target_backend st" "tn_operation_id (restarted st) = tn_operation_id st"
  "tn_target_backend (left_unknown st) = tn_target_backend st" "tn_operation_id (left_unknown st) = tn_operation_id st"
  by (simp_all add: restarted_def left_unknown_def schedule_delete_def split: option.split)

lemma restarted_deletes: "tn_target st = Some t \<Longrightarrow> wr_backend t \<noteq> local_backend \<Longrightarrow>
    delete_item (restarted st) t \<in> set (tn_cleanup (restarted st))"
  by (simp add: restarted_def schedule_delete_def delete_item_def)

text \<open>A sandbox of which a journal says that it is to be deleted, or which was handed to its provider.\<close>

definition to_delete :: "switch_state \<Rightarrow> workspace_ref \<Rightarrow> bool" where
  "to_delete st ref = list_ex (\<lambda>i. ci_action i = Delete \<and> same_sandbox (ci_ref i) ref) (tn_cleanup st)"

definition handed_over :: "cleanup_effect list \<Rightarrow> workspace_ref \<Rightarrow> bool" where
  "handed_over effects ref = list_ex (\<lambda>x. case x of Called_loader l t \<Rightarrow> same_sandbox t ref | _ \<Rightarrow> False) effects"

text \<open>
  What the recovery after a restart makes of a journal that an interrupted switch left: it asks the provider for the
  operation's sandbox, finding it or not, and has it deleted, or keeps the allocation as unknown.
\<close>

definition recovery_sees :: "switch_state \<Rightarrow> workspace_ref \<Rightarrow> bool" where
  "recovery_sees st ref = (\<forall>found \<in> {None, Some ref}.
     to_delete (recover_state found st) ref \<or> tn_phase (recover_state found st) = Allocation_unknown \<and> found = None)"

text \<open>Where a sandbox the provider may have made ends up, by the stored journal.\<close>

definition kept_track :: "bool \<Rightarrow> cleanup_effect list \<Rightarrow> runtime_row \<Rightarrow> switch_state \<Rightarrow> workspace_ref \<Rightarrow> bool" where
  "kept_track returned effects row st ref =
     (if tn_phase st = Completed then same_sandbox (rr_execution row) ref
      else to_delete st ref \<or> handed_over effects ref \<or> \<not> returned \<and> recovery_sees st ref)"

definition accounted :: "run_env \<Rightarrow> bool \<Rightarrow> cleanup_effect list \<Rightarrow> runtime_row \<Rightarrow> bool" where
  "accounted E returned effects row =
     (case rr_transition row of
        None \<Rightarrow> False
      | Some st \<Rightarrow>
          (case re_allocation E of
             Not_allocated raised \<Rightarrow> tn_phase st = Allocation_unknown
               \<or> tn_phase st = Failed \<and> (case raised of None \<Rightarrow> False | Some e \<Rightarrow> \<not> allocation_uncertain e)
               \<or> \<not> returned \<and> tn_phase (recover_state None st) = Allocation_unknown
           | Allocated ref raised \<Rightarrow> kept_track returned effects row st ref
           | Allocated_silently ref \<Rightarrow> kept_track returned effects row st ref))"

definition cloud_allocation :: "allocation \<Rightarrow> bool" where
  "cloud_allocation a = (case a of Not_allocated raised \<Rightarrow> True | Allocated ref raised \<Rightarrow> wr_backend ref \<noteq> local_backend
      | Allocated_silently ref \<Rightarrow> wr_backend ref \<noteq> local_backend)"

lemma cleanup_disposes:
  assumes clean: "cleanup C how u = (effects, returned, w)" and stored: "rr_transition (rw_row u) = Some (rw_state u)"
    and item: "item \<in> set (tn_cleanup (rw_state u))" "ci_action item = Delete"
    "same_sandbox (ci_ref item) ref" "wr_backend ref \<noteq> local_backend"
  shows "\<exists>st. rr_transition (rw_row w) = Some st \<and> (to_delete st ref \<or> handed_over effects ref)"
proof -
  have here: "to_delete (rw_state u) ref" using item by (auto simp: to_delete_def list_ex_iff)
  show ?thesis
  proof (cases "rr_transition (rw_row w) = rr_transition (rw_row u)")
    case False
    obtain kept errors xs where loop: "cleanup_loop C (tn_cleanup (rw_state u)) = (kept, errors, xs)" by (metis prod_cases3)
    let ?v = "u\<lparr>rw_state := (rw_state u)\<lparr>tn_cleanup := kept, tn_cleanup_error := join_str ''; '' errors\<rparr>\<rparr>"
    have "fst how = None" using clean False by (cases "fst how") (auto simp: cleanup_def split: prod.splits)
    then have "await (snd how) write_journal ?v = (returned, w)" "effects = xs"
      using clean loop by (auto simp: cleanup_def split: prod.splits)
    then have w: "w = write_journal ?v" "effects = xs" using False by (auto elim!: await_cases)
    have cloud: "wr_backend (ci_ref item) \<noteq> local_backend" using item by (simp add: same_sandbox_def)
    have "cleanup_item_effect C item \<noteq> Inr None"
      using cloud by (auto simp: cleanup_item_effect_def Let_def)
    with cleanup_loop_cases [OF loop] item(1) consider
      "item \<in> set kept" | x where "x \<in> set xs" "cleanup_item_effect C item = Inr (Some x)"
      by blast
    then show ?thesis
    proof cases
      case 1
      then show ?thesis using item by (auto simp: to_delete_def w write_journal_def list_ex_iff)
    next
      case 2
      then obtain l t where x: "x = Called_loader l t"
        using cloud by (auto simp: cleanup_item_effect_def Let_def split: if_splits)
      then have "t = ci_ref item" using effect_cloud 2 by blast
      then have "handed_over xs ref"
        using 2(1) item(3) unfolding x handed_over_def list_ex_iff by (intro bexI [of _ "Called_loader l t"]) simp_all
      then show ?thesis by (simp add: w write_journal_def)
    qed
  qed (use here stored in simp)
qed

text \<open>The stored journal of an unfinished switch knows of its sandbox, or is still where recovery asks for it.\<close>

definition sandbox_of :: "run_env \<Rightarrow> workspace_ref \<Rightarrow> bool" where
  "sandbox_of E t = (case re_allocation E of
      Not_allocated raised \<Rightarrow> False
    | Allocated ref raised \<Rightarrow> same_sandbox t ref
    | Allocated_silently ref \<Rightarrow> same_sandbox t ref)"

definition stored_target :: "run_world \<Rightarrow> workspace_ref option \<Rightarrow> bool" where
  "stored_target w t \<longleftrightarrow> (\<exists>st. rr_transition (rw_row w) = Some st \<and> tn_target st = t)"

lemma perform_untargeted:
  assumes "perform E n a w = (r, w')" "a \<notin> {Allocate, Choose_local, Merge_target, Publish}"
    and "tn_target (rw_state w) = None" "stored_target w None"
  shows "stored_target w' None"
  using assms(1)
  by (cases rule: perform_cases)
    (use assms(2-4) in \<open>cases a; auto simp: stored_target_def world_defs split: if_splits option.splits sum.splits\<close>)+

lemma run_untargeted:
  "run_actions E n as w = (r, w') \<Longrightarrow> set as \<inter> {Allocate, Choose_local, Merge_target, Publish} = {} \<Longrightarrow>
     tn_target (rw_state w) = None \<Longrightarrow> stored_target w None \<Longrightarrow> stored_target w' None"
proof (induction as arbitrary: n w)
  case (Cons a as)
  obtain s v where step: "perform E n a w = (s, v)" by fastforce
  have a: "a \<notin> {Allocate, Choose_local, Merge_target, Publish}" using Cons.prems(2) by auto
  then have "tn_target (rw_state v) = None \<and> stored_target v None"
    using perform_unasked [OF step] perform_untargeted [OF step a Cons.prems(3,4)] Cons.prems(3) by auto
  then show ?case using Cons.IH [of "n + 1" v] Cons.prems step by (cases s) auto
qed auto

definition held :: "run_env \<Rightarrow> run_world \<Rightarrow> bool" where
  "held E w \<longleftrightarrow> (\<exists>t. tn_target (rw_state w) = Some t \<and> sandbox_of E t) \<and> (\<exists>t. stored_target w (Some t) \<and> sandbox_of E t)"

lemma sandbox_final: "sandbox_of E (final_target l s t) = sandbox_of E t"
  by (simp add: sandbox_of_def same_sandbox_def split: allocation.split)

lemma perform_held:
  assumes "perform E n a w = (r, w')" "a \<notin> {Allocate, Choose_local}" "held E w"
  shows "held E w'"
proof -
  have p: "held E (prepare a w)"
    using assms(3) prepare_facts(6) [of a w] by (simp add: held_def stored_target_def)
  have act: "held E v" if "act E a (prepare a w) = (s, v)" for s v
    using that p assms(2)
    by (cases a) (auto simp: held_def stored_target_def sandbox_final world_defs publish_runtime_def
        split: if_splits option.splits sum.splits)
  show ?thesis
    using assms(1)
  proof (cases rule: perform_cases)
    case (performed v)
    then show ?thesis using act [OF performed(2)] by (simp add: held_def stored_target_def)
  qed (use p act in auto)
qed

lemma run_held:
  "run_actions E n as w = (r, w') \<Longrightarrow> set as \<inter> {Allocate, Choose_local} = {} \<Longrightarrow> held E w \<Longrightarrow> held E w'"
proof (induction as arbitrary: n w)
  case (Cons a as)
  obtain s v where step: "perform E n a w = (s, v)" by fastforce
  then have "held E v" using perform_held [OF step _ Cons.prems(3)] Cons.prems(2) by auto
  then show ?case using Cons.IH [of "n + 1" v] Cons.prems step by (cases s) auto
qed auto

lemma perform_asks:
  assumes "perform E n Allocate w = (r, w')" "\<not> rw_asked w" "stored_target w None"
  shows "rw_asked w' \<Longrightarrow> stored_target w' None \<and> r \<noteq> None \<and> rw_journal w' = rw_journal w \<or> held E w'"
  using assms(1)
proof (cases rule: perform_cases)
  case refused
  then show "rw_asked w' \<Longrightarrow> ?thesis" using assms(2) by simp
next
  case (failed e)
  then show ?thesis
    using assms(3)
    by (auto simp: held_def stored_target_def sandbox_of_def same_sandbox_def world_defs split: allocation.splits option.splits)
next
  case (performed v)
  then show ?thesis
    using assms(3)
    by (auto simp: held_def stored_target_def sandbox_of_def same_sandbox_def world_defs split: allocation.splits option.splits)
qed

lemma run_traced:
  assumes run: "run_actions E 0 (switch_actions b) w0 = (r, w)" "b \<noteq> local_backend" "on_track Saving w0"
    and start: "\<not> rw_asked w0" "tn_target (rw_state w0) = None" "stored_target w0 None" and asked: "rw_asked w"
  shows "stored_target w None \<and> last (rw_journal w) = Provisioning \<or> held E w"
proof -
  obtain s v where pre: "run_actions E 0 ask_actions w0 = (s, v)" by fastforce
  have "set ask_actions \<inter> {Allocate, Choose_local, Merge_target} = {}"
    "set ask_actions \<inter> {Allocate, Choose_local, Merge_target, Publish} = {}" "Publish \<notin> set ask_actions"
    "final_phase Saving ask_actions = Some Provisioning"
    by (simp_all add: ask_actions_def save_actions_def phase_step_def forward_phases_def)
  note facts = run_unasked [OF pre this(1)] run_untargeted [OF pre this(2) start(2,3)] run_track [OF pre run(3) this(3,4)]
  have s: "s = None" using run(1) pre facts start asked by (cases s) (auto simp: cloud_actions [OF run(2)] run_actions_append)
  obtain p u where al: "perform E (length ask_actions) Allocate v = (p, u)" by fastforce
  have v: "\<not> rw_asked v" "last (rw_journal v) = Provisioning" using facts start s by (auto simp: on_track_def)
  show ?thesis
  proof (cases p)
    case (Some e)
    then have "w = u" using run(1) pre s al by (simp add: cloud_actions [OF run(2)] run_actions_append)
    then show ?thesis using perform_asks [OF al v(1) facts(2)] asked v(2) by auto
  next
    case None
    then have rest: "run_actions E (length ask_actions + 1) after_ask u = (r, w)"
      using run(1) pre s al by (simp add: cloud_actions [OF run(2)] run_actions_append)
    have "rw_asked u" using al None by (auto simp: perform_def world_defs split: option.splits allocation.splits prod.splits if_splits)
    then have "held E u" using perform_asks [OF al v(1) facts(2)] None by auto
    moreover have "set after_ask \<inter> {Allocate, Choose_local} = {}" by (simp add: after_ask_def activate_actions_def)
    ultimately show ?thesis using run_held [OF rest] by blast
  qed
qed

lemma recovery_finds:
  assumes "wr_backend ref \<noteq> local_backend" "tn_target_backend st \<noteq> local_backend" "tn_phase st \<in> set forward_phases"
    and "tn_target st = None \<and> tn_phase st = Provisioning \<or> (\<exists>t. tn_target st = Some t \<and> same_sandbox t ref)"
  shows "recovery_sees st ref"
  using assms(4)
proof
  assume none: "tn_target st = None \<and> tn_phase st = Provisioning"
  then have "doubtful st" using assms(2) by (simp add: doubtful_def)
  moreover have "to_delete (restarted (st\<lparr>tn_target := Some ref, tn_phase := Restoring\<rparr>)) ref"
    using restarted_deletes [of "st\<lparr>tn_target := Some ref, tn_phase := Restoring\<rparr>" ref] assms(1)
    by (auto simp: to_delete_def list_ex_iff delete_item_def same_sandbox_def intro!: bexI)
  ultimately show ?thesis by (simp add: recovery_sees_def recover_cases)
next
  assume "\<exists>t. tn_target st = Some t \<and> same_sandbox t ref"
  then obtain t where t: "tn_target st = Some t" "same_sandbox t ref" by blast
  then have "\<not> doubtful st" "tn_phase st \<notin> {Completed, Failed}" using assms(3) by (auto simp: doubtful_def forward_phases_def)
  moreover have "to_delete (restarted st) ref"
    using restarted_deletes [OF t(1)] t(2) assms(1)
    by (auto simp: to_delete_def list_ex_iff delete_item_def same_sandbox_def intro!: bexI)
  ultimately show ?thesis by (simp add: recovery_sees_def recover_cases)
qed

text \<open>A switch that was not published, after its handler.\<close>

lemma failed_accounted:
  assumes v: "\<not> (rw_activated v \<or> published (rw_state v) (rw_row v))" "off_track v" "journalled v"
    and after: "after_failure T C others threads e v = (effects, returned, w)"
    and backend: "tn_target_backend (rw_state v) \<noteq> local_backend" "wr_backend ref \<noteq> local_backend"
    and target: "\<exists>t. tn_target (rw_state v) = Some t \<and> same_sandbox t ref"
    and stored: "stored_target v None \<and> last (rw_journal v) = Provisioning \<or> (\<exists>t. stored_target v (Some t) \<and> same_sandbox t ref)"
  shows "\<exists>st. rr_transition (rw_row w) = Some st \<and> kept_track returned effects (rw_row w) st ref"
  using v(1) after
proof (cases rule: unpublished_after)
  case given_up
  obtain st where st: "rr_transition (rw_row v) = Some st" "tn_phase st = last (rw_journal v)" "tn_target_backend st \<noteq> local_backend"
    using v(3) backend by (auto simp: journalled_def)
  moreover have "last (rw_journal v) \<in> set forward_phases" using v(2) by (simp add: off_track_def)
  moreover have "tn_target st = None \<and> tn_phase st = Provisioning \<or> (\<exists>t. tn_target st = Some t \<and> same_sandbox t ref)"
    using stored st by (auto simp: stored_target_def)
  ultimately have "recovery_sees st ref" "tn_phase st \<noteq> Completed"
    using recovery_finds [OF backend(2)] by (auto simp: forward_phases_def)
  then show ?thesis using given_up st by (simp add: kept_track_def)
next
  case (handled u)
  obtain t where t: "tn_target (rw_state v) = Some t" "same_sandbox t ref" using target by blast
  have item: "delete_item (rw_state v) t \<in> set (tn_cleanup (rw_state u))"
    using t backend(2) by (auto simp: handled(1) fail_state_def schedule_delete_def delete_item_def same_sandbox_def)
  have phase: "tn_phase (rw_state u) \<noteq> Completed" by (simp add: handled(1) fail_state_facts)
  from handled(6) show ?thesis
  proof
    assume "effects = [] \<and> \<not> returned \<and> w = u"
    then show ?thesis
      using handled(3) item t(2) phase by (auto simp: kept_track_def to_delete_def list_ex_iff delete_item_def intro!: bexI)
  next
    assume clean: "cleanup (cleanup_env_for C others threads u) (te_last T) u = (effects, returned, w)"
    obtain st where st: "rr_transition (rw_row w) = Some st" "to_delete st ref \<or> handed_over effects ref"
      using cleanup_disposes [OF clean handled(3) item _ _ backend(2)] t(2) by (auto simp: delete_item_def)
    have "tn_phase st \<noteq> Completed" using cleanup_world(3,7) [OF clean] handled(3) st(1) phase by auto
    then show ?thesis using st by (auto simp: kept_track_def)
  qed
qed

text \<open>
  C9: No sandbox is lost, whatever fails after the provider was asked for one, also the handler's and the clean-up's
  own reads and writes. If the sandbox is there, it is the published runtime, or it was handed to the
  provider's removal, or the stored journal says that it is to be deleted; only if the handler itself failed may the
  stored journal be an earlier one, and then the recovery after a restart has the sandbox deleted or keeps
  its allocation as unknown. If the provider failed, the switch ends failed only when the failure is certain, and
  with an unknown allocation otherwise, also when it was cancelled, at the latest after that recovery.
\<close>

theorem no_sandbox_lost:
  assumes "run_switch E T C others threads (start_world (start_state operation b recovery preview row pin revision) row)
      = (effects, returned, w)"
    and "b \<noteq> local_backend" "cloud_allocation (re_allocation E)" "rw_asked w"
  shows "accounted E returned effects (rw_row w)"
proof -
  let ?w0 = "start_world (start_state operation b recovery preview row pin revision) row"
  have b: "tn_target_backend (rw_state ?w0) = b" unfolding started by (simp add: start_state_def)
  obtain r v where run: "run_actions E 0 (switch_actions b) ?w0 = (r, v)" by fastforce
  have start: "\<not> rw_asked ?w0" "tn_target (rw_state ?w0) = None" "stored_target ?w0 None"
    by (simp_all add: start_world_def start_state_def write_journal_def stored_target_def)
  have track: "on_track Saving ?w0"
    by (simp add: on_track_def start_world_def write_journal_def start_state_def phase_path_def forward_phases_def)
  have "Choose_local \<notin> set (switch_actions b)"
    using assms(2) by (simp add: switch_actions_def save_actions_def prepare_cloud_def activate_actions_def)
  then have rec: "rw_asked v \<Longrightarrow> recorded E v" using run_recorded [OF run] start by simp
  note traced = run_traced [OF run assms(2) track start]
  have frame: "tn_target_backend (rw_state v) = b" using run_frame [OF run] b by (simp add: frame_def)
  from run show ?thesis
  proof (cases rule: switch_run)
    case stopped
    then obtain e where e: "r = Some e" by auto
    then have after: "after_failure T C others threads e v = (effects, returned, w)"
      using assms(1) run by (simp add: run_switch_def b)
    have asked: "rw_asked v"
      using stopped(3) after assms(4) by (cases rule: unpublished_after) (auto dest: cleanup_world(6))
    have kept: "\<exists>st. rr_transition (rw_row w) = Some st \<and> kept_track returned effects (rw_row w) st ref"
      if ref: "\<And>t. sandbox_of E t = same_sandbox t ref" "wr_backend ref \<noteq> local_backend"
        and target: "\<exists>t. tn_target (rw_state v) = Some t \<and> same_sandbox t ref" for ref
    proof (rule failed_accounted [OF stopped(3,4,5) after _ ref(2) target])
      show "tn_target_backend (rw_state v) \<noteq> local_backend" using frame assms(2) by simp
      show "stored_target v None \<and> last (rw_journal v) = Provisioning \<or> (\<exists>t. stored_target v (Some t) \<and> same_sandbox t ref)"
        using traced [OF asked] ref(1) by (auto simp: held_def)
    qed
    show ?thesis
    proof (cases "re_allocation E")
      case (Not_allocated raised)
      have none: "e = allocation_exc raised" "tn_phase (rw_state v) = Provisioning" "tn_target (rw_state v) = None"
        using run_without_sandbox [OF run assms(2) track start(1,2) Not_allocated asked] e by simp_all
      have lost: "stored_target v None \<and> last (rw_journal v) = Provisioning"
        using traced [OF asked] Not_allocated by (auto simp: held_def sandbox_of_def)
      from stopped(3) after show ?thesis
      proof (cases rule: unpublished_after)
        case given_up
        obtain st where st: "rr_transition (rw_row v) = Some st" "tn_phase st = Provisioning" "tn_target st = None"
          "tn_target_backend st = b"
          using stopped(5) lost frame by (auto simp: journalled_def stored_target_def)
        then have "doubtful st" using assms(2) by (simp add: doubtful_def)
        then show ?thesis using given_up st by (simp add: accounted_def Not_allocated recover_cases)
      next
        case (handled u)
        have phase: "tn_phase (rw_state u) = (if unknown_outcome (rw_state v) e then Allocation_unknown else Failed)"
          by (simp add: handled(1) fail_state_facts)
        from handled(6) have "\<exists>st. rr_transition (rw_row w) = Some st \<and> tn_phase st = tn_phase (rw_state u)"
          using handled(3) cleanup_stored by blast
        then show ?thesis
          using phase none frame assms(2)
          by (auto simp: accounted_def Not_allocated unknown_outcome_def allocation_exc_def split: option.splits if_splits)
      qed
    next
      case (Allocated ref raised)
      then show ?thesis
        using kept [of ref] rec [OF asked] assms(3) by (auto simp: accounted_def recorded_def cloud_allocation_def sandbox_of_def)
    next
      case (Allocated_silently ref)
      then show ?thesis
        using kept [of ref] rec [OF asked] assms(3) by (auto simp: accounted_def recorded_def cloud_allocation_def sandbox_of_def)
    qed
  next
    case (reached t)
    have w: "arrived t w \<and> rw_asked w = rw_asked v"
    proof (cases r)
      case (Some e)
      then have after: "after_failure T C others threads e v = (effects, returned, w)"
        using assms(1) run by (simp add: run_switch_def b)
      then show ?thesis using arrived_after [OF reached(1) after] after_asked [OF after] by simp
    next
      case None
      obtain xs ok u where clean: "cleanup (cleanup_env_for C others threads v) (te_cleanup T) v = (xs, ok, u)" by (metis prod_cases3)
      note u = arrived_cleanup [OF reached(1) clean] cleanup_world(6) [OF clean]
      show ?thesis
      proof (cases ok)
        case True
        then show ?thesis using assms(1) run None clean u by (auto simp: run_switch_def b)
      next
        case False
        obtain ys later x where after: "after_failure T C others threads (te_raised T) u = (ys, later, x)" by (metis prod_cases3)
        then show ?thesis
          using False assms(1) run None clean u arrived_after [OF u(1) after] after_asked [OF after] by (auto simp: run_switch_def b)
      qed
    qed
    then have asked: "rw_asked v" using assms(4) by simp
    have none: False if "re_allocation E = Not_allocated raised" for raised
      using run_without_sandbox [OF run assms(2) track start(1,2) that asked] reached(1) by (simp add: arrived_def)
    have "tn_target (rw_state v) = Some t" "rr_execution (rw_row w) = t"
      using reached(1) w by (auto simp: arrived_def core_def)
    then show ?thesis
      using rec [OF asked] w none
      by (auto simp: accounted_def kept_track_def recorded_def arrived_def core_def split: allocation.splits)
  qed
qed

definition demo_row :: runtime_row where
  "demo_row = \<lparr>rr_execution = \<lparr>wr_backend = ''local'', wr_locator = ''w'', wr_label = [], wr_metadata = []\<rparr>,
     rr_generation = 1, rr_status = ''ready'', rr_transition = None\<rparr>"

definition demo_sandbox :: workspace_ref where
  "demo_sandbox = \<lparr>wr_backend = ''modal'', wr_locator = ''s'', wr_label = [], wr_metadata = []\<rparr>"

text \<open>A switch that is interrupted while the files are restored in the new sandbox, at the tenth action.\<close>

definition demo_run :: run_env where
  "demo_run = \<lparr>re_fail = (\<lambda>n. if n = 9 then Some Interrupted else None), re_manual = False, re_saved = (Some ''r'', True),
     re_allocation = Allocated demo_sandbox None, re_remember = None, re_destination = demo_sandbox, re_applied = ''r'',
     re_mirrored = True, re_ack_lost = None\<rparr>"

definition demo_cleanup :: cleanup_env where
  "demo_cleanup = \<lparr>ue_owned = (\<lambda>r. False), ue_adopted = (\<lambda>s. False), ue_resolve = (\<lambda>s. s), ue_expected = (\<lambda>s. s),
     ue_inside = (\<lambda>s. True), ue_symlink = (\<lambda>s. False), ue_exists = (\<lambda>s. True), ue_stop_loader = (\<lambda>s. []),
     ue_delete_loader = (\<lambda>s. ''delete''), ue_call = (\<lambda>x. None)\<rparr>"

definition demo_tail :: "awaited \<Rightarrow> tail_env" where
  "demo_tail a = \<lparr>te_cleanup = (None, Fine), te_raised = Interrupted, te_reread = True, te_write = a, te_unpin = Fine, te_last = (None, Fine)\<rparr>"

definition demo_switch :: "awaited \<Rightarrow> cleanup_effect list \<times> bool \<times> run_world" where
  "demo_switch a = run_switch demo_run (demo_tail a) demo_cleanup [] []
     (start_world (start_state ''o'' ''modal'' False None demo_row None None) demo_row)"

lemmas switch_eval = run_switch_def switch_actions_def save_actions_def prepare_cloud_def activate_actions_def
  perform_def world_defs start_world_def start_state_def local_backend_def handle_failure_def published_def fail_state_def
  schedule_delete_def delete_item_def unknown_outcome_def cleanup_def cleanup_env_for_def cleanup_item_effect_def after_failure_def
  demo_switch_def demo_row_def demo_run_def demo_sandbox_def demo_cleanup_def demo_tail_def is_local_def runtime_is_owned_def await_def

text \<open>The sandbox is removed; if the handler's write fails too, the journal of the restoring stays for the recovery.\<close>

theorem no_sandbox_lost_witness:
  "fst (demo_switch Fine) = [Called_loader ''delete'' demo_sandbox]
   \<and> accounted demo_run True (fst (demo_switch Fine)) (rw_row (snd (snd (demo_switch Fine))))
   \<and> fst (demo_switch (Broken False)) = [] \<and> \<not> fst (snd (demo_switch (Broken False)))
   \<and> accounted demo_run False [] (rw_row (snd (snd (demo_switch (Broken False)))))"
proof -
  have result: "fst (demo_switch Fine) = [Called_loader ''delete'' demo_sandbox]" "fst (snd (demo_switch Fine))"
    "fst (demo_switch (Broken False)) = []" "\<not> fst (snd (demo_switch (Broken False)))"
    and asked: "rw_asked (snd (snd (demo_switch Fine)))" "rw_asked (snd (snd (demo_switch (Broken False))))"
    by (simp_all add: switch_eval)
  have cloud: "''modal'' \<noteq> local_backend" "cloud_allocation (re_allocation demo_run)"
    by (simp_all add: local_backend_def cloud_allocation_def demo_run_def demo_sandbox_def)
  have run: "run_switch demo_run (demo_tail a) demo_cleanup [] [] (start_world (start_state ''o'' ''modal'' False None demo_row None None) demo_row)
      = (fst (demo_switch a), fst (snd (demo_switch a)), snd (snd (demo_switch a)))" for a
    by (simp add: demo_switch_def)
  show ?thesis
    using no_sandbox_lost [OF run cloud asked(1)] no_sandbox_lost [OF run cloud asked(2)] result by simp
qed

section \<open>Recovery\<close>

lemma left_unknown_twice: "left_unknown (left_unknown st) = left_unknown st"
  by (simp add: left_unknown_def)

lemma recover_twice: "recover_state found (recover_state found st) = recover_state found st"
proof (cases "doubtful st \<and> found = None")
  case True
  then have "doubtful (left_unknown st)" by (simp add: doubtful_def)
  then show ?thesis using True by (simp add: recover_cases left_unknown_twice)
next
  case False
  then have phase: "tn_phase (recover_state found st) \<in> {Completed, Failed}"
    by (cases found) (simp_all add: recover_cases)
  then have "\<not> doubtful (recover_state found st)" by (auto simp: doubtful_def)
  then show ?thesis using phase by (simp add: recover_cases [of found "recover_state found st"])
qed

lemma recover_keys:
  "tn_target_backend (recover_state found st) = tn_target_backend st" "tn_operation_id (recover_state found st) = tn_operation_id st"
  by (simp_all add: recover_cases split: option.split)

lemma recover_available:
  "assert_available new_switcher w (Some (recover_row found row)) \<in> {None, Some unknown_allocation_error}"
proof (cases "rr_transition row")
  case (Some st)
  let ?p = "tn_phase (recover_state (found (tn_target_backend st) (tn_operation_id st)) st)"
  have "?p \<in> {Completed, Failed, Allocation_unknown}"
    by (simp add: recover_cases split: option.split)
  then show ?thesis
    using Some by (auto simp: assert_available_def new_switcher_def recover_row_def ACTIVE_PHASES_def)
qed (simp add: assert_available_def new_switcher_def recover_row_def)

text \<open>
  Recovery after a restart settles every workspace: its runtime, generation and status are as
  before; unless its allocation stays unknown it can be used and switched again; a sandbox found under the
  interrupted operation is journalled for removal; and recovering twice (a restart during recovery)
  is recovering once.
\<close>

theorem recovery_settles:
  "(rr_execution (recover_row found row), rr_generation (recover_row found row), rr_status (recover_row found row))
      = (rr_execution row, rr_generation row, rr_status row)
   \<and> assert_available new_switcher w (Some (recover_row found row)) \<in> {None, Some unknown_allocation_error}
   \<and> recover_row found (recover_row found row) = recover_row found row
   \<and> {t. \<exists>st. rr_transition row = Some st \<and> doubtful st \<and> found (tn_target_backend st) (tn_operation_id st) = Some t
          \<and> wr_backend t \<noteq> local_backend}
     \<subseteq> {t. \<exists>st. rr_transition (recover_row found row) = Some st \<and> delete_item st t \<in> set (tn_cleanup st)}"
proof -
  have "recover_row found (recover_row found row) = recover_row found row"
    by (cases "rr_transition row") (simp_all add: recover_row_def recover_keys recover_twice)
  moreover have "delete_item st' t \<in> set (tn_cleanup st')"
    if "doubtful st" "wr_backend t \<noteq> local_backend" "st' = recover_state (Some t) st" for st st' t
    using that restarted_deletes [of "st\<lparr>tn_target := Some t, tn_phase := Restoring\<rparr>" t] by (simp add: recover_cases)
  ultimately show ?thesis
    using recover_available by (auto simp: recover_row_def)
qed

end
