(* ===== verification/Project_Files.thy ===== *)
theory Project_Files
  imports Prelude "HOL-Library.List_Lexorder" "HOL-Library.Char_ord" "HOL-Library.Sublist"
begin

text \<open>
  The file trees that \<open>agent/modules/projects/\<close> saves and synchronises: relative paths, manifest entries,
  the checks of a manifest (\<open>storage.py\<close>), what a capture of a directory sees (\<open>snapshot_worker.py\<close>), and
  the POSIX file system below one root directory that the synchronisation writes to.

  A file is described by what a capture says of its contents (size, checksum, chunks). A node of the file
  system has the two parts of its \<open>lstat\<close> signature: the inode, and the time of its last change, which
  is drawn from a counter; a directory changes when its listing does. The process may read
  and write everywhere below the root. Windows (\<open>os.name == "nt"\<close>) is not modelled.
\<close>

section \<open>Paths\<close>

text \<open>A path below the root is the list of its parts; \<open>[]\<close> is the root.\<close>

type_synonym path = "string list"

definition path_text :: "path \<Rightarrow> string" where
  "path_text p = join_str ''/'' p"

text \<open>\<open>PurePosixPath(s).parts\<close> of a relative path, and \<open>str(PurePosixPath(s))\<close>.\<close>

definition pure_parts :: "string \<Rightarrow> path" where
  "pure_parts s = filter (\<lambda>w. w \<notin> {[], ''.''}) (split_on (CHR ''/'') s)"

definition is_absolute :: "string \<Rightarrow> bool" where
  "is_absolute s = starts_with ''/'' s"

definition pure_str :: "string \<Rightarrow> string" where
  "pure_str s = (if is_absolute s then ''/'' @ path_text (pure_parts s)
                 else if pure_parts s = [] then ''.'' else path_text (pure_parts s))"

text \<open>The parents of a path below the root, and the entries below it.\<close>

definition below :: "path \<Rightarrow> path \<Rightarrow> bool" where
  "below p q = strict_prefix p q"

definition parents :: "path \<Rightarrow> path list" where
  "parents p = map (\<lambda>n. take n p) [1..<length p]"

lemma set_parents: "set (parents p) = {q. q \<noteq> [] \<and> below q p}"
proof (intro equalityI subsetI)
  fix q assume "q \<in> set (parents p)"
  then obtain n where "1 \<le> n" "n < length p" "q = take n p" by (auto simp: parents_def)
  then show "q \<in> {q. q \<noteq> [] \<and> below q p}"
    by (auto simp: below_def strict_prefix_def take_is_prefix dest: arg_cong [of _ _ length])
next
  fix q assume "q \<in> {q. q \<noteq> [] \<and> below q p}"
  then obtain r where "p = q @ r" "r \<noteq> []" "q \<noteq> []" by (auto simp: below_def strict_prefix_def prefix_def)
  then have "q = take (length q) p" "1 \<le> length q" "length q < length p" by (auto simp: Suc_le_eq)
  then show "q \<in> set (parents p)" unfolding parents_def by (metis atLeastLessThan_iff image_eqI set_map set_upt)
qed

lemma below_butlast: "p \<noteq> [] \<Longrightarrow> below (butlast p) p"
  by (cases p rule: rev_cases) (auto simp: below_def strict_prefix_def)

lemma below_step: "below q p \<Longrightarrow> q = butlast p \<or> below q (butlast p)"
  by (cases p rule: rev_cases) (auto simp: below_def strict_prefix_def)

lemma below_length: "below p q \<Longrightarrow> length p < length q"
  by (simp add: below_def prefix_length_less)

lemma below_trans: "below p q \<Longrightarrow> below q r \<Longrightarrow> below p r"
  by (auto simp: below_def)

lemma below_irrefl [simp]: "\<not> below p p"
  by (simp add: below_def)

section \<open>Entries of a manifest\<close>

record file_data =
  fd_size :: nat
  fd_checksum :: string
  fd_chunks :: "(string \<times> nat) list"

datatype entry = Directory nat | Symlink nat string | File nat file_data

datatype entry_type = Directory_type | Symlink_type | File_type

fun type_of :: "entry \<Rightarrow> entry_type" where
  "type_of (Directory m) = Directory_type"
| "type_of (Symlink m t) = Symlink_type"
| "type_of (File m f) = File_type"

fun mode_of :: "entry \<Rightarrow> nat" where
  "mode_of (Directory m) = m"
| "mode_of (Symlink m t) = m"
| "mode_of (File m f) = m"

fun with_mode :: "nat \<Rightarrow> entry \<Rightarrow> entry" where
  "with_mode m (Directory _) = Directory m"
| "with_mode m (Symlink _ t) = Symlink m t"
| "with_mode m (File _ f) = File m f"

abbreviation is_directory :: "entry \<Rightarrow> bool" where
  "is_directory e \<equiv> type_of e = Directory_type"

text \<open>\<open>mode & 0o777\<close>, and \<open>_same_entry\<close>.\<close>

definition permissions :: "nat \<Rightarrow> nat" where
  "permissions m = m mod 512"

definition comparable :: "entry \<Rightarrow> entry" where
  "comparable e = with_mode (permissions (mode_of e)) e"

definition same_entry :: "entry option \<Rightarrow> entry option \<Rightarrow> bool" where
  "same_entry l r = (case (l, r) of (Some x, Some y) \<Rightarrow> comparable x = comparable y | _ \<Rightarrow> l = r)"

lemma same_entry_iff: "same_entry l r \<longleftrightarrow> map_option comparable l = map_option comparable r"
  by (cases l; cases r) (simp_all add: same_entry_def)

lemma comparable_type [simp]: "type_of (comparable e) = type_of e"
  by (cases e) (simp_all add: comparable_def)

lemma same_entry_type: "same_entry (Some x) (Some y) \<Longrightarrow> type_of x = type_of y"
  by (metis comparable_type option.inject option.simps(9) same_entry_iff)

type_synonym entries = "(path, entry) dict"

text \<open>\<open>_safe_link\<close>: the target of a link stays below the root.\<close>

fun link_walk :: "path \<Rightarrow> path \<Rightarrow> path option" where
  "link_walk ps [] = Some ps"
| "link_walk ps (w # ws) =
     (if w = ''..'' then (if ps = [] then None else link_walk (butlast ps) ws)
      else if w \<noteq> ''.'' then link_walk (ps @ [w]) ws else link_walk ps ws)"

definition safe_link :: "path \<Rightarrow> string \<Rightarrow> bool" where
  "safe_link p target =
     (\<not> (target = [] \<or> is_absolute target \<or> CHR 0x5C \<in> set target \<or> CHR '':'' \<in> set target)
      \<and> link_walk (butlast p) (pure_parts target) \<noteq> None)"

section \<open>The file system\<close>

record node =
  nd_entry :: entry
  nd_inode :: nat
  nd_change :: nat

record disk =
  dk_nodes :: "(path, node) dict"
  dk_clock :: nat

definition node_at :: "disk \<Rightarrow> path \<Rightarrow> node option" where
  "node_at d p = dict_get (dk_nodes d) p"

definition entry_at :: "disk \<Rightarrow> path \<Rightarrow> entry option" where
  "entry_at d p = map_option nd_entry (node_at d p)"

definition directory_at :: "disk \<Rightarrow> path \<Rightarrow> bool" where
  "directory_at d p = (p = [] \<or> (case entry_at d p of None \<Rightarrow> False | Some e \<Rightarrow> is_directory e))"

definition listing :: "disk \<Rightarrow> path \<Rightarrow> path list" where
  "listing d p = filter (\<lambda>q. butlast q = p) (keys (dk_nodes d))"

text \<open>A tree: every entry has a name and lies in a directory.\<close>

definition tree_ok :: "disk \<Rightarrow> bool" where
  "tree_ok d \<longleftrightarrow> is_dict (dk_nodes d) \<and> (\<forall>p \<in> set (keys (dk_nodes d)). p \<noteq> [] \<and> directory_at d (butlast p))"

text \<open>The system calls; \<open>None\<close> is an \<open>OSError\<close>.\<close>

definition touch :: "path \<Rightarrow> disk \<Rightarrow> disk" where
  "touch p d = d\<lparr>dk_nodes := dict_modify p (\<lambda>n. n\<lparr>nd_change := dk_clock d\<rparr>) (dk_nodes d), dk_clock := dk_clock d + 1\<rparr>"

definition add_node :: "path \<Rightarrow> entry \<Rightarrow> disk \<Rightarrow> disk" where
  "add_node p e d = d\<lparr>dk_nodes := dict_set p \<lparr>nd_entry = e, nd_inode = dk_clock d, nd_change = dk_clock d\<rparr> (dk_nodes d),
     dk_clock := dk_clock d + 1\<rparr>"

definition create :: "path \<Rightarrow> entry \<Rightarrow> disk \<Rightarrow> disk option" where
  "create p e d =
     (if node_at d p \<noteq> None \<or> \<not> directory_at d (butlast p) then None else Some (touch (butlast p) (add_node p e d)))"

definition overwrite :: "path \<Rightarrow> entry \<Rightarrow> disk \<Rightarrow> disk option" where
  "overwrite p e d =
     (if (case entry_at d p of None \<Rightarrow> False | Some x \<Rightarrow> is_directory x) \<or> \<not> directory_at d (butlast p) then None
      else Some (touch (butlast p) (add_node p e d)))"

definition remove :: "path \<Rightarrow> disk \<Rightarrow> disk" where
  "remove p d = touch (butlast p) (d\<lparr>dk_nodes := dict_pop p (dk_nodes d)\<rparr>)"

definition unlink :: "path \<Rightarrow> disk \<Rightarrow> disk option" where
  "unlink p d = (case entry_at d p of None \<Rightarrow> None | Some e \<Rightarrow> if is_directory e then None else Some (remove p d))"

definition rmdir :: "path \<Rightarrow> disk \<Rightarrow> disk option" where
  "rmdir p d =
     (case entry_at d p of None \<Rightarrow> None | Some e \<Rightarrow> if is_directory e \<and> listing d p = [] then Some (remove p d) else None)"

definition chmod :: "path \<Rightarrow> nat \<Rightarrow> disk \<Rightarrow> disk option" where
  "chmod p m d =
     (if node_at d p = None then None
      else Some (d\<lparr>dk_nodes := dict_modify p (\<lambda>n. n\<lparr>nd_entry := with_mode m (nd_entry n), nd_change := dk_clock d\<rparr>) (dk_nodes d),
                   dk_clock := dk_clock d + 1\<rparr>))"

section \<open>Captures\<close>

definition EXCLUDED :: "string list" where
  "EXCLUDED = [''node_modules'', ''.venv'', ''__pycache__'', ''.pytest_cache'', ''.mypy_cache'', ''.ruff_cache'', ''.pnpm-store'']"

definition INTERNAL :: "string list" where
  "INTERNAL = [''scratchpad'', ''uploads'', ''generated-images'', ''browser'']"

text \<open>What \<open>walk\<close> of \<open>_inventory\<close> visits below a directory; \<open>git\<close> says whether that is in a \<open>.git\<close> directory.\<close>

fun walked :: "bool \<Rightarrow> path \<Rightarrow> bool" where
  "walked git [] = True"
| "walked git (c # cs) =
     (c \<notin> set EXCLUDED \<and> \<not> (git \<and> c \<in> {''worktrees'', ''gitdir'', ''commondir''}) \<and> walked (git \<or> c = ''.git'') cs)"

definition inventoried :: "disk \<Rightarrow> path \<Rightarrow> bool" where
  "inventoried d p =
     (case p of
        [] \<Rightarrow> False
      | c # cs \<Rightarrow>
          if c = ''.k41-agent''
          then (case cs of
                  [] \<Rightarrow> directory_at d p
                | x # xs \<Rightarrow> directory_at d [c] \<and> x \<in> set INTERNAL \<and> walked False xs)
          else walked False p)"

text \<open>The lock files of a repository, which fail a capture, and the files \<open>.git\<close> of linked worktrees.\<close>

fun locked_name :: "bool \<Rightarrow> path \<Rightarrow> bool" where
  "locked_name git [] = False"
| "locked_name git (c # cs) = (git \<and> ends_with ''.lock'' c \<or> locked_name (git \<or> c = ''.git'') cs)"

datatype sync_error = Stale_content | Local_sync_conflict | Local_sync_unsupported | Os_error | Invalid_entry

text \<open>
  \<open>_capture\<close>: the manifest and the signatures. A linked worktree below the root, which \<open>_inventory\<close>
  flattens, counts as unsupported.
\<close>

definition worktree_link :: "path \<Rightarrow> entry \<Rightarrow> bool" where
  "worktree_link p e = (last p = ''.git'' \<and> type_of e = File_type)"

definition capture :: "disk \<Rightarrow> sync_error + (entries \<times> (path, nat \<times> nat) dict)" where
  "capture d =
     (let found = filter (\<lambda>(p, n). inventoried d p) (dk_nodes d) in
      if list_ex (\<lambda>(p, n). worktree_link p (nd_entry n)) found then Inl Local_sync_unsupported
      else if list_ex (\<lambda>(p, n). locked_name False p) found then Inl Os_error
      else if list_ex (\<lambda>(p, n). p = [''.k41-agent''] \<and> type_of (nd_entry n) = Symlink_type) (dk_nodes d)
      then Inl Invalid_entry
      else if list_ex (\<lambda>(p, n). case nd_entry n of Symlink m t \<Rightarrow> \<not> safe_link p t | _ \<Rightarrow> False) found then Inl Invalid_entry
      else Inr (map (\<lambda>(p, n). (p, nd_entry n)) found, map (\<lambda>(p, n). (p, nd_inode n, nd_change n)) found))"

end
