(* ===== verification/Local_Sync.thy ===== *)
theory Local_Sync
  imports Project_Files
begin

text \<open>
  Model of \<open>agent/modules/projects/local_sync.py\<close> on POSIX: the three-way plan that brings a saved revision
  into a local directory, its application by system calls, and the check of what it left. External
  programs may change the disk between two steps of the application and, inside a step, between a check and
  the system call that follows it (the argument \<open>I\<close>). The checks of the entries of one directory that gives way are
  made at once; its recovery after a crash is in \<open>Entry_Replacement\<close>.
\<close>

section \<open>The plan\<close>

datatype sync_policy = Manual_apply | Mirror_strict

datatype change_action = Add | Update | Remove

record change =
  ch_path :: path
  ch_action :: change_action

definition sorted_paths :: "path list \<Rightarrow> path list" where
  "sorted_paths ps = sort_key path_text (remdups ps)"

definition changed_names :: "entries \<Rightarrow> entries \<Rightarrow> entries \<Rightarrow> path list" where
  "changed_names before after local =
     filter (\<lambda>p. \<not> (same_entry (dict_get before p) (dict_get after p) \<or> same_entry (dict_get local p) (dict_get after p)))
       (sorted_paths (keys before @ keys after @ keys local))"

definition action_of :: "entries \<Rightarrow> entries \<Rightarrow> path \<Rightarrow> change_action" where
  "action_of after local p =
     (if dict_get after p = None then Remove else if dict_get local p = None then Add else Update)"

text \<open>The loop over the names: what changed on one side only, and what on both.\<close>

definition plan_split :: "entries \<Rightarrow> entries \<Rightarrow> entries \<Rightarrow> change list \<times> path list" where
  "plan_split before after local =
     (let (clean, edited) = partition (\<lambda>p. same_entry (dict_get local p) (dict_get before p)) (changed_names before after local)
      in (map (\<lambda>p. \<lparr>ch_path = p, ch_action = action_of after local p\<rparr>) clean, edited))"

definition is_dir_entry :: "entry option \<Rightarrow> bool" where
  "is_dir_entry e = (case e of None \<Rightarrow> False | Some x \<Rightarrow> is_directory x)"

definition parent_conflicts :: "entries \<Rightarrow> entries \<Rightarrow> path list \<Rightarrow> path list" where
  "parent_conflicts after local names =
     (let directories = filter (\<lambda>p. is_dir_entry (dict_get after p)) names in
      concat (map (\<lambda>p. filter (\<lambda>q. \<not> is_dir_entry (dict_get local q) \<and> q \<notin> set directories) (parents p))
        (filter (\<lambda>p. dict_get after p \<noteq> None) names)))"

definition removals :: "entries \<Rightarrow> entries \<Rightarrow> path list \<Rightarrow> path list" where
  "removals after local names =
     filter (\<lambda>p. case dict_get local p of
         None \<Rightarrow> False
       | Some x \<Rightarrow> (case dict_get after p of None \<Rightarrow> True | Some y \<Rightarrow> type_of y \<noteq> type_of x)) names"

definition content_conflicts :: "entries \<Rightarrow> entries \<Rightarrow> path list \<Rightarrow> disk \<Rightarrow> path list" where
  "content_conflicts after local names d =
     (let gone = removals after local names in
      filter (\<lambda>p. is_dir_entry (dict_get local p) \<and> list_ex (\<lambda>c. c \<notin> set gone) (listing d p)) gone)"

definition plan :: "entries \<Rightarrow> entries \<Rightarrow> entries \<Rightarrow> disk \<Rightarrow> change list \<times> path list" where
  "plan before after local d =
     (let (changes, edited) = plan_split before after local;
          names = map ch_path changes
      in (changes, sorted_paths (edited @ parent_conflicts after local names @ content_conflicts after local names d)))"

definition strict_conflicts :: "entries \<Rightarrow> entries \<Rightarrow> entries \<Rightarrow> path list" where
  "strict_conflicts before after local =
     filter (\<lambda>p. \<not> same_entry (dict_get local p) (dict_get before p) \<and> \<not> same_entry (dict_get local p) (dict_get after p))
       (keys before @ keys local)"

definition plan_changes :: "entries \<Rightarrow> entries \<Rightarrow> entries \<Rightarrow> disk \<Rightarrow> sync_policy \<Rightarrow> change list \<times> path list" where
  "plan_changes before after local d policy =
     (let (changes, conflicts) = plan before after local d in
      if policy = Mirror_strict then (changes, sorted_paths (conflicts @ strict_conflicts before after local))
      else (changes, conflicts))"

text \<open>\<open>_verify\<close>.\<close>

definition verify :: "entries \<Rightarrow> entries \<Rightarrow> entries \<Rightarrow> sync_error option" where
  "verify before after actual =
     (if list_ex (\<lambda>p. \<not> same_entry (dict_get before p) (dict_get after p) \<and> \<not> same_entry (dict_get actual p) (dict_get after p))
           (keys before @ keys after)
      then Some Stale_content else None)"

section \<open>The application\<close>

text \<open>The permission bits of a new symbolic link and of a new directory, which the platform sets.\<close>

record platform =
  pl_link_mode :: nat
  pl_directory_mode :: nat

record sync_job =
  sj_before :: entries
  sj_after :: entries
  sj_signatures :: "(path, nat \<times> nat) dict"
  sj_platform :: platform

text \<open>An entry as it is after it was written.\<close>

fun placed :: "platform \<Rightarrow> entry \<Rightarrow> entry" where
  "placed pl (Directory m) = Directory (permissions m)"
| "placed pl (Symlink m t) = Symlink (pl_link_mode pl) t"
| "placed pl (File m f) = File (permissions m) f"

text \<open>\<open>_target\<close>: no directory on the way is a link. \<open>_check\<close>: the path is as it was captured.\<close>

definition linked_parent :: "disk \<Rightarrow> path \<Rightarrow> bool" where
  "linked_parent d p =
     list_ex (\<lambda>q. case entry_at d q of None \<Rightarrow> False | Some e \<Rightarrow> type_of e = Symlink_type) (parents p)"

definition signature :: "disk \<Rightarrow> path \<Rightarrow> (nat \<times> nat) option" where
  "signature d p = map_option (\<lambda>n. (nd_inode n, nd_change n)) (node_at d p)"

definition unchanged_at :: "disk \<Rightarrow> path \<Rightarrow> entry option \<Rightarrow> (nat \<times> nat) option \<Rightarrow> bool" where
  "unchanged_at d p expected sig =
     (case expected of
        None \<Rightarrow> node_at d p = None
      | Some e \<Rightarrow>
          (case node_at d p of
             None \<Rightarrow> False
           | Some n \<Rightarrow> if is_directory e
                       then is_directory (nd_entry n) \<and> (case sig of None \<Rightarrow> False | Some s \<Rightarrow> nd_inode n = fst s)
                       else signature d p = sig))"

datatype sync_step = Check_step path | Replace_step path | Remove_step path | Put_step path | Chmod_step path

text \<open>
  The disk, the entries removed so far, and what was destroyed, which the code does not keep: the path, what was there
  at the last check before the call, and what was there at the call.
\<close>

record sync_world =
  sw_disk :: disk
  sw_removed :: "path list"
  sw_destroyed :: "(path \<times> node option \<times> node) list"

definition node_log :: "disk \<Rightarrow> disk \<Rightarrow> path \<Rightarrow> (path \<times> node option \<times> node) list" where
  "node_log checked d p = (case node_at d p of None \<Rightarrow> [] | Some n \<Rightarrow> [(p, node_at checked p, n)])"

definition tree_log :: "disk \<Rightarrow> disk \<Rightarrow> path \<Rightarrow> (path \<times> node option \<times> node) list" where
  "tree_log checked d p = map (\<lambda>(q, n). (q, node_at checked q, n)) (filter (\<lambda>(q, n). prefix p q) (dk_nodes d))"

definition guarded :: "sync_job \<Rightarrow> disk \<Rightarrow> path \<Rightarrow> entry option \<Rightarrow> sync_error option" where
  "guarded J d p expected =
     (if linked_parent d p then Some Stale_content
      else if unchanged_at d p expected (dict_get (sj_signatures J) p) then None else Some Stale_content)"

text \<open>\<open>copytree\<close> of the staged entry, and the exchange of the whole tree at a path.\<close>

definition at_or_below :: "path \<Rightarrow> path \<Rightarrow> bool" where
  "at_or_below p q = prefix p q"

definition staged :: "sync_job \<Rightarrow> path \<Rightarrow> entries" where
  "staged J p = map (\<lambda>(q, e). (q, placed (sj_platform J) e)) (filter (\<lambda>(q, e). at_or_below p q) (sj_after J))"

definition exchange :: "path \<Rightarrow> entries \<Rightarrow> disk \<Rightarrow> disk" where
  "exchange p es d =
     touch (butlast p)
       (d\<lparr>dk_nodes := filter (\<lambda>(q, n). \<not> at_or_below p q) (dk_nodes d)
            @ map (\<lambda>(q, e). (q, \<lparr>nd_entry = e, nd_inode = dk_clock d + 1, nd_change = dk_clock d + 1\<rparr>)) es,
          dk_clock := dk_clock d + 2\<rparr>)"

text \<open>
  \<open>_replace_entry\<close>: the original is moved into the operation's directory, the path is checked to be free, and the
  prepared entry is renamed to it, over a file or an empty directory if one is there by then; then the original is
  discarded. Where that cannot be done the original is kept in the operation's directory. Between these calls other
  programs change the disk by \<open>g 1\<close>, \<open>g 2\<close> and \<open>g 3\<close>.
\<close>

definition replace_entry :: "sync_job \<Rightarrow> (nat \<Rightarrow> disk \<Rightarrow> disk) \<Rightarrow> path \<Rightarrow> sync_world \<Rightarrow> sync_error option \<times> sync_world" where
  "replace_entry J g p w =
     (let d = sw_disk w in
      if linked_parent d p then (Some Stale_content, w)
      else if list_ex (\<lambda>(c, e). at_or_below p c \<and> (guarded J d c (Some e) \<noteq> None \<or> signature d c \<noteq> dict_get (sj_signatures J) c))
                (sj_before J)
      then (Some Stale_content, w)
      else
        (let d1 = g 1 d in
         if node_at d1 p = None then (Some Os_error, w\<lparr>sw_disk := d1\<rparr>)
         else
           (let d2 = g 2 (exchange p [] d1) in
            if node_at d2 p \<noteq> None then (Some Local_sync_conflict, w\<lparr>sw_disk := d2\<rparr>)
            else
              (let d3 = g 3 d2 in
               if \<not> directory_at d3 (butlast p) then (Some Os_error, w\<lparr>sw_disk := d3\<rparr>)
               else if (case node_at d3 p of
                          None \<Rightarrow> False
                        | Some n \<Rightarrow> listing d3 p \<noteq> [] \<or> is_directory (nd_entry n) \<noteq> is_dir_entry (dict_get (sj_after J) p))
               then (Some Local_sync_conflict, w\<lparr>sw_disk := d3\<rparr>)
               else (None, w\<lparr>sw_disk := exchange p (staged J p) d3,
                             sw_destroyed := sw_destroyed w @ tree_log d d1 p @ node_log d2 d3 p\<rparr>)))))"

definition remove_entry :: "sync_job \<Rightarrow> (nat \<Rightarrow> disk \<Rightarrow> disk) \<Rightarrow> path \<Rightarrow> sync_world \<Rightarrow> sync_error option \<times> sync_world" where
  "remove_entry J g p w =
     (case dict_get (sj_before J) p of
        None \<Rightarrow> (None, w)
      | Some old \<Rightarrow>
          if (case dict_get (sj_after J) p of None \<Rightarrow> False | Some new \<Rightarrow> type_of old = type_of new) then (None, w)
          else (case guarded J (sw_disk w) p (Some old) of
                  Some e \<Rightarrow> (Some e, w)
                | None \<Rightarrow>
                    (let d = g 1 (sw_disk w) in
                     case (if is_directory old then rmdir p d else unlink p d) of
                       None \<Rightarrow> (Some Os_error, w\<lparr>sw_disk := d\<rparr>)
                     | Some d' \<Rightarrow> (None, w\<lparr>sw_disk := d', sw_removed := p # sw_removed w,
                                          sw_destroyed := sw_destroyed w @ node_log (sw_disk w) d p\<rparr>))))"

text \<open>A file or link is prepared between the two checks of its path.\<close>

definition put_entry :: "sync_job \<Rightarrow> (nat \<Rightarrow> disk \<Rightarrow> disk) \<Rightarrow> path \<Rightarrow> sync_world \<Rightarrow> sync_error option \<times> sync_world" where
  "put_entry J g p w =
     (case dict_get (sj_after J) p of
        None \<Rightarrow> (None, w)
      | Some e \<Rightarrow>
          (let expected = (if p \<in> set (sw_removed w) then None else dict_get (sj_before J) p);
               d = sw_disk w; d1 = g 1 d; d2 = g 2 d1 in
           if linked_parent d p then (Some Stale_content, w)
           else if is_directory e
           then (if expected \<noteq> None then (None, w)
                 else (case create p (Directory (pl_directory_mode (sj_platform J))) d1 of
                         None \<Rightarrow> (Some Os_error, w\<lparr>sw_disk := d1\<rparr>)
                       | Some d' \<Rightarrow> (None, w\<lparr>sw_disk := d'\<rparr>)))
           else (case guarded J d p expected of
                   Some err \<Rightarrow> (Some err, w)
                 | None \<Rightarrow>
                     if \<not> unchanged_at d1 p expected (dict_get (sj_signatures J) p) then (Some Stale_content, w\<lparr>sw_disk := d1\<rparr>)
                     else
                       (case (if expected = None then create else overwrite) p (placed (sj_platform J) e) d2 of
                          None \<Rightarrow> (Some Os_error, w\<lparr>sw_disk := d2\<rparr>)
                        | Some d' \<Rightarrow> (None, w\<lparr>sw_disk := d', sw_destroyed := sw_destroyed w @ node_log d1 d2 p\<rparr>)))))"

definition chmod_entry :: "sync_job \<Rightarrow> (nat \<Rightarrow> disk \<Rightarrow> disk) \<Rightarrow> path \<Rightarrow> sync_world \<Rightarrow> sync_error option \<times> sync_world" where
  "chmod_entry J g p w =
     (case dict_get (sj_after J) p of
        None \<Rightarrow> (None, w)
      | Some e \<Rightarrow>
          if \<not> is_directory e then (None, w)
          else if linked_parent (sw_disk w) p then (Some Stale_content, w)
          else (let d = g 1 (sw_disk w) in
                case chmod p (permissions (mode_of e)) d of
                  None \<Rightarrow> (Some Os_error, w\<lparr>sw_disk := d\<rparr>)
                | Some d' \<Rightarrow> (None, w\<lparr>sw_disk := d'\<rparr>)))"

fun do_step :: "sync_job \<Rightarrow> (nat \<Rightarrow> disk \<Rightarrow> disk) \<Rightarrow> sync_step \<Rightarrow> sync_world \<Rightarrow> sync_error option \<times> sync_world" where
  "do_step J g (Check_step p) w = (guarded J (sw_disk w) p (dict_get (sj_before J) p), w)"
| "do_step J g (Replace_step p) w = replace_entry J g p w"
| "do_step J g (Remove_step p) w = remove_entry J g p w"
| "do_step J g (Put_step p) w = put_entry J g p w"
| "do_step J g (Chmod_step p) w = chmod_entry J g p w"

text \<open>
  Before the \<open>n\<close>-th step other programs change the disk by \<open>I (4 * n)\<close>, inside it by the three that follow.
\<close>

fun run_steps :: "(nat \<Rightarrow> disk \<Rightarrow> disk) \<Rightarrow> sync_job \<Rightarrow> nat \<Rightarrow> sync_step list \<Rightarrow> sync_world \<Rightarrow> sync_error option \<times> sync_world" where
  "run_steps I J n [] w = (None, w)"
| "run_steps I J n (s # ss) w =
     (case do_step J (\<lambda>k. I (4 * n + k)) s (w\<lparr>sw_disk := I (4 * n) (sw_disk w)\<rparr>) of
        (Some e, w) \<Rightarrow> (Some e, w)
      | (None, w) \<Rightarrow> run_steps I J (n + 1) ss w)"

text \<open>The order of \<open>_apply\<close>: checks, replacements, removals from the deepest, additions from the shallowest, modes.\<close>

definition replaced_names :: "sync_job \<Rightarrow> path list \<Rightarrow> path list" where
  "replaced_names J names =
     filter (\<lambda>p. case (dict_get (sj_before J) p, dict_get (sj_after J) p) of
         (Some x, Some y) \<Rightarrow> type_of x \<noteq> type_of y | _ \<Rightarrow> False) names"

definition checked_names :: "sync_job \<Rightarrow> path list \<Rightarrow> path list" where
  "checked_names J names =
     filter (\<lambda>p. \<not> (dict_get (sj_before J) p = None \<and> list_ex (\<lambda>q. q \<in> set (replaced_names J names)) (parents p))) names"

definition other_names :: "sync_job \<Rightarrow> path list \<Rightarrow> path list" where
  "other_names J names =
     filter (\<lambda>p. \<not> list_ex (\<lambda>q. at_or_below q p) (replaced_names J names)) names"

definition deepest_first :: "path list \<Rightarrow> path list" where
  "deepest_first ps = sort_key (\<lambda>p. - int (length p)) (sort_key path_text ps)"

definition shallowest_first :: "path list \<Rightarrow> path list" where
  "shallowest_first ps = sort_key length (sort_key path_text ps)"

definition apply_steps :: "sync_job \<Rightarrow> path list \<Rightarrow> sync_step list" where
  "apply_steps J names =
     map Check_step (checked_names J names)
     @ map Replace_step (sorted_paths (replaced_names J names))
     @ map Remove_step (deepest_first (other_names J names))
     @ map Put_step (shallowest_first (other_names J names))
     @ map Chmod_step (sort_key (\<lambda>p. - int (length p)) (other_names J names))"

definition apply_changes :: "(nat \<Rightarrow> disk \<Rightarrow> disk) \<Rightarrow> sync_job \<Rightarrow> change list \<Rightarrow> disk \<Rightarrow> sync_error option \<times> sync_world" where
  "apply_changes I J changes d =
     run_steps I J 0 (apply_steps J (map ch_path changes)) \<lparr>sw_disk = d, sw_removed = [], sw_destroyed = []\<rparr>"

end
