(* ===== verification/Sync_Proofs.thy ===== *)
theory Sync_Proofs
  imports Local_Sync
begin

text \<open>
  What the synchronisation of \<open>Local_Sync\<close> promises: a plan without conflicts is applied without an
  error and gives exactly the three-way merge. What holds while others write too is in \<open>Sync_Safety\<close>.
\<close>

section \<open>What the system calls leave alone\<close>

text \<open>The same entry, and the very same node unless it is a directory.\<close>

definition similar :: "disk \<Rightarrow> disk \<Rightarrow> path \<Rightarrow> bool" where
  "similar d d' q \<longleftrightarrow> (case node_at d q of
      None \<Rightarrow> node_at d' q = None
    | Some n \<Rightarrow> (\<exists>n'. node_at d' q = Some n' \<and> nd_entry n' = nd_entry n \<and> nd_inode n' = nd_inode n
        \<and> (is_directory (nd_entry n) \<or> n' = n)))"

lemma similar_refl [simp]: "similar d d q"
  by (simp add: similar_def split: option.split)

lemma similar_trans: "similar d d' q \<Longrightarrow> similar d' d'' q \<Longrightarrow> similar d d'' q"
  by (auto simp: similar_def split: option.splits)

lemma similar_entry: "similar d d' q \<Longrightarrow> entry_at d' q = entry_at d q"
  by (auto simp: similar_def entry_at_def split: option.splits)

lemma same_node_similar: "node_at d' q = node_at d q \<Longrightarrow> similar d d' q"
  by (auto simp: similar_def split: option.split)

lemma similar_unchanged:
  "similar d d' p \<Longrightarrow> entry_at d p = e \<Longrightarrow> unchanged_at d' p e s = unchanged_at d p e s"
  by (auto simp: similar_def unchanged_at_def entry_at_def signature_def split: option.splits)

lemma node_touch: "node_at (touch q d) p = (if p = q then map_option (\<lambda>n. n\<lparr>nd_change := dk_clock d\<rparr>) (node_at d p) else node_at d p)"
  by (simp add: node_at_def touch_def dict_simps)

lemma node_add: "node_at (add_node p e d) q
    = (if q = p then Some \<lparr>nd_entry = e, nd_inode = dk_clock d, nd_change = dk_clock d\<rparr> else node_at d q)"
  by (simp add: node_at_def add_node_def dict_simps)

lemma touch_similar: "directory_at d q \<Longrightarrow> q \<noteq> [] \<or> node_at d [] = None \<Longrightarrow> similar d (touch q d) p"
  by (auto simp: similar_def node_touch directory_at_def entry_at_def split: option.splits)

lemma touch_entry [simp]: "entry_at (touch q d) p = entry_at d p"
  by (auto simp: entry_at_def node_touch option.map_comp comp_def)

lemma node_entry_None: "entry_at d p = None \<longleftrightarrow> node_at d p = None"
  by (simp add: entry_at_def)

lemma create_facts:
  assumes "create p e d = Some d'" "node_at d [] = None" "p \<noteq> []"
  shows "entry_at d' p = Some e" "q \<noteq> p \<Longrightarrow> similar d d' q" "node_at d' [] = None"
proof -
  have d': "d' = touch (butlast p) (add_node p e d)" and dir: "directory_at d (butlast p)"
    using assms(1) by (auto simp: create_def split: if_splits)
  show "entry_at d' p = Some e" by (simp add: d' entry_at_def node_touch node_add)
  show "node_at d' [] = None" using assms(2,3) by (simp add: d' node_touch node_add)
  show "similar d d' q" if "q \<noteq> p"
    using that dir assms(2)
    by (auto simp: d' similar_def node_touch node_add directory_at_def entry_at_def split: option.splits)
qed

lemma overwrite_facts:
  assumes "overwrite p e d = Some d'" "node_at d [] = None" "p \<noteq> []"
  shows "entry_at d' p = Some e" "q \<noteq> p \<Longrightarrow> similar d d' q" "node_at d' [] = None"
proof -
  have d': "d' = touch (butlast p) (add_node p e d)" and dir: "directory_at d (butlast p)"
    using assms(1) by (auto simp: overwrite_def split: if_splits)
  show "entry_at d' p = Some e" by (simp add: d' entry_at_def node_touch node_add)
  show "node_at d' [] = None" using assms(2,3) by (simp add: d' node_touch node_add)
  show "similar d d' q" if "q \<noteq> p"
    using that dir assms(2)
    by (auto simp: d' similar_def node_touch node_add directory_at_def entry_at_def split: option.splits)
qed

lemma remove_facts:
  assumes "directory_at d (butlast p)" "node_at d [] = None"
  shows "node_at (remove p d) p = None" "q \<noteq> p \<Longrightarrow> similar d (remove p d) q" "node_at (remove p d) [] = None"
proof -
  have pop: "node_at (d\<lparr>dk_nodes := dict_pop p (dk_nodes d)\<rparr>) q = (if q = p then None else node_at d q)" for q
    by (simp add: node_at_def dict_simps)
  show "node_at (remove p d) p = None" by (simp add: remove_def node_touch pop)
  show "node_at (remove p d) [] = None" using assms(2) by (simp add: remove_def node_touch pop)
  show "similar d (remove p d) q" if "q \<noteq> p"
    using that assms by (auto simp: remove_def similar_def node_touch pop directory_at_def entry_at_def split: option.splits)
qed

lemma chmod_facts:
  assumes "chmod p m d = Some d'"
  shows "entry_at d' p = map_option (with_mode m) (entry_at d p)" "q \<noteq> p \<Longrightarrow> node_at d' q = node_at d q"
  using assms by (auto simp: chmod_def node_at_def entry_at_def dict_simps option.map_comp comp_def split: if_splits)

lemma map_of_staged: "map_of (map (\<lambda>(q, e). (q, g e)) (filter (\<lambda>(q, e). P q) es)) q = (if P q then map_option g (map_of es q) else None)"
  by (induction es) auto

lemma exchange_facts:
  assumes "p \<noteq> []"
  shows "at_or_below p q \<Longrightarrow> entry_at (exchange p (staged J p) d) q = map_option (placed (sj_platform J)) (dict_get (sj_after J) q)"
    and "\<not> at_or_below p q \<Longrightarrow> q \<noteq> butlast p \<Longrightarrow> node_at (exchange p (staged J p) d) q = node_at d q"
    and "\<not> at_or_below p q \<Longrightarrow> directory_at d (butlast p) \<Longrightarrow> node_at d [] = None \<Longrightarrow> similar d (exchange p (staged J p) d) q"
    and "node_at d [] = None \<Longrightarrow> node_at (exchange p (staged J p) d) [] = None"
    and "at_or_below p q \<Longrightarrow> node_at (exchange p (staged J p) d) q = Some n \<Longrightarrow> nd_change n = dk_clock d + 1"
proof -
  let ?new = "\<lambda>e. \<lparr>nd_entry = e, nd_inode = dk_clock d + 1, nd_change = dk_clock d + 1\<rparr>"
  let ?d = "d\<lparr>dk_nodes := filter (\<lambda>(q, n). \<not> at_or_below p q) (dk_nodes d) @ map (\<lambda>(q, e). (q, ?new e)) (staged J p),
      dk_clock := dk_clock d + 2\<rparr>"
  have staged: "map_of (map (\<lambda>(q, e). (q, ?new e)) (staged J p)) q
      = (if at_or_below p q then map_option (\<lambda>e. ?new (placed (sj_platform J) e)) (dict_get (sj_after J) q) else None)" for q
    by (simp add: staged_def map_of_staged [symmetric] comp_def case_prod_unfold) 
  have kept: "map_of (filter (\<lambda>(q, n). \<not> at_or_below p q) (dk_nodes d)) q = (if at_or_below p q then None else node_at d q)" for q
    by (simp add: node_at_def dict_get_filter)
  have nodes: "node_at ?d q = (if at_or_below p q then map_option (\<lambda>e. ?new (placed (sj_platform J) e)) (dict_get (sj_after J) q)
      else node_at d q)" for q
    unfolding node_at_def using staged [of q] kept [of q] by (simp add: map_add_def node_at_def split: option.split)
  obtain d0 where ex: "exchange p (staged J p) d = touch (butlast p) d0"
    and nodes: "\<And>q. node_at d0 q = (if at_or_below p q then map_option (\<lambda>e. ?new (placed (sj_platform J) e)) (dict_get (sj_after J) q)
      else node_at d q)"
    by (rule that, rule exchange_def, rule nodes)
  have up: "\<not> at_or_below p (butlast p)"
    using assms by (metis at_or_below_def below_butlast below_def prefix_order.less_le_not_le)
  show "at_or_below p q \<Longrightarrow> entry_at (exchange p (staged J p) d) q = map_option (placed (sj_platform J)) (dict_get (sj_after J) q)"
    unfolding ex touch_entry unfolding entry_at_def nodes by (simp add: option.map_comp comp_def)
  show "\<not> at_or_below p q \<Longrightarrow> q \<noteq> butlast p \<Longrightarrow> node_at (exchange p (staged J p) d) q = node_at d q"
    unfolding ex node_touch by (simp add: nodes)
  show "\<not> at_or_below p q \<Longrightarrow> directory_at d (butlast p) \<Longrightarrow> node_at d [] = None \<Longrightarrow> similar d (exchange p (staged J p) d) q"
    unfolding ex using up
    by (auto simp: similar_def node_touch nodes directory_at_def entry_at_def split: option.splits)
  show "node_at d [] = None \<Longrightarrow> node_at (exchange p (staged J p) d) [] = None"
    unfolding ex node_touch using assms by (simp add: nodes at_or_below_def)
  show "at_or_below p q \<Longrightarrow> node_at (exchange p (staged J p) d) q = Some n \<Longrightarrow> nd_change n = dk_clock d + 1"
    unfolding ex node_touch nodes using up by (auto split: if_splits)
qed

text \<open>A tree that is moved away leaves what a revision without it would.\<close>

lemma moved_away: "exchange p [] d = exchange p (staged (J\<lparr>sj_after := []\<rparr>) p) d"
  by (simp add: staged_def)

lemma in_listing: "q \<in> set (listing d p) \<longleftrightarrow> node_at d q \<noteq> None \<and> butlast q = p"
  by (auto simp: listing_def node_at_def dict_get_None_iff image_iff)

lemma tree_parent:
  "tree_ok d \<Longrightarrow> node_at d p \<noteq> None \<Longrightarrow> below q p \<Longrightarrow> directory_at d q"
proof (induction p rule: rev_induct)
  case (snoc x p)
  have "p @ [x] \<in> set (keys (dk_nodes d))" using snoc.prems(2) by (simp add: node_at_def dict_get_None_iff)
  then have "directory_at d (butlast (p @ [x]))" using snoc.prems(1) unfolding tree_ok_def by blast
  then have "directory_at d p" by simp
  then show ?case
    using snoc below_step [OF snoc.prems(3)] by (auto simp: directory_at_def below_def entry_at_def split: option.splits)
qed (simp add: below_def)

lemma tree_root: "tree_ok d \<Longrightarrow> node_at d [] = None"
  by (auto simp: tree_ok_def node_at_def dict_get_None_iff)

section \<open>Applying a plan without conflicts\<close>

text \<open>What the application needs to know of a plan.\<close>


definition ready :: "sync_job \<Rightarrow> disk \<Rightarrow> path set \<Rightarrow> bool" where
  "ready J d N \<longleftrightarrow> tree_ok d \<and> [] \<notin> N \<and> is_dict (sj_before J)
    \<and> (\<forall>p e. dict_get (sj_before J) p = Some e \<longrightarrow> entry_at d p = Some e \<and> dict_get (sj_signatures J) p = signature d p)
    \<and> (\<forall>p \<in> N. dict_get (sj_before J) p = None \<longrightarrow> node_at d p = None \<and> dict_get (sj_after J) p \<noteq> None)
    \<and> (\<forall>p \<in> N. dict_get (sj_after J) p \<noteq> None \<longrightarrow> (\<forall>q \<in> set (parents p).
          is_dir_entry (dict_get (sj_before J) q) \<or> q \<in> N \<and> is_dir_entry (dict_get (sj_after J) q)))
    \<and> (\<forall>p \<in> N. is_dir_entry (dict_get (sj_before J) p) \<and> \<not> is_dir_entry (dict_get (sj_after J) p) \<longrightarrow>
          (\<forall>c \<in> set (listing d p). c \<in> N \<and> dict_get (sj_before J) c \<noteq> None \<and> dict_get (sj_after J) c = None))
    \<and> (\<forall>p. dict_get (sj_after J) p \<noteq> None \<longrightarrow> (\<forall>q \<in> set (parents p). is_dir_entry (dict_get (sj_after J) q)))
    \<and> (\<forall>p q. dict_get (sj_after J) p \<noteq> None \<and> below q p \<and> q \<in> N \<and> dict_get (sj_before J) q \<noteq> None
          \<and> \<not> is_dir_entry (dict_get (sj_before J) q) \<longrightarrow> p \<in> N)"

lemma readyD:
  assumes "ready J d N"
  shows "tree_ok d" "node_at d [] = None" "p \<in> N \<Longrightarrow> p \<noteq> []"
    and "dict_get (sj_before J) p = Some e \<Longrightarrow> entry_at d p = Some e"
    and "dict_get (sj_before J) p = Some e \<Longrightarrow> dict_get (sj_signatures J) p = signature d p"
    and "p \<in> N \<Longrightarrow> dict_get (sj_before J) p = None \<Longrightarrow> node_at d p = None"
    and "p \<in> N \<Longrightarrow> dict_get (sj_before J) p = None \<Longrightarrow> dict_get (sj_after J) p \<noteq> None"
    and "p \<in> N \<Longrightarrow> dict_get (sj_after J) p \<noteq> None \<Longrightarrow> below q p \<Longrightarrow> q \<noteq> [] \<Longrightarrow>
          is_dir_entry (dict_get (sj_before J) q) \<or> q \<in> N \<and> is_dir_entry (dict_get (sj_after J) q)"
    and "p \<in> N \<Longrightarrow> is_dir_entry (dict_get (sj_before J) p) \<Longrightarrow> \<not> is_dir_entry (dict_get (sj_after J) p) \<Longrightarrow>
          c \<in> set (listing d p) \<Longrightarrow> c \<in> N \<and> dict_get (sj_before J) c \<noteq> None \<and> dict_get (sj_after J) c = None"
    and "dict_get (sj_after J) p \<noteq> None \<Longrightarrow> below q p \<Longrightarrow> q \<noteq> [] \<Longrightarrow> is_dir_entry (dict_get (sj_after J) q)"
    and "dict_get (sj_after J) p \<noteq> None \<Longrightarrow> below q p \<Longrightarrow> q \<in> N \<Longrightarrow> dict_get (sj_before J) q \<noteq> None \<Longrightarrow>
          \<not> is_dir_entry (dict_get (sj_before J) q) \<Longrightarrow> p \<in> N"
    and "is_dict (sj_before J)"
  using assms unfolding ready_def set_parents by (blast intro: tree_root)+

text \<open>The names that change their type, and the paths their exchange covers.\<close>

definition retyped :: "sync_job \<Rightarrow> path set \<Rightarrow> path set" where
  "retyped J N = {p \<in> N. \<exists>x y. dict_get (sj_before J) p = Some x \<and> dict_get (sj_after J) p = Some y \<and> type_of x \<noteq> type_of y}"

definition covered :: "sync_job \<Rightarrow> path set \<Rightarrow> path \<Rightarrow> bool" where
  "covered J N q \<longleftrightarrow> (\<exists>r \<in> retyped J N. at_or_below r q)"

lemma replaced_names_set: "set (replaced_names J ns) = retyped J (set ns)"
  by (auto simp: replaced_names_def retyped_def split: option.splits)

lemma other_names_set: "set (other_names J ns) = {p \<in> set ns. \<not> covered J (set ns) p}"
  by (auto simp: other_names_def covered_def list_ex_iff replaced_names_set)

lemma at_or_below_iff: "at_or_below r q \<longleftrightarrow> r = q \<or> below r q"
  by (auto simp: at_or_below_def below_def strict_prefix_def)

lemma tree_parent_entry: "tree_ok d \<Longrightarrow> entry_at d p = Some e \<Longrightarrow> below q p \<Longrightarrow> directory_at d q"
  by (rule tree_parent) (auto simp: entry_at_def)

lemma retyped_alone:
  assumes "ready J d N" "r \<in> retyped J N" "p \<in> retyped J N" "at_or_below r p"
  shows "r = p"
proof (rule ccontr)
  assume "r \<noteq> p"
  then have r: "below r p" using assms(4) by (simp add: at_or_below_iff)
  obtain x y where x: "dict_get (sj_before J) r = Some x" "dict_get (sj_after J) r = Some y" "type_of x \<noteq> type_of y" "r \<in> N"
    using assms(2) by (auto simp: retyped_def)
  obtain u where u: "dict_get (sj_before J) p = Some u" "dict_get (sj_after J) p \<noteq> None" using assms(3) by (auto simp: retyped_def)
  have "r \<noteq> []" using readyD(3) [OF assms(1)] x(4) by blast
  then have "is_dir_entry (dict_get (sj_after J) r)" using readyD(10) [OF assms(1) u(2) r] by simp
  moreover have "directory_at d r"
    by (rule tree_parent_entry [OF readyD(1) [OF assms(1)] readyD(4) [OF assms(1) u(1)] r])
  then have "is_directory x" using \<open>r \<noteq> []\<close> readyD(4) [OF assms(1) x(1)] by (auto simp: directory_at_def)
  ultimately show False using x by (auto simp: is_dir_entry_def)
qed

lemma covered_up: "covered J N q \<Longrightarrow> below q p \<Longrightarrow> covered J N p"
  unfolding covered_def at_or_below_iff by (blast intro: below_trans)

lemma guarded_ok: "guarded J d p x = None \<longleftrightarrow> \<not> linked_parent d p \<and> unchanged_at d p x (dict_get (sj_signatures J) p)"
  by (simp add: guarded_def)

lemma linked_parent_False:
  assumes "\<And>q. q \<noteq> [] \<Longrightarrow> below q p \<Longrightarrow> directory_at d q"
  shows "\<not> linked_parent d p"
proof -
  have "\<not> (case entry_at d q of None \<Rightarrow> False | Some e \<Rightarrow> type_of e = Symlink_type)" if "q \<in> set (parents p)" for q
    using that assms [of q] by (simp add: set_parents directory_at_def split: option.splits)
  then show ?thesis by (simp add: linked_parent_def list_ex_iff)
qed

lemma captured_unchanged:
  assumes "ready J d N" "dict_get (sj_before J) p = Some e"
  shows "unchanged_at d p (Some e) (dict_get (sj_signatures J) p)"
  using readyD(4,5) [OF assms] by (auto simp: unchanged_at_def signature_def entry_at_def)

lemma ready_unchanged:
  assumes "ready J d N" "p \<in> N"
  shows "unchanged_at d p (dict_get (sj_before J) p) (dict_get (sj_signatures J) p)"
  using captured_unchanged [OF assms(1)] readyD(6) [OF assms]
  by (cases "dict_get (sj_before J) p") (auto simp: unchanged_at_def)

lemma present_parents:
  assumes "ready J d N" "dict_get (sj_before J) p = Some e" "below q p"
  shows "directory_at d q"
  by (rule tree_parent_entry [OF readyD(1) [OF assms(1)] readyD(4) [OF assms(1,2)] assms(3)])

lemma checks_pass:
  assumes "ready J d (set ns)" "p \<in> set (checked_names J ns)"
  shows "guarded J d p (dict_get (sj_before J) p) = None"
proof -
  have p: "p \<in> set ns" using assms(2) by (auto simp: checked_names_def)
  have "\<not> linked_parent d p"
  proof (cases "dict_get (sj_before J) p")
    case (Some e)
    show ?thesis by (rule linked_parent_False) (rule present_parents [OF assms(1) Some])
  next
    case None
    then have after: "dict_get (sj_after J) p \<noteq> None" using readyD(7) [OF assms(1) p] by simp
    have free: "q \<notin> retyped J (set ns)" if "q \<noteq> []" "below q p" for q
      using assms(2) None that by (auto simp: checked_names_def list_ex_iff set_parents replaced_names_set)
    have "\<not> type_of x = Symlink_type" if "q \<noteq> []" "below q p" "entry_at d q = Some x" for q x
    proof (cases "is_dir_entry (dict_get (sj_before J) q)")
      case True
      then show ?thesis using readyD(4) [OF assms(1)] that(3) by (auto simp: is_dir_entry_def split: option.splits)
    next
      case False
      then have q: "q \<in> set ns" "is_dir_entry (dict_get (sj_after J) q)"
        using readyD(8) [OF assms(1) p after that(2,1)] by auto
      have "dict_get (sj_before J) q = None"
        using free [OF that(1,2)] False q by (auto simp: retyped_def is_dir_entry_def split: option.splits)
      then show ?thesis using readyD(6) [OF assms(1) q(1)] that(3) by (simp add: entry_at_def)
    qed
    then show ?thesis by (auto simp: linked_parent_def list_ex_iff set_parents split: option.splits)
  qed
  then show ?thesis using ready_unchanged [OF assms(1) p] by (simp add: guarded_ok)
qed

subsection \<open>The replacements\<close>

lemma similar_directory: "similar d d' q \<Longrightarrow> directory_at d' q = directory_at d q"
  by (simp add: directory_at_def similar_entry)

lemma same_node_unchanged: "node_at d' c = node_at d c \<Longrightarrow> unchanged_at d' c e s = unchanged_at d c e s"
  by (simp only: unchanged_at_def signature_def)

definition replaced_to :: "sync_job \<Rightarrow> disk \<Rightarrow> path set \<Rightarrow> disk \<Rightarrow> bool" where
  "replaced_to J d D d' \<longleftrightarrow> node_at d' [] = None
     \<and> (\<forall>q. (\<forall>r \<in> D. \<not> at_or_below r q \<and> q \<noteq> butlast r) \<longrightarrow> node_at d' q = node_at d q)
     \<and> (\<forall>q. (\<forall>r \<in> D. \<not> at_or_below r q) \<longrightarrow> similar d d' q)
     \<and> (\<forall>r \<in> D. \<forall>q. at_or_below r q \<longrightarrow> entry_at d' q = map_option (placed (sj_platform J)) (dict_get (sj_after J) q))"

lemma at_or_below_trans: "at_or_below p q \<Longrightarrow> at_or_below q r \<Longrightarrow> at_or_below p r"
  by (auto simp: at_or_below_def)

lemma at_or_below_linear: "at_or_below p r \<Longrightarrow> at_or_below q r \<Longrightarrow> at_or_below p q \<or> at_or_below q p"
  using prefix_same_cases by (auto simp: at_or_below_def)

lemma at_or_below_refl [simp]: "at_or_below p p"
  by (simp add: at_or_below_def)

text \<open>Another exchange does not reach what one needs.\<close>

lemma exchanges_apart:
  assumes "ready J d N" "r \<in> retyped J N" "s \<in> retyped J N" "s \<noteq> r" "at_or_below r c"
  shows "\<not> at_or_below s c" "c \<noteq> butlast s"
proof -
  show "\<not> at_or_below s c"
    using assms at_or_below_linear [OF assms(5), of s] retyped_alone [OF assms(1)] by metis
  show "c \<noteq> butlast s"
  proof
    assume "c = butlast s"
    moreover have "s \<noteq> []" using assms(3) readyD(3) [OF assms(1)] by (auto simp: retyped_def)
    ultimately have "at_or_below r s"
      using at_or_below_trans [OF assms(5), of s] below_butlast by (simp add: at_or_below_iff)
    then show False using retyped_alone [OF assms(1-3)] assms(4) by simp
  qed
qed

definition quiet :: "nat \<Rightarrow> disk \<Rightarrow> disk" where
  "quiet n d = d"

lemma still: "quiet = (\<lambda>n d. d)"
  by (simp add: quiet_def fun_eq_iff)

lemma replace_one:
  assumes ready: "ready J d N" and r: "r \<in> retyped J N" and D: "D \<subseteq> retyped J N" "r \<notin> D"
    and at: "replaced_to J d D (sw_disk w)"
  shows "\<exists>w'. replace_entry J quiet r w = (None, w') \<and> replaced_to J d (insert r D) (sw_disk w') \<and> sw_removed w' = sw_removed w"
proof -
  define d' where "d' = sw_disk w"
  have at: "node_at d' [] = None"
    "\<And>q. (\<And>s. s \<in> D \<Longrightarrow> \<not> at_or_below s q \<and> q \<noteq> butlast s) \<Longrightarrow> node_at d' q = node_at d q"
    "\<And>q. (\<And>s. s \<in> D \<Longrightarrow> \<not> at_or_below s q) \<Longrightarrow> similar d d' q"
    "\<And>s q. s \<in> D \<Longrightarrow> at_or_below s q \<Longrightarrow> entry_at d' q = map_option (placed (sj_platform J)) (dict_get (sj_after J) q)"
    using at unfolding replaced_to_def d'_def by blast+
  obtain x where x: "dict_get (sj_before J) r = Some x" and rN: "r \<in> N" using r by (auto simp: retyped_def)
  have "r \<noteq> []" by (rule readyD(3) [OF ready rN])
  have apart: "s \<noteq> r" "s \<in> retyped J N" if "s \<in> D" for s using that D by auto
  have node: "node_at d' c = node_at d c" if "at_or_below r c" for c
    using at(2) exchanges_apart [OF ready r _ _ that] apart by blast
  have up: "directory_at d' q" if "below q r" "q \<noteq> []" for q
  proof -
    have "similar d d' q"
    proof (rule at(3))
      fix s assume s: "s \<in> D"
      show "\<not> at_or_below s q"
        using retyped_alone [OF ready apart(2) [OF s] r] apart(1) [OF s] that(1) at_or_below_trans [of s q r]
        by (auto simp: at_or_below_iff)
    qed
    then show ?thesis using present_parents [OF ready x that(1)] similar_directory by simp
  qed
  have free: "\<not> linked_parent d' r" by (rule linked_parent_False) (rule up)
  have pass: "guarded J d' c (Some e) = None \<and> signature d' c = dict_get (sj_signatures J) c"
    if c: "at_or_below r c" and e: "dict_get (sj_before J) c = Some e" for c e
  proof -
    have "directory_at d' q" if "q \<noteq> []" "below q c" for q
    proof (cases "at_or_below r q")
      case True
      then show ?thesis
        using present_parents [OF ready e that(2)] node by (simp add: directory_at_def entry_at_def)
    next
      case False
      then have "below q r"
        using c that(2) at_or_below_linear [OF c, of q] by (auto simp: at_or_below_iff)
      then show ?thesis using up that by simp
    qed
    then have "\<not> linked_parent d' c" by (rule linked_parent_False) simp_all
    moreover have "unchanged_at d' c (Some e) (dict_get (sj_signatures J) c)"
      using captured_unchanged [OF ready e] same_node_unchanged [OF node [OF c]] by simp
    ultimately show ?thesis using readyD(5) [OF ready e] node [OF c] by (simp add: guarded_ok signature_def)
  qed
  have "\<not> list_ex (\<lambda>(c, e). at_or_below r c \<and> (guarded J d' c (Some e) \<noteq> None \<or> signature d' c \<noteq> dict_get (sj_signatures J) c))
      (sj_before J)"
    using pass readyD(12) [OF ready] by (auto simp: list_ex_iff dict_in_get)
  then have pass: "\<not> list_ex (\<lambda>(c, e). at_or_below r c \<and> (guarded J d' c (Some e) \<noteq> None \<or> signature d' c \<noteq> dict_get (sj_signatures J) c))
      (sj_before J)" .
  have dir: "directory_at d' (butlast r)"
    using up [of "butlast r"] below_butlast [OF \<open>r \<noteq> []\<close>] by (cases "butlast r = []") (auto simp: directory_at_def)
  define b where "b = exchange r [] d'"
  note away = exchange_facts [OF \<open>r \<noteq> []\<close>, where J = "J\<lparr>sj_after := []\<rparr>", folded moved_away]
  have b: "node_at b r = None" "directory_at b (butlast r)" "node_at b [] = None"
    "\<And>q. \<not> at_or_below r q \<Longrightarrow> q \<noteq> butlast r \<Longrightarrow> node_at b q = node_at d' q" "\<And>q. \<not> at_or_below r q \<Longrightarrow> similar d' b q"
  proof -
    have out: "\<not> at_or_below r (butlast r)"
      using \<open>r \<noteq> []\<close> by (metis at_or_below_def below_butlast below_def prefix_order.less_le_not_le)
    show "node_at b r = None" using away(1) [of r d'] by (simp add: b_def node_entry_None)
    show "directory_at b (butlast r)" using similar_directory [OF away(3) [OF out dir at(1)]] dir by (simp add: b_def)
    show "node_at b [] = None" unfolding b_def by (rule away(4) [OF at(1)])
    show "\<And>q. \<not> at_or_below r q \<Longrightarrow> q \<noteq> butlast r \<Longrightarrow> node_at b q = node_at d' q" unfolding b_def by (rule away(2))
    show "\<And>q. \<not> at_or_below r q \<Longrightarrow> similar d' b q" unfolding b_def by (rule away(3) [OF _ dir at(1)])
  qed
  have "node_at d' r \<noteq> None" using node [of r] readyD(4) [OF ready x] by (auto simp: entry_at_def)
  then obtain w' where w': "replace_entry J quiet r w = (None, w')" "sw_disk w' = exchange r (staged J r) b" "sw_removed w' = sw_removed w"
    using free pass b(1,2) by (simp add: replace_entry_def d'_def [symmetric] Let_def still b_def [symmetric])
  note ex = exchange_facts [OF \<open>r \<noteq> []\<close>]
  have "replaced_to J d (insert r D) (sw_disk w')"
    unfolding replaced_to_def w'(2)
  proof (intro conjI allI impI ballI)
    show "node_at (exchange r (staged J r) b) [] = None" by (rule ex(4)) (rule b(3))
  next
    fix q assume q: "\<forall>s \<in> insert r D. \<not> at_or_below s q \<and> q \<noteq> butlast s"
    then show "node_at (exchange r (staged J r) b) q = node_at d q" using ex(2) b(4) at(2) by simp
  next
    fix q assume q: "\<forall>s \<in> insert r D. \<not> at_or_below s q"
    then have "similar d d' q" using at(3) by simp
    then show "similar d (exchange r (staged J r) b) q"
      using similar_trans ex(3) [OF _ b(2,3)] b(5) q by blast
  next
    fix s q assume s: "s \<in> insert r D" "at_or_below s q"
    show "entry_at (exchange r (staged J r) b) q = map_option (placed (sj_platform J)) (dict_get (sj_after J) q)"
    proof (cases "at_or_below r q")
      case False
      then show ?thesis using s at(4) similar_entry [OF ex(3) [OF False b(2,3)]] similar_entry [OF b(5) [OF False]] by auto
    qed (rule ex(1))
  qed
  then show ?thesis using w' by blast
qed

lemma run_quiet:
  "run_steps quiet J n (s # ss) w = (case do_step J quiet s w of (Some e, w) \<Rightarrow> (Some e, w) | (None, w) \<Rightarrow> run_steps quiet J (n + 1) ss w)"
proof -
  have "(\<lambda>k. quiet (4 * n + k)) = quiet" by (simp add: quiet_def fun_eq_iff)
  then show ?thesis by (simp add: quiet_def)
qed

lemma run_steps_append:
  "run_steps I J n (ss @ ts) w =
     (case run_steps I J n ss w of (Some e, w) \<Rightarrow> (Some e, w) | (None, w) \<Rightarrow> run_steps I J (n + length ss) ts w)"
  by (induction ss arbitrary: n w) (auto split: prod.split option.split)

lemma run_checks:
  assumes "ready J d (set ns)" "set ps \<subseteq> set (checked_names J ns)" "sw_disk w = d"
  shows "run_steps quiet J n (map Check_step ps) w = (None, w)"
  using assms(2)
proof (induction ps arbitrary: n)
  case (Cons p ps)
  have "do_step J quiet (Check_step p) w = (None, w)"
    using checks_pass [OF assms(1), of p] Cons.prems assms(3) by simp
  then show ?case
    unfolding list.map run_quiet using Cons.IH [of "n + 1"] Cons.prems by simp
qed simp

lemma run_replaces:
  assumes "ready J d N"
  shows "distinct rs \<Longrightarrow> set rs \<inter> D = {} \<Longrightarrow> set rs \<union> D \<subseteq> retyped J N \<Longrightarrow> replaced_to J d D (sw_disk w) \<Longrightarrow>
     \<exists>w'. run_steps quiet J n (map Replace_step rs) w = (None, w') \<and> replaced_to J d (set rs \<union> D) (sw_disk w')
       \<and> sw_removed w' = sw_removed w"
proof (induction rs arbitrary: n w D)
  case (Cons r rs)
  obtain v where v: "replace_entry J quiet r w = (None, v)" "replaced_to J d (insert r D) (sw_disk v)" "sw_removed v = sw_removed w"
    using replace_one [OF assms, of r D w] Cons.prems by auto
  obtain w' where "run_steps quiet J (n + 1) (map Replace_step rs) v = (None, w')"
    "replaced_to J d (set rs \<union> insert r D) (sw_disk w')" "sw_removed w' = sw_removed v"
    using Cons.IH [of "insert r D" v "n + 1"] Cons.prems v(2) by auto
  then show ?case unfolding list.map run_quiet using v by simp
qed simp

subsection \<open>Removals, additions and modes\<close>

text \<open>The entries a phase leaves: given where it wrote, as before elsewhere.\<close>

definition leaves :: "disk \<Rightarrow> (path \<Rightarrow> entry option option) \<Rightarrow> disk \<Rightarrow> bool" where
  "leaves d X d' \<longleftrightarrow> node_at d' [] = None
     \<and> (\<forall>q. case X q of None \<Rightarrow> similar d d' q | Some e \<Rightarrow> entry_at d' q = e)"

lemma leaves_step:
  assumes "leaves d X d'" "node_at d'' [] = None" "entry_at d'' p = e" "\<And>q. q \<noteq> p \<Longrightarrow> similar d' d'' q"
  shows "leaves d (X(p := Some e)) d''"
  unfolding leaves_def
proof (intro conjI allI)
  fix q
  have "case X q of None \<Rightarrow> similar d d' q | Some e \<Rightarrow> entry_at d' q = e" using assms(1) by (simp add: leaves_def)
  then show "case (X(p := Some e)) q of None \<Rightarrow> similar d d'' q | Some e \<Rightarrow> entry_at d'' q = e"
    using assms(3) assms(4) [of q] similar_trans similar_entry by (cases "q = p"; cases "X q") auto
qed (rule assms(2))

lemma leavesD:
  "leaves d X d' \<Longrightarrow> node_at d' [] = None"
  "leaves d X d' \<Longrightarrow> X q = None \<Longrightarrow> similar d d' q"
  "leaves d X d' \<Longrightarrow> X q = Some e \<Longrightarrow> entry_at d' q = e"
  by (auto simp: leaves_def dest: spec [of _ q])

text \<open>After the exchanges; after removing \<open>D\<close>.\<close>

definition exchanged :: "sync_job \<Rightarrow> path set \<Rightarrow> path \<Rightarrow> entry option option" where
  "exchanged J N q = (if covered J N q then Some (map_option (placed (sj_platform J)) (dict_get (sj_after J) q)) else None)"

definition removed :: "sync_job \<Rightarrow> path set \<Rightarrow> path set \<Rightarrow> path \<Rightarrow> entry option option" where
  "removed J N D q = (if q \<in> D then Some None else exchanged J N q)"

lemma replaced_leaves: "replaced_to J d (retyped J N) d' \<Longrightarrow> leaves d (exchanged J N) d'"
  by (auto simp: replaced_to_def leaves_def exchanged_def covered_def)

definition plain :: "sync_job \<Rightarrow> path set \<Rightarrow> path set" where
  "plain J N = {p \<in> N. \<not> covered J N p}"

definition deleted :: "sync_job \<Rightarrow> path set \<Rightarrow> path set" where
  "deleted J N = {p \<in> plain J N. dict_get (sj_after J) p = None}"

lemma plain_parents: "p \<in> plain J N \<Longrightarrow> below q p \<Longrightarrow> \<not> covered J N q"
  by (auto simp: plain_def dest: covered_up)

lemma plain_type:
  "p \<in> plain J N \<Longrightarrow> dict_get (sj_before J) p = Some x \<Longrightarrow> dict_get (sj_after J) p = Some y \<Longrightarrow> type_of x = type_of y"
  by (auto simp: plain_def covered_def retyped_def)

lemma remove_one:
  assumes ready: "ready J d N" and p: "p \<in> plain J N" and at: "leaves d (removed J N D) (sw_disk w)"
    and D: "D \<subseteq> deleted J N" "p \<notin> D" and deeper: "\<And>c. c \<in> deleted J N \<Longrightarrow> length p < length c \<Longrightarrow> c \<in> D"
    and shallower: "\<And>c. c \<in> D \<Longrightarrow> length p \<le> length c" and removed: "set (sw_removed w) \<subseteq> deleted J N"
  shows "\<exists>w'. remove_entry J quiet p w = (None, w') \<and> set (sw_removed w') \<subseteq> deleted J N
     \<and> leaves d (removed J N (if dict_get (sj_after J) p = None then insert p D else D)) (sw_disk w')"
proof (cases "dict_get (sj_after J) p")
  case (Some y)
  then have "remove_entry J quiet p w = (None, w)"
    using plain_type [OF p] by (auto simp: remove_entry_def split: option.split)
  then show ?thesis using at removed Some by simp
next
  case None
  define d' where "d' = sw_disk w"
  note at = at [folded d'_def]
  have pN: "p \<in> N" "p \<noteq> []" and free: "\<not> covered J N p" using p readyD(3) [OF ready] by (auto simp: plain_def)
  have del: "p \<in> deleted J N" using p None by (simp add: deleted_def)
  obtain x where x: "dict_get (sj_before J) p = Some x" using readyD(7) [OF ready pN(1)] None by auto
  have same: "similar d d' p" using leavesD(2) [OF at] D(2) free by (simp add: removed_def exchanged_def)
  have up: "directory_at d' q" if "below q p" for q
  proof -
    have "q \<notin> D" using shallower [of q] below_length [OF that] by auto
    then have "similar d d' q" using leavesD(2) [OF at] plain_parents [OF p that] by (simp add: removed_def exchanged_def)
    then show ?thesis using present_parents [OF ready x that] similar_directory by simp
  qed
  have guard: "guarded J d' p (Some x) = None"
    using linked_parent_False [of p d'] up ready_unchanged [OF ready pN(1)] similar_unchanged [OF same] readyD(4) [OF ready x]
    by (simp add: guarded_ok x)
  have entry: "entry_at d' p = Some x" using similar_entry [OF same] readyD(4) [OF ready x] by simp
  have empty: "listing d' p = []" if dir: "is_directory x"
  proof (rule ccontr)
    assume "listing d' p \<noteq> []"
    then obtain c where c: "node_at d' c \<noteq> None" "butlast c = p"
      using in_listing [of _ d' p] by (metis list.set_intros(1) neq_Nil_conv)
    then have "c \<noteq> []" using pN(2) by auto
    then have cp: "below p c" using below_butlast c(2) by blast
    have kids: "c' \<in> N \<and> dict_get (sj_before J) c' \<noteq> None \<and> dict_get (sj_after J) c' = None" if "c' \<in> set (listing d p)" for c'
      using readyD(9) [OF ready pN(1) _ _ that] x None dir by (simp add: is_dir_entry_def)
    show False
    proof (cases "covered J N c")
      case True
      then obtain r where r: "r \<in> retyped J N" "at_or_below r c" by (auto simp: covered_def)
      have "r = c"
      proof (rule ccontr)
        assume "r \<noteq> c"
        then have "at_or_below r p" using r(2) below_step [of r c] c(2) by (auto simp: at_or_below_iff)
        then show False using free r(1) by (auto simp: covered_def)
      qed
      then obtain y where "dict_get (sj_after J) c = Some y" using r(1) by (auto simp: retyped_def)
      then show False using readyD(10) [OF ready _ cp pN(2)] None by (simp add: is_dir_entry_def)
    next
      case False
      have "c \<notin> D" using c(1) leavesD(3) [OF at, of c None] by (auto simp: removed_def node_entry_None)
      then have "similar d d' c" using leavesD(2) [OF at] False by (simp add: removed_def exchanged_def)
      then have "c \<in> set (listing d p)" using c similar_entry [of d d' c] by (simp add: in_listing flip: node_entry_None)
      then have "c \<in> deleted J N" using kids False by (auto simp: deleted_def plain_def)
      then show False using deeper below_length [OF cp] \<open>c \<notin> D\<close> by blast
    qed
  qed
  have call: "(if is_directory x then rmdir p d' else unlink p d') = Some (remove p d')"
    using entry empty by (simp add: rmdir_def unlink_def)
  have dir: "directory_at d' (butlast p)"
    using up [OF below_butlast [OF pN(2)]] .
  note gone = remove_facts [OF dir leavesD(1) [OF at]]
  have "leaves d ((removed J N D)(p := Some None)) (remove p d')"
    by (rule leaves_step [OF at gone(3) _ gone(2)]) (simp add: node_entry_None gone(1))
  moreover have "(removed J N D)(p := Some None) = removed J N (insert p D)" by (auto simp: removed_def fun_eq_iff)
  moreover obtain w' where "remove_entry J quiet p w = (None, w')" "sw_disk w' = remove p d'" "sw_removed w' = p # sw_removed w"
    by (rule that, simp only: remove_entry_def x None guard [unfolded d'_def] call [unfolded d'_def] option.case if_False Let_def still)
      (simp_all add: d'_def)
  ultimately show ?thesis using None del removed by auto
qed

lemma run_removes:
  assumes "ready J d N"
  shows "set ps \<subseteq> plain J N \<Longrightarrow> distinct ps \<Longrightarrow> sorted_wrt (\<lambda>p q. length q \<le> length p) ps \<Longrightarrow>
     deleted J N - set ps \<subseteq> D \<Longrightarrow> D \<subseteq> deleted J N - set ps \<Longrightarrow> (\<forall>c \<in> D. \<forall>p \<in> set ps. length p \<le> length c) \<Longrightarrow>
     leaves d (removed J N D) (sw_disk w) \<Longrightarrow> set (sw_removed w) \<subseteq> deleted J N \<Longrightarrow>
     \<exists>w'. run_steps quiet J n (map Remove_step ps) w = (None, w') \<and> leaves d (removed J N (deleted J N)) (sw_disk w')
       \<and> set (sw_removed w') \<subseteq> deleted J N"
proof (induction ps arbitrary: n w D)
  case Nil
  then have "D = deleted J N" by auto
  then show ?case using Nil.prems by simp
next
  case (Cons p ps)
  have p: "p \<in> plain J N" "p \<notin> D" "D \<subseteq> deleted J N" using Cons.prems by auto
  have deeper: "c \<in> D" if "c \<in> deleted J N" "length p < length c" for c
  proof (rule ccontr)
    assume "c \<notin> D"
    then have "c \<in> set ps" using Cons.prems(4) that by auto
    then show False using Cons.prems(3) that(2) by auto
  qed
  obtain v where v: "remove_entry J quiet p w = (None, v)" "set (sw_removed v) \<subseteq> deleted J N"
    "leaves d (removed J N (if dict_get (sj_after J) p = None then insert p D else D)) (sw_disk v)"
    using remove_one [OF assms p(1) Cons.prems(7) p(3,2) deeper] Cons.prems(6,8) by auto
  let ?D = "if dict_get (sj_after J) p = None then insert p D else D"
  have "p \<in> deleted J N \<longleftrightarrow> dict_get (sj_after J) p = None" using p(1) by (simp add: deleted_def)
  then have "deleted J N - set ps \<subseteq> ?D" "?D \<subseteq> deleted J N - set ps" "\<forall>c \<in> ?D. \<forall>q \<in> set ps. length q \<le> length c"
    using Cons.prems by (auto split: if_splits)
  then obtain w' where "run_steps quiet J (n + 1) (map Remove_step ps) v = (None, w')"
    "leaves d (removed J N (deleted J N)) (sw_disk w')" "set (sw_removed w') \<subseteq> deleted J N"
    using Cons.IH [OF _ _ _ _ _ _ v(3) v(2), of "n + 1"] Cons.prems by auto
  then show ?case unfolding list.map run_quiet using v by simp
qed

lemma parents_stay:
  assumes ready: "ready J d N" and p: "p \<in> plain J N" "dict_get (sj_after J) p \<noteq> None"
    and old: "\<And>q. \<not> covered J N q \<Longrightarrow> is_dir_entry (dict_get (sj_before J) q) \<Longrightarrow> is_dir_entry (dict_get (sj_after J) q)
      \<Longrightarrow> directory_at d' q"
    and new: "\<And>q. q \<in> plain J N \<Longrightarrow> length q < length p \<Longrightarrow> dict_get (sj_before J) q = None
      \<Longrightarrow> is_dir_entry (dict_get (sj_after J) q) \<Longrightarrow> directory_at d' q"
  shows "below q p \<Longrightarrow> directory_at d' q"
proof (cases "q = []")
  case False
  assume q: "below q p"
  have free: "\<not> covered J N q" by (rule plain_parents [OF p(1) q])
  have after: "is_dir_entry (dict_get (sj_after J) q)" by (rule readyD(10) [OF ready p(2) q False])
  have "p \<in> N" using p(1) by (simp add: plain_def)
  from readyD(8) [OF ready this p(2) q False] show ?thesis
  proof
    assume "is_dir_entry (dict_get (sj_before J) q)"
    then show ?thesis using old free after by blast
  next
    assume "q \<in> N \<and> is_dir_entry (dict_get (sj_after J) q)"
    then have plain: "q \<in> plain J N" using free by (simp add: plain_def)
    show ?thesis
    proof (cases "dict_get (sj_before J) q")
      case None
      then show ?thesis using new plain after below_length [OF q] by blast
    next
      case (Some x)
      then have "is_dir_entry (dict_get (sj_before J) q)"
        using plain_type [OF plain Some] after by (auto simp: is_dir_entry_def split: option.splits)
      then show ?thesis using old free after by blast
    qed
  qed
qed (simp add: directory_at_def)

definition written :: "sync_job \<Rightarrow> path \<Rightarrow> entry option" where
  "written J q = (case dict_get (sj_after J) q of
      None \<Rightarrow> None
    | Some e \<Rightarrow> if \<not> is_directory e then Some (placed (sj_platform J) e)
                else if dict_get (sj_before J) q = None then Some (Directory (pl_directory_mode (sj_platform J))) else None)"

definition added :: "sync_job \<Rightarrow> path set \<Rightarrow> path set \<Rightarrow> path \<Rightarrow> entry option option" where
  "added J N P q = (if q \<in> P \<and> written J q \<noteq> None then Some (written J q) else removed J N (deleted J N) q)"

lemma kept_directory:
  assumes "ready J d N" "leaves d X d'" "X q = removed J N (deleted J N) q" "\<not> covered J N q"
    "is_dir_entry (dict_get (sj_before J) q)" "is_dir_entry (dict_get (sj_after J) q)"
  shows "directory_at d' q"
proof -
  have "q \<notin> deleted J N" using assms(6) by (auto simp: deleted_def is_dir_entry_def split: option.splits)
  then have "similar d d' q" using leavesD(2) [OF assms(2)] assms(3,4) by (simp add: removed_def exchanged_def)
  then show ?thesis
    using assms(5) readyD(4) [OF assms(1)] similar_entry by (auto simp: directory_at_def is_dir_entry_def split: option.splits)
qed

lemma put_one:
  assumes ready: "ready J d N" and p: "p \<in> plain J N" "p \<notin> P" and at: "leaves d (added J N P) (sw_disk w)"
    and shorter: "\<And>q. q \<in> plain J N \<Longrightarrow> length q < length p \<Longrightarrow> q \<in> P" and removed: "set (sw_removed w) \<subseteq> deleted J N"
  shows "\<exists>w'. put_entry J quiet p w = (None, w') \<and> sw_removed w' = sw_removed w \<and> leaves d (added J N (insert p P)) (sw_disk w')"
proof (cases "dict_get (sj_after J) p")
  case None
  then have "added J N (insert p P) = added J N P" by (auto simp: added_def written_def fun_eq_iff)
  then show ?thesis using at None by (simp add: put_entry_def)
next
  case (Some e)
  define d' where "d' = sw_disk w"
  note at = at [folded d'_def]
  have pN: "p \<in> N" "p \<noteq> []" and free: "\<not> covered J N p" using p readyD(3) [OF ready] by (auto simp: plain_def)
  have "p \<notin> deleted J N" using Some by (simp add: deleted_def)
  then have expected: "p \<notin> set (sw_removed w)" and same: "similar d d' p"
    using removed leavesD(2) [OF at] p(2) free by (auto simp: added_def removed_def exchanged_def)
  have up: "directory_at d' q" if "below q p" for q
  proof (rule parents_stay [OF ready p(1) _ _ _ that])
    fix q assume q: "\<not> covered J N q" "is_dir_entry (dict_get (sj_before J) q)" "is_dir_entry (dict_get (sj_after J) q)"
    then have "written J q = None" by (auto simp: written_def is_dir_entry_def split: option.splits)
    then show "directory_at d' q" using kept_directory [OF ready at _ q] by (simp add: added_def)
  next
    fix q assume q: "q \<in> plain J N" "length q < length p" "dict_get (sj_before J) q = None" "is_dir_entry (dict_get (sj_after J) q)"
    then have "written J q = Some (Directory (pl_directory_mode (sj_platform J)))"
      by (auto simp: written_def is_dir_entry_def split: option.splits)
    then show "directory_at d' q" using leavesD(3) [OF at, of q] shorter q by (simp add: added_def directory_at_def)
  qed (simp add: Some)
  have unlinked: "\<not> linked_parent d' p" by (rule linked_parent_False) (rule up)
  have guard: "guarded J d' p (dict_get (sj_before J) p) = None"
  proof -
    have "entry_at d p = dict_get (sj_before J) p"
      using readyD(4) [OF ready] readyD(6) [OF ready pN(1)] by (cases "dict_get (sj_before J) p") (auto simp: entry_at_def)
    then show ?thesis using unlinked ready_unchanged [OF ready pN(1)] similar_unchanged [OF same] by (simp add: guarded_ok)
  qed
  then have unchanged: "unchanged_at d' p (dict_get (sj_before J) p) (dict_get (sj_signatures J) p)" by (simp add: guarded_ok)
  have dir: "directory_at d' (butlast p)" by (rule up [OF below_butlast [OF pN(2)]])
  have entry: "entry_at d' p = dict_get (sj_before J) p"
    using similar_entry [OF same] readyD(4) [OF ready] readyD(6) [OF ready pN(1)]
    by (cases "dict_get (sj_before J) p") (auto simp: entry_at_def)
  have place: ?thesis
    if call: "(if dict_get (sj_before J) p = None then create else overwrite) p x d' = Some d''" and x: "written J p = Some x"
      and w': "put_entry J quiet p w = (None, w')" "sw_disk w' = d''" "sw_removed w' = sw_removed w" for x d'' w'
  proof -
    have facts: "entry_at d'' p = Some x" "\<And>q. q \<noteq> p \<Longrightarrow> similar d' d'' q" "node_at d'' [] = None"
      using call create_facts [OF _ leavesD(1) [OF at] pN(2)] overwrite_facts [OF _ leavesD(1) [OF at] pN(2)]
      by (auto split: if_splits)
    have "leaves d ((added J N P)(p := Some (Some x))) d''" by (rule leaves_step [OF at facts(3,1,2)])
    moreover have "(added J N P)(p := Some (Some x)) = added J N (insert p P)" using x by (auto simp: added_def fun_eq_iff)
    ultimately show ?thesis using w' by auto
  qed
  show ?thesis
  proof (cases "is_directory e")
    case dirent: True
    show ?thesis
    proof (cases "dict_get (sj_before J) p")
      case new: None
      have "node_at d' p = None" using entry new by (simp add: node_entry_None [symmetric])
      then obtain d'' where call: "create p (Directory (pl_directory_mode (sj_platform J))) d' = Some d''"
        using dir by (simp add: create_def)
      have "written J p = Some (Directory (pl_directory_mode (sj_platform J)))" using Some dirent new by (simp add: written_def)
      moreover have "put_entry J quiet p w = (None, w\<lparr>sw_disk := d''\<rparr>)"
        using call expected unlinked by (simp add: put_entry_def Some Let_def new dirent still d'_def [symmetric])
      ultimately show ?thesis using place [of _ d''] call new by auto
    next
      case (Some x)
      then have "written J p = None" using \<open>dict_get (sj_after J) p = Some e\<close> dirent by (simp add: written_def)
      then have "added J N (insert p P) = added J N P" by (auto simp: added_def fun_eq_iff)
      moreover have "put_entry J quiet p w = (None, w)"
        using expected unlinked Some \<open>dict_get (sj_after J) p = Some e\<close>
        by (simp add: put_entry_def Let_def dirent d'_def [symmetric])
      ultimately show ?thesis using at by (simp add: d'_def)
    qed
  next
    case data: False
    have "\<not> is_dir_entry (dict_get (sj_before J) p)"
      using plain_type [OF p(1)] Some data by (auto simp: is_dir_entry_def split: option.splits)
    then obtain d'' where call: "(if dict_get (sj_before J) p = None then create else overwrite) p (placed (sj_platform J) e) d' = Some d''"
      using dir entry by (auto simp: create_def overwrite_def is_dir_entry_def node_entry_None [symmetric] split: option.splits)
    have "written J p = Some (placed (sj_platform J) e)" using Some data by (simp add: written_def)
    moreover have "put_entry J quiet p w = (None, w\<lparr>sw_disk := d'', sw_destroyed := sw_destroyed w @ node_log d' d' p\<rparr>)"
      using expected unlinked data guard call unchanged
      by (simp only: put_entry_def Some Let_def option.case if_False if_True still d'_def [symmetric] HOL.simp_thms)
    ultimately show ?thesis using place [of _ d''] call by simp
  qed
qed

lemma run_puts:
  assumes "ready J d N"
  shows "set ps \<subseteq> plain J N \<Longrightarrow> distinct ps \<Longrightarrow> sorted_wrt (\<lambda>p q. length p \<le> length q) ps \<Longrightarrow>
     plain J N - set ps \<subseteq> P \<Longrightarrow> P \<subseteq> plain J N - set ps \<Longrightarrow> leaves d (added J N P) (sw_disk w) \<Longrightarrow>
     set (sw_removed w) \<subseteq> deleted J N \<Longrightarrow>
     \<exists>w'. run_steps quiet J n (map Put_step ps) w = (None, w') \<and> leaves d (added J N (plain J N)) (sw_disk w')"
proof (induction ps arbitrary: n w P)
  case Nil
  then have "P = plain J N" by auto
  then show ?case using Nil.prems by simp
next
  case (Cons p ps)
  have p: "p \<in> plain J N" "p \<notin> P" using Cons.prems(1,5) by auto
  have shorter: "q \<in> P" if "q \<in> plain J N" "length q < length p" for q
  proof (rule ccontr)
    assume "q \<notin> P"
    then have "q \<in> set ps" using Cons.prems(4) that by auto
    then show False using Cons.prems(3) that(2) by auto
  qed
  obtain v where v: "put_entry J quiet p w = (None, v)" "sw_removed v = sw_removed w" "leaves d (added J N (insert p P)) (sw_disk v)"
    using put_one [OF assms p Cons.prems(6) shorter Cons.prems(7)] by blast
  obtain w' where "run_steps quiet J (n + 1) (map Put_step ps) v = (None, w')" "leaves d (added J N (plain J N)) (sw_disk w')"
    using Cons.IH [OF _ _ _ _ _ v(3), of "n + 1"] Cons.prems v(2) by auto
  then show ?case unfolding list.map run_quiet using v by simp
qed

definition moded :: "sync_job \<Rightarrow> path set \<Rightarrow> path set \<Rightarrow> path \<Rightarrow> entry option option" where
  "moded J N C q = (if q \<in> C \<and> is_dir_entry (dict_get (sj_after J) q)
      then Some (map_option (placed (sj_platform J)) (dict_get (sj_after J) q)) else added J N (plain J N) q)"

lemma is_dir_entry_Some: "is_dir_entry x \<longleftrightarrow> (\<exists>m. x = Some (Directory m))"
proof
  show "is_dir_entry x \<Longrightarrow> \<exists>m. x = Some (Directory m)"
    by (cases x) (auto simp: is_dir_entry_def elim: type_of.elims)
qed (auto simp: is_dir_entry_def)

lemma plain_directory:
  assumes ready: "ready J d N" and at: "leaves d (moded J N C) d'" and p: "p \<in> plain J N" "is_dir_entry (dict_get (sj_after J) p)"
  shows "directory_at d' p"
proof -
  obtain m where m: "dict_get (sj_after J) p = Some (Directory m)" using p(2) by (auto simp: is_dir_entry_Some)
  show ?thesis
  proof (cases "p \<in> C \<or> dict_get (sj_before J) p = None")
    case True
    then obtain k where "moded J N C p = Some (Some (Directory k))"
      using m p by (cases "p \<in> C") (auto simp: moded_def added_def written_def is_dir_entry_def)
    then show ?thesis using leavesD(3) [OF at] by (simp add: directory_at_def)
  next
    case False
    then have "is_dir_entry (dict_get (sj_before J) p)"
      using plain_type [OF p(1)] m by (auto simp: is_dir_entry_def)
    moreover have "moded J N C p = removed J N (deleted J N) p"
      using False m by (auto simp: moded_def added_def written_def)
    ultimately show ?thesis using kept_directory [OF ready at _ _ _ p(2)] p(1) by (simp add: plain_def)
  qed
qed

lemma chmod_one:
  assumes ready: "ready J d N" and p: "p \<in> plain J N" and at: "leaves d (moded J N C) (sw_disk w)"
  shows "\<exists>w'. chmod_entry J quiet p w = (None, w') \<and> leaves d (moded J N (insert p C)) (sw_disk w')"
proof (cases "is_dir_entry (dict_get (sj_after J) p)")
  case False
  then have "moded J N (insert p C) = moded J N C" by (auto simp: moded_def fun_eq_iff)
  then show ?thesis using at False by (auto simp: chmod_entry_def is_dir_entry_def split: option.splits)
next
  case True
  then obtain m where m: "dict_get (sj_after J) p = Some (Directory m)" by (auto simp: is_dir_entry_Some)
  define d' where "d' = sw_disk w"
  note at = at [folded d'_def]
  have up: "directory_at d' q" if "below q p" for q
  proof (rule parents_stay [OF ready p _ _ _ that])
    fix q assume q: "\<not> covered J N q" "is_dir_entry (dict_get (sj_before J) q)" "is_dir_entry (dict_get (sj_after J) q)"
    show "directory_at d' q"
    proof (cases "q \<in> plain J N")
      case True
      then show ?thesis using plain_directory [OF ready at] q(3) by blast
    next
      case False
      then have "q \<notin> C \<or> moded J N C q = Some (map_option (placed (sj_platform J)) (dict_get (sj_after J) q))" 
        using q(3) by (simp add: moded_def)
      then show ?thesis
      proof
        assume "q \<notin> C"
        then show ?thesis using kept_directory [OF ready at _ q] False by (simp add: moded_def added_def)
      next
        assume "moded J N C q = Some (map_option (placed (sj_platform J)) (dict_get (sj_after J) q))"
        then show ?thesis using leavesD(3) [OF at] q(3) by (auto simp: directory_at_def is_dir_entry_Some)
      qed
    qed
  next
    fix q assume q: "q \<in> plain J N" "is_dir_entry (dict_get (sj_after J) q)"
    then show "directory_at d' q" by (rule plain_directory [OF ready at])
  qed (simp add: m)
  have unlinked: "\<not> linked_parent d' p" by (rule linked_parent_False) (rule up)
  have "p \<noteq> []" using p readyD(3) [OF ready] by (auto simp: plain_def)
  then obtain k where k: "entry_at d' p = Some (Directory k)"
    using plain_directory [OF ready at p True] by (auto simp: directory_at_def elim: type_of.elims split: option.splits)
  then obtain d'' where call: "chmod p (permissions m) d' = Some d''" by (auto simp: chmod_def entry_at_def)
  note facts = chmod_facts [OF call]
  have "leaves d ((moded J N C)(p := Some (Some (Directory (permissions m))))) d''"
    using facts k \<open>p \<noteq> []\<close> leavesD(1) [OF at] by (intro leaves_step [OF at]) (auto intro: same_node_similar)
  moreover have "(moded J N C)(p := Some (Some (Directory (permissions m)))) = moded J N (insert p C)"
    by (auto simp: moded_def m is_dir_entry_def fun_eq_iff)
  moreover have "chmod_entry J quiet p w = (None, w\<lparr>sw_disk := d''\<rparr>)"
    using unlinked call by (simp add: chmod_entry_def m Let_def still d'_def [symmetric])
  ultimately show ?thesis by auto
qed

lemma run_chmods:
  assumes "ready J d N"
  shows "set ps \<subseteq> plain J N \<Longrightarrow> leaves d (moded J N C) (sw_disk w) \<Longrightarrow>
     \<exists>w'. run_steps quiet J n (map Chmod_step ps) w = (None, w') \<and> leaves d (moded J N (set ps \<union> C)) (sw_disk w')"
proof (induction ps arbitrary: n w C)
  case (Cons p ps)
  obtain v where v: "chmod_entry J quiet p w = (None, v)" "leaves d (moded J N (insert p C)) (sw_disk v)"
    using chmod_one [OF assms _ Cons.prems(2)] Cons.prems(1) by auto
  obtain w' where "run_steps quiet J (n + 1) (map Chmod_step ps) v = (None, w')" "leaves d (moded J N (set ps \<union> insert p C)) (sw_disk w')"
    using Cons.IH [OF _ v(2), of "n + 1"] Cons.prems(1) by auto
  then show ?case unfolding list.map run_quiet using v by simp
qed simp

subsection \<open>The whole application\<close>

lemma below_gone:
  assumes ready: "ready J d N" and r: "r \<in> retyped J N" "is_dir_entry (dict_get (sj_before J) r)"
  shows "node_at d c \<noteq> None \<Longrightarrow> below r c \<Longrightarrow> c \<in> N \<and> dict_get (sj_before J) c \<noteq> None \<and> dict_get (sj_after J) c = None"
proof (induction c rule: rev_induct)
  case (snoc x b)
  have after: "\<not> is_dir_entry (dict_get (sj_after J) r)" using r by (auto simp: retyped_def is_dir_entry_def)
  have c: "b @ [x] \<in> set (listing d b)" using snoc.prems(1) by (simp add: in_listing)
  show ?case
  proof (cases "b = r")
    case True
    then show ?thesis using readyD(9) [OF ready _ r(2) after, of "b @ [x]"] c r(1) by (simp add: retyped_def)
  next
    case False
    then have b: "below r b" using below_step [OF snoc.prems(2)] by simp
    then have "b \<noteq> []" by (auto simp: below_def)
    moreover have dir: "directory_at d b"
      using tree_parent [OF readyD(1) [OF ready] snoc.prems(1)] below_butlast [of "b @ [x]"] by simp
    ultimately have "node_at d b \<noteq> None" by (auto simp: directory_at_def entry_at_def split: option.splits)
    then have IH: "b \<in> N" "dict_get (sj_before J) b \<noteq> None" "dict_get (sj_after J) b = None" using snoc.IH b by auto
    then have "is_dir_entry (dict_get (sj_before J) b)"
      using readyD(4) [OF ready] dir \<open>b \<noteq> []\<close> by (auto simp: directory_at_def is_dir_entry_def)
    then show ?thesis using readyD(9) [OF ready IH(1) _ _ c] IH(3) by (simp add: is_dir_entry_def)
  qed
qed (simp add: below_def)

lemma final_entries:
  assumes ready: "ready J d N" and at: "leaves d (moded J N (plain J N)) d'"
  shows "entry_at d' q = (if q \<in> N then map_option (placed (sj_platform J)) (dict_get (sj_after J) q) else entry_at d q)"
proof (cases "covered J N q")
  case True
  then have "moded J N (plain J N) q = Some (map_option (placed (sj_platform J)) (dict_get (sj_after J) q))"
    by (simp add: moded_def added_def removed_def exchanged_def plain_def deleted_def)
  then have q: "entry_at d' q = map_option (placed (sj_platform J)) (dict_get (sj_after J) q)" by (rule leavesD(3) [OF at])
  show ?thesis
  proof (cases "q \<in> N")
    case False
    obtain r where r: "r \<in> retyped J N" "at_or_below r q" using True by (auto simp: covered_def)
    then obtain x y where x: "dict_get (sj_before J) r = Some x" "dict_get (sj_after J) r = Some y" "type_of x \<noteq> type_of y" "r \<in> N"
      by (auto simp: retyped_def)
    have rq: "below r q" using r(2) x(4) False by (auto simp: at_or_below_iff)
    have "r \<noteq> []" by (rule readyD(3) [OF ready x(4)])
    have False if a: "dict_get (sj_after J) q \<noteq> None"
      using readyD(10) [OF ready a rq \<open>r \<noteq> []\<close>] readyD(11) [OF ready a rq x(4)] x False
      by (auto simp: is_dir_entry_def)
    then have "dict_get (sj_after J) q = None" by blast
    moreover have "node_at d q = None"
    proof (rule ccontr)
      assume node: "node_at d q \<noteq> None"
      then have "is_dir_entry (dict_get (sj_before J) r)"
        using tree_parent [OF readyD(1) [OF ready] node rq] readyD(4) [OF ready x(1)] \<open>r \<noteq> []\<close>
        by (auto simp: directory_at_def is_dir_entry_def x(1))
      then show False using below_gone [OF ready r(1) _ node rq] False by blast
    qed
    ultimately show ?thesis using q False by (simp add: entry_at_def)
  qed (simp add: q)
next
  case False
  show ?thesis
  proof (cases "q \<in> N")
    case True
    then have plain: "q \<in> plain J N" using False by (simp add: plain_def)
    then have "moded J N (plain J N) q = Some (map_option (placed (sj_platform J)) (dict_get (sj_after J) q))"
      by (cases "dict_get (sj_after J) q")
        (auto simp: moded_def added_def written_def removed_def deleted_def is_dir_entry_def)
    then show ?thesis using leavesD(3) [OF at] True by simp
  next
    case q: False
    then have "moded J N (plain J N) q = None"
      using False by (simp add: moded_def added_def removed_def exchanged_def plain_def deleted_def)
    then show ?thesis using similar_entry [OF leavesD(2) [OF at]] q by simp
  qed
qed

lemma apply_ready:
  assumes ready: "ready J d (set ns)" and ns: "distinct ns"
  shows "\<exists>w'. run_steps quiet J 0 (apply_steps J ns) \<lparr>sw_disk = d, sw_removed = [], sw_destroyed = []\<rparr> = (None, w')
     \<and> (\<forall>q. entry_at (sw_disk w') q
          = (if q \<in> set ns then map_option (placed (sj_platform J)) (dict_get (sj_after J) q) else entry_at d q))"
proof -
  let ?N = "set ns" and ?w = "\<lparr>sw_disk = d, sw_removed = [], sw_destroyed = []\<rparr>"
  have others: "set (other_names J ns) = plain J ?N" by (simp add: other_names_set plain_def)
  have dist: "distinct (other_names J ns)" "distinct (replaced_names J ns)" using ns by (simp_all add: other_names_def replaced_names_def)
  have deep: "sorted_wrt (\<lambda>p q. length q \<le> length p) (deepest_first (other_names J ns))"
    using sorted_sort_key [of "\<lambda>p. - int (length p)" "sort_key path_text (other_names J ns)"]
    by (simp add: deepest_first_def sorted_map sorted_wrt_mono_rel)
  have shallow: "sorted_wrt (\<lambda>p q. length p \<le> length q) (shallowest_first (other_names J ns))"
    using sorted_sort_key [of length "sort_key path_text (other_names J ns)"] by (simp add: shallowest_first_def sorted_map)
  have start: "replaced_to J d {} d" using readyD(2) [OF ready] by (simp add: replaced_to_def)
  obtain w1 where w1: "\<And>n. run_steps quiet J n (map Check_step (checked_names J ns)) ?w = (None, w1)" "w1 = ?w"
    using run_checks [OF ready, of "checked_names J ns" ?w] by simp
  obtain w2 where w2: "run_steps quiet J (length (checked_names J ns)) (map Replace_step (sorted_paths (replaced_names J ns))) w1 = (None, w2)"
    "replaced_to J d (retyped J ?N) (sw_disk w2)" "sw_removed w2 = []"
    using run_replaces [OF ready, of "sorted_paths (replaced_names J ns)" "{}" w1 "length (checked_names J ns)"] start w1(2)
    by (auto simp: sorted_paths_def replaced_names_set)
  let ?n = "length (checked_names J ns) + length (sorted_paths (replaced_names J ns))"
  have "leaves d (removed J ?N {}) (sw_disk w2)" using replaced_leaves [OF w2(2)] by (simp add: removed_def [abs_def])
  then obtain w3 where w3: "run_steps quiet J ?n (map Remove_step (deepest_first (other_names J ns))) w2 = (None, w3)"
    "leaves d (removed J ?N (deleted J ?N)) (sw_disk w3)" "set (sw_removed w3) \<subseteq> deleted J ?N"
    using run_removes [OF ready, of "deepest_first (other_names J ns)" "{}" w2 ?n] deep dist(1) others w2(3)
    by (auto simp: deepest_first_def deleted_def)
  let ?n = "?n + length (deepest_first (other_names J ns))"
  have "leaves d (added J ?N {}) (sw_disk w3)" using w3(2) by (simp add: added_def [abs_def])
  then obtain w4 where w4: "run_steps quiet J ?n (map Put_step (shallowest_first (other_names J ns))) w3 = (None, w4)"
    "leaves d (added J ?N (plain J ?N)) (sw_disk w4)"
    using run_puts [OF ready, of "shallowest_first (other_names J ns)" "{}" w3 ?n] shallow dist(1) others w3(3)
    by (auto simp: shallowest_first_def)
  let ?n = "?n + length (shallowest_first (other_names J ns))"
  have "leaves d (moded J ?N {}) (sw_disk w4)" using w4(2) by (simp add: moded_def [abs_def])
  then obtain w5 where w5: "run_steps quiet J ?n (map Chmod_step (sort_key (\<lambda>p. - int (length p)) (other_names J ns))) w4 = (None, w5)"
    "leaves d (moded J ?N (plain J ?N)) (sw_disk w5)"
    using run_chmods [OF ready, of "sort_key (\<lambda>p. - int (length p)) (other_names J ns)" "{}" w4 ?n] others by auto
  have "run_steps quiet J 0 (apply_steps J ns) ?w = (None, w5)"
    unfolding apply_steps_def run_steps_append w1(1) using w1(2) w2(1) w3(1) w4(1) w5(1) by (simp add: add.assoc)
  then show ?thesis using final_entries [OF ready w5(2)] by blast
qed

section \<open>From a plan to its application\<close>

text \<open>What \<open>validate_manifest\<close> asks of the names: none is the root, parents are directories.\<close>

definition manifest_ok :: "entries \<Rightarrow> bool" where
  "manifest_ok es \<longleftrightarrow> is_dict es \<and> (\<forall>p \<in> set (keys es). p \<noteq> [] \<and> (\<forall>q \<in> set (parents p). is_dir_entry (dict_get es q)))"

lemma manifest_parent:
  "manifest_ok es \<Longrightarrow> dict_get es p \<noteq> None \<Longrightarrow> below q p \<Longrightarrow> q \<noteq> [] \<Longrightarrow> is_dir_entry (dict_get es q)"
  by (auto simp: manifest_ok_def dict_get_None_iff set_parents image_iff)

definition job :: "platform \<Rightarrow> entries \<Rightarrow> entries \<Rightarrow> (path, nat \<times> nat) dict \<Rightarrow> sync_job" where
  "job pl current desired sigs = \<lparr>sj_before = current, sj_after = desired, sj_signatures = sigs, sj_platform = pl\<rparr>"

lemma job_simps [simp]:
  "sj_before (job pl c a s) = c" "sj_after (job pl c a s) = a" "sj_signatures (job pl c a s) = s" "sj_platform (job pl c a s) = pl"
  by (simp_all add: job_def)

lemma map_of_captured:
  "map_of (map (\<lambda>(p, n). (p, g n)) (filter (\<lambda>(p, n). P p) ns)) q = (if P q then map_option g (map_of ns q) else None)"
  by (induction ns) auto

lemma capture_facts:
  assumes "capture d = Inr (current, sigs)" "tree_ok d"
  shows "dict_get current p = (if inventoried d p then entry_at d p else None)"
    and "dict_get sigs p = (if inventoried d p then signature d p else None)" and "is_dict current"
proof -
  have c: "current = map (\<lambda>(p, n). (p, nd_entry n)) (filter (\<lambda>(p, n). inventoried d p) (dk_nodes d))"
    and s: "sigs = map (\<lambda>(p, n). (p, nd_inode n, nd_change n)) (filter (\<lambda>(p, n). inventoried d p) (dk_nodes d))"
    using assms(1) by (auto simp: capture_def Let_def split: if_splits)
  show "dict_get current p = (if inventoried d p then entry_at d p else None)"
    unfolding c map_of_captured by (simp add: entry_at_def node_at_def)
  show "dict_get sigs p = (if inventoried d p then signature d p else None)"
    unfolding s map_of_captured by (simp add: signature_def node_at_def)
  have "is_dict (dk_nodes d)" using assms(2) by (simp add: tree_ok_def)
  then have "distinct (map fst (filter (\<lambda>(p, n). inventoried d p) (dk_nodes d)))" by (simp add: is_dict_def distinct_map_filter)
  moreover have "map fst current = map fst (filter (\<lambda>(p, n). inventoried d p) (dk_nodes d))"
    unfolding c by (simp add: comp_def case_prod_unfold)
  ultimately show "is_dict current" by (simp add: is_dict_def)
qed

text \<open>The names of a plan: changed in the revision, still as in the base, and not yet there.\<close>

definition clean_change :: "entries \<Rightarrow> entries \<Rightarrow> entries \<Rightarrow> path \<Rightarrow> bool" where
  "clean_change base desired local p \<longleftrightarrow> \<not> same_entry (dict_get base p) (dict_get desired p)
     \<and> \<not> same_entry (dict_get local p) (dict_get desired p) \<and> same_entry (dict_get local p) (dict_get base p)"

lemma changed_names_set:
  "p \<in> set (changed_names base desired local) \<longleftrightarrow>
     \<not> same_entry (dict_get base p) (dict_get desired p) \<and> \<not> same_entry (dict_get local p) (dict_get desired p)"
proof -
  have "p \<in> set (keys base @ keys desired @ keys local)" if "\<not> same_entry (dict_get base p) (dict_get desired p)"
  proof (rule ccontr)
    assume "p \<notin> set (keys base @ keys desired @ keys local)"
    then have "dict_get base p = None" "dict_get desired p = None" by (simp_all add: dict_get_None_iff)
    then show False using that by (simp add: same_entry_def)
  qed
  then show ?thesis by (auto simp: changed_names_def sorted_paths_def)
qed

lemma plan_names:
  assumes "plan base desired local d = (changes, conflicts)"
  shows "set (map ch_path changes) = {p. clean_change base desired local p}" "distinct (map ch_path changes)"
proof -
  have n: "map ch_path changes = filter (\<lambda>p. same_entry (dict_get local p) (dict_get base p)) (changed_names base desired local)"
    using assms by (auto simp: plan_def plan_split_def Let_def partition_filter1 comp_def split: prod.splits)
  show "set (map ch_path changes) = {p. clean_change base desired local p}"
    unfolding n by (auto simp: changed_names_set clean_change_def)
  show "distinct (map ch_path changes)" unfolding n by (simp add: changed_names_def sorted_paths_def)
qed

lemma no_conflicts:
  assumes "plan base desired local d = (changes, [])"
  shows "set (changed_names base desired local) = set (map ch_path changes)"
    and "parent_conflicts desired local (map ch_path changes) = []"
    and "content_conflicts desired local (map ch_path changes) d = []"
proof -
  have n: "map ch_path changes = filter (\<lambda>p. same_entry (dict_get local p) (dict_get base p)) (changed_names base desired local)"
    and e: "sorted_paths (filter (\<lambda>p. \<not> same_entry (dict_get local p) (dict_get base p)) (changed_names base desired local)
      @ parent_conflicts desired local (map ch_path changes) @ content_conflicts desired local (map ch_path changes) d) = []"
    using assms by (auto simp: plan_def plan_split_def Let_def partition_filter1 partition_filter2 comp_def split: prod.splits)
  have empty: "ps = []" if "sorted_paths ps = []" for ps
    using that by (simp add: sorted_paths_def) (metis remdups_eq_nil_iff set_empty set_sort sort_key_simps(1) length_sort length_0_conv)
  note e = empty [OF e]
  show "set (changed_names base desired local) = set (map ch_path changes)"
    using e unfolding n by (auto simp: filter_empty_conv)
  show "parent_conflicts desired local (map ch_path changes) = []" "content_conflicts desired local (map ch_path changes) d = []"
    using e by simp_all
qed

lemma plan_ready:
  assumes tree: "tree_ok d" and cap: "capture d = Inr (current, sigs)" and base: "manifest_ok base" and desired: "manifest_ok desired"
    and hidden: "\<And>p. dict_get desired p \<noteq> None \<Longrightarrow> node_at d p \<noteq> None \<Longrightarrow> inventoried d p"
    and plan: "plan base desired current d = (changes, [])"
  shows "ready (job pl current desired sigs) d (set (map ch_path changes))"
proof -
  let ?J = "job pl current desired sigs" and ?N = "set (map ch_path changes)"
  note cap = capture_facts [OF cap tree] and N = plan_names [OF plan] and none = no_conflicts [OF plan]
  have clean: "clean_change base desired current p" if "p \<in> ?N" for p using that unfolding N by simp
  have nil: "dict_get es [] = None" if "manifest_ok es" for es
    using that by (force simp: manifest_ok_def dict_get_None_iff)
  have root: "[] \<notin> ?N"
  proof
    assume "[] \<in> ?N"
    from clean [OF this] show False using nil [OF base] nil [OF desired] by (simp add: clean_change_def same_entry_def)
  qed
  have new: "node_at d p = None \<and> dict_get desired p \<noteq> None" if "p \<in> ?N" "dict_get current p = None" for p
  proof -
    have a: "dict_get desired p \<noteq> None"
      using clean [OF that(1)] that(2) by (cases "dict_get desired p") (auto simp: clean_change_def same_entry_def)
    have "node_at d p = None"
    proof (rule ccontr)
      assume "node_at d p \<noteq> None"
      then show False using hidden [OF a] that(2) cap(1) [of p] by (simp add: entry_at_def)
    qed
    then show ?thesis using a by simp
  qed
  have par: "is_dir_entry (dict_get current q) \<or> q \<in> ?N \<and> is_dir_entry (dict_get desired q)"
    if "p \<in> ?N" "dict_get desired p \<noteq> None" "q \<in> set (parents p)" for p q
    using none(2) that by (auto simp: parent_conflicts_def Let_def filter_empty_conv)
  have kids: "c \<in> ?N \<and> dict_get current c \<noteq> None \<and> dict_get desired c = None"
    if p: "p \<in> ?N" "is_dir_entry (dict_get current p)" "\<not> is_dir_entry (dict_get desired p)" and c: "c \<in> set (listing d p)" for p c
  proof -
    obtain m where m: "dict_get current p = Some (Directory m)" using p(2) by (auto simp: is_dir_entry_Some)
    have "p \<in> set (removals desired current (map ch_path changes))"
      using p m by (auto simp: removals_def is_dir_entry_def split: option.splits)
    then have gone: "c \<in> set (removals desired current (map ch_path changes))"
      using none(3) p(2) c by (auto simp: content_conflicts_def Let_def filter_empty_conv list_ex_iff)
    have "dict_get desired c = None"
    proof (rule ccontr)
      assume a: "dict_get desired c \<noteq> None"
      have "p \<noteq> []" using p(1) root by blast
      moreover from this have "c \<noteq> []" using c by (auto simp: in_listing)
      then have "below p c" using c below_butlast by (auto simp: in_listing)
      ultimately show False using manifest_parent [OF desired a] p(3) by blast
    qed
    then show ?thesis using gone by (auto simp: removals_def split: option.splits)
  qed
  have grown: "p \<in> ?N"
    if that': "dict_get desired p \<noteq> None" "below q p" "q \<in> ?N" "dict_get current q \<noteq> None" "\<not> is_dir_entry (dict_get current q)" for p q
  proof -
    have "q \<noteq> []" using that'(3) root by blast
    obtain x where x: "dict_get current q = Some x" using that'(4) by auto
    then have e: "entry_at d q = Some x" using cap(1) [of q] by (simp split: if_splits)
    have "same_entry (Some x) (dict_get base q)" using clean [OF that'(3)] x by (simp add: clean_change_def)
    then obtain y where "dict_get base q = Some y" "type_of y = type_of x"
      by (cases "dict_get base q") (auto simp: same_entry_def dest: arg_cong [of _ _ type_of])
    then have "\<not> is_dir_entry (dict_get base q)" using that'(5) x by (simp add: is_dir_entry_def)
    then have b: "dict_get base p = None" using manifest_parent [OF base _ that'(2) \<open>q \<noteq> []\<close>] by blast
    have "node_at d p = None"
    proof (rule ccontr)
      assume "node_at d p \<noteq> None"
      then have "directory_at d q" using tree_parent [OF tree _ that'(2)] by blast
      then show False using e that'(5) x \<open>q \<noteq> []\<close> by (simp add: directory_at_def is_dir_entry_def)
    qed
    then have "dict_get current p = None" using cap(1) [of p] by (simp add: entry_at_def)
    then show ?thesis using b that'(1) unfolding N by (auto simp: clean_change_def same_entry_def)
  qed
  show ?thesis
    unfolding ready_def job_simps
  proof (intro conjI)
    show "\<forall>p e. dict_get current p = Some e \<longrightarrow> entry_at d p = Some e \<and> dict_get sigs p = signature d p"
      using cap(1,2) by (auto split: if_splits)
    show "\<forall>p \<in> ?N. dict_get current p = None \<longrightarrow> node_at d p = None \<and> dict_get desired p \<noteq> None"
      using new by blast
    show "\<forall>p \<in> ?N. dict_get desired p \<noteq> None \<longrightarrow> (\<forall>q \<in> set (parents p).
        is_dir_entry (dict_get current q) \<or> q \<in> ?N \<and> is_dir_entry (dict_get desired q))"
      using par by blast
    show "\<forall>p \<in> ?N. is_dir_entry (dict_get current p) \<and> \<not> is_dir_entry (dict_get desired p) \<longrightarrow>
        (\<forall>c \<in> set (listing d p). c \<in> ?N \<and> dict_get current c \<noteq> None \<and> dict_get desired c = None)"
      using kids by blast
    show "\<forall>p. dict_get desired p \<noteq> None \<longrightarrow> (\<forall>q \<in> set (parents p). is_dir_entry (dict_get desired q))"
      using manifest_parent [OF desired] by (simp add: set_parents)
    show "\<forall>p q. dict_get desired p \<noteq> None \<and> below q p \<and> q \<in> ?N \<and> dict_get current q \<noteq> None
        \<and> \<not> is_dir_entry (dict_get current q) \<longrightarrow> p \<in> ?N"
      using grown by blast
  qed (use tree root cap(3) in simp_all)
qed

text \<open>
  C11: a plan without conflicts is applied completely and exactly. The captured directory, the base and the
  revision being trees of entries, and nothing left out of the capture standing in the way, every step
  of the application succeeds; afterwards each path that changed in the revision only has the entry of
  the revision, and every other path, captured or not, has the entry it had.
\<close>

theorem clean_plan_merges:
  assumes "tree_ok d" "capture d = Inr (current, sigs)" "manifest_ok base" "manifest_ok desired"
    and "\<And>p. dict_get desired p \<noteq> None \<Longrightarrow> node_at d p \<noteq> None \<Longrightarrow> inventoried d p"
    and "plan base desired current d = (changes, [])"
  shows "\<exists>w. apply_changes quiet (job pl current desired sigs) changes d = (None, w)
     \<and> entry_at (sw_disk w)
         = (\<lambda>p. if same_entry (dict_get base p) (dict_get desired p) \<or> same_entry (dict_get current p) (dict_get desired p)
                then entry_at d p else map_option (placed pl) (dict_get desired p))"
proof -
  note N = plan_names [OF assms(6)] and none = no_conflicts(1) [OF assms(6)]
  obtain w where w: "apply_changes quiet (job pl current desired sigs) changes d = (None, w)"
    "\<And>q. entry_at (sw_disk w) q = (if q \<in> set (map ch_path changes) then map_option (placed pl) (dict_get desired q) else entry_at d q)"
    using apply_ready [OF plan_ready [OF assms, of pl] N(2)] unfolding apply_changes_def job_simps by blast
  have "q \<in> set (map ch_path changes) \<longleftrightarrow>
      \<not> (same_entry (dict_get base q) (dict_get desired q) \<or> same_entry (dict_get current q) (dict_get desired q))" for q
    unfolding none [symmetric] changed_names_set by blast
  then show ?thesis using w by (auto simp: fun_eq_iff)
qed

end
