(* ===== verification/Sync_Safety.thy ===== *)
theory Sync_Safety
  imports Sync_Proofs
begin

text \<open>
  The synchronisation of \<open>Local_Sync\<close> while other programs write to the same directory, and what a
  second run makes of its result.
\<close>

section \<open>Other programs\<close>


definition fresh_clock :: "disk \<Rightarrow> bool" where
  "fresh_clock d \<longleftrightarrow> (\<forall>(p, n) \<in> set (dk_nodes d). nd_change n < dk_clock d)"










subsection \<open>The system calls keep the tree\<close>
















subsection \<open>Nothing unseen is destroyed\<close>


















section \<open>The synchronised directory\<close>

text \<open>A manifest that was captured from a tree, as every stored one is.\<close>

definition saved :: "entries \<Rightarrow> bool" where
  "saved es \<longleftrightarrow> (\<exists>d sigs. tree_ok d \<and> capture d = Inr (es, sigs))"

lemma walked_prefix: "walked g (p @ r) \<Longrightarrow> walked g p"
  by (induction p arbitrary: g) auto

lemma inventoried_up:
  assumes "inventoried d p" "below q p" "q \<noteq> []" "p \<noteq> [''.k41-agent'']"
  shows "inventoried d q"
proof -
  obtain r where p: "p = q @ r" using assms(2) by (auto simp: below_def strict_prefix_def prefix_def)
  obtain c cs where q: "q = c # cs" using assms(3) by (cases q) auto
  show ?thesis
  proof (cases "c = ''.k41-agent''")
    case True
    then have "cs @ r \<noteq> []" using assms(4) by (auto simp: p q)
    then show ?thesis using assms(1) True by (cases cs) (auto simp: p q inventoried_def dest: walked_prefix split: list.splits)
  next
    case False
    then show ?thesis using assms(1) walked_prefix [of False q r] by (simp add: p q inventoried_def)
  qed
qed

lemma saved_manifest: "saved es \<Longrightarrow> manifest_ok es"
proof -
  assume "saved es"
  then obtain d sigs where d: "tree_ok d" "capture d = Inr (es, sigs)" by (auto simp: saved_def)
  note cap = capture_facts [OF d(2,1)]
  have "is_dir_entry (dict_get es q)" if p: "p \<in> set (keys es)" and q: "q \<noteq> []" "below q p" for p q
  proof -
    have "dict_get es p \<noteq> None" using p by (auto simp: dict_get_None_iff)
    then have p': "inventoried d p" "node_at d p \<noteq> None" using cap(1) [of p] by (auto simp: entry_at_def split: if_splits)
    have dir: "directory_at d q" by (rule tree_parent [OF d(1) p'(2) q(2)])
    have "p \<noteq> [''.k41-agent'']" using q below_length [OF q(2)] by (cases q) auto
    then have "inventoried d q" using inventoried_up [OF p'(1) q(2,1)] by blast
    then show ?thesis using cap(1) [of q] dir q(1) by (simp add: directory_at_def is_dir_entry_def)
  qed
  moreover have "p \<noteq> []" if "p \<in> set (keys es)" for p
  proof
    assume "p = []"
    then have "dict_get es [] \<noteq> None" using that by (auto simp: dict_get_None_iff)
    then show False using cap(1) [of "[]"] by (simp add: inventoried_def)
  qed
  ultimately show ?thesis using cap(3) by (simp add: manifest_ok_def set_parents)
qed

lemma inventoried_differs:
  "inventoried d' p \<Longrightarrow> \<not> inventoried d p \<Longrightarrow> hd p = ''.k41-agent'' \<and> directory_at d' [''.k41-agent''] \<and> \<not> directory_at d [''.k41-agent'']"
  by (auto simp: inventoried_def split: list.splits if_splits)

text \<open>What the names of saved entries tell about another disk.\<close>

lemma saved_visible:
  assumes "saved es" "dict_get es p \<noteq> None" "hd p = ''.k41-agent'' \<Longrightarrow> directory_at d' [''.k41-agent'']"
  shows "inventoried d' p"
proof -
  obtain d sigs where d: "tree_ok d" "capture d = Inr (es, sigs)" using assms(1) by (auto simp: saved_def)
  have "inventoried d p" using capture_facts(1) [OF d(2,1), of p] assms(2) by (auto split: if_splits)
  then show ?thesis using assms(3) by (auto simp: inventoried_def split: list.splits if_splits)
qed

lemma saved_agent_directory: "saved es \<Longrightarrow> dict_get es [''.k41-agent''] \<noteq> None \<Longrightarrow> is_dir_entry (dict_get es [''.k41-agent''])"
proof -
  assume es: "saved es" "dict_get es [''.k41-agent''] \<noteq> None"
  then obtain d sigs where d: "tree_ok d" "capture d = Inr (es, sigs)" by (auto simp: saved_def)
  then show ?thesis
    using capture_facts(1) [OF d(2,1), of "[''.k41-agent'']"] es(2)
    by (auto simp: inventoried_def directory_at_def is_dir_entry_def split: if_splits)
qed

definition portable_links :: "platform \<Rightarrow> entries \<Rightarrow> bool" where
  "portable_links pl es \<longleftrightarrow> (\<forall>(p, e) \<in> set es. case e of Symlink m t \<Rightarrow> permissions m = permissions (pl_link_mode pl) | _ \<Rightarrow> True)"

lemma permissions_twice [simp]: "permissions (permissions m) = permissions m"
  by (simp add: permissions_def)

lemma placed_same: "portable_links pl es \<Longrightarrow> dict_get es p = Some e \<Longrightarrow> comparable (placed pl e) = comparable e"
  by (cases e) (auto simp: portable_links_def comparable_def dest!: dict_get_in)

lemma verify_None:
  "verify base desired actual = None \<longleftrightarrow>
     (\<forall>p. same_entry (dict_get base p) (dict_get desired p) \<or> same_entry (dict_get actual p) (dict_get desired p))"
proof -
  have "p \<in> set (keys base @ keys desired)" if "\<not> same_entry (dict_get base p) (dict_get desired p)" for p
  proof (rule ccontr)
    assume "p \<notin> set (keys base @ keys desired)"
    then have "dict_get base p = None" "dict_get desired p = None" by (simp_all add: dict_get_None_iff)
    then show False using that by (simp add: same_entry_def)
  qed
  then show ?thesis unfolding verify_def list_ex_iff by (metis option.distinct(1))
qed

lemma settled_plan:
  assumes "\<And>p. same_entry (dict_get base p) (dict_get desired p) \<or> same_entry (dict_get actual p) (dict_get desired p)"
  shows "plan base desired actual d = ([], [])"
proof -
  have "changed_names base desired actual = []" using assms by (auto simp: changed_names_def filter_empty_conv)
  then show ?thesis
    by (simp add: plan_def plan_split_def parent_conflicts_def content_conflicts_def removals_def sorted_paths_def)
qed

text \<open>
  After an application that met no error: the names \<open>N\<close> it changed, the disk \<open>d'\<close> it left, and what a capture
  finds there.
\<close>

definition applied_run :: "platform \<Rightarrow> entries \<Rightarrow> entries \<Rightarrow> entries \<Rightarrow> path set \<Rightarrow> disk \<Rightarrow> disk \<Rightarrow> entries \<Rightarrow> bool" where
  "applied_run pl base current desired N d d' actual \<longleftrightarrow>
     saved desired \<and> tree_ok d \<and> (\<exists>sigs. ready (job pl current desired sigs) d N)
     \<and> (\<forall>p. dict_get current p = (if inventoried d p then entry_at d p else None))
     \<and> (\<forall>p. dict_get actual p = (if inventoried d' p then entry_at d' p else None))
     \<and> (\<forall>p. p \<in> N \<longleftrightarrow> \<not> same_entry (dict_get base p) (dict_get desired p) \<and> \<not> same_entry (dict_get current p) (dict_get desired p))
     \<and> (\<forall>p. entry_at d' p = (if p \<in> N then map_option (placed pl) (dict_get desired p) else entry_at d p))"

lemma applied_runD:
  assumes "applied_run pl base current desired N d d' actual"
  shows "saved desired" "tree_ok d" "\<exists>sigs. ready (job pl current desired sigs) d N"
    and "dict_get current p = (if inventoried d p then entry_at d p else None)"
    and "dict_get actual p = (if inventoried d' p then entry_at d' p else None)"
    and "p \<in> N \<longleftrightarrow> \<not> same_entry (dict_get base p) (dict_get desired p) \<and> \<not> same_entry (dict_get current p) (dict_get desired p)"
    and "entry_at d' p = (if p \<in> N then map_option (placed pl) (dict_get desired p) else entry_at d p)"
  using assms unfolding applied_run_def by blast+

lemma below_agent: "p \<noteq> [] \<Longrightarrow> hd p = a \<Longrightarrow> p \<noteq> [a] \<Longrightarrow> below [a] p"
  by (cases p) (simp_all add: below_def strict_prefix_def)

lemma applied_gone:
  assumes run: "applied_run pl base current desired N d d' actual"
    and p: "\<not> same_entry (dict_get base p) (dict_get desired p)" "dict_get desired p = None"
  shows "dict_get actual p = None"
proof (cases "p \<in> N")
  case True
  then show ?thesis using applied_runD(5,7) [OF run, of p] p(2) by simp
next
  case False
  note E = applied_runD(7) [OF run]
  have gone: "dict_get current p = None"
    using applied_runD(6) [OF run, of p] False p by (auto simp: same_entry_def split: option.splits)
  show ?thesis
  proof (rule ccontr)
    assume "dict_get actual p \<noteq> None"
    then have v: "inventoried d' p" "entry_at d p \<noteq> None"
      using applied_runD(5) [OF run, of p] E [of p] False by (auto split: if_splits)
    then have "\<not> inventoried d p" using gone applied_runD(4) [OF run, of p] by auto
    note agent = inventoried_differs [OF v(1) this]
    have "p \<noteq> []" using v(1) by (auto simp: inventoried_def)
    then have "below [''.k41-agent''] p \<or> p = [''.k41-agent'']"
      using below_agent agent by blast
    then show False
    proof
      assume "below [''.k41-agent''] p"
      then show False using tree_parent [OF applied_runD(2) [OF run]] v(2) agent by (auto simp: entry_at_def)
    next
      assume "p = [''.k41-agent'']"
      then show False using agent v(2) E [of p] False by (simp add: directory_at_def)
    qed
  qed
qed

text \<open>A directory above a wanted entry is there, changed or not.\<close>

lemma applied_parent:
  assumes run: "applied_run pl base current desired N d d' actual"
    and p: "\<not> same_entry (dict_get base p) (dict_get desired p)" "dict_get desired p \<noteq> None" "below q p" "q \<noteq> []"
  shows "q \<in> N \<or> is_dir_entry (entry_at d q)"
proof (cases "p \<in> N")
  case True
  obtain sigs where "ready (job pl current desired sigs) d N" using applied_runD(3) [OF run] ..
  then show ?thesis using readyD(8) [of "job pl current desired sigs", OF _ True _ p(3,4)] p(2) applied_runD(4) [OF run, of q]
    by (auto simp: is_dir_entry_def split: if_splits)
next
  case False
  then have "same_entry (dict_get current p) (dict_get desired p)" using applied_runD(6) [OF run, of p] p(1) by simp
  then have "dict_get current p \<noteq> None" using p(2) by (cases "dict_get current p") (auto simp: same_entry_def)
  then have "node_at d p \<noteq> None" using applied_runD(4) [OF run, of p] by (auto simp: entry_at_def split: if_splits)
  then show ?thesis using tree_parent [OF applied_runD(2) [OF run] _ p(3)] p(4) by (simp add: directory_at_def is_dir_entry_def)
qed

lemma applied_itself:
  assumes run: "applied_run pl base current desired N d d' actual"
    and p: "\<not> same_entry (dict_get base p) (dict_get desired p)" "is_dir_entry (dict_get desired p)"
  shows "p \<in> N \<or> is_dir_entry (entry_at d p)"
proof (cases "p \<in> N")
  case False
  then have "same_entry (dict_get current p) (dict_get desired p)" using applied_runD(6) [OF run, of p] p(1) by simp
  moreover obtain e where e: "dict_get desired p = Some e" "is_directory e" using p(2) by (auto simp: is_dir_entry_Some)
  ultimately obtain x where x: "dict_get current p = Some x" "same_entry (Some x) (Some e)"
    by (cases "dict_get current p") (auto simp: same_entry_def)
  then have "is_directory x" using same_entry_type [of x e] e by simp
  moreover have "entry_at d p = Some x" using applied_runD(4) [OF run, of p] x(1) by (simp split: if_splits)
  ultimately show ?thesis by (simp add: is_dir_entry_def)
qed simp

lemma applied_agent:
  assumes run: "applied_run pl base current desired N d d' actual"
    and p: "\<not> same_entry (dict_get base p) (dict_get desired p)" "dict_get desired p \<noteq> None" "hd p = ''.k41-agent''"
  shows "directory_at d' [''.k41-agent'']"
proof -
  let ?agent = "[''.k41-agent'']"
  note desired = saved_manifest [OF applied_runD(1) [OF run]]
  have "p \<noteq> []" using p(2) desired by (auto simp: manifest_ok_def dest!: dict_get_Some_key)
  then have "p = ?agent \<or> below ?agent p" using below_agent [of p] p(3) by blast
  then have "is_dir_entry (dict_get desired ?agent) \<and> (?agent \<in> N \<or> is_dir_entry (entry_at d ?agent))"
  proof
    assume a: "p = ?agent"
    then have "is_dir_entry (dict_get desired ?agent)" using saved_agent_directory [OF applied_runD(1) [OF run]] p(2) by simp
    then show ?thesis using applied_itself [OF run p(1)] a by simp
  next
    assume "below ?agent p"
    then show ?thesis using applied_parent [OF run p(1,2)] manifest_parent [OF desired p(2)] by simp
  qed
  then show ?thesis
    using applied_runD(7) [OF run, of ?agent] by (auto simp: directory_at_def is_dir_entry_Some split: if_splits)
qed

lemma applied_same:
  assumes run: "applied_run pl base current desired N d d' actual" and links: "portable_links pl desired"
    and p: "\<not> same_entry (dict_get base p) (dict_get desired p)"
  shows "same_entry (dict_get actual p) (dict_get desired p)"
proof (cases "dict_get desired p")
  case None
  then show ?thesis using applied_gone [OF run p] by (simp add: same_entry_def)
next
  case (Some e)
  note E = applied_runD(7) [OF run, of p]
  have "inventoried d' p"
    using saved_visible [OF applied_runD(1) [OF run], of p d'] applied_agent [OF run p] Some by simp
  then have act: "dict_get actual p = entry_at d' p" using applied_runD(5) [OF run] by simp
  show ?thesis
  proof (cases "p \<in> N")
    case True
    then show ?thesis using act E placed_same [OF links Some] Some by (simp add: same_entry_iff)
  next
    case False
    then have same: "same_entry (dict_get current p) (dict_get desired p)" using applied_runD(6) [OF run, of p] p by blast
    then have "dict_get current p = entry_at d p"
      using applied_runD(4) [OF run, of p] Some by (auto simp: same_entry_def split: if_splits)
    then show ?thesis using act E False same by simp
  qed
qed

text \<open>
  C26: what a clean plan leaves passes the synchronisation's own check, and planning again finds neither
  changes nor conflicts, if the base and the revision are saved manifests, the symbolic links of
  the revision have the permission bits that the platform gives to links, the directory is a tree of entries before
  and after, nothing was left out of the capture where the revision has an entry, and no other program writes during the application.
\<close>

theorem applied_plan_settles:
  assumes "tree_ok d" "capture d = Inr (current, sigs)" "saved base" "saved desired"
    and "\<And>p. dict_get desired p \<noteq> None \<Longrightarrow> node_at d p \<noteq> None \<Longrightarrow> inventoried d p"
    and "plan base desired current d = (changes, [])"
    and "portable_links pl desired"
    and "apply_changes quiet (job pl current desired sigs) changes d = (None, w)"
    and "tree_ok (sw_disk w)" "capture (sw_disk w) = Inr (actual, sigs')"
  shows "verify base desired actual = None \<and> plan base desired actual (sw_disk w) = ([], [])"
proof -
  let ?N = "set (map ch_path changes)" and ?J = "job pl current desired sigs" and ?d = "sw_disk w"
  have ready: "ready ?J d ?N"
    by (rule plan_ready [OF assms(1,2) saved_manifest [OF assms(3)] saved_manifest [OF assms(4)] assms(5,6)])
  have "entry_at ?d p = (if p \<in> ?N then map_option (placed pl) (dict_get desired p) else entry_at d p)" for p
    using apply_ready [OF ready plan_names(2) [OF assms(6)]] assms(8) by (simp add: apply_changes_def)
  moreover have "p \<in> ?N \<longleftrightarrow> \<not> same_entry (dict_get base p) (dict_get desired p) \<and> \<not> same_entry (dict_get current p) (dict_get desired p)" for p
    unfolding no_conflicts(1) [OF assms(6), symmetric] by (rule changed_names_set)
  ultimately have run: "applied_run pl base current desired ?N d ?d actual"
    unfolding applied_run_def using ready assms(1,4) capture_facts(1) [OF assms(2,1)] capture_facts(1) [OF assms(10,9)] by blast
  have "same_entry (dict_get base p) (dict_get desired p) \<or> same_entry (dict_get actual p) (dict_get desired p)" for p
    using applied_same [OF run assms(7)] by blast
  then show ?thesis using verify_None settled_plan by blast
qed

section \<open>Concrete runs\<close>

definition demo_text :: "nat \<Rightarrow> file_data" where
  "demo_text k = \<lparr>fd_size = k, fd_checksum = [], fd_chunks = []\<rparr>"

definition demo_node :: "entry \<Rightarrow> nat \<Rightarrow> node" where
  "demo_node e k = \<lparr>nd_entry = e, nd_inode = k, nd_change = k\<rparr>"

text \<open>The file \<open>a\<close> becomes a directory; the file \<open>u\<close> is only there locally.\<close>

definition demo_disk :: disk where
  "demo_disk = \<lparr>dk_nodes = [([''a''], demo_node (File 420 (demo_text 1)) 1), ([''u''], demo_node (File 420 (demo_text 2)) 2)], dk_clock = 3\<rparr>"

definition demo_base :: entries where
  "demo_base = [([''a''], File 420 (demo_text 1))]"

definition demo_desired :: entries where
  "demo_desired = [([''a''], Directory 493), ([''a'', ''b''], File 420 (demo_text 3))]"

definition demo_current :: entries where
  "demo_current = [([''a''], File 420 (demo_text 1)), ([''u''], File 420 (demo_text 2))]"

definition demo_signatures :: "(path, nat \<times> nat) dict" where
  "demo_signatures = [([''a''], (1, 1)), ([''u''], (2, 2))]"

definition demo_changes :: "change list" where
  "demo_changes = [\<lparr>ch_path = [''a''], ch_action = Update\<rparr>, \<lparr>ch_path = [''a'', ''b''], ch_action = Add\<rparr>]"

definition linux :: platform where
  "linux = \<lparr>pl_link_mode = 511, pl_directory_mode = 493\<rparr>"

lemma demo_facts:
  "tree_ok demo_disk" "capture demo_disk = Inr (demo_current, demo_signatures)" "manifest_ok demo_base" "manifest_ok demo_desired"
  "plan demo_base demo_desired demo_current demo_disk = (demo_changes, [])" "fresh_clock demo_disk"
  unfolding tree_ok_def manifest_ok_def fresh_clock_def is_dict_def by code_simp+

lemma demo_visible: "dict_get demo_desired p \<noteq> None \<Longrightarrow> node_at demo_disk p \<noteq> None \<Longrightarrow> inventoried demo_disk p"
  by (auto simp: demo_desired_def demo_disk_def node_at_def inventoried_def EXCLUDED_def split: if_splits)

theorem clean_plan_merges_witness:
  "\<exists>w. apply_changes quiet (job linux demo_current demo_desired demo_signatures) demo_changes demo_disk = (None, w)
     \<and> entry_at (sw_disk w) [''a''] = Some (Directory 493) \<and> entry_at (sw_disk w) [''u''] = Some (File 420 (demo_text 2))"
proof -
  obtain w where w: "apply_changes quiet (job linux demo_current demo_desired demo_signatures) demo_changes demo_disk = (None, w)"
    and E: "entry_at (sw_disk w) = (\<lambda>p. if same_entry (dict_get demo_base p) (dict_get demo_desired p)
        \<or> same_entry (dict_get demo_current p) (dict_get demo_desired p)
      then entry_at demo_disk p else map_option (placed linux) (dict_get demo_desired p))"
    using clean_plan_merges [OF demo_facts(1-4) demo_visible demo_facts(5), of linux] by blast
  have "entry_at (sw_disk w) [''a''] = Some (Directory 493)" "entry_at (sw_disk w) [''u''] = Some (File 420 (demo_text 2))"
    unfolding E by code_simp+
  then show ?thesis using w by blast
qed






text \<open>The disks that the base and the revision were saved from, and the result of the run.\<close>

definition base_disk :: disk where
  "base_disk = \<lparr>dk_nodes = [([''a''], demo_node (File 420 (demo_text 1)) 1)], dk_clock = 2\<rparr>"

definition desired_disk :: disk where
  "desired_disk = \<lparr>dk_nodes = [([''a''], demo_node (Directory 493) 1), ([''a'', ''b''], demo_node (File 420 (demo_text 3)) 2)], dk_clock = 3\<rparr>"

definition demo_result :: sync_world where
  "demo_result = snd (apply_changes quiet (job linux demo_current demo_desired demo_signatures) demo_changes demo_disk)"

definition demo_actual :: entries where
  "demo_actual = [([''u''], File 420 (demo_text 2)), ([''a''], Directory 493), ([''a'', ''b''], File 420 (demo_text 3))]"

theorem applied_plan_settles_witness:
  "verify demo_base demo_desired demo_actual = None \<and> plan demo_base demo_desired demo_actual (sw_disk demo_result) = ([], [])"
proof -
  have disks: "tree_ok base_disk" "tree_ok desired_disk" "tree_ok (sw_disk demo_result)"
    unfolding tree_ok_def is_dict_def by code_simp+
  have "capture base_disk = Inr (demo_base, [([''a''], 1, 1)])"
    "capture desired_disk = Inr (demo_desired, [([''a''], 1, 1), ([''a'', ''b''], 2, 2)])" by code_simp+
  then have saved: "saved demo_base" "saved demo_desired" using disks unfolding saved_def by blast+
  have cap: "capture (sw_disk demo_result) = Inr (demo_actual, [([''u''], 2, 2), ([''a''], 7, 7), ([''a'', ''b''], 7, 7)])" by code_simp
  have "fst (apply_changes quiet (job linux demo_current demo_desired demo_signatures) demo_changes demo_disk) = None" by code_simp
  then have run: "apply_changes quiet (job linux demo_current demo_desired demo_signatures) demo_changes demo_disk = (None, demo_result)"
    unfolding demo_result_def by (simp add: prod_eq_iff)
  have "portable_links linux demo_desired" unfolding portable_links_def by code_simp
  from applied_plan_settles [OF demo_facts(1,2) saved demo_visible demo_facts(5) this run disks(3) cap] show ?thesis .
qed

section \<open>A permission that is never applied\<close>

definition mac :: platform where
  "mac = \<lparr>pl_link_mode = 493, pl_directory_mode = 493\<rparr>"

definition link_disk :: disk where
  "link_disk = \<lparr>dk_nodes = [([''l''], demo_node (Symlink 493 ''t'') 1)], dk_clock = 2\<rparr>"

definition link_run :: "sync_error option \<times> sync_world" where
  "link_run = apply_changes quiet (job mac [([''l''], Symlink 493 ''t'')] [([''l''], Symlink 511 ''t'')] [([''l''], (1, 1))])
     [\<lparr>ch_path = [''l''], ch_action = Update\<rparr>] link_disk"

text \<open>
  Where symbolic links have other permission bits than in the sandbox (on macOS 0755 instead of 0777), a
  link that nobody touched counts as changed in the revision; it is rewritten without an error, and the check
  that follows fails as if the files had changed meanwhile: the link is captured as before.
\<close>

theorem link_mode_never_settles:
  "plan [([''l''], Symlink 493 ''t'')] [([''l''], Symlink 511 ''t'')] [([''l''], Symlink 493 ''t'')] link_disk
      = ([\<lparr>ch_path = [''l''], ch_action = Update\<rparr>], [])
   \<and> fst link_run = None
   \<and> map_sum id fst (capture (sw_disk (snd link_run))) = Inr [([''l''], Symlink 493 ''t'')]
   \<and> verify [([''l''], Symlink 493 ''t'')] [([''l''], Symlink 511 ''t'')] [([''l''], Symlink 493 ''t'')] = Some Stale_content"
  by (intro conjI) code_simp+

end
