(* ===== verification/Entry_Replacement.thy ===== *)
theory Entry_Replacement
  imports Local_Sync
begin

text \<open>
  The steps inside \<open>_replace_entry\<close> of \<open>agent/modules/projects/local_sync.py\<close>, its recovery record and
  \<open>_settle_replacement\<close>: an entry gives way to one of another type through a temporary directory beside it.
  The process may stop between any two system calls, inside the preparation and inside the removal of the
  temporary directory; other programs may write to the path. A tree is a value of any type \<open>'t\<close>.
\<close>

section \<open>The operations\<close>

text \<open>
  The path, the temporary directory with its entries \<open>original\<close> and \<open>replacement\<close>, and whether the
  recovery record is on disk.
\<close>

record 't place =
  pl_path :: "'t option"
  pl_temporary :: bool
  pl_original :: "'t option"
  pl_replacement :: "'t option"
  pl_record :: bool

definition write_record :: "'t place \<Rightarrow> 't place" where
  "write_record p = p\<lparr>pl_record := True\<rparr>"

definition make_temporary :: "'t place \<Rightarrow> 't place" where
  "make_temporary p = p\<lparr>pl_temporary := True\<rparr>"

definition prepare_entry :: "'t \<Rightarrow> 't place \<Rightarrow> 't place" where
  "prepare_entry t p = p\<lparr>pl_replacement := Some t\<rparr>"

text \<open>\<open>path.rename(temporary / "original")\<close>, which follows the check of every captured child.\<close>

definition move_away :: "'t \<Rightarrow> 't place \<Rightarrow> 't place option" where
  "move_away old p = (if pl_path p = Some old then Some (p\<lparr>pl_path := None, pl_original := Some old\<rparr>) else None)"

definition publish_entry :: "'t place \<Rightarrow> 't place option" where
  "publish_entry p =
     (if pl_path p = None \<and> pl_replacement p \<noteq> None then Some (p\<lparr>pl_path := pl_replacement p, pl_replacement := None\<rparr>) else None)"

text \<open>\<open>_settle_replacement\<close> up to \<open>_discard\<close>, and the whole \<open>_discard\<close>.\<close>

definition settle_entry :: "'t place \<Rightarrow> sync_error + 't place" where
  "settle_entry p =
     (case pl_original p of
        None \<Rightarrow> Inr p
      | Some t \<Rightarrow>
          if pl_path p = None then Inr (p\<lparr>pl_path := Some t, pl_original := None\<rparr>)
          else if pl_replacement p \<noteq> None then Inl Local_sync_conflict
          else Inr p)"

definition discard_temporary :: "'t place \<Rightarrow> 't place" where
  "discard_temporary p = p\<lparr>pl_temporary := False, pl_original := None, pl_replacement := None\<rparr>"

definition erase_record :: "'t place \<Rightarrow> 't place" where
  "erase_record p = p\<lparr>pl_record := False\<rparr>"

text \<open>\<open>_recover_replacement\<close> without interruption.\<close>

definition recover_replacement :: "'t place \<Rightarrow> sync_error + 't place" where
  "recover_replacement p =
     (if \<not> pl_record p then Inr p
      else (case settle_entry p of Inl e \<Rightarrow> Inl e | Inr p \<Rightarrow> Inr (erase_record (discard_temporary p))))"

section \<open>The machine\<close>

text \<open>Where the process is; \<open>Down\<close> after a crash, \<open>Refused\<close> after the conflict that \<open>_settle_replacement\<close> reports.\<close>

datatype stage = Start | Recorded | Made | Prepared | Moved | Settling | Discarding | Erasing | Over | Down | Refused

text \<open>
  The steps of the process: each of the calls, an exception of any of them (\<open>finally\<close>), the partial copies of
  the preparation, the partial removals of \<open>_discard\<close>, a crash at any point, and the next
  start, which recovers if there is a record.
\<close>

inductive replace_step :: "'t \<Rightarrow> 't \<Rightarrow> stage \<times> 't place \<Rightarrow> stage \<times> 't place \<Rightarrow> bool" for old new where
  record_step: "replace_step old new (Start, p) (Recorded, write_record p)"
| make: "replace_step old new (Recorded, p) (Made, make_temporary p)"
| copying: "replace_step old new (Made, p) (Made, prepare_entry t p)"
| prepared: "replace_step old new (Made, p) (Prepared, prepare_entry new p)"
| move: "move_away old p = Some q \<Longrightarrow> replace_step old new (Prepared, p) (Moved, q)"
| publish: "publish_entry p = Some q \<Longrightarrow> replace_step old new (Moved, p) (Settling, q)"
| fail: "s \<in> {Recorded, Made, Prepared, Moved} \<Longrightarrow> replace_step old new (s, p) (Settling, p)"
| settle: "settle_entry p = Inr q \<Longrightarrow> replace_step old new (Settling, p) (Discarding, q)"
| refuse: "settle_entry p = Inl e \<Longrightarrow> replace_step old new (Settling, p) (Refused, p)"
| discarding: "pl_original p \<noteq> None \<Longrightarrow> replace_step old new (Discarding, p) (Discarding, p\<lparr>pl_original := Some t\<rparr>)"
| discarded_original: "replace_step old new (Discarding, p) (Discarding, p\<lparr>pl_original := None\<rparr>)"
| discarded_replacement: "replace_step old new (Discarding, p) (Discarding, p\<lparr>pl_replacement := None\<rparr>)"
| discard: "replace_step old new (Discarding, p) (Erasing, discard_temporary p)"
| erase: "replace_step old new (Erasing, p) (Over, erase_record p)"
| crash: "replace_step old new (s, p) (Down, p)"
| restart: "s \<in> {Down, Refused} \<Longrightarrow> replace_step old new (s, p) (if pl_record p then Settling else Over, p)"

text \<open>Another program creates, changes or removes the entry at the path.\<close>

inductive outside_step :: "stage \<times> 't place \<Rightarrow> stage \<times> 't place \<Rightarrow> bool" where
  "outside_step (s, p) (s, p\<lparr>pl_path := x\<rparr>)"

inductive_cases replace_stepE: "replace_step old new (s, p) (s', p')"

definition untouched :: "'t \<Rightarrow> 't place" where
  "untouched old = \<lparr>pl_path = Some old, pl_temporary = False, pl_original = None, pl_replacement = None, pl_record = False\<rparr>"

text \<open>What the process alone can reach, and what it can reach among other programs.\<close>

inductive alone :: "'t \<Rightarrow> 't \<Rightarrow> stage \<times> 't place \<Rightarrow> bool" for old new where
  alone_start: "alone old new (Start, untouched old)"
| alone_step: "alone old new x \<Longrightarrow> replace_step old new x y \<Longrightarrow> alone old new y"

section \<open>All or nothing\<close>

text \<open>
  The states between the steps: before the original was moved, while it is away, and after the publication.
  A crash may follow any of them.
\<close>

definition at_old :: "'t \<Rightarrow> 't place \<Rightarrow> bool" where
  "at_old old p \<longleftrightarrow> pl_path p = Some old \<and> pl_original p = None"

definition away :: "'t \<Rightarrow> 't \<Rightarrow> 't place \<Rightarrow> bool" where
  "away old new p \<longleftrightarrow> pl_path p = None \<and> pl_original p = Some old \<and> pl_replacement p = Some new"

definition at_new :: "'t \<Rightarrow> 't place \<Rightarrow> bool" where
  "at_new new p \<longleftrightarrow> pl_path p = Some new \<and> pl_replacement p = None"

definition clear :: "'t place \<Rightarrow> bool" where
  "clear p \<longleftrightarrow> \<not> pl_temporary p \<and> pl_original p = None \<and> pl_replacement p = None"

definition between :: "'t \<Rightarrow> 't \<Rightarrow> stage \<times> 't place \<Rightarrow> bool" where
  "between old new x \<longleftrightarrow> (case x of (s, p) \<Rightarrow>
     (at_old old p \<or> away old new p \<or> at_new new p)
     \<and> (pl_record p \<or> clear p \<and> pl_path p \<noteq> None)
     \<and> (s = Start \<longrightarrow> clear p \<and> at_old old p)
     \<and> (s \<in> {Recorded, Made, Prepared} \<longrightarrow> at_old old p \<and> pl_record p)
     \<and> (s = Prepared \<longrightarrow> pl_replacement p = Some new)
     \<and> (s = Moved \<longrightarrow> away old new p)
     \<and> (s = Discarding \<longrightarrow> at_old old p \<or> at_new new p)
     \<and> (s = Erasing \<longrightarrow> clear p \<and> pl_path p \<noteq> None)
     \<and> (s = Over \<longrightarrow> clear p \<and> \<not> pl_record p)
     \<and> s \<noteq> Refused)"

lemmas place_defs = write_record_def make_temporary_def prepare_entry_def move_away_def publish_entry_def settle_entry_def
  discard_temporary_def erase_record_def at_old_def away_def at_new_def clear_def between_def

lemma between_step: "replace_step old new x y \<Longrightarrow> between old new x \<Longrightarrow> between old new y"
  by (induction rule: replace_step.induct) (auto simp: place_defs split: if_splits option.splits)

lemma alone_between: "alone old new x \<Longrightarrow> between old new x"
proof (induction rule: alone.induct)
  case alone_start
  show ?case by (simp add: place_defs untouched_def)
next
  case (alone_step x y)
  then show ?case by (blast intro: between_step)
qed

lemma between_path:
  assumes "between old new (s, p)"
  shows "pl_path p \<in> {Some old, Some new, None}" "pl_path p = None \<Longrightarrow> pl_original p = Some old \<and> pl_record p"
  using assms unfolding between_def prod.case by (elim conjE; auto simp: at_old_def away_def at_new_def)+

lemma between_recovers: "between old new (s, p) \<Longrightarrow> recover_replacement p \<in> {Inr (untouched old), Inr (untouched new)}"
  by (cases p) (auto simp: place_defs recover_replacement_def untouched_def split: option.splits if_splits)

lemma between_over: "between old new (Over, p) \<Longrightarrow> p \<in> {untouched old, untouched new}"
  by (cases p) (auto simp: place_defs untouched_def)

text \<open>
  C12: An entry is replaced by one of another type all or nothing. Wherever the process stops, inside a copy or a
  removal too, the path holds the old entry or the new one, or the old one is kept complete in the temporary
  directory that the record on disk names. Recovery from there never reports a conflict and ends with the old
  entry or the new one and without temporary directory or record, as does the replacement that is not stopped.
\<close>

theorem replacement_is_all_or_nothing:
  assumes "alone old new (s, p)"
  shows "s \<noteq> Refused
    \<and> pl_path p \<in> {Some old, Some new, None}
    \<and> (pl_path p = None \<longrightarrow> pl_original p = Some old \<and> pl_record p)
    \<and> (s = Over \<longrightarrow> p \<in> {untouched old, untouched new})
    \<and> recover_replacement p \<in> {Inr (untouched old), Inr (untouched new)}"
proof -
  have B: "between old new (s, p)"
    using assms by (rule alone_between)
  have R: "s \<noteq> Refused"
    using B by (simp add: between_def)
  show ?thesis
  proof (intro conjI impI)
    show "p \<in> {untouched old, untouched new}" if "s = Over"
      using B that by (simp only: between_over)
  qed (use R between_path [OF B] between_recovers [OF B] in simp_all)
qed

text \<open>The process stops between the two renames.\<close>

definition stopped_between :: "int place" where
  "stopped_between = \<lparr>pl_path = None, pl_temporary = True, pl_original = Some 1, pl_replacement = Some 2, pl_record = True\<rparr>"

lemma reaches_stopped_between: "alone 1 2 (Down, stopped_between)"
proof -
  have "alone 1 2 (Made, make_temporary (write_record (untouched (1::int))))"
    by (meson alone_start alone_step record_step make)
  then have P: "alone 1 2 (Prepared, prepare_entry 2 (make_temporary (write_record (untouched (1::int)))))"
    by (rule alone_step) (rule prepared)
  have M: "move_away 1 (prepare_entry 2 (make_temporary (write_record (untouched 1)))) = Some stopped_between"
    by code_simp
  show ?thesis
    by (rule alone_step [OF alone_step [OF P move [OF M]] crash])
qed

theorem replacement_is_all_or_nothing_witness:
  "alone 1 2 (Down, stopped_between) \<and> recover_replacement stopped_between \<in> {Inr (untouched 1), Inr (untouched 2)}"
  using replacement_is_all_or_nothing [OF reaches_stopped_between] reaches_stopped_between by blast

section \<open>Other programs\<close>

text \<open>What the process reaches while other programs write to the path at any time.\<close>

inductive among :: "'t \<Rightarrow> 't \<Rightarrow> stage \<times> 't place \<Rightarrow> bool" for old new where
  among_start: "among old new (Start, untouched old)"
| among_step: "among old new x \<Longrightarrow> replace_step old new x y \<Longrightarrow> among old new y"
| among_outside: "among old new x \<Longrightarrow> outside_step x y \<Longrightarrow> among old new y"

text \<open>
  An unpublished original is complete, and the removal of the temporary directory begins only without one or
  after the publication.
\<close>

definition kept :: "'t \<Rightarrow> stage \<times> 't place \<Rightarrow> bool" where
  "kept old x \<longleftrightarrow> (case x of (s, p) \<Rightarrow>
     (pl_replacement p \<noteq> None \<longrightarrow> pl_original p \<in> {None, Some old})
     \<and> (s \<in> {Start, Recorded, Made, Prepared} \<longrightarrow> pl_original p = None)
     \<and> (s = Moved \<longrightarrow> pl_replacement p \<noteq> None)
     \<and> (s = Prepared \<longrightarrow> pl_replacement p \<noteq> None)
     \<and> (s = Discarding \<longrightarrow> pl_original p = None \<or> pl_replacement p = None))"

lemma kept_step: "replace_step old new x y \<Longrightarrow> kept old x \<Longrightarrow> kept old y"
  by (induction rule: replace_step.induct) (auto simp: place_defs kept_def split: if_splits option.splits)

lemma among_kept: "among old new x \<Longrightarrow> kept old x"
proof (induction rule: among.induct)
  case among_start
  show ?case by (simp add: kept_def untouched_def)
next
  case (among_step x y)
  then show ?case by (blast intro: kept_step)
next
  case (among_outside x y)
  from among_outside.hyps(2) among_outside.IH show ?case
    by (cases rule: outside_step.cases) (simp add: kept_def)
qed

lemma step_moves_only_old:
  "replace_step old new x y \<Longrightarrow> pl_path (snd x) = Some t \<Longrightarrow> pl_path (snd y) = Some t \<or> t = old \<and> pl_original (snd y) = Some old"
  by (induction rule: replace_step.induct) (auto simp: place_defs split: if_splits option.splits)

lemma step_holds_old:
  "replace_step old new x y \<Longrightarrow> kept old x \<Longrightarrow> pl_original (snd x) \<noteq> None \<Longrightarrow> pl_replacement (snd x) \<noteq> None
    \<Longrightarrow> pl_original (snd y) = Some old \<or> pl_path (snd y) = Some old"
  by (induction rule: replace_step.induct) (auto simp: place_defs kept_def split: if_splits option.splits)

lemma settle_conflict: 
  "settle_entry p = Inl e \<Longrightarrow> pl_original p \<noteq> None \<and> pl_replacement p \<noteq> None \<and> pl_path p \<noteq> None"
  by (auto simp: settle_entry_def split: option.splits if_splits)

lemma refused_step: "replace_step old new x y \<Longrightarrow> fst y = Refused \<Longrightarrow> snd y = snd x \<and> settle_entry (snd y) = Inl Local_sync_conflict"
  by (induction rule: replace_step.induct) (auto simp: settle_entry_def split: if_splits option.splits)

text \<open>
  Nothing is lost to a replacement among other programs, which may create, change or remove the entry at the
  path at any time. Every step of the process leaves what it finds at the path there, unless it is the captured
  entry, which it moves aside; as long as the new entry was not published, an original that was moved aside is
  complete and every step keeps it or puts it back; and once the path is free, the recovery that was refused puts
  it back.
\<close>

theorem replacement_among_programs:
  assumes "among old new (s, p)" "replace_step old new (s, p) (s', q)"
  shows "(\<forall>t. pl_path p = Some t \<longrightarrow> pl_path q = Some t \<or> t = old \<and> pl_original q = Some old)
    \<and> (pl_original p \<noteq> None \<and> pl_replacement p \<noteq> None \<longrightarrow>
        pl_original p = Some old \<and> (pl_original q = Some old \<or> pl_path q = Some old))
    \<and> (s' = Refused \<and> pl_record q \<longrightarrow> recover_replacement q = Inl Local_sync_conflict \<and> pl_original q = Some old
        \<and> recover_replacement (q\<lparr>pl_path := None\<rparr>) = Inr (untouched old))"
proof (intro conjI allI impI)
  have K: "kept old (s, p)"
    using assms(1) by (rule among_kept)
  show "pl_path q = Some t \<or> t = old \<and> pl_original q = Some old" if "pl_path p = Some t" for t
    using step_moves_only_old [OF assms(2)] that by simp
  {
    assume H: "pl_original p \<noteq> None \<and> pl_replacement p \<noteq> None"
    show "pl_original p = Some old"
      using H K by (auto simp: kept_def)
    show "pl_original q = Some old \<or> pl_path q = Some old"
      using step_holds_old [OF assms(2) K] H by simp
  }
  assume R: "s' = Refused \<and> pl_record q"
  have S: "settle_entry q = Inl Local_sync_conflict" "kept old (s', q)"
    using refused_step [OF assms(2)] R kept_step [OF assms(2) K] by auto
  then show O: "pl_original q = Some old"
    using settle_conflict [of q] by (auto simp: kept_def)
  show "recover_replacement q = Inl Local_sync_conflict"
    using S R by (simp add: recover_replacement_def)
  show "recover_replacement (q\<lparr>pl_path := None\<rparr>) = Inr (untouched old)"
    using O R by (cases q) (simp add: recover_replacement_def settle_entry_def discard_temporary_def erase_record_def untouched_def)
qed

text \<open>While the original is away, another program creates an entry at the path.\<close>

definition taken_between :: "int place" where
  "taken_between = stopped_between\<lparr>pl_path := Some 3\<rparr>"

lemma alone_among: "alone old new x \<Longrightarrow> among old new x"
  by (induction rule: alone.induct) (blast intro: among.intros)+

lemma reaches_taken_between: "among 1 2 (Settling, taken_between)"
proof -
  have "among 1 2 (Down, taken_between)"
    unfolding taken_between_def
    by (rule among_outside [OF alone_among [OF reaches_stopped_between]]) (rule outside_step.intros)
  then have "among 1 2 (if pl_record taken_between then Settling else Over, taken_between)"
    by (rule among_step) (simp add: restart)
  then show ?thesis
    by (simp add: taken_between_def stopped_between_def)
qed

theorem replacement_among_programs_witness:
  "recover_replacement taken_between = Inl Local_sync_conflict \<and> pl_path taken_between = Some 3
    \<and> recover_replacement (taken_between\<lparr>pl_path := None\<rparr>) = Inr (untouched 1)"
proof -
  have "replace_step 1 2 (Settling, taken_between) (Refused, taken_between)"
    by (rule refuse [of _ Local_sync_conflict]) code_simp
  from replacement_among_programs [OF reaches_taken_between this] show ?thesis
    by (simp add: taken_between_def stopped_between_def)
qed

end
