(* ===== verification/Tool_Catalog.thy ===== *)
theory Tool_Catalog
  imports Prelude
begin

text \<open>
  The catalogue of tools (\<open>agent/modules/tools/registry.py\<close>, \<open>registry_service.py\<close>), the tools of MCP servers
  (\<open>tools/sources/mcp.py\<close>, \<open>mcp/client.py\<close>, \<open>mcp/service.py\<close>), and which of them an agent gets
  (\<open>tools/policy.py\<close>, \<open>tools/resolver.py\<close>, \<open>tools/coding/names.py\<close>). A descriptor is its metadata; the tool
  object and its configuration are left out.
\<close>

section \<open>Names\<close>

text \<open>\<open>list(dict.fromkeys(names))\<close>.\<close>

definition from_keys :: "'a list \<Rightarrow> 'a list" where
  "from_keys xs = rev (remdups (rev xs))"

lemma set_from_keys [simp]: "set (from_keys xs) = set xs"
  by (simp add: from_keys_def)

definition TOOL_ALIASES :: "(string, string) dict" where
  "TOOL_ALIASES =
     [(''call_agent'', ''delegate_task''), (''read_file'', ''read''), (''write_file'', ''write''), (''edit_file'', ''edit''),
      (''exec_command'', ''bash''), (''run_bash'', ''bash''), (''bash_read_output'', ''read_process_output''),
      (''bash_send_input'', ''write_process_input''), (''bash_interrupt'', ''stop_process''), (''bash_close'', ''stop_process'')]"

definition canonical_name :: "string \<Rightarrow> string" where
  "canonical_name n = (case dict_get TOOL_ALIASES n of None \<Rightarrow> n | Some m \<Rightarrow> m)"

definition canonical_tool_names :: "string list \<Rightarrow> string list" where
  "canonical_tool_names ns = from_keys (map canonical_name ns)"

section \<open>The registry\<close>

datatype tool_source = Builtin | Mcp | Skill_source | Agent_source

datatype tool_category = File_tool | Shell_tool | Web_tool | Browser_tool | Image_tool | Schedule_tool | Agent_tool
  | Utility_tool | Skill_tool | Unknown_tool

datatype tool_capability = Read_fs | Write_fs | Exec_shell | Network | Mutates_state | Requires_workspace
  | Requires_thread | Async_only

record tool_descriptor =
  td_id :: string
  td_name :: string
  td_source :: tool_source
  td_category :: tool_category
  td_capabilities :: "tool_capability list"
  td_tags :: "string list"

record tool_registry =
  tr_by_id :: "(string, tool_descriptor) dict"
  tr_by_name :: "(string, tool_descriptor) dict"

datatype tool_error = Tool_id_registered string | Unexpected_source

definition empty_registry :: tool_registry where
  "empty_registry = \<lparr>tr_by_id = [], tr_by_name = []\<rparr>"

definition add_tool :: "tool_descriptor \<Rightarrow> tool_registry \<Rightarrow> tool_error + tool_registry" where
  "add_tool d r =
     (if dict_get (tr_by_id r) (td_id d) \<noteq> None then Inl (Tool_id_registered (td_id d))
      else Inr (r\<lparr>tr_by_id := dict_set (td_id d) d (tr_by_id r), tr_by_name := dict_set (td_name d) d (tr_by_name r)\<rparr>))"

definition get_descriptor :: "string \<Rightarrow> tool_registry \<Rightarrow> tool_descriptor option" where
  "get_descriptor k r = (case dict_get (tr_by_id r) k of Some d \<Rightarrow> Some d | None \<Rightarrow> dict_get (tr_by_name r) k)"

definition remove_tool :: "string \<Rightarrow> tool_registry \<Rightarrow> tool_registry" where
  "remove_tool k r =
     (case get_descriptor k r of
        None \<Rightarrow> r
      | Some d \<Rightarrow>
          r\<lparr>tr_by_id := dict_pop (td_id d) (tr_by_id r),
            tr_by_name := if dict_get (tr_by_name r) (td_name d) = Some d then dict_pop (td_name d) (tr_by_name r)
                          else tr_by_name r\<rparr>)"

definition all_descriptors :: "tool_registry \<Rightarrow> tool_descriptor list" where
  "all_descriptors r = map snd (tr_by_id r)"

definition resolve_names :: "string list \<Rightarrow> tool_registry \<Rightarrow> tool_descriptor list" where
  "resolve_names ns r = List.map_filter (\<lambda>n. get_descriptor n r) ns"

record tool_filter =
  tf_category :: "tool_category option"
  tf_source :: "tool_source option"
  tf_capabilities :: "tool_capability list"
  tf_any_capabilities :: "tool_capability list"
  tf_tags :: "string list"

definition any_tool :: tool_filter where
  "any_tool = \<lparr>tf_category = None, tf_source = None, tf_capabilities = [], tf_any_capabilities = [], tf_tags = []\<rparr>"

definition passes :: "tool_filter \<Rightarrow> tool_descriptor \<Rightarrow> bool" where
  "passes f d \<longleftrightarrow>
     (case tf_category f of None \<Rightarrow> True | Some c \<Rightarrow> td_category d = c)
     \<and> (case tf_source f of None \<Rightarrow> True | Some s \<Rightarrow> td_source d = s)
     \<and> set (tf_capabilities f) \<subseteq> set (td_capabilities d)
     \<and> (tf_any_capabilities f = [] \<or> list_ex (\<lambda>c. c \<in> set (td_capabilities d)) (tf_any_capabilities f))
     \<and> set (tf_tags f) \<subseteq> set (td_tags d)"

definition find_descriptors :: "tool_filter \<Rightarrow> tool_registry \<Rightarrow> tool_descriptor list" where
  "find_descriptors f r = filter (passes f) (all_descriptors r)"

text \<open>\<open>ToolRegistryService\<close>.\<close>

fun load_descriptors :: "tool_descriptor list \<Rightarrow> tool_registry \<Rightarrow> tool_error + tool_registry" where
  "load_descriptors [] r = Inr r"
| "load_descriptors (d # ds) r =
     (if get_descriptor (td_id d) r \<noteq> None then load_descriptors ds r
      else (case add_tool d r of Inl e \<Rightarrow> Inl e | Inr r \<Rightarrow> load_descriptors ds r))"

definition remove_by_source :: "tool_source \<Rightarrow> tool_registry \<Rightarrow> tool_registry" where
  "remove_by_source s r = foldl (\<lambda>r d. remove_tool (td_id d) r) r (find_descriptors (any_tool\<lparr>tf_source := Some s\<rparr>) r)"

fun add_all :: "tool_source option \<Rightarrow> tool_descriptor list \<Rightarrow> tool_registry \<Rightarrow> tool_error + tool_registry" where
  "add_all expected [] r = Inr r"
| "add_all expected (d # ds) r =
     (if expected \<noteq> None \<and> expected \<noteq> Some (td_source d) then Inl Unexpected_source
      else (case add_tool d r of Inl e \<Rightarrow> Inl e | Inr r \<Rightarrow> add_all expected ds r))"

definition replace_source :: "tool_source \<Rightarrow> tool_descriptor list \<Rightarrow> tool_registry \<Rightarrow> tool_error + tool_registry" where
  "replace_source s ds r =
     (case add_all None (filter (\<lambda>d. td_source d \<noteq> s) (all_descriptors r)) empty_registry of
        Inl e \<Rightarrow> Inl e
      | Inr q \<Rightarrow> add_all (Some s) ds q)"

section \<open>Tools of MCP servers\<close>

definition name_char :: "char \<Rightarrow> bool" where
  "name_char c = (let n = (of_char c :: nat) in
     65 \<le> n \<and> n \<le> 90 \<or> 97 \<le> n \<and> n \<le> 122 \<or> 48 \<le> n \<and> n \<le> 57 \<or> c = CHR ''_'' \<or> c = CHR ''-'')"

definition sanitize_server_token :: "string \<Rightarrow> string" where
  "sanitize_server_token s =
     (let t = map (\<lambda>c. if name_char c then c else CHR ''_'') (strip s) in if t = [] then ''server'' else t)"

definition prefixed_tool_name :: "string \<Rightarrow> string \<Rightarrow> string" where
  "prefixed_tool_name server t = ''mcp__'' @ sanitize_server_token server @ ''__'' @ t"

definition extract_server_name :: "string \<Rightarrow> string" where
  "extract_server_name n =
     (if \<not> starts_with ''mcp__'' n then ''unknown''
      else (let rest = drop 5 n in
            case find_sub ''__'' rest of
              None \<Rightarrow> ''unknown''
            | Some k \<Rightarrow> if k = 0 then ''unknown'' else take k rest))"

text \<open>\<open>MCPService\<close>: the servers, and for each the tools or the error of its last load.\<close>

record mcp_server =
  ms_name :: string
  ms_enabled :: bool

record mcp_entry =
  me_tools :: "string list"
  me_error :: string

type_synonym mcp_cache = "(string, mcp_entry) dict"

text \<open>A load of one server (\<open>fetch\<close> is its connection) and of all of them; a cached success is kept.\<close>

definition ensure_server_loaded :: "(string \<Rightarrow> string + string list) \<Rightarrow> mcp_server \<Rightarrow> mcp_cache \<Rightarrow> mcp_cache" where
  "ensure_server_loaded fetch s c =
     (if (case dict_get c (ms_name s) of None \<Rightarrow> False | Some e \<Rightarrow> me_error e = []) then c
      else (case fetch (ms_name s) of
              Inl message \<Rightarrow> dict_set (ms_name s) \<lparr>me_tools = [], me_error = message\<rparr> c
            | Inr tools \<Rightarrow> dict_set (ms_name s) \<lparr>me_tools = map (prefixed_tool_name (ms_name s)) tools, me_error = []\<rparr> c))"

definition ensure_loaded :: "(string \<Rightarrow> string + string list) \<Rightarrow> mcp_server list \<Rightarrow> mcp_cache \<Rightarrow> mcp_cache" where
  "ensure_loaded fetch servers c = foldl (\<lambda>c s. ensure_server_loaded fetch s c) c (filter ms_enabled servers)"

definition all_mcp_tools :: "mcp_server list \<Rightarrow> mcp_cache \<Rightarrow> string list" where
  "all_mcp_tools servers c =
     concat (map (\<lambda>s. case dict_get c (ms_name s) of
                        Some e \<Rightarrow> if ms_enabled s \<and> me_error e = [] then me_tools e else []
                      | None \<Rightarrow> []) servers)"

definition failed_server_names :: "mcp_server list \<Rightarrow> mcp_cache \<Rightarrow> string list" where
  "failed_server_names servers c =
     map ms_name (filter (\<lambda>s. ms_enabled s \<and> (case dict_get c (ms_name s) of None \<Rightarrow> False | Some e \<Rightarrow> me_error e \<noteq> [])) servers)"

text \<open>\<open>McpToolSource._build\<close>.\<close>

definition mcp_id :: "string \<Rightarrow> string" where
  "mcp_id n = ''mcp.'' @ extract_server_name n @ ''.'' @ n"

definition mcp_descriptor :: "string \<Rightarrow> tool_descriptor" where
  "mcp_descriptor n =
     \<lparr>td_id = mcp_id n, td_name = n, td_source = Mcp, td_category = Unknown_tool, td_capabilities = [],
      td_tags = [''mcp'', extract_server_name n]\<rparr>"

fun build_mcp :: "string list \<Rightarrow> string list \<Rightarrow> tool_descriptor list" where
  "build_mcp seen [] = []"
| "build_mcp seen (n # ns) =
     (if mcp_id n \<in> set seen then build_mcp seen ns else mcp_descriptor n # build_mcp (mcp_id n # seen) ns)"

text \<open>
  \<open>_load_mcp_snapshot\<close>: the catalogue, and whether it is complete. \<open>loads\<close> is the load of the servers, which
  may raise.
\<close>

definition load_mcp_snapshot :: "mcp_server list \<Rightarrow> mcp_cache option \<Rightarrow> tool_registry \<Rightarrow> tool_registry \<times> bool" where
  "load_mcp_snapshot servers loads r =
     (case loads of
        None \<Rightarrow> (r, False)
      | Some c \<Rightarrow>
          (let failed = failed_server_names servers c;
               kept = filter (\<lambda>d. extract_server_name (td_name d) \<in> set failed) (find_descriptors (any_tool\<lparr>tf_source := Some Mcp\<rparr>) r)
           in case replace_source Mcp (build_mcp [] (all_mcp_tools servers c) @ kept) r of
                Inl e \<Rightarrow> (r, False)
              | Inr q \<Rightarrow> (q, failed = [])))"

section \<open>Which tools an agent gets\<close>

record agent_config =
  ac_name :: string
  ac_tools :: "string list option"
  ac_sub_agents :: "string list option"
  ac_internal :: bool

text \<open>\<open>validate_call\<close> and \<open>get_callable_agents\<close> of \<open>agents/service.py\<close>; the catalogue maps names to agents.\<close>

type_synonym agent_catalog = "(string, agent_config) dict"

definition validate_call :: "agent_catalog \<Rightarrow> string \<Rightarrow> string \<Rightarrow> bool" where
  "validate_call catalog caller target =
     (if caller = target then False
      else (case dict_get catalog caller of
              None \<Rightarrow> False
            | Some a \<Rightarrow>
                (case ac_sub_agents a of
                   None \<Rightarrow> False
                 | Some subs \<Rightarrow>
                     if target \<notin> set subs then False
                     else (case dict_get catalog target of None \<Rightarrow> False | Some b \<Rightarrow> \<not> ac_internal b))))"

definition get_callable_agents :: "agent_catalog \<Rightarrow> string \<Rightarrow> string list" where
  "get_callable_agents catalog n =
     (case dict_get catalog n of
        None \<Rightarrow> []
      | Some a \<Rightarrow> (case ac_sub_agents a of None \<Rightarrow> [] | Some subs \<Rightarrow> filter (validate_call catalog n) subs))"

record tool_policy =
  tp_allowed_names :: "string list option"
  tp_allowed_servers :: "string list option"
  tp_allow_delegate :: bool
  tp_denied_names :: "string list"

text \<open>\<open>ToolPolicy.from_agent_config\<close>; \<open>bound\<close> are the agent's MCP servers, \<open>None\<close> when reading them fails.\<close>

definition policy_of_agent :: "agent_config \<Rightarrow> string list option \<Rightarrow> tool_policy" where
  "policy_of_agent a bound =
     (let delegates = (case ac_sub_agents a of None \<Rightarrow> False | Some s \<Rightarrow> s \<noteq> []) in
      \<lparr>tp_allowed_names = map_option (\<lambda>ts. let ns = canonical_tool_names ts in
                            if delegates then from_keys (ns @ [''delegate_task'']) else ns) (ac_tools a),
       tp_allowed_servers = Some (case bound of None \<Rightarrow> [] | Some s \<Rightarrow> s),
       tp_allow_delegate = delegates, tp_denied_names = []\<rparr>)"

definition is_allowed :: "tool_policy \<Rightarrow> tool_descriptor \<Rightarrow> bool" where
  "is_allowed p d =
     (if td_name d \<in> set (tp_denied_names p) then False
      else if \<not> tp_allow_delegate p \<and> td_name d = ''delegate_task'' then False
      else if (case tp_allowed_names p of None \<Rightarrow> False | Some ns \<Rightarrow> td_name d \<notin> set ns) then False
      else (case tp_allowed_servers p of
              None \<Rightarrow> True
            | Some ss \<Rightarrow> \<not> (td_source d = Mcp \<and> extract_server_name (td_name d) \<notin> set ss)))"

definition resolve_for_policy :: "bool \<Rightarrow> tool_policy \<Rightarrow> tool_registry \<Rightarrow> tool_descriptor list" where
  "resolve_for_policy include_mcp p r =
     filter (is_allowed p) (filter (\<lambda>d. include_mcp \<or> td_source d \<noteq> Mcp) (all_descriptors r))"

text \<open>\<open>_resolve_for_agent_sync\<close>; an agent without a name has no configuration.\<close>

definition run_policy :: "agent_catalog \<Rightarrow> string \<Rightarrow> string list option \<Rightarrow> string list option \<Rightarrow> tool_policy" where
  "run_policy catalog n bound override =
     (let config = (if n = [] then None else dict_get catalog n);
          p = (case config of
                 Some a \<Rightarrow> policy_of_agent a bound
               | None \<Rightarrow> \<lparr>tp_allowed_names = Some [], tp_allowed_servers = None, tp_allow_delegate = True, tp_denied_names = []\<rparr>);
          p = (if config \<noteq> None \<and> tp_allow_delegate p
               then p\<lparr>tp_allow_delegate := get_callable_agents catalog n \<noteq> []\<rparr> else p)
      in case override of
           None \<Rightarrow> p
         | Some ns \<Rightarrow>
             p\<lparr>tp_allowed_names := Some (filter (\<lambda>x. case tp_allowed_names p of None \<Rightarrow> True | Some a \<Rightarrow> x \<in> set a)
                                    (canonical_tool_names ns))\<rparr>)"

definition resolve_for_agent ::
  "bool \<Rightarrow> agent_catalog \<Rightarrow> string \<Rightarrow> string list option \<Rightarrow> string list option \<Rightarrow> tool_registry \<Rightarrow> tool_descriptor list"
where
  "resolve_for_agent include_mcp catalog n bound override r = resolve_for_policy include_mcp (run_policy catalog n bound override) r"

text \<open>\<open>for_workspace\<close>: with any other tool an agent can read what the tools retained.\<close>

definition control_tools :: "string list" where
  "control_tools = [''ask_user'', ''request_plan_review'', ''plan_mode_respond'', ''write_todos'']"

definition for_workspace :: "string list \<Rightarrow> string list" where
  "for_workspace tools =
     from_keys (if tools \<noteq> [] \<and> ''read'' \<notin> set tools \<and> list_ex (\<lambda>t. t \<notin> set control_tools) tools
                then tools @ [''read''] else tools)"

definition browser_batch_error :: "string list \<Rightarrow> string list \<Rightarrow> bool" where
  "browser_batch_error browser_tools calls =
     (let selected = filter (\<lambda>c. c \<in> set browser_tools) calls in
      1 < length selected \<or> ''browser_handoff'' \<in> set selected \<and> 1 < length calls)"

section \<open>What the resolver promises\<close>

lemma delegate_iff: "tp_allow_delegate (policy_of_agent a bound) \<longleftrightarrow> ac_sub_agents a \<notin> {None, Some []}"
  by (auto simp: policy_of_agent_def Let_def split: option.splits)

lemma no_callable: "get_callable_agents catalog n \<noteq> [] \<Longrightarrow> dict_get catalog n = Some a \<Longrightarrow> ac_sub_agents a \<notin> {None, Some []}"
  by (auto simp: get_callable_agents_def split: option.splits)

lemma unknown_agent: "n = [] \<or> dict_get catalog n = None \<Longrightarrow> resolve_for_agent include_mcp catalog n bound override r = []"
proof -
  assume "n = [] \<or> dict_get catalog n = None"
  then have "tp_allowed_names (run_policy catalog n bound override) = Some []"
    by (cases override) (auto simp: run_policy_def Let_def)
  then show ?thesis
    by (auto simp: resolve_for_agent_def resolve_for_policy_def is_allowed_def filter_empty_conv)
qed

text \<open>
  C30: An agent gets exactly the registered tools that its configuration and the run permit. A tool must be listed
  by the agent under its current or a former name, or be the delegation of an agent with sub-agents, unless the
  agent's configuration has no list at all, which permits every tool; the run's own list can only narrow this; delegation needs a sub-agent that can be called; a tool of an MCP server needs
  the server in its name among the agent's servers; and an unknown agent gets nothing.
\<close>

theorem resolved_tools_exact:
  "d \<in> set (resolve_for_agent include_mcp catalog n bound override r) \<longleftrightarrow>
     d \<in> set (all_descriptors r)
     \<and> (td_source d = Mcp \<longrightarrow> include_mcp \<and> extract_server_name (td_name d) \<in> set (case bound of None \<Rightarrow> [] | Some s \<Rightarrow> s))
     \<and> (td_name d = ''delegate_task'' \<longrightarrow> get_callable_agents catalog n \<noteq> [])
     \<and> (case override of None \<Rightarrow> True | Some ns \<Rightarrow> td_name d \<in> canonical_name ` set ns)
     \<and> n \<noteq> []
     \<and> (\<exists>a. dict_get catalog n = Some a
          \<and> (case ac_tools a of
               None \<Rightarrow> True
             | Some ts \<Rightarrow> td_name d \<in> canonical_name ` set ts
                          \<or> td_name d = ''delegate_task'' \<and> ac_sub_agents a \<notin> {None, Some []}))"
proof (cases "n = [] \<or> dict_get catalog n = None")
  case True
  then show ?thesis
    by (auto simp: unknown_agent)
next
  case False
  then obtain a where a: "n \<noteq> []" "dict_get catalog n = Some a" by auto
  define p where "p = (policy_of_agent a bound)\<lparr>tp_allow_delegate := get_callable_agents catalog n \<noteq> []\<rparr>"
  have kept: "policy_of_agent a bound = p" if "\<not> tp_allow_delegate (policy_of_agent a bound)"
  proof -
    have "get_callable_agents catalog n = []"
      using that no_callable [OF _ a(2)] delegate_iff [of a bound] by blast
    then show ?thesis
      using that unfolding p_def by (cases "policy_of_agent a bound") simp
  qed
  have p: "run_policy catalog n bound override =
      (case override of
         None \<Rightarrow> p
       | Some ns \<Rightarrow> p\<lparr>tp_allowed_names := Some (filter (\<lambda>x. case tp_allowed_names p of None \<Rightarrow> True | Some a \<Rightarrow> x \<in> set a)
                                (canonical_tool_names ns))\<rparr>)"
    using a kept by (cases override) (auto simp: run_policy_def p_def Let_def)
  have names: "tp_allowed_names p = map_option (\<lambda>ts. if ac_sub_agents a \<in> {None, Some []} then canonical_tool_names ts
       else from_keys (canonical_tool_names ts @ [''delegate_task''])) (ac_tools a)"
    and rest: "tp_denied_names p = []" "tp_allow_delegate p \<longleftrightarrow> get_callable_agents catalog n \<noteq> []"
      "tp_allowed_servers p = Some (case bound of None \<Rightarrow> [] | Some s \<Rightarrow> s)"
    by (cases "ac_sub_agents a"; cases "ac_tools a"; simp add: p_def policy_of_agent_def Let_def)+
  have ok: "is_allowed (run_policy catalog n bound override) d \<longleftrightarrow>
      (td_name d = ''delegate_task'' \<longrightarrow> get_callable_agents catalog n \<noteq> [])
      \<and> (case tp_allowed_names p of None \<Rightarrow> True | Some ns \<Rightarrow> td_name d \<in> set ns)
      \<and> (case override of None \<Rightarrow> True | Some ns \<Rightarrow> td_name d \<in> canonical_name ` set ns)
      \<and> (td_source d = Mcp \<longrightarrow> extract_server_name (td_name d) \<in> set (case bound of None \<Rightarrow> [] | Some s \<Rightarrow> s))"
    unfolding p by (cases override; cases "tp_allowed_names p") (auto simp: is_allowed_def rest canonical_tool_names_def)
  have listed: "(case tp_allowed_names p of None \<Rightarrow> True | Some ns \<Rightarrow> td_name d \<in> set ns) \<longleftrightarrow>
      (case ac_tools a of None \<Rightarrow> True
       | Some ts \<Rightarrow> td_name d \<in> canonical_name ` set ts \<or> td_name d = ''delegate_task'' \<and> ac_sub_agents a \<notin> {None, Some []})"
    by (cases "ac_tools a") (auto simp: names canonical_tool_names_def)
  show ?thesis
    using a unfolding resolve_for_agent_def resolve_for_policy_def set_filter mem_Collect_eq ok listed
    by auto
qed

section \<open>Servers and their names\<close>

text \<open>Names whose tools can be told apart: no \<open>__\<close> inside, and no \<open>_\<close> at the end.\<close>

definition plain_server :: "string \<Rightarrow> bool" where
  "plain_server s \<longleftrightarrow> s \<noteq> [] \<and> list_all name_char s \<and> last s \<noteq> CHR ''_'' \<and> \<not> contains_sub ''__'' s"

lemma name_char_space: "name_char c \<Longrightarrow> \<not> is_space c"
  by (auto simp: name_char_def is_space_def Let_def)

lemma sanitize_plain: "s \<noteq> [] \<Longrightarrow> list_all name_char s \<Longrightarrow> sanitize_server_token s = s"
proof -
  assume s: "s \<noteq> []" "list_all name_char s"
  have "dropWhile is_space t = t" if "set t \<subseteq> set s" for t
    using that s(2) name_char_space by (cases t) (auto simp: list_all_iff)
  then have "strip s = s"
    by (simp add: strip_def lstrip_def rstrip_def)
  then show ?thesis
    using s by (auto simp: sanitize_server_token_def Let_def list_all_iff intro: map_idI)
qed

lemma find_sub_plain:
  "last (c # s) \<noteq> CHR ''_'' \<Longrightarrow> find_sub ''__'' (c # s) = None \<Longrightarrow> find_sub ''__'' ((c # s) @ ''__'' @ t) = Some (length (c # s))"
proof (induction s arbitrary: c)
  case Nil
  then show ?case by simp
next
  case (Cons x s)
  then have "find_sub ''__'' (x # s) = None" "\<not> starts_with ''__'' (c # x # s)"
    by (auto split: if_splits)
  then show ?case
    using Cons.IH [of x] Cons.prems(1) by auto
qed

lemma extract_prefixed: "plain_server s \<Longrightarrow> extract_server_name (prefixed_tool_name s t) = s"
proof -
  assume s: "plain_server s"
  then obtain c r where "s = c # r" "last (c # r) \<noteq> CHR ''_''" "find_sub ''__'' (c # r) = None"
    by (cases s) (auto simp: plain_server_def contains_sub_def)
  then show ?thesis
    using s find_sub_plain [of c r t] sanitize_plain [of s]
    by (simp add: extract_server_name_def prefixed_tool_name_def plain_server_def)
qed

text \<open>
  An agent that is not bound to an MCP server gets none of its tools, whatever else it is bound to and whatever
  its list of tools says, if the server has a plain name: of letters, digits, \<open>-\<close> and \<open>_\<close>, without \<open>__\<close> inside
  and without \<open>_\<close> at its end.
\<close>

theorem unbound_server_unreachable:
  assumes "plain_server s" "s \<notin> set bound" "td_source d = Mcp" "td_name d = prefixed_tool_name s t"
  shows "d \<notin> set (resolve_for_agent include_mcp catalog n (Some bound) override r)"
proof -
  have "tp_allowed_servers (run_policy catalog n (Some bound) override) = Some bound"
    if "n \<noteq> []" "dict_get catalog n \<noteq> None"
    using that by (auto simp: run_policy_def policy_of_agent_def Let_def split: option.splits)
  then show ?thesis
    using assms extract_prefixed [OF assms(1)] unknown_agent
    by (cases "n = [] \<or> dict_get catalog n = None")
      (auto simp: resolve_for_agent_def resolve_for_policy_def is_allowed_def)
qed


text \<open>A server whose name has \<open>__\<close> inside: its tools count as those of another one.\<close>

definition demo_registry :: tool_registry where
  "demo_registry = (case add_all (Some Mcp) (build_mcp [] (map (prefixed_tool_name ''mail__admin'') [''wipe''])) empty_registry of
     Inl e \<Rightarrow> empty_registry | Inr r \<Rightarrow> r)"

definition demo_catalog :: agent_catalog where
  "demo_catalog = [(''helper'', \<lparr>ac_name = ''helper'', ac_tools = None, ac_sub_agents = None, ac_internal = False\<rparr>)]"

text \<open>
  With \<open>__\<close> inside a server's name the binding of agents to servers breaks, although the installation
  keeps such names: the tools of \<open>mail__admin\<close> go to an agent that is bound to the server \<open>mail\<close> only, and an
  agent bound to \<open>mail__admin\<close> gets none of them.
\<close>

theorem server_prefix_confused:
  "map td_name (resolve_for_agent True demo_catalog ''helper'' (Some [''mail'']) None demo_registry)
     = [prefixed_tool_name ''mail__admin'' ''wipe'']
   \<and> resolve_for_agent True demo_catalog ''helper'' (Some [''mail__admin'']) None demo_registry = []"
  by code_simp

theorem resolved_tools_exact_witness:
  "mcp_descriptor (prefixed_tool_name ''mail__admin'' ''wipe'')
     \<in> set (resolve_for_agent True demo_catalog ''helper'' (Some [''mail'']) (Some [''mcp__mail__admin__wipe'']) demo_registry)"
proof -
  obtain d where d: "d = mcp_descriptor (prefixed_tool_name ''mail__admin'' ''wipe'')" by simp
  have "d \<in> set (all_descriptors demo_registry)" unfolding d by code_simp
  moreover have "extract_server_name (td_name d) = ''mail''" unfolding d by code_simp
  moreover have "td_name d \<noteq> ''delegate_task''" unfolding d by code_simp
  moreover have "td_name d \<in> canonical_name ` set [''mcp__mail__admin__wipe'']" unfolding d by code_simp
  moreover have "dict_get demo_catalog ''helper'' = Some (snd (hd demo_catalog))" "ac_tools (snd (hd demo_catalog)) = None"
    by (simp_all add: demo_catalog_def)
  ultimately show ?thesis
    unfolding resolved_tools_exact d [symmetric] by auto
qed

theorem unbound_server_unreachable_witness:
  "mcp_descriptor (prefixed_tool_name ''mail'' ''send'')
     \<notin> set (resolve_for_agent True demo_catalog ''helper'' (Some [''files'']) None demo_registry)"
  by (rule unbound_server_unreachable [of "''mail''" _ _ "''send''"]; code_simp)

section \<open>Refreshing the catalogue\<close>

text \<open>The two indexes agree: identifiers are keys, and the name index leads to registered tools.\<close>

definition registry_fits :: "tool_registry \<Rightarrow> bool" where
  "registry_fits r \<longleftrightarrow> is_dict (tr_by_id r)
     \<and> (\<forall>(k, d) \<in> set (tr_by_id r). td_id d = k)
     \<and> (\<forall>k d. dict_get (tr_by_name r) k = Some d \<longrightarrow> td_name d = k \<and> dict_get (tr_by_id r) (td_id d) = Some d)
     \<and> (\<forall>d \<in> set (all_descriptors r). dict_get (tr_by_name r) (td_name d) \<noteq> None)"

lemma add_tool_fits: "add_tool d r = Inr q \<Longrightarrow> registry_fits r \<Longrightarrow> registry_fits q \<and> all_descriptors q = all_descriptors r @ [d]"
proof -
  assume q: "add_tool d r = Inr q" and r: "registry_fits r"
  have new: "dict_get (tr_by_id r) (td_id d) = None"
    and q: "tr_by_id q = dict_set (td_id d) d (tr_by_id r)" "tr_by_name q = dict_set (td_name d) d (tr_by_name r)"
    using q by (auto simp: add_tool_def split: if_splits)
  have ids: "tr_by_id q = tr_by_id r @ [(td_id d, d)]"
    using new q(1) by (simp add: dict_set_new dict_get_None_iff)
  have "is_dict (tr_by_id q)"
    using r q(1) by (simp add: registry_fits_def)
  moreover have "\<forall>(k, e) \<in> set (tr_by_id q). td_id e = k"
    using r ids by (auto simp: registry_fits_def)
  moreover have "td_name e = k \<and> dict_get (tr_by_id q) (td_id e) = Some e" if "dict_get (tr_by_name q) k = Some e" for k e
  proof (cases "k = td_name d")
    case True
    then show ?thesis using that q by (simp add: dict_get_set)
  next
    case False
    then have "td_name e = k" "dict_get (tr_by_id r) (td_id e) = Some e"
      using that r unfolding q(2) by (auto simp: registry_fits_def dict_get_set)
    then show ?thesis
      using new unfolding q(1) by (metis dict_get_set option.distinct(1))
  qed
  moreover have "\<forall>e \<in> set (all_descriptors q). dict_get (tr_by_name q) (td_name e) \<noteq> None"
    using r ids unfolding q(2) by (auto simp: registry_fits_def all_descriptors_def dict_get_set)
  ultimately show ?thesis
    using ids by (simp add: registry_fits_def all_descriptors_def)
qed

lemma add_all_fits: "add_all s ds r = Inr q \<Longrightarrow> registry_fits r \<Longrightarrow> registry_fits q \<and> all_descriptors q = all_descriptors r @ ds"
proof (induction s ds r rule: add_all.induct)
  case (2 s d ds r)
  then obtain q' where q': "add_tool d r = Inr q'" "add_all s ds q' = Inr q"
    by (auto split: if_splits sum.splits)
  then show ?case
    using 2 add_tool_fits [OF q'(1)] by (auto split: if_splits)
qed simp

lemma empty_fits: "registry_fits empty_registry" "all_descriptors empty_registry = []"
  by (simp_all add: registry_fits_def empty_registry_def all_descriptors_def)

lemma replace_source_fits:
  assumes "replace_source s ds r = Inr q"
  shows "registry_fits q \<and> all_descriptors q = filter (\<lambda>d. td_source d \<noteq> s) (all_descriptors r) @ ds"
proof -
  obtain p where p: "add_all None (filter (\<lambda>d. td_source d \<noteq> s) (all_descriptors r)) empty_registry = Inr p" "add_all (Some s) ds p = Inr q"
    using assms by (auto simp: replace_source_def split: sum.splits)
  then show ?thesis
    using add_all_fits [OF p(1) empty_fits(1)] add_all_fits [OF p(2)] empty_fits(2) by simp
qed

text \<open>
  Refreshing the MCP tools never touches the others and never half-changes the catalogue. Either it stays as
  it was and counts as incomplete, or it holds the tools of the other sources in their order, then the tools that
  the servers report, then the previous tools of the servers whose load failed, with both indexes in agreement;
  and it counts as complete only when no server failed.
\<close>

theorem mcp_refresh_atomic:
  assumes "registry_fits r"
  shows "case load_mcp_snapshot servers loads r of (q, whole) \<Rightarrow>
     registry_fits q
     \<and> filter (\<lambda>d. td_source d \<noteq> Mcp) (all_descriptors q) = filter (\<lambda>d. td_source d \<noteq> Mcp) (all_descriptors r)
     \<and> (q = r \<and> \<not> whole
        \<or> (\<exists>c. loads = Some c \<and> whole = (failed_server_names servers c = [])
             \<and> filter (\<lambda>d. td_source d = Mcp) (all_descriptors q) =
               build_mcp [] (all_mcp_tools servers c)
               @ filter (\<lambda>d. td_source d = Mcp \<and> extract_server_name (td_name d) \<in> set (failed_server_names servers c))
                   (all_descriptors r)))"
proof (cases loads)
  case None
  then show ?thesis using assms by (simp add: load_mcp_snapshot_def)
next
  case (Some c)
  define kept where "kept = filter (\<lambda>d. td_source d = Mcp \<and> extract_server_name (td_name d) \<in> set (failed_server_names servers c)) (all_descriptors r)"
  have kept: "filter (\<lambda>d. extract_server_name (td_name d) \<in> set (failed_server_names servers c)) (find_descriptors (any_tool\<lparr>tf_source := Some Mcp\<rparr>) r) = kept"
    by (simp add: find_descriptors_def passes_def any_tool_def kept_def conj_commute)
  have fresh: "\<forall>d \<in> set (build_mcp seen ns). td_source d = Mcp" for seen ns
    by (induction seen ns rule: build_mcp.induct) (auto simp: mcp_descriptor_def)
  show ?thesis
  proof (cases "replace_source Mcp (build_mcp [] (all_mcp_tools servers c) @ kept) r")
    case (Inl e)
    then show ?thesis using assms Some kept by (simp add: load_mcp_snapshot_def)
  next
    case (Inr q)
    define added where "added = build_mcp [] (all_mcp_tools servers c) @ kept"
    have added: "\<forall>d \<in> set added. td_source d = Mcp"
      using fresh by (auto simp: added_def kept_def)
    have q: "registry_fits q" "all_descriptors q = filter (\<lambda>d. td_source d \<noteq> Mcp) (all_descriptors r) @ added"
      using replace_source_fits [OF Inr] by (simp_all add: added_def)
    have "filter (\<lambda>d. td_source d = Mcp) (all_descriptors q) = added"
      "filter (\<lambda>d. td_source d \<noteq> Mcp) (all_descriptors q) = filter (\<lambda>d. td_source d \<noteq> Mcp) (all_descriptors r)"
      using added unfolding q(2) by (simp_all add: filter_empty_conv)
    moreover have "load_mcp_snapshot servers loads r = (q, failed_server_names servers c = [])"
      using Inr Some kept by (simp add: load_mcp_snapshot_def)
    ultimately show ?thesis
      using q(1) Some unfolding added_def kept_def by auto
  qed
qed

definition demo_loads :: mcp_cache where
  "demo_loads = ensure_loaded (\<lambda>s. if s = ''mail'' then Inl ''timeout'' else Inr [''read'']) 
     [\<lparr>ms_name = ''mail'', ms_enabled = True\<rparr>, \<lparr>ms_name = ''files'', ms_enabled = True\<rparr>] []"

lemma demo_fits: "registry_fits demo_registry"
proof (cases "add_all (Some Mcp) (build_mcp [] (map (prefixed_tool_name ''mail__admin'') [''wipe''])) empty_registry")
  case (Inl e)
  then show ?thesis unfolding demo_registry_def by (simp add: empty_fits)
next
  case (Inr q)
  then show ?thesis
    using add_all_fits [OF Inr empty_fits(1)] unfolding demo_registry_def by simp
qed

text \<open>The server \<open>mail\<close> cannot be reached, so its previous tool stays.\<close>

theorem mcp_refresh_atomic_witness:
  "case load_mcp_snapshot [\<lparr>ms_name = ''mail'', ms_enabled = True\<rparr>, \<lparr>ms_name = ''files'', ms_enabled = True\<rparr>]
      (Some demo_loads) demo_registry of
     (q, whole) \<Rightarrow> registry_fits q \<and> \<not> whole \<and> map td_name (all_descriptors q) = [''mcp__files__read'', ''mcp__mail__admin__wipe'']"
proof -
  let ?s = "[\<lparr>ms_name = ''mail'', ms_enabled = True\<rparr>, \<lparr>ms_name = ''files'', ms_enabled = True\<rparr>]"
  have "\<not> snd (load_mcp_snapshot ?s (Some demo_loads) demo_registry)
      \<and> map td_name (all_descriptors (fst (load_mcp_snapshot ?s (Some demo_loads) demo_registry)))
        = [''mcp__files__read'', ''mcp__mail__admin__wipe'']"
    by code_simp
  then show ?thesis
    using mcp_refresh_atomic [OF demo_fits, where servers = ?s and loads = "Some demo_loads"] by (simp add: case_prod_unfold)
qed

text \<open>
  A tool that shares its name with one registered later is hidden by it, and stays hidden when that one is removed.
\<close>

lemma removal_leaves_name_hidden:
  assumes "add_tool d empty_registry = Inr r" "add_tool e r = Inr q" "td_name e = td_name d" "td_id e \<noteq> td_name e" "td_id d \<noteq> td_name d"
  shows "d \<in> set (all_descriptors (remove_tool (td_id e) q)) \<and> get_descriptor (td_name d) (remove_tool (td_id e) q) = None"
  using assms by (auto simp: add_tool_def empty_registry_def remove_tool_def get_descriptor_def all_descriptors_def split: if_splits)

end
