(* ===== verification/Tool_Permissions.thy ===== *)
theory Tool_Permissions
  imports Project_Files
begin

text \<open>
  Authorisation of the coding tools (\<open>agent/modules/tools/coding/permissions.py\<close>, \<open>paths.py\<close>): the rules of an
  agent, the approvals a user gives for one call or for a conversation, which are kept as files under hashed names
  (\<open>coding/storage.py\<close>), and the confinement of paths to the workspace. POSIX only.

  \<open>fnmatch.fnmatchcase\<close> is modelled; SHA-256 is a parameter, as are \<open>Path.resolve\<close>, \<open>expanduser\<close> and the
  user's answers. Conversations with a former thread id (\<open>shared/thread_ids.py\<close>) are left out.
\<close>

section \<open>Patterns of the standard library\<close>

datatype wild = Any_run | Any_one | Exactly char | One_of bool "(char \<times> char) list"

fun class_items :: "string \<Rightarrow> (char \<times> char) list" where
  "class_items (x # CHR ''-'' # y # s) = (x, y) # class_items s"
| "class_items (x # s) = (x, x) # class_items s"
| "class_items [] = []"

text \<open>The text of a bracket up to its closing bracket, which may not be the first character of it.\<close>

definition bracket :: "string \<Rightarrow> (string \<times> string) option" where
  "bracket s =
     (let skip = (if starts_with ''!]'' s then 2 else if starts_with ''!'' s \<or> starts_with '']'' s then 1 else 0) in
      case find_sub '']'' (drop skip s) of
        None \<Rightarrow> None
      | Some k \<Rightarrow> Some (take (skip + k) s, drop (skip + k + 1) s))"

lemma bracket_shorter: "bracket s = Some (b, r) \<Longrightarrow> length r \<le> length s"
  by (auto simp: bracket_def Let_def split: option.splits)

function wild_parse :: "string \<Rightarrow> wild list" where
  "wild_parse [] = []"
| "wild_parse (c # s) =
     (if c = CHR ''*'' then Any_run # wild_parse s
      else if c = CHR ''?'' then Any_one # wild_parse s
      else if c = CHR ''['' then
        (case bracket s of
           None \<Rightarrow> Exactly c # wild_parse s
         | Some (b, r) \<Rightarrow> (if starts_with ''!'' b then One_of False (class_items (tl b)) else One_of True (class_items b)) # wild_parse r)
      else Exactly c # wild_parse s)"
  by pat_completeness auto
termination
  by (relation "measure length") (auto dest: bracket_shorter)

fun wild_match :: "wild list \<Rightarrow> string \<Rightarrow> bool" where
  "wild_match [] s = (s = [])"
| "wild_match (Any_run # ws) [] = wild_match ws []"
| "wild_match (Any_run # ws) (c # s) = (wild_match ws (c # s) \<or> wild_match (Any_run # ws) s)"
| "wild_match (w # ws) [] = False"
| "wild_match (Any_one # ws) (c # s) = wild_match ws s"
| "wild_match (Exactly x # ws) (c # s) = (x = c \<and> wild_match ws s)"
| "wild_match (One_of b cs # ws) (c # s) =
     ((b \<longleftrightarrow> list_ex (\<lambda>(x, y). (of_char x :: nat) \<le> of_char c \<and> (of_char c :: nat) \<le> of_char y) cs) \<and> wild_match ws s)"

definition fnmatchcase :: "string \<Rightarrow> string \<Rightarrow> bool" where
  "fnmatchcase name pattern = wild_match (wild_parse pattern) name"

section \<open>Rules\<close>

datatype permission_effect = Allow | Ask | Deny

record permission_rule =
  pr_action :: string
  pr_resource :: string
  pr_effect :: permission_effect

text \<open>
  What \<open>InvocationContext\<close> says of a call: its agent, the owner of its approvals (the workspace and the thread),
  the message and the tool call, whether its channel can ask the user, its rules, and its directories.
\<close>

record invocation =
  in_agent :: string
  in_scope :: string
  in_thread :: string
  in_message :: string
  in_call :: string
  in_approval_supported :: bool
  in_rules :: "permission_rule list"
  in_workspace :: path
  in_skill_roots :: "path list"
  in_skill_cache :: "path option"

text \<open>\<open>normalize_resource\<close> on POSIX, and the effect of the last rule that matches.\<close>

definition normalize_resource :: "string \<Rightarrow> string" where
  "normalize_resource s = map (\<lambda>c. if c = CHR 0x5C then CHR ''/'' else c) s"

definition rule_matches :: "string \<Rightarrow> string \<Rightarrow> permission_rule \<Rightarrow> bool" where
  "rule_matches action resource p =
     (let path_action = action \<in> {''read'', ''edit'', ''external_directory''};
          subject = (if path_action then normalize_resource resource else resource);
          pattern = (if path_action then normalize_resource (pr_resource p) else pr_resource p)
      in fnmatchcase action (pr_action p) \<and> fnmatchcase subject pattern)"

definition effect_of :: "permission_rule list \<Rightarrow> string \<Rightarrow> string \<Rightarrow> permission_effect" where
  "effect_of rules action resource =
     foldl (\<lambda>e p. if rule_matches action resource p then pr_effect p else e)
       (if action = ''external_directory'' then Ask else Allow) rules"

section \<open>Approvals\<close>

text \<open>What an approval is for; \<open>json.dumps\<close> makes it the text that is hashed.\<close>

record permission_request =
  rq_agent :: string
  rq_action :: string
  rq_resource :: string
  rq_metadata :: "(string \<times> string) list"
  rq_rules :: "permission_rule list"

datatype permission_answer = Allow_once | Allow_thread | Answer_deny

record permission_resume =
  re_request_id :: string
  re_decision :: permission_answer

datatype coding_error = Permission_denied | Approval_unavailable | Not_found | Invalid_input | Stale_content
  | Unknown_outcome | Execution_error | Interrupted

text \<open>
  The names: \<open>digest\<close> of the request as JSON, of a call's identifiers with that, of a request that waits for an
  answer, and of an owner.
\<close>

record namer =
  nm_request :: "permission_request \<Rightarrow> string"
  nm_digest :: "string \<Rightarrow> string"
  nm_owner :: "string \<times> string \<Rightarrow> string"

text \<open>The files below the storage root: the owner records with their threads, and the approvals.\<close>

record grant_store =
  gs_owners :: "(string, string) dict"
  gs_grants :: "(string \<times> string) list"
  gs_once :: "(string \<times> string) list"

definition no_grants :: grant_store where
  "no_grants = \<lparr>gs_owners = [], gs_grants = [], gs_once = []\<rparr>"

definition request_of :: "invocation \<Rightarrow> string \<Rightarrow> string \<Rightarrow> (string \<times> string) list \<Rightarrow> permission_request" where
  "request_of i action resource metadata =
     \<lparr>rq_agent = in_agent i, rq_action = action, rq_resource = resource, rq_metadata = metadata, rq_rules = in_rules i\<rparr>"

definition owner_dir :: "namer \<Rightarrow> invocation \<Rightarrow> string" where
  "owner_dir K i = take 32 (nm_owner K (in_scope i, in_thread i))"

definition grant_file :: "namer \<Rightarrow> invocation \<Rightarrow> permission_request \<Rightarrow> string \<times> string" where
  "grant_file K i r = (owner_dir K i, take 32 (nm_request K r))"

definition once_file :: "namer \<Rightarrow> invocation \<Rightarrow> permission_request \<Rightarrow> string \<times> string" where
  "once_file K i r = (owner_dir K i, take 32 (nm_digest K (in_message i @ in_call i @ nm_request K r)))"

definition request_id :: "namer \<Rightarrow> invocation \<Rightarrow> permission_request \<Rightarrow> string" where
  "request_id K i r = nm_digest K (in_call i @ [CHR 0x00] @ nm_request K r)"

text \<open>
  The loop on \<open>interrupt\<close>: answers to other requests are skipped; without an answer the run stops to wait for
  one (\<open>None\<close>).
\<close>

fun first_answer :: "string \<Rightarrow> permission_resume list \<Rightarrow> permission_answer option" where
  "first_answer rid [] = None"
| "first_answer rid (a # as) = (if re_request_id a = rid then Some (re_decision a) else first_answer rid as)"

text \<open>\<open>owner_dir\<close> makes the record of a new owner.\<close>

definition note_owner :: "namer \<Rightarrow> invocation \<Rightarrow> grant_store \<Rightarrow> grant_store" where
  "note_owner K i s =
     (if dict_get (gs_owners s) (owner_dir K i) = None
      then s\<lparr>gs_owners := dict_set (owner_dir K i) (in_thread i) (gs_owners s)\<rparr> else s)"

definition assert_allowed ::
  "namer \<Rightarrow> invocation \<Rightarrow> string \<Rightarrow> string \<Rightarrow> (string \<times> string) list \<Rightarrow> bool \<Rightarrow> permission_resume list
    \<Rightarrow> grant_store \<Rightarrow> coding_error option \<times> grant_store" where
  "assert_allowed K i action resource metadata allow_interrupt answers s =
     (case effect_of (in_rules i) action resource of
        Deny \<Rightarrow> (Some Permission_denied, s)
      | Allow \<Rightarrow> (None, s)
      | Ask \<Rightarrow>
          (let r = request_of i action resource metadata; s = note_owner K i s in
           if grant_file K i r \<in> set (gs_grants s) \<or> in_call i \<noteq> [] \<and> once_file K i r \<in> set (gs_once s) then (None, s)
           else if \<not> allow_interrupt then (Some Permission_denied, s)
           else if \<not> in_approval_supported i \<or> in_thread i = [] \<or> in_call i = [] then (Some Approval_unavailable, s)
           else (case first_answer (request_id K i r) answers of
                   None \<Rightarrow> (Some Interrupted, s)
                 | Some Answer_deny \<Rightarrow> (Some Permission_denied, s)
                 | Some Allow_thread \<Rightarrow> (None, s\<lparr>gs_grants := grant_file K i r # gs_grants s\<rparr>)
                 | Some Allow_once \<Rightarrow> (None, s\<lparr>gs_once := once_file K i r # gs_once s\<rparr>))))"

text \<open>\<open>clear_thread_grants\<close>: a conversation and its delegated runs.\<close>

definition of_conversation :: "string \<Rightarrow> string \<Rightarrow> bool" where
  "of_conversation t owner_thread = (owner_thread = t \<or> starts_with (t @ '':sub:'') owner_thread)"

definition clear_thread_grants :: "string \<Rightarrow> grant_store \<Rightarrow> grant_store" where
  "clear_thread_grants t s =
     s\<lparr>gs_grants := filter (\<lambda>(d, g). case dict_get (gs_owners s) d of None \<Rightarrow> True | Some o_thread \<Rightarrow> \<not> of_conversation t o_thread)
                     (gs_grants s)\<rparr>"

section \<open>Paths\<close>

text \<open>
  What the file system says: \<open>real\<close> is \<open>Path.resolve\<close> of an absolute path, \<open>expand\<close> is \<open>expanduser\<close>.
\<close>

record path_env =
  pe_real :: "path \<Rightarrow> path"
  pe_expand :: "string \<Rightarrow> string"

definition absolute_text :: "path \<Rightarrow> string" where
  "absolute_text p = ''/'' @ path_text p"

definition requested_path :: "path_env \<Rightarrow> invocation \<Rightarrow> string \<Rightarrow> bool \<times> path" where
  "requested_path E i v =
     (let w = pe_expand E (if v = [] then ''.'' else v) in
      if is_absolute w then (True, pe_real E (pure_parts w))
      else (False, pe_real E (pe_real E (in_workspace i) @ pure_parts w)))"

definition is_skill_path :: "path_env \<Rightarrow> invocation \<Rightarrow> path \<Rightarrow> bool" where
  "is_skill_path E i p = list_ex (\<lambda>q. prefix (pe_real E q) p) (in_skill_roots i)"

definition skill_cache_path :: "path_env \<Rightarrow> invocation \<Rightarrow> path \<Rightarrow> bool" where
  "skill_cache_path E i p =
     (prefix (pe_real E (in_workspace i) @ [''.k41-agent'', ''s'']) p
      \<or> (case in_skill_cache i of None \<Rightarrow> False | Some c \<Rightarrow> prefix (pe_real E c) p))"

definition resolve_path ::
  "path_env \<Rightarrow> namer \<Rightarrow> invocation \<Rightarrow> string \<Rightarrow> string \<Rightarrow> bool \<Rightarrow> bool \<Rightarrow> permission_resume list
    \<Rightarrow> grant_store \<Rightarrow> (coding_error + path) \<times> grant_store" where
  "resolve_path E K i v action authorize allow_interrupt answers s =
     (let (absolute, target) = requested_path E i v;
          skill = is_skill_path E i target;
          inside = prefix (pe_real E (in_workspace i)) target
      in if skill_cache_path E i target \<and> \<not> skill then (Inl Not_found, s)
         else if skill \<and> action \<notin> {''read'', ''shell''} then (Inl Permission_denied, s)
         else if \<not> inside \<and> \<not> skill \<and> \<not> absolute then (Inl Permission_denied, s)
         else
           (let (e, s) = (if \<not> inside \<and> \<not> skill \<and> authorize
                          then assert_allowed K i ''external_directory''
                                 (absolute_text (if action \<noteq> ''shell'' then butlast target else target)) [] allow_interrupt answers s
                          else (None, s))
            in case e of
                 Some x \<Rightarrow> (Inl x, s)
               | None \<Rightarrow>
                   if authorize
                   then (case assert_allowed K i action (absolute_text target) [] allow_interrupt answers s of
                           (Some x, s) \<Rightarrow> (Inl x, s)
                         | (None, s) \<Rightarrow> (Inr target, s))
                   else (Inr target, s)))"

section \<open>What the approvals promise\<close>

text \<open>
  The approvals a user has given: for a conversation, to its owner (workspace and thread), and for one call, known by
  its message and its identifier. The user answers questions, each about the request of a call; the answer reaches
  the tool under the identifier of the question. The files stand for the approvals by hashed names.
\<close>

record approvals =
  ap_thread :: "((string \<times> string) \<times> permission_request) list"
  ap_once :: "((string \<times> string) \<times> (string \<times> string) \<times> permission_request) list"

record permission_call =
  pc_by :: invocation
  pc_action :: string
  pc_resource :: string
  pc_metadata :: "(string \<times> string) list"
  pc_interrupt :: bool
  pc_answers :: "((string \<times> permission_request) \<times> permission_answer) list"

definition owner_of :: "permission_call \<Rightarrow> string \<times> string" where
  "owner_of c = (in_scope (pc_by c), in_thread (pc_by c))"

definition call_ids :: "permission_call \<Rightarrow> string \<times> string" where
  "call_ids c = (in_message (pc_by c), in_call (pc_by c))"

definition asked :: "permission_call \<Rightarrow> permission_request" where
  "asked c = request_of (pc_by c) (pc_action c) (pc_resource c) (pc_metadata c)"

definition effect_for :: "permission_call \<Rightarrow> permission_effect" where
  "effect_for c = effect_of (in_rules (pc_by c)) (pc_action c) (pc_resource c)"

definition standing :: "approvals \<Rightarrow> permission_call \<Rightarrow> bool" where
  "standing A c \<longleftrightarrow> (owner_of c, asked c) \<in> set (ap_thread A)
     \<or> in_call (pc_by c) \<noteq> [] \<and> (owner_of c, call_ids c, asked c) \<in> set (ap_once A)"

text \<open>The user's first answer to the question about this call's request, if the call may ask and its channel can.\<close>

definition answered :: "permission_call \<Rightarrow> permission_answer option" where
  "answered c =
     (if pc_interrupt c \<and> in_approval_supported (pc_by c) \<and> in_thread (pc_by c) \<noteq> [] \<and> in_call (pc_by c) \<noteq> []
      then map_of (pc_answers c) (in_call (pc_by c), asked c) else None)"

definition permitted :: "approvals \<Rightarrow> permission_call \<Rightarrow> bool" where
  "permitted A c \<longleftrightarrow>
     (case effect_for c of
        Allow \<Rightarrow> True
      | Deny \<Rightarrow> False
      | Ask \<Rightarrow> standing A c \<or> answered c \<in> {Some Allow_thread, Some Allow_once})"

definition note_call :: "permission_call \<Rightarrow> approvals \<Rightarrow> approvals" where
  "note_call c A =
     (if effect_for c \<noteq> Ask \<or> standing A c then A
      else if answered c = Some Allow_thread then A\<lparr>ap_thread := (owner_of c, asked c) # ap_thread A\<rparr>
      else if answered c = Some Allow_once then A\<lparr>ap_once := (owner_of c, call_ids c, asked c) # ap_once A\<rparr>
      else A)"

definition note_clear :: "string \<Rightarrow> approvals \<Rightarrow> approvals" where
  "note_clear t A = A\<lparr>ap_thread := filter (\<lambda>((scope, th), r). \<not> of_conversation t th) (ap_thread A)\<rparr>"

text \<open>A history of operations, with what they answered, on the files and on the approvals.\<close>

datatype permission_event = Call permission_call | Clear string

fun calls_of :: "permission_event list \<Rightarrow> permission_call list" where
  "calls_of [] = []"
| "calls_of (Call c # es) = c # calls_of es"
| "calls_of (Clear t # es) = calls_of es"

definition question_id :: "namer \<Rightarrow> string \<times> permission_request \<Rightarrow> string" where
  "question_id K q = nm_digest K (fst q @ [CHR 0x00] @ nm_request K (snd q))"

definition resume_of :: "namer \<Rightarrow> (string \<times> permission_request) \<times> permission_answer \<Rightarrow> permission_resume" where
  "resume_of K a = \<lparr>re_request_id = question_id K (fst a), re_decision = snd a\<rparr>"

definition perform_call :: "namer \<Rightarrow> permission_call \<Rightarrow> grant_store \<Rightarrow> coding_error option \<times> grant_store" where
  "perform_call K c s = assert_allowed K (pc_by c) (pc_action c) (pc_resource c) (pc_metadata c) (pc_interrupt c)
     (map (resume_of K) (pc_answers c)) s"

fun outcomes :: "namer \<Rightarrow> permission_event list \<Rightarrow> grant_store \<Rightarrow> bool list" where
  "outcomes K [] s = []"
| "outcomes K (Call c # es) s = (case perform_call K c s of (e, s) \<Rightarrow> (e = None) # outcomes K es s)"
| "outcomes K (Clear t # es) s = outcomes K es (clear_thread_grants t s)"

fun permitted_calls :: "permission_event list \<Rightarrow> approvals \<Rightarrow> bool list" where
  "permitted_calls [] A = []"
| "permitted_calls (Call c # es) A = permitted A c # permitted_calls es (note_call c A)"
| "permitted_calls (Clear t # es) A = permitted_calls es (note_clear t A)"

text \<open>
  SHA-256 gives 64 digits; among the owners, the requests, the calls and the questions of a history no two have the
  same name, nor the same first 32 digits of it where the code cuts it.
\<close>

definition once_text :: "namer \<Rightarrow> permission_call \<Rightarrow> string" where
  "once_text K c = in_message (pc_by c) @ in_call (pc_by c) @ nm_request K (asked c)"

definition questions :: "permission_call list \<Rightarrow> (string \<times> permission_request) list" where
  "questions cs = concat (map (\<lambda>c. (in_call (pc_by c), asked c) # map fst (pc_answers c)) cs)"

definition collision_free :: "namer \<Rightarrow> permission_call list \<Rightarrow> bool" where
  "collision_free K cs \<longleftrightarrow>
     (\<forall>r. length (nm_request K r) = 64)
     \<and> inj_on (\<lambda>x. take 32 (nm_owner K x)) (owner_of ` set cs)
     \<and> inj_on (\<lambda>r. take 32 (nm_request K r)) (snd ` set (questions cs))
     \<and> inj_on (\<lambda>x. take 32 (nm_digest K x)) (once_text K ` set cs)
     \<and> inj_on (nm_digest K) ((\<lambda>q. fst q @ [CHR 0x00] @ nm_request K (snd q)) ` set (questions cs))"

text \<open>
  The message and the call of an approval for one call are hashed without a separator between them: the identifiers
  of no two calls run together to the same text.
\<close>

definition told_apart :: "permission_call list \<Rightarrow> bool" where
  "told_apart cs \<longleftrightarrow> inj_on (\<lambda>(m, c). m @ c) (call_ids ` set cs)"

lemma files_of_call:
  "owner_dir K (pc_by c) = take 32 (nm_owner K (owner_of c))"
  "grant_file K (pc_by c) (asked c) = (take 32 (nm_owner K (owner_of c)), take 32 (nm_request K (asked c)))"
  "once_file K (pc_by c) (asked c) = (take 32 (nm_owner K (owner_of c)), take 32 (nm_digest K (once_text K c)))"
  by (simp_all add: owner_dir_def grant_file_def once_file_def owner_of_def once_text_def)

lemma asked_question: "c \<in> set cs \<Longrightarrow> (in_call (pc_by c), asked c) \<in> set (questions cs)"
  by (auto simp: questions_def)

lemma answered_question: "c \<in> set cs \<Longrightarrow> a \<in> set (pc_answers c) \<Longrightarrow> fst a \<in> set (questions cs)"
  by (auto simp: questions_def)

lemma same_request:
  assumes "collision_free K cs" "take 32 (nm_request K r) = take 32 (nm_request K q)"
    and "r \<in> snd ` set (questions cs)" "q \<in> snd ` set (questions cs)"
  shows "r = q"
  using assms inj_onD [of "\<lambda>r. take 32 (nm_request K r)" "snd ` set (questions cs)" r q] by (simp add: collision_free_def)

lemma same_asked:
  assumes "collision_free K cs" "take 32 (nm_request K (asked c)) = take 32 (nm_request K (asked d))" "c \<in> set cs" "d \<in> set cs"
  shows "asked c = asked d"
  using same_request [OF assms(1,2)] imageI [OF asked_question [OF assms(3)], of snd] imageI [OF asked_question [OF assms(4)], of snd] by simp

lemma same_once_text:
  assumes "collision_free K cs" "told_apart cs" "once_text K c = once_text K d" "c \<in> set cs" "d \<in> set cs"
  shows "call_ids c = call_ids d \<and> asked c = asked d"
proof -
  have e: "in_message (pc_by c) @ in_call (pc_by c) = in_message (pc_by d) @ in_call (pc_by d)"
      "nm_request K (asked c) = nm_request K (asked d)"
    using assms(1,3) by (simp_all add: once_text_def collision_free_def flip: append_assoc)
  have "call_ids c = call_ids d"
    by (rule inj_onD [OF assms(2) [unfolded told_apart_def]]) (use e(1) assms(4,5) in \<open>simp_all add: call_ids_def\<close>)
  then show ?thesis using same_asked [OF assms(1) _ assms(4,5)] e(2) by simp
qed

lemma same_question:
  assumes "collision_free K cs" "question_id K p = question_id K q" "p \<in> set (questions cs)" "q \<in> set (questions cs)"
  shows "p = q"
proof -
  let ?text = "\<lambda>q. fst q @ [CHR 0x00] @ nm_request K (snd q)"
  have t: "?text p = ?text q"
  proof (rule inj_onD)
    show "inj_on (nm_digest K) (?text ` set (questions cs))" using assms(1) by (simp add: collision_free_def)
  qed (use assms(2-4) in \<open>simp_all add: question_id_def\<close>)
  have n: "length (nm_request K (snd p)) = length (nm_request K (snd q))" using assms(1) by (simp add: collision_free_def)
  have "fst p = fst q" "nm_request K (snd p) = nm_request K (snd q)" using t n by auto
  then show ?thesis using same_request [OF assms(1), of "snd p" "snd q"] assms(3,4) by (simp add: prod_eq_iff)
qed

text \<open>The tool takes the answer to the question that it asks.\<close>

lemma first_answer_of:
  assumes "collision_free K cs" "p \<in> set (questions cs)" "\<forall>a \<in> set as. fst a \<in> set (questions cs)"
  shows "first_answer (question_id K p) (map (resume_of K) as) = map_of as p"
  using assms(3)
proof (induction as)
  case (Cons a as)
  have "question_id K (fst a) = question_id K p \<longleftrightarrow> fst a = p"
    using same_question [OF assms(1), of "fst a" p] Cons.prems assms(2) by auto
  then show ?case using Cons by (cases a) (auto simp: resume_of_def)
qed simp

text \<open>The files are those of the approvals, each given by a call of the history.\<close>

definition stands_for :: "namer \<Rightarrow> permission_call list \<Rightarrow> grant_store \<Rightarrow> approvals \<Rightarrow> bool" where
  "stands_for K cs s A \<longleftrightarrow>
     (\<exists>G H. set G \<subseteq> set cs \<and> set H \<subseteq> set cs
        \<and> ap_thread A = map (\<lambda>c. (owner_of c, asked c)) G
        \<and> gs_grants s = map (\<lambda>c. grant_file K (pc_by c) (asked c)) G
        \<and> ap_once A = map (\<lambda>c. (owner_of c, call_ids c, asked c)) H
        \<and> gs_once s = map (\<lambda>c. once_file K (pc_by c) (asked c)) H
        \<and> (\<forall>c \<in> set G. dict_get (gs_owners s) (owner_dir K (pc_by c)) \<noteq> None))
     \<and> (\<forall>c \<in> set cs. dict_get (gs_owners s) (owner_dir K (pc_by c)) \<in> {None, Some (in_thread (pc_by c))})"

lemma stands_for_nothing: "stands_for K cs no_grants \<lparr>ap_thread = [], ap_once = []\<rparr>"
  by (simp add: stands_for_def no_grants_def)

lemma owner_dir_same: "collision_free K cs \<Longrightarrow> c \<in> set cs \<Longrightarrow> d \<in> set cs \<Longrightarrow> owner_dir K (pc_by c) = owner_dir K (pc_by d) \<longleftrightarrow> owner_of c = owner_of d"
  by (auto simp: files_of_call collision_free_def dest: inj_onD)

lemma stands_for_note_owner:
  assumes "collision_free K cs" "stands_for K cs s A" "c \<in> set cs"
  shows "stands_for K cs (note_owner K (pc_by c) s) A
    \<and> dict_get (gs_owners (note_owner K (pc_by c) s)) (owner_dir K (pc_by c)) \<noteq> None"
proof (cases "dict_get (gs_owners s) (owner_dir K (pc_by c))")
  case None
  have "in_thread (pc_by d) = in_thread (pc_by c)" if "d \<in> set cs" "owner_dir K (pc_by d) = owner_dir K (pc_by c)" for d
    using owner_dir_same [OF assms(1) that(1) assms(3)] that(2) by (simp add: owner_of_def)
  then show ?thesis
    using None assms(2) unfolding stands_for_def note_owner_def
    by (elim conjE exE; intro conjI) (rule_tac x = G in exI, rule_tac x = H in exI, auto simp: dict_get_set)
qed (use assms(2) in \<open>simp add: note_owner_def\<close>)

lemma standing_files:
  assumes "collision_free K cs" "told_apart cs" "stands_for K cs s A" "c \<in> set cs"
  shows "standing A c \<longleftrightarrow> grant_file K (pc_by c) (asked c) \<in> set (gs_grants s)
      \<or> in_call (pc_by c) \<noteq> [] \<and> once_file K (pc_by c) (asked c) \<in> set (gs_once s)"
proof -
  obtain G H where G: "set G \<subseteq> set cs" "ap_thread A = map (\<lambda>c. (owner_of c, asked c)) G"
      "gs_grants s = map (\<lambda>c. grant_file K (pc_by c) (asked c)) G"
    and H: "set H \<subseteq> set cs" "ap_once A = map (\<lambda>c. (owner_of c, call_ids c, asked c)) H"
      "gs_once s = map (\<lambda>c. once_file K (pc_by c) (asked c)) H"
    using assms(3) unfolding stands_for_def by auto
  have g: "grant_file K (pc_by c) (asked c) = grant_file K (pc_by d) (asked d) \<longleftrightarrow> owner_of c = owner_of d \<and> asked c = asked d"
    if "d \<in> set cs" for d
    using same_asked [OF assms(1) _ assms(4) that] assms(1,4) that by (auto simp: files_of_call collision_free_def dest: inj_onD)
  have h: "once_file K (pc_by c) (asked c) = once_file K (pc_by d) (asked d)
      \<longleftrightarrow> owner_of c = owner_of d \<and> call_ids c = call_ids d \<and> asked c = asked d"
    if "d \<in> set cs" for d
  proof
    assume "once_file K (pc_by c) (asked c) = once_file K (pc_by d) (asked d)"
    then have "owner_of c = owner_of d" "once_text K c = once_text K d"
      using assms(1,4) that by (auto simp: files_of_call collision_free_def dest: inj_onD)
    then show "owner_of c = owner_of d \<and> call_ids c = call_ids d \<and> asked c = asked d"
      using same_once_text [OF assms(1,2) _ assms(4) that] by simp
  qed (simp add: once_file_def owner_dir_def owner_of_def call_ids_def)
  have "(owner_of c, asked c) \<in> set (ap_thread A) \<longleftrightarrow> grant_file K (pc_by c) (asked c) \<in> set (gs_grants s)"
    unfolding G(2,3) set_map image_iff using g G(1) by (metis prod.inject subsetD)
  moreover have "(owner_of c, call_ids c, asked c) \<in> set (ap_once A) \<longleftrightarrow> once_file K (pc_by c) (asked c) \<in> set (gs_once s)"
    unfolding H(2,3) set_map image_iff using h H(1) by (metis prod.inject subsetD)
  ultimately show ?thesis
    by (simp add: standing_def)
qed

lemma perform_call_refines:
  assumes "collision_free K cs" "told_apart cs" "stands_for K cs s A" "c \<in> set cs" "perform_call K c s = (e, t)"
  shows "(e = None \<longleftrightarrow> permitted A c) \<and> stands_for K cs t (note_call c A)"
proof (cases "effect_for c")
  case Ask
  define u where "u = note_owner K (pc_by c) s"
  have u: "stands_for K cs u A" "dict_get (gs_owners u) (owner_dir K (pc_by c)) \<noteq> None"
    using stands_for_note_owner [OF assms(1,3,4)] unfolding u_def by blast+
  note files = standing_files [OF assms(1,2) u(1) assms(4)]
  have grant: "stands_for K cs (u\<lparr>gs_grants := grant_file K (pc_by c) (asked c) # gs_grants u\<rparr>)
      (A\<lparr>ap_thread := (owner_of c, asked c) # ap_thread A\<rparr>)"
    using u assms(4) unfolding stands_for_def
    by (elim conjE exE; intro conjI) (rule_tac x = "c # G" in exI, rule_tac x = H in exI, auto)
  have once: "stands_for K cs (u\<lparr>gs_once := once_file K (pc_by c) (asked c) # gs_once u\<rparr>)
      (A\<lparr>ap_once := (owner_of c, call_ids c, asked c) # ap_once A\<rparr>)"
    using u assms(4) unfolding stands_for_def
    by (elim conjE exE; intro conjI) (rule_tac x = G in exI, rule_tac x = "c # H" in exI, auto)
  have "request_id K (pc_by c) (asked c) = question_id K (in_call (pc_by c), asked c)" by (simp add: request_id_def question_id_def)
  then have answer: "first_answer (request_id K (pc_by c) (asked c)) (map (resume_of K) (pc_answers c))
      = map_of (pc_answers c) (in_call (pc_by c), asked c)"
    using first_answer_of [OF assms(1) asked_question [OF assms(4)]] answered_question [OF assms(4)] by simp
  have p: "perform_call K c s =
      (if standing A c then (None, u)
       else if \<not> pc_interrupt c then (Some Permission_denied, u)
       else if \<not> in_approval_supported (pc_by c) \<or> in_thread (pc_by c) = [] \<or> in_call (pc_by c) = [] then (Some Approval_unavailable, u)
       else (case map_of (pc_answers c) (in_call (pc_by c), asked c) of
               None \<Rightarrow> (Some Interrupted, u)
             | Some Answer_deny \<Rightarrow> (Some Permission_denied, u)
             | Some Allow_thread \<Rightarrow> (None, u\<lparr>gs_grants := grant_file K (pc_by c) (asked c) # gs_grants u\<rparr>)
             | Some Allow_once \<Rightarrow> (None, u\<lparr>gs_once := once_file K (pc_by c) (asked c) # gs_once u\<rparr>)))"
    using Ask answer unfolding files perform_call_def assert_allowed_def effect_for_def u_def asked_def Let_def by simp
  show ?thesis
    using assms(5) Ask u(1) grant once unfolding p
    by (auto simp: permitted_def note_call_def answered_def split: if_splits option.splits permission_answer.splits)
qed (use assms in \<open>auto simp: perform_call_def assert_allowed_def effect_for_def permitted_def note_call_def\<close>)

lemma set_calls_of: "c \<in> set (calls_of es) \<longleftrightarrow> Call c \<in> set es"
  by (induction es rule: calls_of.induct) auto

lemma clear_refines:
  assumes "stands_for K cs s A"
  shows "stands_for K cs (clear_thread_grants t s) (note_clear t A)"
proof -
  obtain G H where G: "set G \<subseteq> set cs" "ap_thread A = map (\<lambda>c. (owner_of c, asked c)) G"
      "gs_grants s = map (\<lambda>c. grant_file K (pc_by c) (asked c)) G"
      "\<forall>c \<in> set G. dict_get (gs_owners s) (owner_dir K (pc_by c)) \<noteq> None"
    and H: "set H \<subseteq> set cs" "ap_once A = map (\<lambda>c. (owner_of c, call_ids c, asked c)) H"
      "gs_once s = map (\<lambda>c. once_file K (pc_by c) (asked c)) H"
    and o: "\<forall>c \<in> set cs. dict_get (gs_owners s) (owner_dir K (pc_by c)) \<in> {None, Some (in_thread (pc_by c))}"
    using assms unfolding stands_for_def by auto
  define F where "F = filter (\<lambda>c. \<not> of_conversation t (in_thread (pc_by c))) G"
  have thread: "dict_get (gs_owners s) (owner_dir K (pc_by c)) = Some (in_thread (pc_by c))" if "c \<in> set G" for c
    using that G(1,4) o by fastforce
  have "ap_thread (note_clear t A) = map (\<lambda>c. (owner_of c, asked c)) F"
    by (simp add: note_clear_def G(2) F_def filter_map o_def owner_of_def case_prod_unfold)
  moreover have "gs_grants (clear_thread_grants t s) = map (\<lambda>c. grant_file K (pc_by c) (asked c)) F"
    using thread by (auto simp: clear_thread_grants_def G(3) F_def filter_map o_def grant_file_def intro!: arg_cong [where f = "map _"] filter_cong)
  moreover have "set F \<subseteq> set cs" "\<forall>c \<in> set F. dict_get (gs_owners s) (owner_dir K (pc_by c)) \<noteq> None"
    using G(1,4) by (auto simp: F_def)
  ultimately show ?thesis
    using H o unfolding stands_for_def
    by (intro conjI exI [of _ F] exI [of _ H]) (simp_all add: clear_thread_grants_def note_clear_def)
qed

lemma outcomes_refine:
  "collision_free K cs \<Longrightarrow> told_apart cs \<Longrightarrow> stands_for K cs s A \<Longrightarrow> set (calls_of es) \<subseteq> set cs
    \<Longrightarrow> outcomes K es s = permitted_calls es A"
proof (induction es arbitrary: s A)
  case (Cons e es)
  show ?case
  proof (cases e)
    case (Call c)
    obtain x u where p: "perform_call K c s = (x, u)" by fastforce
    then show ?thesis
      using Cons perform_call_refines [OF Cons.prems(1-3) _ p] Call by simp
  next
    case (Clear t)
    then show ?thesis
      using Cons clear_refines [OF Cons.prems(3)] by simp
  qed
qed simp

text \<open>
  C19: The files of approvals decide as the approvals themselves would. Over every history of tool calls and of
  conversations whose approvals are cleared, an operation goes ahead exactly if the last rule that matches allows
  it, or if that rule asks and the user has approved exactly this request (agent, action, resource, details and
  rules) now, earlier for this call of this message, or earlier for this workspace and conversation with no clearing
  since. The hashes of the texts that occur must not collide, and the identifiers of two calls with their
  messages must not run together to the same text, since the code hashes them without a separator.
\<close>

theorem approvals_are_exact:
  assumes "collision_free K (calls_of es)" and "told_apart (calls_of es)"
  shows "outcomes K es no_grants = permitted_calls es \<lparr>ap_thread = [], ap_once = []\<rparr>"
  using outcomes_refine [OF assms stands_for_nothing subset_refl] .

definition demo_namer :: namer where
  "demo_namer = \<lparr>nm_request = (\<lambda>r. take 64 (rq_resource r @ replicate 64 (CHR ''0''))), nm_digest = (\<lambda>s. s),
     nm_owner = (\<lambda>(s, t). s @ t)\<rparr>"

definition demo_by :: "string \<Rightarrow> invocation" where
  "demo_by call =
     \<lparr>in_agent = ''helper'', in_scope = ''/w'', in_thread = ''t1'', in_message = ''m'', in_call = call,
       in_approval_supported = True, in_rules = [\<lparr>pr_action = ''shell'', pr_resource = ''*'', pr_effect = Ask\<rparr>],
       in_workspace = [''w''], in_skill_roots = [], in_skill_cache = None\<rparr>"

definition demo_call :: "string \<Rightarrow> string \<Rightarrow> ((string \<times> permission_request) \<times> permission_answer) list \<Rightarrow> permission_call" where
  "demo_call call resource answers =
     \<lparr>pc_by = demo_by call, pc_action = ''shell'', pc_resource = resource, pc_metadata = [], pc_interrupt = True, pc_answers = answers\<rparr>"

definition demo_answer :: "string \<Rightarrow> string \<Rightarrow> permission_answer \<Rightarrow> (string \<times> permission_request) \<times> permission_answer" where
  "demo_answer call resource a = ((call, request_of (demo_by call) ''shell'' resource []), a)"

text \<open>
  One command is approved for its call, one for the conversation; an answer to another request approves nothing;
  clearing the conversation takes the second approval back.
\<close>

definition demo_history :: "permission_event list" where
  "demo_history =
     [Call (demo_call ''1'' ''ls'' []), Call (demo_call ''1'' ''ls'' [demo_answer ''1'' ''ls'' Allow_once]),
      Call (demo_call ''2'' ''ls'' [demo_answer ''1'' ''ls'' Allow_once]),
      Call (demo_call ''3'' ''make'' [demo_answer ''3'' ''make'' Allow_thread]), Call (demo_call ''4'' ''make'' []),
      Clear ''t1'', Call (demo_call ''5'' ''make'' []), Call (demo_call ''1'' ''ls'' [])]"

lemma demo_collision_free: "collision_free demo_namer (calls_of demo_history)"
  unfolding collision_free_def
proof (intro conjI)
  show "\<forall>r. length (nm_request demo_namer r) = 64"
    by (auto simp: demo_namer_def min_def)
qed code_simp+

lemma demo_told_apart: "told_apart (calls_of demo_history)"
  by code_simp

theorem approvals_are_exact_witness:
  "outcomes demo_namer demo_history no_grants = permitted_calls demo_history \<lparr>ap_thread = [], ap_once = []\<rparr>
   \<and> permitted_calls demo_history \<lparr>ap_thread = [], ap_once = []\<rparr> = [False, True, False, True, True, False, True]"
  by (intro conjI approvals_are_exact demo_collision_free demo_told_apart) code_simp

section \<open>Confinement\<close>

text \<open>No rule allows directories outside: none that can match has the effect \<open>Allow\<close>.\<close>

lemma external_not_allowed:
  "\<forall>p \<in> set rules. pr_effect p = Allow \<longrightarrow> \<not> fnmatchcase ''external_directory'' (pr_action p)
    \<Longrightarrow> effect_of rules ''external_directory'' d \<noteq> Allow"
proof -
  have "foldl (\<lambda>e p. if rule_matches ''external_directory'' d p then pr_effect p else e) e rules \<noteq> Allow"
    if "\<forall>p \<in> set rules. pr_effect p = Allow \<longrightarrow> \<not> fnmatchcase ''external_directory'' (pr_action p)" "e \<noteq> Allow" for e
    using that by (induction rules arbitrary: e) (auto simp: rule_matches_def Let_def)
  then show "\<forall>p \<in> set rules. pr_effect p = Allow \<longrightarrow> \<not> fnmatchcase ''external_directory'' (pr_action p)
    \<Longrightarrow> effect_of rules ''external_directory'' d \<noteq> Allow"
    by (simp add: effect_of_def)
qed

text \<open>
  C21: While a file tool works it reaches nothing outside the workspace that the user has not approved. If no rule
  allows external directories, then the path that a tool gets in the phase that cannot ask is in the workspace,
  or in an activated skill and only read, or lies in a directory for which there is an approval; and it is never
  in the cache of skills outside the activated ones. Links are resolved before.
\<close>

theorem tool_paths_confined:
  assumes "\<forall>p \<in> set (in_rules i). pr_effect p = Allow \<longrightarrow> \<not> fnmatchcase ''external_directory'' (pr_action p)"
    and "action \<in> {''read'', ''edit''}"
    and "resolve_path E K i v action True False answers s = (Inr target, s')"
  shows "(skill_cache_path E i target \<longrightarrow> is_skill_path E i target)
    \<and> (is_skill_path E i target \<longrightarrow> action = ''read'')
    \<and> (prefix (pe_real E (in_workspace i)) target
       \<or> is_skill_path E i target
       \<or> grant_file K i (request_of i ''external_directory'' (absolute_text (butlast target)) []) \<in> set (gs_grants s)
       \<or> once_file K i (request_of i ''external_directory'' (absolute_text (butlast target)) []) \<in> set (gs_once s))
    \<and> effect_of (in_rules i) action (absolute_text target) \<noteq> Deny"
proof -
  obtain absolute where t: "requested_path E i v = (absolute, target)"
    using assms(3) by (auto simp: resolve_path_def Let_def split: prod.splits option.splits if_splits)
  have n: "set (gs_grants (note_owner K i s)) = set (gs_grants s)" "set (gs_once (note_owner K i s)) = set (gs_once s)"
    by (simp_all add: note_owner_def)
  show ?thesis
    using assms t external_not_allowed [OF assms(1), of "absolute_text (butlast target)"]
    by (auto simp: resolve_path_def assert_allowed_def Let_def n split: prod.splits option.splits if_splits permission_effect.splits)
qed

text \<open>A relative path in a workspace without links.\<close>

definition plain_env :: path_env where
  "plain_env = \<lparr>pe_real = (\<lambda>p. p), pe_expand = (\<lambda>s. s)\<rparr>"

lemma plain_real: "pe_real plain_env = (\<lambda>p. p)" "pe_expand plain_env = (\<lambda>s. s)"
  by (simp_all add: plain_env_def)

theorem tool_paths_confined_witness:
  "resolve_path plain_env demo_namer (pc_by (demo_call ''1'' ''ls'' [])) ''a.txt'' ''edit'' True False [] no_grants
     = (Inr [''w'', ''a.txt''], no_grants)
   \<and> \<not> is_skill_path plain_env (pc_by (demo_call ''1'' ''ls'' [])) [''w'', ''a.txt'']"
proof -
  have r: "resolve_path plain_env demo_namer (pc_by (demo_call ''1'' ''ls'' [])) ''a.txt'' ''edit'' True False [] no_grants
     = (Inr [''w'', ''a.txt''], no_grants)"
    unfolding resolve_path_def requested_path_def skill_cache_path_def is_skill_path_def plain_real by code_simp
  have "\<forall>p \<in> set (in_rules (pc_by (demo_call ''1'' ''ls'' []))). pr_effect p = Allow
      \<longrightarrow> \<not> fnmatchcase ''external_directory'' (pr_action p)"
    by code_simp
  from tool_paths_confined [OF this _ r] r show ?thesis by auto
qed

end
