(* ===== verification/Tool_Invocation.thy ===== *)
theory Tool_Invocation
  imports Tool_Permissions
begin

text \<open>
  One call of a coding tool (\<open>agent/modules/tools/coding/service.py\<close>: \<open>_invoke\<close>, \<open>prepare_batch\<close>) and the journal
  that keeps it from running twice (\<open>coding/storage.py\<close>: \<open>begin\<close>, \<open>complete\<close>). Calls of the same and of other
  conversations run concurrently, and the process may stop at any point. What a tool does and answers is open: a
  result is a value of any type \<open>'r\<close>. The journal's file names are the identifiers they are hashed from.
\<close>

section \<open>The journal\<close>

record tool_call =
  tc_owner :: string
  tc_agent :: string
  tc_message :: string
  tc_call :: string
  tc_tool :: string
  tc_fingerprint :: string

type_synonym journal_key = "string \<times> string \<times> string \<times> string"

text \<open>A record is unreadable when the process stopped while it wrote it.\<close>

datatype 'r journal_record = Started string | Completed string 'r | Unreadable

type_synonym 'r journal = "(journal_key, 'r journal_record) dict"

definition journal_path :: "tool_call \<Rightarrow> journal_key" where
  "journal_path c = (tc_owner c, tc_agent c, tc_message c, tc_call c)"

definition begin_call :: "tool_call \<Rightarrow> 'r journal \<Rightarrow> (coding_error + 'r option) \<times> 'r journal" where
  "begin_call c j =
     (if tc_call c = [] then (Inr None, j)
      else (case dict_get j (journal_path c) of
              None \<Rightarrow> (Inr None, dict_set (journal_path c) (Started (tc_fingerprint c)) j)
            | Some Unreadable \<Rightarrow> (Inl Unknown_outcome, j)
            | Some (Started f) \<Rightarrow> (Inl (if f \<noteq> tc_fingerprint c then Invalid_input else Unknown_outcome), j)
            | Some (Completed f r) \<Rightarrow> (if f \<noteq> tc_fingerprint c then Inl Invalid_input else Inr (Some r), j)))"

definition complete_call :: "tool_call \<Rightarrow> 'r \<Rightarrow> 'r journal \<Rightarrow> 'r journal" where
  "complete_call c r j = (if tc_call c = [] then j else dict_set (journal_path c) (Completed (tc_fingerprint c) r) j)"

text \<open>Reads are not journalled: they observe the current file.\<close>

definition use_journal :: "tool_call \<Rightarrow> bool" where
  "use_journal c = (tc_tool c \<noteq> ''read'')"

definition journalled :: "tool_call \<Rightarrow> bool" where
  "journalled c = (use_journal c \<and> tc_call c \<noteq> [])"

section \<open>A batch\<close>

text \<open>
  \<open>prepare_batch\<close>: every call is settled in the journal or authorised (\<open>prepare\<close>) before any of them runs.
  \<open>begin_call\<close> is only asked of existing records here.
\<close>

fun prepare_batch :: "(tool_call \<Rightarrow> 's \<Rightarrow> coding_error option \<times> 's) \<Rightarrow> 'r journal \<Rightarrow> tool_call list \<Rightarrow> 's
    \<Rightarrow> coding_error option \<times> 's" where
  "prepare_batch prepare j [] s = (None, s)"
| "prepare_batch prepare j (c # cs) s =
     (if journalled c \<and> dict_get j (journal_path c) \<noteq> None
      then (case fst (begin_call c j) of Inl e \<Rightarrow> (Some e, s) | Inr r \<Rightarrow> prepare_batch prepare j cs s)
      else (case prepare c s of (Some e, s) \<Rightarrow> (Some e, s) | (None, s) \<Rightarrow> prepare_batch prepare j cs s))"

section \<open>The machine\<close>

text \<open>
  Where a call is: waiting for its lock, holding it, authorised and begun, running, run, saved, and answered.
\<close>

datatype 'r call_stage = Waiting | Holding | Preparing | Begun | Running | Ran 'r | Saved 'r | Answered "coding_error + 'r"

text \<open>
  The journal, the locks held (by owner, message and call), the calls with their stages, and the calls whose tool
  was started, which the code does not keep.
\<close>

record 'r invoke_world =
  iw_journal :: "'r journal"
  iw_locks :: "(string \<times> string \<times> string) list"
  iw_calls :: "(tool_call \<times> 'r call_stage) list"
  iw_started :: "tool_call list"

definition new_world :: "'r invoke_world" where
  "new_world = \<lparr>iw_journal = [], iw_locks = [], iw_calls = [], iw_started = []\<rparr>"

definition lock_key :: "tool_call \<Rightarrow> string \<times> string \<times> string" where
  "lock_key c = (tc_owner c, tc_message c, tc_call c)"

text \<open>An answer gives the lock back; a call without an identifier has a lock of its own.\<close>

definition held :: "tool_call \<Rightarrow> (string \<times> string \<times> string) list" where
  "held c = (if tc_call c = [] then [] else [lock_key c])"

definition freed :: "tool_call \<Rightarrow> (string \<times> string \<times> string) list \<Rightarrow> (string \<times> string \<times> string) list" where
  "freed c ls = (if tc_call c = [] then ls else remove1 (lock_key c) ls)"

inductive call_step :: "tool_call \<Rightarrow> 'r call_stage \<Rightarrow> 'r call_stage \<Rightarrow> 'r journal \<times> (string \<times> string \<times> string) list
    \<Rightarrow> 'r journal \<times> (string \<times> string \<times> string) list \<Rightarrow> bool" for c where
  lock: "tc_call c = [] \<or> lock_key c \<notin> set ls \<Longrightarrow> call_step c Waiting Holding (j, ls) (j, held c @ ls)"
| replay: "journalled c \<Longrightarrow> dict_get j (journal_path c) \<noteq> None \<Longrightarrow> fst (begin_call c j) = Inr (Some r)
    \<Longrightarrow> call_step c Holding (Answered (Inr r)) (j, ls) (j, freed c ls)"
| no_replay: "journalled c \<Longrightarrow> dict_get j (journal_path c) \<noteq> None \<Longrightarrow> fst (begin_call c j) = Inl e
    \<Longrightarrow> call_step c Holding (Answered (Inl e)) (j, ls) (j, freed c ls)"
| fresh: "\<not> (journalled c \<and> dict_get j (journal_path c) \<noteq> None) \<Longrightarrow> call_step c Holding Preparing (j, ls) (j, ls)"
| refused: "call_step c Preparing (Answered (Inl e)) (j, ls) (j, freed c ls)"
| unjournalled: "\<not> use_journal c \<Longrightarrow> call_step c Preparing Begun (j, ls) (j, ls)"
| begun: "use_journal c \<Longrightarrow> begin_call c j = (Inr None, k) \<Longrightarrow> call_step c Preparing Begun (j, ls) (k, ls)"
| begun_before: "use_journal c \<Longrightarrow> begin_call c j = (Inr (Some r), k)
    \<Longrightarrow> call_step c Preparing (Answered (Inr r)) (j, ls) (k, freed c ls)"
| not_begun: "use_journal c \<Longrightarrow> begin_call c j = (Inl e, k) \<Longrightarrow> call_step c Preparing (Answered (Inl e)) (j, ls) (k, freed c ls)"
| ran: "call_step c Running (Ran r) (j, ls) (j, ls)"
| interrupted: "call_step c Running (Answered (Inl Interrupted)) (j, ls) (j, freed c ls)"
| save: "call_step c (Ran r) (Saved r) (j, ls) (if use_journal c then complete_call c r j else j, ls)"
| answer: "call_step c (Saved r) (Answered (Inr r)) (j, ls) (j, freed c ls)"
| save_again: "call_step c (Saved r) (Saved q) (j, ls) (if use_journal c then complete_call c q j else j, ls)"

text \<open>Calls arrive, start their tool and step in any order; a stop ends them all and may leave a torn record.\<close>

inductive invoke_step :: "'r invoke_world \<Rightarrow> 'r invoke_world \<Rightarrow> bool" where
  arrive: "invoke_step W (W\<lparr>iw_calls := iw_calls W @ [(c, Waiting)]\<rparr>)"
| start_tool: "iw_calls W = us @ (c, Begun) # vs
    \<Longrightarrow> invoke_step W (W\<lparr>iw_calls := us @ (c, Running) # vs, iw_started := iw_started W @ [c]\<rparr>)"
| one: "iw_calls W = us @ (c, s) # vs \<Longrightarrow> call_step c s t (iw_journal W, iw_locks W) (j, ls)
    \<Longrightarrow> invoke_step W (W\<lparr>iw_calls := us @ (c, t) # vs, iw_journal := j, iw_locks := ls\<rparr>)"
| stop: "invoke_step W (W\<lparr>iw_calls := [], iw_locks := []\<rparr>)"
| torn: "(c, Preparing) \<in> set (iw_calls W) \<Longrightarrow> journalled c \<Longrightarrow> dict_get (iw_journal W) (journal_path c) = None
    \<Longrightarrow> invoke_step W (W\<lparr>iw_calls := [], iw_locks := [], iw_journal := dict_set (journal_path c) Unreadable (iw_journal W)\<rparr>)"

inductive invoked :: "'r invoke_world \<Rightarrow> 'r invoke_world \<Rightarrow> bool" where
  invoked_refl: "invoked W W"
| invoked_step: "invoked W X \<Longrightarrow> invoke_step X Y \<Longrightarrow> invoked W Y"

section \<open>At most once\<close>

definition starts_of :: "journal_key \<Rightarrow> 'r invoke_world \<Rightarrow> nat" where
  "starts_of k W = length (filter (\<lambda>c. journalled c \<and> journal_path c = k) (iw_started W))"

text \<open>Those that will be started, those that may still write the record, and those that hold a lock.\<close>

definition about_to :: "journal_key \<Rightarrow> (tool_call \<times> 'r call_stage) list \<Rightarrow> nat" where
  "about_to k cs = length (filter (\<lambda>(c, s). journalled c \<and> journal_path c = k \<and> s = Begun) cs)"

fun writing :: "'r call_stage \<Rightarrow> bool" where
  "writing Begun = True"
| "writing Running = True"
| "writing (Ran r) = True"
| "writing (Saved r) = True"
| "writing s = False"

definition writers :: "journal_key \<Rightarrow> (tool_call \<times> 'r call_stage) list \<Rightarrow> nat" where
  "writers k cs = length (filter (\<lambda>(c, s). journalled c \<and> journal_path c = k \<and> writing s) cs)"

lemma counts_simps [simp]:
  "about_to k [] = 0" "writers k [] = 0"
  "about_to k ((c, s) # cs) = (if journalled c \<and> journal_path c = k \<and> s = Begun then 1 else 0) + about_to k cs"
  "writers k ((c, s) # cs) = (if journalled c \<and> journal_path c = k \<and> writing s then 1 else 0) + writers k cs"
  "about_to k (us @ vs) = about_to k us + about_to k vs"
  "writers k (us @ vs) = writers k us + writers k vs"
  by (simp_all add: about_to_def writers_def)

definition active :: "'r call_stage \<Rightarrow> bool" where
  "active s \<longleftrightarrow> (case s of Waiting \<Rightarrow> False | Answered a \<Rightarrow> False | _ \<Rightarrow> True)"

lemma active_simps [simp]:
  "\<not> active Waiting" "\<not> active (Answered a)" "active Holding" "active Preparing" "active Begun" "active Running"
  "active (Ran r)" "active (Saved r)"
  by (simp_all add: active_def)

definition holders :: "string \<times> string \<times> string \<Rightarrow> (tool_call \<times> 'r call_stage) list \<Rightarrow> nat" where
  "holders l cs = length (filter (\<lambda>(c, s). tc_call c \<noteq> [] \<and> lock_key c = l \<and> active s) cs)"

lemma holders_simps [simp]:
  "holders l [] = 0"
  "holders l ((c, s) # cs) = (if tc_call c \<noteq> [] \<and> lock_key c = l \<and> active s then 1 else 0) + holders l cs"
  "holders l (us @ vs) = holders l us + holders l vs"
  by (simp_all add: holders_def)

lemma no_holders: "holders l cs = 0 \<Longrightarrow> (c, s) \<in> set cs \<Longrightarrow> tc_call c \<noteq> [] \<Longrightarrow> lock_key c = l \<Longrightarrow> \<not> active s"
  by (auto simp: holders_def filter_empty_conv)

lemma about_writers: "about_to k cs \<le> writers k cs"
  by (induction cs) auto

lemma no_writers: "writers k cs = 0 \<longleftrightarrow> (\<forall>(c, s) \<in> set cs. journalled c \<and> journal_path c = k \<longrightarrow> \<not> writing s)"
  by (auto simp: writers_def filter_empty_conv)

text \<open>The counts agree, and each stage knows what the record says.\<close>

definition locks_fit :: "'r invoke_world \<Rightarrow> bool" where
  "locks_fit W \<longleftrightarrow> (\<forall>l. count_list (iw_locks W) l = holders l (iw_calls W) \<and> holders l (iw_calls W) \<le> 1)"

lemma locks_fitD: "locks_fit W \<Longrightarrow> count_list (iw_locks W) l = holders l (iw_calls W) \<and> holders l (iw_calls W) \<le> 1"
  unfolding locks_fit_def by blast

definition once_only :: "journal_key \<Rightarrow> 'r invoke_world \<Rightarrow> bool" where
  "once_only k W \<longleftrightarrow> starts_of k W + about_to k (iw_calls W) \<le> 1
     \<and> (dict_get (iw_journal W) k = None \<longrightarrow> starts_of k W = 0 \<and> writers k (iw_calls W) = 0)"

definition stage_fits :: "'r journal \<Rightarrow> nat \<Rightarrow> tool_call \<Rightarrow> 'r call_stage \<Rightarrow> bool" where
  "stage_fits j n c s \<longleftrightarrow> (s = Preparing \<longrightarrow> dict_get j (journal_path c) = None)
     \<and> (\<forall>r. s = Saved r \<longrightarrow> dict_get j (journal_path c) = Some (Completed (tc_fingerprint c) r))
     \<and> (\<forall>r. s = Answered (Inr r) \<longrightarrow> dict_get j (journal_path c) = Some (Completed (tc_fingerprint c) r) \<and> n = 0)"

definition stages_fit :: "journal_key \<Rightarrow> 'r invoke_world \<Rightarrow> bool" where
  "stages_fit k W \<longleftrightarrow> (\<forall>(c, s) \<in> set (iw_calls W). journalled c \<and> journal_path c = k
     \<longrightarrow> stage_fits (iw_journal W) (writers k (iw_calls W)) c s)"

lemma count_freed: "count_list (freed c ls) l = count_list ls l - (if tc_call c \<noteq> [] \<and> lock_key c = l then 1 else 0)"
  by (induction ls) (auto simp: freed_def)

lemma count_held: "count_list (held c) l = (if tc_call c \<noteq> [] \<and> lock_key c = l then 1 else 0)"
  by (auto simp: held_def)

text \<open>What one step does to the locks and to the journal.\<close>

lemma step_locks:
  assumes "call_step c s t (j, ls) (j', ls')"
    and "(if tc_call c \<noteq> [] \<and> lock_key c = l \<and> active s then 1 else 0) \<le> count_list ls l"
  shows "count_list ls' l + (if tc_call c \<noteq> [] \<and> lock_key c = l \<and> active s then 1 else 0)
      = count_list ls l + (if tc_call c \<noteq> [] \<and> lock_key c = l \<and> active t then 1 else 0)"
  using assms by (cases rule: call_step.cases) (auto simp: count_freed count_held)

lemma step_lock_free: "call_step c Waiting t (j, ls) (j', ls') \<Longrightarrow> tc_call c = [] \<or> count_list ls (lock_key c) = 0"
  by (cases rule: call_step.cases) (auto simp: count_list_0_iff)

lemma step_journal:
  assumes "call_step c s t (j, ls) (j', ls')"
  shows "j' = j
    \<or> s = Preparing \<and> t = Begun \<and> tc_call c \<noteq> [] \<and> use_journal c \<and> dict_get j (journal_path c) = None
      \<and> j' = dict_set (journal_path c) (Started (tc_fingerprint c)) j
    \<or> (\<exists>r. s = Ran r \<and> t = Saved r \<and> journalled c \<and> j' = dict_set (journal_path c) (Completed (tc_fingerprint c) r) j)
    \<or> (\<exists>r q. s = Saved r \<and> t = Saved q \<and> journalled c \<and> j' = dict_set (journal_path c) (Completed (tc_fingerprint c) q) j)"
  using assms
  by (cases rule: call_step.cases)
    (auto simp: begin_call_def complete_call_def journalled_def split: if_splits option.splits journal_record.splits)

text \<open>A journalled call starts to write only from a missing record, and takes results only from a completed one.\<close>

lemma step_stage:
  assumes "call_step c s t (j, ls) (j', ls')" "journalled c"
  shows "writing t \<Longrightarrow> writing s \<or> s = Preparing \<and> t = Begun \<and> dict_get j (journal_path c) = None"
    and "t = Begun \<Longrightarrow> s = Preparing"
    and "t = Preparing \<Longrightarrow> dict_get j (journal_path c) = None \<and> j' = j"
    and "t = Answered (Inr r) \<Longrightarrow> s = Saved r \<and> j' = j \<or> dict_get j (journal_path c) = Some (Completed (tc_fingerprint c) r) \<and> j' = j"
  using assms
  by (cases rule: call_step.cases;
      auto simp: begin_call_def journalled_def split: if_splits option.splits journal_record.splits)+


section \<open>Invariants\<close>

lemma new_fits: "locks_fit new_world" "once_only k new_world" "stages_fit k new_world"
  by (simp_all add: locks_fit_def once_only_def stages_fit_def new_world_def starts_of_def)

lemma stopped_fits:
  "locks_fit (W\<lparr>iw_calls := [], iw_locks := [], iw_journal := j\<rparr>)" "stages_fit k (W\<lparr>iw_calls := [], iw_locks := [], iw_journal := j\<rparr>)"
  "locks_fit (W\<lparr>iw_calls := [], iw_locks := []\<rparr>)" "stages_fit k (W\<lparr>iw_calls := [], iw_locks := []\<rparr>)"
  by (simp_all add: locks_fit_def stages_fit_def)

text \<open>While one journalled call is active no other of its key is.\<close>

lemma others_passive:
  assumes "locks_fit W" "iw_calls W = us @ (c, s) # vs" "active s" "journalled c"
    and "(d, t) \<in> set (us @ vs)" "journalled d" "journal_path d = journal_path c"
  shows "\<not> active t"
proof -
  have k: "tc_call c \<noteq> []" "tc_call d \<noteq> []" "lock_key d = lock_key c"
    using assms(4,6,7) by (auto simp: journalled_def lock_key_def journal_path_def)
  have "holders (lock_key c) (iw_calls W) \<le> 1"
    using locks_fitD [OF assms(1)] by blast
  then have "holders (lock_key c) (us @ vs) = 0"
    using assms(2,3) k by simp
  then show ?thesis
    using no_holders [OF _ assms(5) k(2,3)] by simp
qed

lemma one_locks:
  assumes "locks_fit W" "iw_calls W = us @ (c, s) # vs" "call_step c s t (iw_journal W, iw_locks W) (j, ls)"
  shows "locks_fit (W\<lparr>iw_calls := us @ (c, t) # vs, iw_journal := j, iw_locks := ls\<rparr>)"
  unfolding locks_fit_def
proof (intro allI)
  fix l
  let ?b = "\<lambda>s. if tc_call c \<noteq> [] \<and> lock_key c = l \<and> active s then 1 else (0 :: nat)"
  have W: "count_list (iw_locks W) l = holders l (us @ vs) + ?b s" "holders l (us @ vs) + ?b s \<le> 1"
    using locks_fitD [OF assms(1), of l] assms(2) by simp_all
  then have "?b s \<le> count_list (iw_locks W) l" by simp
  from step_locks [OF assms(3) this] W(1) have C: "count_list ls l = holders l (us @ vs) + ?b t" by simp
  have "?b t \<le> 1 - holders l (us @ vs)"
  proof (cases "s = Waiting")
    case True
    then show ?thesis
      using step_lock_free [of c t] assms(3) W by (auto split: if_splits)
  next
    case False
    have "active s \<or> \<not> active t"
      using assms(3) False by (cases rule: call_step.cases) auto
    then show ?thesis using W(2) by auto
  qed
  then have "holders l (us @ vs) + ?b t \<le> 1"
    using W(2) by auto
  with C show "count_list (iw_locks (W\<lparr>iw_calls := us @ (c, t) # vs, iw_journal := j, iw_locks := ls\<rparr>)) l
      = holders l (iw_calls (W\<lparr>iw_calls := us @ (c, t) # vs, iw_journal := j, iw_locks := ls\<rparr>))
    \<and> holders l (iw_calls (W\<lparr>iw_calls := us @ (c, t) # vs, iw_journal := j, iw_locks := ls\<rparr>)) \<le> 1"
    by simp
qed

lemma journal_grows: "call_step c s t (j, ls) (j', ls') \<Longrightarrow> dict_get j k \<noteq> None \<Longrightarrow> dict_get j' k \<noteq> None"
  using step_journal [of c s t j ls j' ls'] by (auto simp: dict_get_set)

lemma journal_other: "call_step c s t (j, ls) (j', ls') \<Longrightarrow> \<not> (journalled c \<and> journal_path c = k) \<Longrightarrow> dict_get j' k = dict_get j k"
  using step_journal [of c s t j ls j' ls'] by (auto simp: dict_get_set journalled_def)

lemma one_once:
  assumes "once_only k W" "iw_calls W = us @ (c, s) # vs" "call_step c s t (iw_journal W, iw_locks W) (j, ls)"
  shows "once_only k (W\<lparr>iw_calls := us @ (c, t) # vs, iw_journal := j, iw_locks := ls\<rparr>)"
proof (cases "journalled c \<and> journal_path c = k")
  case False
  then show ?thesis
    using assms(1,2) journal_other [OF assms(3) False] by (auto simp: once_only_def starts_of_def)
next
  case True
  have n: "dict_get (iw_journal W) k \<noteq> None \<longrightarrow> dict_get j k \<noteq> None"
    using journal_grows [OF assms(3)] by blast
  show ?thesis
  proof (cases "s = Preparing \<and> t = Begun")
    case starts: True
    have "dict_get (iw_journal W) k = None" "dict_get j k \<noteq> None"
      using assms(3) starts True by (auto elim!: call_step.cases simp: begin_call_def journalled_def dict_get_set split: if_splits option.splits journal_record.splits)
    then show ?thesis
      using assms(1,2) starts True about_writers [of k us] about_writers [of k vs]
      by (auto simp: once_only_def starts_of_def)
  next
    case False
    then have "t \<noteq> Begun" "writing t \<Longrightarrow> writing s"
      using step_stage [OF assms(3)] True by blast+
    then show ?thesis
      using assms(1,2) n True by (auto simp: once_only_def starts_of_def split: if_splits)
  qed
qed


lemma one_stages:
  assumes L: "locks_fit W" and S: "stages_fit k W"
    and W: "iw_calls W = us @ (c, s) # vs" and step: "call_step c s t (iw_journal W, iw_locks W) (j, ls)"
  shows "stages_fit k (W\<lparr>iw_calls := us @ (c, t) # vs, iw_journal := j, iw_locks := ls\<rparr>)"
proof (cases "journalled c \<and> journal_path c = k")
  case False
  have n: "writers k (us @ (c, t) # vs) = writers k (iw_calls W)"
    using False W by auto
  have "dict_get j k = dict_get (iw_journal W) k"
    using journal_other [OF step False] .
  then show ?thesis
    using S n W False unfolding stages_fit_def stage_fits_def by auto
next
  case True
  have own: "stage_fits (iw_journal W) (writers k (iw_calls W)) c s"
    using S W True by (auto simp: stages_fit_def)
  have others: "stage_fits j (writers k (us @ (c, t) # vs)) d u"
    if d: "(d, u) \<in> set (us @ vs)" "journalled d" "journal_path d = k" for d u
  proof -
    have u: "stage_fits (iw_journal W) (writers k (iw_calls W)) d u"
      using S W d by (auto simp: stages_fit_def)
    show ?thesis
    proof (cases "active s")
      case act: True
      have "\<not> active u"
        using others_passive [OF L W act _ d(1)] True d(2,3) by simp
      moreover have "dict_get j k = Some (Completed (tc_fingerprint d) r) \<and> writers k (us @ (c, t) # vs) = 0" if "u = Answered (Inr r)" for r
      proof -
        have r: "dict_get (iw_journal W) k = Some (Completed (tc_fingerprint d) r)" "writers k (iw_calls W) = 0"
          using u that d(3) by (simp_all add: stage_fits_def)
        then have "\<not> writing s"
          using W True by (simp split: if_splits)
        then have "\<not> writing t" "j = iw_journal W"
          using step_stage(1) [OF step] step_journal [OF step] r(1) True by auto
        then show ?thesis
          using r W True by simp
      qed
      ultimately show ?thesis
        using d(3) by (auto simp: stage_fits_def)
    next
      case False
      then have "s = Waiting" "t = Holding" "j = iw_journal W"
        using step by (auto elim: call_step.cases simp: active_def)
      then show ?thesis
        using u W by simp
    qed
  qed
  have rest: "writers k (us @ vs) = 0" if "active s"
    unfolding no_writers using others_passive [OF L W that] True by (force elim: writing.elims)
  have "stage_fits j (writers k (us @ (c, t) # vs)) c t"
    unfolding stage_fits_def
  proof (intro conjI allI impI)
    show "dict_get j (journal_path c) = None" if "t = Preparing"
      using step_stage(3) [OF step] that True by blast
    show "dict_get j (journal_path c) = Some (Completed (tc_fingerprint c) r)" if "t = Saved r" for r
      using step that True by (auto elim!: call_step.cases simp: complete_call_def journalled_def dict_get_set)
    fix r assume t: "t = Answered (Inr r)"
    show "dict_get j (journal_path c) = Some (Completed (tc_fingerprint c) r)"
      using step_stage(4) [OF step _ t] own True by (auto simp: stage_fits_def)
    have "active s"
      using step t by (auto elim: call_step.cases)
    then show "writers k (us @ (c, t) # vs) = 0"
      using rest t by simp
  qed
  then show ?thesis
    using others by (auto simp: stages_fit_def)
qed

definition fits :: "'r invoke_world \<Rightarrow> bool" where
  "fits W \<longleftrightarrow> locks_fit W \<and> (\<forall>k. once_only k W \<and> stages_fit k W)"

lemma fitsD: "fits W \<Longrightarrow> locks_fit W \<and> once_only k W \<and> stages_fit k W"
  unfolding fits_def by blast

lemma stopped_once: "once_only k W \<Longrightarrow> once_only k (W\<lparr>iw_calls := [], iw_locks := []\<rparr>)"
  by (auto simp: once_only_def starts_of_def)

lemma step_fits: "invoke_step W X \<Longrightarrow> fits W \<Longrightarrow> fits X"
proof (induction rule: invoke_step.induct)
  case (arrive W c)
  then show ?case
    unfolding fits_def locks_fit_def once_only_def stages_fit_def stage_fits_def starts_of_def
    by (auto simp del: split_paired_All split_paired_Ex)
next
  case (start_tool W us c vs)
  let ?X = "W\<lparr>iw_calls := us @ (c, Running) # vs, iw_started := iw_started W @ [c]\<rparr>"
  have "locks_fit ?X"
    using start_tool unfolding fits_def locks_fit_def by (auto simp del: split_paired_All)
  moreover have "once_only k ?X" for k
  proof -
    have "once_only k W" using fitsD [OF start_tool(2)] by blast
    then show ?thesis using start_tool(1) by (auto simp: once_only_def starts_of_def)
  qed
  moreover have "stages_fit k ?X" for k
  proof -
    have "stages_fit k W" using fitsD [OF start_tool(2)] by blast
    then show ?thesis using start_tool(1) by (auto simp: stages_fit_def stage_fits_def)
  qed
  ultimately show ?case by (simp add: fits_def)
next
  case (one W us c s vs t j ls)
  note W = fitsD [OF one(3)]
  show ?case
    unfolding fits_def using one_locks [OF _ one(1,2)] one_once [OF _ one(1,2)] one_stages [OF _ _ one(1,2)] W by meson
next
  case (stop W)
  then show ?case
    unfolding fits_def using stopped_fits(3,4) stopped_once by blast
next
  case (torn c W)
  have "once_only k (W\<lparr>iw_calls := [], iw_locks := [], iw_journal := dict_set (journal_path c) Unreadable (iw_journal W)\<rparr>)"
    for k
    using fitsD [OF torn.prems, of k] by (auto simp: once_only_def starts_of_def dict_get_set)
  then show ?case
    unfolding fits_def using stopped_fits(1,2) by blast
qed

lemma invoked_fits: "invoked W X \<Longrightarrow> fits W \<Longrightarrow> fits X"
  by (induction rule: invoked.induct) (auto intro: step_fits)

lemma new_world_fits: "fits new_world"
  unfolding fits_def using new_fits by blast

section \<open>What the journal promises\<close>

text \<open>
  C18: A tool call runs at most once. Whatever calls arrive, repeat, overlap, are refused or interrupted, and
  wherever the process stops and starts again, also inside the writing of a record, the tool of a journalled call
  is started at most once for its owner, agent, message and call.
\<close>

theorem call_runs_at_most_once:
  assumes "invoked new_world W"
  shows "length (filter (\<lambda>c. journalled c \<and> journal_path c = k) (iw_started W)) \<le> 1"
  using invoked_fits [OF assms new_world_fits] unfolding fits_def once_only_def starts_of_def
  by (meson le_add1 le_trans)

text \<open>A call that was answered with a result: the record is completed and nobody will write it again.\<close>

definition settled_call :: "journal_key \<Rightarrow> string \<Rightarrow> 'r \<Rightarrow> (tool_call \<times> 'r call_stage) set \<Rightarrow> 'r invoke_world \<Rightarrow> bool" where
  "settled_call k f r old W \<longleftrightarrow> dict_get (iw_journal W) k = Some (Completed f r)
     \<and> (\<forall>(d, u) \<in> set (iw_calls W). journalled d \<and> journal_path d = k \<longrightarrow>
          u = Waiting \<or> u = Holding \<or> (d, u) \<in> old
          \<or> u = Answered (if tc_fingerprint d = f then Inr r else Inl Invalid_input))"

definition answered_only :: "(tool_call \<times> 'r call_stage) set \<Rightarrow> bool" where
  "answered_only old \<longleftrightarrow> (\<forall>(d, u) \<in> old. \<exists>a. u = Answered a)"

lemma settled_step:
  assumes "invoke_step W X" "settled_call k f r old W" "answered_only old"
  shows "settled_call k f r old X \<and> starts_of k X = starts_of k W"
  using assms
proof (induction rule: invoke_step.induct)
  case (arrive W c)
  then show ?case by (auto simp: settled_call_def starts_of_def)
next
  case (start_tool W us c vs)
  then have "\<not> (journalled c \<and> journal_path c = k)"
    by (auto simp: settled_call_def answered_only_def split: if_splits)
  then show ?case
    using start_tool by (auto simp: settled_call_def starts_of_def)
next
  case (one W us c s vs t j ls)
  show ?case
  proof (cases "journalled c \<and> journal_path c = k")
    case False
    then show ?thesis
      using one journal_other [OF one(2) False] by (auto simp: settled_call_def starts_of_def)
  next
    case True
    have g: "dict_get (iw_journal W) k = Some (Completed f r)"
      using one by (simp add: settled_call_def)
    have "s = Waiting \<or> s = Holding"
    proof -
      have "s = Waiting \<or> s = Holding \<or> (\<exists>a. s = Answered a)"
        using one(1,3,4) True by (auto simp: settled_call_def answered_only_def)
      then show ?thesis
        using one(2) by (auto elim: call_step.cases)
    qed
    then have "j = iw_journal W \<and> (t = Holding \<or> t = Answered (if tc_fingerprint c = f then Inr r else Inl Invalid_input))"
      using one(2) True g
      by (auto elim!: call_step.cases simp: begin_call_def journalled_def split: if_splits)
    then show ?thesis
      using one(1,3) g by (auto simp: settled_call_def starts_of_def)
  qed
next
  case (torn c W)
  then show ?case by (auto simp: settled_call_def starts_of_def dict_get_set)
qed (auto simp: settled_call_def starts_of_def)

lemma settled_steps:
  "invoked W X \<Longrightarrow> settled_call k f r old W \<Longrightarrow> answered_only old \<Longrightarrow> settled_call k f r old X \<and> starts_of k X = starts_of k W"
proof (induction rule: invoked.induct)
  case (invoked_step W X Y)
  then show ?case using settled_step [OF invoked_step(2)] by (metis (no_types))
qed simp

text \<open>
  A repeated call gets the answer of the first. Once a journalled call was answered with a result, every later
  call with its identifiers is answered with the same result if it has the same tool and arguments, and refused
  as invalid if not, also after the process was started anew; the tool does not run again.
\<close>

theorem repeated_call_same_answer:
  assumes "invoked new_world W" "(c, Answered (Inr r)) \<in> set (iw_calls W)" "journalled c"
    and "invoked W X" "(d, Answered a) \<in> set (iw_calls X)" "(d, Answered a) \<notin> set (iw_calls W)"
    and "journalled d" "journal_path d = journal_path c"
  shows "a = (if tc_fingerprint d = tc_fingerprint c then Inr r else Inl Invalid_input)
    \<and> length (filter (\<lambda>e. journalled e \<and> journal_path e = journal_path c) (iw_started X))
      = length (filter (\<lambda>e. journalled e \<and> journal_path e = journal_path c) (iw_started W))"
proof -
  let ?k = "journal_path c"
  define old where "old = {(d, u). (d, u) \<in> set (iw_calls W) \<and> (\<exists>a. u = Answered a)}"
  have fit: "stages_fit ?k W"
    using fitsD [OF invoked_fits [OF assms(1) new_world_fits]] by blast
  then have j: "dict_get (iw_journal W) ?k = Some (Completed (tc_fingerprint c) r)" "writers ?k (iw_calls W) = 0"
    using assms(2,3) by (auto simp: stages_fit_def stage_fits_def)
  have "settled_call ?k (tc_fingerprint c) r old W"
  proof -
    have "u = Waiting \<or> u = Holding \<or> (e, u) \<in> old" if e: "(e, u) \<in> set (iw_calls W)" "journalled e" "journal_path e = ?k" for e u
    proof -
      have "u \<noteq> Preparing"
        using fit e(1-3) j(1) by (auto simp: stages_fit_def stage_fits_def)
      moreover have "\<not> writing u"
        using j(2) e(1-3) unfolding no_writers by auto
      ultimately show ?thesis
        using e(1) by (cases u) (auto simp: old_def)
    qed
    then show ?thesis
      using j(1) unfolding settled_call_def by blast
  qed
  moreover have "answered_only old"
    by (auto simp: answered_only_def old_def)
  ultimately have "settled_call ?k (tc_fingerprint c) r old X \<and> starts_of ?k X = starts_of ?k W"
    using settled_steps [OF assms(4)] by blast
  then show ?thesis
    using assms(5-8) by (auto simp: settled_call_def starts_of_def old_def)
qed


text \<open>A call runs a command, and comes again with other arguments.\<close>

definition demo_command :: "string \<Rightarrow> tool_call" where
  "demo_command f = \<lparr>tc_owner = ''/w'', tc_agent = ''helper'', tc_message = ''m'', tc_call = ''1'', tc_tool = ''bash'', tc_fingerprint = f\<rparr>"

definition demo_world :: "int journal \<Rightarrow> (tool_call \<times> int call_stage) list \<Rightarrow> tool_call \<Rightarrow> int call_stage \<Rightarrow> tool_call list \<Rightarrow> int invoke_world" where
  "demo_world j us c s st = \<lparr>iw_journal = j, iw_locks = (if active s then [lock_key c] else []), iw_calls = us @ [(c, s)], iw_started = st\<rparr>"

lemma demo_arrives: "invoked V (demo_world j us c (Answered a) st) \<Longrightarrow> invoked V (demo_world j (us @ [(c, Answered a)]) d Waiting st)"
  by (drule invoked_step, rule arrive [of _ d]) (simp add: demo_world_def)

lemma demo_steps:
  "invoked V (demo_world j us c s st)
    \<Longrightarrow> call_step c s t (j, if active s then [lock_key c] else []) (k, if active t then [lock_key c] else [])
    \<Longrightarrow> invoked V (demo_world k us c t st)"
  by (drule invoked_step, rule one [of _ us c s "[]" t k "if active t then [lock_key c] else []"])
    (simp_all add: demo_world_def)

lemma demo_starts: "invoked V (demo_world j us c Begun st) \<Longrightarrow> invoked V (demo_world j us c Running (st @ [c]))"
  by (drule invoked_step, rule start_tool [of _ us c "[]"]) (simp_all add: demo_world_def)

lemmas demo_defs = demo_command_def journalled_def use_journal_def journal_path_def lock_key_def held_def freed_def
  begin_call_def complete_call_def

abbreviation demo_saved :: "int journal" where
  "demo_saved \<equiv> [((''/w'', ''helper'', ''m'', ''1''), Completed ''ls'' 7)]"

lemma demo_run: "invoked new_world (demo_world demo_saved [] (demo_command ''ls'') (Answered (Inr 7)) [demo_command ''ls''])"
proof -
  let ?c = "demo_command ''ls''" and ?j = "[((''/w'', ''helper'', ''m'', ''1''), Started ''ls'')] :: int journal"
  have "invoked new_world (demo_world [] [] ?c Waiting [])"
    using invoked_step [OF invoked_refl arrive [of new_world ?c]] by (simp add: demo_world_def new_world_def)
  then have "invoked new_world (demo_world [] [] ?c Holding [])"
    by (rule demo_steps) (use call_step.lock [of ?c "[]" "[]"] in \<open>simp add: demo_defs\<close>)
  then have "invoked new_world (demo_world [] [] ?c Preparing [])"
    by (rule demo_steps) (use call_step.fresh [of ?c "[]"] in \<open>simp add: demo_defs\<close>)
  then have "invoked new_world (demo_world ?j [] ?c Begun [])"
    by (rule demo_steps) (use call_step.begun [of ?c "[]" ?j] in \<open>simp add: demo_defs\<close>)
  then have "invoked new_world (demo_world ?j [] ?c Running [?c])"
    using demo_starts [of new_world ?j "[]" ?c "[]"] by simp
  then have "invoked new_world (demo_world ?j [] ?c (Ran 7) [?c])"
    by (rule demo_steps) (use call_step.ran [of ?c 7 ?j] in simp)
  then have "invoked new_world (demo_world demo_saved [] ?c (Saved 7) [?c])"
    by (rule demo_steps) (use call_step.save [of ?c 7 ?j] in \<open>simp add: demo_defs\<close>)
  then show ?thesis
    by (rule demo_steps) (use call_step.answer [of ?c 7 demo_saved "[lock_key ?c]"] in \<open>simp add: demo_defs\<close>)
qed

theorem call_runs_at_most_once_witness:
  "iw_started (demo_world demo_saved [] (demo_command ''ls'') (Answered (Inr 7)) [demo_command ''ls'']) = [demo_command ''ls'']
   \<and> length (filter (\<lambda>c. journalled c \<and> journal_path c = (''/w'', ''helper'', ''m'', ''1'')) [demo_command ''ls'']) \<le> 1"
  using call_runs_at_most_once [OF demo_run, of "(''/w'', ''helper'', ''m'', ''1'')"] by (simp add: demo_world_def)

lemma demo_again:
  "invoked (demo_world demo_saved [] (demo_command ''ls'') (Answered (Inr 7)) [demo_command ''ls''])
     (demo_world demo_saved [(demo_command ''ls'', Answered (Inr 7))] (demo_command ''rm'') (Answered (Inl Invalid_input)) [demo_command ''ls''])"
proof -
  let ?c = "demo_command ''ls''" and ?d = "demo_command ''rm''"
  let ?W = "demo_world demo_saved [] ?c (Answered (Inr 7)) [?c]"
  have "invoked ?W (demo_world demo_saved [(?c, Answered (Inr 7))] ?d Waiting [?c])"
    using demo_arrives [OF invoked_refl, of demo_saved "[]" ?c "Inr 7" "[?c]" ?d] by simp
  then have "invoked ?W (demo_world demo_saved [(?c, Answered (Inr 7))] ?d Holding [?c])"
    by (rule demo_steps) (use call_step.lock [of ?d "[]" demo_saved] in \<open>simp add: demo_defs\<close>)
  then show ?thesis
    by (rule demo_steps) (use call_step.no_replay [of ?d demo_saved Invalid_input "[lock_key ?d]"] in \<open>simp add: demo_defs\<close>)
qed

theorem repeated_call_same_answer_witness:
  "(Inl Invalid_input :: coding_error + int)
     = (if tc_fingerprint (demo_command ''rm'') = tc_fingerprint (demo_command ''ls'') then Inr 7 else Inl Invalid_input)"
  by (rule conjunct1 [OF repeated_call_same_answer [OF demo_run _ _ demo_again, of "demo_command ''ls''" 7 "demo_command ''rm''"]])
    (simp_all add: demo_world_def demo_defs)

end
