(* ===== verification/Utf8_Text.thy ===== *)
theory Utf8_Text
  imports Prelude
begin

text \<open>
  Text as Python has it, a list of code points, and its UTF-8 encoding, for the components that cut text at byte
  counts: \<open>str.encode\<close>, the strict, the incremental and the ignoring decoder, and \<open>str.splitlines\<close>.
\<close>

type_synonym code_text = "nat list"
type_synonym bytes = "nat list"

section \<open>Encoding\<close>

text \<open>A code point that is not a surrogate.\<close>

definition scalar :: "nat \<Rightarrow> bool" where
  "scalar c \<longleftrightarrow> c < 55296 \<or> 57344 \<le> c \<and> c < 1114112"

definition encode_point :: "nat \<Rightarrow> bytes" where
  "encode_point c =
     (if c < 128 then [c]
      else if c < 2048 then [192 + c div 64, 128 + c mod 64]
      else if c < 65536 then [224 + c div 4096, 128 + c div 64 mod 64, 128 + c mod 64]
      else [240 + c div 262144, 128 + c div 4096 mod 64, 128 + c div 64 mod 64, 128 + c mod 64])"

definition encode_text :: "code_text \<Rightarrow> bytes" where
  "encode_text t = concat (map encode_point t)"

lemma encode_text_simps [simp]:
  "encode_text [] = []" "encode_text (c # t) = encode_point c @ encode_text t"
  "encode_text (s @ t) = encode_text s @ encode_text t"
  by (simp_all add: encode_text_def)

lemma encode_point_length: "1 \<le> length (encode_point c) \<and> length (encode_point c) \<le> 4"
  by (simp add: encode_point_def)

lemma encode_text_length: "length t \<le> length (encode_text t)"
proof (induction t)
  case (Cons c t)
  then show ?case using encode_point_length [of c] by simp
qed simp

section \<open>Decoding\<close>

text \<open>The first code point of a byte string: complete, cut off by its end, or wrong.\<close>

datatype point = Point nat bytes | Cut_off | Malformed

definition trail :: "nat \<Rightarrow> bool" where
  "trail b \<longleftrightarrow> 128 \<le> b \<and> b < 192"

definition second_ok :: "nat \<Rightarrow> nat \<Rightarrow> bool" where
  "second_ok b c \<longleftrightarrow> trail c \<and> (b = 224 \<longrightarrow> 160 \<le> c) \<and> (b = 237 \<longrightarrow> c < 160) \<and> (b = 240 \<longrightarrow> 144 \<le> c) \<and> (b = 244 \<longrightarrow> c < 144)"

fun first_point :: "bytes \<Rightarrow> point" where
  "first_point [] = Cut_off"
| "first_point (a # s) =
     (if a < 128 then Point a s
      else if 194 \<le> a \<and> a < 224 then
        (case s of
           [] \<Rightarrow> Cut_off
         | b # s \<Rightarrow> if trail b then Point ((a - 192) * 64 + (b - 128)) s else Malformed)
      else if 224 \<le> a \<and> a < 240 then
        (case s of
           [] \<Rightarrow> Cut_off
         | b # s \<Rightarrow>
             if \<not> second_ok a b then Malformed
             else (case s of
                     [] \<Rightarrow> Cut_off
                   | c # s \<Rightarrow> if trail c then Point ((a - 224) * 4096 + (b - 128) * 64 + (c - 128)) s else Malformed))
      else if 240 \<le> a \<and> a < 245 then
        (case s of
           [] \<Rightarrow> Cut_off
         | b # s \<Rightarrow>
             if \<not> second_ok a b then Malformed
             else (case s of
                     [] \<Rightarrow> Cut_off
                   | c # s \<Rightarrow>
                       if \<not> trail c then Malformed
                       else (case s of
                               [] \<Rightarrow> Cut_off
                             | d # s \<Rightarrow>
                                 if trail d then Point ((a - 240) * 262144 + (b - 128) * 4096 + (c - 128) * 64 + (d - 128)) s
                                 else Malformed)))
      else Malformed)"

lemma first_point_shorter: "first_point s = Point c r \<Longrightarrow> length r < length s"
  by (cases s) (auto split: if_splits list.splits)

text \<open>\<open>bytes.decode("utf-8")\<close>, and the incremental decoder, which leaves an unfinished code point at the end aside.\<close>

function decode_text :: "bool \<Rightarrow> bytes \<Rightarrow> code_text option" where
  "decode_text final s =
     (if s = [] then Some []
      else (case first_point s of
              Point c r \<Rightarrow> map_option ((#) c) (decode_text final r)
            | Cut_off \<Rightarrow> if final then None else Some []
            | Malformed \<Rightarrow> None))"
  by pat_completeness auto
termination
  by (relation "measure (\<lambda>(f, s). length s)") (auto dest: first_point_shorter)

declare decode_text.simps [simp del]

lemma decode_text_Nil [simp]: "decode_text final [] = Some []"
  by (simp add: decode_text.simps)

lemma base64_digits:
  fixes c :: nat
  shows "c = c div 64 * 64 + c mod 64"
    and "c = c div 4096 * 4096 + c div 64 mod 64 * 64 + c mod 64"
    and "c = c div 262144 * 262144 + c div 4096 mod 64 * 4096 + c div 64 mod 64 * 64 + c mod 64"
proof -
  have d: "c div 64 div 64 = c div 4096" "c div 4096 div 64 = c div 262144"
    by (simp_all flip: div_mult2_eq)
  show 1: "c = c div 64 * 64 + c mod 64" by simp
  have 2: "c div 64 = c div 4096 * 64 + c div 64 mod 64"
    using div_mult_mod_eq [of "c div 64" 64] d(1) by simp
  show 3: "c = c div 4096 * 4096 + c div 64 mod 64 * 64 + c mod 64"
    using 1 2 by linarith
  have "c div 4096 = c div 262144 * 64 + c div 4096 mod 64"
    using div_mult_mod_eq [of "c div 4096" 64] d(2) by simp
  then show "c = c div 262144 * 262144 + c div 4096 mod 64 * 4096 + c div 64 mod 64 * 64 + c mod 64"
    using 3 by linarith
qed

lemma first_point_encode: "scalar c \<Longrightarrow> first_point (encode_point c @ s) = Point c s"
proof -
  assume c: "scalar c"
  consider "c < 128" | "128 \<le> c" "c < 2048" | "2048 \<le> c" "c < 65536" | "65536 \<le> c" by linarith
  then show ?thesis
  proof cases
    case 2
    define x y where "x = c div 64" and "y = c mod 64"
    then have "c = x * 64 + y" "y < 64" using base64_digits(1) [of c] by simp_all
    moreover have "encode_point c = [192 + x, 128 + y]"
      using 2 by (simp add: encode_point_def x_def y_def)
    ultimately show ?thesis using 2 by (simp add: trail_def)
  next
    case 3
    define x y z where "x = c div 4096" and "y = c div 64 mod 64" and "z = c mod 64"
    then have b: "c = x * 4096 + y * 64 + z" "y < 64" "z < 64" using base64_digits(2) [of c] by simp_all
    have e: "encode_point c = [224 + x, 128 + y, 128 + z]"
      using 3 by (simp add: encode_point_def x_def y_def z_def)
    have "x < 16" "x = 0 \<Longrightarrow> 32 \<le> y" using 3 b by linarith+
    moreover have "y < 32" if "x = 13" using 3 b c that unfolding scalar_def by linarith
    ultimately show ?thesis unfolding e using b by (auto simp: trail_def second_ok_def)
  next
    case 4
    define x y z u where "x = c div 262144" and "y = c div 4096 mod 64" and "z = c div 64 mod 64" and "u = c mod 64"
    then have b: "c = x * 262144 + y * 4096 + z * 64 + u" "y < 64" "z < 64" "u < 64" using base64_digits(3) [of c] by simp_all
    have e: "encode_point c = [240 + x, 128 + y, 128 + z, 128 + u]"
      using 4 by (simp add: encode_point_def x_def y_def z_def u_def)
    have "c < 1114112" using 4 c by (simp add: scalar_def)
    then have "x < 5" "x = 0 \<Longrightarrow> 16 \<le> y" "x = 4 \<Longrightarrow> y < 16" using 4 b by linarith+
    then show ?thesis unfolding e using b by (auto simp: trail_def second_ok_def)
  qed (simp add: encode_point_def)
qed

lemma decode_encode: "list_all scalar t \<Longrightarrow> decode_text final (encode_text t) = Some t"
proof (induction t)
  case (Cons c t)
  have "encode_point c \<noteq> []" using encode_point_length [of c] by auto
  then show ?case
    using Cons by (subst decode_text.simps) (simp add: first_point_encode)
qed simp

text \<open>Conversely a decoded code point stands for the bytes it was read from.\<close>

lemma two_bytes: "2 \<le> x \<Longrightarrow> x < 32 \<Longrightarrow> y < 64 \<Longrightarrow> encode_point (x * 64 + y) = [192 + x, 128 + y] \<and> scalar (x * 64 + y)"
  by (auto simp: encode_point_def scalar_def)

lemma three_bytes:
  assumes "x < 16" "y < 64" "z < 64" "x = 0 \<Longrightarrow> 32 \<le> y" "x = 13 \<Longrightarrow> y < 32"
  shows "encode_point (x * 4096 + y * 64 + z) = [224 + x, 128 + y, 128 + z] \<and> scalar (x * 4096 + y * 64 + z)"
proof -
  define c where "c = x * 4096 + y * 64 + z"
  have "2048 \<le> c" "c < 65536" "\<not> (55296 \<le> c \<and> c < 57344)"
    using assms unfolding c_def by (cases "x = 0"; cases "x = 13"; linarith)+
  moreover have "c div 4096 = x" "c div 64 = x * 64 + y" "c mod 64 = z"
    using assms(2,3) unfolding c_def by (auto simp: div_nat_eqI mod_nat_eqI)
  ultimately have "encode_point c = [224 + x, 128 + y, 128 + z]" "scalar c"
    using assms(2) by (auto simp: encode_point_def scalar_def)
  then show ?thesis by (simp add: c_def)
qed

lemma four_bytes:
  assumes "x < 5" "y < 64" "z < 64" "u < 64" "x = 0 \<Longrightarrow> 16 \<le> y" "x = 4 \<Longrightarrow> y < 16"
  shows "encode_point (x * 262144 + y * 4096 + z * 64 + u) = [240 + x, 128 + y, 128 + z, 128 + u]
    \<and> scalar (x * 262144 + y * 4096 + z * 64 + u)"
proof -
  define c where "c = x * 262144 + y * 4096 + z * 64 + u"
  have "65536 \<le> c" "c < 1114112"
    using assms unfolding c_def by (cases "x = 0"; cases "x = 4"; linarith)+
  moreover have "c div 262144 = x" "c div 4096 = x * 64 + y" "c div 64 = x * 4096 + y * 64 + z" "c mod 64 = u"
    using assms(2-4) unfolding c_def by (auto simp: div_nat_eqI mod_nat_eqI)
  moreover have "(x * 4096 + y * 64 + z) mod 64 = z"
    using assms(3) by (auto simp: mod_nat_eqI)
  ultimately have "encode_point c = [240 + x, 128 + y, 128 + z, 128 + u]" "scalar c"
    using assms(2) by (auto simp: encode_point_def scalar_def)
  then show ?thesis by (simp add: c_def)
qed

lemma trailD: "trail b \<Longrightarrow> \<exists>y < 64. b = 128 + y"
  using le_Suc_ex [of 128 b] by (auto simp: trail_def)

lemma first_point_decoded:
  assumes "first_point s = Point c r"
  shows "scalar c \<and> s = encode_point c @ r"
proof (cases s)
  case (Cons a t)
  consider "a < 128" | "128 \<le> a" "194 \<le> a" "a < 224" | "224 \<le> a" "a < 240" | "240 \<le> a" "a < 245"
    using assms Cons by (auto split: if_splits)
  then show ?thesis
  proof cases
    case 1
    then show ?thesis using assms Cons by (auto simp: encode_point_def scalar_def)
  next
    case 2
    obtain b where b: "t = b # r" "trail b" "c = (a - 192) * 64 + (b - 128)"
      using 2 assms Cons by (auto split: if_splits list.splits)
    obtain x where x: "a = 192 + x" using 2 le_Suc_ex [of 192 a] by auto
    obtain y where y: "y < 64" "b = 128 + y" using trailD [OF b(2)] by auto
    show ?thesis
      using two_bytes [of x y] 2 b x y Cons by simp
  next
    case 3
    obtain b d where b: "t = b # d # r" "second_ok a b" "trail d" "c = (a - 224) * 4096 + (b - 128) * 64 + (d - 128)"
      using 3 assms Cons by (auto split: if_splits list.splits)
    obtain x where x: "a = 224 + x" using 3 le_Suc_ex [of 224 a] by auto
    obtain y where y: "y < 64" "b = 128 + y" using trailD b(2) by (auto simp: second_ok_def)
    obtain z where z: "z < 64" "d = 128 + z" using trailD [OF b(3)] by auto
    show ?thesis
      using three_bytes [of x y z] 3 b x y z Cons by (auto simp: second_ok_def)
  next
    case 4
    obtain b d e where b: "t = b # d # e # r" "second_ok a b" "trail d" "trail e"
        "c = (a - 240) * 262144 + (b - 128) * 4096 + (d - 128) * 64 + (e - 128)"
      using 4 assms Cons by (auto split: if_splits list.splits)
    obtain x where x: "a = 240 + x" using 4 le_Suc_ex [of 240 a] by auto
    obtain y where y: "y < 64" "b = 128 + y" using trailD b(2) by (auto simp: second_ok_def)
    obtain z where z: "z < 64" "d = 128 + z" using trailD [OF b(3)] by auto
    obtain u where u: "u < 64" "e = 128 + u" using trailD [OF b(4)] by auto
    show ?thesis
      using four_bytes [of x y z u] 4 b x y z u Cons by (auto simp: second_ok_def)
  qed
qed (use assms in simp)

lemma encode_decode: "decode_text True s = Some t \<Longrightarrow> encode_text t = s \<and> list_all scalar t"
proof (induction "True" s arbitrary: t rule: decode_text.induct)
  case (1 s)
  show ?case
  proof (cases "s = []")
    case False
    then obtain c r u where p: "first_point s = Point c r" "decode_text True r = Some u" "t = c # u"
      using 1(2) by (subst (asm) decode_text.simps) (auto split: point.splits)
    then show ?thesis
      using 1(1) [OF False p(1) p(2)] first_point_decoded [OF p(1)] by simp
  qed (use 1(2) in simp)
qed

text \<open>A code point that is cut off is noticed as such, and the incremental decoder gives what came before it.\<close>

lemma first_point_cut:
  assumes "scalar c" "encode_point c = s @ r" "r \<noteq> []"
  shows "s = [] \<or> first_point s = Cut_off"
proof (cases s)
  case (Cons a t)
  have p: "first_point (encode_point c @ []) = Point c []" using assms(1) by (rule first_point_encode)
  have "length t < 3" using encode_point_length [of c] assms Cons by (cases r) auto
  then show ?thesis
    using p assms Cons unfolding assms(2) Cons
    by (cases t; cases "tl t"; cases r; cases "tl r"; cases "tl (tl r)") (auto split: if_splits list.splits)
qed simp

lemma decode_cut:
  assumes "list_all scalar t"
  shows "\<exists>u v. t = u @ v \<and> decode_text False (take n (encode_text t)) = Some u \<and> length (encode_text u) \<le> n
    \<and> (v = [] \<or> n < length (encode_text u) + length (encode_point (hd v)))"
  using assms
proof (induction t arbitrary: n)
  case (Cons c t)
  have c: "scalar c" "list_all scalar t" using Cons.prems by simp_all
  show ?case
  proof (cases "length (encode_point c) \<le> n")
    case True
    obtain u v where u: "t = u @ v" "decode_text False (take (n - length (encode_point c)) (encode_text t)) = Some u"
        "length (encode_text u) \<le> n - length (encode_point c)"
        "v = [] \<or> n - length (encode_point c) < length (encode_text u) + length (encode_point (hd v))"
      using Cons.IH [OF c(2), of "n - length (encode_point c)"] by blast
    have "decode_text False (take n (encode_text (c # t))) = Some (c # u)"
      using True u(2) encode_point_length [of c]
      by (subst decode_text.simps) (auto simp: first_point_encode [OF c(1)])
    then show ?thesis
      using u True by (intro exI [of _ "c # u"] exI [of _ v]) auto
  next
    case False
    have "encode_point c = take n (encode_point c) @ drop n (encode_point c)" "drop n (encode_point c) \<noteq> []"
      using False by simp_all
    from first_point_cut [OF c(1) this] have "decode_text False (take n (encode_text (c # t))) = Some []"
      using False by (subst decode_text.simps) (auto split: point.splits)
    then show ?thesis
      using False by (intro exI [of _ "[]"] exI [of _ "c # t"]) simp
  qed
qed simp

section \<open>Lines\<close>

text \<open>\<open>str.splitlines(keepends=True)\<close>.\<close>

definition line_end :: "nat \<Rightarrow> bool" where
  "line_end c \<longleftrightarrow> c \<in> {10, 11, 12, 13, 28, 29, 30, 133, 8232, 8233}"

fun kept_lines :: "code_text \<Rightarrow> code_text list" where
  "kept_lines [] = []"
| "kept_lines (c # t) =
     (if c = 13 \<and> t \<noteq> [] \<and> hd t = 10 then [13, 10] # kept_lines (tl t)
      else if line_end c then [c] # kept_lines t
      else (case kept_lines t of [] \<Rightarrow> [[c]] | l # ls \<Rightarrow> (c # l) # ls))"

lemma kept_lines_concat: "concat (kept_lines t) = t"
proof (induction t rule: kept_lines.induct)
  case (2 c t)
  then show ?case by (cases t) (auto split: list.splits if_splits)
qed simp

lemma kept_lines_nonempty: "[] \<notin> set (kept_lines t)"
  by (induction t rule: kept_lines.induct) (auto split: list.splits if_splits)

lemma kept_lines_Nil: "kept_lines t = [] \<longleftrightarrow> t = []"
  by (metis concat.simps(1) kept_lines.simps(1) kept_lines_concat)

end
