(* ===== verification/File_Edits.thy ===== *)
theory File_Edits
  imports Utf8_Text Tool_Permissions
begin

text \<open>
  Changes of one file by the coding tools (\<open>agent/modules/tools/coding/files.py\<close>: \<open>_execute\<close> for \<open>edit\<close> and
  \<open>write\<close>, \<open>decode_source\<close>, \<open>encode_source\<close>, \<open>commit\<close>), with other programs that write to the file and move its
  directory before every access, also between the last comparison and the replacement. A file is its bytes; the hash
  of its version is a parameter; errors of the system while the new content is prepared beside it are left out. The
  permissions come before (\<open>Tool_Permissions\<close>).
\<close>

section \<open>Text of a file\<close>

text \<open>\<open>str.count\<close> and \<open>str.replace\<close> for a non-empty needle; \<open>replace_first\<close> is \<open>replace(a, b, 1)\<close>.\<close>

function count_of :: "code_text \<Rightarrow> code_text \<Rightarrow> nat" where
  "count_of a s =
     (if s = [] \<or> a = [] then 0
      else if prefix a s then Suc (count_of a (drop (length a) s)) else count_of a (tl s))"
  by pat_completeness auto
termination
  by (relation "measure (\<lambda>(a, s). length s)") auto

function replace_all :: "code_text \<Rightarrow> code_text \<Rightarrow> code_text \<Rightarrow> code_text" where
  "replace_all a b s =
     (if s = [] \<or> a = [] then s
      else if prefix a s then b @ replace_all a b (drop (length a) s) else hd s # replace_all a b (tl s))"
  by pat_completeness auto
termination
  by (relation "measure (\<lambda>(a, b, s). length s)") auto

declare count_of.simps [simp del] replace_all.simps [simp del]

fun replace_first :: "code_text \<Rightarrow> code_text \<Rightarrow> code_text \<Rightarrow> code_text" where
  "replace_first a b [] = []"
| "replace_first a b (c # s) = (if prefix a (c # s) then b @ drop (length a) (c # s) else c # replace_first a b s)"

abbreviation CR :: nat where "CR \<equiv> 13"

abbreviation LF :: nat where "LF \<equiv> 10"

definition unix_lines :: "code_text \<Rightarrow> code_text" where
  "unix_lines t = replace_all [CR, LF] [LF] t"

definition byte_order_mark :: bytes where
  "byte_order_mark = [239, 187, 191]"

text \<open>The text, whether there was a mark, and the ending of its lines; \<open>utf-8-sig\<close> skips the mark.\<close>

definition decode_source :: "bytes \<Rightarrow> coding_error + (code_text \<times> bool \<times> code_text)" where
  "decode_source raw =
     (if 0 \<in> set raw then Inl Invalid_input
      else (case decode_text True (if prefix byte_order_mark raw then drop 3 raw else raw) of
              None \<Rightarrow> Inl Invalid_input
            | Some t \<Rightarrow> Inr (unix_lines t, prefix byte_order_mark raw, if sublist [CR, LF] t then [CR, LF] else [LF])))"

definition encode_source :: "code_text \<Rightarrow> bool \<Rightarrow> code_text \<Rightarrow> coding_error + bytes" where
  "encode_source t bom ending =
     (let t = replace_all [LF] ending (unix_lines t) in
      if list_all scalar t then Inr ((if bom then byte_order_mark else []) @ encode_text t) else Inl Invalid_input)"

section \<open>Replacing a file\<close>

text \<open>
  The bytes at the path, whether a directory on the way was replaced so that the path resolves to another one, and
  the contents overwritten so far, which the code does not keep.
\<close>

record file_world =
  fw_content :: "bytes option"
  fw_moved :: bool
  fw_overwritten :: "bytes option list"

definition MAX_EDIT_BYTES :: nat where
  "MAX_EDIT_BYTES = 10 * 1024 * 1024"

text \<open>Before its \<open>n\<close>-th access other programs change the content and the directories by \<open>I n\<close>.\<close>

type_synonym interference = "nat \<Rightarrow> bytes option \<times> bool \<Rightarrow> bytes option \<times> bool"

definition disturb :: "interference \<Rightarrow> nat \<Rightarrow> file_world \<Rightarrow> file_world" where
  "disturb I n w = (case I n (fw_content w, fw_moved w) of (c, m) \<Rightarrow> w\<lparr>fw_content := c, fw_moved := m\<rparr>)"

definition read_mutation_source :: "file_world \<Rightarrow> coding_error + bytes option" where
  "read_mutation_source w =
     (case fw_content w of
        None \<Rightarrow> Inr None
      | Some raw \<Rightarrow> if length raw > MAX_EDIT_BYTES then Inl Invalid_input else Inr (Some raw))"

text \<open>
  A new file is linked into place, which fails if there is one by then; for an existing file the content is compared
  once more and then replaced, whatever it is at that moment.
\<close>

definition replace_file :: "interference \<Rightarrow> bytes option \<Rightarrow> bytes \<Rightarrow> file_world \<Rightarrow> coding_error option \<times> file_world" where
  "replace_file I expected content w =
     (let w = disturb I 3 w in
      case expected of
        None \<Rightarrow>
          if fw_content w \<noteq> None then (Some Stale_content, w)
          else (None, w\<lparr>fw_content := Some content, fw_overwritten := fw_overwritten w @ [None]\<rparr>)
      | Some old \<Rightarrow>
          (case read_mutation_source w of
             Inl e \<Rightarrow> (Some e, w)
           | Inr None \<Rightarrow> (Some Not_found, w)
           | Inr (Some raw) \<Rightarrow>
               if raw \<noteq> old then (Some Stale_content, w)
               else (let w = disturb I 4 w in
                     (None, w\<lparr>fw_content := Some content, fw_overwritten := fw_overwritten w @ [fw_content w]\<rparr>))))"

definition commit :: "interference \<Rightarrow> bytes option \<Rightarrow> bytes \<Rightarrow> file_world \<Rightarrow> coding_error option \<times> file_world" where
  "commit I expected content w =
     (if length content > MAX_EDIT_BYTES then (Some Invalid_input, w)
      else
        (let w = disturb I 1 w in
         case read_mutation_source w of
           Inl e \<Rightarrow> (Some e, w)
         | Inr current \<Rightarrow>
             if current \<noteq> expected then (Some Stale_content, w)
             else if current = Some content then (Some Invalid_input, w)
             else
               (let w = disturb I 2 w in
                if fw_moved w then (Some Stale_content, w) else replace_file I expected content w)))"

section \<open>Edit and write\<close>

record edit_request =
  er_old :: code_text
  er_new :: code_text
  er_replace_all :: bool
  er_version :: "string option"

text \<open>The new text and the number of replacements.\<close>

definition edit_text :: "edit_request \<Rightarrow> code_text \<Rightarrow> coding_error + (code_text \<times> nat)" where
  "edit_text r t =
     (let old = unix_lines (er_old r); new = unix_lines (er_new r); occurrences = count_of old t in
      if old = [] \<or> old = new then Inl Invalid_input
      else if occurrences = 0 then Inl Not_found
      else if occurrences > 1 \<and> \<not> er_replace_all r then Inl Invalid_input
      else Inr (if er_replace_all r then replace_all old new t else replace_first old new t,
                if er_replace_all r then occurrences else 1))"

text \<open>\<open>expected_version\<close> is checked when it is given and not empty.\<close>

definition version_differs :: "(bytes \<Rightarrow> string) \<Rightarrow> string option \<Rightarrow> bytes option \<Rightarrow> bool" where
  "version_differs version expected original =
     (case expected of
        None \<Rightarrow> False
      | Some v \<Rightarrow> v \<noteq> [] \<and> (case original of None \<Rightarrow> True | Some raw \<Rightarrow> version raw \<noteq> v))"

definition edit_content :: "edit_request \<Rightarrow> bytes option \<Rightarrow> coding_error + (bytes \<times> nat)" where
  "edit_content r original =
     (case original of
        None \<Rightarrow> Inl Not_found
      | Some raw \<Rightarrow>
          (case decode_source raw of
             Inl e \<Rightarrow> Inl e
           | Inr (t, bom, ending) \<Rightarrow>
               (case edit_text r t of
                  Inl e \<Rightarrow> Inl e
                | Inr (u, n) \<Rightarrow> (case encode_source u bom ending of Inl e \<Rightarrow> Inl e | Inr content \<Rightarrow> Inr (content, n)))))"

definition edit_file :: "(bytes \<Rightarrow> string) \<Rightarrow> interference \<Rightarrow> edit_request \<Rightarrow> file_world \<Rightarrow> (coding_error + nat) \<times> file_world" where
  "edit_file version I r w =
     (let w = disturb I 0 w in
      case read_mutation_source w of
        Inl e \<Rightarrow> (Inl e, w)
      | Inr original \<Rightarrow>
          if version_differs version (er_version r) original then (Inl Stale_content, w)
          else (case edit_content r original of
                  Inl e \<Rightarrow> (Inl e, w)
                | Inr (content, n) \<Rightarrow>
                    (case commit I original content w of (Some e, w) \<Rightarrow> (Inl e, w) | (None, w) \<Rightarrow> (Inr n, w))))"

record write_request =
  wr_content :: code_text
  wr_append :: bool
  wr_version :: "string option"

definition write_content :: "write_request \<Rightarrow> bytes option \<Rightarrow> coding_error + bytes" where
  "write_content r original =
     (case original of
        None \<Rightarrow> if list_all scalar (wr_content r) then Inr (encode_text (wr_content r)) else Inl Invalid_input
      | Some raw \<Rightarrow>
          (case decode_source raw of
             Inl e \<Rightarrow> Inl e
           | Inr (t, bom, ending) \<Rightarrow>
               (let next = unix_lines (dropWhile (\<lambda>c. c = 65279) (wr_content r)) in
                encode_source (if wr_append r then t @ next else next) bom ending)))"

definition write_file :: "(bytes \<Rightarrow> string) \<Rightarrow> interference \<Rightarrow> write_request \<Rightarrow> file_world \<Rightarrow> coding_error option \<times> file_world" where
  "write_file version I r w =
     (let w = disturb I 0 w in
      case read_mutation_source w of
        Inl e \<Rightarrow> (Some e, w)
      | Inr original \<Rightarrow>
          if version_differs version (wr_version r) original then (Some Stale_content, w)
          else (case write_content r original of
                  Inl e \<Rightarrow> (Some e, w)
                | Inr content \<Rightarrow> commit I original content w))"

section \<open>What an edit changes\<close>

fun interleave :: "code_text \<Rightarrow> code_text list \<Rightarrow> code_text" where
  "interleave sep [] = []"
| "interleave sep [p] = p"
| "interleave sep (p # q # ps) = p @ sep @ interleave sep (q # ps)"

lemma interleave_Cons: "ps \<noteq> [] \<Longrightarrow> interleave sep (p # ps) = p @ sep @ interleave sep ps"
  by (cases ps) simp_all

lemma interleave_head: "ps \<noteq> [] \<Longrightarrow> interleave sep ((c # hd ps) # tl ps) = c # interleave sep ps"
  by (cases ps; cases "tl ps") simp_all

lemma count_of_append: "a \<noteq> [] \<Longrightarrow> 0 < count_of a (p @ a @ q)"
proof (induction p)
  case Nil
  then show ?case by (subst count_of.simps) (auto simp: prefix_def)
next
  case (Cons c p)
  then show ?case by (subst count_of.simps) auto
qed

lemma match_simps:
  assumes "a \<noteq> []"
  shows "count_of a (a @ q) = Suc (count_of a q)" "replace_all a b (a @ q) = b @ replace_all a b q"
    "replace_first a b (a @ q) = b @ q"
proof -
  show "count_of a (a @ q) = Suc (count_of a q)"
    using assms by (subst count_of.simps) simp
  show "replace_all a b (a @ q) = b @ replace_all a b q"
    using assms by (subst replace_all.simps) simp
  obtain c s where "a = c # s" using assms by (cases a) auto
  then show "replace_first a b (a @ q) = b @ q" by simp
qed

lemma replace_all_parts:
  "a \<noteq> [] \<Longrightarrow> \<exists>ps. length ps = Suc (count_of a s) \<and> s = interleave a ps \<and> replace_all a b s = interleave b ps"
proof (induction "length s" arbitrary: s rule: less_induct)
  case less
  show ?case
  proof (cases "s = []")
    case True
    then show ?thesis by (intro exI [of _ "[[]]"]) (simp add: count_of.simps replace_all.simps)
  next
    case False
    show ?thesis
    proof (cases "prefix a s")
      case True
      then obtain q where q: "s = a @ q" by (auto simp: prefix_def)
      then obtain ps where ps: "length ps = Suc (count_of a q)" "q = interleave a ps" "replace_all a b q = interleave b ps"
        using less.hyps [of q] less.prems by auto
      then have "ps \<noteq> []" by auto
      then show ?thesis
        unfolding q using ps match_simps [OF less.prems]
        by (intro exI [of _ "[] # ps"]) (simp add: interleave_Cons)
    next
      case no: False
      obtain c r where s: "s = c # r" using False by (cases s) auto
      then obtain ps where ps: "length ps = Suc (count_of a r)" "r = interleave a ps" "replace_all a b r = interleave b ps"
        using less.hyps [of r] less.prems by auto
      have "count_of a (c # r) = count_of a r" "replace_all a b (c # r) = c # replace_all a b r"
        using no s less.prems by (subst count_of.simps replace_all.simps; simp)+
      moreover have "ps \<noteq> []" using ps by auto
      ultimately show ?thesis
        using s ps interleave_head [of ps] by (intro exI [of _ "(c # hd ps) # tl ps"]) simp
    qed
  qed
qed

lemma first_match:
  "a \<noteq> [] \<Longrightarrow> count_of a s \<noteq> 0 \<Longrightarrow>
    \<exists>p q. s = p @ a @ q \<and> replace_first a b s = p @ b @ q \<and> count_of a s = Suc (count_of a q)
      \<and> (\<forall>x y. s = x @ a @ y \<longrightarrow> length p \<le> length x)"
proof (induction s)
  case Nil
  then show ?case by (simp add: count_of.simps)
next
  case (Cons c s)
  show ?case
  proof (cases "prefix a (c # s)")
    case True
    then obtain q where q: "c # s = a @ q" by (auto simp: prefix_def)
    show ?thesis
      unfolding q using match_simps [OF Cons.prems(1)] by (intro exI [of _ "[]"] exI [of _ q]) simp
  next
    case False
    then have n: "count_of a (c # s) = count_of a s"
      using Cons.prems(1) by (subst count_of.simps) simp
    then obtain p q where p: "s = p @ a @ q" "replace_first a b s = p @ b @ q" "count_of a s = Suc (count_of a q)"
        "\<forall>x y. s = x @ a @ y \<longrightarrow> length p \<le> length x"
      using Cons by auto
    have "length (c # p) \<le> length x" if "c # s = x @ a @ y" for x y
    proof (cases x)
      case Nil
      then show ?thesis using that False by (auto simp: prefix_def)
    next
      case (Cons z zs)
      then show ?thesis using that p(4) by auto
    qed
    then show ?thesis
      using p n False by (intro exI [of _ "c # p"] exI [of _ q]) simp
  qed
qed

text \<open>
  An edit replaces matches and nothing else. Its text is the old one with the given string in place of the
  searched one at as many places as it reports; without \<open>replace_all\<close> that is one place, and every other match
  overlaps it, so that a searched string that occurs at two separate places is refused.
\<close>

theorem edit_replaces_matches:
  assumes "edit_text r t = Inr (u, n)"
  shows "\<exists>parts. length parts = Suc n \<and> 0 < n
    \<and> t = interleave (unix_lines (er_old r)) parts \<and> u = interleave (unix_lines (er_new r)) parts
    \<and> (er_replace_all r \<or> n = 1 \<and> (\<forall>x y. t = x @ unix_lines (er_old r) @ y
         \<longrightarrow> length (hd parts) \<le> length x \<and> length x < length (hd parts) + length (unix_lines (er_old r))))"
proof -
  define old new where "old = unix_lines (er_old r)" and "new = unix_lines (er_new r)"
  have r: "old \<noteq> []" "count_of old t \<noteq> 0" "er_replace_all r \<or> count_of old t = 1"
    and u: "u = (if er_replace_all r then replace_all old new t else replace_first old new t)"
      "n = (if er_replace_all r then count_of old t else 1)"
    using assms by (auto simp: edit_text_def old_def new_def Let_def split: if_splits)
  show ?thesis
  proof (cases "er_replace_all r")
    case True
    then show ?thesis
      using replace_all_parts [OF r(1), of t new] r(2) u by (auto simp flip: old_def new_def)
  next
    case False
    obtain p q where p: "t = p @ old @ q" "replace_first old new t = p @ new @ q" "count_of old t = Suc (count_of old q)"
        "\<forall>x y. t = x @ old @ y \<longrightarrow> length p \<le> length x"
      using first_match [OF r(1,2), of new] by blast
    have far: "length x < length p + length old" if "t = x @ old @ y" for x y
    proof (rule ccontr)
      assume long: "\<not> length x < length p + length old"
      have "(p @ old) @ q = x @ (old @ y)" using that p(1) by simp
      then consider (within) z where "p @ old = x @ z" "z @ q = old @ y" | (after) z where "(p @ old) @ z = x" "q = z @ (old @ y)"
        unfolding append_eq_append_conv2 by blast
      then obtain z where "q = z @ old @ y"
      proof cases
        case (within z)
        have "length (p @ old) = length x + length z" unfolding within(1) by simp
        then have "z = []" using long by simp
        then show ?thesis using within(2) that [of "[]"] by simp
      qed (use that in blast)
      then have "0 < count_of old q" using count_of_append [OF r(1)] by simp
      then show False using p(3) r(3) False by simp
    qed
    have "\<forall>x y. t = x @ old @ y \<longrightarrow> length (hd [p, q]) \<le> length x \<and> length x < length (hd [p, q]) + length old"
      using p(4) far by simp
    moreover have "t = interleave old [p, q]" "u = interleave new [p, q]" "n = 1"
      using p(1,2) u False by simp_all
    ultimately show ?thesis
      unfolding old_def new_def by (intro exI [of _ "[p, q]"]) simp
  qed
qed

definition demo_edit :: edit_request where
  "demo_edit = \<lparr>er_old = [98, 13, 10], er_new = [120, 10], er_replace_all = False, er_version = None\<rparr>"

theorem edit_replaces_matches_witness:
  "\<exists>parts. length parts = 2 \<and> [97, 10, 98, 10] = interleave [98, 10] parts \<and> [97, 10, 120, 10] = interleave [120, 10] parts"
proof -
  have e: "edit_text demo_edit [97, 10, 98, 10] = Inr ([97, 10, 120, 10], 1)"
    by code_simp
  have "unix_lines (er_old demo_edit) = [98, 10]" "unix_lines (er_new demo_edit) = [120, 10]"
    by code_simp+
  with edit_replaces_matches [OF e] obtain parts where "length parts = Suc 1"
      "[97, 10, 98, 10] = interleave [98, 10] parts" "[97, 10, 120, 10] = interleave [120, 10] parts"
    by auto
  then show ?thesis by (intro exI [of _ parts]) simp
qed

section \<open>Nothing unseen is overwritten\<close>

lemma disturb_keeps [simp]: "fw_overwritten (disturb I n w) = fw_overwritten w"
  by (simp add: disturb_def split: prod.splits)

lemma read_source: "read_mutation_source w = Inr c \<Longrightarrow> fw_content w = c"
  by (auto simp: read_mutation_source_def split: option.splits if_splits)

text \<open>What only other programs did: the accesses of which numbers came, and nothing of this one.\<close>

definition only_others :: "interference \<Rightarrow> file_world \<Rightarrow> file_world \<Rightarrow> bool" where
  "only_others I w v \<longleftrightarrow> (\<exists>n. v = fold (disturb I) [0..<n] w)"

lemma others_upto: "only_others I w (fold (disturb I) [0..<n] w)"
  unfolding only_others_def by blast

text \<open>
  What other programs make of a file between the last comparison of its content and its replacement; the link that
  creates a new file leaves them no such moment.
\<close>

definition last_moment :: "interference \<Rightarrow> bytes option \<Rightarrow> bool \<Rightarrow> bytes option" where
  "last_moment I original moved = (case original of None \<Rightarrow> None | Some raw \<Rightarrow> fst (I 4 (Some raw, moved)))"

lemma disturbed_content: "fw_content (disturb I n w) = fst (I n (fw_content w, fw_moved w))"
  by (simp add: disturb_def split: prod.splits)

lemma commit_outcome:
  assumes "commit I expected content (disturb I 0 w) = (e, v)"
  shows "case e of
      Some x \<Rightarrow> only_others I w v
    | None \<Rightarrow> fw_content v = Some content \<and> (\<exists>moved. fw_overwritten v = fw_overwritten w @ [last_moment I expected moved])"
proof -
  have o: "only_others I w (disturb I 0 w)" "only_others I w (disturb I 1 (disturb I 0 w))"
    "only_others I w (disturb I 2 (disturb I 1 (disturb I 0 w)))"
    "only_others I w (disturb I 3 (disturb I 2 (disturb I 1 (disturb I 0 w))))"
    using others_upto [of I w 1] others_upto [of I w 2] others_upto [of I w 3] others_upto [of I w 4]
    by (simp_all add: numeral_eq_Suc)
  show ?thesis
    using assms o
    by (auto simp: commit_def Let_def replace_file_def last_moment_def disturbed_content [of I 4] dest!: read_source
        split: if_splits sum.splits option.splits)
qed

lemma commit_ends:
  "commit I expected content (disturb I 0 w) = (Some x, v) \<Longrightarrow> only_others I w v"
  "commit I expected content (disturb I 0 w) = (None, v) \<Longrightarrow>
     fw_content v = Some content \<and> (\<exists>moved. fw_overwritten v = fw_overwritten w @ [last_moment I expected moved])"
  by (drule commit_outcome; simp)+

text \<open>
  C20: Edits and writes change what they read. Whatever other programs do to the file and to its directories
  before each access, a change that is refused leaves only their changes. One that succeeds leaves the edit of
  the content it read, which has the requested version and was still there at the last comparison: what it
  overwrites is that content, or what other programs made of it between that comparison and the replacement, the one
  moment that is not covered. A new file overwrites nothing, without such a moment.
\<close>

theorem change_replaces_what_was_read:
  "(case edit_file version I r w of
      (Inl e, v) \<Rightarrow> only_others I w v
    | (Inr n, v) \<Rightarrow> \<exists>raw t bom ending u content moved.
        fw_overwritten v = fw_overwritten w @ [last_moment I (Some raw) moved] \<and> \<not> version_differs version (er_version r) (Some raw)
        \<and> decode_source raw = Inr (t, bom, ending) \<and> edit_text r t = Inr (u, n)
        \<and> encode_source u bom ending = Inr content \<and> fw_content v = Some content)
   \<and> (case write_file version I q w of
      (Some e, v) \<Rightarrow> only_others I w v
    | (None, v) \<Rightarrow> \<exists>original content moved.
        fw_overwritten v = fw_overwritten w @ [last_moment I original moved] \<and> \<not> version_differs version (wr_version q) original
        \<and> write_content q original = Inr content \<and> fw_content v = Some content)"
proof -
  have o: "only_others I w (disturb I 0 w)"
    unfolding only_others_def by (rule exI [of _ 1]) simp
  have "case edit_file version I r w of
      (Inl e, v) \<Rightarrow> only_others I w v
    | (Inr n, v) \<Rightarrow> \<exists>raw t bom ending u content moved.
        fw_overwritten v = fw_overwritten w @ [last_moment I (Some raw) moved] \<and> \<not> version_differs version (er_version r) (Some raw)
        \<and> decode_source raw = Inr (t, bom, ending) \<and> edit_text r t = Inr (u, n)
        \<and> encode_source u bom ending = Inr content \<and> fw_content v = Some content"
    using o by (fastforce simp: edit_file_def edit_content_def Let_def dest: commit_ends split: prod.splits sum.splits option.splits if_splits)
  moreover have "case write_file version I q w of
      (Some e, v) \<Rightarrow> only_others I w v
    | (None, v) \<Rightarrow> \<exists>original content moved.
        fw_overwritten v = fw_overwritten w @ [last_moment I original moved] \<and> \<not> version_differs version (wr_version q) original
        \<and> write_content q original = Inr content \<and> fw_content v = Some content"
    using o by (fastforce simp: write_file_def Let_def dest: commit_ends split: prod.splits sum.splits option.splits if_splits)
  ultimately show ?thesis ..
qed

section \<open>Round trip\<close>

lemma unix_lines_id: "CR \<notin> set t \<Longrightarrow> unix_lines t = t"
  unfolding unix_lines_def
proof (induction t)
  case (Cons c t)
  then show ?case by (subst replace_all.simps) simp
qed (simp add: replace_all.simps)

definition with_endings :: "code_text \<Rightarrow> code_text \<Rightarrow> code_text" where
  "with_endings e t = concat (map (\<lambda>c. if c = LF then e else [c]) t)"

lemma with_endings_simps [simp]:
  "with_endings e [] = []" "with_endings e (c # t) = (if c = LF then e else [c]) @ with_endings e t"
  by (simp_all add: with_endings_def)

lemma replace_endings: "replace_all [LF] e t = with_endings e t"
proof (induction t)
  case (Cons c t)
  then show ?case by (subst replace_all.simps) simp
qed (simp add: replace_all.simps)

lemma unix_with_endings: "CR \<notin> set t \<Longrightarrow> unix_lines (with_endings [CR, LF] t) = t"
  unfolding unix_lines_def
proof (induction t)
  case (Cons c t)
  then show ?case by (subst replace_all.simps) simp
qed (simp add: replace_all.simps)

lemma with_endings_id: "with_endings [LF] t = t"
  by (induction t) auto

lemma has_endings: "LF \<in> set t \<Longrightarrow> sublist [CR, LF] (with_endings [CR, LF] t)"
proof -
  assume "LF \<in> set t"
  then obtain p q where t: "t = p @ LF # q" by (meson split_list)
  have "with_endings [CR, LF] (p @ LF # q) = with_endings [CR, LF] p @ [CR, LF] @ with_endings [CR, LF] q"
    by (induction p) auto
  then show ?thesis
    unfolding t by (metis sublist_appendI)
qed

lemma encoded_zero: "0 \<notin> set t \<Longrightarrow> 0 \<notin> set (encode_text t)"
  by (induction t) (auto simp: encode_point_def split: if_splits)

lemma encoded_mark: "list_all scalar t \<Longrightarrow> prefix byte_order_mark (encode_text t) \<Longrightarrow> hd t = 65279"
proof (cases t)
  case (Cons c s)
  assume t: "list_all scalar t" "prefix byte_order_mark (encode_text t)"
  then obtain r where "encode_point c @ encode_text s = 239 # 187 # 191 # r"
    using Cons by (auto simp: prefix_def byte_order_mark_def)
  then have "first_point (239 # 187 # 191 # r) = Point c (encode_text s)"
    using t(1) Cons first_point_encode [of c "encode_text s"] by simp
  then show ?thesis
    using Cons by (simp add: trail_def second_ok_def)
qed (simp add: byte_order_mark_def)

lemma scalar_endings: "list_all scalar t \<Longrightarrow> e \<in> {[LF], [CR, LF]} \<Longrightarrow> list_all scalar (with_endings e t)"
  by (induction t) (auto simp: scalar_def)

lemma set_endings: "e \<in> {[LF], [CR, LF]} \<Longrightarrow> set (with_endings e t) \<subseteq> insert CR (set t)"
  by (induction t) auto

lemma hd_endings: "e \<in> {[LF], [CR, LF]} \<Longrightarrow> hd (with_endings e t) = 65279 \<Longrightarrow> t \<noteq> [] \<Longrightarrow> hd t = 65279"
  by (cases t) (auto split: if_splits)

text \<open>
  What is written is read back. A text without carriage returns and NUL, with line endings \<open>LF\<close> or \<open>CR LF\<close>
  and with or without a byte order mark, is decoded to itself with the same mark and endings, so an edit of such
  a file keeps every byte outside the match: only a text without line ends forgets that its ending was \<open>CR LF\<close>, and
  a text that begins with a mark of its own needs the mark of the file.
\<close>

theorem source_roundtrip:
  assumes "CR \<notin> set t" "0 \<notin> set t" "list_all scalar t"
    and "e = [LF] \<or> e = [CR, LF] \<and> LF \<in> set t" "bom \<or> t = [] \<or> hd t \<noteq> 65279"
  shows "\<exists>raw. encode_source t bom e = Inr raw \<and> decode_source raw = Inr (t, bom, e)"
proof -
  define s where "s = with_endings e t"
  define raw where "raw = (if bom then byte_order_mark else []) @ encode_text s"
  have e: "e \<in> {[LF], [CR, LF]}" using assms(4) by auto
  have s: "list_all scalar s" "0 \<notin> set s" "unix_lines s = t" "(if sublist [CR, LF] s then [CR, LF] else [LF]) = e"
  proof -
    show "list_all scalar s" unfolding s_def by (rule scalar_endings [OF assms(3) e])
    show "0 \<notin> set s" using set_endings [OF e, of t] assms(2) unfolding s_def by auto
    show "unix_lines s = t"
      using assms(1,4) unix_lines_id unix_with_endings with_endings_id unfolding s_def by auto
    show "(if sublist [CR, LF] s then [CR, LF] else [LF]) = e"
    proof (cases "e = [LF]")
      case True
      then have "CR \<notin> set s" using assms(1) with_endings_id s_def by auto
      then show ?thesis using True by (auto dest: set_mono_sublist)
    next
      case False
      then show ?thesis using assms(4) has_endings s_def by auto
    qed
  qed
  have mark: "prefix byte_order_mark raw \<longleftrightarrow> bom"
  proof (cases bom)
    case False
    have "\<not> prefix byte_order_mark (encode_text s)"
    proof
      assume p: "prefix byte_order_mark (encode_text s)"
      then have "s \<noteq> []" by (auto simp: byte_order_mark_def)
      then have "t \<noteq> []" unfolding s_def by auto
      then show False
        using encoded_mark [OF s(1) p] hd_endings [OF e, of t] assms(5) False unfolding s_def by blast
    qed
    then show ?thesis using False by (simp add: raw_def)
  qed (simp add: raw_def)
  have "encode_source t bom e = Inr raw"
    using assms(1) s(1) by (simp add: encode_source_def unix_lines_id replace_endings raw_def flip: s_def)
  moreover have "decode_source raw = Inr (t, bom, e)"
  proof -
    have "0 \<notin> set raw" using encoded_zero [OF s(2)] by (simp add: raw_def byte_order_mark_def)
    moreover have "(if prefix byte_order_mark raw then drop 3 raw else raw) = encode_text s"
      unfolding mark by (simp add: raw_def byte_order_mark_def)
    ultimately show ?thesis
      using s(3,4) mark decode_encode [OF s(1), of True] by (simp add: decode_source_def)
  qed
  ultimately show ?thesis by blast
qed

theorem source_roundtrip_witness:
  "\<exists>raw. encode_source [97, 10, 8364] True [CR, LF] = Inr raw \<and> decode_source raw = Inr ([97, 10, 8364], True, [CR, LF])"
  by (rule source_roundtrip) (simp_all add: scalar_def)

text \<open>
  A file with both kinds of line ends loses the one of lines that the edit does not touch: \<open>a CR LF b LF c\<close>
  becomes \<open>x CR LF b CR LF c\<close>.
\<close>

lemma mixed_endings_rewritten:
  "edit_content \<lparr>er_old = [97], er_new = [120], er_replace_all = False, er_version = None\<rparr> (Some [97, 13, 10, 98, 10, 99])
     = Inr ([120, 13, 10, 98, 13, 10, 99], 1)"
proof -
  let ?r = "\<lparr>er_old = [97], er_new = [120], er_replace_all = False, er_version = None\<rparr>"
  have d: "decode_text True [97, 13, 10, 98, 10, 99] = Some [97, 13, 10, 98, 10, 99]"
    using decode_encode [of "[97, 13, 10, 98, 10, 99]" True] by (simp add: encode_point_def scalar_def)
  have "unix_lines [97, 13, 10, 98, 10, 99] = [97, 10, 98, 10, 99]"
    "edit_text ?r [97, 10, 98, 10, 99] = Inr ([120, 10, 98, 10, 99], 1)"
    by code_simp+
  moreover have "sublist [CR, LF] [97, 13, 10, 98, 10, 99]"
    by (simp add: sublist_Cons_right)
  ultimately have "edit_content ?r (Some [97, 13, 10, 98, 10, 99]) =
      (case encode_source [120, 10, 98, 10, 99] False [CR, LF] of Inl e \<Rightarrow> Inl e | Inr content \<Rightarrow> Inr (content, Suc 0))"
    by (simp add: edit_content_def decode_source_def d byte_order_mark_def)
  moreover have "encode_source [120, 10, 98, 10, 99] False [CR, LF] = Inr [120, 13, 10, 98, 13, 10, 99]"
    by (simp add: encode_source_def unix_lines_id replace_endings scalar_def encode_point_def)
  ultimately show ?thesis by simp
qed

text \<open>Another program writes to the file just before it is replaced.\<close>

definition demo_late_write :: interference where
  "demo_late_write n = (\<lambda>(c, m). if n = 4 then (Some [33], m) else (c, m))"

theorem change_replaces_what_was_read_witness:
  "case edit_file (\<lambda>raw. []) demo_late_write \<lparr>er_old = [97], er_new = [120], er_replace_all = False, er_version = None\<rparr>
      \<lparr>fw_content = Some [97, 13, 10, 98, 10, 99], fw_moved = False, fw_overwritten = []\<rparr> of
     (e, v) \<Rightarrow> e = Inr 1 \<and> fw_overwritten v = [Some [33]] \<and> fw_content v = Some [120, 13, 10, 98, 13, 10, 99]"
proof -
  let ?r = "\<lparr>er_old = [97], er_new = [120], er_replace_all = False, er_version = None\<rparr>"
    and ?w = "\<lparr>fw_content = Some [97, 13, 10, 98, 10, 99], fw_moved = False, fw_overwritten = []\<rparr>"
  obtain e v where ev: "edit_file (\<lambda>raw. []) demo_late_write ?r ?w = (e, v)" by force
  have quiet: "n \<noteq> 4 \<Longrightarrow> disturb demo_late_write n w = w" for n w by (simp add: disturb_def demo_late_write_def)
  have "e = Inr 1" "fw_content v = Some [120, 13, 10, 98, 13, 10, 99]"
    using ev
    by (auto simp: edit_file_def quiet read_mutation_source_def version_differs_def MAX_EDIT_BYTES_def mixed_endings_rewritten
        commit_def replace_file_def Let_def)
  moreover from \<open>e = Inr 1\<close> have "\<exists>raw moved. fw_overwritten v = [last_moment demo_late_write (Some raw) moved]"
    using conjunct1 [OF change_replaces_what_was_read [where version = "\<lambda>raw. []" and I = demo_late_write and r = ?r and w = ?w]] ev by auto
  ultimately show ?thesis using ev by (auto simp: last_moment_def demo_late_write_def)
qed

end
