(* ===== verification/File_Pages.thy ===== *)
theory File_Pages
  imports Utf8_Text Tool_Permissions
begin

text \<open>
  Reading a file in pages, and the limits on what a model is shown (\<open>agent/modules/tools/coding/files.py\<close>:
  \<open>read_byte_page\<close>; \<open>agent/modules/tools/runtime/output_policy.py\<close>). The file does not change between the pages;
  the check of its time stamps is the argument \<open>changed\<close>.
\<close>

section \<open>Limits\<close>

definition MAX_MODEL_BYTES :: nat where "MAX_MODEL_BYTES = 50 * 1024"

definition MAX_MODEL_LINES :: nat where "MAX_MODEL_LINES = 2000"

definition MAX_STORED_BYTES :: nat where "MAX_STORED_BYTES = 10 * 1024 * 1024"

definition CAPTURE_NOTICE :: string where
  "CAPTURE_NOTICE = ''[capture quota exceeded; some output was lost]''"

definition points :: "string \<Rightarrow> code_text" where
  "points s = map of_char s"

text \<open>\<open>capture_bytes\<close>: the chunks up to a quota, and whether there was more.\<close>

fun capture_bytes :: "nat \<Rightarrow> bytes list \<Rightarrow> bytes \<times> bool" where
  "capture_bytes quota [] = ([], False)"
| "capture_bytes quota (c # cs) =
     (if length c > quota then (take quota c, True)
      else (case capture_bytes (quota - length c) cs of (b, longer) \<Rightarrow> (c @ b, longer)))"

text \<open>
  \<open>decode("utf-8", errors="ignore")\<close> of a part of an encoded text: the rest of a code point at its beginning and
  an unfinished one at its end are dropped.
\<close>

definition decode_ignoring :: "bytes \<Rightarrow> code_text" where
  "decode_ignoring s = (case decode_text False (dropWhile trail s) of None \<Rightarrow> [] | Some t \<Rightarrow> t)"

text \<open>\<open>TextCapture\<close>.\<close>

record text_capture =
  tp_quota :: nat
  tp_text :: code_text
  tp_has_lines :: bool
  tp_size :: nat
  tp_truncated :: bool

definition new_capture :: "nat \<Rightarrow> text_capture" where
  "new_capture quota = \<lparr>tp_quota = quota, tp_text = [], tp_has_lines = False, tp_size = 0, tp_truncated = False\<rparr>"

definition capture_append :: "code_text \<Rightarrow> text_capture \<Rightarrow> text_capture" where
  "capture_append t p =
     (if tp_truncated p then p
      else (let raw = encode_text t; remaining = tp_quota p - tp_size p; kept = decode_ignoring (take remaining raw) in
            p\<lparr>tp_text := tp_text p @ kept, tp_size := tp_size p + length (encode_text kept),
              tp_truncated := length raw > remaining\<rparr>))"

definition append_line :: "code_text \<Rightarrow> text_capture \<Rightarrow> text_capture" where
  "append_line t p = (capture_append ((if tp_has_lines p then [10] else []) @ t) p)\<lparr>tp_has_lines := True\<rparr>"

definition capture_content :: "text_capture \<Rightarrow> code_text" where
  "capture_content p = (if tp_truncated p then tp_text p @ [10, 10] @ points CAPTURE_NOTICE else tp_text p)"

section \<open>Bounded text\<close>

text \<open>\<open>str.rstrip("\n")\<close>.\<close>

definition strip_line_ends :: "code_text \<Rightarrow> code_text" where
  "strip_line_ends t = rev (dropWhile (\<lambda>c. c = 10) (rev t))"

text \<open>\<open>bounded_text\<close> without and with \<open>tail\<close>; a marker leaves room for text.\<close>

definition bounded_text :: "code_text \<Rightarrow> code_text \<Rightarrow> code_text \<times> bool" where
  "bounded_text marker t =
     (if length (encode_text t) \<le> MAX_MODEL_BYTES \<and> length (kept_lines t) \<le> MAX_MODEL_LINES then (t, False)
      else
        (let marker = (if marker = [] then points ''[output truncated]'' else marker);
             allowance = MAX_MODEL_BYTES - length (encode_text marker) - 4;
             preview = take allowance (encode_text (concat (take (MAX_MODEL_LINES - 2) (kept_lines t))))
         in (strip_line_ends (decode_ignoring preview) @ [10, 10] @ marker, True)))"

definition py_drop_last :: "nat \<Rightarrow> 'a list \<Rightarrow> 'a list" where
  "py_drop_last n xs = (if n = 0 then xs else drop (length xs - n) xs)"

definition bounded_tail :: "code_text \<Rightarrow> code_text \<Rightarrow> code_text \<times> bool" where
  "bounded_tail marker t =
     (if length (encode_text t) \<le> MAX_MODEL_BYTES \<and> length (kept_lines t) \<le> MAX_MODEL_LINES then (t, False)
      else
        (let marker = (if marker = [] then points ''[output truncated]'' else marker);
             allowance = MAX_MODEL_BYTES - length (encode_text marker) - 4;
             half = (MAX_MODEL_LINES - 4) div 2;
             head = take (allowance div 2) (encode_text (concat (take half (kept_lines t))));
             rest = py_drop_last ((allowance + 1) div 2) (encode_text (concat (py_drop_last half (kept_lines t))))
         in (strip_line_ends (decode_ignoring head) @ [10, 10] @ marker @ [10, 10]
               @ dropWhile (\<lambda>c. c = 10) (decode_ignoring rest), True)))"

section \<open>Byte pages\<close>

record byte_page =
  bp_content :: code_text
  bp_next :: "nat option"

text \<open>\<open>limit\<close> is the number of lines asked for, at least one.\<close>

definition read_byte_page :: "bool \<Rightarrow> bytes \<Rightarrow> nat \<Rightarrow> nat \<Rightarrow> coding_error + byte_page" where
  "read_byte_page changed content byte_offset limit =
     (if byte_offset > length content then Inl Invalid_input
      else
        (let raw = take (MAX_MODEL_BYTES - 1024) (drop byte_offset content) in
         if raw \<noteq> [] \<and> trail (hd raw) then Inl Invalid_input
         else if 0 \<in> set raw then Inl Invalid_input
         else (case decode_text (byte_offset + length raw \<ge> length content) raw of
                 None \<Rightarrow> Inl Invalid_input
               | Some t \<Rightarrow>
                   (let text = concat (take (min limit (MAX_MODEL_LINES - 2)) (kept_lines t));
                        consumed = length (encode_text text)
                    in if changed then Inl Stale_content
                       else Inr \<lparr>bp_content = text,
                                 bp_next = (if byte_offset + consumed < length content then Some (byte_offset + consumed)
                                            else None)\<rparr>))))"

text \<open>Reading on with the offsets that the pages give; \<open>fuel\<close> bounds the number of pages.\<close>

fun read_on :: "nat \<Rightarrow> bytes \<Rightarrow> nat \<Rightarrow> nat \<Rightarrow> coding_error + code_text list option" where
  "read_on 0 content n limit = Inr None"
| "read_on (Suc fuel) content n limit =
     (case read_byte_page False content n limit of
        Inl e \<Rightarrow> Inl e
      | Inr p \<Rightarrow>
          (case bp_next p of
             None \<Rightarrow> Inr (Some [bp_content p])
           | Some m \<Rightarrow> (case read_on fuel content m limit of
                          Inl e \<Rightarrow> Inl e
                        | Inr rest \<Rightarrow> Inr (map_option ((#) (bp_content p)) rest))))"

section \<open>Bounds\<close>

lemma decoded_shorter: "decode_text f s = Some t \<Longrightarrow> length (encode_text t) \<le> length s"
proof (induction f s arbitrary: t rule: decode_text.induct)
  case (1 f s)
  show ?case
  proof (cases "s = []")
    case False
    show ?thesis
    proof (cases "first_point s")
      case (Point c r)
      then obtain u where "decode_text f r = Some u" "t = c # u"
        using 1(2) False by (subst (asm) decode_text.simps) auto
      then show ?thesis
        using 1(1) [OF False Point, of u] first_point_decoded [OF Point] by simp
    qed (use 1(2) False in \<open>(subst (asm) decode_text.simps, auto split: if_splits)+\<close>)
  qed (use 1(2) in simp)
qed

lemma ignoring_shorter: "length (encode_text (decode_ignoring s)) \<le> length s"
proof -
  have "length (dropWhile trail s) \<le> length s"
    by (rule length_dropWhile_le)
  then show ?thesis
    using decoded_shorter [of False "dropWhile trail s"] by (auto simp: decode_ignoring_def split: option.splits)
qed

lemma encode_text_part: "length (encode_text (rev (dropWhile P (rev t)))) \<le> length (encode_text t)"
  "length (encode_text (dropWhile P t)) \<le> length (encode_text t)"
proof -
  have "encode_text t = encode_text (takeWhile P t) @ encode_text (dropWhile P t)" for t
    by (metis encode_text_simps(3) takeWhile_dropWhile_id)
  then show "length (encode_text (dropWhile P t)) \<le> length (encode_text t)" for t
    by (metis length_append le_add2)
  have "t = rev (dropWhile P (rev t)) @ rev (takeWhile P (rev t))"
    by (metis rev_append rev_rev_ident takeWhile_dropWhile_id)
  then show "length (encode_text (rev (dropWhile P (rev t)))) \<le> length (encode_text t)"
    by (metis encode_text_simps(3) length_append le_add1)
qed

text \<open>The number of lines.\<close>

fun line_count :: "code_text \<Rightarrow> nat" where
  "line_count [] = 0"
| "line_count (c # t) =
     (if c = 13 \<and> t \<noteq> [] \<and> hd t = 10 then Suc (line_count (tl t))
      else if line_end c then Suc (line_count t) else max 1 (line_count t))"

lemma length_kept_lines: "length (kept_lines t) = line_count t"
proof (induction t rule: kept_lines.induct)
  case (2 c t)
  then show ?case by (auto split: list.splits simp: max_def)
qed simp

lemma line_count_append: "line_count (p @ q) \<le> line_count p + line_count q"
proof (induction p rule: line_count.induct)
  case (2 c t)
  consider (crlf) "c = 13" "t \<noteq> []" "hd t = 10" | (edge) "c = 13" "t = []" "q \<noteq> []" "hd q = 10"
    | (plain) "\<not> (c = 13 \<and> t \<noteq> [] \<and> hd t = 10)" "\<not> (c = 13 \<and> t @ q \<noteq> [] \<and> hd (t @ q) = 10)"
    by (cases t) auto
  then show ?case
  proof cases
    case crlf
    then show ?thesis using 2(1) by auto
  next
    case edge
    then show ?thesis by (cases q) (auto simp: line_end_def)
  next
    case plain
    then have "line_count (t @ q) \<le> line_count t + line_count q"
      using 2(2,3) by blast
    moreover have "line_count ((c # t) @ q) = (if line_end c then Suc (line_count (t @ q)) else max 1 (line_count (t @ q)))"
      "line_count (c # t) = (if line_end c then Suc (line_count t) else max 1 (line_count t))"
      using plain by auto
    ultimately show ?thesis by auto
  qed
qed simp

lemma line_count_prefix: "line_count p \<le> line_count (p @ q)"
proof (induction p rule: line_count.induct)
  case (2 c t)
  consider (crlf) "c = 13" "t \<noteq> []" "hd t = 10" | (edge) "c = 13" "t = []" "q \<noteq> []" "hd q = 10"
    | (plain) "\<not> (c = 13 \<and> t \<noteq> [] \<and> hd t = 10)" "\<not> (c = 13 \<and> t @ q \<noteq> [] \<and> hd (t @ q) = 10)"
    by (cases t) auto
  then show ?case
  proof cases
    case crlf
    then show ?thesis using 2(1) by auto
  next
    case edge
    then show ?thesis by (auto simp: line_end_def)
  next
    case plain
    then have "line_count t \<le> line_count (t @ q)"
      using 2(2,3) by blast
    moreover have "line_count ((c # t) @ q) = (if line_end c then Suc (line_count (t @ q)) else max 1 (line_count (t @ q)))"
      "line_count (c # t) = (if line_end c then Suc (line_count t) else max 1 (line_count t))"
      using plain by auto
    ultimately show ?thesis by auto
  qed
qed simp

text \<open>A line end after a text that does not end a line, or only by a carriage return, adds no line.\<close>

lemma line_count_ended: "p \<noteq> [] \<Longrightarrow> \<not> line_end (last p) \<or> last p = 13 \<Longrightarrow> line_count (p @ 10 # q) = line_count p + line_count q"
proof (induction p rule: line_count.induct)
  case (2 c t)
  show ?case
  proof (cases "t = []")
    case True
    then show ?thesis using 2(5) by (auto simp: line_end_def)
  next
    case t: False
    show ?thesis
    proof (cases "c = 13 \<and> hd t = 10")
      case True
      show ?thesis
      proof (cases "tl t = []")
        case stop: True
        then have "last (c # t) = 10" using True t by (cases t) auto
        then show ?thesis using 2(5) by (auto simp: line_end_def)
      next
        case False
        then have "line_count (tl t @ 10 # q) = line_count (tl t) + line_count q"
          using 2(1) 2(5) True t by (cases t) auto
        then show ?thesis using True t by (cases t) auto
      qed
    next
      case False
      have IH: "line_count (t @ 10 # q) = line_count t + line_count q"
        using 2(2,3) 2(5) t False by auto
      have "1 \<le> line_count t" using t by (cases t) (auto simp: max_def)
      then show ?thesis
        using IH t False by (auto simp: max_def)
    qed
  qed
qed simp

lemma kept_line_single: "\<forall>l \<in> set (kept_lines t). line_count l \<le> 1"
proof (induction t rule: kept_lines.induct)
  case (2 c t)
  have one: "line_count (c # l) \<le> 1" if "line_count l \<le> 1" "\<not> line_end c" for l
    using that by (cases l) (auto simp: line_end_def)
  show ?case
    using 2 one by (auto simp: line_end_def split: list.splits if_splits)
qed simp

lemma line_count_lines: "set ls \<subseteq> set (kept_lines t) \<Longrightarrow> line_count (concat ls) \<le> length ls"
proof (induction ls)
  case (Cons l ls)
  then have "line_count l \<le> 1" "line_count (concat ls) \<le> length ls"
    using kept_line_single [of t] by auto
  then show ?case
    using line_count_append [of l "concat ls"] by simp
qed simp

lemma line_count_take: "line_count (concat (take n (kept_lines t))) \<le> n"
  using line_count_lines [OF set_take_subset, of n t] by (auto intro: order_trans)

lemma line_count_drop: "n \<noteq> 0 \<Longrightarrow> line_count (concat (py_drop_last n (kept_lines t))) \<le> n"
  using line_count_lines [OF set_drop_subset, of "length (kept_lines t) - n" t]
  by (simp add: py_drop_last_def)

text \<open>A text decoded from the first bytes of an encoded text is a beginning of it, one from the last bytes an end.\<close>

lemma point_head: "\<exists>b bs. encode_point c = b # bs \<and> (scalar c \<longrightarrow> \<not> trail b) \<and> list_all trail bs"
  by (auto simp: encode_point_def trail_def scalar_def div_less_iff_less_mult)

lemma no_trail: "list_all scalar t \<Longrightarrow> dropWhile trail (take n (encode_text t)) = take n (encode_text t)"
proof (cases t)
  case (Cons c s)
  assume "list_all scalar t"
  then obtain b bs where "encode_point c = b # bs" "\<not> trail b" using point_head [of c] Cons by auto
  then show ?thesis using Cons by (cases n) simp_all
qed simp

lemma ignoring_prefix:
  assumes "list_all scalar t"
  shows "\<exists>v. t = decode_ignoring (take n (encode_text t)) @ v
    \<and> (v = [] \<or> n < length (encode_text (decode_ignoring (take n (encode_text t)))) + 4)"
proof -
  obtain u v where u: "t = u @ v" "decode_text False (take n (encode_text t)) = Some u"
      "v = [] \<or> n < length (encode_text u) + length (encode_point (hd v))"
    using decode_cut [OF assms, of n] by blast
  then have "decode_ignoring (take n (encode_text t)) = u"
    using no_trail [OF assms, of n] by (simp add: decode_ignoring_def)
  then show ?thesis
    using u(1,3) encode_point_length [of "hd v"] by (intro exI [of _ v]) auto
qed

lemma ignoring_whole: "list_all scalar t \<Longrightarrow> decode_ignoring (encode_text t) = t"
  using no_trail [of t "length (encode_text t)"] decode_encode [of t False] by (simp add: decode_ignoring_def)

lemma ignoring_suffix:
  assumes "list_all scalar t"
  shows "\<exists>u. t = u @ decode_ignoring (drop n (encode_text t))
    \<and> length (encode_text t) \<le> n + length (encode_text (decode_ignoring (drop n (encode_text t)))) + 3"
  using assms
proof (induction t arbitrary: n)
  case (Cons c t)
  obtain b bs where c: "encode_point c = b # bs" "\<not> trail b" "list_all trail bs"
    using point_head [of c] Cons.prems by auto
  consider "n = 0" | "0 < n" "n \<le> length (encode_point c)" | "length (encode_point c) < n" by linarith
  then show ?case
  proof cases
    case 1
    then show ?thesis using ignoring_whole [OF Cons.prems] by (intro exI [of _ "[]"]) simp
  next
    case 2
    then obtain m where m: "n = Suc m" by (cases n) auto
    have "dropWhile trail (drop m bs @ encode_text t) = dropWhile trail (encode_text t)"
      using c(3) by (intro dropWhile_append2) (auto simp: list_all_iff dest: in_set_dropD)
    then have "decode_ignoring (drop n (encode_text (c # t))) = decode_ignoring (encode_text t)"
      using 2 m c(1) by (simp add: decode_ignoring_def)
    then show ?thesis
      using 2 ignoring_whole [of t] Cons.prems encode_point_length [of c] by (intro exI [of _ "[c]"]) simp
  next
    case 3
    then obtain u where "t = u @ decode_ignoring (drop (n - length (encode_point c)) (encode_text t))"
        "length (encode_text t) \<le> n - length (encode_point c)
          + length (encode_text (decode_ignoring (drop (n - length (encode_point c)) (encode_text t)))) + 3"
      using Cons by force
    then show ?thesis using 3 by (intro exI [of _ "c # u"]) simp
  qed
qed (simp add: decode_ignoring_def)

lemma scalar_concat: "list_all scalar t \<Longrightarrow> list_all scalar (concat (take n (kept_lines t)))"
  "list_all scalar t \<Longrightarrow> list_all scalar (concat (drop n (kept_lines t)))"
  using kept_lines_concat [of t] by (metis append_take_drop_id concat_append list_all_append)+


text \<open>Line ends other than \<open>LF\<close>, \<open>CR\<close> and \<open>CR LF\<close> are rare: form feeds, separators.\<close>

definition plain_ends :: "code_text \<Rightarrow> bool" where
  "plain_ends t \<longleftrightarrow> (\<forall>c \<in> set t. line_end c \<longrightarrow> c \<in> {10, 13})"

lemma stripped: "strip_line_ends t = [] \<or> last (strip_line_ends t) \<noteq> 10" "\<exists>v. t = strip_line_ends t @ v" "set (strip_line_ends t) \<subseteq> set t"
proof -
  have "dropWhile (\<lambda>c. c = 10) (rev t) = [] \<or> hd (dropWhile (\<lambda>c. c = 10) (rev t)) \<noteq> 10"
    using hd_dropWhile [of "\<lambda>c. c = 10" "rev t"] by blast
  then show "strip_line_ends t = [] \<or> last (strip_line_ends t) \<noteq> 10"
    by (simp add: strip_line_ends_def last_rev)
  have "t = rev (dropWhile (\<lambda>c. c = 10) (rev t)) @ rev (takeWhile (\<lambda>c. c = 10) (rev t))"
    by (metis rev_append rev_rev_ident takeWhile_dropWhile_id)
  then show "\<exists>v. t = strip_line_ends t @ v"
    unfolding strip_line_ends_def by blast
  then show "set (strip_line_ends t) \<subseteq> set t"
    by (metis Un_upper1 set_append)
qed

text \<open>A stripped text, a blank line, and then \<open>q\<close>.\<close>

lemma count_with_blank:
  assumes "plain_ends p" "p = [] \<or> last p \<noteq> 10"
  shows "line_count (p @ [10, 10] @ q) \<le> line_count p + 1 + line_count q + (if p = [] then 1 else 0)"
proof (cases "p = []")
  case False
  then have "\<not> line_end (last p) \<or> last p = 13"
    using assms by (auto simp: plain_ends_def)
  then show ?thesis
    using line_count_ended [OF False, of "10 # q"] False by (simp add: line_end_def)
qed (simp add: line_end_def)

lemma count_unended: "list_all (\<lambda>c. \<not> line_end c) m \<Longrightarrow> line_count m \<le> 1"
proof (induction m)
  case (Cons c m)
  then show ?case by (cases m) (auto simp: line_end_def)
qed simp

lemma marker_length: "list_all (\<lambda>c. c < 128) (points ''[output truncated]'')" "length (encode_text (points ''[output truncated]'')) = 18"
  "list_all (\<lambda>c. \<not> line_end c) (points ''[output truncated]'')"
  by (simp_all add: points_def encode_point_def line_end_def)

lemma line_count_Cons: "line_count s \<le> line_count (c # s)"
  by (cases s) (auto simp: line_end_def)

lemma line_count_suffix: "line_count q \<le> line_count (p @ q)"
  by (induction p) (auto intro: order_trans [OF _ line_count_Cons] simp del: line_count.simps)

lemma plain_ends_prefix: "plain_ends (p @ q) \<Longrightarrow> plain_ends p"
  by (auto simp: plain_ends_def)

lemma plain_ends_lines: "plain_ends t \<Longrightarrow> plain_ends (concat (take n (kept_lines t)))"
  using kept_lines_concat [of t] by (metis append_take_drop_id concat_append plain_ends_prefix)

text \<open>
  \<open>p\<close> is a beginning of \<open>t\<close>: its first \<open>n\<close> lines, or as many characters of them as fit \<open>a\<close> bytes, without
  the line feeds at its end; and likewise an end.
\<close>

definition fits_limits :: "code_text \<Rightarrow> bool" where
  "fits_limits t \<longleftrightarrow> length (encode_text t) \<le> MAX_MODEL_BYTES \<and> length (kept_lines t) \<le> MAX_MODEL_LINES"

definition cut_beginning :: "nat \<Rightarrow> nat \<Rightarrow> code_text \<Rightarrow> code_text \<Rightarrow> bool" where
  "cut_beginning n a t p \<longleftrightarrow> length (encode_text p) \<le> a \<and> length (kept_lines p) \<le> n
     \<and> (\<exists>u v. t = p @ u @ v \<and> set u \<subseteq> {10}
          \<and> (p @ u = concat (take n (kept_lines t)) \<or> a < length (encode_text (p @ u)) + 4))"

definition cut_ending :: "nat \<Rightarrow> nat \<Rightarrow> code_text \<Rightarrow> code_text \<Rightarrow> bool" where
  "cut_ending n a t e \<longleftrightarrow> length (encode_text e) \<le> a \<and> length (kept_lines e) \<le> n
     \<and> (\<exists>v u. t = v @ u @ e \<and> set u \<subseteq> {10}
          \<and> (u @ e = concat (drop (length (kept_lines t) - n) (kept_lines t)) \<or> a < length (encode_text (u @ e)) + 4))"

lemma beginning_fits:
  assumes "list_all scalar t"
    and "S = strip_line_ends (decode_ignoring (take a (encode_text (concat (take n (kept_lines t))))))"
  shows "cut_beginning n a t S" "plain_ends t \<Longrightarrow> plain_ends S" "S = [] \<or> last S \<noteq> 10"
proof -
  define P where "P = concat (take n (kept_lines t))"
  define D where "D = decode_ignoring (take a (encode_text P))"
  have P: "list_all scalar P" "line_count P \<le> n"
    using scalar_concat(1) [OF assms(1)] line_count_take by (simp_all add: P_def)
  obtain w where w: "t = P @ w"
    using kept_lines_concat [of t] unfolding P_def by (metis append_take_drop_id concat_append)
  have S_is: "S = rev (dropWhile (\<lambda>c. c = 10) (rev D))" using assms(2) by (simp add: D_def P_def strip_line_ends_def)
  obtain v where v: "P = D @ v" "v = [] \<or> a < length (encode_text D) + 4"
    using ignoring_prefix [OF P(1), of a] by (auto simp: D_def)
  define u where "u = rev (takeWhile (\<lambda>c. c = 10) (rev D))"
  have u: "D = S @ u" "set u \<subseteq> {10}"
    by (auto simp: S_is u_def simp flip: rev_append dest: set_takeWhileD)
  have S: "P = S @ (u @ v)" using u v by simp
  have few: "line_count S \<le> n"
    using P(2) line_count_prefix [of S "u @ v"] unfolding S by simp
  show "plain_ends S" if "plain_ends t"
    using plain_ends_lines [OF that, of n] plain_ends_prefix [of S "u @ v"] S by (simp add: P_def)
  show "S = [] \<or> last S \<noteq> 10"
    using stripped(1) [of D] assms(2) by (simp add: D_def P_def)
  have "length (encode_text S) \<le> length (encode_text D)" unfolding u(1) by simp
  also have "\<dots> \<le> length (take a (encode_text P))"
    unfolding D_def by (rule ignoring_shorter)
  finally have "length (encode_text S) \<le> a" by simp
  moreover have "t = S @ u @ (v @ w)" using w S by simp
  moreover have "S @ u = concat (take n (kept_lines t)) \<or> a < length (encode_text (S @ u)) + 4"
    using v u by (auto simp: P_def)
  ultimately show "cut_beginning n a t S"
    using u(2) few unfolding cut_beginning_def length_kept_lines by blast
qed

lemma ending_fits:
  assumes "list_all scalar t" "0 < a" "n \<noteq> 0"
    and "E = dropWhile (\<lambda>c. c = 10) (decode_ignoring (py_drop_last a (encode_text (concat (py_drop_last n (kept_lines t))))))"
  shows "cut_ending n a t E"
proof -
  define Q where "Q = concat (py_drop_last n (kept_lines t))"
  define D where "D = decode_ignoring (py_drop_last a (encode_text Q))"
  have Q: "list_all scalar Q" "line_count Q \<le> n" "Q = concat (drop (length (kept_lines t) - n) (kept_lines t))"
    using scalar_concat(2) [OF assms(1)] line_count_drop [OF assms(3)] assms(3) by (simp_all add: Q_def py_drop_last_def)
  obtain w where w: "t = w @ Q"
    using kept_lines_concat [of t] unfolding Q(3) by (metis append_take_drop_id concat_append)
  obtain v where v: "Q = v @ D" "length (encode_text Q) \<le> (length (encode_text Q) - a) + length (encode_text D) + 3"
    using ignoring_suffix [OF Q(1), of "length (encode_text Q) - a"] assms(2) by (auto simp: D_def py_drop_last_def)
  define u where "u = takeWhile (\<lambda>c. c = 10) D"
  have u: "D = u @ E" "set u \<subseteq> {10}"
    using assms(4) by (auto simp: u_def D_def Q_def dest: set_takeWhileD)
  have "Q = (v @ u) @ E" using u v by simp
  then have few: "line_count E \<le> n"
    using Q(2) line_count_suffix [of E] by (metis order_trans)
  have "length (encode_text E) \<le> length (encode_text D)" unfolding u(1) by simp
  also have "\<dots> \<le> length (py_drop_last a (encode_text Q))"
    unfolding D_def by (rule ignoring_shorter)
  finally have "length (encode_text E) \<le> a"
    using assms(2) by (simp add: py_drop_last_def)
  moreover have "t = (w @ v) @ u @ E" using w u v by simp
  moreover have "u @ E = concat (drop (length (kept_lines t) - n) (kept_lines t)) \<or> a < length (encode_text (u @ E)) + 4"
  proof (cases "length (encode_text Q) \<le> a")
    case True
    then have "D = Q" using ignoring_whole [OF Q(1)] assms(2) by (simp add: D_def py_drop_last_def)
    then show ?thesis using Q(3) u(1) by simp
  next
    case False
    then have "a < length (encode_text D) + 4" using v(2) by linarith
    then show ?thesis using u(1) by simp
  qed
  ultimately show ?thesis
    using u(2) few unfolding cut_ending_def length_kept_lines by blast
qed

lemma cut_beginningD:
  assumes "cut_beginning n a t p"
  shows "length (encode_text p) \<le> a" "length (kept_lines p) \<le> n" "\<exists>q. t = p @ q"
  using assms unfolding cut_beginning_def by blast+

lemma cut_endingD:
  assumes "cut_ending n a t e"
  shows "length (encode_text e) \<le> a" "length (kept_lines e) \<le> n" "\<exists>v. t = v @ e"
proof -
  show "length (encode_text e) \<le> a" "length (kept_lines e) \<le> n" using assms unfolding cut_ending_def by blast+
  obtain v u where "t = v @ u @ e" using assms unfolding cut_ending_def by blast
  then have "t = (v @ u) @ e" by simp
  then show "\<exists>v. t = v @ e" by blast
qed

text \<open>Two parts that together are shorter than the text do not overlap.\<close>

lemma parts_apart:
  assumes "t = p @ q" "t = v @ e"
    and "length (encode_text p) + length (encode_text e) < length (encode_text t)
      \<or> length (kept_lines p) + length (kept_lines e) < length (kept_lines t)"
  shows "\<exists>x. t = p @ x @ e"
proof (cases "length p \<le> length v")
  case True
  then obtain x where "v = p @ x" using assms(1,2) by (metis append_eq_append_conv_if append_take_drop_id)
  then show ?thesis using assms(2) by auto
next
  case False
  then obtain y where y: "p = v @ y" "e = y @ q" using assms(1,2) by (auto simp: append_eq_append_conv2)
  have "t = p @ q" "length (encode_text q) \<le> length (encode_text e)" "line_count q \<le> line_count e"
    using assms(1) y line_count_suffix [of q y] by simp_all
  then have "length (encode_text t) \<le> length (encode_text p) + length (encode_text e)"
    and "line_count t \<le> line_count p + line_count e"
    using line_count_append [of p q] by simp_all
  then show ?thesis using assms(3) by (simp add: length_kept_lines)
qed

definition shown_marker :: "code_text \<Rightarrow> code_text" where
  "shown_marker m = (if m = [] then points ''[output truncated]'' else m)"

definition room :: "code_text \<Rightarrow> nat" where
  "room m = MAX_MODEL_BYTES - length (encode_text (shown_marker m)) - 4"

lemma bounded_cut:
  assumes "list_all scalar t" "list_all (\<lambda>c. \<not> line_end c) m" "length (encode_text m) + 4 < MAX_MODEL_BYTES" "\<not> fits_limits t"
  defines "half \<equiv> (MAX_MODEL_LINES - 4) div 2"
  obtains S H x E where "bounded_text m t = (S @ [10, 10] @ shown_marker m, True)" "cut_beginning (MAX_MODEL_LINES - 2) (room m) t S"
    and "bounded_tail m t = (H @ [10, 10] @ shown_marker m @ [10, 10] @ E, True)" "t = H @ x @ E"
      "cut_beginning half (room m div 2) t H" "cut_ending half ((room m + 1) div 2) t E"
    and "plain_ends t \<Longrightarrow> plain_ends S" "S = [] \<or> last S \<noteq> 10" "plain_ends t \<Longrightarrow> plain_ends H" "H = [] \<or> last H \<noteq> 10"
proof -
  let ?a = "room m"
  define S where "S = strip_line_ends (decode_ignoring (take ?a (encode_text (concat (take (MAX_MODEL_LINES - 2) (kept_lines t))))))"
  define H where "H = strip_line_ends (decode_ignoring (take (?a div 2) (encode_text (concat (take half (kept_lines t))))))"
  define E where "E = dropWhile (\<lambda>c. c = 10) (decode_ignoring (py_drop_last ((?a + 1) div 2)
    (encode_text (concat (py_drop_last half (kept_lines t))))))"
  have a: "0 < ?a" "?a \<le> MAX_MODEL_BYTES"
    using assms(3) marker_length(2) by (auto simp: room_def shown_marker_def MAX_MODEL_BYTES_def)
  have half: "half + half < MAX_MODEL_LINES" "half \<noteq> 0" by (simp_all add: half_def MAX_MODEL_LINES_def)
  note S = beginning_fits [OF assms(1) S_def] and H = beginning_fits [OF assms(1) H_def]
  have E: "cut_ending half ((?a + 1) div 2) t E"
    by (rule ending_fits [OF assms(1) _ half(2) E_def]) (use a(1) in simp)
  obtain q v where "t = H @ q" "t = v @ E" using cut_beginningD(3) [OF H(1)] cut_endingD(3) [OF E] by blast
  moreover have "length (encode_text H) + length (encode_text E) < length (encode_text t)
      \<or> length (kept_lines H) + length (kept_lines E) < length (kept_lines t)"
    using cut_beginningD(1,2) [OF H(1)] cut_endingD(1,2) [OF E] a(2) half(1) assms(4) unfolding fits_limits_def by linarith
  ultimately obtain x where "t = H @ x @ E" using parts_apart by blast
  moreover have "\<not> (length (encode_text t) \<le> MAX_MODEL_BYTES \<and> length (kept_lines t) \<le> MAX_MODEL_LINES)"
    using assms(4) by (simp add: fits_limits_def)
  then have "bounded_text m t = (S @ [10, 10] @ shown_marker m, True)"
    and "bounded_tail m t = (H @ [10, 10] @ shown_marker m @ [10, 10] @ E, True)"
    unfolding bounded_text_def bounded_tail_def Let_def S_def H_def E_def half_def room_def shown_marker_def
    by (simp_all only: if_False)
  ultimately show thesis using that S H E by blast
qed

lemma shown_marker_line:
  assumes "list_all (\<lambda>c. \<not> line_end c) m" "length (encode_text m) + 4 < MAX_MODEL_BYTES"
  shows "length (encode_text (shown_marker m)) + 4 + room m = MAX_MODEL_BYTES" "line_count (shown_marker m) \<le> 1"
    "shown_marker m \<noteq> []" "\<not> line_end (last (shown_marker m))"
proof -
  show "length (encode_text (shown_marker m)) + 4 + room m = MAX_MODEL_BYTES"
    using assms(2) marker_length(2) by (simp add: room_def shown_marker_def MAX_MODEL_BYTES_def)
  have m: "list_all (\<lambda>c. \<not> line_end c) (shown_marker m)" "shown_marker m \<noteq> []"
    using assms(1) marker_length(3) by (simp_all add: shown_marker_def points_def)
  then show "line_count (shown_marker m) \<le> 1" "shown_marker m \<noteq> []" "\<not> line_end (last (shown_marker m))"
    using count_unended by (auto simp: list_all_iff)
qed

text \<open>
  C31: What a model is shown fits the limits, and no more is cut than they ask for. A text is passed on unchanged if it has
  at most 50 KiB and 2000 lines. Otherwise it is flagged and becomes a beginning, a blank line and the marker, or
  a beginning, the marker between blank lines, and an end that does not overlap it. A beginning is the first lines,
  up to the number that leaves room for the marker, or the part of them that fills its share of the bytes up to
  the width of a character, without line feeds at its end; an end likewise. The result has at
  most 50 KiB and, unless the text has line ends other than \<open>LF\<close>, \<open>CR\<close> and \<open>CR LF\<close>, at most 2000 lines. The text has
  no surrogates, the marker is one line and leaves room.
\<close>

theorem bounded_text_fits:
  assumes "list_all scalar t" "list_all (\<lambda>c. \<not> line_end c) m" "length (encode_text m) + 4 < MAX_MODEL_BYTES"
  shows "(if fits_limits t then bounded_text m t = (t, False) \<and> bounded_tail m t = (t, False)
     else (\<exists>p. cut_beginning (MAX_MODEL_LINES - 2) (room m) t p \<and> bounded_text m t = (p @ [10, 10] @ shown_marker m, True))
       \<and> (\<exists>p x e. t = p @ x @ e \<and> cut_beginning ((MAX_MODEL_LINES - 4) div 2) (room m div 2) t p
            \<and> cut_ending ((MAX_MODEL_LINES - 4) div 2) ((room m + 1) div 2) t e
            \<and> bounded_tail m t = (p @ [10, 10] @ shown_marker m @ [10, 10] @ e, True)))
    \<and> (\<forall>b \<in> {fst (bounded_text m t), fst (bounded_tail m t)}.
        length (encode_text b) \<le> MAX_MODEL_BYTES \<and> (plain_ends t \<longrightarrow> length (kept_lines b) \<le> MAX_MODEL_LINES))"
proof (cases "fits_limits t")
  case True
  then show ?thesis by (simp add: bounded_text_def bounded_tail_def fits_limits_def)
next
  case False
  note m = shown_marker_line [OF assms(2,3)]
  have two: "length (encode_text [10, 10]) = 2" by (simp add: encode_point_def)
  show ?thesis
  proof (rule bounded_cut [OF assms False])
    fix S H x E
    assume B: "bounded_text m t = (S @ [10, 10] @ shown_marker m, True)" and S: "cut_beginning (MAX_MODEL_LINES - 2) (room m) t S"
      and T: "bounded_tail m t = (H @ [10, 10] @ shown_marker m @ [10, 10] @ E, True)" and t: "t = H @ x @ E"
      and H: "cut_beginning ((MAX_MODEL_LINES - 4) div 2) (room m div 2) t H"
      and E: "cut_ending ((MAX_MODEL_LINES - 4) div 2) ((room m + 1) div 2) t E"
      and ends: "plain_ends t \<Longrightarrow> plain_ends S" "S = [] \<or> last S \<noteq> 10" "plain_ends t \<Longrightarrow> plain_ends H" "H = [] \<or> last H \<noteq> 10"
    have few: "length (encode_text S) \<le> room m" "length (encode_text H) \<le> room m div 2" "length (encode_text E) \<le> (room m + 1) div 2"
      "line_count S \<le> MAX_MODEL_LINES - 2" "line_count H \<le> (MAX_MODEL_LINES - 4) div 2" "line_count E \<le> (MAX_MODEL_LINES - 4) div 2"
      using cut_beginningD(1,2) [OF S] cut_beginningD(1,2) [OF H] cut_endingD(1,2) [OF E] by (simp_all only: length_kept_lines)
    have sizes: "length (encode_text (S @ [10, 10] @ shown_marker m)) \<le> MAX_MODEL_BYTES"
      "length (encode_text (H @ [10, 10] @ shown_marker m @ [10, 10] @ E)) \<le> MAX_MODEL_BYTES"
      using few(1-3) m(1) two unfolding encode_text_simps length_append by linarith+
    have "line_count (S @ [10, 10] @ shown_marker m) \<le> MAX_MODEL_LINES" if "plain_ends t"
      using count_with_blank [OF ends(1) [OF that] ends(2), of "shown_marker m"] few(4) m(2)
      by (auto simp: MAX_MODEL_LINES_def split: if_splits)
    moreover have "line_count (H @ [10, 10] @ shown_marker m @ [10, 10] @ E) \<le> MAX_MODEL_LINES" if "plain_ends t"
    proof -
      have "line_count (shown_marker m @ [10, 10] @ E) = line_count (shown_marker m) + (1 + line_count E)"
        using line_count_ended [OF m(3), of "10 # E"] m(4) by (simp add: line_end_def)
      then show ?thesis
        using count_with_blank [OF ends(3) [OF that] ends(4), of "shown_marker m @ [10, 10] @ E"] few(5,6) m(2)
        by (auto simp: MAX_MODEL_LINES_def split: if_splits)
    qed
    ultimately have "\<forall>b \<in> {fst (bounded_text m t), fst (bounded_tail m t)}.
        length (encode_text b) \<le> MAX_MODEL_BYTES \<and> (plain_ends t \<longrightarrow> length (kept_lines b) \<le> MAX_MODEL_LINES)"
      using sizes unfolding B T fst_conv length_kept_lines by blast
    then show ?thesis unfolding if_not_P [OF False] using B T S H E t by blast
  qed
qed

theorem bounded_text_fits_witness:
  "length (encode_text (fst (bounded_tail [] (replicate 60000 97)))) \<le> MAX_MODEL_BYTES
    \<and> length (kept_lines (fst (bounded_tail [] (replicate 60000 97)))) \<le> MAX_MODEL_LINES"
proof -
  have "list_all scalar (replicate 60000 97)" "plain_ends (replicate 60000 97)"
    by (auto simp: list_all_iff scalar_def plain_ends_def line_end_def)
  with bounded_text_fits [OF this(1), of "[]"] show ?thesis
    by (simp add: MAX_MODEL_BYTES_def)
qed

text \<open>With form feeds the limit is exceeded by one line.\<close>

lemma form_feeds_exceed:
  assumes "b = fst (bounded_text [] (replicate 3000 12))"
  shows "length (kept_lines b) = MAX_MODEL_LINES + 1"
proof -
  have k: "kept_lines (replicate n 12) = replicate n [12]" for n
    by (induction n) (auto simp: line_end_def)
  have c: "concat (replicate n [12]) = replicate n (12 :: nat)" for n
    by (induction n) simp_all
  have e: "encode_text (replicate n 12) = replicate n 12" for n
    by (induction n) (simp_all add: encode_point_def)
  have d: "decode_ignoring (replicate n 12) = replicate n 12" for n
    using ignoring_whole [of "replicate n 12"] unfolding e by (simp add: list_all_iff scalar_def)
  have s: "strip_line_ends (replicate n 12) = replicate n 12" for n
    by (simp add: strip_line_ends_def dropWhile_eq_self_iff)
  have b: "b = replicate 1998 12 @ [10, 10] @ points ''[output truncated]''"
    using assms by (simp add: bounded_text_def k c e d s MAX_MODEL_LINES_def MAX_MODEL_BYTES_def marker_length min_def)
  have f: "line_count (replicate n 12 @ q) = n + line_count q" for n q
    by (induction n) (auto simp: line_end_def)
  show ?thesis
    unfolding length_kept_lines b f by (simp add: MAX_MODEL_LINES_def points_def line_end_def)
qed

section \<open>Pages\<close>

lemma page_text:
  assumes "list_all scalar t" "0 \<notin> set t" "content = encode_text s @ encode_text t" "1 \<le> limit"
  shows "\<exists>u v. t = u @ v \<and> (t = [] \<or> u \<noteq> []) \<and>
    read_byte_page False content (length (encode_text s)) limit =
      Inr \<lparr>bp_content = u, bp_next = (if v = [] then None else Some (length (encode_text (s @ u))))\<rparr>"
proof -
  define K where "K = MAX_MODEL_BYTES - 1024"
  have K: "4 \<le> K" by (simp add: K_def MAX_MODEL_BYTES_def)
  define raw where "raw = take K (encode_text t)"
  define final where "final \<longleftrightarrow> length (encode_text s) + length raw \<ge> length content"
  have "\<exists>d r. t = d @ r \<and> decode_text final raw = Some d \<and> (t = [] \<or> d \<noteq> [])"
  proof (cases "length (encode_text t) \<le> K")
    case True
    then show ?thesis
      using decode_encode [OF assms(1), of final] by (intro exI [of _ t] exI [of _ "[]"]) (simp add: raw_def)
  next
    case False
    then have "\<not> final"
      using assms(3) by (simp add: final_def raw_def)
    moreover obtain d r where d: "t = d @ r" "decode_text False raw = Some d"
        "r = [] \<or> K < length (encode_text d) + length (encode_point (hd r))"
      using decode_cut [OF assms(1), of K] unfolding raw_def by blast
    moreover have "d \<noteq> []"
      using d(1,3) False K encode_point_length [of "hd r"] by auto
    ultimately show ?thesis by auto
  qed
  then obtain d r where d: "t = d @ r" "decode_text final raw = Some d" "t = [] \<or> d \<noteq> []" by blast
  define u where "u = concat (take (min limit (MAX_MODEL_LINES - 2)) (kept_lines d))"
  obtain w where w: "d = u @ w"
    using kept_lines_concat [of d] unfolding u_def by (metis append_take_drop_id concat_append)
  have u: "t = [] \<or> u \<noteq> []"
  proof (cases "d = []")
    case False
    then obtain l ls where "kept_lines d = l # ls" "l \<noteq> []"
      using kept_lines_Nil [of d] kept_lines_nonempty [of d] by (cases "kept_lines d") auto
    then show ?thesis
      using assms(4) by (cases "min limit (MAX_MODEL_LINES - 2)") (auto simp: u_def MAX_MODEL_LINES_def min_def split: if_splits)
  qed (use d(3) in simp)
  have trail: "\<not> (raw \<noteq> [] \<and> trail (hd raw))"
    using no_trail [OF assms(1), of K] hd_dropWhile [of trail raw] by (auto simp flip: raw_def)
  have zero: "0 \<notin> set raw"
  proof -
    have "0 \<notin> set (encode_text t)"
      using assms(2) by (induction t) (auto simp: encode_point_def split: if_splits)
    then show ?thesis by (auto simp: raw_def dest: in_set_takeD)
  qed
  have bound: "length (encode_text s) + length (encode_text u) < length content \<longleftrightarrow> w @ r \<noteq> []"
    unfolding assms(3) d(1) w using encode_text_length [of "w @ r"] by (cases "w @ r") auto
  have "read_byte_page False content (length (encode_text s)) limit =
      Inr \<lparr>bp_content = u, bp_next = (if w @ r = [] then None else Some (length (encode_text (s @ u))))\<rparr>"
    using trail zero d(2) bound
    unfolding read_byte_page_def
    by (simp add: Let_def assms(3) flip: K_def raw_def u_def) (simp add: final_def assms(3) flip: u_def)
  then show ?thesis
    using u by (intro exI [of _ u] exI [of _ "w @ r"]) (simp add: d(1) w)
qed

text \<open>
  C32: Reading a text file in byte pages gives the whole file. From the beginning, with the offset that each page
  gives for the next, whatever number of lines is asked for, no page is refused or empty, the reading ends, and
  the pages one after the other are the text of the file, also when lines are longer than a page and characters
  lie across its end.
\<close>

theorem byte_pages_give_file:
  assumes "decode_text True content = Some t" "0 \<notin> set t" "1 \<le> limit"
  shows "\<exists>pages. read_on (Suc (length content)) content 0 limit = Inr (Some pages) \<and> concat pages = t
    \<and> (t = [] \<or> [] \<notin> set pages)"
proof -
  have content: "content = encode_text t" "list_all scalar t"
    using encode_decode [OF assms(1)] by auto
  have "\<exists>pages. read_on fuel content (length (encode_text s)) limit = Inr (Some pages) \<and> concat pages = r \<and> (r = [] \<or> [] \<notin> set pages)"
    if "t = s @ r" "length r < fuel" for fuel s r
    using that
  proof (induction fuel arbitrary: s r)
    case (Suc fuel)
    have r: "list_all scalar r" "0 \<notin> set r" "content = encode_text s @ encode_text r"
      using Suc.prems(1) content assms(2) by auto
    obtain u v where u: "r = u @ v" "r = [] \<or> u \<noteq> []"
      "read_byte_page False content (length (encode_text s)) limit =
        Inr \<lparr>bp_content = u, bp_next = (if v = [] then None else Some (length (encode_text (s @ u))))\<rparr>"
      using page_text [OF r assms(3)] by blast
    show ?case
    proof (cases "v = []")
      case True
      then show ?thesis using u by auto
    next
      case False
      then have "t = (s @ u) @ v" "length v < fuel"
        using Suc.prems u(1,2) False by (auto simp: neq_Nil_conv)
      from Suc.IH [OF this] obtain pages
        where "read_on fuel content (length (encode_text (s @ u))) limit = Inr (Some pages)" "concat pages = v" "[] \<notin> set pages"
        using False by auto
      then show ?thesis using u False by auto
    qed
  qed simp
  from this [of "[]" t "Suc (length content)"] show ?thesis
    using encode_text_length [of t] content(1) by simp
qed

theorem byte_pages_give_file_witness:
  "\<exists>pages. read_on 6 [226, 130, 172, 10, 97] 0 1 = Inr (Some pages) \<and> concat pages = [8364, 10, 97]"
proof -
  have "decode_text True [226, 130, 172, 10, 97] = Some [8364, 10, 97]"
    using decode_encode [of "[8364, 10, 97]" True] by (simp add: encode_point_def scalar_def)
  from byte_pages_give_file [OF this, of 1] obtain pages
    where "read_on (Suc (length [226, 130, 172, 10, 97 :: nat])) [226, 130, 172, 10, 97] 0 1 = Inr (Some pages)" "concat pages = [8364, 10, 97]"
    by auto
  moreover have "Suc (length [226, 130, 172, 10, 97 :: nat]) = 6" by simp
  ultimately show ?thesis by metis
qed

section \<open>Captured output\<close>

lemma capture_bytes_take: "capture_bytes quota cs = (take quota (concat cs), quota < length (concat cs))"
proof (induction quota cs rule: capture_bytes.induct)
  case (2 quota c cs)
  then show ?case by (cases "quota < length c") auto
qed simp

text \<open>A capture holds a beginning of what came, and all of it as long as it is not truncated.\<close>

definition captures :: "code_text \<Rightarrow> text_capture \<Rightarrow> bool" where
  "captures t p \<longleftrightarrow> tp_size p = length (encode_text (tp_text p)) \<and> tp_size p \<le> tp_quota p
     \<and> (\<exists>v. t = tp_text p @ v \<and> (tp_truncated p \<or> v = []))"

lemma captures_append:
  assumes "captures t p" "list_all scalar s"
  shows "captures (t @ s) (capture_append s p)"
proof (cases "tp_truncated p")
  case True
  then show ?thesis using assms(1) by (auto simp: captures_def capture_append_def)
next
  case False
  obtain n where n: "n = tp_quota p - tp_size p" by simp
  obtain kept where kept: "kept = decode_ignoring (take n (encode_text s))" by simp
  obtain v where v: "s = kept @ v" using ignoring_prefix [OF assms(2), of n] by (auto simp: kept)
  have short: "length (encode_text kept) \<le> n"
    using ignoring_shorter [of "take n (encode_text s)"] by (simp add: kept)
  have "kept = s" if "length (encode_text s) \<le> n"
    using that ignoring_whole [OF assms(2)] by (simp add: kept)
  with v have whole: "n < length (encode_text s) \<or> v = []"
    by (metis append_self_conv not_le_imp_less)
  have fits: "tp_size p = length (encode_text (tp_text p))" "tp_size p \<le> tp_quota p" "t = tp_text p"
    using assms(1) False by (simp_all add: captures_def)
  obtain q where q: "q = capture_append s p" by simp
  have held: "tp_text q = tp_text p @ kept" and size: "tp_size q = tp_size p + length (encode_text kept)"
    and quota: "tp_quota q = tp_quota p" and cut_short: "tp_truncated q \<longleftrightarrow> n < length (encode_text s)"
    using False by (simp_all add: q capture_append_def Let_def n kept)
  have "t @ s = tp_text q @ v" using fits(3) v held by simp
  moreover have "tp_size q = length (encode_text (tp_text q))" using fits(1) held size by simp
  moreover have "tp_size q \<le> tp_quota q" using fits(2) short size quota n by linarith
  ultimately show ?thesis
    using whole cut_short unfolding captures_def q by blast
qed

fun joined_lines :: "code_text list \<Rightarrow> code_text" where
  "joined_lines [] = []"
| "joined_lines [l] = l"
| "joined_lines (l # m # ls) = l @ 10 # joined_lines (m # ls)"

lemma joined_snoc: "joined_lines (ls @ [l]) = (if ls = [] then l else joined_lines ls @ 10 # l)"
  by (induction ls rule: joined_lines.induct) auto

text \<open>
  Captured output is a beginning of the output. However many lines a tool collects, the capture holds at most
  its quota of bytes, whole characters from the beginning of the lines joined by line ends, and everything if it
  does not say that it is truncated; the bytes taken from a source are its first ones, with a flag exactly if
  there were more.
\<close>

theorem captured_is_beginning:
  assumes "list_all (list_all scalar) ls"
  shows "(let p = fold append_line ls (new_capture quota) in
      length (encode_text (tp_text p)) \<le> quota
      \<and> (\<exists>v. joined_lines ls = tp_text p @ v \<and> (tp_truncated p \<or> v = [])))
    \<and> capture_bytes quota chunks = (take quota (concat chunks), quota < length (concat chunks))"
proof -
  have "captures (joined_lines ls) (fold append_line ls (new_capture quota))
      \<and> tp_quota (fold append_line ls (new_capture quota)) = quota
      \<and> tp_has_lines (fold append_line ls (new_capture quota)) = (ls \<noteq> [])"
    using assms
  proof (induction ls rule: rev_induct)
    case Nil
    show ?case by (simp add: captures_def new_capture_def)
  next
    case (snoc l ls)
    define p where "p = fold append_line ls (new_capture quota)"
    have p: "captures (joined_lines ls) p" "tp_quota p = quota" "tp_has_lines p = (ls \<noteq> [])"
      using snoc by (simp_all add: p_def)
    have "captures (joined_lines ls @ ((if ls \<noteq> [] then [10] else []) @ l)) (capture_append ((if ls \<noteq> [] then [10] else []) @ l) p)"
      by (rule captures_append [OF p(1)]) (use snoc.prems in \<open>simp add: scalar_def [of 10]\<close>)
    moreover have "joined_lines ls @ ((if ls \<noteq> [] then [10] else []) @ l) = joined_lines (ls @ [l])"
      by (simp add: joined_snoc)
    moreover have "tp_quota (capture_append s p) = quota" for s
      using p(2) by (simp add: capture_append_def Let_def)
    moreover have "fold append_line (ls @ [l]) (new_capture quota)
        = (capture_append ((if ls \<noteq> [] then [10] else []) @ l) p)\<lparr>tp_has_lines := True\<rparr>"
      using p(3) by (simp add: append_line_def flip: p_def)
    ultimately show ?case
      by (simp add: captures_def)
  qed
  then show ?thesis
    unfolding capture_bytes_take by (auto simp: captures_def Let_def)
qed

theorem captured_is_beginning_witness:
  "length (encode_text (tp_text (fold append_line [[8364], [8364]] (new_capture 5)))) \<le> 5"
proof -
  have "list_all (list_all scalar) [[8364], [8364]]" by (simp add: scalar_def)
  from captured_is_beginning [OF this, of 5] show ?thesis by (simp add: Let_def)
qed

end
