(* ===== verification/Manifest_Check.thy ===== *)
theory Manifest_Check
  imports Project_Files
begin

text \<open>
  What a stored manifest may name (\<open>agent/modules/projects/storage.py\<close>: \<open>validate_manifest\<close>): canonical names of
  entries inside directories, chunks that add up, and symbolic links whose targets, read part by part, stay
  inside. A manifest is the parsed JSON; its entries have the keys that the code reads without a default.
\<close>

section \<open>Manifests\<close>

datatype raw_entry = Raw_directory | Raw_symlink string | Raw_file string int "(string \<times> int) list option" | Raw_unknown

record manifest =
  mf_version :: int
  mf_entries :: "(string, raw_entry) dict"

definition valid_key :: "string \<Rightarrow> bool" where
  "valid_key k \<longleftrightarrow> length k = 64 \<and> list_all (\<lambda>c. c \<in> set ''0123456789abcdef'') k"

fun file_chunks :: "raw_entry \<Rightarrow> (string \<times> int) list" where
  "file_chunks (Raw_file c n None) = [(c, n)]"
| "file_chunks (Raw_file c n (Some cs)) = cs"
| "file_chunks e = []"

definition MAX_CHUNK :: int where
  "MAX_CHUNK = 4 * 1024 * 1024"

definition safe_name :: "string \<Rightarrow> bool" where
  "safe_name n \<longleftrightarrow> \<not> (n = [] \<or> is_absolute n \<or> ''..'' \<in> set (pure_parts n) \<or> CHR 0x5C \<in> set n \<or> CHR '':'' \<in> set n
     \<or> CHR 0x00 \<in> set n) \<and> pure_str n = n"

fun valid_entry :: "string \<Rightarrow> raw_entry \<Rightarrow> bool" where
  "valid_entry n Raw_unknown = False"
| "valid_entry n Raw_directory = True"
| "valid_entry n (Raw_symlink target) = safe_link (pure_parts n) target"
| "valid_entry n (Raw_file c k cs) \<longleftrightarrow>
     valid_key c \<and> 0 \<le> k \<and> sum_list (map snd (file_chunks (Raw_file c k cs))) = k
     \<and> list_all (\<lambda>(d, m). valid_key d \<and> 0 \<le> m \<and> m \<le> MAX_CHUNK) (file_chunks (Raw_file c k cs))"

definition valid_manifest :: "manifest \<Rightarrow> bool" where
  "valid_manifest m \<longleftrightarrow> mf_version m = 1
     \<and> list_all (\<lambda>(n, e). safe_name n \<and> valid_entry n e
         \<and> list_all (\<lambda>p. dict_get (mf_entries m) (path_text p) = Some Raw_directory) (parents (pure_parts n))) (mf_entries m)"

section \<open>Names\<close>

definition plain_part :: "string \<Rightarrow> bool" where
  "plain_part w \<longleftrightarrow> w \<notin> {[], ''.'', ''..''} \<and> CHR ''/'' \<notin> set w"

lemma pure_parts_path: "list_all plain_part p \<Longrightarrow> pure_parts (path_text p) = p"
proof (cases "p = []")
  case False
  assume p: "list_all plain_part p"
  then have "split_on (CHR ''/'') (path_text p) = p"
    using split_join [OF False, of "CHR ''/''"] by (auto simp: path_text_def plain_part_def list_all_iff)
  then show ?thesis using p by (auto simp: pure_parts_def plain_part_def list_all_iff intro: filter_True)
qed (simp add: path_text_def pure_parts_def)

lemma pure_parts_plain: "w \<in> set (pure_parts s) \<Longrightarrow> w \<noteq> ''..'' \<Longrightarrow> plain_part w"
  by (auto simp: pure_parts_def plain_part_def dest: parts_of_split)

lemma safe_name_parts:
  assumes "safe_name n"
  shows "list_all plain_part (pure_parts n)" "n \<noteq> ''.'' \<Longrightarrow> path_text (pure_parts n) = n"
proof -
  show "list_all plain_part (pure_parts n)"
    using assms pure_parts_plain by (auto simp: safe_name_def list_all_iff)
  show "n \<noteq> ''.'' \<Longrightarrow> path_text (pure_parts n) = n"
    using assms by (auto simp: safe_name_def pure_str_def split: if_splits)
qed

text \<open>The entry at a path, and \<open>None\<close> at the root.\<close>

definition raw_at :: "manifest \<Rightarrow> path \<Rightarrow> raw_entry option" where
  "raw_at m p = (if p = [] then None else dict_get (mf_entries m) (path_text p))"

lemma valid_at:
  assumes "valid_manifest m" "raw_at m p = Some e" "list_all plain_part p"
  shows "valid_entry (path_text p) e" "below q p \<Longrightarrow> q \<noteq> [] \<Longrightarrow> raw_at m q = Some Raw_directory"
proof -
  have "(path_text p, e) \<in> set (mf_entries m)" using assms(2) by (auto simp: raw_at_def split: if_splits dest: dict_get_in)
  then have v: "valid_entry (path_text p) e"
      "\<forall>q \<in> set (parents (pure_parts (path_text p))). dict_get (mf_entries m) (path_text q) = Some Raw_directory"
    using assms(1) by (auto simp: valid_manifest_def list_all_iff)
  show "valid_entry (path_text p) e" by (rule v)
  show "below q p \<Longrightarrow> q \<noteq> [] \<Longrightarrow> raw_at m q = Some Raw_directory"
    using v(2) unfolding pure_parts_path [OF assms(3)] set_parents by (simp add: raw_at_def)
qed

text \<open>
  C38: A valid manifest is a file tree below the root. Every name but \<open>.\<close> is a path of parts none of which is
  empty, \<open>.\<close> or \<open>..\<close>; different names are different paths; every entry lies in directories only, never behind a
  link or a file; and the chunks of a file are at most 4 MiB each and add up to its size.
\<close>

theorem valid_manifest_is_tree:
  assumes "valid_manifest m" "dict_get (mf_entries m) n = Some e" "n \<noteq> ''.''"
  shows "path_text (pure_parts n) = n \<and> pure_parts n \<noteq> [] \<and> list_all plain_part (pure_parts n)
    \<and> (\<forall>q. below q (pure_parts n) \<and> q \<noteq> [] \<longrightarrow> dict_get (mf_entries m) (path_text q) = Some Raw_directory)
    \<and> (\<forall>c k cs. e = Raw_file c k cs \<longrightarrow>
         sum_list (map snd (file_chunks e)) = k \<and> (\<forall>(d, l) \<in> set (file_chunks e). valid_key d \<and> 0 \<le> l \<and> l \<le> 4194304))"
proof -
  have n: "safe_name n" "valid_entry n e" "\<forall>q \<in> set (parents (pure_parts n)). dict_get (mf_entries m) (path_text q) = Some Raw_directory"
    using assms(1) dict_get_in [OF assms(2)] by (auto simp: valid_manifest_def list_all_iff)
  have "pure_parts n \<noteq> []"
    using safe_name_parts(2) [OF n(1) assms(3)] n(1) by (auto simp: safe_name_def path_text_def)
  then show ?thesis
    using safe_name_parts [OF n(1)] assms(3) n(2,3) unfolding set_parents
    by (cases e) (auto simp: MAX_CHUNK_def list_all_iff)
qed

section \<open>Following links\<close>

text \<open>
  What the file system does with a path in a restored tree: a link is replaced by its target, and \<open>..\<close> leads to
  the directory above the one reached, which above the root is outside. \<open>k\<close> bounds the number of steps, as the
  kernel does.
\<close>

datatype link_end = Inside path | Outside | Too_many_steps

fun resolve :: "nat \<Rightarrow> manifest \<Rightarrow> path \<Rightarrow> string list \<Rightarrow> link_end" where
  "resolve 0 m cur ws = Too_many_steps"
| "resolve (Suc k) m cur [] = Inside cur"
| "resolve (Suc k) m cur (w # ws) =
     (if w = ''..'' then (if cur = [] then Outside else resolve k m (butlast cur) ws)
      else (case raw_at m (cur @ [w]) of
              Some (Raw_symlink t) \<Rightarrow> resolve k m cur (pure_parts t @ ws)
            | _ \<Rightarrow> resolve k m (cur @ [w]) ws))"

text \<open>Targets that go up only at their beginning, as \<open>os.path.relpath\<close> and package managers write them.\<close>

definition up_first :: "manifest \<Rightarrow> bool" where
  "up_first m \<longleftrightarrow> list_all (\<lambda>(n, e). case e of Raw_symlink t \<Rightarrow> ''..'' \<notin> set (dropWhile (\<lambda>w. w = ''..'') (pure_parts t)) | _ \<Rightarrow> True)
     (mf_entries m)"

lemma walk_up: "link_walk cur (replicate j ''..'' @ ws) \<noteq> None \<Longrightarrow> j \<le> length cur"
proof (induction j arbitrary: cur)
  case (Suc j)
  then have "cur \<noteq> []" "link_walk (butlast cur) (replicate j ''..'' @ ws) \<noteq> None" by (auto split: if_splits)
  then have "j \<le> length cur - 1" "cur \<noteq> []" using Suc.IH [of "butlast cur"] by simp_all
  then show ?case by (cases cur) simp_all
qed simp

lemma up_first_target:
  assumes "valid_manifest m" "up_first m" "raw_at m (cur @ [w]) = Some (Raw_symlink t)" "list_all plain_part (cur @ [w])"
  shows "\<exists>j ns. pure_parts t = replicate j ''..'' @ ns \<and> j \<le> length cur \<and> list_all plain_part ns"
proof -
  let ?ns = "dropWhile (\<lambda>w. w = ''..'') (pure_parts t)" and ?us = "takeWhile (\<lambda>w. w = ''..'') (pure_parts t)"
  have "safe_link (cur @ [w]) t"
    using valid_at(1) [OF assms(1,3,4)] pure_parts_path [OF assms(4)] by simp
  then have walk: "link_walk cur (pure_parts t) \<noteq> None" by (simp add: safe_link_def)
  have us: "?us = replicate (length ?us) ''..''"
    by (rule replicate_eqI [symmetric, THEN sym]) (auto dest: set_takeWhileD)
  have split: "pure_parts t = replicate (length ?us) ''..'' @ ?ns" using us by (metis takeWhile_dropWhile_id)
  have "(path_text (cur @ [w]), Raw_symlink t) \<in> set (mf_entries m)"
    using assms(3) by (simp add: raw_at_def dict_get_in)
  then have "''..'' \<notin> set ?ns" using assms(2) by (auto simp: up_first_def list_all_iff)
  then have "list_all plain_part ?ns"
    using pure_parts_plain by (auto simp: list_all_iff dest: set_dropWhileD)
  then show ?thesis using split walk_up [of cur "length ?us" ?ns] walk by metis
qed

lemma resolve_inside:
  assumes "valid_manifest m" "up_first m"
  shows "n \<le> length cur \<Longrightarrow> list_all plain_part cur \<Longrightarrow> list_all plain_part ns \<Longrightarrow> resolve k m cur (replicate n ''..'' @ ns) \<noteq> Outside"
proof (induction k arbitrary: n cur ns)
  case (Suc k)
  show ?case
  proof (cases n)
    case (Suc j)
    moreover have "list_all plain_part (butlast cur)" using Suc.prems(2) by (auto simp: list_all_iff dest: in_set_butlastD)
    ultimately show ?thesis using Suc.IH [of j "butlast cur" ns] Suc.prems by auto
  next
    case 0
    show ?thesis
    proof (cases ns)
      case (Cons w ws)
      then have w: "plain_part w" "w \<noteq> ''..''" "list_all plain_part ws" "list_all plain_part (cur @ [w])"
        using Suc.prems by (simp_all add: plain_part_def [of w])
      have "resolve k m cur (pure_parts t @ ws) \<noteq> Outside" if link: "raw_at m (cur @ [w]) = Some (Raw_symlink t)" for t
      proof -
        obtain j ms where "pure_parts t = replicate j ''..'' @ ms" "j \<le> length cur" "list_all plain_part ms"
          using up_first_target [OF assms link w(4)] by blast
        then show ?thesis using Suc.IH [of j cur "ms @ ws"] Suc.prems(2) w(3) by simp
      qed
      moreover have "resolve k m (cur @ [w]) ws \<noteq> Outside" using Suc.IH [of 0 "cur @ [w]" ws] w by simp
      ultimately show ?thesis
        using 0 Cons w(2) by (auto split: option.split raw_entry.split)
    qed (use 0 in simp)
  qed
qed simp

text \<open>
  C39: In a valid manifest whose links go up only at the beginning of their targets no path leads outside, over
  however many links, and wherever in the tree one starts.
\<close>

theorem links_stay_inside:
  assumes "valid_manifest m" "up_first m" "list_all plain_part cur" "list_all plain_part ws"
  shows "resolve k m cur ws \<noteq> Outside"
  using resolve_inside [OF assms(1,2) _ assms(3,4), of 0 k] by simp

definition demo_manifest :: manifest where
  "demo_manifest = \<lparr>mf_version = 1, mf_entries =
     [(''bin'', Raw_directory), (''bin/tool'', Raw_symlink ''../lib/tool''), (''lib'', Raw_directory),
      (''lib/tool'', Raw_file (replicate 64 CHR ''a'') 3 None)]\<rparr>"

theorem links_stay_inside_witness:
  "resolve 9 demo_manifest [] [''bin'', ''tool''] = Inside [''lib'', ''tool'']
   \<and> resolve 9 demo_manifest [] [''bin'', ''tool''] \<noteq> Outside"
proof -
  have "valid_manifest demo_manifest" "up_first demo_manifest" by code_simp+
  moreover have "list_all plain_part []" "list_all plain_part [''bin'', ''tool'']" by code_simp+
  ultimately have "resolve 9 demo_manifest [] [''bin'', ''tool''] \<noteq> Outside" by (rule links_stay_inside)
  moreover have "resolve 9 demo_manifest [] [''bin'', ''tool''] = Inside [''lib'', ''tool'']" by code_simp
  ultimately show ?thesis by simp
qed

theorem valid_manifest_is_tree_witness:
  "path_text (pure_parts ''bin/tool'') = ''bin/tool'' \<and> dict_get (mf_entries demo_manifest) (path_text [''bin'']) = Some Raw_directory"
proof -
  have "valid_manifest demo_manifest" "dict_get (mf_entries demo_manifest) ''bin/tool'' = Some (Raw_symlink ''../lib/tool'')"
    by code_simp+
  moreover have "below [''bin''] (pure_parts ''bin/tool'')" by code_simp
  ultimately show ?thesis using valid_manifest_is_tree [of demo_manifest "''bin/tool''"] by blast
qed

definition escaping_manifest :: manifest where
  "escaping_manifest = \<lparr>mf_version = 1, mf_entries =
     [(''p'', Raw_directory), (''p/q'', Raw_directory), (''p/q/u'', Raw_symlink ''../..''),
      (''v'', Raw_symlink ''p/q/u/../secret'')]\<rparr>"

text \<open>
  Two links are enough to leave the root. The check reads \<open>..\<close> after the name of a link as if the link were a
  directory in its place: \<open>p/q/u\<close> leads to the root and \<open>v\<close> to \<open>p/q/u/../secret\<close>, which passes as \<open>p/q/secret\<close> and
  is the entry \<open>secret\<close> next to the root.
\<close>

theorem two_links_escape:
  "valid_manifest escaping_manifest \<and> resolve 12 escaping_manifest [] [''v''] = Outside"
  by code_simp

end
