(* ===== verification/Project_Store.thy ===== *)
theory Project_Store
  imports Manifest_Check Utf8_Text
begin

text \<open>
  The store of saved revisions (\<open>agent/modules/projects/storage.py\<close>: \<open>LocalProjectStorage\<close>): objects under the
  checksums of their bytes, manifests under the checksums of their JSON, and the two caches of what was verified.
  A stored file is its bytes and a stamp for the rest of its \<open>stat\<close> signature, which every write makes new. The
  checksum (SHA-256) and the JSON text of a manifest are parameters. Temporary files, and a file that changes
  while it is read, are left out: an operation is one step.
\<close>

section \<open>The store\<close>

record store_file =
  sf_content :: bytes
  sf_stamp :: nat

type_synonym file_signature = "nat \<times> nat"

definition file_signature :: "store_file \<Rightarrow> file_signature" where
  "file_signature f = (length (sf_content f), sf_stamp f)"

text \<open>Objects and manifests by workspace and checksum; the caches; the next stamp.\<close>

record project_store =
  st_objects :: "(string \<times> string, store_file) dict"
  st_manifests :: "(string \<times> string, store_file) dict"
  st_verified_blobs :: "(string \<times> string, file_signature) dict"
  st_verified_files :: "(string \<times> string, int \<times> (string \<times> int \<times> file_signature) list) dict"
  st_stamp :: nat

datatype store_error = Store_value | Store_missing

record store_env =
  se_checksum :: "bytes \<Rightarrow> string"
  se_json :: "manifest \<Rightarrow> bytes"
  se_parse :: "bytes \<Rightarrow> manifest option"

definition empty_store :: project_store where
  "empty_store = \<lparr>st_objects = [], st_manifests = [], st_verified_blobs = [], st_verified_files = [], st_stamp = 0\<rparr>"

text \<open>\<open>_base\<close> and \<open>_blob\<close> raise for other keys.\<close>

definition workspace_ok :: "string \<Rightarrow> bool" where
  "workspace_ok ws \<longleftrightarrow> ws \<noteq> [] \<and> list_all is_digit ws"

definition blob_key :: "string \<Rightarrow> string \<Rightarrow> bool" where
  "blob_key ws d \<longleftrightarrow> workspace_ok ws \<and> valid_key d"

definition write_object :: "string \<Rightarrow> string \<Rightarrow> bytes \<Rightarrow> project_store \<Rightarrow> project_store" where
  "write_object ws d c s =
     s\<lparr>st_objects := dict_set (ws, d) \<lparr>sf_content = c, sf_stamp = st_stamp s\<rparr> (st_objects s), st_stamp := st_stamp s + 1\<rparr>"

definition put_blob :: "store_env \<Rightarrow> string \<Rightarrow> string \<Rightarrow> bytes \<Rightarrow> project_store \<Rightarrow> store_error option \<times> project_store" where
  "put_blob E ws d c s =
     (if \<not> blob_key ws d \<or> se_checksum E c \<noteq> d then (Some Store_value, s)
      else (let s = write_object ws d c s; sig = (length c, st_stamp s - 1) in
            (None, s\<lparr>st_verified_blobs := dict_set (ws, d) sig (st_verified_blobs s)\<rparr>)))"

definition get_blob :: "store_env \<Rightarrow> string \<Rightarrow> string \<Rightarrow> project_store \<Rightarrow> (store_error + bytes) \<times> project_store" where
  "get_blob E ws d s =
     (if \<not> blob_key ws d then (Inl Store_value, s)
      else (case dict_get (st_objects s) (ws, d) of
              None \<Rightarrow> (Inl Store_missing, s)
            | Some f \<Rightarrow>
                if se_checksum E (sf_content f) \<noteq> d then (Inl Store_value, s)
                else (Inr (sf_content f), s\<lparr>st_verified_blobs := dict_set (ws, d) (file_signature f) (st_verified_blobs s)\<rparr>)))"

definition has_blob :: "store_env \<Rightarrow> string \<Rightarrow> string \<Rightarrow> project_store \<Rightarrow> (store_error + bool) \<times> project_store" where
  "has_blob E ws d s =
     (if \<not> blob_key ws d then (Inl Store_value, s)
      else (case dict_get (st_objects s) (ws, d) of
              None \<Rightarrow> (Inr False, s)
            | Some f \<Rightarrow>
                if dict_get (st_verified_blobs s) (ws, d) = Some (file_signature f) then (Inr True, s)
                else (case get_blob E ws d s of (Inl e, s) \<Rightarrow> (Inr False, s) | (Inr c, s) \<Rightarrow> (Inr True, s))))"

section \<open>Saving a manifest\<close>

text \<open>The signatures of the chunks of a file, \<open>None\<close> when one is missing.\<close>

fun chunk_signatures :: "string \<Rightarrow> project_store \<Rightarrow> (string \<times> int) list \<Rightarrow> (string \<times> int \<times> file_signature) list option" where
  "chunk_signatures ws s [] = Some []"
| "chunk_signatures ws s ((d, n) # cs) =
     (case dict_get (st_objects s) (ws, d) of
        None \<Rightarrow> None
      | Some f \<Rightarrow> map_option ((#) (d, n, file_signature f)) (chunk_signatures ws s cs))"

text \<open>Reading the chunks of a file and checking their sizes.\<close>

fun read_chunks :: "store_env \<Rightarrow> string \<Rightarrow> (string \<times> int) list \<Rightarrow> project_store \<Rightarrow> (store_error + bytes) \<times> project_store" where
  "read_chunks E ws [] s = (Inr [], s)"
| "read_chunks E ws ((d, n) # cs) s =
     (case get_blob E ws d s of
        (Inl e, s) \<Rightarrow> (Inl e, s)
      | (Inr c, s) \<Rightarrow>
          if int (length c) \<noteq> n then (Inl Store_value, s)
          else (case read_chunks E ws cs s of (Inl e, s) \<Rightarrow> (Inl e, s) | (Inr b, s) \<Rightarrow> (Inr (c @ b), s)))"

definition remember_file :: "string \<Rightarrow> string \<Rightarrow> int \<times> (string \<times> int \<times> file_signature) list \<Rightarrow> project_store \<Rightarrow> project_store" where
  "remember_file ws d sig s = s\<lparr>st_verified_files := dict_set (ws, d) sig (st_verified_files s)\<rparr>"

text \<open>One file of a manifest: its checksum, its size and its chunks.\<close>

definition check_file :: "store_env \<Rightarrow> string \<Rightarrow> string \<Rightarrow> int \<Rightarrow> (string \<times> int) list \<Rightarrow> project_store
    \<Rightarrow> store_error option \<times> project_store" where
  "check_file E ws d len cs s =
     (case chunk_signatures ws s cs of
        None \<Rightarrow> (Some Store_missing, s)
      | Some sigs \<Rightarrow>
          if dict_get (st_verified_files s) (ws, d) = Some (len, sigs) then (None, s)
          else
            (let single = (length cs = 1 \<and> fst (hd cs) = d); (known, s) = (if single then has_blob E ws d s else (Inr False, s)) in
             if known = Inr True then
               (case dict_get (st_objects s) (ws, d) of
                  None \<Rightarrow> (Some Store_missing, s)
                | Some f \<Rightarrow> if int (length (sf_content f)) \<noteq> len then (Some Store_value, s)
                            else (None, remember_file ws d (len, sigs) s))
             else
               (case read_chunks E ws cs s of
                  (Inl e, s) \<Rightarrow> (Some e, s)
                | (Inr b, s) \<Rightarrow> if se_checksum E b \<noteq> d then (Some Store_value, s) else (None, remember_file ws d (len, sigs) s))))"

fun check_files :: "store_env \<Rightarrow> string \<Rightarrow> (string, raw_entry) dict \<Rightarrow> project_store \<Rightarrow> store_error option \<times> project_store" where
  "check_files E ws [] s = (None, s)"
| "check_files E ws ((n, e) # es) s =
     (case e of
        Raw_file d len cs \<Rightarrow>
          (case check_file E ws d len (file_chunks e) s of (Some x, s) \<Rightarrow> (Some x, s) | (None, s) \<Rightarrow> check_files E ws es s)
      | _ \<Rightarrow> check_files E ws es s)"

text \<open>A workspace key that is no number is refused at the first path, before anything is read.\<close>

definition put_manifest :: "store_env \<Rightarrow> string \<Rightarrow> manifest \<Rightarrow> project_store \<Rightarrow> (store_error + string) \<times> project_store" where
  "put_manifest E ws m s =
     (if \<not> valid_manifest m \<or> \<not> workspace_ok ws then (Inl Store_value, s)
      else (case check_files E ws (mf_entries m) s of
              (Some e, s) \<Rightarrow> (Inl e, s)
            | (None, s) \<Rightarrow>
                (let content = se_json E m; revision = se_checksum E content in
                 (Inr revision,
                  if map_option sf_content (dict_get (st_manifests s) (ws, revision)) = Some content then s
                  else s\<lparr>st_manifests := dict_set (ws, revision) \<lparr>sf_content = content, sf_stamp = st_stamp s\<rparr> (st_manifests s),
                         st_stamp := st_stamp s + 1\<rparr>))))"

definition get_manifest :: "store_env \<Rightarrow> string \<Rightarrow> string \<Rightarrow> project_store \<Rightarrow> store_error + manifest" where
  "get_manifest E ws revision s =
     (if \<not> workspace_ok ws \<or> \<not> valid_key revision then Inl Store_value
      else (case dict_get (st_manifests s) (ws, revision) of
              None \<Rightarrow> Inl Store_missing
            | Some f \<Rightarrow>
                if se_checksum E (sf_content f) \<noteq> revision then Inl Store_value
                else (case se_parse E (sf_content f) of
                        None \<Rightarrow> Inl Store_value
                      | Some m \<Rightarrow> if valid_manifest m then Inr m else Inl Store_value)))"

section \<open>Collecting garbage\<close>

definition chunks_of :: "manifest \<Rightarrow> string list" where
  "chunks_of m = concat (map (\<lambda>(n, e). map fst (file_chunks e)) (mf_entries m))"

fun referenced_by :: "store_env \<Rightarrow> string \<Rightarrow> project_store \<Rightarrow> string list \<Rightarrow> store_error + string list" where
  "referenced_by E ws s [] = Inr []"
| "referenced_by E ws s (r # rs) =
     (case get_manifest E ws r s of
        Inl e \<Rightarrow> Inl e
      | Inr m \<Rightarrow> (case referenced_by E ws s rs of Inl e \<Rightarrow> Inl e | Inr ds \<Rightarrow> Inr (chunks_of m @ ds)))"

text \<open>\<open>collect\<close>; \<open>revisions\<close> is a set, here in some order.\<close>

definition collect :: "store_env \<Rightarrow> string \<Rightarrow> string list \<Rightarrow> project_store \<Rightarrow> store_error option \<times> project_store" where
  "collect E ws revisions s =
     (case referenced_by E ws s revisions of
        Inl e \<Rightarrow> (Some e, s)
      | Inr referenced \<Rightarrow>
          if \<not> workspace_ok ws then (Some Store_value, s)
          else
            (let kept = (\<lambda>(w, d). w \<noteq> ws \<or> d \<in> set referenced) in
             (None,
              s\<lparr>st_objects := filter (kept \<circ> fst) (st_objects s),
                st_verified_blobs := filter (\<lambda>(k, v). kept k \<or> dict_get (st_objects s) k = None) (st_verified_blobs s),
                st_verified_files := filter (\<lambda>((w, d), sz, sigs). \<not> (w = ws \<and> list_ex (\<lambda>(c, _). c \<notin> set referenced) sigs))
                                       (st_verified_files s),
                st_manifests := filter (\<lambda>((w, r), f). w \<noteq> ws \<or> r \<in> set revisions) (st_manifests s)\<rparr>)))"

section \<open>What the caches may be trusted with\<close>

definition chunk_stored :: "store_env \<Rightarrow> project_store \<Rightarrow> string \<Rightarrow> string \<times> int \<Rightarrow> bytes \<Rightarrow> bool" where
  "chunk_stored E s ws c b \<longleftrightarrow> map_option sf_content (dict_get (st_objects s) (ws, fst c)) = Some b
     \<and> se_checksum E b = fst c \<and> int (length b) = snd c"

definition file_stored :: "store_env \<Rightarrow> project_store \<Rightarrow> string \<Rightarrow> string \<Rightarrow> (string \<times> int) list \<Rightarrow> bool" where
  "file_stored E s ws d cs \<longleftrightarrow> (\<exists>bs. list_all2 (chunk_stored E s ws) cs bs \<and> se_checksum E (concat bs) = d)"

definition current :: "project_store \<Rightarrow> string \<Rightarrow> string \<times> int \<times> file_signature \<Rightarrow> bool" where
  "current s ws c \<longleftrightarrow> map_option file_signature (dict_get (st_objects s) (ws, fst c)) = Some (snd (snd c))"

definition sized :: "string \<times> int \<times> file_signature \<Rightarrow> string \<times> int" where
  "sized c = (fst c, fst (snd c))"

text \<open>A cached signature that still fits belongs to a file whose content was verified.\<close>

definition caches_sound :: "store_env \<Rightarrow> project_store \<Rightarrow> bool" where
  "caches_sound E s \<longleftrightarrow>
     (\<forall>ws d f. dict_get (st_objects s) (ws, d) = Some f \<longrightarrow> sf_stamp f < st_stamp s)
     \<and> (\<forall>ws d g. dict_get (st_verified_blobs s) (ws, d) = Some g \<longrightarrow> snd g < st_stamp s
          \<and> (\<forall>f. dict_get (st_objects s) (ws, d) = Some f \<and> file_signature f = g \<longrightarrow> se_checksum E (sf_content f) = d))
     \<and> (\<forall>ws d len sigs. ((ws, d), len, sigs) \<in> set (st_verified_files s) \<longrightarrow>
          list_all (\<lambda>c. snd (snd (snd c)) < st_stamp s) sigs
          \<and> (list_all (current s ws) sigs \<longrightarrow> file_stored E s ws d (map sized sigs)))"

lemma caches_soundD:
  assumes "caches_sound E s"
  shows "dict_get (st_objects s) (ws, d) = Some f \<Longrightarrow> sf_stamp f < st_stamp s"
    and "dict_get (st_verified_blobs s) (ws, d) = Some g \<Longrightarrow> snd g < st_stamp s"
    and "dict_get (st_verified_blobs s) (ws, d) = Some (file_signature f) \<Longrightarrow> dict_get (st_objects s) (ws, d) = Some f
      \<Longrightarrow> se_checksum E (sf_content f) = d"
    and "((ws, d), len, sigs) \<in> set (st_verified_files s) \<Longrightarrow> list_all (\<lambda>c. snd (snd (snd c)) < st_stamp s) sigs"
    and "((ws, d), len, sigs) \<in> set (st_verified_files s) \<Longrightarrow> list_all (current s ws) sigs \<Longrightarrow> file_stored E s ws d (map sized sigs)"
  using assms unfolding caches_sound_def by blast+

lemma stored_cong:
  assumes "\<And>c. c \<in> set cs \<Longrightarrow> map_option sf_content (dict_get (st_objects s') (ws, fst c))
      = map_option sf_content (dict_get (st_objects s) (ws, fst c))"
  shows "file_stored E s' ws d cs = file_stored E s ws d cs"
proof -
  have "list_all2 (chunk_stored E s' ws) cs bs = list_all2 (chunk_stored E s ws) cs bs" for bs
    by (rule list.rel_cong_simp) (use assms in \<open>auto simp: chunk_stored_def simp_implies_def\<close>)
  then show ?thesis by (simp add: file_stored_def)
qed

lemma same_objects:
  assumes "st_objects s' = st_objects s"
  shows "file_stored E s' = file_stored E s" "current s' = current s" "chunk_stored E s' = chunk_stored E s"
proof -
  show c: "chunk_stored E s' = chunk_stored E s"
    by (intro ext) (simp add: chunk_stored_def assms)
  show "file_stored E s' = file_stored E s"
    by (intro ext) (simp add: file_stored_def c)
  show "current s' = current s"
    by (intro ext) (simp add: current_def assms)
qed

text \<open>Objects may be removed, and replaced by ones with new stamps; caches may forget.\<close>

lemma caches_change:
  assumes "caches_sound E s" "st_stamp s \<le> st_stamp s'"
    and objects: "\<And>ws d f. dict_get (st_objects s') (ws, d) = Some f \<Longrightarrow>
      dict_get (st_objects s) (ws, d) = Some f \<or> st_stamp s \<le> sf_stamp f \<and> sf_stamp f < st_stamp s'"
    and blobs: "\<And>ws d g. dict_get (st_verified_blobs s') (ws, d) = Some g \<Longrightarrow> dict_get (st_verified_blobs s) (ws, d) = Some g"
    and files: "\<And>x. x \<in> set (st_verified_files s') \<Longrightarrow> x \<in> set (st_verified_files s)"
  shows "caches_sound E s'"
proof -
  note old = caches_soundD [OF assms(1)]
  have same: "dict_get (st_objects s) (ws, d) = Some f"
    if "dict_get (st_objects s') (ws, d) = Some f" "sf_stamp f < st_stamp s" for ws d f
    using objects [OF that(1)] that(2) by auto
  have sg: "snd (file_signature f) = sf_stamp f" for f by (simp add: file_signature_def)
  have "sf_stamp f < st_stamp s'" if "dict_get (st_objects s') (ws, d) = Some f" for ws d f
    using objects [OF that] old(1) [of ws d f] assms(2) by auto
  moreover have "snd g < st_stamp s'" if "dict_get (st_verified_blobs s') (ws, d) = Some g" for ws d g
    using old(2) [OF blobs [OF that]] assms(2) by simp
  moreover have "se_checksum E (sf_content f) = d"
    if "dict_get (st_verified_blobs s') (ws, d) = Some (file_signature f)" "dict_get (st_objects s') (ws, d) = Some f" for ws d f
    using old(3) [OF blobs [OF that(1)] same [OF that(2)]] old(2) [OF blobs [OF that(1)]] sg by simp
  moreover have "list_all (\<lambda>c. snd (snd (snd c)) < st_stamp s') sigs"
    if "((ws, d), len, sigs) \<in> set (st_verified_files s')" for ws d len sigs
    using old(4) [OF files [OF that]] assms(2) by (auto simp: list_all_iff)
  moreover have "file_stored E s' ws d (map sized sigs)"
    if g: "((ws, d), len, sigs) \<in> set (st_verified_files s')" and c: "list_all (current s' ws) sigs" for ws d len sigs
  proof -
    have eq: "dict_get (st_objects s') (ws, fst c) = dict_get (st_objects s) (ws, fst c)
        \<and> current s ws c" if "c \<in> set sigs" for c
    proof -
      obtain f where f: "dict_get (st_objects s') (ws, fst c) = Some f" "file_signature f = snd (snd c)"
        using c \<open>c \<in> set sigs\<close> by (auto simp: list_all_iff current_def)
      moreover have "sf_stamp f < st_stamp s"
        using old(4) [OF files [OF g]] \<open>c \<in> set sigs\<close> f(2) sg [of f] by (auto simp: list_all_iff)
      ultimately show ?thesis using same [OF f(1)] by (simp add: current_def)
    qed
    have "file_stored E s ws d (map sized sigs)"
      by (rule old(5) [OF files [OF g]]) (use eq in \<open>simp add: list_all_iff\<close>)
    moreover have "file_stored E s' ws d (map sized sigs) = file_stored E s ws d (map sized sigs)"
      by (rule stored_cong) (use eq in \<open>auto simp: sized_def\<close>)
    ultimately show ?thesis by simp
  qed
  ultimately show ?thesis
    unfolding caches_sound_def by blast
qed

lemma note_blob:
  assumes "caches_sound E s" "dict_get (st_objects s) (ws, d) = Some f" "se_checksum E (sf_content f) = d"
  shows "caches_sound E (s\<lparr>st_verified_blobs := dict_set (ws, d) (file_signature f) (st_verified_blobs s)\<rparr>)"
proof -
  let ?s = "s\<lparr>st_verified_blobs := dict_set (ws, d) (file_signature f) (st_verified_blobs s)\<rparr>"
  have same: "file_stored E ?s = file_stored E s" "current ?s = current s"
    by (rule same_objects, simp)+
  note old = caches_soundD [OF assms(1)]
  have "snd g < st_stamp s \<and> (\<forall>h. dict_get (st_objects s) (w, e) = Some h \<and> file_signature h = g \<longrightarrow> se_checksum E (sf_content h) = e)"
    if "dict_get (st_verified_blobs ?s) (w, e) = Some g" for w e g
  proof (cases "w = ws \<and> e = d")
    case True
    then show ?thesis using that assms(2,3) old(1) [OF assms(2)] by (auto simp: dict_get_set file_signature_def)
  next
    case False
    then have "dict_get (st_verified_blobs s) (w, e) = Some g" using that by (auto simp: dict_get_set split: if_splits)
    then show ?thesis using old(2,3) by blast
  qed
  then show ?thesis
    using old(1,4,5) unfolding caches_sound_def same by simp
qed

lemma note_file:
  assumes "caches_sound E s" "list_all (\<lambda>c. snd (snd (snd c)) < st_stamp s) sigs" "file_stored E s ws d (map sized sigs)"
  shows "caches_sound E (remember_file ws d (len, sigs) s)"
proof -
  let ?s = "remember_file ws d (len, sigs) s"
  have same: "file_stored E ?s = file_stored E s" "current ?s = current s"
    by (rule same_objects, simp add: remember_file_def)+
  note old = caches_soundD [OF assms(1)]
  have "list_all (\<lambda>c. snd (snd (snd c)) < st_stamp s) gs \<and> (list_all (current s w) gs \<longrightarrow> file_stored E s w e (map sized gs))"
    if "((w, e), n, gs) \<in> set (st_verified_files ?s)" for w e n gs
  proof (cases "((w, e), n, gs) \<in> set (st_verified_files s)")
    case False
    then have "w = ws \<and> e = d \<and> gs = sigs"
      using that dict_set_subset [of "(ws, d)" "(len, sigs)" "st_verified_files s"] by (auto simp: remember_file_def)
    then show ?thesis using assms(2,3) by simp
  qed (use old(4,5) in blast)
  then show ?thesis
    using old(1-3) unfolding caches_sound_def same by (simp add: remember_file_def)
qed

section \<open>Each operation\<close>

text \<open>Operations that only read and remember.\<close>

definition only_caches :: "project_store \<Rightarrow> project_store \<Rightarrow> bool" where
  "only_caches s s' \<longleftrightarrow> st_objects s' = st_objects s \<and> st_manifests s' = st_manifests s \<and> st_stamp s' = st_stamp s"

lemma only_caches_refl [simp]: "only_caches s s"
  by (simp add: only_caches_def)

lemma only_caches_trans: "only_caches r s \<Longrightarrow> only_caches s t \<Longrightarrow> only_caches r t"
  by (simp add: only_caches_def)

lemma only_caches_stored: "only_caches s s' \<Longrightarrow> file_stored E s' = file_stored E s" "only_caches s s' \<Longrightarrow> chunk_stored E s' = chunk_stored E s"
  by (rule same_objects, simp add: only_caches_def)+

lemma get_blob_facts:
  assumes "get_blob E ws d s = (r, s')" "caches_sound E s"
  shows "caches_sound E s' \<and> only_caches s s'
    \<and> (\<forall>b. r = Inr b \<longrightarrow> map_option sf_content (dict_get (st_objects s) (ws, d)) = Some b \<and> se_checksum E b = d)"
proof (cases "\<exists>f. dict_get (st_objects s) (ws, d) = Some f \<and> se_checksum E (sf_content f) = d \<and> blob_key ws d")
  case True
  then obtain f where f: "dict_get (st_objects s) (ws, d) = Some f" "se_checksum E (sf_content f) = d" "blob_key ws d" by blast
  then have out: "s' = s\<lparr>st_verified_blobs := dict_set (ws, d) (file_signature f) (st_verified_blobs s)\<rparr>" "r = Inr (sf_content f)"
    using assms(1) by (simp_all add: get_blob_def)
  have "caches_sound E s'" unfolding out(1) by (rule note_blob [OF assms(2) f(1,2)])
  moreover have "only_caches s s'" by (simp add: only_caches_def out(1))
  ultimately show ?thesis using f out(2) by simp
next
  case False
  then have "s' = s" "\<exists>e. r = Inl e" using assms(1) by (auto simp: get_blob_def split: if_splits option.splits)
  then show ?thesis using assms(2) by auto
qed

lemma has_blob_facts:
  assumes "has_blob E ws d s = (r, s')" "caches_sound E s"
  shows "caches_sound E s' \<and> only_caches s s'
    \<and> (r = Inr True \<longrightarrow> (\<exists>f. dict_get (st_objects s) (ws, d) = Some f \<and> se_checksum E (sf_content f) = d))"
proof (cases "dict_get (st_objects s) (ws, d)")
  case None
  then show ?thesis using assms by (auto simp: has_blob_def split: if_splits)
next
  case (Some f)
  obtain q t where g: "get_blob E ws d s = (q, t)" by fastforce
  note get = get_blob_facts [OF g assms(2)]
  show ?thesis
  proof (cases "dict_get (st_verified_blobs s) (ws, d) = Some (file_signature f)")
    case True
    then show ?thesis using assms Some caches_soundD(3) [OF assms(2) True Some] by (auto simp: has_blob_def split: if_splits)
  next
    case False
    then show ?thesis
      using assms Some get g by (cases q) (auto simp: has_blob_def split: if_splits)
  qed
qed

lemma read_chunks_facts:
  "read_chunks E ws cs s = (r, s') \<Longrightarrow> caches_sound E s \<Longrightarrow>
     caches_sound E s' \<and> only_caches s s'
     \<and> (\<forall>b. r = Inr b \<longrightarrow> (\<exists>bs. list_all2 (chunk_stored E s ws) cs bs \<and> b = concat bs))"
proof (induction cs arbitrary: s r s')
  case (Cons c cs)
  obtain d n where c: "c = (d, n)" by fastforce
  obtain q t where g: "get_blob E ws d s = (q, t)" by fastforce
  note get = get_blob_facts [OF g Cons.prems(2)]
  show ?case
  proof (cases q)
    case (Inl e)
    then show ?thesis using Cons.prems g get by (auto simp: c)
  next
    case (Inr b)
    show ?thesis
    proof (cases "int (length b) = n")
      case False
      then show ?thesis using Cons.prems g get Inr by (auto simp: c)
    next
      case True
      obtain p u where rest: "read_chunks E ws cs t = (p, u)" by fastforce
      have ih: "caches_sound E u \<and> only_caches t u
          \<and> (\<forall>b. p = Inr b \<longrightarrow> (\<exists>bs. list_all2 (chunk_stored E s ws) cs bs \<and> b = concat bs))"
        using Cons.IH [OF rest] get only_caches_stored(2) [of s t] by simp
      have out: "s' = u" "r = (case p of Inl e \<Rightarrow> Inl e | Inr bs \<Rightarrow> Inr (b @ bs))"
        using Cons.prems(1) g Inr True rest by (auto simp: c split: sum.splits)
      have "chunk_stored E s ws c b" using get Inr True by (simp add: chunk_stored_def c)
      then have "\<exists>bs. list_all2 (chunk_stored E s ws) (c # cs) bs \<and> x = concat bs" if res: "r = Inr x" for x
      proof -
        obtain bs where bs: "list_all2 (chunk_stored E s ws) cs bs" "x = b @ concat bs"
          using ih res out(2) by (cases p) auto
        then show ?thesis using \<open>chunk_stored E s ws c b\<close> by (intro exI [of _ "b # bs"]) simp
      qed
      then show ?thesis using ih out(1) get only_caches_trans by blast
    qed
  qed
qed auto

lemma chunk_signatures_facts:
  "chunk_signatures ws s cs = Some sigs \<Longrightarrow> map sized sigs = cs \<and> list_all (current s ws) sigs"
proof (induction ws s cs arbitrary: sigs rule: chunk_signatures.induct)
  case (2 ws s d n cs)
  then show ?case by (auto simp: sized_def current_def split: option.splits)
qed simp

lemma check_file_facts:
  assumes "check_file E ws d len cs s = (r, s')" "caches_sound E s" "sum_list (map snd cs) = len"
  shows "caches_sound E s' \<and> only_caches s s' \<and> (r = None \<longrightarrow> file_stored E s ws d cs)"
proof (cases "chunk_signatures ws s cs")
  case None
  then show ?thesis using assms by (auto simp: check_file_def)
next
  case (Some sigs)
  note sigs = chunk_signatures_facts [OF Some]
  have stamps: "list_all (\<lambda>c. snd (snd (snd c)) < st_stamp s) sigs"
    using sigs caches_soundD(1) [OF assms(2)] by (fastforce simp: list_all_iff current_def file_signature_def)
  show ?thesis
  proof (cases "dict_get (st_verified_files s) (ws, d) = Some (len, sigs)")
    case True
    then show ?thesis using assms(1,2) Some caches_soundD(5) [OF assms(2) dict_get_in [OF True]] sigs by (simp add: check_file_def)
  next
    case False
    define single where "single = (length cs = 1 \<and> fst (hd cs) = d)"
    obtain known t where known: "(if single then has_blob E ws d s else (Inr False, s)) = (known, t)" by fastforce
    have t: "caches_sound E t \<and> only_caches s t
        \<and> (known = Inr True \<longrightarrow> single \<and> (\<exists>f. dict_get (st_objects s) (ws, d) = Some f \<and> se_checksum E (sf_content f) = d))"
      using known has_blob_facts [of E ws d s known t] assms(2) by (cases single) auto
    have saved: "caches_sound E (remember_file ws d (len, sigs) u) \<and> only_caches s (remember_file ws d (len, sigs) u)"
      if "caches_sound E u" "only_caches s u" "file_stored E s ws d cs" for u
      using note_file [of E u sigs ws d len] that stamps sigs only_caches_stored(1) [OF that(2)]
      by (simp add: only_caches_def remember_file_def)
    show ?thesis
    proof (cases "known = Inr True")
      case True
      then obtain f where f: "single" "dict_get (st_objects s) (ws, d) = Some f" "se_checksum E (sf_content f) = d" using t by blast
      obtain n where cs: "cs = [(d, n)]" "len = n" using f(1) assms(3) by (cases cs) (auto simp: single_def)
      have "(if int (length (sf_content f)) \<noteq> len then (Some Store_value, t) else (None, remember_file ws d (len, sigs) t)) = (r, s')"
        using assms(1) Some False known True f t unfolding check_file_def single_def [symmetric]
        by (simp add: only_caches_def Let_def)
      moreover have "file_stored E s ws d cs" if "int (length (sf_content f)) = len"
        unfolding file_stored_def chunk_stored_def using f(2,3) that cs by (intro exI [of _ "[sf_content f]"]) simp
      ultimately show ?thesis using saved [of t] t by (auto split: if_splits)
    next
      case k: False
      obtain q u where q: "read_chunks E ws cs t = (q, u)" by fastforce
      have u: "caches_sound E u \<and> only_caches s u
          \<and> (\<forall>b. q = Inr b \<longrightarrow> (\<exists>bs. list_all2 (chunk_stored E s ws) cs bs \<and> b = concat bs))"
        using read_chunks_facts [OF q] t only_caches_trans [of s t u] only_caches_stored(2) [of s t] by simp
      have out: "(case q of Inl e \<Rightarrow> (Some e, u) | Inr b \<Rightarrow> if se_checksum E b \<noteq> d then (Some Store_value, u)
          else (None, remember_file ws d (len, sigs) u)) = (r, s')"
        using assms(1) Some False known k q unfolding check_file_def single_def [symmetric]
        by (cases q) (simp_all add: Let_def)
      show ?thesis
      proof (cases q)
        case (Inl e)
        then show ?thesis using out u by auto
      next
        case (Inr b)
        have "file_stored E s ws d cs" if "se_checksum E b = d" using u Inr that by (auto simp: file_stored_def)
        then show ?thesis using out u Inr saved [of u] by (auto split: if_splits)
      qed
    qed
  qed
qed

section \<open>Histories of a store\<close>

fun entry_stored :: "store_env \<Rightarrow> project_store \<Rightarrow> string \<Rightarrow> raw_entry \<Rightarrow> bool" where
  "entry_stored E s ws (Raw_file d len cs) = file_stored E s ws d (file_chunks (Raw_file d len cs))"
| "entry_stored E s ws e = True"

lemma entry_stored_cong: "file_stored E s' = file_stored E s \<Longrightarrow> entry_stored E s' = entry_stored E s"
proof (intro ext)
  assume "file_stored E s' = file_stored E s"
  then show "entry_stored E s' ws e = entry_stored E s ws e" for ws e by (cases e) simp_all
qed

definition revision_stored :: "store_env \<Rightarrow> project_store \<Rightarrow> string \<Rightarrow> manifest \<Rightarrow> bool" where
  "revision_stored E s ws m \<longleftrightarrow>
     list_all (\<lambda>(n, e). entry_stored E s ws e) (mf_entries m)"

lemma check_files_facts:
  "check_files E ws es s = (r, s') \<Longrightarrow> caches_sound E s \<Longrightarrow> list_all (\<lambda>(n, e). valid_entry n e) es \<Longrightarrow>
     caches_sound E s' \<and> only_caches s s'
     \<and> (r = None \<longrightarrow> list_all (\<lambda>(n, e). entry_stored E s ws e) es)"
proof (induction es arbitrary: s)
  case (Cons x es)
  obtain n e where x: "x = (n, e)" by fastforce
  show ?case
  proof (cases e)
    case (Raw_file d len cs)
    obtain q t where q: "check_file E ws d len (file_chunks e) s = (q, t)" by fastforce
    have f: "caches_sound E t \<and> only_caches s t \<and> (q = None \<longrightarrow> file_stored E s ws d (file_chunks e))"
      by (rule check_file_facts [OF q Cons.prems(2)]) (use Cons.prems(3) x Raw_file in simp)
    show ?thesis
    proof (cases q)
      case None
      then have "check_files E ws es t = (r, s')" using Cons.prems(1) q x Raw_file by simp
      then show ?thesis
        using Cons.IH [of t] Cons.prems(3) f None x Raw_file only_caches_trans [of s t s'] entry_stored_cong [OF only_caches_stored(1) [of s t E]] by simp
    next
      case (Some y)
      then show ?thesis using Cons.prems(1) q x Raw_file f by auto
    qed
  qed (use Cons.IH [of s] Cons.prems x in simp_all)
qed simp

lemma put_manifest_facts:
  assumes "put_manifest E ws m s = (r, s')" "caches_sound E s"
  shows "caches_sound E s'" "st_objects s' = st_objects s"
    and "\<And>w k. (w, k) \<noteq> (ws, se_checksum E (se_json E m)) \<Longrightarrow> dict_get (st_manifests s') (w, k) = dict_get (st_manifests s) (w, k)"
    and "st_manifests s' = st_manifests s
      \<or> map_option sf_content (dict_get (st_manifests s') (ws, se_checksum E (se_json E m))) = Some (se_json E m)"
    and "r = Inr k \<Longrightarrow> revision_stored E s' ws m \<and> valid_manifest m \<and> workspace_ok ws \<and> k = se_checksum E (se_json E m)
      \<and> map_option sf_content (dict_get (st_manifests s') (ws, k)) = Some (se_json E m)"
proof -
  have "caches_sound E s' \<and> st_objects s' = st_objects s
    \<and> (\<forall>w k. (w, k) \<noteq> (ws, se_checksum E (se_json E m)) \<longrightarrow> dict_get (st_manifests s') (w, k) = dict_get (st_manifests s) (w, k))
    \<and> (st_manifests s' = st_manifests s
        \<or> map_option sf_content (dict_get (st_manifests s') (ws, se_checksum E (se_json E m))) = Some (se_json E m))
    \<and> (\<forall>k. r = Inr k \<longrightarrow> revision_stored E s' ws m \<and> valid_manifest m \<and> workspace_ok ws \<and> k = se_checksum E (se_json E m)
        \<and> map_option sf_content (dict_get (st_manifests s') (ws, k)) = Some (se_json E m))"
  proof (cases "valid_manifest m \<and> workspace_ok ws")
    case False
    then show ?thesis using assms by (auto simp: put_manifest_def)
  next
    case True
    then have entries: "list_all (\<lambda>(n, e). valid_entry n e) (mf_entries m)" by (auto simp: valid_manifest_def list_all_iff)
    obtain q t where q: "check_files E ws (mf_entries m) s = (q, t)" by fastforce
    note t = check_files_facts [OF q assms(2) entries]
    show ?thesis
    proof (cases q)
      case (Some e)
      then show ?thesis using assms q True t by (auto simp: put_manifest_def only_caches_def)
    next
      case None
      let ?r = "se_checksum E (se_json E m)"
      let ?known = "map_option sf_content (dict_get (st_manifests t) (ws, ?r)) = Some (se_json E m)"
      let ?new = "t\<lparr>st_manifests := dict_set (ws, ?r) \<lparr>sf_content = se_json E m, sf_stamp = st_stamp t\<rparr> (st_manifests t),
                     st_stamp := st_stamp t + 1\<rparr>"
      have out: "r = Inr ?r" "s' = (if ?known then t else ?new)"
        using assms(1) q True None by (simp_all add: put_manifest_def Let_def)
      have "caches_sound E ?new"
        by (rule caches_change [of E t]) (use t in simp_all)
      then have sound: "caches_sound E s'" using out(2) t by simp
      have objects: "st_objects s' = st_objects t" using out(2) by simp
      have "revision_stored E s' ws m"
        using t None entry_stored_cong [OF same_objects(1) [of s' t E]] entry_stored_cong [OF only_caches_stored(1) [of s t E]]
        unfolding revision_stored_def objects by simp
      then show ?thesis
        using out t True sound objects by (auto simp: only_caches_def dict_get_set)
    qed
  qed
  then show "caches_sound E s'" "st_objects s' = st_objects s"
    and "\<And>w k. (w, k) \<noteq> (ws, se_checksum E (se_json E m)) \<Longrightarrow> dict_get (st_manifests s') (w, k) = dict_get (st_manifests s) (w, k)"
    and "st_manifests s' = st_manifests s
      \<or> map_option sf_content (dict_get (st_manifests s') (ws, se_checksum E (se_json E m))) = Some (se_json E m)"
    and "r = Inr k \<Longrightarrow> revision_stored E s' ws m \<and> valid_manifest m \<and> workspace_ok ws \<and> k = se_checksum E (se_json E m)
      \<and> map_option sf_content (dict_get (st_manifests s') (ws, k)) = Some (se_json E m)"
    by blast+
qed

text \<open>What a process and the outside do to a store; a damaged file is removed or has other bytes.\<close>

datatype store_event = Put_blob string string bytes | Get_blob string string | Has_blob string string
  | Put_manifest string manifest | Collect_garbage string "string list"
  | Damage_object string string "bytes option" | Damage_manifest string string "bytes option"

definition damage :: "string \<times> string \<Rightarrow> bytes option \<Rightarrow> nat \<Rightarrow> (string \<times> string, store_file) dict \<Rightarrow> (string \<times> string, store_file) dict" where
  "damage k b n d = (case b of None \<Rightarrow> dict_pop k d | Some c \<Rightarrow> dict_set k \<lparr>sf_content = c, sf_stamp = n\<rparr> d)"

fun store_do :: "store_env \<Rightarrow> store_event \<Rightarrow> project_store \<Rightarrow> project_store" where
  "store_do E (Put_blob ws d c) s = snd (put_blob E ws d c s)"
| "store_do E (Get_blob ws d) s = snd (get_blob E ws d s)"
| "store_do E (Has_blob ws d) s = snd (has_blob E ws d s)"
| "store_do E (Put_manifest ws m) s = snd (put_manifest E ws m s)"
| "store_do E (Collect_garbage ws rs) s = snd (collect E ws rs s)"
| "store_do E (Damage_object ws d b) s = s\<lparr>st_objects := damage (ws, d) b (st_stamp s) (st_objects s), st_stamp := st_stamp s + 1\<rparr>"
| "store_do E (Damage_manifest ws d b) s = s\<lparr>st_manifests := damage (ws, d) b (st_stamp s) (st_manifests s), st_stamp := st_stamp s + 1\<rparr>"

lemma damage_get: "dict_get (damage k b n d) j = (if j = k then map_option (\<lambda>c. \<lparr>sf_content = c, sf_stamp = n\<rparr>) b else dict_get d j)"
  by (cases b) (simp_all add: damage_def dict_get_set dict_get_pop)

lemma put_blob_facts:
  assumes "caches_sound E s"
  shows "caches_sound E (snd (put_blob E ws d c s))" "st_manifests (snd (put_blob E ws d c s)) = st_manifests s"
    and "st_objects (snd (put_blob E ws d c s)) = st_objects s
      \<or> se_checksum E c = d \<and> st_objects (snd (put_blob E ws d c s)) = dict_set (ws, d) \<lparr>sf_content = c, sf_stamp = st_stamp s\<rparr> (st_objects s)"
proof -
  let ?f = "\<lparr>sf_content = c, sf_stamp = st_stamp s\<rparr>" and ?w = "write_object ws d c s"
  have w: "caches_sound E ?w"
    by (rule caches_change [OF assms]) (auto simp: write_object_def dict_get_set split: if_splits)
  have "caches_sound E (?w\<lparr>st_verified_blobs := dict_set (ws, d) (file_signature ?f) (st_verified_blobs ?w)\<rparr>)"
    if "se_checksum E c = d"
    by (rule note_blob [OF w]) (use that in \<open>simp_all add: write_object_def dict_get_set\<close>)
  then show "caches_sound E (snd (put_blob E ws d c s))"
    using assms by (simp add: put_blob_def Let_def write_object_def file_signature_def)
  show "st_manifests (snd (put_blob E ws d c s)) = st_manifests s"
    by (simp add: put_blob_def Let_def write_object_def)
  show "st_objects (snd (put_blob E ws d c s)) = st_objects s
      \<or> se_checksum E c = d \<and> st_objects (snd (put_blob E ws d c s)) = dict_set (ws, d) ?f (st_objects s)"
    by (simp add: put_blob_def Let_def write_object_def)
qed

text \<open>What \<open>collect\<close> leaves.\<close>

lemma collect_facts:
  assumes "collect E ws rs s = (r, s')"
  shows "r = Some e \<Longrightarrow> s' = s"
    and "r = None \<Longrightarrow> \<exists>ds. referenced_by E ws s rs = Inr ds \<and> workspace_ok ws
      \<and> (\<forall>w d. dict_get (st_objects s') (w, d) = (if w = ws \<and> d \<notin> set ds then None else dict_get (st_objects s) (w, d)))
      \<and> (\<forall>w k. dict_get (st_manifests s') (w, k) = (if w = ws \<and> k \<notin> set rs then None else dict_get (st_manifests s) (w, k)))"
proof -
  show "r = Some e \<Longrightarrow> s' = s"
    using assms by (auto simp: collect_def Let_def split: sum.splits if_splits)
  assume "r = None"
  then obtain ds where ds: "referenced_by E ws s rs = Inr ds" "workspace_ok ws"
    and objects: "st_objects s' = filter (\<lambda>(k, f). fst k \<noteq> ws \<or> snd k \<in> set ds) (st_objects s)"
    and manifests: "st_manifests s' = filter (\<lambda>(k, f). fst k \<noteq> ws \<or> snd k \<in> set rs) (st_manifests s)"
    using assms by (auto simp: collect_def Let_def comp_def case_prod_unfold split: sum.splits if_splits)
  have "dict_get (st_objects s') (w, d) = (if w = ws \<and> d \<notin> set ds then None else dict_get (st_objects s) (w, d))" for w d
    unfolding objects dict_get_filter by simp
  moreover have "dict_get (st_manifests s') (w, k) = (if w = ws \<and> k \<notin> set rs then None else dict_get (st_manifests s) (w, k))" for w k
    unfolding manifests dict_get_filter by simp
  ultimately show "\<exists>ds. referenced_by E ws s rs = Inr ds \<and> workspace_ok ws
      \<and> (\<forall>w d. dict_get (st_objects s') (w, d) = (if w = ws \<and> d \<notin> set ds then None else dict_get (st_objects s) (w, d)))
      \<and> (\<forall>w k. dict_get (st_manifests s') (w, k) = (if w = ws \<and> k \<notin> set rs then None else dict_get (st_manifests s) (w, k)))"
    using ds by blast
qed

lemma collect_sound:
  assumes "caches_sound E s"
  shows "caches_sound E (snd (collect E ws rs s))"
proof -
  obtain r s' where c: "collect E ws rs s = (r, s')" by fastforce
  show ?thesis
  proof (cases r)
    case None
    then obtain P where blobs: "st_verified_blobs s' = filter (\<lambda>(k, v). P k) (st_verified_blobs s)"
      and files: "set (st_verified_files s') \<subseteq> set (st_verified_files s)" "st_stamp s' = st_stamp s"
      using c by (auto simp: collect_def Let_def split: sum.splits if_splits)
    have "dict_get (st_objects s) (w, d) = Some f" if "dict_get (st_objects s') (w, d) = Some f" for w d f
      using that collect_facts(2) [OF c None] by (auto split: if_splits)
    then have "caches_sound E s'"
      by (intro caches_change [OF assms]) (use blobs files in \<open>auto simp: dict_get_filter split: if_splits\<close>)
    then show ?thesis using c by simp
  next
    case (Some e)
    then show ?thesis using assms c collect_facts(1) [OF c Some] by simp
  qed
qed

lemma store_do_sound: "caches_sound E s \<Longrightarrow> caches_sound E (store_do E x s)"
proof (cases x)
  case (Damage_object ws d b)
  assume s: "caches_sound E s"
  show ?thesis unfolding Damage_object store_do.simps
    by (rule caches_change [OF s]) (auto simp: damage_get split: if_splits)
next
  case (Damage_manifest ws d b)
  assume s: "caches_sound E s"
  show ?thesis unfolding Damage_manifest store_do.simps
    by (rule caches_change [OF s]) auto
next
  case (Put_manifest ws m)
  assume "caches_sound E s"
  then show ?thesis using put_manifest_facts(1) [of E ws m s] Put_manifest by (metis store_do.simps(4) prod.collapse)
next
  case (Get_blob ws d)
  assume "caches_sound E s"
  then show ?thesis using get_blob_facts [of E ws d s] Get_blob by (metis store_do.simps(2) prod.collapse)
next
  case (Has_blob ws d)
  assume "caches_sound E s"
  then show ?thesis using has_blob_facts [of E ws d s] Has_blob by (metis store_do.simps(3) prod.collapse)
qed (simp_all add: put_blob_facts collect_sound)

lemma history_sound: "caches_sound E s \<Longrightarrow> caches_sound E (fold (store_do E) xs s)"
  by (induction xs arbitrary: s) (simp_all add: store_do_sound)

lemma empty_sound: "caches_sound E empty_store"
  by (simp add: caches_sound_def empty_store_def)

text \<open>
  C15: A revision is saved only when all of it is there. Whatever was stored, read, collected, removed or altered
  before, and whatever the caches remember of it: if a manifest is accepted, then every chunk of every file is
  stored with its checksum and its size, the chunks together have the checksum of the file, and the manifest is
  stored under the checksum that is returned.
\<close>

theorem saved_revision_is_complete:
  assumes "put_manifest E ws m (fold (store_do E) xs empty_store) = (Inr r, s)"
  shows "revision_stored E s ws m \<and> valid_manifest m \<and> r = se_checksum E (se_json E m)
    \<and> map_option sf_content (dict_get (st_manifests s) (ws, r)) = Some (se_json E m)"
  using put_manifest_facts(5) [OF assms history_sound [OF empty_sound]] by blast

section \<open>Saved revisions survive\<close>

text \<open>JSON objects have no order, so a manifest may come back with its entries in another one.\<close>

definition same_manifest :: "manifest \<Rightarrow> manifest \<Rightarrow> bool" where
  "same_manifest m m' \<longleftrightarrow> mf_version m = mf_version m' \<and> is_dict (mf_entries m) \<and> is_dict (mf_entries m')
     \<and> set (mf_entries m) = set (mf_entries m')"

definition json_returns :: "store_env \<Rightarrow> manifest \<Rightarrow> bool" where
  "json_returns E m \<longleftrightarrow> (\<exists>m'. se_parse E (se_json E m) = Some m' \<and> same_manifest m m')"

lemma same_manifest_get: "same_manifest m m' \<Longrightarrow> dict_get (mf_entries m') n = dict_get (mf_entries m) n"
proof -
  assume m: "same_manifest m m'"
  then have "dict_get (mf_entries m') n = Some e \<longleftrightarrow> dict_get (mf_entries m) n = Some e" for e
    using dict_in_get [of "mf_entries m" n e] dict_in_get [of "mf_entries m'" n e] by (auto simp: same_manifest_def)
  then show ?thesis by (metis not_None_eq)
qed

lemma same_manifest_facts:
  assumes "same_manifest m m'"
  shows "valid_manifest m' = valid_manifest m" "set (chunks_of m') = set (chunks_of m)"
    "revision_stored E s ws m' = revision_stored E s ws m"
  using assms same_manifest_get [OF assms]
  by (simp_all add: valid_manifest_def chunks_of_def revision_stored_def same_manifest_def list_all_iff)

definition object_content :: "project_store \<Rightarrow> string \<Rightarrow> string \<Rightarrow> bytes option" where
  "object_content s ws d = map_option sf_content (dict_get (st_objects s) (ws, d))"

definition manifest_content :: "project_store \<Rightarrow> string \<Rightarrow> string \<Rightarrow> bytes option" where
  "manifest_content s ws r = map_option sf_content (dict_get (st_manifests s) (ws, r))"

definition stored_contents :: "project_store \<Rightarrow> bytes set" where
  "stored_contents s = sf_content ` snd ` (set (st_objects s) \<union> set (st_manifests s))"

fun new_contents :: "store_env \<Rightarrow> store_event \<Rightarrow> bytes set" where
  "new_contents E (Put_blob ws d c) = {c}"
| "new_contents E (Put_manifest ws m) = {se_json E m}"
| "new_contents E x = {}"

text \<open>Events that keep the revision \<open>r\<close> of a workspace: collections that retain it, and no damage.\<close>

fun spares :: "string \<Rightarrow> string \<Rightarrow> store_event \<Rightarrow> bool" where
  "spares ws r (Collect_garbage w rs) = (w = ws \<longrightarrow> r \<in> set rs)"
| "spares ws r (Damage_object w d b) = (w \<noteq> ws)"
| "spares ws r (Damage_manifest w k b) = (w \<noteq> ws)"
| "spares ws r x = True"

text \<open>The revision is there, with the contents of \<open>f\<close>, which are among \<open>S\<close>.\<close>

definition kept_revision :: "store_env \<Rightarrow> bytes set \<Rightarrow> string \<Rightarrow> string \<Rightarrow> manifest \<Rightarrow> (string \<Rightarrow> bytes) \<Rightarrow> project_store \<Rightarrow> bool" where
  "kept_revision E S ws r m f s \<longleftrightarrow> caches_sound E s \<and> manifest_content s ws r = Some (se_json E m) \<and> se_json E m \<in> S
     \<and> se_checksum E (se_json E m) = r
     \<and> (\<forall>d \<in> set (chunks_of m). object_content s ws d = Some (f d) \<and> f d \<in> S \<and> se_checksum E (f d) = d)"

lemma held_frame:
  assumes "kept_revision E S ws r m f s" "caches_sound E s'"
    and "\<And>d. d \<in> set (chunks_of m) \<Longrightarrow> object_content s' ws d = object_content s ws d"
    and "manifest_content s' ws r = manifest_content s ws r"
  shows "kept_revision E S ws r m f s'"
  using assms by (simp add: kept_revision_def)

lemma held_manifest:
  assumes "kept_revision E S ws r m f s" "json_returns E m" "valid_manifest m" "workspace_ok ws" "valid_key r"
  shows "\<exists>m'. get_manifest E ws r s = Inr m' \<and> same_manifest m m'"
proof -
  obtain m' where m': "se_parse E (se_json E m) = Some m'" "same_manifest m m'" using assms(2) by (auto simp: json_returns_def)
  obtain g where "dict_get (st_manifests s) (ws, r) = Some g" "sf_content g = se_json E m"
    using assms(1) by (auto simp: kept_revision_def manifest_content_def)
  then show ?thesis
    using assms m' same_manifest_facts(1) [OF m'(2)] by (auto simp: get_manifest_def kept_revision_def)
qed

lemma referenced_in: "referenced_by E ws s rs = Inr ds \<Longrightarrow> r \<in> set rs \<Longrightarrow> get_manifest E ws r s = Inr m \<Longrightarrow> set (chunks_of m) \<subseteq> set ds"
  by (induction rs arbitrary: ds) (auto split: sum.splits)

lemma held_step:
  assumes held: "kept_revision E S ws r m f s" and x: "spares ws r x" "new_contents E x \<subseteq> S"
    and inj: "inj_on (se_checksum E) S" and m: "json_returns E m" "valid_manifest m" "workspace_ok ws" "valid_key r"
  shows "kept_revision E S ws r m f (store_do E x s)"
proof (rule held_frame [OF held])
  have sound: "caches_sound E s" using held by (simp add: kept_revision_def)
  show "caches_sound E (store_do E x s)" by (rule store_do_sound [OF sound])
  obtain m' where m': "get_manifest E ws r s = Inr m'" "same_manifest m m'" using held_manifest [OF held m] by blast
  have collected: "set (chunks_of m) \<subseteq> set ds" if "referenced_by E ws s rs = Inr ds" "r \<in> set rs" for rs ds
    using referenced_in [OF that m'(1)] same_manifest_facts(2) [OF m'(2)] by simp
  show "object_content (store_do E x s) ws d = object_content s ws d" if d: "d \<in> set (chunks_of m)" for d
  proof (cases x)
    case (Put_blob w e c)
    have "c = f d" if "se_checksum E c = d"
      using inj_onD [OF inj, of c "f d"] that d held x(2) Put_blob by (simp add: kept_revision_def)
    moreover have "map_option sf_content (dict_get (st_objects s) (ws, d)) = Some (f d)"
      using d held by (simp add: kept_revision_def object_content_def)
    ultimately show ?thesis
      using put_blob_facts(3) [OF sound, of w e c] Put_blob
      by (cases "(ws, d) = (w, e)") (auto simp: object_content_def dict_get_set)
  next
    case (Get_blob w e)
    then show ?thesis using get_blob_facts [of E w e s] sound by (cases "get_blob E w e s") (simp add: object_content_def only_caches_def)
  next
    case (Has_blob w e)
    then show ?thesis using has_blob_facts [of E w e s] sound by (cases "has_blob E w e s") (simp add: object_content_def only_caches_def)
  next
    case (Put_manifest w q)
    then show ?thesis using put_manifest_facts(2) [of E w q s] sound by (cases "put_manifest E w q s") (simp add: object_content_def)
  next
    case (Collect_garbage w rs)
    obtain q s' where c: "collect E w rs s = (q, s')" by fastforce
    show ?thesis
    proof (cases q)
      case None
      then obtain ds where ds: "referenced_by E w s rs = Inr ds"
          "dict_get (st_objects s') (ws, d) = (if ws = w \<and> d \<notin> set ds then None else dict_get (st_objects s) (ws, d))"
        using collect_facts(2) [OF c None] by blast
      have "ws = w \<longrightarrow> d \<in> set ds" using collected ds(1) x(1) d Collect_garbage by auto
      then have "dict_get (st_objects s') (ws, d) = dict_get (st_objects s) (ws, d)" using ds(2) by auto
      then show ?thesis using Collect_garbage c by (simp add: object_content_def)
    next
      case (Some e)
      then show ?thesis using collect_facts(1) [OF c Some] Collect_garbage c by simp
    qed
  qed (use x(1) in \<open>simp_all add: object_content_def damage_get\<close>)
  show "manifest_content (store_do E x s) ws r = manifest_content s ws r"
  proof (cases x)
    case (Put_blob w e c)
    then show ?thesis using put_blob_facts(2) [OF sound, of w e c] by (simp add: manifest_content_def)
  next
    case (Get_blob w e)
    then show ?thesis using get_blob_facts [of E w e s] sound by (cases "get_blob E w e s") (simp add: manifest_content_def only_caches_def)
  next
    case (Has_blob w e)
    then show ?thesis using has_blob_facts [of E w e s] sound by (cases "has_blob E w e s") (simp add: manifest_content_def only_caches_def)
  next
    case (Put_manifest w q)
    obtain z s' where p: "put_manifest E w q s = (z, s')" by fastforce
    have "se_json E q = se_json E m" if "se_checksum E (se_json E q) = r"
      using inj_onD [OF inj, of "se_json E q" "se_json E m"] that held x(2) Put_manifest by (simp add: kept_revision_def)
    moreover have now: "manifest_content s ws r = Some (se_json E m)" using held by (simp add: kept_revision_def)
    ultimately have "manifest_content s' ws r = manifest_content s ws r"
    proof (cases "(ws, r) = (w, se_checksum E (se_json E q))")
      case True
      then show ?thesis
        using put_manifest_facts(4) [OF p sound] now \<open>se_checksum E (se_json E q) = r \<Longrightarrow> se_json E q = se_json E m\<close>
        unfolding manifest_content_def by auto
    next
      case False
      show ?thesis unfolding manifest_content_def put_manifest_facts(3) [OF p sound False] ..
    qed
    then show ?thesis using Put_manifest p by simp
  next
    case (Collect_garbage w rs)
    obtain q s' where c: "collect E w rs s = (q, s')" by fastforce
    show ?thesis
    proof (cases q)
      case None
      then show ?thesis using collect_facts(2) [OF c None] x(1) Collect_garbage c by (auto simp: manifest_content_def)
    next
      case (Some e)
      then show ?thesis using collect_facts(1) [OF c Some] Collect_garbage c by simp
    qed
  qed (use x(1) in \<open>simp_all add: manifest_content_def damage_get\<close>)
qed

lemma held_history:
  assumes "kept_revision E S ws r m f s" "\<forall>x \<in> set xs. spares ws r x \<and> new_contents E x \<subseteq> S"
    and "inj_on (se_checksum E) S" "json_returns E m" "valid_manifest m" "workspace_ok ws" "valid_key r"
  shows "kept_revision E S ws r m f (fold (store_do E) xs s)"
  using assms(1,2)
proof (induction xs arbitrary: s)
  case (Cons x xs)
  then have "kept_revision E S ws r m f (store_do E x s)" by (intro held_step [OF _ _ _ assms(3-7)]) auto
  then show ?case using Cons.IH [of "store_do E x s"] Cons.prems(2) by simp
qed simp

lemma saved_held:
  assumes "revision_stored E s ws m" "caches_sound E s" "manifest_content s ws r = Some (se_json E m)"
    and "se_checksum E (se_json E m) = r" "stored_contents s \<subseteq> S"
  shows "kept_revision E S ws r m (\<lambda>d. the (object_content s ws d)) s"
proof -
  have "\<exists>b. object_content s ws d = Some b \<and> se_checksum E b = d" if d: "d \<in> set (chunks_of m)" for d
  proof -
    obtain n e c where e: "(n, e) \<in> set (mf_entries m)" "c \<in> set (file_chunks e)" "fst c = d"
      using d by (auto simp: chunks_of_def)
    then obtain x len cs where x: "e = Raw_file x len cs" by (cases e) auto
    then have "file_stored E s ws x (file_chunks e)" using assms(1) e(1) by (auto simp: revision_stored_def list_all_iff)
    then obtain bs where "list_all2 (chunk_stored E s ws) (file_chunks e) bs" by (auto simp: file_stored_def)
    then show ?thesis using e(2,3) by (force simp: list_all2_conv_all_nth in_set_conv_nth chunk_stored_def object_content_def)
  qed
  moreover have "b \<in> S" if "object_content s ws d = Some b" for d b
    using that assms(5) by (force simp: object_content_def stored_contents_def dest: dict_get_in)
  moreover have "se_json E m \<in> S"
    using assms(3,5) by (force simp: manifest_content_def stored_contents_def dest: dict_get_in)
  ultimately show ?thesis
    using assms(2-4) unfolding kept_revision_def by (metis option.sel)
qed

lemma read_stored:
  "list_all2 (chunk_stored E s ws) cs bs \<Longrightarrow> workspace_ok ws \<Longrightarrow> list_all (\<lambda>c. valid_key (fst c)) cs
     \<Longrightarrow> fst (read_chunks E ws cs s) = Inr (concat bs)"
proof (induction cs arbitrary: s bs)
  case (Cons c cs)
  obtain d n where c: "c = (d, n)" by fastforce
  obtain b bs' where bs: "bs = b # bs'" "chunk_stored E s ws c b" "list_all2 (chunk_stored E s ws) cs bs'"
    using Cons.prems(1) by (auto simp: list_all2_Cons1)
  obtain g where g: "dict_get (st_objects s) (ws, d) = Some g" "sf_content g = b" "se_checksum E b = d" "int (length b) = n"
    using bs(2) by (auto simp: chunk_stored_def c)
  define t where "t = snd (get_blob E ws d s)"
  have get: "get_blob E ws d s = (Inr b, t)" and t: "st_objects t = st_objects s"
    using g Cons.prems(2,3) by (auto simp: get_blob_def blob_key_def t_def c)
  have "fst (read_chunks E ws cs t) = Inr (concat bs')"
    using Cons.IH [of t bs'] bs(3) same_objects(3) [OF t] Cons.prems(2,3) by simp
  then show ?case using get g(4) bs(1) by (cases "read_chunks E ws cs t") (simp add: c)
qed simp

definition restorable :: "store_env \<Rightarrow> project_store \<Rightarrow> string \<Rightarrow> string \<Rightarrow> manifest \<Rightarrow> bool" where
  "restorable E s ws r m \<longleftrightarrow>
     (\<exists>m'. get_manifest E ws r s = Inr m' \<and> same_manifest m m'
        \<and> (\<forall>n d len cs. dict_get (mf_entries m') n = Some (Raw_file d len cs) \<longrightarrow>
             (\<exists>b. fst (read_chunks E ws (file_chunks (Raw_file d len cs)) s) = Inr b \<and> se_checksum E b = d \<and> int (length b) = len)))"

lemma held_restorable:
  assumes held: "kept_revision E S ws r m f s" and first: "kept_revision E S ws r m f s0" and stored: "revision_stored E s0 ws m"
    and m: "json_returns E m" "valid_manifest m" "workspace_ok ws" "valid_key r"
  shows "restorable E s ws r m"
proof -
  obtain m' where m': "get_manifest E ws r s = Inr m'" "same_manifest m m'" using held_manifest [OF held m] by blast
  have "\<exists>b. fst (read_chunks E ws (file_chunks e) s) = Inr b \<and> se_checksum E b = d \<and> int (length b) = len"
    if n: "dict_get (mf_entries m') n = Some e" and e: "e = Raw_file d len cs" for n e d len cs
  proof -
    have entry: "(n, e) \<in> set (mf_entries m)" using dict_get_in [OF n] m'(2) by (simp add: same_manifest_def)
    then have valid: "valid_entry n e" using m(2) by (auto simp: valid_manifest_def list_all_iff)
    have "file_stored E s0 ws d (file_chunks e)" using stored entry e by (auto simp: revision_stored_def list_all_iff)
    moreover have "file_stored E s ws d (file_chunks e) = file_stored E s0 ws d (file_chunks e)"
    proof (rule stored_cong)
      fix c assume "c \<in> set (file_chunks e)"
      then have "fst c \<in> set (chunks_of m)" using entry by (force simp: chunks_of_def)
      then have "object_content s ws (fst c) = object_content s0 ws (fst c)" using held first by (simp add: kept_revision_def)
      then show "map_option sf_content (dict_get (st_objects s) (ws, fst c)) = map_option sf_content (dict_get (st_objects s0) (ws, fst c))"
        by (simp add: object_content_def)
    qed
    ultimately obtain bs where bs: "list_all2 (chunk_stored E s ws) (file_chunks e) bs" "se_checksum E (concat bs) = d"
      by (auto simp: file_stored_def)
    have "int (length (concat bs)) = sum_list (map snd (file_chunks e))"
      using bs(1) by (induction rule: list_all2_induct) (auto simp: chunk_stored_def)
    moreover have "list_all (\<lambda>c. valid_key (fst c)) (file_chunks e)" using valid e by (auto simp: list_all_iff)
    ultimately show ?thesis
      using read_stored [OF bs(1) m(3)] bs(2) valid e by simp
  qed
  then show ?thesis using m' by (auto simp: restorable_def)
qed

text \<open>
  C14: A saved revision stays restorable. After it was accepted, whatever else is stored, read or saved, in any
  workspace, and whatever collections run that retain it: its manifest is read back with the same entries, and
  the chunks of each of its files give a content of the file's checksum and size. (No two different contents
  have one checksum, the checksums are keys, JSON returns what was written, and nothing outside damages the
  workspace.)
\<close>

theorem saved_revision_survives:
  assumes "put_manifest E ws m (fold (store_do E) xs empty_store) = (Inr r, s)"
    and "\<forall>y \<in> set ys. spares ws r y \<and> new_contents E y \<subseteq> S" "stored_contents s \<subseteq> S" "inj_on (se_checksum E) S"
    and "\<And>b. valid_key (se_checksum E b)" "json_returns E m"
  shows "restorable E (fold (store_do E) ys s) ws r m"
proof -
  have sound: "caches_sound E (fold (store_do E) xs empty_store)" by (rule history_sound [OF empty_sound])
  note put = put_manifest_facts(5) [OF assms(1) sound refl]
  have ok: "valid_manifest m" "workspace_ok ws" "valid_key r" using put assms(5) by simp_all
  have held: "kept_revision E S ws r m (\<lambda>d. the (object_content s ws d)) s"
    by (rule saved_held [OF _ put_manifest_facts(1) [OF assms(1) sound] _ _ assms(3)]) (use put in \<open>auto simp: manifest_content_def\<close>)
  then have "kept_revision E S ws r m (\<lambda>d. the (object_content s ws d)) (fold (store_do E) ys s)"
    by (rule held_history [OF _ assms(2,4,6) ok])
  then show ?thesis
    by (rule held_restorable [OF _ held _ assms(6) ok]) (use put in simp)
qed

section \<open>A small store\<close>

definition demo_sum :: "bytes \<Rightarrow> string" where
  "demo_sum b = replicate 64 (if b = [104] then CHR ''a'' else if b = [1] then CHR ''b'' else CHR ''c'')"

definition demo_saved :: manifest where
  "demo_saved = \<lparr>mf_version = 1, mf_entries = [(''f'', Raw_file (demo_sum [104]) 1 None)]\<rparr>"

definition demo_store_env :: store_env where
  "demo_store_env = \<lparr>se_checksum = demo_sum, se_json = (\<lambda>m. [1]), se_parse = (\<lambda>b. Some demo_saved)\<rparr>"

definition demo_put :: "(store_error + string) \<times> project_store" where
  "demo_put = put_manifest demo_store_env ''7'' demo_saved
     (fold (store_do demo_store_env) [Put_blob ''7'' (demo_sum [9]) [9], Put_blob ''7'' (demo_sum [104]) [104]] empty_store)"

lemma demo_put_eq: "put_manifest demo_store_env ''7'' demo_saved
     (fold (store_do demo_store_env) [Put_blob ''7'' (demo_sum [9]) [9], Put_blob ''7'' (demo_sum [104]) [104]] empty_store)
   = (Inr (demo_sum [1]), snd demo_put)"
proof -
  have "fst demo_put = Inr (demo_sum [1])" by code_simp
  then show ?thesis unfolding demo_put_def by (metis prod.collapse)
qed

theorem saved_revision_is_complete_witness:
  "revision_stored demo_store_env (snd demo_put) ''7'' demo_saved
   \<and> fst (check_file demo_store_env ''7'' (demo_sum [104]) 1 [(demo_sum [104], 1)] (snd demo_put)) = None"
proof
  show "revision_stored demo_store_env (snd demo_put) ''7'' demo_saved"
    using saved_revision_is_complete [OF demo_put_eq] by blast
  show "fst (check_file demo_store_env ''7'' (demo_sum [104]) 1 [(demo_sum [104], 1)] (snd demo_put)) = None"
    by code_simp
qed

text \<open>The collection removes the other object.\<close>

theorem saved_revision_survives_witness:
  "restorable demo_store_env (fold (store_do demo_store_env) [Collect_garbage ''7'' [demo_sum [1]]] (snd demo_put)) ''7'' (demo_sum [1]) demo_saved
   \<and> map fst (st_objects (fold (store_do demo_store_env) [Collect_garbage ''7'' [demo_sum [1]]] (snd demo_put))) = [(''7'', demo_sum [104])]"
proof
  have contents: "map (sf_content \<circ> snd) (st_objects (snd demo_put)) = [[9], [104]]"
    "map (sf_content \<circ> snd) (st_manifests (snd demo_put)) = [[1]]" by code_simp+
  have "stored_contents (snd demo_put) = set (map (sf_content \<circ> snd) (st_objects (snd demo_put)))
      \<union> set (map (sf_content \<circ> snd) (st_manifests (snd demo_put)))"
    by (auto simp: stored_contents_def)
  then have "stored_contents (snd demo_put) \<subseteq> {[9], [104], [1]}" unfolding contents by auto
  moreover have "inj_on (se_checksum demo_store_env) {[9], [104], [1]}" unfolding inj_on_def by code_simp
  moreover have "valid_key (se_checksum demo_store_env b)" for b by (simp add: demo_store_env_def demo_sum_def valid_key_def list_all_iff)
  moreover have "json_returns demo_store_env demo_saved"
    by (simp add: json_returns_def demo_store_env_def same_manifest_def is_dict_def demo_saved_def)
  ultimately show "restorable demo_store_env (fold (store_do demo_store_env) [Collect_garbage ''7'' [demo_sum [1]]] (snd demo_put)) ''7'' (demo_sum [1]) demo_saved"
    by (intro saved_revision_survives [OF demo_put_eq, where S = "{[9], [104], [1]}"]) simp_all
  show "map fst (st_objects (fold (store_do demo_store_env) [Collect_garbage ''7'' [demo_sum [1]]] (snd demo_put))) = [(''7'', demo_sum [104])]"
    by code_simp
qed

end
