(* ===== verification/App_Update.thy ===== *)
theory App_Update
  imports Prelude
begin

text \<open>
  The installer of new releases (\<open>agent/bootstrap/update.py\<close>, \<open>update_state.py\<close>): which release is newer, the
  exchange of the program's directory with its backup and rollback, the processes it stops and starts again, and
  the status that other processes read. Every call that leaves the process may fail, or the process may die in
  it, with or without the effect of the call. A source tree is a value of any type \<open>'v\<close>; \<open>copy_tree\<close>
  keeps a part of it (its ignore patterns). The status and the lock file are on disk; times are exact.
\<close>

section \<open>Versions\<close>

text \<open>\<open>re.match(r"^v?(\d+)(?:\.(\d+))?(?:\.(\d+))?", value.strip())\<close>.\<close>

fun minor_part :: "string \<Rightarrow> nat \<times> string" where
  "minor_part (c # s) =
     (if c = CHR ''.'' \<and> takeWhile is_digit s \<noteq> [] then (digits_nat (takeWhile is_digit s), dropWhile is_digit s) else (0, c # s))"
| "minor_part [] = (0, [])"

definition version_key :: "string \<Rightarrow> (nat \<times> nat \<times> nat) option" where
  "version_key value =
     (let s = strip value; s = (if starts_with ''v'' s then drop 1 s else s) in
      if takeWhile is_digit s = [] then None
      else (let (minor, s') = minor_part (dropWhile is_digit s); (patch, _) = minor_part s' in
            Some (digits_nat (takeWhile is_digit s), minor, patch)))"

definition normalize_version :: "string \<Rightarrow> string" where
  "normalize_version value = (let s = strip value in if starts_with ''v'' (lower_str s) then drop 1 s else s)"

definition key_less :: "nat \<times> nat \<times> nat \<Rightarrow> nat \<times> nat \<times> nat \<Rightarrow> bool" where
  "key_less k l = (case (k, l) of ((a, b, c), (x, y, z)) \<Rightarrow> a < x \<or> a = x \<and> (b < y \<or> b = y \<and> c < z))"

definition is_version_newer :: "string \<Rightarrow> string \<Rightarrow> bool" where
  "is_version_newer latest current =
     (case (version_key latest, version_key current) of
        (Some l, Some c) \<Rightarrow> key_less c l
      | _ \<Rightarrow> normalize_version latest \<noteq> normalize_version current)"

section \<open>The installation\<close>

datatype 'v tree_state = Absent | Partial | Whole 'v

text \<open>A call works, raises or is the last one; the flag says whether its effect happened all the same.\<close>

datatype fate = Works | Raises bool | Dies bool

record 'v update_env =
  ue_kept :: "'v \<Rightarrow> 'v"
  ue_version :: "'v \<Rightarrow> string"
  ue_fate :: "nat \<Rightarrow> fate"

record 'v update_world =
  uw_app :: "'v tree_state"
  uw_backups :: "(nat \<times> 'v tree_state) list"
  uw_synced :: "'v option"
  uw_initialised :: "'v option"
  uw_systemd :: bool
  uw_server :: bool
  uw_tray :: bool
  uw_calls :: nat

definition try_call :: "'v update_env \<Rightarrow> ('v update_world \<Rightarrow> 'v update_world) \<Rightarrow> ('v update_world \<Rightarrow> 'v update_world)
    \<Rightarrow> 'v update_world \<Rightarrow> fate \<times> 'v update_world" where
  "try_call E whole part w =
     (let v = w\<lparr>uw_calls := uw_calls w + 1\<rparr> in
      case ue_fate E (uw_calls w) of
        Works \<Rightarrow> (Works, whole v)
      | Raises b \<Rightarrow> (Raises b, if b then whole v else part v)
      | Dies b \<Rightarrow> (Dies b, if b then whole v else part v))"

text \<open>Calls one after the other, up to the first that does not work.\<close>

definition and_then :: "fate \<times> 'v update_world \<Rightarrow> ('v update_world \<Rightarrow> fate \<times> 'v update_world) \<Rightarrow> fate \<times> 'v update_world" where
  "and_then r f = (case r of (Works, w) \<Rightarrow> f w | (x, w) \<Rightarrow> (x, w))"

definition content_of :: "'v tree_state \<Rightarrow> 'v option" where
  "content_of t = (case t of Whole v \<Rightarrow> Some v | _ \<Rightarrow> None)"

definition stop_systemd_service :: "'v update_env \<Rightarrow> 'v update_world \<Rightarrow> fate \<times> 'v update_world" where
  "stop_systemd_service E = try_call E (\<lambda>w. w\<lparr>uw_systemd := False\<rparr>) id"

definition stop_running_tray :: "'v update_env \<Rightarrow> 'v update_world \<Rightarrow> fate \<times> 'v update_world" where
  "stop_running_tray E = try_call E (\<lambda>w. w\<lparr>uw_tray := False\<rparr>) id"

definition stop_running_server :: "'v update_env \<Rightarrow> 'v update_world \<Rightarrow> fate \<times> 'v update_world" where
  "stop_running_server E = try_call E (\<lambda>w. w\<lparr>uw_server := False\<rparr>) id"

text \<open>\<open>copy_tree\<close> into an empty place, from a directory that may be gone.\<close>

definition copied :: "'v update_env \<Rightarrow> 'v tree_state \<Rightarrow> 'v tree_state" where
  "copied E t = (case t of Whole v \<Rightarrow> Whole (ue_kept E v) | _ \<Rightarrow> Partial)"

definition backup_app_source :: "'v update_env \<Rightarrow> nat \<Rightarrow> 'v update_world \<Rightarrow> fate \<times> 'v update_world" where
  "backup_app_source E b = try_call E (\<lambda>w. w\<lparr>uw_backups := uw_backups w @ [(b, copied E (uw_app w))]\<rparr>)
     (\<lambda>w. w\<lparr>uw_backups := uw_backups w @ [(b, Partial)]\<rparr>)"

definition remove_app :: "'v update_env \<Rightarrow> 'v update_world \<Rightarrow> fate \<times> 'v update_world" where
  "remove_app E = try_call E (\<lambda>w. w\<lparr>uw_app := Absent\<rparr>) (\<lambda>w. w\<lparr>uw_app := Partial\<rparr>)"

definition copy_app :: "'v update_env \<Rightarrow> 'v tree_state \<Rightarrow> 'v update_world \<Rightarrow> fate \<times> 'v update_world" where
  "copy_app E t = try_call E (\<lambda>w. w\<lparr>uw_app := copied E t\<rparr>) (\<lambda>w. w\<lparr>uw_app := Partial\<rparr>)"

definition replace_app_source :: "'v update_env \<Rightarrow> 'v \<Rightarrow> 'v update_world \<Rightarrow> fate \<times> 'v update_world" where
  "replace_app_source E new w = and_then (remove_app E w) (copy_app E (Whole new))"

definition backup_state :: "nat \<Rightarrow> 'v update_world \<Rightarrow> 'v tree_state" where
  "backup_state b w = (case map_of (uw_backups w) b of None \<Rightarrow> Absent | Some t \<Rightarrow> t)"

definition restore_app_source :: "'v update_env \<Rightarrow> nat \<Rightarrow> 'v update_world \<Rightarrow> fate \<times> 'v update_world" where
  "restore_app_source E b w =
     and_then (if uw_app w = Absent then (Works, w) else remove_app E w) (copy_app E (backup_state b w))"

definition sync_app :: "'v update_env \<Rightarrow> 'v update_world \<Rightarrow> fate \<times> 'v update_world" where
  "sync_app E = try_call E (\<lambda>w. w\<lparr>uw_synced := content_of (uw_app w)\<rparr>) (\<lambda>w. w\<lparr>uw_synced := None\<rparr>)"

definition initialize_app :: "'v update_env \<Rightarrow> 'v update_world \<Rightarrow> fate \<times> 'v update_world" where
  "initialize_app E = try_call E (\<lambda>w. w\<lparr>uw_initialised := content_of (uw_app w)\<rparr>) id"

text \<open>\<open>prune_backups\<close> removes every backup but one, or some of them when it fails.\<close>

definition prune_backups :: "'v update_env \<Rightarrow> nat \<Rightarrow> 'v update_world \<Rightarrow> fate \<times> 'v update_world" where
  "prune_backups E keep = try_call E (\<lambda>w. w\<lparr>uw_backups := filter (\<lambda>(b, t). b = keep) (uw_backups w)\<rparr>)
     (\<lambda>w. w\<lparr>uw_backups := map (\<lambda>(b, t). if b = keep then (b, t) else (b, Partial)) (uw_backups w)\<rparr>)"

text \<open>
  A process that is started goes on running if the source it runs is whole and its environment was built;
  otherwise it ends at once, which the call that started it does not notice.
\<close>

definition runnable :: "'v update_world \<Rightarrow> bool" where
  "runnable w = (content_of (uw_app w) \<noteq> None \<and> uw_synced w \<noteq> None)"

definition start_server :: "'v update_env \<Rightarrow> 'v update_world \<Rightarrow> fate \<times> 'v update_world" where
  "start_server E = try_call E (\<lambda>w. w\<lparr>uw_server := uw_server w \<or> runnable w\<rparr>) id"

definition start_tray :: "'v update_env \<Rightarrow> 'v update_world \<Rightarrow> fate \<times> 'v update_world" where
  "start_tray E = try_call E (\<lambda>w. w\<lparr>uw_tray := True\<rparr>) id"

definition restart_systemd_service :: "'v update_env \<Rightarrow> 'v update_world \<Rightarrow> fate \<times> 'v update_world" where
  "restart_systemd_service E = try_call E (\<lambda>w. w\<lparr>uw_systemd := runnable w\<rparr>) id"

text \<open>A failure that is only reported; dying is not.\<close>

definition tolerated :: "fate \<times> 'v update_world \<Rightarrow> fate \<times> 'v update_world" where
  "tolerated r = (case r of (Raises b, w) \<Rightarrow> (Works, w) | _ \<Rightarrow> r)"

definition only_if :: "bool \<Rightarrow> ('v update_world \<Rightarrow> fate \<times> 'v update_world) \<Rightarrow> 'v update_world \<Rightarrow> fate \<times> 'v update_world" where
  "only_if c f w = (if c then f w else (Works, w))"

text \<open>The service comes back by itself, or the server is started directly; refreshing its unit file is left out.\<close>

definition restart_service :: "'v update_env \<Rightarrow> 'v update_world \<Rightarrow> fate \<times> 'v update_world" where
  "restart_service E w =
     (case restart_systemd_service E w of
        (Raises b, w) \<Rightarrow> start_server E w
      | r \<Rightarrow> r)"

section \<open>The exchange\<close>

datatype update_end = Updated | Update_failed bool | Start_failed | Died

text \<open>Up to the new source, before which the old one is untouched; \<open>b\<close> is the name of the backup.\<close>

definition stop_everything :: "'v update_env \<Rightarrow> bool \<Rightarrow> bool \<Rightarrow> 'v update_world \<Rightarrow> fate \<times> 'v update_world" where
  "stop_everything E server tray w =
     and_then (only_if tray (stop_running_tray E) w) (only_if server (stop_running_server E))"

definition install_source :: "'v update_env \<Rightarrow> 'v \<Rightarrow> 'v update_world \<Rightarrow> fate \<times> 'v update_world" where
  "install_source E new w = and_then (and_then (replace_app_source E new w) (sync_app E)) (initialize_app E)"

text \<open>The first calls of the \<open>except\<close> block, and whether the rollback failed.\<close>

definition roll_back :: "'v update_env \<Rightarrow> nat option \<Rightarrow> 'v update_world \<Rightarrow> (fate \<times> bool) \<times> 'v update_world" where
  "roll_back E backup w =
     (case backup of
        None \<Rightarrow> ((Works, False), w)
      | Some b \<Rightarrow>
          (case and_then (restore_app_source E b w) (sync_app E) of
             (Dies x, w) \<Rightarrow> ((Dies x, False), w)
           | (r, w) \<Rightarrow> (case tolerated (prune_backups E b w) of (q, w) \<Rightarrow> ((q, r \<noteq> Works), w))))"

definition restart_after_failure :: "'v update_env \<Rightarrow> bool \<Rightarrow> bool \<Rightarrow> bool \<Rightarrow> 'v update_world \<Rightarrow> fate \<times> 'v update_world" where
  "restart_after_failure E systemd_stopped server tray w =
     and_then (if systemd_stopped then restart_service E w else only_if (server \<and> \<not> uw_server w) (start_server E) w)
       (\<lambda>w. only_if (tray \<and> \<not> uw_tray w) (\<lambda>w. tolerated (start_tray E w)) w)"

definition fail_update :: "'v update_env \<Rightarrow> nat option \<Rightarrow> bool \<Rightarrow> bool \<Rightarrow> bool \<Rightarrow> 'v update_world \<Rightarrow> update_end \<times> 'v update_world" where
  "fail_update E backup systemd_stopped server tray w =
     (case roll_back E backup w of
        ((Dies x, _), w) \<Rightarrow> (Died, w)
      | ((_, failed), w) \<Rightarrow>
          (case restart_after_failure E systemd_stopped server tray w of
             (Works, w) \<Rightarrow> (Update_failed failed, w)
           | (Raises x, w) \<Rightarrow> (Start_failed, w)
           | (Dies x, w) \<Rightarrow> (Died, w)))"

definition finish_update :: "'v update_env \<Rightarrow> nat \<Rightarrow> bool \<Rightarrow> bool \<Rightarrow> bool \<Rightarrow> 'v update_world \<Rightarrow> update_end \<times> 'v update_world" where
  "finish_update E b systemd server tray w =
     (case and_then
         (and_then (if systemd then restart_service E w else only_if server (start_server E) w)
            (\<lambda>w. only_if (tray \<and> \<not> uw_tray w) (\<lambda>w. tolerated (start_tray E w)) w))
         (\<lambda>w. tolerated (prune_backups E b w)) of
        (Works, w) \<Rightarrow> (Updated, w)
      | (Raises x, w) \<Rightarrow> (Start_failed, w)
      | (Dies x, w) \<Rightarrow> (Died, w))"

text \<open>\<open>_run_update\<close> from the first stop on; a running service is asked first, and a server beside it is stopped too.\<close>

definition exchange_app :: "'v update_env \<Rightarrow> nat \<Rightarrow> 'v \<Rightarrow> 'v update_world \<Rightarrow> update_end \<times> 'v update_world" where
  "exchange_app E b new w =
     (let systemd = uw_systemd w; server = (uw_server w \<and> \<not> systemd); tray = uw_tray w in
      case only_if systemd (stop_systemd_service E) w of
        (Dies x, w) \<Rightarrow> (Died, w)
      | (Raises x, w) \<Rightarrow> fail_update E None False server tray w
      | (Works, w) \<Rightarrow>
          (case and_then (stop_everything E (uw_server w) tray w) (backup_app_source E b) of
             (Dies x, w) \<Rightarrow> (Died, w)
           | (Raises x, w) \<Rightarrow> fail_update E None systemd server tray w
           | (Works, w) \<Rightarrow>
               (case install_source E new w of
                  (Dies x, w) \<Rightarrow> (Died, w)
                | (Raises x, w) \<Rightarrow> fail_update E (Some b) systemd server tray w
                | (Works, w) \<Rightarrow> finish_update E b systemd server tray w)))"

section \<open>What each stretch of calls keeps\<close>

named_theorems update_steps \<open>the single calls of the installer, unfolded\<close>

lemmas update_calls [update_steps] =
  try_call_def stop_systemd_service_def stop_running_tray_def stop_running_server_def remove_app_def copy_app_def
  sync_app_def initialize_app_def start_server_def start_tray_def restart_systemd_service_def only_if_def
  and_then_def tolerated_def backup_state_def runnable_def Let_def

text \<open>Whether the program serves, by its service or by a server started directly.\<close>

definition serving :: "'v update_world \<Rightarrow> bool" where
  "serving w = (uw_systemd w \<or> uw_server w)"

text \<open>Only the installed files and the environment differ.\<close>

definition same_outside :: "'v update_world \<Rightarrow> 'v update_world \<Rightarrow> bool" where
  "same_outside w v = (uw_backups v = uw_backups w \<and> uw_systemd v = uw_systemd w \<and> uw_server v = uw_server w \<and> uw_tray v = uw_tray w)"

text \<open>Only running processes differ.\<close>

definition same_files :: "'v update_world \<Rightarrow> 'v update_world \<Rightarrow> bool" where
  "same_files w v = (uw_backups v = uw_backups w \<and> uw_app v = uw_app w \<and> uw_synced v = uw_synced w \<and> uw_initialised v = uw_initialised w)"

lemma same_files_trans: "same_files u v \<Longrightarrow> same_files v w \<Longrightarrow> same_files u w"
  by (simp add: same_files_def)


lemma same_files_saved: "same_files w v \<Longrightarrow> backup_state b v = backup_state b w"
  by (simp add: same_files_def backup_state_def)

lemma same_outside_saved: "same_outside w v \<Longrightarrow> backup_state b v = backup_state b w"
  by (simp add: same_outside_def backup_state_def)

lemma and_then_outside:
  assumes "same_outside w (snd r)" and "\<And>v. same_outside w v \<Longrightarrow> same_outside w (snd (f v))"
  shows "same_outside w (snd (and_then r f))"
  using assms by (cases r) (auto simp: and_then_def split: fate.splits)

lemma perform_outside:
  assumes "\<And>v. same_outside v (whole v)" and "\<And>v. same_outside v (part v)"
  shows "same_outside w (snd (try_call E whole part w))"
  using assms(1) [of "w\<lparr>uw_calls := uw_calls w + 1\<rparr>"] assms(2) [of "w\<lparr>uw_calls := uw_calls w + 1\<rparr>"]
  by (auto simp: try_call_def same_outside_def Let_def split: fate.splits)

lemma calls_outside:
  "same_outside w (snd (remove_app E w))" "same_outside w (snd (copy_app E t w))"
  "same_outside w (snd (sync_app E w))" "same_outside w (snd (initialize_app E w))"
  unfolding remove_app_def copy_app_def sync_app_def initialize_app_def
  by (rule perform_outside; simp add: same_outside_def)+

lemma same_outside_trans: "same_outside u v \<Longrightarrow> same_outside v w \<Longrightarrow> same_outside u w"
  by (simp add: same_outside_def)

lemma install_outside: "same_outside w (snd (install_source E new w))"
  unfolding install_source_def replace_app_source_def
  by (intro and_then_outside) (blast intro: calls_outside same_outside_trans)+

lemma restore_outside: "same_outside w (snd (and_then (restore_app_source E b w) (sync_app E)))"
proof -
  have "same_outside w (snd (if uw_app w = Absent then (Works, w) else remove_app E w))"
    using calls_outside(1) [of w E] by (simp add: same_outside_def)
  then show ?thesis
    unfolding restore_app_source_def by (intro and_then_outside) (blast intro: calls_outside same_outside_trans)+
qed

lemma perform_works: "try_call E f g w = (Works, v) \<Longrightarrow> v = f (w\<lparr>uw_calls := uw_calls w + 1\<rparr>)"
  by (auto simp: try_call_def Let_def split: fate.splits)

lemma and_then_works: "and_then r f = (Works, v) \<Longrightarrow> \<exists>u. r = (Works, u) \<and> f u = (Works, v)"
  by (cases r) (auto simp: and_then_def split: fate.splits)

lemma install_works:
  assumes "install_source E new w = (Works, v)"
  shows "uw_app v = Whole (ue_kept E new) \<and> uw_synced v = Some (ue_kept E new) \<and> uw_initialised v = Some (ue_kept E new)"
  using assms unfolding install_source_def replace_app_source_def copy_app_def sync_app_def initialize_app_def
  by (auto dest!: and_then_works perform_works simp: copied_def content_of_def)

lemma restore_works:
  assumes "and_then (restore_app_source E b w) (sync_app E) = (Works, v)" and "backup_state b w = Whole old"
  shows "uw_app v = Whole (ue_kept E old) \<and> uw_synced v = Some (ue_kept E old)"
  using assms unfolding restore_app_source_def copy_app_def sync_app_def
  by (auto dest!: and_then_works perform_works simp: copied_def content_of_def)

lemma prune_keeps:
  assumes "prune_backups E b w = (r, v)"
  shows "backup_state b v = backup_state b w \<and> uw_app v = uw_app w \<and> uw_synced v = uw_synced w
    \<and> uw_initialised v = uw_initialised w \<and> uw_systemd v = uw_systemd w \<and> uw_server v = uw_server w \<and> uw_tray v = uw_tray w"
proof -
  have one: "map_of (filter (\<lambda>(c, t). c = b) xs) b = map_of xs b" for xs :: "(nat \<times> 'a tree_state) list"
    by (induction xs) auto
  have two: "map_of (map (\<lambda>(c, t). if c = b then (c, t) else (c, Partial)) xs) b = map_of xs b" for xs :: "(nat \<times> 'a tree_state) list"
    by (induction xs) auto
  show ?thesis
    using assms by (auto simp: prune_backups_def try_call_def Let_def backup_state_def one two split: fate.splits if_splits)
qed

lemma tolerated_prune:
  assumes "tolerated (prune_backups E b w) = (r, v)"
  shows "backup_state b v = backup_state b w \<and> uw_app v = uw_app w \<and> uw_synced v = uw_synced w
    \<and> uw_initialised v = uw_initialised w \<and> uw_systemd v = uw_systemd w \<and> uw_server v = uw_server w \<and> uw_tray v = uw_tray w"
  using assms prune_keeps [of E b w] by (auto simp: tolerated_def split: prod.splits fate.splits)

lemma roll_back_outcome:
  assumes "roll_back E (Some b) w = ((r, failed), v)" and "backup_state b w = Whole old"
  shows "backup_state b v = Whole old \<and> uw_systemd v = uw_systemd w \<and> uw_server v = uw_server w \<and> uw_tray v = uw_tray w
    \<and> (r = Works \<and> \<not> failed \<longrightarrow> uw_app v = Whole (ue_kept E old) \<and> uw_synced v = Some (ue_kept E old))"
proof -
  obtain q u where q: "and_then (restore_app_source E b w) (sync_app E) = (q, u)" by force
  have u: "same_outside w u" using restore_outside [of w E b] q by simp
  obtain p t where p: "tolerated (prune_backups E b u) = (p, t)" by force
  note prune = tolerated_prune [OF p]
  have saved: "backup_state b u = Whole old" using same_outside_saved [OF u] assms(2) by simp
  have kept: "q = Works \<Longrightarrow> uw_app u = Whole (ue_kept E old) \<and> uw_synced u = Some (ue_kept E old)"
    using restore_works [OF _ assms(2), of E u] q by simp
  have "(r = q \<and> failed = False \<and> v = u \<and> (\<exists>x. q = Dies x)) \<or> (r = p \<and> v = t \<and> failed = (q \<noteq> Works))"
    using assms(1) by (cases q) (auto simp: roll_back_def q p)
  then show ?thesis
    using u prune saved kept unfolding same_outside_def by (metis fate.distinct(3))
qed

lemma stops_files:
  "stop_everything E server tray w = (r, v) \<Longrightarrow> same_files w v \<and> uw_systemd v = uw_systemd w"
  "only_if c (stop_systemd_service E) w = (r, v) \<Longrightarrow> same_files w v \<and> uw_server v = uw_server w \<and> uw_tray v = uw_tray w"
  by (auto simp: stop_everything_def same_files_def update_steps split: fate.splits if_splits)

lemma tolerated_tray:
  "only_if c (\<lambda>w. tolerated (start_tray E w)) w = (r, v) \<Longrightarrow> same_files w v \<and> uw_systemd v = uw_systemd w \<and> uw_server v = uw_server w"
  by (auto simp: same_files_def update_steps split: fate.splits if_splits)

lemma restart_service_outcome:
  "restart_service E w = (r, v) \<Longrightarrow> same_files w v \<and> (r = Works \<and> runnable w \<longrightarrow> serving v) \<and> (uw_server w \<longrightarrow> uw_server v)"
  by (auto simp: restart_service_def same_files_def serving_def update_steps split: fate.splits if_splits)

lemma start_server_outcome:
  "only_if c (start_server E) w = (r, v) \<Longrightarrow>
     same_files w v \<and> (c \<and> r = Works \<and> runnable w \<longrightarrow> uw_server v) \<and> (uw_server w \<longrightarrow> uw_server v) \<and> uw_systemd v = uw_systemd w"
  by (auto simp: same_files_def update_steps split: fate.splits if_splits)

lemma first_restart:
  assumes "(if s then restart_service E w else only_if c (start_server E) w) = (r, v)"
  shows "same_files w v \<and> (uw_server w \<longrightarrow> uw_server v) \<and> (\<not> s \<longrightarrow> uw_systemd v = uw_systemd w)
    \<and> (r = Works \<and> (s \<or> c) \<and> runnable w \<longrightarrow> serving v)"
  using assms restart_service_outcome [of E w r v] start_server_outcome [of c E w r v]
  by (auto simp: serving_def split: if_splits)

lemma restart_outcome:
  assumes "restart_after_failure E s server tray w = (r, v)"
  shows "same_files w v \<and> (r = Works \<and> (s \<or> server \<or> serving w) \<and> runnable w \<longrightarrow> serving v)"
proof -
  obtain q u where q: "(if s then restart_service E w else only_if (server \<and> \<not> uw_server w) (start_server E) w) = (q, u)"
    by force
  note first = first_restart [OF q]
  show ?thesis
  proof (cases "q = Works")
    case True
    then have "only_if (tray \<and> \<not> uw_tray u) (\<lambda>w. tolerated (start_tray E w)) u = (r, v)"
      using assms q by (simp add: restart_after_failure_def and_then_def)
    then show ?thesis
      using first True tolerated_tray [of _ E u r v] same_files_trans [of w u v] by (auto simp: serving_def)
  next
    case False
    then show ?thesis
      using assms q first by (cases q) (auto simp: restart_after_failure_def and_then_def)
  qed
qed

lemma finish_outcome:
  assumes "finish_update E b s server tray w = (e, v)"
  shows "backup_state b v = backup_state b w \<and> uw_app v = uw_app w \<and> uw_synced v = uw_synced w
    \<and> uw_initialised v = uw_initialised w \<and> (e = Updated \<and> (s \<or> server \<or> serving w) \<and> runnable w \<longrightarrow> serving v) \<and> (\<forall>x. e \<noteq> Update_failed x)"
proof -
  obtain q u where q: "(if s then restart_service E w else only_if server (start_server E) w) = (q, u)" by force
  note first = first_restart [OF q]
  obtain q' u' where q': "only_if (tray \<and> \<not> uw_tray u) (\<lambda>w. tolerated (start_tray E w)) u = (q', u')" by force
  note tray = tolerated_tray [OF q']
  obtain q'' u'' where q'': "tolerated (prune_backups E b u') = (q'', u'')" by force
  note prune = tolerated_prune [OF q'']
  have saved: "backup_state b u = backup_state b w" "backup_state b u' = backup_state b u"
    using same_files_saved first tray by blast+
  show ?thesis
    using assms first tray prune saved q q' q''
    by (auto simp: finish_update_def and_then_def same_files_def serving_def split: fate.splits if_splits)
qed

lemma fail_outcome:
  assumes "fail_update E (Some b) s server tray w = (e, v)" and "backup_state b w = Whole old"
  shows "backup_state b v = Whole old
    \<and> (e = Update_failed False \<longrightarrow> uw_app v = Whole (ue_kept E old) \<and> uw_synced v = Some (ue_kept E old))
    \<and> (e = Update_failed False \<and> (s \<or> server \<or> serving w) \<longrightarrow> serving v) \<and> e \<noteq> Updated"
proof -
  obtain r failed u where r: "roll_back E (Some b) w = ((r, failed), u)" by (metis surj_pair)
  note undone = roll_back_outcome [OF r assms(2)]
  obtain q t where q: "restart_after_failure E s server tray u = (q, t)" by force
  note again = restart_outcome [OF q]
  have saved: "backup_state b t = backup_state b u" using same_files_saved again by blast
  have r': "r = Works \<or> (\<exists>x. r = Dies x)"
    using r by (auto simp: roll_back_def tolerated_def split: prod.splits fate.splits)
  show ?thesis
    using assms(1) r r' q undone again saved
    by (auto simp: fail_update_def same_files_def serving_def runnable_def content_of_def split: fate.splits)
qed

lemma fail_untouched:
  assumes "fail_update E None s server tray w = (e, v)"
  shows "same_files w v \<and> (e = Update_failed False \<and> (s \<or> server \<or> serving w) \<and> runnable w \<longrightarrow> serving v)
    \<and> (e = Died \<or> e = Start_failed \<or> e = Update_failed False)"
proof -
  obtain q t where q: "restart_after_failure E s server tray w = (q, t)" by force
  show ?thesis
    using assms q restart_outcome [OF q] by (auto simp: fail_update_def roll_back_def split: fate.splits)
qed

text \<open>The directory and its environment are the old ones.\<close>

definition untouched :: "'v update_world \<Rightarrow> 'v update_world \<Rightarrow> bool" where
  "untouched w v = (uw_app v = uw_app w \<and> uw_synced v = uw_synced w \<and> uw_initialised v = uw_initialised w)"

lemma same_files_untouched: "same_files w v \<Longrightarrow> untouched w v"
  by (simp add: same_files_def untouched_def)

lemma untouched_trans: "untouched u v \<Longrightarrow> untouched v w \<Longrightarrow> untouched u w"
  by (simp add: untouched_def)

lemma backup_outcome:
  assumes "backup_app_source E b w = (r, v)" and "b \<notin> fst ` set (uw_backups w)"
  shows "untouched w v \<and> (r = Works \<longrightarrow> backup_state b v = copied E (uw_app w))"
proof -
  have "map_of (uw_backups w) b = None" using assms(2) by (simp add: map_of_eq_None_iff)
  then show ?thesis
    using assms(1)
    by (auto simp: backup_app_source_def try_call_def Let_def untouched_def backup_state_def map_add_def split: fate.splits if_splits)
qed

lemma prepare_outcome:
  assumes "and_then (stop_everything E server tray w) (backup_app_source E b) = (r, v)" and "b \<notin> fst ` set (uw_backups w)"
  shows "untouched w v \<and> (r = Works \<longrightarrow> backup_state b v = copied E (uw_app w))"
proof -
  obtain q u where q: "stop_everything E server tray w = (q, u)" by force
  have u: "same_files w u" using stops_files(1) [OF q] by simp
  show ?thesis
  proof (cases "q = Works")
    case True
    then have "backup_app_source E b u = (r, v)" using assms(1) q by (simp add: and_then_def)
    then show ?thesis
      using backup_outcome [of E b u r v] u assms(2) same_files_untouched [OF u] untouched_trans by (auto simp: same_files_def)
  next
    case False
    then have "v = u \<and> r \<noteq> Works" using assms(1) q by (cases q) (auto simp: and_then_def)
    then show ?thesis using same_files_untouched [OF u] by simp
  qed
qed

text \<open>How an exchange goes: it stops before the backup is made, or after it, or the new source is in place.\<close>

lemma exchange_cases:
  assumes "exchange_app E b new w = (e, v)" and "b \<notin> fst ` set (uw_backups w)"
  obtains
    (died) "e = Died" and "untouched w v"
  | (refused) u t where "fail_update E None False (uw_server w \<and> \<not> uw_systemd w) t u = (e, v)" and "untouched w u"
      and "uw_systemd w" and "uw_systemd u \<or> ue_fate E (uw_calls w) = Raises True"
  | (stopped) u t where "fail_update E None (uw_systemd w) (uw_server w \<and> \<not> uw_systemd w) t u = (e, v)" and "untouched w u"
  | (lost) "e = Died" and "backup_state b v = copied E (uw_app w)"
  | (undone) u t where "fail_update E (Some b) (uw_systemd w) (uw_server w \<and> \<not> uw_systemd w) t u = (e, v)"
      and "backup_state b u = copied E (uw_app w)"
  | (exchanged) u t where "finish_update E b (uw_systemd w) (uw_server w \<and> \<not> uw_systemd w) t u = (e, v)"
      and "backup_state b u = copied E (uw_app w)" and "uw_app u = Whole (ue_kept E new)"
      and "uw_synced u = Some (ue_kept E new)" and "uw_initialised u = Some (ue_kept E new)"
proof -
  obtain q1 u1 where q1: "only_if (uw_systemd w) (stop_systemd_service E) w = (q1, u1)" by force
  have u1: "same_files w u1" using stops_files(2) [OF q1] by simp
  note t1 = same_files_untouched [OF u1]
  obtain q2 u2 where q2: "and_then (stop_everything E (uw_server u1) (uw_tray w) u1) (backup_app_source E b) = (q2, u2)" by force
  have t2: "untouched w u2" and saved: "q2 = Works \<Longrightarrow> backup_state b u2 = copied E (uw_app w)"
    using prepare_outcome [OF q2] u1 t1 assms(2) untouched_trans [OF t1] by (auto simp: same_files_def)
  obtain q3 u3 where q3: "install_source E new u2 = (q3, u3)" by force
  have "same_outside u2 u3" using install_outside [of u2 E new] q3 by simp
  from same_outside_saved [OF this, of b] saved have kept: "q2 = Works \<Longrightarrow> backup_state b u3 = copied E (uw_app w)" by simp
  note run = assms(1) [unfolded exchange_app_def Let_def q1 prod.case]
  show thesis
  proof (cases "q1 = Works \<and> q2 = Works")
    case True
    then show thesis
      using run q2 q3 kept undone exchanged lost install_works [of E new u2 u3] by (cases q3) auto
  next
    case False
    have up: "q1 = Raises x \<Longrightarrow> uw_systemd w \<and> (uw_systemd u1 \<or> ue_fate E (uw_calls w) = Raises True)" for x
      using q1 by (auto simp: update_steps split: fate.splits if_splits)
    show thesis
    proof (cases q1)
      case Works
      then show thesis using run False q2 t2 died stopped by (cases q2) auto
    next
      case (Raises x)
      then show thesis using run up [OF Raises] t1 refused by auto
    next
      case (Dies x)
      then show thesis using run t1 died by simp
    qed
  qed
qed

section \<open>Properties of the exchange\<close>

text \<open>
  C13: Whatever an update does, whichever of its calls fail and even if the process dies in one, the old source is
  never lost: it is still installed, or a whole backup of it is there. An update that reports success has
  installed the new source, built its environment, initialised it and kept the backup.
\<close>

theorem old_source_never_lost:
  assumes "exchange_app E b new w = (e, v)" and "uw_app w = Whole old" and "b \<notin> fst ` set (uw_backups w)"
  shows "(uw_app v = Whole old \<or> backup_state b v = Whole (ue_kept E old))
    \<and> (e = Updated \<longrightarrow> uw_app v = Whole (ue_kept E new) \<and> uw_synced v = Some (ue_kept E new)
         \<and> uw_initialised v = Some (ue_kept E new) \<and> backup_state b v = Whole (ue_kept E old))"
  using assms(1,3)
proof (cases rule: exchange_cases)
  case (refused u t)
  then show ?thesis using fail_untouched [OF refused(1)] assms(2) by (auto simp: same_files_def untouched_def)
next
  case (stopped u t)
  then show ?thesis using fail_untouched [OF stopped(1)] assms(2) by (auto simp: same_files_def untouched_def)
next
  case (undone u t)
  then show ?thesis using fail_outcome [OF undone(1), of "ue_kept E old"] assms(2) by (auto simp: copied_def)
next
  case (exchanged u t)
  then show ?thesis using finish_outcome [OF exchanged(1)] assms(2) by (auto simp: copied_def)
qed (use assms(2) in \<open>auto simp: untouched_def copied_def\<close>)

text \<open>
  C23: How an update that fails leaves the installation. If it reports its failure and says nothing of a failed
  rollback, the old source is installed, with its environment as before or built anew from it. If it reports a failed
  rollback, a whole backup of the old source is there. If starting the program again fails, which hides whether a
  rollback took place and how it went, the installation is untouched, or the backup is there and whole; the
  new source may be installed then.
\<close>

theorem failed_update_is_undone:
  assumes "exchange_app E b new w = (e, v)" and "uw_app w = Whole old" and "b \<notin> fst ` set (uw_backups w)"
  shows "case e of
      Update_failed failed \<Rightarrow>
        if failed then backup_state b v = Whole (ue_kept E old)
        else untouched w v \<or> uw_app v = Whole (ue_kept E (ue_kept E old)) \<and> uw_synced v = Some (ue_kept E (ue_kept E old))
    | Start_failed \<Rightarrow> untouched w v \<or> backup_state b v = Whole (ue_kept E old)
    | _ \<Rightarrow> True"
  using assms(1,3)
proof (cases rule: exchange_cases)
  case (refused u t)
  then show ?thesis using fail_untouched [OF refused(1)] by (auto simp: same_files_def untouched_def)
next
  case (stopped u t)
  then show ?thesis using fail_untouched [OF stopped(1)] by (auto simp: same_files_def untouched_def)
next
  case (undone u t)
  then have "backup_state b u = Whole (ue_kept E old)" using assms(2) by (simp add: copied_def)
  from fail_outcome [OF undone(1) this] show ?thesis by (cases e) auto
next
  case (exchanged u t)
  then show ?thesis using finish_outcome [OF exchanged(1)] assms(2) by (cases e) (auto simp: copied_def)
qed simp_all



section \<open>An installation to try them on\<close>

text \<open>Sources are strings, of which copying drops the tildes, and their digits are the version; the calls of \<open>bad\<close> go wrong.\<close>

definition demo_update_env :: "(nat \<times> fate) list \<Rightarrow> string update_env" where
  "demo_update_env bad = \<lparr>ue_kept = filter (\<lambda>c. c \<noteq> CHR ''~''), ue_version = filter (\<lambda>c. is_digit c \<or> c = CHR ''.''),
     ue_fate = (\<lambda>n. case map_of bad n of None \<Rightarrow> Works | Some f \<Rightarrow> f)\<rparr>"

definition demo_installed :: "bool \<Rightarrow> string update_world" where
  "demo_installed systemd = \<lparr>uw_app = Whole ''old1.2~'', uw_backups = [(1, Whole ''older'')], uw_synced = Some ''old1.2'',
     uw_initialised = Some ''old1.2'', uw_systemd = systemd, uw_server = (\<not> systemd), uw_tray = True, uw_calls = 0\<rparr>"

lemma demo_died:
  "exchange_app (demo_update_env [(4, Dies False)]) 2 ''new1.10~'' (demo_installed False)
     = (Died, \<lparr>uw_app = Partial, uw_backups = [(1, Whole ''older''), (2, Whole ''old1.2'')], uw_synced = Some ''old1.2'',
          uw_initialised = Some ''old1.2'', uw_systemd = False, uw_server = False, uw_tray = False, uw_calls = 5\<rparr>)"
  by code_simp

lemma demo_undone:
  "exchange_app (demo_update_env [(5, Raises False)]) 2 ''new1.10~'' (demo_installed False)
     = (Update_failed False, \<lparr>uw_app = Whole ''old1.2'', uw_backups = [(2, Whole ''old1.2'')], uw_synced = Some ''old1.2'',
          uw_initialised = Some ''old1.2'', uw_systemd = False, uw_server = True, uw_tray = True, uw_calls = 12\<rparr>)"
  by code_simp

theorem old_source_never_lost_witness:
  "backup_state 2 (snd (exchange_app (demo_update_env [(4, Dies False)]) 2 ''new1.10~'' (demo_installed False))) = Whole ''old1.2''"
  unfolding demo_died snd_conv using old_source_never_lost [OF demo_died, of "''old1.2~''"]
  by (simp add: demo_installed_def demo_update_env_def)

theorem failed_update_is_undone_witness:
  "uw_app (snd (exchange_app (demo_update_env [(5, Raises False)]) 2 ''new1.10~'' (demo_installed False))) = Whole ''old1.2''"
  unfolding demo_undone snd_conv using failed_update_is_undone [OF demo_undone, of "''old1.2~''"]
  by (simp add: demo_installed_def demo_update_env_def untouched_def)


text \<open>
  C0: A service whose stop was reported as failed but took effect (\<open>systemctl stop\<close> that exceeds its time limit
  goes on in the background) stays stopped: the update gives up with the installation unchanged and starts nothing.
\<close>

theorem late_stop_leaves_it_down:
  "serving (demo_installed True)
    \<and> (case exchange_app (demo_update_env [(0, Raises True)]) 2 ''new1.10~'' (demo_installed True) of
         (e, w) \<Rightarrow> e = Update_failed False \<and> untouched (demo_installed True) w \<and> \<not> serving w)"
  by code_simp

end
