(* ===== verification/Update_Status.thy ===== *)
theory Update_Status
  imports App_Update
begin

text \<open>
  A whole update (\<open>run_update\<close>, \<open>_run_update\<close> in \<open>agent/bootstrap/update.py\<close>) and the status file that keeps two of
  them apart (\<open>update_state.py\<close>, the dashboard's \<open>trigger_system_update\<close>). The status is a JSON value; times are
  whole numbers. The release, its download, the processes of the machine, the lock and whether a write of the
  status file succeeds are parameters.
\<close>

section \<open>The status file\<close>

record machine =
  ma_now :: int
  ma_alive :: "int \<Rightarrow> bool"
  ma_start :: "int \<Rightarrow> int option"
  ma_cmdline :: "int \<Rightarrow> string"

definition QUEUED_TIMEOUT_SECONDS :: int where
  "QUEUED_TIMEOUT_SECONDS = 60"

text \<open>\<open>isinstance(v, int)\<close>, which holds of booleans as well.\<close>

fun as_number :: "pyval \<Rightarrow> int option" where
  "as_number (PInt i) = Some i"
| "as_number (PBool b) = Some (if b then 1 else 0)"
| "as_number _ = None"

text \<open>\<open>[\w-]\<close>.\<close>

definition word_or_dash :: "char \<Rightarrow> bool" where
  "word_or_dash c = (let n = (of_char c :: nat) in
     is_digit c \<or> 65 \<le> n \<and> n \<le> 90 \<or> 97 \<le> n \<and> n \<le> 122 \<or> n = 95 \<or> n = 45 \<or> n \<in> {170, 178, 179, 181, 185, 186, 188, 189, 190}
     \<or> 192 \<le> n \<and> n \<noteq> 215 \<and> n \<noteq> 247)"

text \<open>\<open>re.search(r"(?<![\w-])update(?![\w-])", s)\<close>; the flag says whether the character before may not be one of them.\<close>

fun update_word :: "bool \<Rightarrow> string \<Rightarrow> bool" where
  "update_word glued [] = False"
| "update_word glued (c # s) =
     (\<not> glued \<and> starts_with ''update'' (c # s) \<and> (drop 6 (c # s) = [] \<or> \<not> word_or_dash (hd (drop 6 (c # s))))
      \<or> update_word (word_or_dash c) s)"

definition runs_update :: "string \<Rightarrow> bool" where
  "runs_update command = (command = [] \<or>
     (contains_sub ''agent.bootstrap.cli'' command \<or> contains_sub ''k41'' command) \<and> update_word False command)"

definition is_update_process_running :: "machine \<Rightarrow> (string \<times> pyval) list \<Rightarrow> bool" where
  "is_update_process_running M status =
     (case as_number (get_item status ''pid'') of
        None \<Rightarrow> False
      | Some pid \<Rightarrow>
          if pid \<le> 0 \<or> \<not> ma_alive M pid then False
          else (case (as_number (get_item status ''process_started_at''), ma_start M pid) of
                  (Some expected, Some actual) \<Rightarrow> actual = expected
                | _ \<Rightarrow> runs_update (ma_cmdline M pid)))"

definition failed_status :: "(string \<times> pyval) list \<Rightarrow> string \<Rightarrow> (string \<times> pyval) list" where
  "failed_status status error = dict_set ''error'' (PStr error) (dict_set ''status'' (PStr ''failed'') status)"

definition queue_expired :: "machine \<Rightarrow> (string \<times> pyval) list \<Rightarrow> bool" where
  "queue_expired M status =
     (case as_number (get_item status ''queued_at'') of None \<Rightarrow> True | Some t \<Rightarrow> QUEUED_TIMEOUT_SECONDS < ma_now M - t)"

text \<open>The file as JSON, \<open>None\<close> when it is not there or cannot be read.\<close>

definition read_update_status :: "machine \<Rightarrow> pyval option \<Rightarrow> (string \<times> pyval) list option" where
  "read_update_status M disk =
     (case disk of
        Some (PDict status) \<Rightarrow>
          Some (if get_item status ''status'' = PStr ''queued'' \<and> queue_expired M status
                then failed_status status ''The update process did not start. Check update.log.''
                else if get_item status ''status'' = PStr ''running'' \<and> \<not> is_update_process_running M status
                then failed_status status ''The update process exited unexpectedly. Check update.log.''
                else status)
      | _ \<Rightarrow> None)"

definition in_progress :: "(string \<times> pyval) list option \<Rightarrow> bool" where
  "in_progress previous =
     (case previous of
        None \<Rightarrow> False
      | Some s \<Rightarrow> s \<noteq> [] \<and> get_item s ''status'' \<in> {PStr ''queued'', PStr ''running''})"

text \<open>\<open>previous.get("update_id") == update_id and previous.get("status") == "queued"\<close>.\<close>

definition is_queued :: "string \<Rightarrow> (string \<times> pyval) list option \<Rightarrow> bool" where
  "is_queued i previous =
     (case previous of
        None \<Rightarrow> False
      | Some s \<Rightarrow> get_item s ''update_id'' = PStr i \<and> get_item s ''status'' = PStr ''queued'')"

section \<open>One attempt\<close>

record update_options =
  uo_check_only :: bool
  uo_force :: bool
  uo_yes :: bool
  uo_current_version :: string
  uo_update_id :: "string option"

text \<open>
  What the attempt meets: the release's version and its verified source tree, \<open>None\<close> when fetching either raises; the
  answer to the question; the lock held by another process; the installation as it should be; the number of the
  backup; the identity of this process and of its run; and the writes of the status that work.
\<close>

record 'v meeting =
  me_release :: "string option"
  me_source :: "'v option"
  me_confirm :: bool
  me_locked :: bool
  me_resolved :: bool
  me_backup :: nat
  me_pid :: int
  me_id :: string
  me_writes :: "nat \<Rightarrow> bool"
  me_app_version :: string

datatype run_end = Returned string string | Raised string | Killed

definition installed_version :: "'v update_env \<Rightarrow> 'v update_world \<Rightarrow> string option" where
  "installed_version E w = (case uw_app w of Whole v \<Rightarrow> Some (ue_version E v) | _ \<Rightarrow> None)"

definition exchange_result :: "update_end \<Rightarrow> string \<Rightarrow> run_end" where
  "exchange_result e release =
     (case e of
        Updated \<Rightarrow> Returned ''updated'' release
      | Update_failed failed \<Rightarrow> Raised (if failed then ''Rollback failed'' else ''Update failed'')
      | Start_failed \<Rightarrow> Raised ''Update failed''
      | Died \<Rightarrow> Killed)"

text \<open>\<open>options.current_version or ...\<close>.\<close>

definition known_version :: "update_options \<Rightarrow> string option \<Rightarrow> string option" where
  "known_version p v = (if uo_current_version p \<noteq> [] then Some (uo_current_version p) else v)"

definition attempt_update :: "'v update_env \<Rightarrow> 'v meeting \<Rightarrow> update_options \<Rightarrow> 'v update_world \<Rightarrow> run_end \<times> 'v update_world" where
  "attempt_update E m p w =
     (case known_version p (if uo_check_only p then Some (me_app_version m) else installed_version E w) of
        None \<Rightarrow> (Raised ''Could not read the version'', w)
      | Some current \<Rightarrow>
          (case me_release m of
             None \<Rightarrow> (Raised ''Could not check latest release'', w)
           | Some release \<Rightarrow>
               if uo_check_only p
               then (Returned (if is_version_newer release current then ''available'' else ''current'') release, w)
               else if \<not> is_version_newer release current \<and> \<not> uo_force p then (Returned ''current'' release, w)
               else if \<not> uo_yes p \<and> \<not> me_confirm m then (Returned ''cancelled'' release, w)
               else (case me_source m of
                       None \<Rightarrow> (Raised ''Could not download release artifact'', w)
                     | Some source \<Rightarrow>
                         if normalize_version (ue_version E source) \<noteq> normalize_version release
                         then (Raised ''Release artifact version does not match release'', w)
                         else (case exchange_app E (me_backup m) source w of
                                 (e, v) \<Rightarrow> (exchange_result e release, v)))))"

section \<open>A run under the lock\<close>

definition write_update_status :: "bool \<Rightarrow> (string \<times> pyval) list \<Rightarrow> pyval option \<Rightarrow> pyval option" where
  "write_update_status ok status disk = (if ok then Some (PDict status) else disk)"

definition running_status :: "machine \<Rightarrow> 'v meeting \<Rightarrow> update_options \<Rightarrow> (string \<times> pyval) list" where
  "running_status M m p =
     [(''update_id'', PStr (case uo_update_id p of Some i \<Rightarrow> if i = [] then me_id m else i | None \<Rightarrow> me_id m)),
      (''status'', PStr ''running''), (''pid'', PInt (me_pid m)),
      (''process_started_at'', case ma_start M (me_pid m) of None \<Rightarrow> PNone | Some t \<Rightarrow> PInt t),
      (''error'', PNone)]"

definition with_version :: "string \<Rightarrow> (string \<times> pyval) list \<Rightarrow> (string \<times> pyval) list" where
  "with_version v status = dict_set ''current_version'' (PStr v) status"

definition finished_status :: "string \<Rightarrow> string \<Rightarrow> bool \<Rightarrow> (string \<times> pyval) list \<Rightarrow> (string \<times> pyval) list" where
  "finished_status st latest restarted status =
     dict_set ''restarted'' (PBool restarted) (dict_set ''latest_version'' (PStr latest) (dict_set ''status'' (PStr st) status))"

text \<open>The outermost \<open>except\<close>: the last write, whose own failure is the error that comes out.\<close>

definition record_failure :: "bool \<Rightarrow> (string \<times> pyval) list \<Rightarrow> string \<Rightarrow> pyval option \<Rightarrow> run_end \<times> pyval option" where
  "record_failure ok status error disk =
     (if ok then (Raised error, Some (PDict (failed_status status error))) else (Raised ''OSError'', disk))"

definition run_locked :: "'v update_env \<Rightarrow> machine \<Rightarrow> 'v meeting \<Rightarrow> update_options \<Rightarrow> 'v update_world \<Rightarrow> pyval option
    \<Rightarrow> run_end \<times> 'v update_world \<times> pyval option" where
  "run_locked E M m p w disk =
     (case known_version p (installed_version E w) of
        None \<Rightarrow> (case record_failure (me_writes m 0) (running_status M m p) ''Could not read the version'' disk of (e, d) \<Rightarrow> (e, w, d))
      | Some current \<Rightarrow>
          (let status = with_version current (running_status M m p) in
           if \<not> me_writes m 0
           then (case record_failure (me_writes m 1) status ''OSError'' disk of (e, d) \<Rightarrow> (e, w, d))
           else (let disk = Some (PDict status) in
                 case attempt_update E m p w of
                   (Killed, v) \<Rightarrow> (Killed, v, disk)
                 | (Raised error, v) \<Rightarrow>
                     (case record_failure (me_writes m 1) status error disk of (e, d) \<Rightarrow> (e, v, d))
                 | (Returned st latest, v) \<Rightarrow>
                     if me_writes m 1
                     then (Returned st latest, v, Some (PDict (finished_status st latest (st = ''updated'' \<and> serving w) status)))
                     else (case record_failure (me_writes m 2) status ''OSError'' disk of (e, d) \<Rightarrow> (e, v, d)))))"

definition run_update :: "'v update_env \<Rightarrow> machine \<Rightarrow> 'v meeting \<Rightarrow> update_options \<Rightarrow> 'v update_world \<Rightarrow> pyval option
    \<Rightarrow> run_end \<times> 'v update_world \<times> pyval option" where
  "run_update E M m p w disk =
     (if uo_check_only p then (case attempt_update E m p w of (e, v) \<Rightarrow> (e, v, disk))
      else if \<not> me_resolved m
      then (Raised ''The installation is not a managed one'', w,
              case uo_update_id p of
                None \<Rightarrow> disk
              | Some i \<Rightarrow>
                  (case read_update_status M disk of
                     None \<Rightarrow> disk
                   | Some previous \<Rightarrow>
                       if \<not> me_locked m \<and> previous \<noteq> [] \<and> is_queued i (Some previous)
                       then write_update_status (me_writes m 0) (failed_status previous ''The installation is not a managed one'') disk
                       else disk))
      else if me_locked m then (Raised ''Another update is already in progress.'', w, disk)
      else (let previous = read_update_status M disk in
            case uo_update_id p of
              Some i \<Rightarrow>
                if \<not> is_queued i previous
                then (Raised ''The queued update is no longer available. Please try again.'', w, disk)
                else run_locked E M m p w disk
            | None \<Rightarrow>
                if in_progress previous then (Raised ''Another update is already in progress.'', w, disk)
                else run_locked E M m p w disk))"


section \<open>What a status says to others\<close>



lemmas status_gets = get_default_def failed_status_def finished_status_def with_version_def dict_simps



text \<open>The running status of this run, with or without its version.\<close>

definition of_run :: "machine \<Rightarrow> int \<Rightarrow> (string \<times> pyval) list \<Rightarrow> bool" where
  "of_run M pid s = (get_item s ''status'' = PStr ''running'' \<and> get_item s ''pid'' = PInt pid
     \<and> get_item s ''process_started_at'' = (case ma_start M pid of None \<Rightarrow> PNone | Some t \<Rightarrow> PInt t))"

lemma running_status_of_run: "of_run M (me_pid m) (running_status M m p)" "of_run M (me_pid m) (with_version v (running_status M m p))"
  by (simp_all add: of_run_def running_status_def status_gets split: option.split)


lemma attempt_ends:
  "attempt_update E m p w = (Returned st latest, v) \<Longrightarrow> st \<in> {''available'', ''current'', ''cancelled'', ''updated''}"
  by (auto simp: attempt_update_def exchange_result_def split: option.splits if_splits prod.splits update_end.splits)

text \<open>What a run writes: nothing, its running status, or an end.\<close>

definition written_by :: "machine \<Rightarrow> int \<Rightarrow> pyval option \<Rightarrow> bool" where
  "written_by M pid disk = (\<exists>s. disk = Some (PDict s) \<and>
     (of_run M pid s \<or> get_item s ''status'' \<in> {PStr ''failed'', PStr ''available'', PStr ''current'', PStr ''cancelled'', PStr ''updated''}))"

lemma written_failed: "written_by M pid (Some (PDict (failed_status s e)))"
  by (simp add: written_by_def status_gets)

lemma record_failure_writes:
  "record_failure ok s error disk = (e, d) \<Longrightarrow> d = disk \<or> written_by M pid d"
  by (auto simp: record_failure_def written_failed split: if_splits)

lemma run_locked_writes:
  assumes "run_locked E M m p w disk = (e, v, d)"
  shows "d = disk \<or> written_by M (me_pid m) d"
proof (cases "known_version p (installed_version E w)")
  case None
  then show ?thesis using assms record_failure_writes by (auto simp: run_locked_def split: prod.splits)
next
  case (Some current)
  define s where "s = with_version current (running_status M m p)"
  have own: "written_by M (me_pid m) (Some (PDict s))" using running_status_of_run(2) by (auto simp: written_by_def s_def)
  obtain a u where a: "attempt_update E m p w = (a, u)" by force
  show ?thesis
  proof (cases "me_writes m 0")
    case False
    then show ?thesis
      using assms Some record_failure_writes [of "me_writes m 1" s _ disk] by (auto simp: run_locked_def s_def split: prod.splits)
  next
    case True
    note run = assms [unfolded run_locked_def Some option.case Let_def s_def [symmetric] a prod.case]
    show ?thesis
    proof (cases a)
      case (Returned st latest)
      have "written_by M (me_pid m) (Some (PDict (finished_status st latest r s)))" for r
        using attempt_ends [of E m p w st latest u] a Returned by (auto simp: written_by_def status_gets)
      then show ?thesis
        using run True Returned own record_failure_writes [of _ _ _ "Some (PDict s)" _ d M "me_pid m"] by (auto split: prod.splits if_splits)
    next
      case (Raised error)
      then show ?thesis
        using run True own record_failure_writes [of _ _ _ "Some (PDict s)" _ d M "me_pid m"] by (auto split: prod.splits)
    next
      case Killed
      then show ?thesis using run True own by simp
    qed
  qed
qed

lemma run_update_writes:
  assumes "run_update E M m p w disk = (e, v, d)"
  shows "d = disk \<or> written_by M (me_pid m) d"
  using assms run_locked_writes [of E M m p w disk e v d]
  by (auto simp: run_update_def write_update_status_def written_failed Let_def split: if_splits option.splits prod.splits)



section \<open>Properties of the runs\<close>




lemma written_not_queued:
  assumes "written_by M pid disk"
  shows "\<not> is_queued i (read_update_status M' disk)"
  using assms by (auto simp: written_by_def of_run_def read_update_status_def is_queued_def status_gets split: if_splits)

text \<open>
  C17: An update queued in the dashboard is carried out at most once: once a run has recorded anything, every further
  run for the same request, at any time, on any state of the machine and with any source, is refused and changes
  neither the installation nor the status.
\<close>

theorem queued_update_runs_once:
  assumes "run_update E M m p w disk = (e, w', disk')" and "disk' \<noteq> disk"
    and "\<not> uo_check_only q" and "uo_update_id q = Some i"
  shows "\<exists>error. run_update E' M' n q w'' disk' = (Raised error, w'', disk')"
proof -
  have "written_by M (me_pid m) disk'" using run_update_writes [OF assms(1)] assms(2) by simp
  from written_not_queued [OF this, of i] have no: "\<not> is_queued i (read_update_status M' disk')" for M' by simp
  then have "\<not> is_queued i (Some s)" if "read_update_status M' disk' = Some s" for s using that by metis
  then show ?thesis using no assms(3,4) by (auto simp: run_update_def Let_def split: option.splits)
qed

lemma key_less_asym: "key_less k l \<Longrightarrow> \<not> key_less l k"
  by (auto simp: key_less_def split: prod.splits)

lemma newer_not_older:
  "is_version_newer a b \<Longrightarrow> version_key a \<noteq> None \<Longrightarrow> version_key b \<noteq> None \<Longrightarrow> \<not> is_version_newer b a"
  by (auto simp: is_version_newer_def dest: key_less_asym)

lemma exchanged_app:
  assumes "exchange_app E b new w = (Updated, v)" and "b \<notin> fst ` set (uw_backups w)"
  shows "uw_app v = Whole (ue_kept E new)"
  using assms
proof (cases rule: exchange_cases)
  case (undone u t)
  obtain rb where "roll_back E (Some b) u = rb" by simp
  then show ?thesis using undone(1) by (auto simp: fail_update_def split: prod.splits fate.splits)
next
  case (exchanged u t)
  then show ?thesis using finish_outcome [OF exchanged(1)] by simp
qed (auto simp: fail_update_def split: prod.splits fate.splits)

lemma attempt_updated:
  assumes "attempt_update E m p w = (Returned ''updated'' latest, v)"
  obtains current source where "known_version p (installed_version E w) = Some current"
    and "me_release m = Some latest" and "me_source m = Some source" and "is_version_newer latest current \<or> uo_force p"
    and "normalize_version (ue_version E source) = normalize_version latest" and "exchange_app E (me_backup m) source w = (Updated, v)"
  using assms
  by (auto simp: attempt_update_def exchange_result_def split: option.splits if_splits prod.splits update_end.splits)

text \<open>
  A run that reports an update has installed a source of the version that was released; unless it was forced, the
  installed version is not newer than it. Both versions are taken to carry a number, and copying to keep the
  version of a source.
\<close>

theorem update_never_downgrades:
  assumes "run_update E M m p w disk = (Returned ''updated'' latest, w', disk')"
    and "uw_app w = Whole old" and "me_backup m \<notin> fst ` set (uw_backups w)"
    and "\<not> uo_force p" and "uo_current_version p = []"
    and "version_key (ue_version E old) \<noteq> None" and "version_key latest \<noteq> None"
    and "\<And>v. ue_version E (ue_kept E v) = ue_version E v"
  shows "\<exists>new. uw_app w' = Whole new \<and> normalize_version (ue_version E new) = normalize_version latest
    \<and> \<not> is_version_newer (ue_version E old) latest"
proof -
  have "attempt_update E m p w = (Returned ''updated'' latest, w')"
    using assms(1) by (auto simp: run_update_def run_locked_def record_failure_def Let_def
        split: if_splits option.splits prod.splits run_end.splits)
  then obtain current source where current: "known_version p (installed_version E w) = Some current"
    and newer: "is_version_newer latest current \<or> uo_force p"
    and version: "normalize_version (ue_version E source) = normalize_version latest"
    and run: "exchange_app E (me_backup m) source w = (Updated, w')"
    by (rule attempt_updated)
  have "current = ue_version E old" using current assms(2,5) by (simp add: known_version_def installed_version_def)
  then have "\<not> is_version_newer (ue_version E old) latest" using newer newer_not_older assms(4,6,7) by blast
  moreover have "uw_app w' = Whole (ue_kept E source)" using exchanged_app [OF run assms(3)] by simp
  ultimately show ?thesis using version assms(8) by auto
qed

section \<open>A machine to try them on\<close>

definition demo_machine :: "int \<Rightarrow> machine" where
  "demo_machine now = \<lparr>ma_now = now, ma_alive = (\<lambda>pid. pid = now), ma_start = (\<lambda>pid. if pid = now then Some now else None),
     ma_cmdline = (\<lambda>pid. [])\<rparr>"

definition demo_meeting :: "int \<Rightarrow> string meeting" where
  "demo_meeting pid = \<lparr>me_release = Some ''1.10'', me_source = Some ''new1.10~'', me_confirm = True, me_locked = False,
     me_resolved = True, me_backup = 2, me_pid = pid, me_id = ''r'', me_writes = (\<lambda>n. True), me_app_version = ''1.2''\<rparr>"

definition demo_options :: "string option \<Rightarrow> update_options" where
  "demo_options i = \<lparr>uo_check_only = False, uo_force = False, uo_yes = True, uo_current_version = [], uo_update_id = i\<rparr>"

definition demo_queued :: "pyval option" where
  "demo_queued = Some (PDict [(''update_id'', PStr ''u''), (''status'', PStr ''queued''), (''queued_at'', PInt 100), (''error'', PNone)])"


text \<open>The updater that takes the request up dies while it copies the new source; the next one finds the backup.\<close>

definition demo_begun :: "pyval option" where
  "demo_begun = Some (PDict [(''update_id'', PStr ''u''), (''status'', PStr ''running''), (''pid'', PInt 102),
     (''process_started_at'', PInt 102), (''error'', PNone), (''current_version'', PStr ''1.2'')])"

definition demo_broken :: "string update_world" where
  "demo_broken = \<lparr>uw_app = Partial, uw_backups = [(1, Whole ''older''), (2, Whole ''old1.2'')], uw_synced = Some ''old1.2'',
     uw_initialised = Some ''old1.2'', uw_systemd = False, uw_server = False, uw_tray = False, uw_calls = 5\<rparr>"

lemma demo_killed:
  "run_update (demo_update_env [(4, Dies False)]) (demo_machine 102) (demo_meeting 102) (demo_options (Some ''u''))
     (demo_installed False) demo_queued = (Killed, demo_broken, demo_begun)"
  by code_simp

lemma demo_whole_run:
  "run_update (demo_update_env []) (demo_machine 102) (demo_meeting 102) (demo_options (Some ''u'')) (demo_installed False) demo_queued
   = (Returned ''updated'' ''1.10'',
      \<lparr>uw_app = Whole ''new1.10'', uw_backups = [(2, Whole ''old1.2'')], uw_synced = Some ''new1.10'',
        uw_initialised = Some ''new1.10'', uw_systemd = False, uw_server = True, uw_tray = True, uw_calls = 10\<rparr>,
      Some (PDict [(''update_id'', PStr ''u''), (''status'', PStr ''updated''), (''pid'', PInt 102),
        (''process_started_at'', PInt 102), (''error'', PNone), (''current_version'', PStr ''1.2''),
        (''latest_version'', PStr ''1.10''), (''restarted'', PBool True)]))"
  by code_simp





theorem queued_update_runs_once_witness:
  "\<exists>error. run_update (demo_update_env []) (demo_machine 103) (demo_meeting 103) (demo_options (Some ''u'')) (demo_installed False) demo_begun
     = (Raised error, demo_installed False, demo_begun)"
  by (rule queued_update_runs_once [OF demo_killed]) (simp_all add: demo_begun_def demo_queued_def demo_options_def)

theorem update_never_downgrades_witness:
  "\<not> is_version_newer ''1.2'' ''1.10''"
proof -
  let ?E = "demo_update_env []"
  have v: "ue_version ?E (ue_kept ?E v) = ue_version ?E v" for v
    by (induction v) (auto simp: demo_update_env_def is_digit_def)
  have old: "ue_version ?E ''old1.2~'' = ''1.2''" by code_simp
  have k: "version_key ''1.2'' \<noteq> None" "version_key ''1.10'' \<noteq> None" by code_simp+
  have "uw_app (demo_installed False) = Whole ''old1.2~''" "me_backup (demo_meeting 102) \<notin> fst ` set (uw_backups (demo_installed False))"
    "\<not> uo_force (demo_options (Some ''u''))" "uo_current_version (demo_options (Some ''u'')) = []"
    by (simp_all add: demo_installed_def demo_meeting_def demo_options_def)
  from update_never_downgrades [OF demo_whole_run this _ k(2) v] show ?thesis using old k(1) by simp
qed

end
