(* ===== verification/Browser_Sessions.thy ===== *)
theory Browser_Sessions
  imports Prelude
begin

text \<open>
  Local browsers of conversations (\<open>agent/modules/browser/service.py\<close>, \<open>repository.py\<close>, the viewer of
  \<open>delivery/http/dashboard/routes/\<close>). An operation is a process that waits for locks and for the browser; what it
  does between two such waits, its database calls included, is one step. A lock is held by the process whose
  stage lists it. Identifiers made with \<open>uuid4\<close> or \<open>token_urlsafe\<close> are numbers from a counter; the key of a
  journal entry stands for the digest of its two parts. Session objects are found by their generation.
\<close>

section \<open>State\<close>

record browser_session =
  bs_thread :: string
  bs_owner :: string
  bs_profile_key :: string
  bs_last_activity :: int
  bs_handoff_id :: "nat option"
  bs_handoff_expires_at :: "int option"
  bs_controller :: "nat option"
  bs_active_tab_id :: "nat option"
  bs_closed :: bool

datatype receipt = Running | Handed_over nat nat int | Completed string

record browser_invocation =
  iv_arguments_hash :: string
  iv_status :: receipt

record browser_ticket =
  tk_thread :: string
  tk_owner :: string
  tk_generation :: nat
  tk_expires :: int

text \<open>\<open>bw_started\<close> remembers the mutating calls of the agent that were carried out (a script that went to the browser, a close that was begun), \<open>bw_viewers\<close> who was let in.\<close>

record browser_world =
  bw_bindings :: "(string, string \<times> string option) dict"
  bw_profiles :: "(string, string) dict"
  bw_journal :: "(string \<times> string, browser_invocation) dict"
  bw_objects :: "(nat, browser_session) dict"
  bw_sessions :: "(string, nat) dict"
  bw_tickets :: "(nat, browser_ticket) dict"
  bw_closing :: bool
  bw_next :: nat
  bw_wall :: int
  bw_mono :: int
  bw_started :: "(string \<times> string) list"
  bw_viewers :: "(nat \<times> nat) list"

record browser_env =
  be_storage_key :: "string \<Rightarrow> string"
  be_idle_ttl :: int

datatype browser_tool = Browser_run | Browser_snapshot | Browser_screenshot | Browser_close | Unknown_tool

text \<open>The operations; a handoff carries the answer its interrupt was resumed with, and whether that cancels.\<close>

datatype request =
    Open_browser string string
  | Call_tool string string string browser_tool string
  | Hand_over string string string string "(nat \<times> bool) option"
  | Close_browser string string
  | Get_status string string
  | Select_profile string string "string option"
  | Issue_ticket string string
  | Reap_idle string
  | Delete_profile string string
  | Release_thread string
  | Viewer_input nat nat nat nat

datatype browser_end = Finished string | Refused string | Interrupted | Cancelled

datatype after = Go_on | End_with browser_end | Complete_with string

datatype browser_stage =
    Arrived request
  | Dispose_wait request nat after
  | Disposing request nat after
  | Want_profile request string bool
  | Launching request string
  | Session_wait request nat
  | Acting request nat
  | Return_wait request nat bool
  | Returning request nat
  | Checking request nat
  | Removing request string
  | Inputting request nat nat
  | Over browser_end

datatype browser_lock = Thread_lock string | Profile_lock string | Session_lock nat

fun thread_of :: "request \<Rightarrow> string option" where
  "thread_of (Open_browser t _) = Some t"
| "thread_of (Call_tool t _ _ _ _) = Some t"
| "thread_of (Hand_over t _ _ _ _) = Some t"
| "thread_of (Close_browser t _) = Some t"
| "thread_of (Get_status t _) = Some t"
| "thread_of (Select_profile t _ _) = Some t"
| "thread_of (Issue_ticket t _) = Some t"
| "thread_of (Reap_idle t) = Some t"
| "thread_of (Release_thread t) = Some t"
| "thread_of _ = None"

definition thread_lock :: "request \<Rightarrow> browser_lock list" where
  "thread_lock r = (case thread_of r of None \<Rightarrow> [] | Some t \<Rightarrow> [Thread_lock t])"

fun locks_of :: "browser_stage \<Rightarrow> browser_lock list" where
  "locks_of (Arrived r) = []"
| "locks_of (Dispose_wait r g a) = thread_lock r"
| "locks_of (Disposing r g a) = thread_lock r @ [Session_lock g]"
| "locks_of (Want_profile r k n) = thread_lock r"
| "locks_of (Launching r k) = thread_lock r @ [Profile_lock k]"
| "locks_of (Session_wait r g) = thread_lock r"
| "locks_of (Acting r g) = thread_lock r @ [Session_lock g]"
| "locks_of (Return_wait r g c) = thread_lock r"
| "locks_of (Returning r g) = thread_lock r @ [Session_lock g]"
| "locks_of (Checking r g) = thread_lock r"
| "locks_of (Removing r k) = [Profile_lock k]"
| "locks_of (Inputting r v g) = [Session_lock g]"
| "locks_of (Over e) = []"

section \<open>The database\<close>

definition bind_thread :: "string \<Rightarrow> string \<Rightarrow> browser_world \<Rightarrow> (browser_end + string option) \<times> browser_world" where
  "bind_thread t owner w =
     (case dict_get (bw_bindings w) t of
        None \<Rightarrow> (Inr None, w\<lparr>bw_bindings := dict_set t (owner, None) (bw_bindings w)\<rparr>)
      | Some (o', p) \<Rightarrow> (if o' = owner then Inr p else Inl (Refused ''permission''), w))"

definition record_call :: "string \<Rightarrow> string \<Rightarrow> string \<Rightarrow> receipt \<Rightarrow> browser_world \<Rightarrow> browser_world" where
  "record_call t c hash status w =
     (let h = (case dict_get (bw_journal w) (t, c) of None \<Rightarrow> hash | Some iv \<Rightarrow> iv_arguments_hash iv) in
      w\<lparr>bw_journal := dict_set (t, c) \<lparr>iv_arguments_hash = h, iv_status = status\<rparr> (bw_journal w)\<rparr>)"

fun is_handed_over :: "receipt \<Rightarrow> bool" where
  "is_handed_over (Handed_over h g e) = True"
| "is_handed_over _ = False"

text \<open>The newest pending handoff of a thread.\<close>

definition pending_handoff :: "string \<Rightarrow> browser_world \<Rightarrow> receipt option" where
  "pending_handoff t w =
     (case filter (\<lambda>((t', c), iv). t' = t \<and> is_handed_over (iv_status iv)) (bw_journal w) of
        [] \<Rightarrow> None
      | xs \<Rightarrow> Some (iv_status (snd (last xs))))"

fun expired_receipt :: "int \<Rightarrow> receipt \<Rightarrow> bool" where
  "expired_receipt now (Handed_over h g e) = (e \<le> now)"
| "expired_receipt now _ = False"

definition expire_entry :: "string \<Rightarrow> int \<Rightarrow> (string \<times> string) \<times> browser_invocation \<Rightarrow> (string \<times> string) \<times> browser_invocation" where
  "expire_entry t now x = (case x of (k, iv) \<Rightarrow>
     (k, if fst k = t \<and> expired_receipt now (iv_status iv) then iv\<lparr>iv_status := Completed ''expired''\<rparr> else iv))"

definition expire_handoffs :: "string \<Rightarrow> browser_world \<Rightarrow> browser_world" where
  "expire_handoffs t w = w\<lparr>bw_journal := map (expire_entry t (bw_wall w)) (bw_journal w)\<rparr>"

text \<open>The handoffs that this takes back.\<close>

fun handoff_ids :: "int \<Rightarrow> receipt \<Rightarrow> nat list" where
  "handoff_ids now (Handed_over h g e) = (if e \<le> now then [h] else [])"
| "handoff_ids now _ = []"

definition expired_ids :: "string \<Rightarrow> browser_world \<Rightarrow> nat list" where
  "expired_ids t w =
     concat (map (\<lambda>((t', c), iv). if t' = t then handoff_ids (bw_wall w) (iv_status iv) else []) (bw_journal w))"

section \<open>Sessions\<close>

definition update_object :: "nat \<Rightarrow> (browser_session \<Rightarrow> browser_session) \<Rightarrow> browser_world \<Rightarrow> browser_world" where
  "update_object g f w = w\<lparr>bw_objects := dict_modify g f (bw_objects w)\<rparr>"

definition active :: "nat \<Rightarrow> browser_world \<Rightarrow> browser_world" where
  "active g w = update_object g (\<lambda>s. s\<lparr>bs_last_activity := bw_mono w\<rparr>) w"

definition assert_agent :: "nat \<Rightarrow> browser_world \<Rightarrow> browser_end option" where
  "assert_agent g w =
     (case dict_get (bw_objects w) g of
        None \<Rightarrow> Some (Refused ''session_lost'')
      | Some s \<Rightarrow>
          if bs_closed s then Some (Refused ''session_lost'')
          else if bs_handoff_id s \<noteq> None then Some (Refused ''human_control'')
          else None)"

text \<open>Whether the session of a thread has to go because its handoff expired.\<close>

definition outlived :: "string \<Rightarrow> browser_world \<Rightarrow> nat option" where
  "outlived t w =
     (case dict_get (bw_sessions w) t of
        None \<Rightarrow> None
      | Some g \<Rightarrow>
          (case dict_get (bw_objects w) g of
             None \<Rightarrow> None
           | Some s \<Rightarrow>
               if list_ex (\<lambda>h. bs_handoff_id s = Some h) (expired_ids t w)
                 \<or> (case bs_handoff_expires_at s of None \<Rightarrow> False | Some e \<Rightarrow> e \<le> bw_wall w)
               then Some g else None))"

definition profile_open :: "string \<Rightarrow> browser_world \<Rightarrow> bool" where
  "profile_open k w =
     list_ex (\<lambda>(t, g). case dict_get (bw_objects w) g of None \<Rightarrow> False | Some s \<Rightarrow> bs_profile_key s = k) (bw_sessions w)"

definition new_session :: "string \<Rightarrow> string \<Rightarrow> string \<Rightarrow> browser_world \<Rightarrow> browser_world" where
  "new_session t owner k w =
     w\<lparr>bw_objects := dict_set (bw_next w) \<lparr>bs_thread = t, bs_owner = owner, bs_profile_key = k, bs_last_activity = bw_mono w,
           bs_handoff_id = None, bs_handoff_expires_at = None, bs_controller = None, bs_active_tab_id = None, bs_closed = False\<rparr> (bw_objects w),
       bw_sessions := dict_set t (bw_next w) (bw_sessions w), bw_next := bw_next w + 1\<rparr>"

section \<open>What an operation does between two waits\<close>

definition owner_of :: "request \<Rightarrow> string" where
  "owner_of r = (case r of Open_browser _ o' \<Rightarrow> o' | Call_tool _ o' _ _ _ \<Rightarrow> o' | Hand_over _ o' _ _ _ \<Rightarrow> o' | Close_browser _ o' \<Rightarrow> o'
     | Get_status _ o' \<Rightarrow> o' | Select_profile _ o' _ \<Rightarrow> o' | Issue_ticket _ o' \<Rightarrow> o' | Delete_profile o' _ \<Rightarrow> o' | _ \<Rightarrow> [])"

definition bound_profile :: "string \<Rightarrow> browser_world \<Rightarrow> string option" where
  "bound_profile t w = (case dict_get (bw_bindings w) t of Some (o', Some p) \<Rightarrow> (if p = [] then None else Some p) | _ \<Rightarrow> None)"

definition ensure_session :: "browser_env \<Rightarrow> request \<Rightarrow> string \<Rightarrow> browser_world \<Rightarrow> browser_stage" where
  "ensure_session E r t w =
     (case dict_get (bw_sessions w) t of
        Some g \<Rightarrow>
          (case dict_get (bw_objects w) g of
             None \<Rightarrow> Over (Refused ''session_lost'')
           | Some s \<Rightarrow>
               if bs_closed s then Over (Refused ''session_lost'')
               else (case r of Open_browser _ _ \<Rightarrow> Over (Finished ''open'') | _ \<Rightarrow> Session_wait r g))
      | None \<Rightarrow>
          if pending_handoff t w \<noteq> None then Over (Refused ''handoff_expired'')
          else (case bound_profile t w of
                  None \<Rightarrow> Want_profile r (be_storage_key E t) False
                | Some p \<Rightarrow> Want_profile r p True))"

definition journaled :: "browser_tool \<Rightarrow> bool" where
  "journaled name = (name \<in> {Browser_run, Browser_close})"

text \<open>The replay check of a call that changes something: refused, answered from the journal, or new.\<close>

text \<open>The record of a mutating call, and the call itself in the same step.\<close>

definition take_up :: "string \<Rightarrow> string \<Rightarrow> string \<Rightarrow> browser_world \<Rightarrow> browser_world" where
  "take_up t c fingerprint w = (record_call t c fingerprint Running w)\<lparr>bw_started := (t, c) # bw_started w\<rparr>"

definition prior_call :: "string \<Rightarrow> string \<Rightarrow> string \<Rightarrow> browser_world \<Rightarrow> browser_end option" where
  "prior_call t c fingerprint w =
     (if c = [] then Some (Refused ''invalid_input'')
      else (case dict_get (bw_journal w) (t, c) of
              None \<Rightarrow> None
            | Some iv \<Rightarrow>
                if iv_arguments_hash iv \<noteq> fingerprint then Some (Refused ''invalid_input'')
                else (case iv_status iv of Completed s \<Rightarrow> Some (Finished s) | _ \<Rightarrow> Some (Refused ''unknown_outcome''))))"

text \<open>A resumed handoff that finds its session goes on there; otherwise its receipt is written at once.\<close>

definition resume_handoff :: "request \<Rightarrow> string \<Rightarrow> string \<Rightarrow> string \<Rightarrow> nat \<Rightarrow> bool \<Rightarrow> browser_world \<Rightarrow> browser_stage \<times> browser_world" where
  "resume_handoff r t c fingerprint g cancel w =
     (if dict_get (bw_sessions w) t = Some g then (Return_wait r g cancel, w)
      else (let result = (if cancel then ''cancelled'' else ''session_lost'') in
            (Over (Finished result), record_call t c fingerprint (Completed result) w)))"

definition issue_ticket :: "string \<Rightarrow> string \<Rightarrow> browser_world \<Rightarrow> browser_stage \<times> browser_world" where
  "issue_ticket t owner w =
     (case dict_get (bw_sessions w) t of
        None \<Rightarrow> (Over (Refused ''session_lost''), w)
      | Some g \<Rightarrow>
          (case dict_get (bw_objects w) g of
             None \<Rightarrow> (Over (Refused ''session_lost''), w)
           | Some s \<Rightarrow>
               if bs_closed s then (Over (Refused ''session_lost''), w)
               else (Over (Finished ''ticket''),
                     w\<lparr>bw_tickets := dict_set (bw_next w) \<lparr>tk_thread = bs_thread s, tk_owner = owner, tk_generation = g, tk_expires = bw_mono w + 60\<rparr>
                           (filter (\<lambda>(n, tk). bw_mono w < tk_expires tk) (bw_tickets w)), bw_next := bw_next w + 1\<rparr>)))"

definition session_idle :: "browser_env \<Rightarrow> nat \<Rightarrow> browser_world \<Rightarrow> bool" where
  "session_idle E g w =
     (case dict_get (bw_objects w) g of None \<Rightarrow> False | Some s \<Rightarrow> be_idle_ttl E \<le> bw_mono w - bs_last_activity s)"

text \<open>What follows \<open>_expire_handoffs\<close>; \<open>busy\<close> are the locks of the other operations.\<close>

fun proceed :: "browser_env \<Rightarrow> browser_lock set \<Rightarrow> request \<Rightarrow> browser_world \<Rightarrow> browser_stage \<times> browser_world" where
  "proceed E busy (Open_browser t owner) w = (ensure_session E (Open_browser t owner) t w, w)"
| "proceed E busy (Call_tool t owner c name f) w = (ensure_session E (Call_tool t owner c name f) t w, w)"
| "proceed E busy (Hand_over t owner c f response) w =
     (case dict_get (bw_journal w) (t, c) of
        None \<Rightarrow> (ensure_session E (Hand_over t owner c f response) t w, w)
      | Some iv \<Rightarrow>
          if iv_arguments_hash iv \<noteq> f then (Over (Refused ''invalid_input''), w)
          else (case iv_status iv of
                  Completed s \<Rightarrow> (Over (Finished s), w)
                | Running \<Rightarrow> (Over (Refused ''invalid_input''), w)
                | Handed_over h g e \<Rightarrow>
                    (case response of
                       Some (h', cancel) \<Rightarrow>
                         if h' = h then resume_handoff (Hand_over t owner c f response) t c f g cancel w
                         else (Over Interrupted, w)
                     | None \<Rightarrow> (Over Interrupted, w))))"
| "proceed E busy (Get_status t owner) w =
     ((case dict_get (bw_sessions w) t of None \<Rightarrow> Over (Finished ''status'') | Some g \<Rightarrow> Checking (Get_status t owner) g), w)"
| "proceed E busy (Issue_ticket t owner) w = issue_ticket t owner w"
| "proceed E busy (Reap_idle t) w =
     ((case dict_get (bw_sessions w) t of
         None \<Rightarrow> Over (Finished ''reaped'')
       | Some g \<Rightarrow> if Session_lock g \<notin> busy \<and> session_idle E g w
                   then Dispose_wait (Reap_idle t) g (End_with (Finished ''reaped''))
                   else Over (Finished ''reaped'')), w)"
| "proceed E busy r w = (Over (Finished ''done''), w)"

definition expire_first :: "browser_env \<Rightarrow> browser_lock set \<Rightarrow> request \<Rightarrow> string \<Rightarrow> browser_world \<Rightarrow> browser_stage \<times> browser_world" where
  "expire_first E busy r t w =
     (case outlived t w of
        Some g \<Rightarrow> (Dispose_wait r g Go_on, expire_handoffs t w)
      | None \<Rightarrow> proceed E busy r (expire_handoffs t w))"

definition bind_first :: "browser_env \<Rightarrow> browser_lock set \<Rightarrow> request \<Rightarrow> string \<Rightarrow> browser_world \<Rightarrow> browser_stage \<times> browser_world" where
  "bind_first E busy r t w =
     (case bind_thread t (owner_of r) w of
        (Inl e, w) \<Rightarrow> (Over e, w)
      | (Inr p, w) \<Rightarrow> expire_first E busy r t w)"

definition close_session :: "request \<Rightarrow> string \<Rightarrow> after \<Rightarrow> browser_world \<Rightarrow> browser_stage option" where
  "close_session r t a w = map_option (\<lambda>g. Dispose_wait r g a) (dict_get (bw_sessions w) t)"

text \<open>An operation that has just got the lock of its thread.\<close>

fun enter :: "browser_env \<Rightarrow> browser_lock set \<Rightarrow> request \<Rightarrow> browser_world \<Rightarrow> browser_stage \<times> browser_world" where
  "enter E busy (Call_tool t owner c name f) w =
     (case bind_thread t owner w of
        (Inl e, w) \<Rightarrow> (Over e, w)
      | (Inr p, w) \<Rightarrow>
          (case (if journaled name then prior_call t c f w else None) of
             Some e \<Rightarrow> (Over e, w)
           | None \<Rightarrow>
               if name = Browser_close
               then (let w = take_up t c f w in
                     case close_session (Call_tool t owner c name f) t (Complete_with ''closed'') w of
                       Some s \<Rightarrow> (s, w)
                     | None \<Rightarrow> (Over (Finished ''closed''), record_call t c f (Completed ''closed'') w))
               else expire_first E busy (Call_tool t owner c name f) t w))"
| "enter E busy (Hand_over t owner c f response) w =
     (if \<not> starts_with ''admin:'' owner \<or> c = [] then (Over (Refused ''approval_unavailable''), w)
      else bind_first E busy (Hand_over t owner c f response) t w)"
| "enter E busy (Close_browser t owner) w =
     (case bind_thread t owner w of
        (Inl e, w) \<Rightarrow> (Over e, w)
      | (Inr p, w) \<Rightarrow>
          ((case close_session (Close_browser t owner) t (End_with (Finished ''closed'')) w of
              Some s \<Rightarrow> s | None \<Rightarrow> Over (Finished ''closed'')), w))"
| "enter E busy (Get_status t owner) w =
     (case dict_get (bw_bindings w) t of
        Some (o', p) \<Rightarrow> if o' \<noteq> owner then (Over (Refused ''permission''), w) else expire_first E busy (Get_status t owner) t w
      | None \<Rightarrow> expire_first E busy (Get_status t owner) t w)"
| "enter E busy (Select_profile t owner p) w =
     (if dict_get (bw_sessions w) t \<noteq> None then (Over (Refused ''profile_busy''), w)
      else (case p of
              Some k \<Rightarrow> (Want_profile (Select_profile t owner p) k True, w)
            | None \<Rightarrow>
                (case bind_thread t owner w of
                   (Inl e, w) \<Rightarrow> (Over e, w)
                 | (Inr q, w) \<Rightarrow> (Over (Finished ''selected''), w\<lparr>bw_bindings := dict_set t (owner, None) (bw_bindings w)\<rparr>))))"
| "enter E busy (Reap_idle t) w = expire_first E busy (Reap_idle t) t w"
| "enter E busy (Release_thread t) w =
     ((case close_session (Release_thread t) t (End_with (Finished ''released'')) w of
         Some s \<Rightarrow> s | None \<Rightarrow> Over (Finished ''released'')), w)"
| "enter E busy (Open_browser t owner) w = bind_first E busy (Open_browser t owner) t w"
| "enter E busy (Issue_ticket t owner) w = bind_first E busy (Issue_ticket t owner) t w"
| "enter E busy r w = (Over (Finished ''done''), w)"

section \<open>Steps\<close>

text \<open>How an awaited call of the browser ends: it works, it fails, or it is cut off by the time limit or a cancellation.\<close>

datatype browser_outcome = Works_out | Fails | Cut_off

text \<open>\<open>_dispose\<close> once the session's lock is held, up to the driver's \<open>close\<close>.\<close>

definition begin_dispose :: "nat \<Rightarrow> browser_world \<Rightarrow> browser_world" where
  "begin_dispose g w = update_object g (\<lambda>s. s\<lparr>bs_closed := True, bs_controller := None\<rparr>) w"

definition drop_session :: "nat \<Rightarrow> browser_world \<Rightarrow> browser_world" where
  "drop_session g w =
     (case dict_get (bw_objects w) g of
        None \<Rightarrow> w
      | Some s \<Rightarrow> if dict_get (bw_sessions w) (bs_thread s) = Some g
                  then w\<lparr>bw_sessions := dict_pop (bs_thread s) (bw_sessions w)\<rparr> else w)"

fun record_completion :: "request \<Rightarrow> string \<Rightarrow> browser_world \<Rightarrow> browser_world" where
  "record_completion (Call_tool t owner c name f) s w = record_call t c f (Completed s) w"
| "record_completion (Hand_over t owner c f response) s w = record_call t c f (Completed s) w"
| "record_completion r s w = w"

definition after_dispose :: "browser_env \<Rightarrow> browser_lock set \<Rightarrow> request \<Rightarrow> nat \<Rightarrow> after \<Rightarrow> browser_outcome \<Rightarrow> browser_world
    \<Rightarrow> browser_stage \<times> browser_world" where
  "after_dispose E busy r g a x w =
     (let w = drop_session g w in
      if x = Cut_off then (Over Cancelled, w)
      else (case a of
              Go_on \<Rightarrow> proceed E busy r w
            | End_with e \<Rightarrow> (Over e, w)
            | Complete_with s \<Rightarrow> (Over (Finished s), record_completion r s w)))"

text \<open>The profile's lock is held; a profile that was selected must still be one of the account.\<close>

definition with_profile :: "request \<Rightarrow> string \<Rightarrow> bool \<Rightarrow> browser_world \<Rightarrow> browser_stage \<times> browser_world" where
  "with_profile r k named w =
     (case r of
        Select_profile t owner p \<Rightarrow>
          (case bind_thread t owner w of
             (Inl e, w) \<Rightarrow> (Over e, w)
           | (Inr q, w) \<Rightarrow>
               if dict_get (bw_profiles w) k \<noteq> Some owner then (Over (Refused ''permission''), w)
               else (Over (Finished ''selected''), w\<lparr>bw_bindings := dict_set t (owner, Some k) (bw_bindings w)\<rparr>))
      | _ \<Rightarrow>
          if named \<and> dict_get (bw_profiles w) k \<noteq> Some (owner_of r) then (Over (Refused ''permission''), w)
          else if profile_open k w then (Over (Refused ''profile_busy''), w)
          else (Launching r k, w))"

definition launched :: "request \<Rightarrow> string \<Rightarrow> browser_world \<Rightarrow> browser_stage \<times> browser_world" where
  "launched r k w =
     (case thread_of r of
        None \<Rightarrow> (Over (Refused ''invalid_input''), w)
      | Some t \<Rightarrow>
          ((case r of Open_browser _ _ \<Rightarrow> Over (Finished ''open'') | _ \<Rightarrow> Session_wait r (bw_next w)), new_session t (owner_of r) k w))"

text \<open>\<open>handoff\<close> under the session's lock: control passes to the user before the request is recorded.\<close>

definition give_control :: "browser_env \<Rightarrow> string \<Rightarrow> string \<Rightarrow> string \<Rightarrow> nat \<Rightarrow> browser_outcome \<Rightarrow> browser_world
    \<Rightarrow> browser_stage \<times> browser_world" where
  "give_control E t c f g x w =
     (let h = bw_next w; e = bw_wall w + be_idle_ttl E;
          w = active g (update_object g (\<lambda>s. s\<lparr>bs_handoff_id := Some h, bs_handoff_expires_at := Some e, bs_active_tab_id := None\<rparr>)
                (w\<lparr>bw_next := bw_next w + 1\<rparr>)) in
      if x = Works_out then (Over Interrupted, record_call t c f (Handed_over h g e) w)
      else (Over (Refused ''database''), update_object g (\<lambda>s. s\<lparr>bs_handoff_id := None, bs_handoff_expires_at := None\<rparr>) w))"

definition use_session :: "browser_env \<Rightarrow> request \<Rightarrow> nat \<Rightarrow> browser_outcome \<Rightarrow> browser_world \<Rightarrow> browser_stage \<times> browser_world" where
  "use_session E r g x w =
     (case assert_agent g w of
        Some e \<Rightarrow> (Over e, w)
      | None \<Rightarrow>
          (case r of
             Call_tool t owner c name f \<Rightarrow>
               (let w = active g w in
                if name = Unknown_tool then (Over (Refused ''invalid_input''), w)
                else if name = Browser_run
                then (Acting r g, take_up t c f w)
                else (Acting r g, w))
           | Hand_over t owner c f response \<Rightarrow> give_control E t c f g x w
           | _ \<Rightarrow> (Over (Finished ''open''), w)))"

definition acted :: "request \<Rightarrow> nat \<Rightarrow> browser_outcome \<Rightarrow> browser_world \<Rightarrow> browser_stage \<times> browser_world" where
  "acted r g x w =
     (case r of
        Call_tool t owner c name f \<Rightarrow>
          (case x of
             Works_out \<Rightarrow> (Over (Finished ''content''),
               if journaled name then record_call t c f (Completed ''content'') (active g w) else active g w)
           | Fails \<Rightarrow> (Over (Refused (if journaled name then ''unknown_outcome'' else ''failed'')), active g w)
           | Cut_off \<Rightarrow> (Disposing r g (End_with Cancelled), begin_dispose g w))
      | _ \<Rightarrow> (Over Cancelled, w))"

text \<open>The end of a handoff under the session's lock: control goes back, the agent's view of the page is made anew.\<close>

definition take_control :: "request \<Rightarrow> nat \<Rightarrow> bool \<Rightarrow> browser_world \<Rightarrow> browser_stage \<times> browser_world" where
  "take_control r g cancel w =
     (let w = active g (update_object g (\<lambda>s. s\<lparr>bs_handoff_id := None, bs_handoff_expires_at := None, bs_controller := None\<rparr>) w) in
      if cancel then (Disposing r g (Complete_with ''cancelled''), begin_dispose g w) else (Returning r g, w))"

definition returned :: "request \<Rightarrow> nat \<Rightarrow> browser_outcome \<Rightarrow> bool \<Rightarrow> browser_world \<Rightarrow> browser_stage \<times> browser_world" where
  "returned r g x timed_out w =
     (case x of
        Works_out \<Rightarrow> (Over (Finished ''returned''), record_completion r ''returned'' (active g (update_object g (\<lambda>s. s\<lparr>bs_active_tab_id := None\<rparr>) w)))
      | Fails \<Rightarrow> (Disposing r g (Complete_with ''session_lost''), begin_dispose g w)
      | Cut_off \<Rightarrow> (Disposing r g (if timed_out then Complete_with ''session_lost'' else End_with Cancelled), begin_dispose g w))"

definition viewer_takes :: "nat \<Rightarrow> nat \<Rightarrow> nat \<Rightarrow> nat \<Rightarrow> browser_world \<Rightarrow> (browser_world) option" where
  "viewer_takes v g h tab w =
     (case dict_get (bw_objects w) g of
        None \<Rightarrow> None
      | Some s \<Rightarrow>
          if bs_closed s \<or> bs_handoff_id s \<noteq> Some h \<or> bs_controller s \<notin> {None, Some v} then None
          else Some (update_object g (\<lambda>s. s\<lparr>bs_controller := Some v, bs_active_tab_id := Some tab\<rparr>) w))"

definition may_dispose :: "request \<Rightarrow> nat \<Rightarrow> browser_world \<Rightarrow> browser_end option" where
  "may_dispose r g w = (case r of Call_tool t owner c Browser_close f \<Rightarrow> assert_agent g w | _ \<Rightarrow> None)"

text \<open>One step of an operation among others, whose locks are \<open>busy\<close>; nothing when it has to wait.\<close>

fun advance :: "browser_env \<Rightarrow> browser_lock set \<Rightarrow> browser_outcome \<Rightarrow> bool \<Rightarrow> browser_stage \<Rightarrow> browser_world
    \<Rightarrow> (browser_stage \<times> browser_world) option" where
  "advance E busy x b (Arrived r) w =
     (case thread_of r of
        Some t \<Rightarrow>
          if Thread_lock t \<in> busy
          then (case r of Reap_idle _ \<Rightarrow> Some (Over (Finished ''busy''), w) | _ \<Rightarrow> if x = Cut_off then Some (Over Cancelled, w) else None)
          else if bw_closing w \<and> r \<noteq> Release_thread t then Some (Over (Refused ''session_lost''), w)
          else Some (enter E busy r w)
      | None \<Rightarrow>
          (case r of
             Delete_profile owner p \<Rightarrow>
               if Profile_lock p \<in> busy then None
               else if dict_get (bw_profiles w) p \<noteq> Some owner then Some (Over (Refused ''permission''), w)
               else if profile_open p w then Some (Over (Refused ''profile_busy''), w)
               else Some (Removing r p, w)
           | Viewer_input v g h tab \<Rightarrow>
               if Session_lock g \<in> busy then (if x = Cut_off then Some (Over Cancelled, w) else None)
               else (case viewer_takes v g h tab w of
                       None \<Rightarrow> Some (Over (Refused ''human_control''), w)
                     | Some w \<Rightarrow> Some (Inputting r v g, w))
           | _ \<Rightarrow> None))"
| "advance E busy x b (Dispose_wait r g a) w =
     (if x = Cut_off then Some (Over Cancelled, w)
      else if Session_lock g \<in> busy then None
      else (case may_dispose r g w of
              Some e \<Rightarrow> Some (Over e, w)
            | None \<Rightarrow> Some (Disposing r g a, begin_dispose g w)))"
| "advance E busy x b (Disposing r g a) w = Some (after_dispose E busy r g a x w)"
| "advance E busy x b (Want_profile r k named) w =
     (if x = Cut_off then Some (Over Cancelled, w)
      else if Profile_lock k \<in> busy then None
      else Some (with_profile r k named w))"
| "advance E busy x b (Launching r k) w =
     (if x = Works_out then Some (launched r k w) else Some (Over (Refused ''browser_unavailable''), w))"
| "advance E busy x b (Session_wait r g) w =
     (if x = Cut_off then Some (Over Cancelled, w)
      else if Session_lock g \<in> busy then None
      else Some (use_session E r g x w))"
| "advance E busy x b (Acting r g) w = Some (acted r g x w)"
| "advance E busy x b (Return_wait r g cancel) w =
     (if x = Cut_off then Some (Over Cancelled, w)
      else if Session_lock g \<in> busy then None
      else Some (take_control r g cancel w))"
| "advance E busy x b (Returning r g) w = Some (returned r g x b w)"
| "advance E busy x b (Checking r g) w =
     (if x = Works_out then Some (Over (Finished ''status''), w)
      else if x = Cut_off then Some (Over Cancelled, w)
      else if Session_lock g \<in> busy then Some (Over (Finished ''status''), w)
      else Some (Dispose_wait r g (End_with (Finished ''status'')), w))"
| "advance E busy x b (Removing r k) w =
     (if x = Works_out
      then Some (Over (Finished ''deleted''),
        w\<lparr>bw_profiles := dict_pop k (bw_profiles w),
          bw_bindings := map (\<lambda>(t, o', p). (t, o', if p = Some k then None else p)) (bw_bindings w)\<rparr>)
      else Some (Over (Refused ''invalid_storage''), w))"
| "advance E busy x b (Inputting r v g) w = Some (if x = Works_out then (Over (Finished ''input''), active g w) else (Over Cancelled, w))"
| "advance E busy x b (Over e) w = None"

section \<open>Everything that happens\<close>

datatype browser_event =
    Ask nat request
  | Go nat browser_outcome bool
  | Pass int nat
  | Connect nat nat
  | Select_tab nat nat nat
  | Disconnect nat nat
  | Shut_down
  | Restart

type_synonym operations = "(nat, browser_stage) dict"

definition locks_beside :: "nat \<Rightarrow> operations \<Rightarrow> browser_lock set" where
  "locks_beside p ps = set (concat (map (locks_of \<circ> snd) (filter (\<lambda>(q, s). q \<noteq> p) ps)))"

definition all_locks :: "operations \<Rightarrow> browser_lock set" where
  "all_locks ps = set (concat (map (locks_of \<circ> snd) ps))"

text \<open>\<open>consume_ticket\<close>: a ticket is used up by any attempt.\<close>

definition consume_ticket :: "nat \<Rightarrow> browser_world \<Rightarrow> nat option \<times> browser_world" where
  "consume_ticket token w =
     (let v = w\<lparr>bw_tickets := dict_pop token (bw_tickets w)\<rparr> in
      case dict_get (bw_tickets w) token of
        None \<Rightarrow> (None, v)
      | Some tk \<Rightarrow>
          if tk_expires tk < bw_mono w then (None, v)
          else (case dict_get (bw_sessions w) (tk_thread tk) of
                  None \<Rightarrow> (None, v)
                | Some g \<Rightarrow>
                    (case dict_get (bw_objects w) g of
                       None \<Rightarrow> (None, v)
                     | Some s \<Rightarrow> if bs_closed s \<or> bs_owner s \<noteq> tk_owner tk \<or> g \<noteq> tk_generation tk then (None, v)
                                 else (Some g, v))))"

fun connect_viewer :: "nat \<Rightarrow> nat option \<times> browser_world \<Rightarrow> browser_world" where
  "connect_viewer v (None, w) = w"
| "connect_viewer v (Some g, w) = w\<lparr>bw_viewers := (v, g) # bw_viewers w\<rparr>"

fun input_of :: "browser_stage \<Rightarrow> (nat \<times> nat) list" where
  "input_of (Inputting r v g) = [(v, g)]"
| "input_of (Arrived (Viewer_input v g h tab)) = [(v, g)]"
| "input_of s = []"

text \<open>A connection ends after its input; leaving gives up the control. A restart loses everything that is not on disk.\<close>

fun browser_step :: "browser_env \<Rightarrow> browser_event \<Rightarrow> operations \<times> browser_world \<Rightarrow> operations \<times> browser_world" where
  "browser_step E (Ask p r) (ps, w) =
     (case r of
        Viewer_input v g h tab \<Rightarrow> if dict_get ps p \<noteq> None \<or> (v, g) \<notin> set (bw_viewers w) then (ps, w) else (dict_set p (Arrived r) ps, w)
      | _ \<Rightarrow> if dict_get ps p \<noteq> None then (ps, w) else (dict_set p (Arrived r) ps, w))"
| "browser_step E (Go p x b) (ps, w) =
     (case dict_get ps p of
        None \<Rightarrow> (ps, w)
      | Some s \<Rightarrow> (case advance E (locks_beside p ps) x b s w of None \<Rightarrow> (ps, w) | Some (s', w') \<Rightarrow> (dict_set p s' ps, w')))"
| "browser_step E (Pass wall elapsed) (ps, w) = (ps, w\<lparr>bw_wall := wall, bw_mono := bw_mono w + int elapsed\<rparr>)"
| "browser_step E (Connect v token) (ps, w) = (ps, connect_viewer v (consume_ticket token w))"
| "browser_step E (Select_tab v g tab) (ps, w) =
     (ps,
      if (v, g) \<notin> set (bw_viewers w) \<or> Session_lock g \<in> all_locks ps then w
      else (case dict_get (bw_objects w) g of
              None \<Rightarrow> w
            | Some s \<Rightarrow>
                if bs_handoff_id s = None \<or> bs_controller s \<notin> {None, Some v} then w
                else active g (update_object g (\<lambda>s. s\<lparr>bs_controller := Some v, bs_active_tab_id := Some tab\<rparr>) w)))"
| "browser_step E (Disconnect v g) (ps, w) =
     (ps,
      if (v, g) \<in> set (concat (map (input_of \<circ> snd) ps)) then w
      else (update_object g (\<lambda>s. if bs_controller s = Some v then s\<lparr>bs_controller := None\<rparr> else s) w)
             \<lparr>bw_viewers := filter (\<lambda>x. x \<noteq> (v, g)) (bw_viewers w)\<rparr>)"
| "browser_step E Shut_down (ps, w) = (ps, w\<lparr>bw_closing := True\<rparr>)"
| "browser_step E Restart (ps, w) =
     ([], w\<lparr>bw_objects := [], bw_sessions := [], bw_tickets := [], bw_closing := False, bw_viewers := []\<rparr>)"

fun browser_history :: "browser_env \<Rightarrow> browser_event list \<Rightarrow> operations \<times> browser_world \<Rightarrow> operations \<times> browser_world" where
  "browser_history E [] x = x"
| "browser_history E (e # es) x = browser_history E es (browser_step E e x)"

definition new_browsers :: "(string, string) dict \<Rightarrow> operations \<times> browser_world" where
  "new_browsers profiles = ([], \<lparr>bw_bindings = [], bw_profiles = profiles, bw_journal = [], bw_objects = [], bw_sessions = [],
     bw_tickets = [], bw_closing = False, bw_next = 0, bw_wall = 0, bw_mono = 0, bw_started = [], bw_viewers = []\<rparr>)"

end
