(* ===== verification/Browser_Proofs.thy ===== *)
theory Browser_Proofs
  imports Browser_Sessions
begin

text \<open>
  What holds of the browsers in every reachable state: a login profile is open in one conversation at a time, an
  agent and a user never act on a browser at once, and a call that changes something reaches it at most once.
\<close>

section \<open>What a step may change\<close>

abbreviation journal_at :: "browser_world \<Rightarrow> string \<times> string \<Rightarrow> browser_invocation option" where
  "journal_at w \<equiv> dict_get (bw_journal w)"

abbreviation object_at :: "browser_world \<Rightarrow> nat \<Rightarrow> browser_session option" where
  "object_at w \<equiv> dict_get (bw_objects w)"

abbreviation session_at :: "browser_world \<Rightarrow> string \<Rightarrow> nat option" where
  "session_at w \<equiv> dict_get (bw_sessions w)"

definition same_identity :: "browser_session \<Rightarrow> browser_session \<Rightarrow> bool" where
  "same_identity s s' = (bs_thread s' = bs_thread s \<and> bs_profile_key s' = bs_profile_key s \<and> bs_owner s' = bs_owner s)"

text \<open>What others hold a lock on stays as it is; a new session is made under the lock of its profile.\<close>

definition changes :: "browser_lock set \<Rightarrow> browser_world \<Rightarrow> browser_world \<Rightarrow> bool" where
  "changes busy w w' =
     ((\<forall>t. Thread_lock t \<in> busy \<longrightarrow> (\<forall>c. journal_at w' (t, c) = journal_at w (t, c)) \<and> session_at w' t = session_at w t)
      \<and> (\<forall>g s. object_at w g = Some s \<longrightarrow> (\<exists>s'. object_at w' g = Some s' \<and> same_identity s s' \<and> (Session_lock g \<in> busy \<longrightarrow> s' = s)))
      \<and> (\<forall>t g. session_at w' t = Some g \<longrightarrow> session_at w t = Some g \<or> (\<exists>s. object_at w' g = Some s \<and> Profile_lock (bs_profile_key s) \<notin> busy))
      \<and> bw_next w \<le> bw_next w' \<and> bw_viewers w' = bw_viewers w
      \<and> (\<forall>n tk. (n, tk) \<in> set (bw_tickets w') \<longrightarrow> n < bw_next w \<longrightarrow> (n, tk) \<in> set (bw_tickets w)))"

definition world_ok :: "browser_world \<Rightarrow> bool" where
  "world_ok w =
     ((\<forall>g s. object_at w g = Some s \<longrightarrow> g < bw_next w)
      \<and> (\<forall>t g. session_at w t = Some g \<longrightarrow> (\<exists>s. object_at w g = Some s \<and> bs_thread s = t))
      \<and> (\<forall>t u g h s s'. session_at w t = Some g \<longrightarrow> session_at w u = Some h \<longrightarrow> object_at w g = Some s \<longrightarrow> object_at w h = Some s'
           \<longrightarrow> bs_profile_key s = bs_profile_key s' \<longrightarrow> t = u)
      \<and> distinct (bw_started w) \<and> (\<forall>t c. (t, c) \<in> set (bw_started w) \<longrightarrow> journal_at w (t, c) \<noteq> None))"

definition good :: "browser_lock set \<Rightarrow> browser_world \<Rightarrow> browser_world \<Rightarrow> bool" where
  "good busy w w' = (world_ok w \<longrightarrow> world_ok w' \<and> changes busy w w')"

lemma world_okI:
  assumes "\<And>g s. object_at w g = Some s \<Longrightarrow> g < bw_next w"
    and "\<And>t g. session_at w t = Some g \<Longrightarrow> \<exists>s. object_at w g = Some s \<and> bs_thread s = t"
    and "\<And>t u g h s s'. session_at w t = Some g \<Longrightarrow> session_at w u = Some h \<Longrightarrow> object_at w g = Some s \<Longrightarrow> object_at w h = Some s'
           \<Longrightarrow> bs_profile_key s = bs_profile_key s' \<Longrightarrow> t = u"
    and "distinct (bw_started w)" and "\<And>t c. (t, c) \<in> set (bw_started w) \<Longrightarrow> journal_at w (t, c) \<noteq> None"
  shows "world_ok w"
  unfolding world_ok_def using assms by simp

lemma world_okD:
  assumes "world_ok w"
  shows "object_at w g = Some s \<Longrightarrow> g < bw_next w"
    and "session_at w t = Some g \<Longrightarrow> \<exists>s. object_at w g = Some s \<and> bs_thread s = t"
    and "session_at w t = Some g \<Longrightarrow> session_at w u = Some h \<Longrightarrow> object_at w g = Some s \<Longrightarrow> object_at w h = Some s'
           \<Longrightarrow> bs_profile_key s = bs_profile_key s' \<Longrightarrow> t = u"
    and "distinct (bw_started w)" and "(t, c) \<in> set (bw_started w) \<Longrightarrow> journal_at w (t, c) \<noteq> None"
  using assms unfolding world_ok_def by blast+

lemma same_identity_refl [simp]: "same_identity s s"
  by (simp add: same_identity_def)

lemma same_identity_trans: "same_identity s s' \<Longrightarrow> same_identity s' s'' \<Longrightarrow> same_identity s s''"
  by (simp add: same_identity_def)

lemma changes_refl: "changes busy w w"
  by (auto simp: changes_def)

lemma changes_tickets:
  assumes "changes busy w w'"
  shows "bw_next w \<le> bw_next w'" and "bw_viewers w' = bw_viewers w"
    and "(n, tk) \<in> set (bw_tickets w') \<Longrightarrow> n < bw_next w \<Longrightarrow> (n, tk) \<in> set (bw_tickets w)"
  using assms unfolding changes_def by blast+

lemma changesD:
  assumes "changes busy w w'"
  shows "Thread_lock t \<in> busy \<Longrightarrow> journal_at w' (t, c) = journal_at w (t, c)"
    and "Thread_lock t \<in> busy \<Longrightarrow> session_at w' t = session_at w t"
    and "object_at w g = Some s \<Longrightarrow> \<exists>s'. object_at w' g = Some s' \<and> same_identity s s'"
    and "object_at w g = Some s \<Longrightarrow> Session_lock g \<in> busy \<Longrightarrow> object_at w' g = Some s"
    and "session_at w' t = Some g \<Longrightarrow> session_at w t = Some g \<or> (\<exists>s. object_at w' g = Some s \<and> Profile_lock (bs_profile_key s) \<notin> busy)"
  using assms unfolding changes_def by blast+

lemma changesI:
  assumes "\<And>t c. Thread_lock t \<in> busy \<Longrightarrow> journal_at w' (t, c) = journal_at w (t, c)"
    and "\<And>t. Thread_lock t \<in> busy \<Longrightarrow> session_at w' t = session_at w t"
    and "\<And>g s. object_at w g = Some s \<Longrightarrow> \<exists>s'. object_at w' g = Some s' \<and> same_identity s s' \<and> (Session_lock g \<in> busy \<longrightarrow> s' = s)"
    and "\<And>t g. session_at w' t = Some g \<Longrightarrow> session_at w t = Some g \<or> (\<exists>s. object_at w' g = Some s \<and> Profile_lock (bs_profile_key s) \<notin> busy)"
    and "bw_next w \<le> bw_next w'" and "bw_viewers w' = bw_viewers w"
    and "\<And>n tk. (n, tk) \<in> set (bw_tickets w') \<Longrightarrow> n < bw_next w \<Longrightarrow> (n, tk) \<in> set (bw_tickets w)"
  shows "changes busy w w'"
  unfolding changes_def using assms by blast

lemma changes_trans:
  assumes "changes busy u v" and "changes busy v w"
  shows "changes busy u w"
proof (rule changesI)
  fix g s assume s: "object_at u g = Some s"
  obtain s' where s': "object_at v g = Some s'" "same_identity s s'" using changesD(3) [OF assms(1) s] by blast
  obtain s'' where s'': "object_at w g = Some s''" "same_identity s' s''" using changesD(3) [OF assms(2) s'(1)] by blast
  have "Session_lock g \<in> busy \<longrightarrow> s'' = s"
    using changesD(4) [OF assms(1) s] changesD(4) [OF assms(2)] s'' by fastforce
  then show "\<exists>s'. object_at w g = Some s' \<and> same_identity s s' \<and> (Session_lock g \<in> busy \<longrightarrow> s' = s)"
    using s'' s'(2) same_identity_trans by blast
next
  fix t g assume g: "session_at w t = Some g"
  show "session_at u t = Some g \<or> (\<exists>s. object_at w g = Some s \<and> Profile_lock (bs_profile_key s) \<notin> busy)"
  proof (cases "session_at v t = Some g")
    case True
    then consider "session_at u t = Some g" | s where "object_at v g = Some s" "Profile_lock (bs_profile_key s) \<notin> busy"
      using changesD(5) [OF assms(1)] by blast
    then show ?thesis
    proof cases
      case (2 s)
      then show ?thesis using changesD(3) [OF assms(2) 2(1)] by (auto simp: same_identity_def)
    qed simp
  next
    case False
    then show ?thesis using changesD(5) [OF assms(2) g] by blast
  qed
next
  fix n tk assume "(n, tk) \<in> set (bw_tickets w)" "n < bw_next u"
  then show "(n, tk) \<in> set (bw_tickets u)" using changes_tickets [OF assms(1)] changes_tickets [OF assms(2)] by fastforce
qed (use changesD [OF assms(1)] changesD [OF assms(2)] changes_tickets(1,2) [OF assms(1)] changes_tickets(1,2) [OF assms(2)] in auto)

lemma good_refl [simp]: "good busy w w"
  by (simp add: good_def changes_refl)

lemma good_trans: "good busy u v \<Longrightarrow> good busy v w \<Longrightarrow> good busy u w"
  by (auto simp: good_def intro: changes_trans)

text \<open>Fields that no invariant speaks of.\<close>

lemma good_same:
  assumes "bw_journal w' = bw_journal w" "bw_objects w' = bw_objects w" "bw_sessions w' = bw_sessions w"
    "bw_started w' = bw_started w" "bw_next w \<le> bw_next w'" "bw_viewers w' = bw_viewers w"
    "\<And>n tk. (n, tk) \<in> set (bw_tickets w') \<Longrightarrow> n < bw_next w \<Longrightarrow> (n, tk) \<in> set (bw_tickets w)"
  shows "good busy w w'"
proof -
  have "world_ok w \<Longrightarrow> world_ok w'"
  proof (rule world_okI)
    assume ok: "world_ok w"
    show "\<And>g s. object_at w' g = Some s \<Longrightarrow> g < bw_next w'" using world_okD(1) [OF ok] assms by fastforce
  qed (use assms world_okD(2-5) in \<open>force+\<close>)
  moreover have "changes busy w w'" unfolding changes_def using assms by auto
  ultimately show ?thesis by (simp add: good_def)
qed

section \<open>The single changes\<close>

lemma good_record:
  assumes "Thread_lock t \<notin> busy"
  shows "good busy w (record_call t c f x w)"
proof -
  have at: "journal_at (record_call t c f x w) k = (if k = (t, c) then Some \<lparr>iv_arguments_hash = (case journal_at w (t, c) of None \<Rightarrow> f | Some iv \<Rightarrow> iv_arguments_hash iv), iv_status = x\<rparr> else journal_at w k)" for k
    by (simp add: record_call_def dict_simps)
  have same: "bw_objects (record_call t c f x w) = bw_objects w" "bw_sessions (record_call t c f x w) = bw_sessions w"
    "bw_started (record_call t c f x w) = bw_started w" "bw_next (record_call t c f x w) = bw_next w" "bw_viewers (record_call t c f x w) = bw_viewers w"
    "bw_tickets (record_call t c f x w) = bw_tickets w"
    by (simp_all add: record_call_def Let_def)
  have "world_ok w \<Longrightarrow> world_ok (record_call t c f x w)"
    by (rule world_okI) (use world_okD [of w] in \<open>auto simp: same at\<close>)
  moreover have "changes busy w (record_call t c f x w)"
    using assms by (intro changesI) (auto simp: same at)
  ultimately show ?thesis by (simp add: good_def)
qed

lemma map_of_expire: "map_of (map (expire_entry t now) xs) k
    = map_option (\<lambda>iv. snd (expire_entry t now (k, iv))) (map_of xs k)"
  by (induction xs) (auto simp: expire_entry_def)

lemma good_expire:
  assumes "Thread_lock t \<notin> busy"
  shows "good busy w (expire_handoffs t w)"
proof -
  have at: "journal_at (expire_handoffs t w) k = map_option (\<lambda>iv. snd (expire_entry t (bw_wall w) (k, iv))) (journal_at w k)" for k
    by (simp add: expire_handoffs_def map_of_expire)
  have other: "u \<noteq> t \<Longrightarrow> journal_at (expire_handoffs t w) (u, c) = journal_at w (u, c)" for u c
    unfolding at by (cases "journal_at w (u, c)") (auto simp: expire_entry_def)
  have same: "bw_objects (expire_handoffs t w) = bw_objects w" "bw_sessions (expire_handoffs t w) = bw_sessions w"
    "bw_started (expire_handoffs t w) = bw_started w" "bw_next (expire_handoffs t w) = bw_next w" "bw_viewers (expire_handoffs t w) = bw_viewers w"
    "bw_tickets (expire_handoffs t w) = bw_tickets w"
    by (simp_all add: expire_handoffs_def)
  have "world_ok w \<Longrightarrow> world_ok (expire_handoffs t w)"
    by (rule world_okI) (use world_okD [of w] in \<open>auto simp: same at\<close>)
  moreover have "changes busy w (expire_handoffs t w)"
  proof (rule changesI)
    fix u c assume "Thread_lock u \<in> busy"
    then show "journal_at (expire_handoffs t w) (u, c) = journal_at w (u, c)" using assms other by metis
  qed (auto simp: same)
  ultimately show ?thesis by (simp add: good_def)
qed

lemma good_update:
  assumes "\<And>s. same_identity s (f s)" and "Session_lock g \<notin> busy"
  shows "good busy w (update_object g f w)"
proof -
  have at: "object_at (update_object g f w) h = (if h = g then map_option f (object_at w g) else object_at w h)" for h
    by (simp add: update_object_def dict_simps)
  have same: "bw_journal (update_object g f w) = bw_journal w" "bw_sessions (update_object g f w) = bw_sessions w"
    "bw_started (update_object g f w) = bw_started w" "bw_next (update_object g f w) = bw_next w" "bw_viewers (update_object g f w) = bw_viewers w"
    "bw_tickets (update_object g f w) = bw_tickets w"
    by (simp_all add: update_object_def)
  have ids: "bs_thread (f s) = bs_thread s" "bs_profile_key (f s) = bs_profile_key s" for s
    using assms(1) [of s] by (simp_all add: same_identity_def)
  have earlier: "object_at (update_object g f w) h = Some s' \<Longrightarrow> \<exists>s. object_at w h = Some s \<and> bs_thread s' = bs_thread s \<and> bs_profile_key s' = bs_profile_key s" for h s'
    using at ids by (auto split: if_splits)
  have "world_ok (update_object g f w)" if ok: "world_ok w"
  proof (rule world_okI)
    fix h s assume "object_at (update_object g f w) h = Some s"
    then show "h < bw_next (update_object g f w)" using earlier world_okD(1) [OF ok] same by metis
  next
    fix t h assume "session_at (update_object g f w) t = Some h"
    then show "\<exists>s. object_at (update_object g f w) h = Some s \<and> bs_thread s = t"
      using world_okD(2) [OF ok, of t h] same at ids by fastforce
  next
    fix t u h i s s'
    assume "session_at (update_object g f w) t = Some h" "session_at (update_object g f w) u = Some i"
      "object_at (update_object g f w) h = Some s" "object_at (update_object g f w) i = Some s'" "bs_profile_key s = bs_profile_key s'"
    then show "t = u" using earlier [of h s] earlier [of i s'] world_okD(3) [OF ok, of t h u i] same by metis
  qed (use world_okD(4,5) [OF ok] same in auto)
  moreover have "changes busy w (update_object g f w)"
    using assms by (intro changesI) (auto simp: same at)
  ultimately show ?thesis by (simp add: good_def)
qed

lemma good_active: "Session_lock g \<notin> busy \<Longrightarrow> good busy w (active g w)"
  unfolding active_def by (rule good_update) (simp add: same_identity_def)

lemma good_begin_dispose: "Session_lock g \<notin> busy \<Longrightarrow> good busy w (begin_dispose g w)"
  unfolding begin_dispose_def by (rule good_update) (simp add: same_identity_def)

lemma good_drop:
  assumes "object_at w g = Some s" and "Thread_lock (bs_thread s) \<notin> busy"
  shows "good busy w (drop_session g w)"
proof -
  have at: "session_at (drop_session g w) t = (if t = bs_thread s \<and> session_at w t = Some g then None else session_at w t)" for t
    using assms(1) by (auto simp: drop_session_def dict_simps)
  have same: "bw_journal (drop_session g w) = bw_journal w" "bw_objects (drop_session g w) = bw_objects w"
    "bw_started (drop_session g w) = bw_started w" "bw_next (drop_session g w) = bw_next w" "bw_viewers (drop_session g w) = bw_viewers w"
    "bw_tickets (drop_session g w) = bw_tickets w"
    using assms(1) by (simp_all add: drop_session_def)
  have sub: "session_at (drop_session g w) t = Some h \<Longrightarrow> session_at w t = Some h" for t h
    using at by (auto split: if_splits)
  have "world_ok (drop_session g w)" if ok: "world_ok w"
  proof (rule world_okI)
    fix t u h i x y
    assume "session_at (drop_session g w) t = Some h" "session_at (drop_session g w) u = Some i"
      "object_at (drop_session g w) h = Some x" "object_at (drop_session g w) i = Some y" "bs_profile_key x = bs_profile_key y"
    then show "t = u" using sub world_okD(3) [OF ok, of t h u i] same by metis
  next
    fix t h assume "session_at (drop_session g w) t = Some h"
    then show "\<exists>x. object_at (drop_session g w) h = Some x \<and> bs_thread x = t"
      using world_okD(2) [OF ok, of t h] sub same by simp
  qed (use world_okD(1,4,5) [OF ok] same in simp_all)
  moreover have "changes busy w (drop_session g w)"
  proof (rule changesI)
    fix t assume "Thread_lock t \<in> busy"
    then show "session_at (drop_session g w) t = session_at w t" using assms(2) at by (metis (no_types))
  next
    fix t h assume "session_at (drop_session g w) t = Some h"
    then show "session_at w t = Some h \<or> (\<exists>s. object_at (drop_session g w) h = Some s \<and> Profile_lock (bs_profile_key s) \<notin> busy)"
      using sub by blast
  qed (simp_all add: same)
  ultimately show ?thesis by (simp add: good_def)
qed

text \<open>A session of the profile is registered.\<close>

definition key_open :: "string \<Rightarrow> browser_world \<Rightarrow> bool" where
  "key_open k w = (\<exists>t g s. session_at w t = Some g \<and> object_at w g = Some s \<and> bs_profile_key s = k)"

lemma key_open_found:
  assumes "key_open k w"
  shows "profile_open k w"
proof -
  obtain t g s where s: "session_at w t = Some g" "object_at w g = Some s" "bs_profile_key s = k"
    using assms by (auto simp: key_open_def)
  have "(t, g) \<in> set (bw_sessions w)" using map_of_SomeD [OF s(1)] .
  then show ?thesis unfolding profile_open_def list_ex_iff using s by (intro bexI [of _ "(t, g)"]) simp_all
qed

lemma good_new_session:
  assumes "Thread_lock t \<notin> busy" and "Profile_lock k \<notin> busy" and "session_at w t = None" and "\<not> key_open k w"
  shows "good busy w (new_session t o' k w)"
proof -
  let ?v = "new_session t o' k w"
  obtain s where at: "object_at ?v h = (if h = bw_next w then Some s else object_at w h)"
    and s: "bs_thread s = t" "bs_profile_key s = k" for h
    by (rule that [of "\<lparr>bs_thread = t, bs_owner = o', bs_profile_key = k, bs_last_activity = bw_mono w,
         bs_handoff_id = None, bs_handoff_expires_at = None, bs_controller = None, bs_active_tab_id = None, bs_closed = False\<rparr>"])
      (simp_all add: new_session_def dict_simps)
  have sess: "session_at ?v u = (if u = t then Some (bw_next w) else session_at w u)" for u
    by (simp add: new_session_def dict_simps)
  have same: "bw_journal ?v = bw_journal w" "bw_started ?v = bw_started w" "bw_next ?v = bw_next w + 1" "bw_viewers ?v = bw_viewers w" "bw_tickets ?v = bw_tickets w"
    by (simp_all add: new_session_def)
  have free: "session_at w u = Some g \<Longrightarrow> object_at w g = Some x \<Longrightarrow> bs_profile_key x \<noteq> k" for u g x
    using assms(4) by (auto simp: key_open_def)
  show ?thesis
  proof (cases "world_ok w")
    case True
    note ok = world_okD [OF True]
    have old: "session_at w u = Some g \<Longrightarrow> object_at ?v g = object_at w g" for u g
      using ok(1) ok(2) at by fastforce
    have which: "(u = t \<and> bs_profile_key x = k) \<or> (u \<noteq> t \<and> session_at w u = Some g \<and> object_at w g = Some x)"
      if "session_at ?v u = Some g" "object_at ?v g = Some x" for u g x
    proof (cases "u = t")
      case True
      then have "g = bw_next w" using that(1) sess by simp
      then show ?thesis using that(2) at s True by simp
    next
      case False
      then have "session_at w u = Some g" using that(1) sess by simp
      then show ?thesis using that(2) old [of u g] False by simp
    qed
    have "world_ok ?v"
    proof (rule world_okI)
      fix g x assume "object_at ?v g = Some x"
      then show "g < bw_next ?v" using ok(1) at same by (fastforce split: if_splits)
    next
      fix u g assume "session_at ?v u = Some g"
      then show "\<exists>x. object_at ?v g = Some x \<and> bs_thread x = u"
        using old ok(2) at s sess by (cases "u = t") auto
    next
      fix u u' g g' x y
      assume a: "session_at ?v u = Some g" "session_at ?v u' = Some g'" "object_at ?v g = Some x" "object_at ?v g' = Some y"
        "bs_profile_key x = bs_profile_key y"
      show "u = u'"
        using which [OF a(1,3)] which [OF a(2,4)] free [of u g x] free [of u' g' y] ok(3) [of u g u' g' x y] a(5) by metis
    qed (use ok(4,5) same in auto)
    moreover have "changes busy w ?v"
    proof (rule changesI)
      fix g x assume "object_at w g = Some x"
      then show "\<exists>x'. object_at ?v g = Some x' \<and> same_identity x x' \<and> (Session_lock g \<in> busy \<longrightarrow> x' = x)"
        using ok(1) at by fastforce
    next
      fix u g assume "session_at ?v u = Some g"
      then show "session_at w u = Some g \<or> (\<exists>x. object_at ?v g = Some x \<and> Profile_lock (bs_profile_key x) \<notin> busy)"
        using sess at s assms(2) by (cases "u = t") auto
    qed (use assms(1) same sess in auto)
    ultimately show ?thesis by (simp add: good_def)
  qed (simp add: good_def)
qed

lemma good_bind: "bind_thread t o' w = (r, v) \<Longrightarrow> good busy w v"
  by (auto simp: bind_thread_def intro: good_same split: option.splits if_splits)

section \<open>What a stage relies on\<close>

definition bound_to :: "nat \<Rightarrow> request \<Rightarrow> browser_world \<Rightarrow> bool" where
  "bound_to g r w = (\<exists>s. object_at w g = Some s \<and> thread_of r = Some (bs_thread s))"

text \<open>A mutating call that has not reached the browser has no journal entry.\<close>

fun unstarted :: "request \<Rightarrow> browser_world \<Rightarrow> bool" where
  "unstarted (Call_tool t owner c name f) w = (name = Browser_run \<longrightarrow> journal_at w (t, c) = None)"
| "unstarted r w = True"

definition in_agents_hands :: "nat \<Rightarrow> browser_world \<Rightarrow> bool" where
  "in_agents_hands g w = (\<exists>s. object_at w g = Some s \<and> \<not> bs_closed s \<and> bs_handoff_id s = None)"

definition in_users_hands :: "nat \<Rightarrow> nat \<Rightarrow> browser_world \<Rightarrow> bool" where
  "in_users_hands v g w = (\<exists>s. object_at w g = Some s \<and> \<not> bs_closed s \<and> bs_handoff_id s \<noteq> None \<and> bs_controller s = Some v)"

fun selects :: "request \<Rightarrow> bool" where
  "selects (Select_profile t owner p) = True"
| "selects r = False"

fun stage_ok :: "browser_world \<Rightarrow> browser_stage \<Rightarrow> bool" where
  "stage_ok w (Dispose_wait r g a) = (bound_to g r w \<and> (a = Go_on \<longrightarrow> unstarted r w))"
| "stage_ok w (Disposing r g a) = (bound_to g r w \<and> (a = Go_on \<longrightarrow> unstarted r w))"
| "stage_ok w (Want_profile r k n) = (unstarted r w \<and> (\<exists>t. thread_of r = Some t \<and> (selects r \<or> session_at w t = None)))"
| "stage_ok w (Launching r k) = (unstarted r w \<and> (\<exists>t. thread_of r = Some t \<and> session_at w t = None) \<and> \<not> key_open k w)"
| "stage_ok w (Session_wait r g) = (bound_to g r w \<and> unstarted r w)"
| "stage_ok w (Acting r g) = (bound_to g r w \<and> in_agents_hands g w)"
| "stage_ok w (Return_wait r g c) = bound_to g r w"
| "stage_ok w (Returning r g) = bound_to g r w"
| "stage_ok w (Checking r g) = bound_to g r w"
| "stage_ok w (Removing r k) = (\<not> key_open k w)"
| "stage_ok w (Inputting r v g) = in_users_hands v g w"
| "stage_ok w (Arrived r) = True"
| "stage_ok w (Over e) = True"

lemma bound_changes:
  assumes "changes busy w w'" and "bound_to g r w"
  shows "bound_to g r w'"
proof -
  obtain s where s: "object_at w g = Some s" "thread_of r = Some (bs_thread s)" using assms(2) by (auto simp: bound_to_def)
  obtain s' where "object_at w' g = Some s'" "same_identity s s'" using changesD(3) [OF assms(1) s(1)] by blast
  then show ?thesis using s(2) by (auto simp: bound_to_def same_identity_def)
qed

lemma key_open_changes:
  assumes "changes busy w w'" and "world_ok w" and "Profile_lock k \<in> busy" and "key_open k w'"
  shows "key_open k w"
proof -
  obtain t g s where s: "session_at w' t = Some g" "object_at w' g = Some s" "bs_profile_key s = k"
    using assms(4) by (auto simp: key_open_def)
  then have "session_at w t = Some g" using changesD(5) [OF assms(1) s(1)] assms(3) by auto
  moreover obtain s' where "object_at w g = Some s'" using world_okD(2) [OF assms(2) calculation] by blast
  moreover have "bs_profile_key s' = k"
    using changesD(3) [OF assms(1) \<open>object_at w g = Some s'\<close>] s by (auto simp: same_identity_def)
  ultimately show ?thesis by (auto simp: key_open_def)
qed

lemma thread_lock_in: "thread_of r = Some t \<Longrightarrow> set (thread_lock r) = {Thread_lock t}"
  by (simp add: thread_lock_def)

lemma unstarted_changes:
  assumes "changes busy w w'" and "set (thread_lock r) \<subseteq> busy" and "unstarted r w"
  shows "unstarted r w'"
proof (cases r)
  case (Call_tool t owner c name f)
  then show ?thesis using assms changesD(1) [OF assms(1), of t c] by (simp add: thread_lock_def)
qed simp_all

lemma agents_changes: "changes busy w w' \<Longrightarrow> Session_lock g \<in> busy \<Longrightarrow> in_agents_hands g w \<Longrightarrow> in_agents_hands g w'"
  using changesD(4) by (fastforce simp: in_agents_hands_def)

lemma users_changes: "changes busy w w' \<Longrightarrow> Session_lock g \<in> busy \<Longrightarrow> in_users_hands v g w \<Longrightarrow> in_users_hands v g w'"
  using changesD(4) by (fastforce simp: in_users_hands_def)

lemma stage_ok_changes:
  assumes "stage_ok w s" and "set (locks_of s) \<subseteq> busy" and "changes busy w w'" and "world_ok w"
  shows "stage_ok w' s"
proof (cases s)
  case (Want_profile r k n)
  then show ?thesis
    using assms unstarted_changes [OF assms(3), of r] changesD(2) [OF assms(3)] by (auto simp: thread_lock_in)
next
  case (Launching r k)
  then show ?thesis
    using assms unstarted_changes [OF assms(3), of r] changesD(2) [OF assms(3)] key_open_changes [OF assms(3,4)]
    by (auto simp: thread_lock_in)
next
  case (Removing r k)
  then show ?thesis using assms key_open_changes [OF assms(3,4)] by auto
next
  case (Inputting r v g)
  then show ?thesis using assms users_changes [OF assms(3)] by auto
next
  case (Acting r g)
  then show ?thesis using assms agents_changes [OF assms(3)] bound_changes [OF assms(3)] by auto
qed (use assms bound_changes [OF assms(3)] unstarted_changes [OF assms(3)] in auto)

section \<open>Every step keeps them\<close>

definition step_ok :: "browser_lock set \<Rightarrow> browser_world \<Rightarrow> browser_stage \<times> browser_world \<Rightarrow> bool" where
  "step_ok busy w p = (good busy w (snd p) \<and> stage_ok (snd p) (fst p) \<and> set (locks_of (fst p)) \<inter> busy = {} \<and> input_of (fst p) = [])"

lemma step_over [intro]: "good busy w v \<Longrightarrow> step_ok busy w (Over e, v)"
  by (simp add: step_ok_def)

lemma step_after: "good busy w v \<Longrightarrow> step_ok busy v p \<Longrightarrow> step_ok busy w p"
  using good_trans by (auto simp: step_ok_def)

lemma free_lock: "thread_of r = Some t \<Longrightarrow> Thread_lock t \<notin> busy \<Longrightarrow> set (thread_lock r) \<inter> busy = {}"
  by (simp add: thread_lock_in)

lemma session_bound: "world_ok w \<Longrightarrow> session_at w t = Some g \<Longrightarrow> thread_of r = Some t \<Longrightarrow> bound_to g r w"
  using world_okD(2) by (fastforce simp: bound_to_def)

lemma ensure_ok:
  assumes "world_ok w" and "thread_of r = Some t" and "Thread_lock t \<notin> busy" and "unstarted r w"
  shows "step_ok busy w (ensure_session E r t w, w)"
  using session_bound [OF assms(1) _ assms(2)] assms(2,4) free_lock [OF assms(2,3)]
  by (auto simp: ensure_session_def step_ok_def split: option.splits request.splits)

lemma proceed_ok:
  assumes "world_ok w" and "thread_of r = Some t" and "Thread_lock t \<notin> busy" and "unstarted r w"
  shows "step_ok busy w (proceed E busy r w)"
proof (cases r)
  case (Open_browser u owner)
  then show ?thesis using ensure_ok [OF assms] assms(2) by simp
next
  case (Call_tool u owner c name f)
  then show ?thesis using ensure_ok [OF assms] assms(2) by simp
next
  case (Hand_over u owner c f response)
  have resume: "step_ok busy w (resume_handoff r t c f g cancel w)" for g cancel
    using session_bound [OF assms(1) _ assms(2)] free_lock [OF assms(2,3)] good_record [OF assms(3)]
    by (auto simp: resume_handoff_def step_ok_def Let_def)
  show ?thesis
    using ensure_ok [OF assms] resume Hand_over assms(2) step_over [OF good_refl]
    by (auto split: option.splits receipt.splits)
next
  case (Get_status u owner)
  then show ?thesis
    using session_bound [OF assms(1) _ assms(2)] free_lock [OF assms(2,3)] assms(2) by (auto simp: step_ok_def split: option.splits)
next
  case (Issue_ticket u owner)
  have "good busy w (w\<lparr>bw_tickets := dict_set (bw_next w) tk (filter P (bw_tickets w)), bw_next := Suc (bw_next w)\<rparr>)" for tk P
    using dict_set_subset [of "bw_next w" tk "filter P (bw_tickets w)"] by (intro good_same) auto
  then show ?thesis using Issue_ticket by (auto simp: issue_ticket_def step_ok_def split: option.splits)
next
  case (Reap_idle u)
  then show ?thesis
    using session_bound [OF assms(1) _ assms(2)] free_lock [OF assms(2,3)] assms(2) by (auto simp: step_ok_def split: option.splits)
qed (auto simp: step_ok_def)

lemma unstarted_expire: "unstarted r w \<Longrightarrow> unstarted r (expire_handoffs t w)"
  by (cases r) (simp_all add: expire_handoffs_def map_of_expire)

lemma good_ok: "good busy w v \<Longrightarrow> world_ok w \<Longrightarrow> world_ok v"
  by (simp add: good_def)

lemma outlived_session: "outlived t w = Some g \<Longrightarrow> session_at w t = Some g"
  by (auto simp: outlived_def split: option.splits if_splits)

lemma expire_ok:
  assumes "world_ok w" and "thread_of r = Some t" and "Thread_lock t \<notin> busy" and "unstarted r w"
  shows "step_ok busy w (expire_first E busy r t w)"
proof (cases "outlived t w")
  case None
  have good: "good busy w (expire_handoffs t w)" using good_expire [OF assms(3)] .
  have "step_ok busy (expire_handoffs t w) (proceed E busy r (expire_handoffs t w))"
    by (rule proceed_ok [OF good_ok [OF good assms(1)] assms(2,3) unstarted_expire [OF assms(4)]])
  then show ?thesis using step_after [OF good] None by (simp add: expire_first_def)
next
  case (Some g)
  have "bound_to g r (expire_handoffs t w)"
    using session_bound [OF assms(1) outlived_session [OF Some] assms(2)] by (simp add: bound_to_def expire_handoffs_def)
  then show ?thesis
    using Some good_expire [OF assms(3)] free_lock [OF assms(2,3)] unstarted_expire [OF assms(4)]
    by (simp add: expire_first_def step_ok_def)
qed

lemma unstarted_bind: "bind_thread t o' w = (x, v) \<Longrightarrow> unstarted r w \<Longrightarrow> unstarted r v"
  by (cases r) (auto simp: bind_thread_def split: option.splits if_splits)

lemma bind_ok:
  assumes "world_ok w" and "thread_of r = Some t" and "Thread_lock t \<notin> busy" and "unstarted r w"
  shows "step_ok busy w (bind_first E busy r t w)"
proof -
  obtain x v where x: "bind_thread t (owner_of r) w = (x, v)" by force
  have good: "good busy w v" using good_bind [OF x] .
  have "step_ok busy v (expire_first E busy r t v)"
    by (rule expire_ok [OF good_ok [OF good assms(1)] assms(2,3) unstarted_bind [OF x assms(4)]])
  then show ?thesis using x good step_after [OF good] by (auto simp: bind_first_def split: sum.splits)
qed

lemma close_ok:
  assumes "world_ok w" and "thread_of r = Some t" and "Thread_lock t \<notin> busy" and "close_session r t a w = Some s" and "a \<noteq> Go_on"
  shows "step_ok busy w (s, w)"
  using assms session_bound [OF assms(1) _ assms(2)] free_lock [OF assms(2,3)] by (auto simp: close_session_def step_ok_def)

lemma close_free:
  assumes "world_ok w" and "thread_of r = Some t" and "Thread_lock t \<notin> busy" and "a \<noteq> Go_on"
  shows "step_ok busy w ((case close_session r t a w of Some s \<Rightarrow> s | None \<Rightarrow> Over e), w)"
  using close_ok [OF assms(1-3) _ assms(4)] by (auto split: option.splits)

text \<open>A call begins: its entry is made in the journal in the same step.\<close>

lemma good_start:
  assumes "Thread_lock t \<notin> busy" and "journal_at w (t, c) = None"
  shows "good busy w (take_up t c f w)"
proof -
  let ?v = "record_call t c f Running w" and ?x = "(record_call t c f Running w)\<lparr>bw_started := (t, c) # bw_started w\<rparr>"
  have v: "good busy w ?v" using good_record [OF assms(1)] .
  have same: "bw_journal ?x = bw_journal ?v" "bw_objects ?x = bw_objects ?v" "bw_sessions ?x = bw_sessions ?v" "bw_next ?x = bw_next ?v"
    by simp_all
  have started: "bw_started ?v = bw_started w" and now: "journal_at ?v (t, c) \<noteq> None"
    by (simp_all add: record_call_def Let_def dict_simps)
  show ?thesis
  proof (cases "world_ok w")
    case True
    note ok = world_okD [OF good_ok [OF v True]]
    have new: "(t, c) \<notin> set (bw_started w)" using world_okD(5) [OF True] assms(2) by blast
    have "world_ok ?x"
    proof (rule world_okI)
      show "distinct (bw_started ?x)" using ok(4) new started by simp
    next
      fix u d assume "(u, d) \<in> set (bw_started ?x)"
      then show "journal_at ?x (u, d) \<noteq> None" using ok(5) [of u d] now started same by auto
    next
      fix u u' g h s s'
      assume "session_at ?x u = Some g" "session_at ?x u' = Some h" "object_at ?x g = Some s" "object_at ?x h = Some s'"
        "bs_profile_key s = bs_profile_key s'"
      then show "u = u'" using ok(3) [of u g u' h s s'] same by simp
    qed (use ok(1,2) same in simp_all)
    moreover have "changes busy w ?x" using v True same by (simp add: good_def changes_def)
    ultimately show ?thesis by (simp add: good_def take_up_def)
  qed (simp add: good_def take_up_def)
qed

lemma enter_call_ok:
  assumes "world_ok w" and "Thread_lock t \<notin> busy"
  shows "step_ok busy w (enter E busy (Call_tool t owner c name f) w)"
proof -
  let ?r = "Call_tool t owner c name f"
  obtain x v where x: "bind_thread t owner w = (x, v)" by force
  have good: "good busy w v" using good_bind [OF x] .
  have v: "world_ok v" using good_ok [OF good assms(1)] .
  show ?thesis
  proof (cases x)
    case (Inl e)
    then show ?thesis using x good by auto
  next
    case (Inr p)
    show ?thesis
    proof (cases "if journaled name then prior_call t c f v else None")
      case (Some e)
      then show ?thesis using x good Inr by auto
    next
      case None
      show ?thesis
      proof (cases "name = Browser_close")
        case True
        let ?u = "take_up t c f v"
        have "journal_at v (t, c) = None"
          using None True by (auto simp: journaled_def prior_call_def split: option.splits if_splits receipt.splits)
        then have rec: "good busy v ?u" by (rule good_start [OF assms(2)])
        have "step_ok busy ?u (s, ?u)" if "close_session ?r t (Complete_with ''closed'') ?u = Some s" for s
          by (rule close_ok [OF good_ok [OF rec v] _ assms(2) that]) simp_all
        then have "step_ok busy v (s, ?u)" if "close_session ?r t (Complete_with ''closed'') ?u = Some s" for s
          using step_after [OF rec] that by blast
        moreover have "step_ok busy v (Over (Finished ''closed''), record_call t c f (Completed ''closed'') ?u)"
          using step_over [OF good_trans [OF rec good_record [OF assms(2)]]] .
        ultimately show ?thesis
          using x Inr None True step_after [OF good] by (auto simp: Let_def split: option.splits)
      next
        case False
        have "unstarted ?r v" using None by (auto simp: journaled_def prior_call_def split: option.splits if_splits receipt.splits)
        then have "step_ok busy v (expire_first E busy ?r t v)" using expire_ok [OF v _ assms(2)] by simp
        then show ?thesis using x Inr None False step_after [OF good] by simp
      qed
    qed
  qed
qed

lemma enter_ok:
  assumes "world_ok w" and "thread_of r = Some t" and "Thread_lock t \<notin> busy"
  shows "step_ok busy w (enter E busy r w)"
proof (cases r)
  case (Call_tool u owner c name f)
  then show ?thesis using enter_call_ok [OF assms(1)] assms(2,3) by simp
next
  case (Hand_over u owner c f response)
  then show ?thesis using bind_ok [OF assms] assms(2) by auto
next
  case (Close_browser u owner)
  obtain x v where x: "bind_thread u owner w = (x, v)" by force
  have good: "good busy w v" using good_bind [OF x] .
  have "step_ok busy v ((case close_session r u (End_with (Finished ''closed'')) v of Some s \<Rightarrow> s | None \<Rightarrow> Over (Finished ''closed'')), v)"
    using close_free [OF good_ok [OF good assms(1)] assms(2,3)] Close_browser assms(2) by simp
  then show ?thesis using x good step_after [OF good] Close_browser by (auto split: sum.splits)
next
  case (Get_status u owner)
  then show ?thesis using expire_ok [OF assms] assms(2) by (auto split: option.splits)
next
  case (Select_profile u owner p)
  have keep: "good busy v (v\<lparr>bw_bindings := d\<rparr>)" for v :: browser_world and d
    by (rule good_same) simp_all
  obtain x v where x: "bind_thread u owner w = (x, v)" by force
  have good: "good busy w v" using good_bind [OF x] .
  have "step_ok busy w (Want_profile r k True, w)" if "session_at w u = None" for k
    using free_lock [OF assms(2,3)] Select_profile assms(2) that by (simp add: step_ok_def)
  then show ?thesis
    using x good good_trans [OF good keep] Select_profile by (auto split: option.splits sum.splits)
next
  case (Release_thread u)
  then show ?thesis using close_free [OF assms] assms(2) by simp
qed (use bind_ok [OF assms] expire_ok [OF assms] assms(2) in \<open>auto simp: step_ok_def\<close>)

lemma good_complete:
  assumes "thread_of r = Some t" and "Thread_lock t \<notin> busy"
  shows "good busy w (record_completion r x w)"
  using assms good_record by (cases r) auto

lemma unstarted_same: "bw_journal v = bw_journal w \<Longrightarrow> unstarted r w \<Longrightarrow> unstarted r v"
  by (cases r) simp_all

lemma bound_free:
  assumes "bound_to g r w" and "set (thread_lock r) \<inter> busy = {}"
  obtains s t where "object_at w g = Some s" and "thread_of r = Some t" and "bs_thread s = t" and "Thread_lock t \<notin> busy"
  using assms thread_lock_in [of r] by (auto simp: bound_to_def)

lemma after_dispose_ok:
  assumes "world_ok w" and "stage_ok w (Disposing r g a)" and "set (locks_of (Disposing r g a)) \<inter> busy = {}"
  shows "step_ok busy w (after_dispose E busy r g a x w)"
proof -
  obtain s t where s: "object_at w g = Some s" "bs_thread s = t" and t: "thread_of r = Some t" "Thread_lock t \<notin> busy"
  proof -
    have "bound_to g r w" and "set (thread_lock r) \<inter> busy = {}" using assms(2,3) by auto
    then show thesis using that bound_free [of g r w busy] by metis
  qed
  have good: "good busy w (drop_session g w)" using good_drop [OF s(1)] s(2) t(2) by simp
  have "step_ok busy (drop_session g w) (proceed E busy r (drop_session g w))" if "a = Go_on"
    using proceed_ok [OF good_ok [OF good assms(1)] t] unstarted_same [of "drop_session g w" w r] assms(2) that s(1)
    by (simp add: drop_session_def)
  then show ?thesis
    using good step_after [OF good] good_trans [OF good good_complete [OF t]]
    by (auto simp: after_dispose_def Let_def split: after.splits)
qed

lemma profile_ok:
  assumes "world_ok w" and "stage_ok w (Want_profile r k n)" and "set (locks_of (Want_profile r k n)) \<inter> busy = {}" and "Profile_lock k \<notin> busy"
  shows "step_ok busy w (with_profile r k n w)"
proof (cases "selects r")
  case True
  then obtain t owner p where r: "r = Select_profile t owner p" by (cases r) auto
  have keep: "good busy v (v\<lparr>bw_bindings := d\<rparr>)" for v :: browser_world and d
    by (rule good_same) simp_all
  obtain x v where x: "bind_thread t owner w = (x, v)" by force
  have good: "good busy w v" using good_bind [OF x] .
  show ?thesis using x good good_trans [OF good keep] r by (auto simp: with_profile_def split: sum.splits)
next
  case False
  obtain t where t: "thread_of r = Some t" "session_at w t = None" using assms(2) False by auto
  have "step_ok busy w (Launching r k, w)" if "\<not> profile_open k w"
    using assms t that key_open_found by (auto simp: step_ok_def)
  then show ?thesis using False by (cases r) (auto simp: with_profile_def)
qed

lemma launched_ok:
  assumes "world_ok w" and "stage_ok w (Launching r k)" and "set (locks_of (Launching r k)) \<inter> busy = {}"
  shows "step_ok busy w (launched r k w)"
proof -
  obtain t where t: "thread_of r = Some t" "session_at w t = None" and k: "\<not> key_open k w" and un: "unstarted r w" using assms(2) by auto
  have mine: "Thread_lock t \<notin> busy" "Profile_lock k \<notin> busy" using assms(3) t(1) by (auto simp: thread_lock_in)
  have good: "good busy w (new_session t (owner_of r) k w)" using good_new_session [OF mine t(2) k] .
  have "bound_to (bw_next w) r (new_session t (owner_of r) k w)"
    using t(1) by (simp add: bound_to_def new_session_def dict_simps)
  moreover have "unstarted r (new_session t (owner_of r) k w)"
    by (rule unstarted_same [OF _ un]) (simp add: new_session_def)
  ultimately have "step_ok busy w (Session_wait r (bw_next w), new_session t (owner_of r) k w)"
    using good free_lock [OF t(1) mine(1)] by (simp add: step_ok_def)
  then show ?thesis using t(1) good by (auto simp: launched_def split: request.splits)
qed

lemma good_next: "good busy w (w\<lparr>bw_next := bw_next w + 1\<rparr>)"
  by (rule good_same) simp_all

lemma control_ok:
  assumes "Thread_lock t \<notin> busy" and "Session_lock g \<notin> busy"
  shows "step_ok busy w (give_control E t c f g x w)"
proof -
  note upd = good_update [OF _ assms(2)]
  let ?u = "\<lambda>e h s. s\<lparr>bs_handoff_id := h, bs_handoff_expires_at := e, bs_active_tab_id := None\<rparr>"
  have one: "good busy w (active g (update_object g (?u e h) (w\<lparr>bw_next := bw_next w + 1\<rparr>)))" for e h
    by (rule good_trans [OF good_trans [OF good_next upd] good_active [OF assms(2)]]) (simp add: same_identity_def)
  have two: "good busy v (update_object g (\<lambda>s. s\<lparr>bs_handoff_id := None, bs_handoff_expires_at := None\<rparr>) v)" for v
    by (rule upd) (simp add: same_identity_def)
  show ?thesis
    using step_over [OF good_trans [OF one two]] step_over [OF good_trans [OF one good_record [OF assms(1)]]]
    by (auto simp: give_control_def Let_def)
qed

lemma bound_update:
  assumes "bound_to g r w" and "\<And>s. same_identity s (f s)"
  shows "bound_to g r (update_object h f w)"
  using assms(1) assms(2) by (auto simp: bound_to_def update_object_def dict_simps same_identity_def)

lemma bound_same: "bw_objects v = bw_objects w \<Longrightarrow> bound_to g r w \<Longrightarrow> bound_to g r v"
  by (simp add: bound_to_def)

lemma agents_active: "in_agents_hands g w \<Longrightarrow> in_agents_hands g (active h w)"
  by (auto simp: in_agents_hands_def active_def update_object_def dict_simps)

lemma agents_same: "bw_objects v = bw_objects w \<Longrightarrow> in_agents_hands g w \<Longrightarrow> in_agents_hands g v"
  by (simp add: in_agents_hands_def)

lemma asserted: "assert_agent g w = None \<Longrightarrow> in_agents_hands g w"
  by (auto simp: assert_agent_def in_agents_hands_def split: option.splits if_splits)

lemma use_ok:
  assumes "world_ok w" and "stage_ok w (Session_wait r g)" and "set (locks_of (Session_wait r g)) \<inter> busy = {}" and "Session_lock g \<notin> busy"
  shows "step_ok busy w (use_session E r g x w)"
proof (cases "assert_agent g w")
  case (Some e)
  then show ?thesis by (auto simp: use_session_def)
next
  case None
  have hands: "in_agents_hands g (active g w)" using agents_active [OF asserted [OF None]] .
  have bound: "bound_to g r (active g w)"
    unfolding active_def using assms(2) by (intro bound_update) (simp_all add: same_identity_def)
  have good: "good busy w (active g w)" using good_active [OF assms(4)] .
  show ?thesis
  proof (cases r)
    case (Call_tool t owner c name f)
    have mine: "Thread_lock t \<notin> busy" using assms(3) Call_tool by (auto simp: thread_lock_def)
    let ?v = "take_up t c f (active g w)"
    have "step_ok busy w (Acting r g, active g w)"
      using good hands bound assms(3,4) by (auto simp: step_ok_def)
    moreover have "step_ok busy w (Acting r g, ?v)" if "name = Browser_run"
    proof -
      have "journal_at (active g w) (t, c) = None" using assms(2) Call_tool that by (simp add: active_def update_object_def)
      from good_trans [OF good good_start [OF mine this]] have "good busy w ?v" .
      moreover have "bw_objects ?v = bw_objects (active g w)" by (simp add: take_up_def record_call_def Let_def)
      ultimately show ?thesis
        using bound_same [OF _ bound] agents_same [OF _ hands] assms(3,4) unfolding step_ok_def by simp
    qed
    ultimately show ?thesis using None Call_tool good by (auto simp: use_session_def Let_def)
  next
    case (Hand_over t owner c f response)
    have "Thread_lock t \<notin> busy" using assms(3) Hand_over by (auto simp: thread_lock_def)
    then show ?thesis using control_ok [OF _ assms(4)] None Hand_over by (simp add: use_session_def)
  qed (use None in \<open>auto simp: use_session_def\<close>)
qed

lemma disposing_ok:
  assumes "bound_to g r v" and "good busy w v" and "set (thread_lock r) \<inter> busy = {}" and "Session_lock g \<notin> busy" and "a \<noteq> Go_on"
  shows "step_ok busy w (Disposing r g a, begin_dispose g v)"
proof -
  have "bound_to g r (begin_dispose g v)"
    unfolding begin_dispose_def using assms(1) by (rule bound_update) (simp add: same_identity_def)
  then show ?thesis using good_trans [OF assms(2) good_begin_dispose [OF assms(4)]] assms(3-5) by (auto simp: step_ok_def)
qed

lemma acted_ok:
  assumes "stage_ok w (Acting r g)" and "set (locks_of (Acting r g)) \<inter> busy = {}"
  shows "step_ok busy w (acted r g x w)"
proof (cases r)
  case (Call_tool t owner c name f)
  have mine: "Thread_lock t \<notin> busy" "Session_lock g \<notin> busy" using assms(2) Call_tool by (auto simp: thread_lock_def)
  note good = good_active [OF mine(2), of w]
  have "step_ok busy w (Disposing r g (End_with Cancelled), begin_dispose g w)"
    using assms by (intro disposing_ok) auto
  then show ?thesis
    using Call_tool good good_trans [OF good good_record [OF mine(1)]] by (auto simp: acted_def split: browser_outcome.splits)
qed (auto simp: acted_def)

lemma take_ok:
  assumes "stage_ok w (Return_wait r g cancel)" and "set (locks_of (Return_wait r g cancel)) \<inter> busy = {}" and "Session_lock g \<notin> busy"
  shows "step_ok busy w (take_control r g cancel w)"
proof -
  let ?v = "active g (update_object g (\<lambda>s. s\<lparr>bs_handoff_id := None, bs_handoff_expires_at := None, bs_controller := None\<rparr>) w)"
  have good: "good busy w ?v"
    by (rule good_trans [OF good_update good_active]) (simp_all add: assms(3) same_identity_def)
  have bound: "bound_to g r ?v"
    unfolding active_def using assms(1) by (intro bound_update) (simp_all add: same_identity_def)
  have "step_ok busy w (Returning r g, ?v)" using good bound assms(2,3) by (auto simp: step_ok_def)
  then show ?thesis using disposing_ok [OF bound good _ assms(3)] assms(2) by (auto simp: take_control_def Let_def)
qed

lemma returned_ok:
  assumes "stage_ok w (Returning r g)" and "set (locks_of (Returning r g)) \<inter> busy = {}"
  shows "step_ok busy w (returned r g x b w)"
proof -
  have mine: "Session_lock g \<notin> busy" "set (thread_lock r) \<inter> busy = {}" and bound: "bound_to g r w" using assms by auto
  obtain t where t: "thread_of r = Some t" "Thread_lock t \<notin> busy" using bound_free [OF bound mine(2)] by metis
  have good: "good busy w (active g (update_object g (\<lambda>s. s\<lparr>bs_active_tab_id := None\<rparr>) w))"
    by (rule good_trans [OF good_update good_active]) (simp_all add: mine same_identity_def)
  show ?thesis
    using disposing_ok [OF bound good_refl mine(2,1)] step_over [OF good_trans [OF good good_complete [OF t]]]
    by (auto simp: returned_def split: browser_outcome.splits)
qed

text \<open>The same of any step; input goes on only for the viewer whose it is.\<close>

definition moved :: "browser_lock set \<Rightarrow> browser_world \<Rightarrow> browser_stage \<Rightarrow> browser_stage \<times> browser_world \<Rightarrow> bool" where
  "moved busy w s p = (good busy w (snd p) \<and> stage_ok (snd p) (fst p) \<and> set (locks_of (fst p)) \<inter> busy = {}
     \<and> set (input_of (fst p)) \<subseteq> set (input_of s))"

lemma step_moved: "step_ok busy w p \<Longrightarrow> moved busy w s p"
  by (simp add: step_ok_def moved_def)

lemma viewer_ok:
  assumes "viewer_takes v g h tab w = Some w'" and "Session_lock g \<notin> busy"
  shows "moved busy w (Arrived (Viewer_input v g h tab)) (Inputting r v g, w')"
proof -
  obtain s where s: "object_at w g = Some s" "\<not> bs_closed s" "bs_handoff_id s = Some h"
    and w': "w' = update_object g (\<lambda>s. s\<lparr>bs_controller := Some v, bs_active_tab_id := Some tab\<rparr>) w"
    using assms(1) by (auto simp: viewer_takes_def split: option.splits if_splits)
  have "good busy w w'" unfolding w' by (rule good_update) (simp_all add: assms(2) same_identity_def)
  moreover have "in_users_hands v g w'"
    using s w' by (simp add: in_users_hands_def update_object_def dict_simps)
  ultimately show ?thesis using assms(2) by (simp add: moved_def)
qed

lemma advance_ok:
  assumes "advance E busy x b s w = Some p" and "world_ok w" and "stage_ok w s" and "set (locks_of s) \<inter> busy = {}"
  shows "moved busy w s p"
proof (cases s)
  case (Arrived r)
  show ?thesis
  proof (cases "thread_of r")
    case (Some t)
    then show ?thesis
      using assms(1) Arrived step_moved [OF enter_ok [OF assms(2) Some]] step_moved [OF step_over [OF good_refl]] by (auto split: if_splits request.splits)
  next
    case None
    have "step_ok busy w (Removing r k, w)" if "\<not> profile_open k w" "Profile_lock k \<notin> busy" for k
      using that key_open_found by (auto simp: step_ok_def)
    then show ?thesis
      using assms(1) Arrived None viewer_ok step_moved step_moved [OF step_over [OF good_refl]]
      by (auto split: if_splits request.splits option.splits)
  qed
next
  case (Dispose_wait r g a)
  have "step_ok busy w (Disposing r g a, begin_dispose g w)" if "Session_lock g \<notin> busy"
  proof -
    have "bound_to g r (begin_dispose g w)"
      unfolding begin_dispose_def using assms(3) Dispose_wait by (intro bound_update) (simp_all add: same_identity_def)
    moreover have "a = Go_on \<longrightarrow> unstarted r (begin_dispose g w)"
      using unstarted_same [of "begin_dispose g w" w r] assms(3) Dispose_wait by (simp add: begin_dispose_def update_object_def)
    ultimately show ?thesis using good_begin_dispose [OF that] assms(4) Dispose_wait that by (auto simp: step_ok_def)
  qed
  then have "step_ok busy w p" using assms(1) Dispose_wait by (auto split: if_splits option.splits)
  then show ?thesis by (rule step_moved)
next
  case (Disposing r g a)
  then have "step_ok busy w p" using assms after_dispose_ok by auto
  then show ?thesis by (rule step_moved)
next
  case (Want_profile r k n)
  then have "step_ok busy w p" using assms profile_ok [of w r k n busy] by (auto split: if_splits)
  then show ?thesis by (rule step_moved)
next
  case (Launching r k)
  then have "step_ok busy w p" using assms launched_ok [of w r k busy] by (auto split: if_splits)
  then show ?thesis by (rule step_moved)
next
  case (Session_wait r g)
  then have "step_ok busy w p" using assms use_ok [of w r g busy] by (auto split: if_splits)
  then show ?thesis by (rule step_moved)
next
  case (Acting r g)
  then have "step_ok busy w p" using assms acted_ok [of w r g busy] by auto
  then show ?thesis by (rule step_moved)
next
  case (Return_wait r g c)
  then have "step_ok busy w p" using assms take_ok [of w r g c busy] by (auto split: if_splits)
  then show ?thesis by (rule step_moved)
next
  case (Returning r g)
  then have "step_ok busy w p" using assms returned_ok [of w r g busy] by auto
  then show ?thesis by (rule step_moved)
next
  case (Checking r g)
  then have "step_ok busy w p" using assms by (auto simp: step_ok_def split: if_splits)
  then show ?thesis by (rule step_moved)
next
  case (Removing r k)
  have "good busy w (w\<lparr>bw_profiles := ps, bw_bindings := bs\<rparr>)" for ps bs by (rule good_same) simp_all
  then have "step_ok busy w p" using assms(1) Removing by (auto split: if_splits)
  then show ?thesis by (rule step_moved)
next
  case (Inputting r v g)
  then have "step_ok busy w p" using assms(1,4) good_active by (auto split: if_splits)
  then show ?thesis by (rule step_moved)
qed (use assms(1) in simp)

section \<open>Reachable states\<close>

definition apart :: "operations \<Rightarrow> bool" where
  "apart ps = (\<forall>p q s u. dict_get ps p = Some s \<longrightarrow> dict_get ps q = Some u \<longrightarrow> p \<noteq> q \<longrightarrow> set (locks_of s) \<inter> set (locks_of u) = {})"

definition viewers_in :: "operations \<Rightarrow> browser_world \<Rightarrow> bool" where
  "viewers_in ps w = (\<forall>p s. dict_get ps p = Some s \<longrightarrow> set (input_of s) \<subseteq> set (bw_viewers w))"

definition browsers_ok :: "operations \<times> browser_world \<Rightarrow> bool" where
  "browsers_ok x = (world_ok (snd x) \<and> is_dict (fst x) \<and> (\<forall>p s. dict_get (fst x) p = Some s \<longrightarrow> stage_ok (snd x) s)
     \<and> apart (fst x) \<and> viewers_in (fst x) (snd x))"

lemma beside_in:
  "dict_get ps q = Some u \<Longrightarrow> q \<noteq> p \<Longrightarrow> set (locks_of u) \<subseteq> locks_beside p ps"
  using map_of_SomeD [of ps q u] by (force simp: locks_beside_def)

lemma beside_out:
  assumes "is_dict ps" and "apart ps" and "dict_get ps p = Some s"
  shows "set (locks_of s) \<inter> locks_beside p ps = {}"
proof -
  have "set (locks_of s) \<inter> set (locks_of u) = {}" if "(q, u) \<in> set ps" "q \<noteq> p" for q u
    using assms that map_of_is_SomeI [of ps q u] unfolding apart_def is_dict_def by (metis)
  then show ?thesis by (fastforce simp: locks_beside_def)
qed

lemma all_in: "dict_get ps q = Some u \<Longrightarrow> set (locks_of u) \<subseteq> all_locks ps"
  using map_of_SomeD [of ps q u] by (force simp: all_locks_def)

text \<open>What happens outside the operations leaves the locks alone.\<close>

lemma outside_ok:
  assumes "browsers_ok (ps, w)" and "good (all_locks ps) w w'"
  shows "browsers_ok (ps, w')"
proof -
  have ok: "world_ok w" using assms(1) by (simp add: browsers_ok_def)
  then have new: "world_ok w'" "changes (all_locks ps) w w'" using assms(2) by (simp_all add: good_def)
  have "stage_ok w' s" if "dict_get ps p = Some s" for p s
    using stage_ok_changes [OF _ all_in [OF that] new(2) ok] assms(1) that by (auto simp: browsers_ok_def)
  moreover have "viewers_in ps w'"
    using assms(1) changes_tickets(2) [OF new(2)] by (simp add: browsers_ok_def viewers_in_def)
  ultimately show ?thesis using assms(1) new(1) by (simp add: browsers_ok_def)
qed

lemma apart_set:
  assumes "apart ps" and "\<And>q u. dict_get ps q = Some u \<Longrightarrow> q \<noteq> p \<Longrightarrow> set (locks_of u) \<inter> set (locks_of s) = {}"
  shows "apart (dict_set p s ps)"
  unfolding apart_def
proof (intro allI impI)
  fix q q' u u'
  assume a: "dict_get (dict_set p s ps) q = Some u" "dict_get (dict_set p s ps) q' = Some u'" "q \<noteq> q'"
  consider "q = p" "q' \<noteq> p" | "q \<noteq> p" "q' = p" | "q \<noteq> p" "q' \<noteq> p" using a(3) by blast
  then show "set (locks_of u) \<inter> set (locks_of u') = {}"
  proof cases
    case 1
    then show ?thesis using a assms(2) [of q' u'] by (simp add: dict_simps Int_commute)
  next
    case 2
    then show ?thesis using a assms(2) [of q u] by (simp add: dict_simps)
  next
    case 3
    then show ?thesis using a assms(1) unfolding apart_def dict_simps by (metis (no_types))
  qed
qed

lemma go_moved:
  assumes "browsers_ok (ps, w)" and "dict_get ps p = Some s" and "advance E (locks_beside p ps) x b s w = Some (s', w')"
  shows "moved (locks_beside p ps) w s (s', w')"
  using advance_ok [OF assms(3)] beside_out [OF _ _ assms(2)] assms(1,2) by (auto simp: browsers_ok_def)

lemma go_ok:
  assumes "browsers_ok (ps, w)" and "dict_get ps p = Some s" and "advance E (locks_beside p ps) x b s w = Some (s', w')"
  shows "browsers_ok (dict_set p s' ps, w')"
proof -
  let ?busy = "locks_beside p ps"
  have ok: "world_ok w" "is_dict ps" "apart ps" "viewers_in ps w" and stages: "\<And>q u. dict_get ps q = Some u \<Longrightarrow> stage_ok w u"
    using assms(1) by (auto simp: browsers_ok_def)
  have m: "moved ?busy w s (s', w')" using go_moved [OF assms] .
  then have new: "world_ok w'" "changes ?busy w w'" and s': "stage_ok w' s'" "set (locks_of s') \<inter> ?busy = {}" "set (input_of s') \<subseteq> set (input_of s)"
    using ok(1) by (auto simp: moved_def good_def)
  have others: "stage_ok w' u \<and> set (locks_of u) \<inter> set (locks_of s') = {}" if "dict_get ps q = Some u" "q \<noteq> p" for q u
    using stage_ok_changes [OF stages [OF that(1)] beside_in [OF that] new(2) ok(1)] beside_in [OF that] s'(2) by blast
  have "apart (dict_set p s' ps)"
    using apart_set [OF ok(3)] others by blast
  moreover have "viewers_in (dict_set p s' ps) w'"
    using ok(4) s'(3) assms(2) changes_tickets(2) [OF new(2)] unfolding viewers_in_def dict_simps
    by (metis (no_types, lifting) option.inject order_trans)
  ultimately show ?thesis
    using new(1) ok(2) s'(1) others by (simp add: browsers_ok_def dict_simps)
qed

lemma consume_good:
  assumes "consume_ticket n w = (r, v)"
  shows "good busy w v"
proof -
  have "v = w\<lparr>bw_tickets := dict_pop n (bw_tickets w)\<rparr>"
    using assms by (auto simp: consume_ticket_def Let_def split: option.splits if_splits)
  then show ?thesis by (intro good_same) (auto simp: set_dict_pop)
qed

lemma stage_ok_cong:
  assumes "bw_journal v = bw_journal w" "bw_objects v = bw_objects w" "bw_sessions v = bw_sessions w"
  shows "stage_ok v s = stage_ok w s"
proof -
  have "unstarted r v = unstarted r w" for r using assms(1) by (cases r) simp_all
  then show ?thesis
    using assms by (cases s) (simp_all add: bound_to_def key_open_def in_agents_hands_def in_users_hands_def)
qed

lemma world_ok_cong:
  assumes "bw_journal v = bw_journal w" "bw_objects v = bw_objects w" "bw_sessions v = bw_sessions w"
    "bw_started v = bw_started w" "bw_next v = bw_next w"
  shows "world_ok v = world_ok w"
  using assms by (simp add: world_ok_def)

lemma set_viewers_ok:
  assumes "browsers_ok (ps, w)" and "\<And>p s. dict_get ps p = Some s \<Longrightarrow> set (input_of s) \<subseteq> set vs"
  shows "browsers_ok (ps, w\<lparr>bw_viewers := vs\<rparr>)"
  using assms stage_ok_cong [of "w\<lparr>bw_viewers := vs\<rparr>" w] world_ok_cong [of "w\<lparr>bw_viewers := vs\<rparr>" w]
  by (simp add: browsers_ok_def viewers_in_def)

lemma connect_ok:
  assumes "browsers_ok (ps, w)"
  shows "browsers_ok (ps, connect_viewer v (consume_ticket n w))"
proof -
  obtain r u where r: "consume_ticket n w = (r, u)" by force
  have u: "browsers_ok (ps, u)" using outside_ok [OF assms consume_good [OF r]] .
  then have "set (input_of s) \<subseteq> set (bw_viewers u)" if "dict_get ps p = Some s" for p s
    using that by (auto simp: browsers_ok_def viewers_in_def)
  then have "browsers_ok (ps, u\<lparr>bw_viewers := (v, g) # bw_viewers u\<rparr>)" for g
    by (intro set_viewers_ok [OF u]) fastforce
  then show ?thesis using u r by (cases r) simp_all
qed

lemma ask_ok:
  assumes "browsers_ok (ps, w)" and "set (input_of (Arrived r)) \<subseteq> set (bw_viewers w)"
  shows "browsers_ok (dict_set p (Arrived r) ps, w)"
  using assms apart_set [of ps p "Arrived r"] by (auto simp: browsers_ok_def viewers_in_def dict_simps)

definition leave :: "nat \<Rightarrow> browser_session \<Rightarrow> browser_session" where
  "leave v s = (if bs_controller s = Some v then s\<lparr>bs_controller := None\<rparr> else s)"

lemma leave_simps [simp]:
  "bs_closed (leave v s) = bs_closed s" "bs_handoff_id (leave v s) = bs_handoff_id s" "bs_profile_key (leave v s) = bs_profile_key s"
  "bs_controller s \<noteq> Some v \<Longrightarrow> bs_controller (leave v s) = bs_controller s"
  by (simp_all add: leave_def)

lemma key_open_leave:
  assumes "key_open k (update_object g (leave v) w)"
  shows "key_open k w"
proof -
  obtain t h s where s: "session_at w t = Some h" "object_at (update_object g (leave v) w) h = Some s" "bs_profile_key s = k"
    using assms by (auto simp: key_open_def update_object_def)
  then obtain s' where "object_at w h = Some s'" "bs_profile_key s' = k"
    by (auto simp: update_object_def dict_simps leave_def split: if_splits)
  then show ?thesis using s(1) by (auto simp: key_open_def)
qed

lemma disconnect_ok:
  assumes "browsers_ok (ps, w)" and "(v, g) \<notin> set (concat (map (input_of \<circ> snd) ps))"
  shows "browsers_ok (ps, (update_object g (leave v) w)\<lparr>bw_viewers := filter (\<lambda>x. x \<noteq> (v, g)) (bw_viewers w)\<rparr>)"
proof -
  let ?w = "update_object g (leave v) w"
  have ids: "same_identity s (leave v s)" for s by (simp add: leave_def same_identity_def)
  have ok: "world_ok w" using assms(1) by (simp add: browsers_ok_def)
  have "world_ok ?w" using good_ok [OF good_update [of "leave v" g "{}", OF ids]] ok by simp
  moreover have "stage_ok ?w s" if s: "dict_get ps p = Some s" for p s
  proof -
    have st: "stage_ok w s" using assms(1) s by (simp add: browsers_ok_def)
    have un: "unstarted r ?w" if "unstarted r w" for r by (rule unstarted_same [OF _ that]) (simp add: update_object_def)
    have bound: "bound_to h r ?w" if "bound_to h r w" for h r using bound_update [OF that] ids by blast
    have sess: "session_at ?w = session_at w" by (simp add: update_object_def)
    have agents: "in_agents_hands h ?w" if "in_agents_hands h w" for h
      using that by (auto simp: in_agents_hands_def update_object_def dict_simps)
    have users: "in_users_hands u h ?w" if "in_users_hands u h w" "(u, h) \<noteq> (v, g)" for u h
      using that by (auto simp: in_users_hands_def update_object_def dict_simps)
    have inp: "set (input_of s) \<subseteq> set (concat (map (input_of \<circ> snd) ps))" using map_of_SomeD [OF s] by force
    have mine: "s = Inputting r u h \<Longrightarrow> (u, h) \<noteq> (v, g)" for r u h using inp assms(2) by auto
    show ?thesis
      using st un bound agents users mine key_open_leave [of _ g v w] by (cases s) (auto simp: sess)
  qed
  moreover have "viewers_in ps ?w" using assms(1) by (simp add: browsers_ok_def viewers_in_def update_object_def)
  ultimately have "browsers_ok (ps, ?w)" using assms(1) by (simp add: browsers_ok_def)
  moreover have "set (input_of s) \<subseteq> set (filter (\<lambda>x. x \<noteq> (v, g)) (bw_viewers w))" if s: "dict_get ps p = Some s" for p s
  proof -
    have "set (input_of s) \<subseteq> set (concat (map (input_of \<circ> snd) ps))" using map_of_SomeD [OF s] by force
    moreover have "set (input_of s) \<subseteq> set (bw_viewers w)" using assms(1) s by (simp add: browsers_ok_def viewers_in_def)
    ultimately show ?thesis using assms(2) by auto
  qed
  ultimately show ?thesis by (rule set_viewers_ok)
qed

lemma tab_good:
  assumes "Session_lock g \<notin> busy"
  shows "good busy w (active g (update_object g (\<lambda>s. s\<lparr>bs_controller := Some v, bs_active_tab_id := Some tab\<rparr>) w))"
  by (rule good_trans [OF good_update good_active]) (simp_all add: assms same_identity_def)

lemma restart_ok:
  assumes "browsers_ok (ps, w)"
  shows "browsers_ok ([], w\<lparr>bw_objects := [], bw_sessions := [], bw_tickets := [], bw_closing := False, bw_viewers := []\<rparr>)"
  using assms by (simp add: browsers_ok_def world_ok_def apart_def viewers_in_def)

lemma step_keeps:
  assumes "browsers_ok x"
  shows "browsers_ok (browser_step E e x)"
proof -
  obtain ps w where x: "x = (ps, w)" by force
  note ok = assms [unfolded x]
  have same: "browsers_ok (ps, w\<lparr>bw_wall := a, bw_mono := c\<rparr>)" "browsers_ok (ps, w\<lparr>bw_closing := True\<rparr>)" for a c
    by (rule outside_ok [OF ok], rule good_same, simp_all)+
  show ?thesis
  proof (cases e)
    case (Ask p r)
    then show ?thesis using x ok ask_ok [OF ok, of r p] by (cases r) auto
  next
    case (Go p y b)
    then show ?thesis using x ok go_ok [OF ok] by (auto split: option.splits)
  next
    case (Connect v n)
    then show ?thesis using x connect_ok [OF ok] by simp
  next
    case (Select_tab v g tab)
    then show ?thesis using x ok outside_ok [OF ok tab_good] by (auto split: option.splits)
  next
    case (Disconnect v g)
    then show ?thesis using x ok disconnect_ok [OF ok] unfolding leave_def [abs_def] by auto
  next
    case Restart
    then show ?thesis using x restart_ok [OF ok] by simp
  qed (use x same in simp_all)
qed

lemma history_keeps: "browsers_ok x \<Longrightarrow> browsers_ok (browser_history E es x)"
  by (induction E es x rule: browser_history.induct) (simp_all add: step_keeps)

lemma new_browsers_ok: "browsers_ok (new_browsers ps)"
  by (simp add: browsers_ok_def new_browsers_def world_ok_def apart_def viewers_in_def)

lemma history_ok: "browsers_ok (browser_history E es (new_browsers profiles))"
  using history_keeps [OF new_browsers_ok] .

section \<open>Properties\<close>

text \<open>Who uses a login profile: conversations with a browser open on it, operations that start one or delete it.\<close>

definition profile_uses :: "string \<Rightarrow> operations \<times> browser_world \<Rightarrow> (string + nat) set" where
  "profile_uses k x =
     {Inl t | t g s. session_at (snd x) t = Some g \<and> object_at (snd x) g = Some s \<and> bs_profile_key s = k}
     \<union> {Inr p | p s. dict_get (fst x) p = Some s \<and> Profile_lock k \<in> set (locks_of s)}"

lemma profile_held:
  assumes "stage_ok w s" and "Profile_lock k \<in> set (locks_of s)"
  shows "\<not> key_open k w"
  using assms by (cases s) (auto simp: thread_lock_def split: option.splits)

text \<open>
  C33: At any time, whatever conversations, viewers, cleanups, cancellations and restarts came before, a login
  profile is used by at most one conversation's browser, one that is being started, or one deletion of the profile. A browser counts from the start of its launch until its
  session is dropped; one that outlives a failed close or the program is not seen here.
\<close>

theorem profile_used_by_one:
  assumes "a \<in> profile_uses k (browser_history E es (new_browsers profiles))"
    and "b \<in> profile_uses k (browser_history E es (new_browsers profiles))"
  shows "a = b"
proof -
  obtain ps w where x: "browser_history E es (new_browsers profiles) = (ps, w)" by force
  have ok: "browsers_ok (ps, w)" using history_ok [of E es profiles] x by simp
  then have wok: "world_ok w" and apart: "apart ps" and stages: "\<And>p s. dict_get ps p = Some s \<Longrightarrow> stage_ok w s"
    by (auto simp: browsers_ok_def)
  have held: "\<not> key_open k w" if "dict_get ps p = Some s" "Profile_lock k \<in> set (locks_of s)" for p s
    using profile_held [OF stages [OF that(1)] that(2)] .
  have one: "Inl t \<in> profile_uses k (ps, w) \<Longrightarrow> key_open k w" for t by (auto simp: profile_uses_def key_open_def)
  show ?thesis
  proof (cases a; cases b)
    fix t u assume "a = Inl t" "b = Inl u"
    then show "a = b" using assms world_okD(3) [OF wok] unfolding x by (auto simp: profile_uses_def)
  next
    fix t p assume "a = Inl t" "b = Inr p"
    then show "a = b" using assms held one unfolding x by (auto simp: profile_uses_def)
  next
    fix t p assume "a = Inr p" "b = Inl t"
    then show "a = b" using assms held one unfolding x by (auto simp: profile_uses_def)
  next
    fix p q assume ab: "a = Inr p" "b = Inr q"
    then obtain s u where "dict_get ps p = Some s" "Profile_lock k \<in> set (locks_of s)" "dict_get ps q = Some u" "Profile_lock k \<in> set (locks_of u)"
      using assms unfolding x by (auto simp: profile_uses_def)
    then show "a = b" using apart ab unfolding apart_def by blast
  qed
qed

text \<open>
  C34: The agent and the user never act on a browser at once. An operation that is using a browser is the only one:
  when it is an action of the agent, the browser is open and not handed over; when it is the input of a viewer, the
  browser is handed over, that viewer controls it, and was let in with a ticket.
\<close>

theorem one_hand_on_a_browser:
  assumes "browser_history E es (new_browsers profiles) = (ps, w)"
    and "dict_get ps p = Some s" and "Session_lock g \<in> set (locks_of s)"
  shows "(\<forall>q u. dict_get ps q = Some u \<and> Session_lock g \<in> set (locks_of u) \<longrightarrow> q = p)
    \<and> (\<forall>r. s = Acting r g \<longrightarrow> in_agents_hands g w)
    \<and> (\<forall>r v. s = Inputting r v g \<longrightarrow> in_users_hands v g w \<and> (v, g) \<in> set (bw_viewers w))"
proof -
  have ok: "browsers_ok (ps, w)" using history_ok [of E es profiles] assms(1) by simp
  then have "apart ps" and "stage_ok w s" and "set (input_of s) \<subseteq> set (bw_viewers w)"
    using assms(2) by (auto simp: browsers_ok_def viewers_in_def)
  then show ?thesis using assms(2,3) unfolding apart_def by (intro conjI allI impI) (auto | blast)+
qed

text \<open>
  C35: A call of the agent that changes something, a script or a close, is carried out at most once, however often the
  agent's run is replayed, also after a restart of the program in the middle of the call, and every call that was carried
  out is in the journal.
\<close>

theorem browser_call_runs_once:
  "distinct (bw_started (snd (browser_history E es (new_browsers profiles))))
    \<and> set (bw_started (snd (browser_history E es (new_browsers profiles))))
        \<subseteq> set (keys (bw_journal (snd (browser_history E es (new_browsers profiles)))))"
proof -
  have ok: "world_ok (snd (browser_history E es (new_browsers profiles)))"
    using history_ok [of E es profiles] by (simp add: browsers_ok_def case_prod_beta)
  have "(t, c) \<in> set (keys (bw_journal w))" if "world_ok w" "(t, c) \<in> set (bw_started w)" for t c w
    using world_okD(5) [OF that] by (auto simp: map_of_eq_None_iff)
  then show ?thesis using world_okD(4) [OF ok] ok by auto
qed

text \<open>An identifier that was given out and is no ticket.\<close>

definition spent :: "nat \<Rightarrow> browser_world \<Rightarrow> bool" where
  "spent n w = (n < bw_next w \<and> n \<notin> fst ` set (bw_tickets w))"

lemma spent_step:
  assumes "browsers_ok x" and "spent n (snd x)"
  shows "spent n (snd (browser_step E e x))"
proof -
  obtain ps w where x: "x = (ps, w)" by force
  note ok = assms(1) [unfolded x] and n = assms(2) [unfolded x, simplified]
  have consumed: "spent n (connect_viewer v (consume_ticket m w))" for v m
    using n by (auto simp: consume_ticket_def spent_def Let_def set_dict_pop split: option.splits)
  show ?thesis
  proof (cases e)
    case (Go p y b)
    have "spent n w'" if "dict_get ps p = Some s" "advance E (locks_beside p ps) y b s w = Some (s', w')" for s s' w'
    proof -
      have "changes (locks_beside p ps) w w'"
        using go_moved [OF ok that] ok by (simp add: moved_def good_def browsers_ok_def)
      note keep = changes_tickets [OF this]
      have "n \<notin> fst ` set (bw_tickets w')"
      proof
        assume "n \<in> fst ` set (bw_tickets w')"
        then obtain tk where "(n, tk) \<in> set (bw_tickets w')" by auto
        from keep(3) [OF this] n show False by (force simp: spent_def)
      qed
      then show ?thesis using n keep(1) by (simp add: spent_def)
    qed
    then show ?thesis using x n Go by (auto split: option.splits)
  next
    case (Ask p r)
    then show ?thesis using x n by (cases r) auto
  next
    case (Connect v m)
    then show ?thesis using x consumed by simp
  next
    case Restart
    then show ?thesis using x n by (simp add: spent_def)
  qed (use x n in \<open>auto simp: spent_def active_def update_object_def split: option.splits\<close>)
qed

lemma spent_history:
  "browsers_ok x \<Longrightarrow> spent n (snd x) \<Longrightarrow> spent n (snd (browser_history E es x))"
  by (induction E es x rule: browser_history.induct) (simp_all add: step_keeps spent_step)

text \<open>
  C36: A viewer's ticket, once issued (its number is below the counter), is good once, for the session it was made for. It lets in only while it has not expired and
  only to a session that is open, of the same generation and of the account it was given to; after any attempt
  with it, no later attempt succeeds, whatever happens in between.
\<close>

theorem ticket_admits_once:
  assumes "browser_history E es (new_browsers profiles) = (ps, w)" and "dict_get (bw_tickets w) n = Some tk" and "n < bw_next w"
  shows "(fst (consume_ticket n w) = Some g \<longrightarrow> g = tk_generation tk \<and> bw_mono w \<le> tk_expires tk
        \<and> (\<exists>s. object_at w g = Some s \<and> \<not> bs_closed s \<and> bs_owner s = tk_owner tk))
    \<and> fst (consume_ticket n (snd (browser_history E es' (browser_step E (Connect v n) (ps, w))))) = None"
proof
  show "fst (consume_ticket n w) = Some g \<longrightarrow> g = tk_generation tk \<and> bw_mono w \<le> tk_expires tk
        \<and> (\<exists>s. object_at w g = Some s \<and> \<not> bs_closed s \<and> bs_owner s = tk_owner tk)"
    using assms(2) by (auto simp: consume_ticket_def Let_def split: option.splits if_splits)
next
  let ?x = "browser_step E (Connect v n) (ps, w)"
  have "browsers_ok ?x" using step_keeps history_ok [of E es profiles] assms(1) by metis
  moreover have "spent n (snd ?x)"
    using assms(3) by (auto simp: consume_ticket_def spent_def Let_def set_dict_pop split: option.splits)
  ultimately have "spent n (snd (browser_history E es' ?x))" using spent_history by blast
  then have "dict_get (bw_tickets (snd (browser_history E es' ?x))) n = None" by (simp add: spent_def map_of_eq_None_iff)
  then show "fst (consume_ticket n (snd (browser_history E es' ?x))) = None" by (simp add: consume_ticket_def)
qed

lemma beside_member: "l \<in> locks_beside p ps \<longleftrightarrow> (\<exists>q u. (q, u) \<in> set ps \<and> q \<noteq> p \<and> l \<in> set (locks_of u))"
  by (force simp: locks_beside_def)

lemma all_member: "l \<in> all_locks ps \<longleftrightarrow> (\<exists>q u. (q, u) \<in> set ps \<and> l \<in> set (locks_of u))"
  by (force simp: all_locks_def)

lemma beside_alone:
  assumes "locks_beside p ps = {}"
  shows "locks_beside p (dict_set p s ps) = {}"
proof -
  have "l \<notin> locks_beside p (dict_set p s ps)" for l
    using assms dict_set_subset [of p s ps] beside_member [of l p ps] beside_member [of l p "dict_set p s ps"] by blast
  then show ?thesis by blast
qed

lemma alone: "all_locks ps = {} \<Longrightarrow> locks_beside p ps = {}"
  using all_member beside_member by blast

text \<open>
  C37: A handoff that the user abandoned does not keep the browser for ever: when it has expired and no operation is
  under way, one round of the cleanup, in which the browser's close returns, closes its session and takes the request
  back, so that the next operation of the conversation finds neither.
\<close>

theorem abandoned_handoff_released:
  assumes "browser_history E es (new_browsers profiles) = (ps, w)" and "all_locks ps = {}" and "dict_get ps p = None" and "\<not> bw_closing w"
    and "session_at w t = Some g" and "object_at w g = Some s" and "bs_handoff_expires_at s = Some e" and "e \<le> bw_wall w"
    and "browser_history E [Ask p (Reap_idle t), Go p Works_out b, Go p Works_out b, Go p Works_out b] (ps, w) = (ps', w')"
  shows "dict_get ps' p = Some (Over (Finished ''reaped'')) \<and> session_at w' t = None
    \<and> (\<forall>c iv. journal_at w' (t, c) = Some iv \<longrightarrow> \<not> expired_receipt (bw_wall w') (iv_status iv))"
proof -
  have "browsers_ok (ps, w)" using history_ok [of E es profiles] assms(1) by simp
  then have "world_ok w" by (simp add: browsers_ok_def)
  then have thread: "bs_thread s = t" using world_okD(2) [OF _ assms(5)] assms(6) by fastforce
  note alone = alone [OF assms(2)]
  have free: "locks_beside p (dict_set p u ps) = {}" for u using beside_alone [OF alone] .
  define v where "v = begin_dispose g (expire_handoffs t w)"
  define z where "z = drop_session g v"
  have out: "outlived t w = Some g" using assms(5-8) by (simp add: outlived_def)
  have a1: "advance E {} Works_out b (Arrived (Reap_idle t)) w = Some (Dispose_wait (Reap_idle t) g Go_on, expire_handoffs t w)"
    using assms(4) out by (simp add: expire_first_def)
  have a2: "advance E {} Works_out b (Dispose_wait (Reap_idle t) g Go_on) (expire_handoffs t w) = Some (Disposing (Reap_idle t) g Go_on, v)"
    by (simp add: may_dispose_def v_def)
  have obj: "object_at v g = Some (s\<lparr>bs_closed := True, bs_controller := None\<rparr>)" and sess: "session_at v t = Some g"
    using assms(5,6) by (simp_all add: v_def begin_dispose_def update_object_def expire_handoffs_def dict_simps)
  have z: "session_at z t = None" "bw_journal z = bw_journal (expire_handoffs t w)" "bw_wall z = bw_wall w"
    using obj sess thread
    by (simp_all add: z_def drop_session_def dict_simps) (simp_all add: v_def begin_dispose_def update_object_def expire_handoffs_def)
  have a3: "advance E {} Works_out b (Disposing (Reap_idle t) g Go_on) v = Some (Over (Finished ''reaped''), z)"
    using z(1) by (simp add: after_dispose_def z_def [symmetric])
  have final: "(ps', w') = (dict_set p (Over (Finished ''reaped'')) (dict_set p (Disposing (Reap_idle t) g Go_on)
      (dict_set p (Dispose_wait (Reap_idle t) g Go_on) (dict_set p (Arrived (Reap_idle t)) ps))), z)"
    using assms(9) assms(3) by (simp add: dict_simps free beside_alone alone a1 a2 a3 del: advance.simps)
  have one: "\<not> expired_receipt now (iv_status (snd (expire_entry t now ((t, c), iv))))" for now c iv
    by (simp add: expire_entry_def)
  have "\<not> expired_receipt (bw_wall w) (iv_status iv)" if "journal_at z (t, c) = Some iv" for c iv
    using that one unfolding z(2) by (auto simp: expire_handoffs_def map_of_expire)
  then show ?thesis using final z by (simp add: dict_simps)
qed

section \<open>Two conversations\<close>

definition demo_browser_env :: browser_env where
  "demo_browser_env = \<lparr>be_storage_key = (\<lambda>t. ''dir-'' @ t), be_idle_ttl = 600\<rparr>"

definition fine :: "nat \<Rightarrow> browser_event" where
  "fine p = Go p Works_out False"

text \<open>A browser is opened and the agent runs a script in it.\<close>

definition demo_action :: "browser_event list" where
  "demo_action = [Ask 0 (Call_tool ''t'' ''admin:a'' ''c'' Browser_run ''f''), fine 0, fine 0, fine 0, fine 0]"

text \<open>The agent hands the browser to the user, who watches and types, and leaves.\<close>

definition demo_handoff :: "browser_event list" where
  "demo_handoff = [Ask 0 (Hand_over ''t'' ''admin:a'' ''c'' ''f'' None), fine 0, fine 0, fine 0, fine 0, Ask 1 (Issue_ticket ''t'' ''admin:a''), fine 1]"

definition demo_typing :: "browser_event list" where
  "demo_typing = demo_handoff @ [Connect 7 2, Ask 2 (Viewer_input 7 0 1 0), fine 2]"

lemma demo_acting: "dict_get (fst (browser_history demo_browser_env demo_action (new_browsers []))) 0
    = Some (Acting (Call_tool ''t'' ''admin:a'' ''c'' Browser_run ''f'') 0)"
  by code_simp

lemma demo_handed: "dict_get (fst (browser_history demo_browser_env demo_typing (new_browsers []))) 2
    = Some (Inputting (Viewer_input 7 0 1 0) 7 0)"
  by code_simp

lemma demo_open: "bw_sessions (snd (browser_history demo_browser_env demo_action (new_browsers []))) = [(''t'', 0)]
    \<and> map_option bs_profile_key (object_at (snd (browser_history demo_browser_env demo_action (new_browsers []))) 0) = Some ''dir-t''"
  by code_simp

theorem one_hand_on_a_browser_witness:
  "in_users_hands 7 0 (snd (browser_history demo_browser_env demo_typing (new_browsers [])))"
proof -
  obtain ps w where x: "browser_history demo_browser_env demo_typing (new_browsers []) = (ps, w)" by force
  have "dict_get ps 2 = Some (Inputting (Viewer_input 7 0 1 0) 7 0)" using demo_handed x by simp
  from one_hand_on_a_browser [OF x this, of 0] show ?thesis using x by simp
qed

theorem profile_used_by_one_witness:
  "profile_uses ''dir-t'' (browser_history demo_browser_env demo_action (new_browsers [])) = {Inl ''t''}"
proof -
  let ?x = "browser_history demo_browser_env demo_action (new_browsers [])"
  have "Inl ''t'' \<in> profile_uses ''dir-t'' ?x" using demo_open by (auto simp: profile_uses_def)
  moreover from this have "a = Inl ''t''" if "a \<in> profile_uses ''dir-t'' ?x" for a
    using profile_used_by_one [OF that] by blast
  ultimately show ?thesis by blast
qed

lemma demo_ticket: "bw_tickets (snd (browser_history demo_browser_env demo_handoff (new_browsers [])))
      = [(2, \<lparr>tk_thread = ''t'', tk_owner = ''admin:a'', tk_generation = 0, tk_expires = 60\<rparr>)]
    \<and> bw_next (snd (browser_history demo_browser_env demo_handoff (new_browsers []))) = 3"
  by code_simp

theorem ticket_admits_once_witness:
  "fst (consume_ticket 2 (snd (browser_history demo_browser_env [Connect 8 2, fine 1, Connect 9 2]
     (browser_step demo_browser_env (Connect 7 2) (browser_history demo_browser_env demo_handoff (new_browsers [])))))) = None"
proof -
  obtain ps w where x: "browser_history demo_browser_env demo_handoff (new_browsers []) = (ps, w)" by force
  have "dict_get (bw_tickets w) 2 = Some \<lparr>tk_thread = ''t'', tk_owner = ''admin:a'', tk_generation = 0, tk_expires = 60\<rparr>"
    and "2 < bw_next w" using demo_ticket x by simp_all
  from ticket_admits_once [OF x this, of 0] show ?thesis unfolding x by blast
qed

text \<open>Ten minutes later nobody has come back.\<close>

definition demo_left :: "browser_event list" where
  "demo_left = [Ask 0 (Hand_over ''t'' ''admin:a'' ''c'' ''f'' None), fine 0, fine 0, fine 0, fine 0, Pass 700 700]"

lemma demo_left_state: "fst (browser_history demo_browser_env demo_left (new_browsers [])) = [(0, Over Interrupted)]
    \<and> bw_sessions (snd (browser_history demo_browser_env demo_left (new_browsers []))) = [(''t'', 0)]
    \<and> bw_wall (snd (browser_history demo_browser_env demo_left (new_browsers []))) = 700
    \<and> \<not> bw_closing (snd (browser_history demo_browser_env demo_left (new_browsers [])))
    \<and> map_option bs_handoff_expires_at (object_at (snd (browser_history demo_browser_env demo_left (new_browsers []))) 0) = Some (Some 600)"
  by code_simp

theorem abandoned_handoff_released_witness:
  "session_at (snd (browser_history demo_browser_env [Ask 1 (Reap_idle ''t''), fine 1, fine 1, fine 1]
     (browser_history demo_browser_env demo_left (new_browsers [])))) ''t'' = None"
proof -
  obtain ps w where x: "browser_history demo_browser_env demo_left (new_browsers []) = (ps, w)" by force
  obtain ps' w' where y: "browser_history demo_browser_env [Ask 1 (Reap_idle ''t''), fine 1, fine 1, fine 1] (ps, w) = (ps', w')" by force
  have ps: "ps = [(0, Over Interrupted)]" and w: "session_at w ''t'' = Some 0" "bw_wall w = 700" "\<not> bw_closing w"
    and "map_option bs_handoff_expires_at (object_at w 0) = Some (Some 600)"
    using demo_left_state x by simp_all
  then obtain s where s: "object_at w 0 = Some s" "bs_handoff_expires_at s = Some 600" by auto
  have "all_locks ps = {}" "dict_get ps 1 = None" using ps by (simp_all add: all_locks_def)
  from abandoned_handoff_released [OF x this w(3,1) s _ y [unfolded fine_def]] show ?thesis using x y w(2) by simp
qed

end
