(* ===== verification/Config_Settings.thy ===== *)
theory Config_Settings
  imports Prelude "HOL-Library.Sublist"
begin

text \<open>
  Settings (\<open>agent/shared/config/service.py\<close>, \<open>default_source.py\<close>, \<open>yaml_source.py\<close>, \<open>database_source.py\<close>,
  \<open>shared/infrastructure/config_file.py\<close>): defaults, a YAML file of nested mappings and the database, read with
  precedence and written to the one source that owns the key. A file is what YAML
  parsing gives of it, with strings as keys; the database keeps every value as it was written.
\<close>

datatype float_value = Finite rat | Infinite bool | Not_a_number

datatype raw =
    R_none
  | R_bool bool
  | R_int int
  | R_float float_value
  | R_text string
  | R_list "raw list"
  | R_dict "(string \<times> raw) list"

section \<open>Which source owns a key\<close>

text \<open>
  The patterns of \<open>constants.py\<close>: parts separated by dots. \<open>Word\<close> is \<open>[A-Za-z0-9_-]+\<close>, \<open>Plain_word\<close> \<open>[A-Za-z0-9_]+\<close>,
  \<open>Short_name\<close> \<open>[a-z0-9][a-z0-9_-]{0,63}\<close>; no part matches a dot, so a key is matched part by part. \<open>$\<close> also
  matches before a final line feed.
\<close>

datatype key_part = Word | Plain_word | Short_name | One_of "string list"

definition lower_or_digit :: "char \<Rightarrow> bool" where
  "lower_or_digit c = (let n = (of_char c :: nat) in 97 \<le> n \<and> n \<le> 122 \<or> 48 \<le> n \<and> n \<le> 57)"

definition word_char :: "char \<Rightarrow> bool" where
  "word_char c = (lower_or_digit c \<or> (let n = (of_char c :: nat) in 65 \<le> n \<and> n \<le> 90) \<or> c = CHR ''_'')"

fun part_matches :: "key_part \<Rightarrow> string \<Rightarrow> bool" where
  "part_matches Word s = (s \<noteq> [] \<and> list_all (\<lambda>c. word_char c \<or> c = CHR ''-'') s)"
| "part_matches Plain_word s = (s \<noteq> [] \<and> list_all word_char s)"
| "part_matches Short_name [] = False"
| "part_matches Short_name (c # s) =
     (lower_or_digit c \<and> list_all (\<lambda>c. lower_or_digit c \<or> c = CHR ''_'' \<or> c = CHR ''-'') s \<and> length s \<le> 63)"
| "part_matches (One_of ws) s = (s \<in> set ws)"

definition key_matches :: "key_part list \<Rightarrow> string \<Rightarrow> bool" where
  "key_matches ps k =
     (list_all2 part_matches ps (split_on (CHR ''.'') k) \<or>
      k \<noteq> [] \<and> last k = CHR 0x0A \<and> list_all2 part_matches ps (split_on (CHR ''.'') (butlast k)))"

definition database_runtime_key_patterns :: "key_part list list" where
  "database_runtime_key_patterns =
     [[One_of [''llm''], One_of [''model_pools''], Short_name],
      [One_of [''web''], One_of [''migration_version'']],
      [One_of [''web''], One_of [''connections''], Word, One_of [''type'', ''api_key'', ''cse_id'', ''base_url'']],
      [One_of [''web''], One_of [''defaults''], One_of [''google'', ''tavily'', ''firecrawl'', ''brave'', ''bing'']],
      [One_of [''tools''], One_of [''permissions'', ''shell'', ''storage_root'']],
      [One_of [''chat''], One_of [''stream_thinking'']],
      [One_of [''browser''], One_of [''executable_path'', ''storage_root'', ''idle_ttl_seconds'',
        ''operation_timeout_seconds'', ''stream_quality'', ''stream_max_width'', ''stream_max_height'']],
      [One_of [''channels''], Word, Word],
      [One_of [''channels''], One_of [''telegram''], One_of [''enabled'', ''bot_token'', ''default_agent'',
        ''code_agent'', ''research_agent'', ''update_mode'', ''webhook_url'', ''webhook_secret'']],
      [One_of [''channels''], One_of [''discord''], One_of [''enabled'', ''bot_token'', ''default_agent'',
        ''code_agent'', ''research_agent'']],
      [One_of [''channels''], One_of [''zalo''], One_of [''enabled'', ''bot_token'', ''default_agent'',
        ''code_agent'', ''research_agent'', ''update_mode'', ''webhook_url'', ''webhook_secret'']],
      [One_of [''channels''], One_of [''github''], One_of [''enabled'', ''default_agent'', ''trigger_label'',
        ''mention_triggers'']],
      [One_of [''llm''], One_of [''default_model'']],
      [One_of [''llm''], One_of [''fallback''], One_of [''provider'']],
      [One_of [''llm''], One_of [''fallback''], One_of [''model'']],
      [One_of [''llm''], One_of [''providers''], Word, One_of [''provider'', ''type'', ''catalog_id'', ''api_key'',
        ''base_url'', ''default_model'', ''models'', ''temperature'', ''enabled'', ''extra_body'', ''model_profiles'']],
      [One_of [''tools''], Word, Word],
      [One_of [''mcp''], One_of [''servers''], Word, One_of [''transport'', ''command'', ''args'', ''url'',
        ''enabled'']],
      [One_of [''mcp''], One_of [''servers''], Word, One_of [''env''], Word],
      [One_of [''mcp''], One_of [''servers''], Word, One_of [''headers''], Word],
      [One_of [''workspace''], One_of [''root'']],
      [One_of [''workspace''], One_of [''github''], One_of [''root'']],
      [One_of [''workspace''], One_of [''project_storage_root'']],
      [One_of [''workspace''], One_of [''daytona''], One_of [''enabled'', ''api_key'', ''default_root'', ''target'',
        ''image'', ''cpu'', ''memory'', ''disk'', ''language'', ''auto_stop_minutes'', ''auto_archive_days'',
        ''sweeper_interval_seconds'', ''start_timeout_seconds'', ''stop_timeout_seconds'',
        ''sandbox_auto_stop_minutes'', ''sandbox_auto_archive_minutes'', ''sandbox_auto_delete_minutes'', ''ephemeral'',
        ''network_block_all'', ''network_allow_list'']],
      [One_of [''workspace''], One_of [''modal''], One_of [''enabled'', ''token_id'', ''token_secret'', ''app_name'',
        ''default_root'', ''image'', ''sandbox_timeout_seconds'', ''idle_timeout_seconds'']],
      [One_of [''google_calendar''], One_of [''enabled'']],
      [One_of [''skills''], One_of [''repository_dir'', ''additional_roots'', ''disabled_ids'', ''max_files'',
        ''max_bytes'', ''max_file_bytes'', ''local_execution_mode'', ''cache_root'']],
      [One_of [''display''], One_of [''timezone'']],
      [One_of [''recursion_limit'']],
      [One_of [''decision''], One_of [''model'', ''timeout'', ''max_retries'', ''default_provider'',
        ''migration_version'']],
      [One_of [''decision''], One_of [''providers''], Word, Plain_word],
      [One_of [''decision''], One_of [''cloudflare''], One_of [''account_id'', ''api_token'', ''base_url'']],
      [One_of [''decision''], One_of [''router''], One_of [''mode'', ''threshold'', ''log_telemetry'']]]"

definition is_platform_managed_key :: "string \<Rightarrow> bool" where
  "is_platform_managed_key k = (k \<in> set
     [''channels.github.app_id'',
      ''channels.github.app_slug'',
      ''channels.github.private_key'',
      ''channels.github.private_key_path'',
      ''channels.github.webhook_secret'',
      ''google_calendar.client_id'',
      ''google_calendar.client_secret'',
      ''google_calendar.redirect_uri''])"

definition is_database_runtime_key :: "string \<Rightarrow> bool" where
  "is_database_runtime_key k = (\<not> is_platform_managed_key k \<and> list_ex (\<lambda>ps. key_matches ps k) database_runtime_key_patterns)"

section \<open>Nested mappings and dotted keys\<close>

definition full_key :: "string \<Rightarrow> string \<Rightarrow> string" where
  "full_key pre k = (if pre = [] then k else pre @ ''.'' @ k)"

definition update_all :: "(string, raw) dict \<Rightarrow> (string, raw) dict \<Rightarrow> (string, raw) dict" where
  "update_all d e = fold (\<lambda>(k, v) d. dict_set k v d) e d"

fun flatten_items :: "string \<Rightarrow> (string, raw) dict \<Rightarrow> (string \<times> raw) list \<Rightarrow> (string, raw) dict" where
  "flatten_items pre items [] = items"
| "flatten_items pre items ((k, R_dict e) # d) = flatten_items pre (update_all items (flatten_items (full_key pre k) [] e)) d"
| "flatten_items pre items ((k, v) # d) = flatten_items pre (dict_set (full_key pre k) v items) d"

definition flatten_config_mapping :: "(string \<times> raw) list \<Rightarrow> (string, raw) dict" where
  "flatten_config_mapping d = flatten_items [] [] d"

fun set_path :: "string list \<Rightarrow> raw \<Rightarrow> (string \<times> raw) list \<Rightarrow> (string \<times> raw) list" where
  "set_path [] v d = d"
| "set_path [k] v d = dict_set k v d"
| "set_path (k # l # ks) v d =
     dict_set k (R_dict (set_path (l # ks) v (case dict_get d k of Some (R_dict e) \<Rightarrow> e | _ \<Rightarrow> []))) d"

definition unflatten_config_mapping :: "(string, raw) dict \<Rightarrow> (string \<times> raw) list" where
  "unflatten_config_mapping flat = fold (\<lambda>(k, v) d. set_path (split_on (CHR ''.'') k) v d) flat []"

fun merge_nested_dicts :: "(string \<times> raw) list \<Rightarrow> (string \<times> raw) list \<Rightarrow> (string \<times> raw) list" where
  "merge_nested_dicts target [] = target"
| "merge_nested_dicts target ((k, R_dict e) # s) =
     merge_nested_dicts (dict_set k (R_dict (case dict_get target k of Some (R_dict t) \<Rightarrow> merge_nested_dicts t e | _ \<Rightarrow> e)) target) s"
| "merge_nested_dicts target ((k, v) # s) = merge_nested_dicts (dict_set k v target) s"

section \<open>Sources\<close>

datatype config_file = No_file | Mapping "(string \<times> raw) list" | No_mapping | Broken

record settings =
  se_defaults :: "(string, raw) dict"
  se_file :: config_file
  se_database :: "(string, raw) dict"

definition load_flat_config_file :: "config_file \<Rightarrow> (string, raw) dict" where
  "load_flat_config_file f = (case f of Mapping d \<Rightarrow> flatten_config_mapping d | _ \<Rightarrow> [])"

definition file_value :: "settings \<Rightarrow> string \<Rightarrow> raw option" where
  "file_value w k = (if is_database_runtime_key k then None else dict_get (load_flat_config_file (se_file w)) k)"

definition database_value :: "settings \<Rightarrow> string \<Rightarrow> raw option" where
  "database_value w k = (if is_database_runtime_key k then dict_get (se_database w) k else None)"

text \<open>\<open>value is not None\<close>.\<close>

fun present :: "raw option \<Rightarrow> bool" where
  "present None = False"
| "present (Some R_none) = False"
| "present (Some v) = True"

definition source_values :: "settings \<Rightarrow> string \<Rightarrow> raw option list" where
  "source_values w k = [dict_get (se_defaults w) k, file_value w k, database_value w k]"

definition config_get :: "settings \<Rightarrow> string \<Rightarrow> raw \<Rightarrow> raw" where
  "config_get w k otherwise =
     fold (\<lambda>v r. case v of None \<Rightarrow> r | Some x \<Rightarrow> if present v then x else r) (source_values w k) otherwise"

text \<open>\<open>get_effective\<close>: a null that was stored counts, one among the defaults does not.\<close>

definition get_effective :: "settings \<Rightarrow> string \<Rightarrow> raw option" where
  "get_effective w k =
     fold (\<lambda>v r. case v of None \<Rightarrow> r | Some x \<Rightarrow> Some x)
       [if present (dict_get (se_defaults w) k) then dict_get (se_defaults w) k else None, file_value w k, database_value w k] None"

definition default_file_values :: "(string, raw) dict \<Rightarrow> (string, raw) dict" where
  "default_file_values d = filter (\<lambda>(k, v). \<not> is_database_runtime_key k) d"

text \<open>\<open>_read_nested\<close>, or the defaults when there is no file; \<open>None\<close> when YAML raises.\<close>

definition base_mapping :: "settings \<Rightarrow> (string \<times> raw) list option" where
  "base_mapping w =
     (case se_file w of
        No_file \<Rightarrow> Some (unflatten_config_mapping (default_file_values (se_defaults w)))
      | Mapping d \<Rightarrow> Some d
      | No_mapping \<Rightarrow> Some []
      | Broken \<Rightarrow> None)"

definition can_update_file :: "string \<Rightarrow> bool" where
  "can_update_file k = (\<not> is_database_runtime_key k \<and> \<not> is_platform_managed_key k)"

text \<open>\<open>update_setting\<close>: the first source, from the highest priority down, that may write the key; \<open>None\<close> for an exception.\<close>

definition update_setting :: "string \<Rightarrow> raw \<Rightarrow> settings \<Rightarrow> settings option" where
  "update_setting k v w =
     (if is_database_runtime_key k then Some (w\<lparr>se_database := dict_set k v (se_database w)\<rparr>)
      else if can_update_file k
      then map_option (\<lambda>d. w\<lparr>se_file := Mapping (merge_nested_dicts d (unflatten_config_mapping [(k, v)]))\<rparr>) (base_mapping w)
      else Some w)"

section \<open>Reading back what was written\<close>

text \<open>A mapping as YAML gives it, whose keys have no dot and are not empty.\<close>

fun plain :: "raw \<Rightarrow> bool" where
  "plain (R_dict d) = (distinct (map fst d) \<and> (\<forall>x\<in>set d. fst x \<noteq> [] \<and> CHR ''.'' \<notin> set (fst x) \<and> plain (snd x)))"
| "plain v = True"

text \<open>The value at a path, if it is not a mapping.\<close>

fun leaf_at :: "(string \<times> raw) list \<Rightarrow> string list \<Rightarrow> raw option" where
  "leaf_at d [] = None"
| "leaf_at d (k # ks) =
     (case map_of d k of
        None \<Rightarrow> None
      | Some (R_dict e) \<Rightarrow> leaf_at e ks
      | Some v \<Rightarrow> if ks = [] then Some v else None)"

fun is_mapping :: "raw \<Rightarrow> bool" where
  "is_mapping (R_dict d) = True"
| "is_mapping v = False"

lemma merge_path:
  assumes "\<not> is_mapping v" and "ks \<noteq> []"
  shows "merge_nested_dicts d (set_path ks v []) = set_path ks v d"
  using assms
proof (induction ks v d rule: set_path.induct)
  case (2 k v d)
  then show ?case by (cases v) simp_all
next
  case (3 k l ks v d)
  show ?case
  proof (cases "\<exists>e. dict_get d k = Some (R_dict e)")
    case True
    then obtain e where "dict_get d k = Some (R_dict e)" by blast
    then show ?thesis using 3 by simp
  next
    case False
    then show ?thesis by (auto split: option.splits raw.splits)
  qed
qed simp

lemma leaf_set_same:
  assumes "\<not> is_mapping v" and "ks \<noteq> []"
  shows "leaf_at (set_path ks v d) ks = Some v"
  using assms by (induction ks v d rule: set_path.induct) (auto simp: dict_simps split: raw.splits)

lemma leaf_nothing: "leaf_at [] js = None"
  by (cases js) simp_all

lemma leaf_set_other:
  assumes "\<not> is_mapping v" and "\<not> prefix ks js" and "\<not> prefix js ks"
  shows "leaf_at (set_path ks v d) js = leaf_at d js"
  using assms
proof (induction ks v d arbitrary: js rule: set_path.induct)
  case (2 k v d)
  then show ?case by (cases js) (auto simp: dict_simps)
next
  case (3 k l ks v d)
  obtain j js' where js: "js = j # js'" using 3(4) by (cases js) auto
  show ?case
  proof (cases "j = k")
    case True
    have "js' \<noteq> []" using 3(4) js True by auto
    then show ?thesis
      using 3 js True leaf_nothing by (auto simp: dict_simps split: option.splits raw.splits)
  next
    case False
    then show ?thesis using js by (simp add: dict_simps)
  qed
qed simp

lemma plain_dict_set:
  assumes d: "plain (R_dict d)" and "k \<noteq> []" and "CHR ''.'' \<notin> set k" and "plain v"
  shows "plain (R_dict (dict_set k v d))"
proof -
  have "is_dict d" using d by (simp add: is_dict_def)
  then have "distinct (map fst (dict_set k v d))" using is_dict_set [of d k v] by (simp add: is_dict_def)
  moreover have "set (dict_set k v d) = insert (k, v) {p \<in> set d. fst p \<noteq> k}" using \<open>is_dict d\<close> by (rule set_dict_set)
  ultimately show ?thesis using assms by simp
qed

lemma plain_at:
  assumes d: "plain (R_dict d)" and e: "dict_get d k = Some v"
  shows "plain v"
  using d map_of_SomeD [OF e] by fastforce

lemma plain_set:
  assumes "plain (R_dict d)" and "\<not> is_mapping v" and "\<And>k. k \<in> set ks \<Longrightarrow> k \<noteq> [] \<and> CHR ''.'' \<notin> set k"
  shows "plain (R_dict (set_path ks v d))"
  using assms
proof (induction ks v d rule: set_path.induct)
  case (2 k v d)
  have "plain v" using 2(2) by (cases v) simp_all
  then show ?case using 2 plain_dict_set [of d k v] by (simp del: plain.simps)
next
  case (3 k l ks v d)
  define e where "e = (case dict_get d k of Some (R_dict e) \<Rightarrow> e | _ \<Rightarrow> [])"
  have "plain (R_dict e)"
    unfolding e_def using plain_at [OF 3(2), of k] by (simp split: option.split raw.split del: plain.simps add: plain.simps(1) [of "[]"])
  then have "plain (R_dict (set_path (l # ks) v e))" using 3(1,3,4) by (simp add: e_def del: plain.simps)
  then show ?case using 3(2,4) plain_dict_set [of d k] by (simp add: e_def [symmetric] del: plain.simps)
qed simp

lemma dict_get_update_all:
  assumes "is_dict e"
  shows "dict_get (update_all d e) K = (case dict_get e K of Some v \<Rightarrow> Some v | None \<Rightarrow> dict_get d K)"
  using assms
proof (induction e arbitrary: d)
  case (Cons x e)
  obtain k v where x: "x = (k, v)" by (cases x)
  have "dict_get e k = None" and "is_dict e" using Cons(2) by (auto simp: x is_dict_def map_of_eq_None_iff)
  then show ?case using Cons(1) [of "dict_set k v d"] by (auto simp: update_all_def x dict_simps split: option.split)
qed (simp add: update_all_def)

lemma is_dict_update_all: "is_dict d \<Longrightarrow> is_dict (update_all d e)"
  by (induction e arbitrary: d) (auto simp: update_all_def)

lemma is_dict_flatten: "is_dict items \<Longrightarrow> is_dict (flatten_items pre items d)"
  by (induction pre items d rule: flatten_items.induct) (simp_all add: is_dict_update_all)

lemma flatten_leaf:
  "\<not> is_mapping v \<Longrightarrow> flatten_items pre items ((k, v) # d) = flatten_items pre (dict_set (full_key pre k) v items) d"
  by (cases v) simp_all

abbreviation dotted :: "string list \<Rightarrow> string" where
  "dotted ks \<equiv> join_str ''.'' ks"

lemma dotted_snoc: "[] \<notin> set ps \<Longrightarrow> full_key (dotted ps) k = dotted (ps @ [k])"
proof (induction "''.''" ps rule: join_str.induct)
  case 1
  then show ?case by (simp add: full_key_def)
next
  case (2 x)
  then show ?case by (auto simp: full_key_def)
next
  case (3 x y xs)
  have "dotted (y # xs) \<noteq> []" using 3(2) by (cases xs) auto
  then show ?case using 3 by (simp add: full_key_def)
qed

definition parts :: "string list \<Rightarrow> bool" where
  "parts ks = list_all (\<lambda>k. CHR ''.'' \<notin> set k) ks"

lemma dotted_inject: "parts ks \<Longrightarrow> parts js \<Longrightarrow> ks \<noteq> [] \<Longrightarrow> js \<noteq> [] \<Longrightarrow> dotted ks = dotted js \<longleftrightarrow> ks = js"
  unfolding parts_def by (metis split_join)

lemma leaf_cons:
  "leaf_at ((k, v) # d) (j # js) =
     (if j = k then (case v of R_dict e \<Rightarrow> leaf_at e js | _ \<Rightarrow> if js = [] then Some v else None) else leaf_at d (j # js))"
  by (cases v) simp_all

lemma leaf_cons_leaf: "\<not> is_mapping v \<Longrightarrow> leaf_at ((k, v) # d) (k # js) = (if js = [] then Some v else None)"
  by (cases v) simp_all

lemma leaf_fresh: "k \<notin> fst ` set d \<Longrightarrow> leaf_at d (k # js) = None"
  by (simp add: map_of_eq_None_iff [THEN iffD2])

definition leaf_below :: "string list \<Rightarrow> (string \<times> raw) list \<Rightarrow> string list \<Rightarrow> raw option" where
  "leaf_below ps d js = (if prefix ps js then leaf_at d (drop (length ps) js) else None)"

lemma below_here: "prefix ps js \<Longrightarrow> leaf_below ps d js = leaf_at d (drop (length ps) js)"
  by (simp add: leaf_below_def)

lemma below_empty: "leaf_below ps [] js = None"
  by (cases "drop (length ps) js") (simp_all add: leaf_below_def)

lemma below_split:
  assumes "k \<notin> fst ` set d"
  shows "leaf_below ps ((k, v) # d) js =
    (if prefix (ps @ [k]) js then leaf_below ps [(k, v)] js else leaf_below ps d js)"
  and "prefix (ps @ [k]) js \<Longrightarrow> leaf_below ps d js = None"
  and "leaf_below ps [(k, R_dict e)] js = leaf_below (ps @ [k]) e js"
  and "\<not> is_mapping v \<Longrightarrow> leaf_below ps [(k, v)] js = (if js = ps @ [k] then Some v else None)"
proof -
  consider (no) "\<not> prefix ps js" | (here) "js = ps" | (more) j ts where "js = ps @ j # ts"
    by (metis prefix_def list.exhaust append_Nil2)
  then have "leaf_below ps ((k, v) # d) js =
      (if prefix (ps @ [k]) js then leaf_below ps [(k, v)] js else leaf_below ps d js) \<and>
    (prefix (ps @ [k]) js \<longrightarrow> leaf_below ps d js = None) \<and>
    leaf_below ps [(k, R_dict e)] js = leaf_below (ps @ [k]) e js \<and>
    (\<not> is_mapping v \<longrightarrow> leaf_below ps [(k, v)] js = (if js = ps @ [k] then Some v else None))"
  proof cases
    case no
    then have "\<not> prefix (ps @ [k]) js" and "js \<noteq> ps @ [k]" by (auto dest: append_prefixD)
    then show ?thesis using no by (simp add: leaf_below_def)
  next
    case here
    then show ?thesis by (simp add: leaf_below_def leaf_nothing)
  next
    case more
    then show ?thesis
      using leaf_fresh [OF assms, of ts] leaf_cons_leaf [of v k "[]" ts]
      by (auto simp: leaf_below_def simp del: leaf_at.simps(2) simp add: leaf_cons leaf_fresh)
  qed
  then show "leaf_below ps ((k, v) # d) js =
      (if prefix (ps @ [k]) js then leaf_below ps [(k, v)] js else leaf_below ps d js)"
    and "prefix (ps @ [k]) js \<Longrightarrow> leaf_below ps d js = None"
    and "leaf_below ps [(k, R_dict e)] js = leaf_below (ps @ [k]) e js"
    and "\<not> is_mapping v \<Longrightarrow> leaf_below ps [(k, v)] js = (if js = ps @ [k] then Some v else None)"
    by blast+
qed

lemma flatten_gets:
  assumes "plain (R_dict d)" and "parts ps" and "[] \<notin> set ps" and "parts js" and "js \<noteq> []"
  shows "dict_get (flatten_items (dotted ps) items d) (dotted js) =
    (case leaf_below ps d js of Some v \<Rightarrow> Some v | None \<Rightarrow> dict_get items (dotted js))"
  using assms
proof (induction "size (R_dict d)" arbitrary: d ps items rule: less_induct)
  case less
  show ?case
  proof (cases d)
    case Nil
    then show ?thesis by (simp add: below_empty)
  next
    case (Cons x d')
    obtain k v where x: "x = (k, v)" by (cases x)
    have fresh: "k \<notin> fst ` set d'" and k: "k \<noteq> []" "CHR ''.'' \<notin> set k" and d': "plain (R_dict d')" and v: "plain v"
      using less(2) by (auto simp: Cons x)
    have ps': "parts (ps @ [k])" "[] \<notin> set (ps @ [k])" using less(3,4) k by (auto simp: parts_def)
    have key: "full_key (dotted ps) k = dotted (ps @ [k])" using less(4) by (rule dotted_snoc)
    have rest: "dict_get (flatten_items (dotted ps) m d') (dotted js) =
        (case leaf_below ps d' js of Some v \<Rightarrow> Some v | None \<Rightarrow> dict_get m (dotted js))" for m
      using less(1) [of d' ps m] less(3-6) d' by (simp add: Cons)
    show ?thesis
    proof (cases v)
      case (R_dict e)
      have "dict_get (flatten_items (dotted (ps @ [k])) [] e) (dotted js) = leaf_below (ps @ [k]) e js"
        using less(1) [of e "ps @ [k]" "[]"] less(5,6) ps' v
        by (simp add: Cons x R_dict split: option.split)
      then show ?thesis
        using below_split(1) [OF fresh, of ps v js] below_split(2) [OF fresh, of ps js] below_split(3) [OF fresh, where ps = ps and js = js and e = e]
        by (auto simp: Cons x R_dict rest key dict_get_update_all is_dict_flatten leaf_below_def split: option.split)
    qed (use below_split(1) [OF fresh, of ps v js] below_split(2) [OF fresh, of ps js] below_split(4) [OF fresh, of v ps js] dotted_inject [OF less(5) ps'(1) less(6)] in
        \<open>auto simp: Cons x rest key dict_simps split: option.split\<close>)
  qed
qed

abbreviation key_parts :: "string \<Rightarrow> string list" where
  "key_parts \<equiv> split_on (CHR ''.'')"

lemma split_nonempty: "split_on c s \<noteq> []"
  by (cases s) (auto split: list.split)

lemma join_split: "dotted (key_parts s) = s"
proof (induction s)
  case (Cons x s)
  obtain w ws where ws: "key_parts s = w # ws" using split_nonempty [of "CHR ''.''" s] by (cases "key_parts s") auto
  then show ?case using Cons by (cases ws) auto
qed simp

lemma parts_key_parts: "parts (key_parts s)"
  by (auto simp: parts_def list_all_iff dest: parts_of_split)

lemma flatten_reads: "plain (R_dict d) \<Longrightarrow> dict_get (flatten_config_mapping d) k = leaf_at d (key_parts k)"
  using flatten_gets [of d "[]" "key_parts k" "[]"]
  by (simp add: flatten_config_mapping_def parts_def [of "[]"] parts_key_parts split_nonempty join_split leaf_below_def split: option.split)

lemma written_value:
  assumes d: "plain (R_dict d)" and v: "\<not> is_mapping v" and k: "[] \<notin> set (key_parts k)"
  defines "d' \<equiv> merge_nested_dicts d (unflatten_config_mapping [(k, v)])"
  shows "dict_get (flatten_config_mapping d') k = Some v"
    and "\<not> prefix (key_parts k) (key_parts j) \<Longrightarrow> \<not> prefix (key_parts j) (key_parts k) \<Longrightarrow>
      dict_get (flatten_config_mapping d') j = dict_get (flatten_config_mapping d) j"
proof -
  have d'_is: "d' = set_path (key_parts k) v d"
    by (simp add: d'_def unflatten_config_mapping_def merge_path v split_nonempty)
  have "plain (R_dict d')"
    unfolding d'_is using d v k by (intro plain_set) (auto dest: parts_of_split)
  then have reads: "dict_get (flatten_config_mapping d') j = leaf_at (set_path (key_parts k) v d) (key_parts j)" for j
    using flatten_reads d'_is by simp
  show "dict_get (flatten_config_mapping d') k = Some v"
    by (simp add: reads leaf_set_same v split_nonempty)
  show "dict_get (flatten_config_mapping d') j = dict_get (flatten_config_mapping d) j"
    if "\<not> prefix (key_parts k) (key_parts j)" and "\<not> prefix (key_parts j) (key_parts k)"
    using that by (simp add: reads leaf_set_other v flatten_reads [OF d])
qed

lemma present_leaf: "present (Some v) \<longleftrightarrow> v \<noteq> R_none"
  by (cases v) simp_all

text \<open>
  C29: A setting written is the setting read. When \<open>update_setting\<close> on a key that may be written returns, for a
  value that is neither null nor a mapping, reading the key gives that value whatever the defaults, the file and the
  database held before, and no key that is not above or below it in the dotted hierarchy reads differently; for a key of
  the file this takes a file whose own keys have no dot.
\<close>

theorem update_then_get:
  assumes written: "update_setting k v w = Some w'"
    and may: "is_database_runtime_key k \<or> can_update_file k"
    and v: "v \<noteq> R_none" "\<not> is_mapping v"
    and home: "is_database_runtime_key k \<or> (\<exists>d. se_file w = Mapping d \<and> plain (R_dict d) \<and> [] \<notin> set (key_parts k))"
  shows "config_get w' k x = v \<and> get_effective w' k = Some v \<and>
    (\<forall>j. prefix (key_parts k) (key_parts j) \<or> prefix (key_parts j) (key_parts k) \<or> config_get w' j x = config_get w j x)"
proof (cases "is_database_runtime_key k")
  case True
  then have w': "w' = w\<lparr>se_database := dict_set k v (se_database w)\<rparr>"
    using written by (simp add: update_setting_def)
  have "source_values w' j = source_values w j" if "\<not> prefix (key_parts k) (key_parts j)" for j
    using that by (cases "j = k") (simp_all add: w' source_values_def file_value_def database_value_def dict_simps)
  then have "config_get w' j x = config_get w j x" if "\<not> prefix (key_parts k) (key_parts j)" for j
    using that by (simp add: config_get_def)
  moreover have "config_get w' k x = v" and "get_effective w' k = Some v"
    using True v(1) by (simp_all add: w' config_get_def get_effective_def source_values_def database_value_def dict_simps present_leaf)
  ultimately show ?thesis by blast
next
  case False
  then obtain d where d: "se_file w = Mapping d" "plain (R_dict d)" and k: "[] \<notin> set (key_parts k)" using home by auto
  note reads = written_value [OF d(2) v(2) k]
  have w': "w' = w\<lparr>se_file := Mapping (merge_nested_dicts d (unflatten_config_mapping [(k, v)]))\<rparr>"
    using written may False d(1) by (auto simp: update_setting_def base_mapping_def)
  have "source_values w' j = source_values w j"
    if "\<not> prefix (key_parts k) (key_parts j)" "\<not> prefix (key_parts j) (key_parts k)" for j
    using reads(2) [OF that] d(1)
    by (simp add: w' source_values_def file_value_def database_value_def load_flat_config_file_def)
  then have "config_get w' j x = config_get w j x"
    if "\<not> prefix (key_parts k) (key_parts j)" "\<not> prefix (key_parts j) (key_parts k)" for j
    using that by (simp add: config_get_def)
  moreover have "config_get w' k x = v" and "get_effective w' k = Some v"
    using False v(1) reads(1)
    by (simp_all add: w' config_get_def get_effective_def source_values_def file_value_def database_value_def
        load_flat_config_file_def present_leaf)
  ultimately show ?thesis by blast
qed

definition sample_settings :: settings where
  "sample_settings = \<lparr>se_defaults = [(''host'', R_text ''127.0.0.1''), (''tray.enabled'', R_bool True)],
     se_file = Mapping [(''tray'', R_dict [(''enabled'', R_bool True), (''autostart'', R_bool False)])], se_database = []\<rparr>"

lemma tray_of_file: "\<not> is_database_runtime_key ''tray.enabled''" "\<not> is_platform_managed_key ''tray.enabled''"
  by code_simp+

text \<open>Turning the tray off in the file: the key reads false, \<open>tray.autostart\<close> is as it was.\<close>

theorem update_then_get_witness:
  "\<exists>w'. update_setting ''tray.enabled'' (R_bool False) sample_settings = Some w' \<and>
     config_get w' ''tray.enabled'' R_none = R_bool False \<and>
     config_get w' ''tray.autostart'' R_none = config_get sample_settings ''tray.autostart'' R_none"
proof -
  obtain w' where w': "update_setting ''tray.enabled'' (R_bool False) sample_settings = Some w'"
    by (simp add: update_setting_def can_update_file_def base_mapping_def tray_of_file sample_settings_def)
  have apart: "\<not> prefix (key_parts ''tray.enabled'') (key_parts ''tray.autostart'')"
    "\<not> prefix (key_parts ''tray.autostart'') (key_parts ''tray.enabled'')" by simp_all
  have may: "can_update_file ''tray.enabled''"
    by (simp add: can_update_file_def tray_of_file)
  have home: "\<exists>d. se_file sample_settings = Mapping d \<and> plain (R_dict d) \<and> [] \<notin> set (key_parts ''tray.enabled'')"
    by (simp add: sample_settings_def)
  note all = update_then_get [OF w' disjI2 [OF may] _ _ disjI2 [OF home], of R_none]
  have "config_get w' ''tray.autostart'' R_none = config_get sample_settings ''tray.autostart'' R_none"
    using all [THEN conjunct2, THEN conjunct2, rule_format, of "''tray.autostart''"] apart by simp
  moreover have "config_get w' ''tray.enabled'' R_none = R_bool False" using all by simp
  ultimately show ?thesis using w' by blast
qed

text \<open>
  A file with both \<open>a.b: 2\<close> at its top level and a mapping \<open>a\<close> above it: the flat key is read last, an update goes into the
  mapping, and the setting never changes.
\<close>

lemma flat_key_hides_update:
  assumes "se_file w = Mapping [(''a'', R_dict [(''b'', R_int 1)]), (''a.b'', R_int 2)]"
    and "can_update_file ''a.b''"
  shows "\<exists>w'. update_setting ''a.b'' (R_int n) w = Some w' \<and> config_get w' ''a.b'' x = R_int 2"
  using assms
  by (simp add: can_update_file_def update_setting_def base_mapping_def unflatten_config_mapping_def config_get_def
      source_values_def file_value_def database_value_def load_flat_config_file_def flatten_config_mapping_def full_key_def update_all_def)

end
