(* ===== verification/Tool_Config.thy ===== *)
theory Tool_Config
  imports Config_Settings
begin

text \<open>
  Configurable tools (\<open>agent/modules/tools/config.py\<close>, \<open>ToolConfigField\<close> and \<open>ToolConfigSchema\<close> of \<open>domain.py\<close>,
  \<open>coerce_bool\<close> of \<open>config_file.py\<close>): a value is coerced to its field's type when the dashboard saves it and again
  when the tool is built from defaults, settings and the agent's overrides. Decimal conversion to doubles and \<open>str\<close>
  of values that are not text are arguments (\<open>py_numbers\<close>); a descriptor carries its normalizer, as in the source.
\<close>

section \<open>Fields and values\<close>

datatype input_type = Text_input | Number_input | Boolean_input | Password_input | Select_input

record config_field =
  cf_name :: string
  cf_type :: input_type
  cf_default :: raw
  cf_required :: bool
  cf_options :: "string list"
  cf_secret :: bool
  cf_min :: "rat option"
  cf_max :: "rat option"

record py_numbers =
  float_of_text :: "string \<Rightarrow> float_value option"
  float_of_int :: "int \<Rightarrow> float_value option"
  str_of_other :: "raw \<Rightarrow> string"

datatype config_error =
    Below_minimum string
  | Above_maximum string
  | Not_allowed string "string list"
  | Not_a_float
  | Not_text
  | Unknown_tool string
  | Not_configurable string
  | Unknown_field string string
  | Masked_value string
  | Missing_config string
  | Normalizer_failed

definition is_secret_field :: "config_field \<Rightarrow> bool" where
  "is_secret_field f = (cf_secret f \<or> cf_type f = Password_input)"

definition true_words :: "string list" where
  "true_words = [''1'', ''true'', ''yes'', ''on'']"

fun raw_truth :: "raw \<Rightarrow> bool" where
  "raw_truth R_none = False"
| "raw_truth (R_bool b) = b"
| "raw_truth (R_int n) = (n \<noteq> 0)"
| "raw_truth (R_float x) = (x \<noteq> Finite 0)"
| "raw_truth (R_text s) = (s \<noteq> [])"
| "raw_truth (R_list vs) = (vs \<noteq> [])"
| "raw_truth (R_dict d) = (d \<noteq> [])"

fun coerce_bool :: "raw \<Rightarrow> bool" where
  "coerce_bool (R_text s) = (lower_str (strip s) \<in> set true_words)"
| "coerce_bool v = raw_truth v"

fun to_float :: "py_numbers \<Rightarrow> raw \<Rightarrow> float_value option" where
  "to_float N (R_bool b) = Some (Finite (if b then 1 else 0))"
| "to_float N (R_int n) = float_of_int N n"
| "to_float N (R_float x) = Some x"
| "to_float N (R_text s) = float_of_text N s"
| "to_float N v = None"

text \<open>The comparisons of Python: none holds of not-a-number. \<open>Infinite True\<close> is plus infinity.\<close>

fun is_below :: "float_value \<Rightarrow> rat option \<Rightarrow> bool" where
  "is_below (Finite q) (Some m) = (q < m)"
| "is_below (Infinite up) (Some m) = (\<not> up)"
| "is_below x m = False"

fun is_above :: "float_value \<Rightarrow> rat option \<Rightarrow> bool" where
  "is_above (Finite q) (Some m) = (m < q)"
| "is_above (Infinite up) (Some m) = up"
| "is_above x m = False"

fun whole_number :: "float_value \<Rightarrow> raw" where
  "whole_number (Finite q) = (if q = of_int \<lfloor>q\<rfloor> then R_int \<lfloor>q\<rfloor> else R_float (Finite q))"
| "whole_number x = R_float x"

fun shown_text :: "py_numbers \<Rightarrow> raw \<Rightarrow> string" where
  "shown_text N (R_text s) = s"
| "shown_text N v = str_of_other N v"

definition coerce_number :: "py_numbers \<Rightarrow> config_field \<Rightarrow> raw \<Rightarrow> config_error + raw" where
  "coerce_number N f v =
     (if (case v of R_text s \<Rightarrow> strip s = [] | _ \<Rightarrow> False) then Inr R_none
      else case to_float N v of
          None \<Rightarrow> Inl Not_a_float
        | Some x \<Rightarrow>
            if is_below x (cf_min f) then Inl (Below_minimum (cf_name f))
            else if is_above x (cf_max f) then Inl (Above_maximum (cf_name f))
            else Inr (whole_number x))"

definition coerce_select :: "config_field \<Rightarrow> string \<Rightarrow> config_error + raw" where
  "coerce_select f t =
     (if t \<in> set (cf_options f) then Inr (R_text t)
      else case find (\<lambda>c. lower_str c = lower_str t) (cf_options f) of
          Some c \<Rightarrow> Inr (R_text c)
        | None \<Rightarrow> Inl (Not_allowed (cf_name f) (cf_options f)))"

definition coerce_value :: "py_numbers \<Rightarrow> config_field \<Rightarrow> raw \<Rightarrow> config_error + raw" where
  "coerce_value N f v =
     (if v = R_none then Inr R_none
      else case cf_type f of
          Boolean_input \<Rightarrow> Inr (R_bool (coerce_bool v))
        | Number_input \<Rightarrow> coerce_number N f v
        | ty \<Rightarrow> (let t = strip (shown_text N v)
                in if ty = Select_input \<and> cf_options f \<noteq> [] \<and> t \<noteq> [] then coerce_select f t else Inr (R_text t)))"

section \<open>Schemas and descriptors\<close>

definition schema_defaults :: "config_field list \<Rightarrow> (string, raw) dict" where
  "schema_defaults fs = fold (\<lambda>f. dict_set (cf_name f) (cf_default f)) (filter (\<lambda>f. cf_default f \<noteq> R_none) fs) []"

definition field_map :: "config_field list \<Rightarrow> (string, config_field) dict" where
  "field_map fs = fold (\<lambda>f. dict_set (cf_name f) f) fs []"

record configurable_tool =
  ct_name :: string
  ct_schema :: "config_field list option"
  ct_default_config :: "(string, raw) dict"
  ct_normalizer :: "((string, raw) dict \<Rightarrow> raw \<Rightarrow> settings \<Rightarrow> (string, raw) dict option) option"

definition tool_config_key :: "string \<Rightarrow> string \<Rightarrow> string" where
  "tool_config_key t f = ''tools.'' @ t @ ''.'' @ f"

section \<open>What the dashboard saves\<close>

text \<open>\<open>key.split('.', 2)\<close>, for a key of at least three parts.\<close>

fun split_once :: "char \<Rightarrow> string \<Rightarrow> (string \<times> string) option" where
  "split_once c [] = None"
| "split_once c (x # s) = (if x = c then Some ([], s) else map_option (\<lambda>(a, b). (x # a, b)) (split_once c s))"

definition three_parts :: "string \<Rightarrow> (string \<times> string \<times> string) option" where
  "three_parts k = (case split_once (CHR ''.'') k of
      None \<Rightarrow> None
    | Some (a, r) \<Rightarrow> map_option (\<lambda>(b, c). (a, b, c)) (split_once (CHR ''.'') r))"

definition masked_secret :: string where
  "masked_secret = ''set''"

fun trimmed :: "raw \<Rightarrow> raw" where
  "trimmed (R_text s) = R_text (strip s)"
| "trimmed v = v"

definition normalize_field_value :: "py_numbers \<Rightarrow> config_field \<Rightarrow> string \<Rightarrow> raw \<Rightarrow> config_error + raw" where
  "normalize_field_value N f name v =
     (if v = R_none then Inr R_none
      else if trimmed v = R_text masked_secret \<and> is_secret_field f then Inl (Masked_value name)
      else case coerce_value N f (trimmed v) of
          Inl e \<Rightarrow> Inl e
        | Inr x \<Rightarrow> Inr (if x = R_text [] then R_none else x))"

text \<open>Every key but \<open>tools.permissions\<close>.\<close>

definition normalize_tool_setting_value ::
  "py_numbers \<Rightarrow> configurable_tool list \<Rightarrow> string \<Rightarrow> raw \<Rightarrow> config_error + raw" where
  "normalize_tool_setting_value N builtins key v =
     (if key = ''tools.shell'' \<or> key = ''tools.storage_root'' then
        (if v = R_none \<or> v = R_text [] then Inr R_none
         else case v of
             R_text s \<Rightarrow> Inr (if strip s = [] then R_none else R_text (strip s))
           | _ \<Rightarrow> Inl Not_text)
      else (case three_parts key of
          None \<Rightarrow> Inr v
        | Some (base, tool, name) \<Rightarrow>
            if base \<noteq> ''tools'' then Inr v
            else (case find (\<lambda>d. ct_name d = tool) builtins of
                None \<Rightarrow> Inl (Unknown_tool tool)
              | Some d \<Rightarrow> (case ct_schema d of
                    None \<Rightarrow> Inl (Not_configurable tool)
                  | Some fs \<Rightarrow> (case dict_get (field_map fs) name of
                        None \<Rightarrow> Inl (Unknown_field tool name)
                      | Some f \<Rightarrow> normalize_field_value N f name v)))))"

section \<open>What the tool is built from\<close>

definition settings_over :: "settings \<Rightarrow> string \<Rightarrow> string list \<Rightarrow> (string, raw) dict \<Rightarrow> (string, raw) dict" where
  "settings_over w tool names vals =
     fold (\<lambda>n vals. case get_effective w (tool_config_key tool n) of
         Some v \<Rightarrow> if v = R_none then vals else dict_set n v vals
       | None \<Rightarrow> vals) names vals"

definition overrides_over :: "(string, config_field) dict \<Rightarrow> raw option \<Rightarrow> (string, raw) dict \<Rightarrow> (string, raw) dict" where
  "overrides_over fm ovr vals =
     (case ovr of
        Some (R_dict d) \<Rightarrow> fold (\<lambda>(n, v) vals. if dict_get fm n \<noteq> None then dict_set n v vals else vals) d vals
      | _ \<Rightarrow> vals)"

fun coerce_fields :: "py_numbers \<Rightarrow> (string, raw) dict \<Rightarrow> (string \<times> config_field) list \<Rightarrow> config_error + (string, raw) dict" where
  "coerce_fields N vals [] = Inr []"
| "coerce_fields N vals ((n, f) # fs) =
     (case dict_get vals n of
        None \<Rightarrow> if cf_required f then Inl (Missing_config n) else coerce_fields N vals fs
      | Some v \<Rightarrow> (case coerce_value N f v of
            Inl e \<Rightarrow> Inl e
          | Inr x \<Rightarrow>
              if cf_required f \<and> (x = R_none \<or> x = R_text []) then Inl (Missing_config n)
              else (case coerce_fields N vals fs of
                  Inl e \<Rightarrow> Inl e
                | Inr c \<Rightarrow> Inr (if x = R_none then c else (n, x) # c))))"

definition config_values :: "settings \<Rightarrow> configurable_tool \<Rightarrow> config_field list \<Rightarrow> raw option \<Rightarrow> (string, raw) dict" where
  "config_values w d fs ovr =
     overrides_over (field_map fs) ovr
       (settings_over w (ct_name d) (keys (field_map fs)) (update_all (schema_defaults fs) (ct_default_config d)))"

definition overrides_or_empty :: "raw option \<Rightarrow> raw" where
  "overrides_or_empty ovr = (case ovr of None \<Rightarrow> R_dict [] | Some v \<Rightarrow> if raw_truth v then v else R_dict [])"

definition normalized_values :: "settings \<Rightarrow> configurable_tool \<Rightarrow> raw option \<Rightarrow> (string, raw) dict \<Rightarrow> (string, raw) dict option" where
  "normalized_values w d ovr vals =
     (case ct_normalizer d of None \<Rightarrow> Some vals | Some nrm \<Rightarrow> nrm vals (overrides_or_empty ovr) w)"

definition resolve_tool_config ::
  "py_numbers \<Rightarrow> settings \<Rightarrow> configurable_tool \<Rightarrow> (string, raw) dict \<Rightarrow> config_error + (string, raw) dict" where
  "resolve_tool_config N w d agent_configs =
     (case ct_schema d of
        None \<Rightarrow> Inr []
      | Some fs \<Rightarrow>
          (let ovr = dict_get agent_configs (ct_name d)
           in case normalized_values w d ovr (config_values w d fs ovr) of
               None \<Rightarrow> Inl Normalizer_failed
             | Some vals \<Rightarrow> coerce_fields N vals (field_map fs)))"

section \<open>A resolved configuration has its schema's types\<close>

text \<open>Not-a-number is the one number the bounds do not stop.\<close>

fun in_bounds :: "config_field \<Rightarrow> float_value \<Rightarrow> bool" where
  "in_bounds f (Finite q) = ((\<forall>m. cf_min f = Some m \<longrightarrow> m \<le> q) \<and> (\<forall>m. cf_max f = Some m \<longrightarrow> q \<le> m))"
| "in_bounds f (Infinite up) = (if up then cf_max f = None else cf_min f = None)"
| "in_bounds f Not_a_number = True"

fun number_typed :: "config_field \<Rightarrow> raw \<Rightarrow> bool" where
  "number_typed f (R_int n) = in_bounds f (Finite (of_int n))"
| "number_typed f (R_float (Finite q)) = (in_bounds f (Finite q) \<and> q \<noteq> of_int \<lfloor>q\<rfloor>)"
| "number_typed f (R_float x) = in_bounds f x"
| "number_typed f v = False"

fun text_typed :: "config_field \<Rightarrow> raw \<Rightarrow> bool" where
  "text_typed f (R_text s) = (cf_type f \<noteq> Select_input \<or> cf_options f = [] \<or> s = [] \<or> s \<in> set (cf_options f))"
| "text_typed f v = False"

definition field_typed :: "config_field \<Rightarrow> raw \<Rightarrow> bool" where
  "field_typed f v =
     (case cf_type f of
        Boolean_input \<Rightarrow> v = R_bool True \<or> v = R_bool False
      | Number_input \<Rightarrow> number_typed f v
      | _ \<Rightarrow> text_typed f v)"

lemma bounds_checked: "\<not> is_below x (cf_min f) \<Longrightarrow> \<not> is_above x (cf_max f) \<Longrightarrow> in_bounds f x"
  by (cases x; cases "cf_min f"; cases "cf_max f") (auto simp: not_less)

lemma whole_number_typed: "in_bounds f x \<Longrightarrow> number_typed f (whole_number x)"
  by (cases x) auto

lemma coerce_number_typed: "coerce_number N f v = Inr u \<Longrightarrow> u = R_none \<or> number_typed f u"
  using bounds_checked [of _ f] whole_number_typed [of f]
  by (auto simp: coerce_number_def split: option.splits if_splits)

lemma coerce_select_option: "coerce_select f t = Inr u \<Longrightarrow> \<exists>c\<in>set (cf_options f). u = R_text c \<and> lower_str c = lower_str t"
  by (auto simp: coerce_select_def find_Some_iff split: option.splits if_splits)

lemma coerce_value_typed: "coerce_value N f v = Inr u \<Longrightarrow> u = R_none \<or> field_typed f u"
  using coerce_number_typed [of N f v u] coerce_select_option [of f "strip (shown_text N v)" u]
  by (auto simp: coerce_value_def field_typed_def Let_def split: if_splits input_type.splits)

lemma coerce_fields_cons:
  assumes "coerce_fields N vals ((n, f) # fs) = Inr c"
  obtains (absent) "dict_get vals n = None" and "\<not> cf_required f" and "coerce_fields N vals fs = Inr c"
  | (empty) v where "dict_get vals n = Some v" and "coerce_value N f v = Inr R_none" and "\<not> cf_required f"
      and "coerce_fields N vals fs = Inr c"
  | (given) v x c' where "dict_get vals n = Some v" and "coerce_value N f v = Inr x" and "x \<noteq> R_none"
      and "cf_required f \<Longrightarrow> x \<noteq> R_text []" and "coerce_fields N vals fs = Inr c'" and "c = (n, x) # c'"
  using assms by (auto split: option.splits sum.splits if_splits)

lemma coerce_fields_keys: "coerce_fields N vals fs = Inr c \<Longrightarrow> set (keys c) \<subseteq> set (keys fs)"
proof (induction fs arbitrary: c)
  case (Cons nf fs)
  obtain n f where nf: "nf = (n, f)" by (cases nf)
  show ?case using Cons(2)[unfolded nf] by (cases rule: coerce_fields_cons) (use Cons(1) nf in force)+
qed simp

lemma coerce_fields_dict: "coerce_fields N vals fs = Inr c \<Longrightarrow> is_dict fs \<Longrightarrow> is_dict c"
proof (induction fs arbitrary: c)
  case (Cons nf fs)
  obtain n f where nf: "nf = (n, f)" by (cases nf)
  show ?case
    using Cons(2)[unfolded nf] by (cases rule: coerce_fields_cons)
      (use Cons(1,3) nf coerce_fields_keys [of N vals fs] in \<open>auto simp: is_dict_def\<close>)
qed simp

lemma coerce_fields_typed:
  "coerce_fields N vals fs = Inr c \<Longrightarrow> (n, x) \<in> set c \<Longrightarrow>
    \<exists>f v. (n, f) \<in> set fs \<and> dict_get vals n = Some v \<and> coerce_value N f v = Inr x \<and> x \<noteq> R_none"
proof (induction fs arbitrary: c)
  case (Cons nf fs)
  obtain m f where nf: "nf = (m, f)" by (cases nf)
  show ?case using Cons(2)[unfolded nf] by (cases rule: coerce_fields_cons) (use Cons(1,3) nf in fastforce)+
qed simp

lemma coerce_fields_required:
  "coerce_fields N vals fs = Inr c \<Longrightarrow> (n, f) \<in> set fs \<Longrightarrow> cf_required f \<Longrightarrow> \<exists>x. (n, x) \<in> set c \<and> x \<noteq> R_text []"
proof (induction fs arbitrary: c)
  case (Cons nf fs)
  obtain m g where nf: "nf = (m, g)" by (cases nf)
  show ?case using Cons(2)[unfolded nf] by (cases rule: coerce_fields_cons) (use Cons(1,3,4) nf in fastforce)+
qed simp

lemma is_dict_field_map: "is_dict (field_map fs)"
proof -
  have "is_dict d \<Longrightarrow> is_dict (fold (\<lambda>f. dict_set (cf_name f) f) fs d)" for d
    by (induction fs arbitrary: d) simp_all
  then show ?thesis by (simp add: field_map_def)
qed

lemma field_map_in: "dict_get (field_map fs) n = Some f \<Longrightarrow> f \<in> set fs"
proof -
  have "dict_get (fold (\<lambda>f. dict_set (cf_name f) f) fs d) n = Some f \<Longrightarrow> f \<in> set fs \<or> dict_get d n = Some f" for d
  proof (induction fs arbitrary: d)
    case (Cons a fs)
    then show ?case using Cons(1) [of "dict_set (cf_name a) a d"] by (auto simp: dict_simps split: if_splits)
  qed simp
  then show "dict_get (field_map fs) n = Some f \<Longrightarrow> f \<in> set fs" by (force simp: field_map_def)
qed

text \<open>
  C27: What a tool is built from has the types of its schema. Whatever the defaults, the settings, the agent's overrides
  and the normalizer hold, a configuration that resolves has only fields of the schema, each with a value of its
  field's type (a whole number is never a float, a number is within the bounds unless it is not-a-number, a choice is one
  of the options), and every required field is there and is not empty.
\<close>

theorem resolved_config_typed:
  assumes resolved: "resolve_tool_config N w d agent_configs = Inr c" and schema: "ct_schema d = Some fs"
  shows "is_dict c \<and>
    (\<forall>n x. dict_get c n = Some x \<longrightarrow> (\<exists>f. dict_get (field_map fs) n = Some f \<and> field_typed f x)) \<and>
    (\<forall>n f. dict_get (field_map fs) n = Some f \<longrightarrow> cf_required f \<longrightarrow> (\<exists>x. dict_get c n = Some x \<and> x \<noteq> R_text []))"
proof -
  obtain vals where vals: "coerce_fields N vals (field_map fs) = Inr c"
    using resolved schema by (auto simp: resolve_tool_config_def normalized_values_def Let_def split: option.splits)
  have dict: "is_dict c" using coerce_fields_dict [OF vals is_dict_field_map] .
  note in_c = dict_in_get [OF dict] and in_map = dict_in_get [OF is_dict_field_map [of fs]]
  have "\<exists>f. dict_get (field_map fs) n = Some f \<and> field_typed f x" if "dict_get c n = Some x" for n x
    using coerce_fields_typed [OF vals, of n x] that coerce_value_typed in_c in_map by blast
  moreover have "\<exists>x. dict_get c n = Some x \<and> x \<noteq> R_text []" if "dict_get (field_map fs) n = Some f" "cf_required f" for n f
    using coerce_fields_required [OF vals, of n f] that in_c in_map by blast
  ultimately show ?thesis using dict by blast
qed

section \<open>What was accepted is what is used\<close>

text \<open>A value whose float is a whole number: a double that is an integer converts back from it.\<close>

definition float_exact :: "py_numbers \<Rightarrow> raw \<Rightarrow> bool" where
  "float_exact N v = (case to_float N v of
      Some (Finite q) \<Rightarrow> q = of_int \<lfloor>q\<rfloor> \<longrightarrow> float_of_int N \<lfloor>q\<rfloor> = Some (Finite q)
    | _ \<Rightarrow> True)"

lemma coerce_number_again:
  assumes "coerce_number N f v = Inr u" and "u \<noteq> R_none" and "float_exact N v"
  shows "coerce_number N f u = Inr u"
proof -
  obtain x where x: "to_float N v = Some x" "\<not> is_below x (cf_min f)" "\<not> is_above x (cf_max f)" "u = whole_number x"
    using assms(1,2) by (auto simp: coerce_number_def split: option.splits if_splits)
  show ?thesis
  proof (cases "\<exists>q. x = Finite q \<and> q = of_int \<lfloor>q\<rfloor>")
    case True
    then obtain q where q: "x = Finite q" "q = of_int \<lfloor>q\<rfloor>" by blast
    have "float_of_int N \<lfloor>q\<rfloor> = Some (Finite q)" using assms(3) x(1) q by (simp add: float_exact_def)
    then show ?thesis using x q by (simp add: coerce_number_def)
  next
    case False
    then have "u = R_float x" using x(4) by (cases x) auto
    then show ?thesis using x False by (simp add: coerce_number_def)
  qed
qed

lemma coerce_again:
  assumes u: "coerce_value N f v = Inr u" "u \<noteq> R_none" and "float_exact N v"
    and options: "list_all (\<lambda>c. strip c = c) (cf_options f)"
  shows "coerce_value N f u = Inr u"
proof (cases "cf_type f = Boolean_input \<or> cf_type f = Number_input")
  case True
  then show ?thesis
    using assms coerce_number_again [of N f v u] by (auto simp: coerce_value_def split: if_splits)
next
  case False
  define t where "t = strip (shown_text N v)"
  have "\<exists>c. u = R_text c \<and> strip c = c \<and> (cf_type f = Select_input \<and> cf_options f \<noteq> [] \<and> c \<noteq> [] \<longrightarrow> c \<in> set (cf_options f))"
  proof (cases "cf_type f = Select_input \<and> cf_options f \<noteq> [] \<and> t \<noteq> []")
    case True
    then have "coerce_select f t = Inr u" using u by (auto simp: coerce_value_def t_def split: if_splits)
    then show ?thesis using options coerce_select_option [of f t u] by (auto simp: list_all_iff)
  next
    case no_choice: False
    then have "u = R_text t" using u False by (auto simp: coerce_value_def t_def Let_def split: if_splits input_type.splits)
    then show ?thesis using no_choice by (auto simp: t_def)
  qed
  then show ?thesis using False by (auto simp: coerce_value_def coerce_select_def Let_def split: input_type.split)
qed

lemma settings_over_takes:
  assumes "get_effective w (tool_config_key t n) = Some u" and "u \<noteq> R_none" and "n \<in> set names"
  shows "dict_get (settings_over w t names vals) n = Some u"
proof -
  let ?step = "\<lambda>n vals. case get_effective w (tool_config_key t n) of Some v \<Rightarrow> if v = R_none then vals else dict_set n v vals | None \<Rightarrow> vals"
  have keeps: "dict_get vals n = Some u \<Longrightarrow> dict_get (fold ?step ns vals) n = Some u" for ns vals
  proof (induction ns arbitrary: vals)
    case (Cons a ns)
    have "dict_get (?step a vals) n = Some u" using Cons(2) assms(1,2) by (cases "a = n") (auto simp: dict_simps split: option.split)
    then show ?case using Cons(1) by simp
  qed simp
  obtain as bs where "names = as @ n # bs" using assms(3) by (auto simp: in_set_conv_decomp)
  then show ?thesis using assms(1,2) by (simp add: settings_over_def keeps dict_simps)
qed

lemma coerce_fields_takes:
  "coerce_fields N vals fs = Inr c \<Longrightarrow> (n, f) \<in> set fs \<Longrightarrow> is_dict fs \<Longrightarrow> dict_get vals n = Some v \<Longrightarrow>
    coerce_value N f v = Inr x \<Longrightarrow> x \<noteq> R_none \<Longrightarrow> (n, x) \<in> set c"
proof (induction fs arbitrary: c)
  case (Cons nf fs)
  obtain m g where nf: "nf = (m, g)" by (cases nf)
  show ?case
    using Cons(2)[unfolded nf] by (cases rule: coerce_fields_cons) (use Cons(1,3-7) nf in \<open>auto simp: is_dict_def\<close>)
qed simp

lemma split_once_first: "c \<notin> set a \<Longrightarrow> split_once c (a @ c # r) = Some (a, r)"
  by (induction a) auto

lemma tool_key_parts: "CHR ''.'' \<notin> set t \<Longrightarrow> three_parts (tool_config_key t n) = Some (''tools'', t, n)"
  by (simp add: three_parts_def tool_config_key_def split_once_first)

lemma tool_key_special: "tool_config_key t n \<noteq> ''tools.shell'' \<and> tool_config_key t n \<noteq> ''tools.storage_root''"
proof -
  have "CHR ''.'' \<in> set (drop 6 (tool_config_key t n))" by (simp add: tool_config_key_def)
  moreover have "CHR ''.'' \<notin> set (drop 6 ''tools.shell'')" and "CHR ''.'' \<notin> set (drop 6 ''tools.storage_root'')" by simp_all
  ultimately show ?thesis by metis
qed

lemma database_write_read:
  "is_database_runtime_key k \<Longrightarrow> update_setting k v w = Some w' \<Longrightarrow> get_effective w' k = Some v"
  by (auto simp: update_setting_def get_effective_def database_value_def dict_simps)

text \<open>
  C28: A tool setting the dashboard accepted is the value the tool is built with. After the normalised value of a field is
  saved (not a reset, whose value is null), a configuration that resolves for an agent without overrides of the tool has
  exactly that value for the field, whatever was configured before. This takes a tool name without a dot,
  options without blanks around them, a value whose float, if it is a whole number, is also that of the integer (as
  doubles give it), and a tool whose normalizer, if it has one, leaves this field alone.
\<close>

theorem saved_setting_is_used:
  assumes accepted: "normalize_tool_setting_value N builtins (tool_config_key t n) v = Inr u" "u \<noteq> R_none"
    and tool: "find (\<lambda>d. ct_name d = t) builtins = Some d" "ct_schema d = Some fs" "CHR ''.'' \<notin> set t"
    and normalizer: "\<And>nrm vals ovr vals'. ct_normalizer d = Some nrm \<Longrightarrow> nrm vals ovr w' = Some vals' \<Longrightarrow> dict_get vals' n = dict_get vals n"
    and options: "\<And>f. f \<in> set fs \<Longrightarrow> list_all (\<lambda>c. strip c = c) (cf_options f)"
    and float: "float_exact N (trimmed v)"
    and saved: "is_database_runtime_key (tool_config_key t n)" "update_setting (tool_config_key t n) u w = Some w'"
    and resolved: "dict_get agent_configs t = None" "resolve_tool_config N w' d agent_configs = Inr c"
  shows "dict_get c n = Some u"
proof -
  have t: "ct_name d = t" using tool(1) by (simp add: find_Some_iff) blast
  obtain f where f: "dict_get (field_map fs) n = Some f" and "normalize_field_value N f n v = Inr u"
    using accepted(1) tool by (auto simp: normalize_tool_setting_value_def tool_key_special tool_key_parts split: option.splits)
  then have u: "coerce_value N f (trimmed v) = Inr u"
    using accepted(2) by (auto simp: normalize_field_value_def split: if_splits sum.splits)
  have "f \<in> set fs" using f by (rule field_map_in)
  then have again: "coerce_value N f u = Inr u" using coerce_again [OF u accepted(2) float] options by blast
  have "n \<in> set (keys (field_map fs))" using map_of_SomeD [OF f] by force
  then have taken: "dict_get (config_values w' d fs None) n = Some u"
    using settings_over_takes [OF database_write_read [OF saved] accepted(2)] by (simp add: config_values_def overrides_over_def t)
  obtain vals where vals: "normalized_values w' d None (config_values w' d fs None) = Some vals"
      "coerce_fields N vals (field_map fs) = Inr c"
    using resolved tool(2) by (auto simp: resolve_tool_config_def t split: option.splits)
  have "dict_get vals n = Some u"
    using vals(1) taken normalizer by (cases "ct_normalizer d") (auto simp: normalized_values_def)
  then have "(n, u) \<in> set c"
    using coerce_fields_takes [OF vals(2) map_of_SomeD [OF f] is_dict_field_map _ again accepted(2)] by blast
  moreover have "is_dict c" using coerce_fields_dict [OF vals(2) is_dict_field_map] .
  ultimately show ?thesis using dict_in_get [of c n u] by blast
qed

section \<open>Examples\<close>

definition sample_numbers :: py_numbers where
  "sample_numbers = \<lparr>float_of_text = (\<lambda>s. if s = ''45'' then Some (Finite 45) else if s = ''nan'' then Some Not_a_number else None),
     float_of_int = (\<lambda>n. Some (Finite (of_int n))), str_of_other = (\<lambda>v. ''?'')\<rparr>"

definition timeout_field :: config_field where
  "timeout_field = \<lparr>cf_name = ''timeout'', cf_type = Number_input, cf_default = R_int 30, cf_required = True, cf_options = [],
     cf_secret = False, cf_min = Some 1, cf_max = Some 60\<rparr>"

definition mode_field :: config_field where
  "mode_field = \<lparr>cf_name = ''mode'', cf_type = Select_input, cf_default = R_text ''FULL'', cf_required = False,
     cf_options = [''fast'', ''full''], cf_secret = False, cf_min = None, cf_max = None\<rparr>"

definition sample_tool :: configurable_tool where
  "sample_tool = \<lparr>ct_name = ''fetch'', ct_schema = Some [timeout_field, mode_field], ct_default_config = [], ct_normalizer = None\<rparr>"

definition sample_saved :: settings where
  "sample_saved = sample_settings\<lparr>se_database := [(''tools.fetch.timeout'', R_int 45)]\<rparr>"

lemmas sample_simps = sample_numbers_def timeout_field_def mode_field_def sample_tool_def sample_saved_def sample_settings_def

lemma sample_map: "field_map [timeout_field, mode_field] = [(''timeout'', timeout_field), (''mode'', mode_field)]"
  by (simp add: field_map_def timeout_field_def mode_field_def)

lemma sample_owned:
  "is_database_runtime_key (tool_config_key ''fetch'' ''timeout'')" "is_database_runtime_key (tool_config_key ''fetch'' ''mode'')"
  by code_simp+

lemma sample_effective:
  "get_effective sample_saved (tool_config_key ''fetch'' ''timeout'') = Some (R_int 45)"
  "get_effective sample_saved (tool_config_key ''fetch'' ''mode'') = None"
  using sample_owned
  by (simp_all add: sample_simps get_effective_def tool_config_key_def database_value_def file_value_def)

lemma sample_resolved:
  "resolve_tool_config sample_numbers sample_saved sample_tool [] =
     Inr [(''timeout'', R_int 45), (''mode'', R_text ''full'')]"
proof -
  have "config_values sample_saved sample_tool [timeout_field, mode_field] None =
      [(''timeout'', R_int 45), (''mode'', R_text ''FULL'')]"
    using sample_effective
    by (simp add: config_values_def overrides_over_def settings_over_def sample_map update_all_def schema_defaults_def sample_tool_def)
      (simp add: sample_simps)
  moreover have "coerce_value sample_numbers timeout_field (R_int 45) = Inr (R_int 45)"
    by (simp add: coerce_value_def coerce_number_def sample_simps)
  moreover have "coerce_value sample_numbers mode_field (R_text ''FULL'') = Inr (R_text ''full'')"
  proof -
    have "strip ''FULL'' = ''FULL''" and "lower_str ''FULL'' = ''full''" and "lower_str ''fast'' = ''fast''"
      and "lower_str ''full'' = ''full''" by code_simp+
    then show ?thesis by (simp add: coerce_value_def coerce_select_def sample_simps Let_def)
  qed
  ultimately show ?thesis
    by (simp add: resolve_tool_config_def normalized_values_def sample_map sample_tool_def)
qed

text \<open>A saved timeout and a choice spelled in capitals.\<close>

theorem resolved_config_typed_witness:
  "is_dict [(''timeout'', R_int 45), (''mode'', R_text ''full'')] \<and> (\<exists>f. dict_get (field_map [timeout_field, mode_field]) ''mode'' = Some f \<and> field_typed f (R_text ''full''))"
  using resolved_config_typed [OF sample_resolved, of "[timeout_field, mode_field]"] by (simp add: sample_tool_def)

text \<open>The dashboard sends the text \<open>45\<close>, the tool is built with the number 45.\<close>

theorem saved_setting_is_used_witness:
  "normalize_tool_setting_value sample_numbers [sample_tool] (tool_config_key ''fetch'' ''timeout'') (R_text '' 45'') = Inr (R_int 45) \<and>
   dict_get [(''timeout'', R_int 45), (''mode'', R_text ''full'')] ''timeout'' = Some (R_int 45)"
proof -
  have trim: "strip '' 45'' = ''45''" "strip ''45'' = ''45''"
    by (simp_all add: strip_def lstrip_def rstrip_def is_space_def Let_def)
  have norm: "normalize_tool_setting_value sample_numbers [sample_tool] (tool_config_key ''fetch'' ''timeout'') (R_text '' 45'') = Inr (R_int 45)"
    by (simp add: normalize_tool_setting_value_def tool_key_special tool_key_parts sample_tool_def sample_map)
      (simp add: normalize_field_value_def trim masked_secret_def coerce_value_def coerce_number_def sample_simps)
  have key: "is_database_runtime_key (tool_config_key ''fetch'' ''timeout'')"
    using sample_owned by simp
  have saved: "update_setting (tool_config_key ''fetch'' ''timeout'') (R_int 45) sample_settings = Some sample_saved"
    unfolding update_setting_def if_P [OF key] by (simp add: sample_saved_def tool_config_key_def) (simp add: sample_settings_def)
  have float: "float_exact sample_numbers (trimmed (R_text '' 45''))"
    by (simp add: trim float_exact_def sample_numbers_def)
  have options: "\<And>f. f \<in> set [timeout_field, mode_field] \<Longrightarrow> list_all (\<lambda>c. strip c = c) (cf_options f)"
    by (auto simp: timeout_field_def mode_field_def strip_def lstrip_def rstrip_def is_space_def Let_def)
  show ?thesis
    using norm saved_setting_is_used [OF norm _ _ _ _ _ options float key saved _ sample_resolved] by (simp add: sample_tool_def)
qed

text \<open>The text \<open>nan\<close> in a number field with bounds is accepted and saved as not-a-number.\<close>

lemma nan_passes_bounds:
  "coerce_value sample_numbers timeout_field (R_text ''nan'') = Inr (R_float Not_a_number)"
  by (simp add: coerce_value_def coerce_number_def sample_simps strip_def lstrip_def rstrip_def is_space_def Let_def)

end
