(* ===== verification/Spec2Isabelle.thy ===== *)
theory Spec2Isabelle
  imports Thinking_Stream Message_Content Session_Guard Pool_Execution Task_Lifecycle Compact_Thread
    Thread_Fork Switch_Gate Switch_Proofs Sync_Safety Entry_Replacement
    Tool_Catalog Tool_Invocation File_Edits File_Pages Project_Store Update_Status Browser_Proofs Tool_Config
begin

text \<open>
  A verification development for k41-agent, a server that runs language-model agents for several
  users and channels. Paths below are relative to \<open>src/agent/\<close>.

  The parts of the program and how they meet. A run of an agent on a thread registers a session
  (\<open>modules/agent_runtime/active_sessions.py\<close>); a background task is a run with attempts, a queue of events
  and a stored row (\<open>modules/agent_runtime/background_tasks.py\<close>). Each model call goes through a pool of
  providers (\<open>modules/providers/model_pools.py\<close>, \<open>pool_errors.py\<close>). What the model answers is split into
  reasoning and text (\<open>shared/infrastructure/thinking_parser.py\<close>, \<open>parsing.py\<close>) and stored in the
  checkpoints of the thread; a stored history is read back with its branches
  (\<open>modules/conversations/history.py\<close>), normalised for a model (\<open>modules/workflows/message_history.py\<close>),
  trimmed for a channel (\<open>history_trim.py\<close>) and compacted under the reservation that the session
  registry grants (\<open>modules/conversations/compaction.py\<close>, \<open>modules/providers/context_budget.py\<close>). The files an agent works on belong to a workspace, which can move
  between execution providers (\<open>modules/projects/runtime_switch.py\<close>) and be written back to the local
  directory it came from (\<open>local_sync.py\<close>); its saved revisions are manifests over a store of
  checksummed objects (\<open>storage.py\<close>). What an agent may call comes from the tool catalogue
  (\<open>modules/tools/\<close>, \<open>modules/mcp/\<close>); its coding tools ask the permissions, run under a journal and change
  files (\<open>modules/tools/coding/\<close>), and a conversation may have a browser, which the agent and the user
  drive in turn (\<open>modules/browser/\<close>). Settings come from defaults, a file and the database
  (\<open>shared/config/\<close>). The program itself is replaced by its updater (\<open>bootstrap/update.py\<close>).

  Theories, with the code they model:

  \<^item> \<open>Prelude\<close>: Python strings on U+0000 to U+00FF, dictionaries as association lists with distinct keys,
    dynamic values (\<open>pyval\<close>), and the lemmas on them that the components share.
  \<^item> \<open>Thinking_Parser\<close>, \<open>Thinking_Stream\<close>: the tag patterns, the splitter and the streaming parser; the
    contract of a tag pattern is the locale \<open>tag_matcher\<close>, interpreted for opening and closing tags, and the
    stream is shown equal to a character-by-character walk and so to the splitter.
  \<^item> \<open>Message_Content\<close>: content blocks of messages.
  \<^item> \<open>Active_Sessions\<close>, \<open>Session_Guard\<close>: the registry; its workers as a step relation; the reference count
    of a thread as the locale \<open>refcounted\<close>, interpreted on \<open>acquire\<close> and \<open>release\<close>.
  \<^item> \<open>Pool_Errors\<close>, \<open>Model_Pools\<close>, \<open>Pool_Execution\<close>: failures, the members' states, and executions; calls
    of other tasks come in between as steps of \<open>pool_step\<close> and as the results of the call and of the sleep.
  \<^item> \<open>Background_Tasks\<close>, \<open>Task_Lifecycle\<close>: the task manager, with the coroutine of an attempt cut at its
    awaits (\<open>begin_attempt\<close>, \<open>enter_run\<close>, \<open>end_run\<close>, \<open>settle_attempt\<close>), and its reachable states.
  \<^item> \<open>Chat_Messages\<close>: chat messages, their normalisation, and valid sequences.
  \<^item> \<open>Compaction\<close>, \<open>Compaction_Proofs\<close>, \<open>Compact_Thread\<close>: the summariser's transcript, the cut, the summary
    attempts, and the compaction of a stored thread.
  \<^item> \<open>Checkpoint_History\<close>, \<open>History_Proofs\<close>: the path of checkpoints, where a message was stored, branches,
    the answers a thread can be forked at, and the serialised thread.
  \<^item> \<open>Thread_Fork\<close>: forking a thread (\<open>modules/conversations/forking.py\<close>).
  \<^item> \<open>Runtime_Switch\<close>, \<open>Switch_Gate\<close>, \<open>Switch_Proofs\<close>: moving a workspace to another execution provider
    (\<open>modules/projects/runtime_switch.py\<close>, \<open>modules/workspaces/transitions.py\<close>): its gate, shown to be the
    locale \<open>admission\<close> of \<open>Admission\<close> (runs share, a switch excludes), and its run as a list of actions each
    of which may fail, as may the reads, writes and awaits of its failure handler and clean-up: atomicity, no sandbox
    lost, what the clean-up spares, recovery.

  \<^item> \<open>Project_Files\<close>, \<open>Local_Sync\<close>, \<open>Sync_Proofs\<close>, \<open>Sync_Safety\<close>: bringing a saved revision into a local
    directory (\<open>modules/projects/local_sync.py\<close>) among programs that write there too, also between the last check
    and the system call it guards: the three-way merge, what an application may destroy and what falls into that gap, and what a second one finds. \<open>Entry_Replacement\<close> opens the one step in which an
    entry gives way to one of another type into its system calls, with crashes between and inside them.

  \<^item> \<open>Tool_Catalog\<close>: the tools an agent gets (\<open>modules/tools/registry.py\<close>, \<open>policy.py\<close>, \<open>resolver.py\<close>), and
    those of MCP servers with the refresh of the catalogue (\<open>modules/mcp/service.py\<close>, \<open>tools/registry_service.py\<close>).
  \<^item> \<open>Tool_Permissions\<close>: which operations of the coding tools are allowed (\<open>modules/tools/coding/permissions.py\<close>,
    \<open>paths.py\<close>): the files of approvals are shown to refine the approvals themselves, and paths are confined.
  \<^item> \<open>Tool_Invocation\<close>: one call of a coding tool and its journal (\<open>coding/service.py\<close>, \<open>storage.py\<close>) as a step
    relation over any number of calls, with interruptions and stops of the process.
  \<^item> \<open>Utf8_Text\<close>, \<open>File_Edits\<close>, \<open>File_Pages\<close>: UTF-8 and lines as Python has them; the changes of a file by \<open>edit\<close>
    and \<open>write\<close> among other programs (\<open>coding/files.py\<close>); reading in byte pages, and the limits on what a model
    is shown (\<open>tools/runtime/output_policy.py\<close>).

  \<^item> \<open>Manifest_Check\<close>, \<open>Project_Store\<close>: the revisions of a project's files (\<open>modules/projects/storage.py\<close>): what a
    valid manifest is, where its links lead, and the object store with its caches; a saved revision is complete, and
    what is saved survives later saves and collections that name it.
  \<^item> \<open>App_Update\<close>, \<open>Update_Status\<close>: the installer of new releases (\<open>bootstrap/update.py\<close>, \<open>update_state.py\<close>), of
    whose calls each may fail or be the last: the old source is never lost, a failed update is undone, what served
    before serves afterwards, and the status file keeps two runs apart; one that a dead run left behind does not keep the next run away.
  \<^item> \<open>Browser_Sessions\<close>, \<open>Browser_Proofs\<close>: the local browsers of conversations (\<open>modules/browser/service.py\<close>,
    \<open>repository.py\<close>) as processes whose steps end where they wait for a lock or the browser. One invariant, kept by
    what a step may change while others hold their locks, gives: one user of a login profile, one hand on a browser,
    calls that run once, tickets that admit once.

  \<^item> \<open>Config_Settings\<close>, \<open>Tool_Config\<close>: the settings (\<open>shared/config/\<close>) with their owners, precedence and updates, and the
    configurations of tools (\<open>modules/tools/config.py\<close>): what is saved is read back, what was accepted is what a
    tool is built with, and it has the types of its schema.

  Conventions. Time and floats are exact (\<open>rat\<close>). A lock makes the block it guards one step; an await cuts
  a coroutine into steps. A call that leaves the source (the model, the checkpointer, \<open>trim_messages\<close>, the
  clock, number and date parsing) is a parameter. Python's exceptions are values of error types. Loops end
  by a measure: the text left (parsers), the list left (transcripts), the retries left (attempts), the
  identities not yet seen (exception chains and checkpoint paths, which may be cyclic). The only fuel is the
  number of pages of \<open>File_Pages.read_on\<close>, and one more than the length of the file is shown to be enough.

  In \<open>Local_Sync\<close> and \<open>File_Edits\<close> other programs act between a check and the system call it guards; only the checks of
  the entries below one directory that gives way are made at once. That names made with SHA-256 differ is a hypothesis
  where it is used; the process may write everywhere below its root; file contents are given by their checksums; Windows is left out.

  Not modelled: strings beyond U+00FF; floating-point rounding; logging; the backends of workspaces,
  channels and calendars, which only do I/O; the browser behind its driver; searches, processes and remote workers of the coding tools; the graph library; the statements of the database;
  the option tables, migrations and encryption of settings.

  Known gaps inside what is modelled. A coroutine is not cancelled while it sleeps between two calls of a pool member, while it awaits
  the observer of a closed browser session, or after the commit that hands a browser over. A journal write of a
  browser call that fails is not followed further. The deletion of a conversation with its browser is left out, and browsers end
  with the program. The resolver gives descriptors; a tool that cannot be built from one raises in the source. A linked git
  worktree below the root of a capture is refused by the source and does not occur here.
\<close>

end
